(* ===== verification/Prelude.thy ===== *)
theory Prelude
  imports Main "HOL-Library.Word" "HOL-Library.Sublist" "HOL-Library.Multiset"
begin

text \<open>
  Shared vocabulary of the development: machine integers and byte strings, the exceptions
  the library raises as values, the collections of rewrite rules the component proofs use,
  and generic facts on words, lists and maps.

  A function of the library that may raise while it has already changed an object is
  modelled as a function that returns the changed object together with a value of
  \<open>exn + 'a\<close>: the state an exception leaves behind is part of the model.
\<close>

unbundle bit_operations_syntax

named_theorems inv_intros \<open>operations keep the invariant of their component\<close>

subsection \<open>Machine types\<close>

type_synonym byte = "8 word"
type_synonym u32 = "32 word"
type_synonym u64 = "64 word"
type_synonym size_t = "64 word"
type_synonym bytes = "byte list"

subsection \<open>Exceptions\<close>

text \<open>
  \<open>Rpc_exception code category additional\<close> is \<open>vtrc::common::exception\<close>; the other
  constructors are the standard exceptions the sources raise. \<open>Undefined\<close> marks a
  point where the C++ text has undefined behaviour; no theorem gives it a meaning.
\<close>

datatype exn =
    Length_error string
  | Logic_error string
  | Out_of_range string
  | Runtime_error string
  | Rpc_exception nat nat string
  | Other_exception
  | Undefined

text \<open>\<open>and_then\<close> goes on with the value of a part that did not raise.\<close>

fun and_then :: "exn + 'a \<Rightarrow> ('a \<Rightarrow> exn + 'b) \<Rightarrow> exn + 'b" where
  "and_then (Inl e) f = Inl e"
| "and_then (Inr x) f = f x"

subsection \<open>Numbers as text\<close>

text \<open>\<open>std::ostream << unsigned\<close>.\<close>

definition digit :: "nat \<Rightarrow> char" where
  "digit n = char_of (48 + n)"

fun dec :: "nat \<Rightarrow> string" where
  "dec n = (if n < 10 then [digit n] else dec (n div 10) @ [digit (n mod 10)])"

declare dec.simps [simp del]

subsection \<open>Words\<close>

lemma unat_drop_bit_word:
  fixes w :: "'a::len word"
  shows "unat (drop_bit n w) = unat w div 2 ^ n"
  by (simp add: unat_drop_bit_eq flip: drop_bit_eq_div)

lemma unat_of_nat_small: "n < 2 ^ LENGTH('a) \<Longrightarrow> unat (of_nat n :: 'a::len word) = n"
  by (simp add: unat_of_nat)

lemma unat_plus_of_nat_le: "unat (a + of_nat n :: 'a::len word) \<le> unat a + n"
  by (simp add: unat_word_ariths unat_of_nat mod_add_right_eq)

lemma unat_sub_of_nat: "n \<le> unat (w :: 'a::len word) \<Longrightarrow> unat (w - of_nat n) = unat w - n"
proof -
  assume n: "n \<le> unat w"
  then have "unat (of_nat n :: 'a word) = n"
    by (intro unat_of_nat_small) (meson le_less_trans unsigned_less)
  with n show ?thesis by (simp add: unat_sub_if')
qed

lemma bit_byte_iff_less: "bit (b :: byte) n \<Longrightarrow> n < 8"
  using bit_imp_le_length by fastforce

lemma bit_u32_less: "bit (w :: u32) n \<Longrightarrow> n < 32"
  using bit_imp_le_length by fastforce

lemma xor_right_cancel [simp]: "(a :: 'a::len word) XOR c = b XOR c \<longleftrightarrow> a = b"
  by (auto simp: bit_eq_iff bit_simps)

lemma xor_left_cancel [simp]: "c XOR (a :: 'a::len word) = c XOR b \<longleftrightarrow> a = b"
  by (auto simp: bit_eq_iff bit_simps)

lemma xor_eq_0_iff [simp]: "(a :: 'a::len word) XOR b = 0 \<longleftrightarrow> a = b"
  by (auto simp: bit_eq_iff bit_simps)

lemma xor_eq_left_iff [simp]: "(a :: 'a::len word) XOR b = a \<longleftrightarrow> b = 0"
  by (auto simp: bit_eq_iff bit_simps)

lemma word_neq_0_bit: "(w :: 'a::len word) \<noteq> 0 \<longleftrightarrow> (\<exists>n. bit w n)"
  by (metis bit_eqI bit_0_eq bot_apply bot_bool_def)

text \<open>\<open>bit_simps\<close> moves a numeral to \<open>int\<close>, so the masks of the sources are given there.\<close>

lemma bit_int_0x7F [simp]: "bit (0x7F ::int) n \<longleftrightarrow> n < 7"
proof -
  have "(0x7F :: int) = mask 7" by (simp add: mask_eq_exp_minus_1)
  then show ?thesis by (simp only: bit_mask_iff) simp
qed

lemma bit_int_0x80 [simp]: "bit (0x80 ::int) n \<longleftrightarrow> n = 7"
proof -
  have "(0x80 :: int) = 2 ^ 7" by simp
  then show ?thesis by (simp only: bit_exp_iff) auto
qed

lemma bit_int_0xFF [simp]: "bit (0xFF ::int) n \<longleftrightarrow> n < 8"
proof -
  have "(0xFF :: int) = mask 8" by (simp add: mask_eq_exp_minus_1)
  then show ?thesis by (simp only: bit_mask_iff) simp
qed

subsection \<open>Lists\<close>

lemma append_eq_cases:
  assumes "xs @ rest = ys @ zs"
  obtains (shorter) "strict_prefix xs ys" | (longer) d where "xs = ys @ d"
  using assms by (metis append_Nil2 append_eq_append_conv2 prefix_def strict_prefix_def)

text \<open>\<open>std::map\<close> as a list of pairs sorted by key.\<close>

lemma map_of_insort:
  "k \<notin> fst ` set xs \<Longrightarrow> map_of (insort_key fst (k, v) xs) = (map_of xs)(k \<mapsto> v)"
  by (induction xs) (auto simp: fun_eq_iff)

lemma distinct_map_insort:
  "distinct (map f (insort_key g x xs)) \<longleftrightarrow> f x \<notin> f ` set xs \<and> distinct (map f xs)"
proof -
  have "mset (map f (insort_key g x xs)) = mset (f x # map f xs)" by simp
  then have "distinct (map f (insort_key g x xs)) = distinct (f x # map f xs)"
    by (rule mset_eq_imp_distinct_iff)
  then show ?thesis by simp
qed

lemma map_of_filter_key: "map_of (filter (\<lambda>(k', _). k' \<noteq> k) xs) = (map_of xs)(k := None)"
  by (induction xs) (auto simp: fun_eq_iff)

end
