(* ===== verification/Sizepack.thy ===== *)
theory Sizepack
  imports Prelude
begin

text \<open>
  The length prefixes of the wire format, \<open>lib/vtrc/common/sizepack-policy.h\<close>:
  \<open>fixint_policy\<close> (big endian, eight bytes) and \<open>varint_policy\<close> (seven bits a byte, low
  group first, high bit set on every byte but the last), both at \<open>size_t\<close> of 64 bits.
  The C++ templates take a policy as a type; here a policy is a record of its static
  members, and the locale \<open>size_policy\<close> states what the data queue relies on.
\<close>

subsection \<open>The policy interface\<close>

record spp =
  spp_max_length :: nat
  spp_size_length :: "bytes \<Rightarrow> nat"
  spp_packed_length :: "size_t \<Rightarrow> nat"
  spp_pack :: "size_t \<Rightarrow> bytes"
  spp_unpack :: "bytes \<Rightarrow> size_t"

subsection \<open>fixint\<close>

definition fixint_max_length :: nat where
  "fixint_max_length = 8"

definition fixint_size_length :: "bytes \<Rightarrow> nat" where
  "fixint_size_length data =
     (if length data < fixint_max_length then 0 else fixint_max_length)"

definition fixint_packed_length :: "size_t \<Rightarrow> nat" where
  "fixint_packed_length input = fixint_max_length"

text \<open>The loop fills \<open>res\<close> from its last byte to its first, so what it has written so
  far is the tail of the result.\<close>

fun fixint_pack_loop :: "nat \<Rightarrow> size_t \<Rightarrow> bytes \<Rightarrow> bytes" where
  "fixint_pack_loop 0 sz res = res"
| "fixint_pack_loop (Suc current) sz res =
     fixint_pack_loop current (drop_bit 8 sz) (ucast (sz AND 0xFF) # res)"

definition fixint_pack :: "size_t \<Rightarrow> bytes" where
  "fixint_pack sz = fixint_pack_loop fixint_max_length sz []"

text \<open>The second overload of \<open>pack\<close> writes through a pointer: memory from the pointer
  on is a function of the offset, and the result is the number of bytes written.\<close>

fun fixint_pack_to_loop :: "nat \<Rightarrow> size_t \<Rightarrow> (nat \<Rightarrow> byte) \<Rightarrow> (nat \<Rightarrow> byte)" where
  "fixint_pack_to_loop 0 sz res = res"
| "fixint_pack_to_loop (Suc current) sz res =
     fixint_pack_to_loop current (drop_bit 8 sz) (res(current := ucast (sz AND 0xFF)))"

definition fixint_pack_to :: "size_t \<Rightarrow> (nat \<Rightarrow> byte) \<Rightarrow> (nat \<Rightarrow> byte) \<times> nat" where
  "fixint_pack_to sz res = (fixint_pack_to_loop fixint_max_length sz res, fixint_max_length)"

fun fixint_unpack_loop :: "nat \<Rightarrow> bytes \<Rightarrow> size_t \<Rightarrow> size_t" where
  "fixint_unpack_loop 0 data res = res"
| "fixint_unpack_loop (Suc cur) [] res = res"
| "fixint_unpack_loop (Suc cur) (b # data) res =
     fixint_unpack_loop cur data (res OR push_bit (8 * cur) (ucast b))"

definition fixint_unpack :: "bytes \<Rightarrow> size_t" where
  "fixint_unpack data = fixint_unpack_loop fixint_max_length data 0"

definition fixint_policy :: spp where
  "fixint_policy =
     \<lparr> spp_max_length = fixint_max_length,
       spp_size_length = fixint_size_length,
       spp_packed_length = fixint_packed_length,
       spp_pack = fixint_pack,
       spp_unpack = fixint_unpack \<rparr>"

subsection \<open>varint\<close>

definition varint_max_length :: nat where
  "varint_max_length = 8 * 8 div 7 + 1"

fun varint_size_length_loop :: "bytes \<Rightarrow> nat \<Rightarrow> byte \<Rightarrow> nat \<times> byte" where
  "varint_size_length_loop [] len prev = (len, prev)"
| "varint_size_length_loop (b # data) len prev =
     (if prev AND 0x80 \<noteq> 0 then varint_size_length_loop data (Suc len) b
      else (len, prev))"

definition varint_size_length :: "bytes \<Rightarrow> nat" where
  "varint_size_length data =
     (case varint_size_length_loop data 0 0x80 of
        (len, prev) \<Rightarrow> if prev AND 0x80 \<noteq> 0 then 0 else len)"

lemma drop_bit_7_less:
  fixes w :: size_t
  assumes "w \<noteq> 0"
  shows "unat (drop_bit 7 w) < unat w"
  using assms by (simp add: unat_drop_bit_word unat_gt_0)

function varint_packed_length :: "size_t \<Rightarrow> nat" where
  "varint_packed_length input =
     (if input \<noteq> 0 then Suc (varint_packed_length (drop_bit 7 input)) else 0)"
  by pat_completeness auto
termination
  by (relation "measure unat") (simp_all add: drop_bit_7_less)

function varint_pack :: "size_t \<Rightarrow> bytes" where
  "varint_pack sz =
     (if sz > 0x7F
      then (ucast (sz AND 0x7F) OR 0x80) # varint_pack (drop_bit 7 sz)
      else [ucast sz])"
  by pat_completeness auto
termination
  by (relation "measure unat") (auto intro!: drop_bit_7_less)

function varint_pack_to_loop ::
    "size_t \<Rightarrow> nat \<Rightarrow> (nat \<Rightarrow> byte) \<Rightarrow> (nat \<Rightarrow> byte) \<times> nat" where
  "varint_pack_to_loop sz index res =
     (if sz > 0x7F
      then varint_pack_to_loop (drop_bit 7 sz) (Suc index)
             (res(index := ucast (sz AND 0x7F) OR 0x80))
      else (res(index := ucast sz), Suc index))"
  by pat_completeness auto
termination
  by (relation "measure (\<lambda>(sz, index, res). unat sz)") (auto intro!: drop_bit_7_less)

definition varint_pack_to :: "size_t \<Rightarrow> (nat \<Rightarrow> byte) \<Rightarrow> (nat \<Rightarrow> byte) \<times> nat" where
  "varint_pack_to sz res = varint_pack_to_loop sz 0 res"

text \<open>C++ leaves a shift by 64 or more undefined. The parser calls \<open>unpack\<close> only on a
  prefix of at most ten bytes, whose largest shift is 63.\<close>

fun varint_unpack_loop :: "bytes \<Rightarrow> size_t \<Rightarrow> nat \<Rightarrow> byte \<Rightarrow> size_t" where
  "varint_unpack_loop [] res shift prev = res"
| "varint_unpack_loop (b # data) res shift prev =
     (if prev AND 0x80 \<noteq> 0
      then varint_unpack_loop data (res OR push_bit shift (ucast (b AND 0x7F))) (shift + 7) b
      else res)"

definition varint_unpack :: "bytes \<Rightarrow> size_t" where
  "varint_unpack data = varint_unpack_loop data 0 0 0x80"

definition varint_policy :: spp where
  "varint_policy =
     \<lparr> spp_max_length = varint_max_length,
       spp_size_length = varint_size_length,
       spp_packed_length = varint_packed_length,
       spp_pack = varint_pack,
       spp_unpack = varint_unpack \<rparr>"

declare varint_packed_length.simps [simp del] varint_pack.simps [simp del]
  varint_pack_to_loop.simps [simp del]

subsection \<open>What the data queue relies on\<close>

text \<open>
  A prefix is recognised as soon as it is complete and not before, whatever follows it;
  its length is within the policy's bound; and it unpacks to the number it was made from.
\<close>

locale size_policy =
  fixes P :: spp
  assumes size_length_pack: "spp_size_length P (spp_pack P n @ rest) = length (spp_pack P n)"
    and unpack_pack: "spp_unpack P (spp_pack P n @ rest) = n"
    and pack_not_empty: "spp_pack P n \<noteq> []"
    and pack_length: "length (spp_pack P n) \<le> spp_max_length P"
    and size_length_take:
      "k < length (spp_pack P n) \<Longrightarrow> spp_size_length P (take k (spp_pack P n)) = 0"
    and size_length_append:
      "spp_size_length P xs \<noteq> 0 \<Longrightarrow> spp_size_length P (xs @ ys) = spp_size_length P xs"
    and size_length_le: "spp_size_length P xs \<le> length xs"
    and unpack_append:
      "spp_size_length P xs \<noteq> 0 \<Longrightarrow> spp_unpack P (xs @ ys) = spp_unpack P xs"
    and max_length_small: "spp_max_length P \<le> 10"

subsection \<open>fixint: proofs\<close>

lemma fixint_pack_loop_length: "length (fixint_pack_loop n sz res) = n + length res"
  by (induction n sz res rule: fixint_pack_loop.induct) auto

lemma fixint_pack_length [simp]: "length (fixint_pack sz) = 8"
  by (simp add: fixint_pack_def fixint_pack_loop_length fixint_max_length_def)


lemma fixint_pack_not_Nil: "fixint_pack sz \<noteq> []"
  using fixint_pack_length [of sz] by (metis list.size(3) zero_neq_numeral)

lemma ucast_low_byte: "(ucast (sz AND 0xFF) :: byte) = ucast (sz :: size_t)"
  by (auto simp: bit_eq_iff bit_simps)

lemma upt_rev_Suc: "rev [0..<Suc n] = map Suc (rev [0..<n]) @ [0]"
  by (simp add: upt_conv_Cons rev_map flip: map_Suc_upt del: upt_Suc)

lemma fixint_pack_loop_bytes:
  "fixint_pack_loop n sz res = map (\<lambda>i. ucast (drop_bit (8 * i) sz)) (rev [0..<n]) @ res"
proof (induction n sz res rule: fixint_pack_loop.induct)
  case (1 sz res)
  then show ?case by simp
next
  case (2 n sz res)
  then show ?case
    by (simp only: fixint_pack_loop.simps upt_rev_Suc ucast_low_byte)
      (simp add: o_def add.commute)
qed

lemma bytes_take_bit_Suc:
  "push_bit (8 * n) (ucast (ucast (drop_bit (8 * n) sz) :: byte)) OR take_bit (8 * n) sz
     = take_bit (8 * Suc n) (sz :: size_t)"
  by (rule bit_eqI) (auto simp: bit_simps)

lemma fixint_unpack_loop_pack:
  "fixint_unpack_loop n (map (\<lambda>i. ucast (drop_bit (8 * i) sz)) (rev [0..<n]) @ rest) res
     = res OR take_bit (8 * n) sz"
proof (induction n arbitrary: res)
  case 0
  show ?case by simp
next
  case (Suc n)
  then show ?case
    by (simp add: or.assoc bytes_take_bit_Suc del: mult_Suc_right)
qed

lemma fixint_unpack_pack: "fixint_unpack (fixint_pack n @ rest) = n"
  by (simp add: fixint_unpack_def fixint_pack_def fixint_max_length_def
      fixint_pack_loop_bytes fixint_unpack_loop_pack take_bit_word_eq_self del: upt_rec_numeral)

lemma fixint_unpack_loop_append:
  "n \<le> length xs \<Longrightarrow> fixint_unpack_loop n (xs @ ys) res = fixint_unpack_loop n xs res"
  by (induction n xs res rule: fixint_unpack_loop.induct) auto

interpretation fixint: size_policy fixint_policy
proof unfold_locales
  fix xs ys :: bytes
  assume "spp_size_length fixint_policy xs \<noteq> 0"
  then show "spp_unpack fixint_policy (xs @ ys) = spp_unpack fixint_policy xs"
    by (auto simp: fixint_policy_def fixint_size_length_def fixint_unpack_def
        fixint_unpack_loop_append split: if_splits)
qed (auto simp: fixint_policy_def fixint_unpack_pack fixint_size_length_def
    fixint_max_length_def fixint_pack_not_Nil split: if_splits)

subsection \<open>varint: proofs\<close>

text \<open>The two shapes of a byte of a prefix: a continuation byte and the last one.\<close>

lemma byte_high_bit: "(b :: byte) AND 0x80 \<noteq> 0 \<longleftrightarrow> bit b 7"
  by (auto simp: word_neq_0_bit bit_simps)

lemma cont_byte_high: "bit (ucast (sz AND 0x7F) OR 0x80 :: byte) 7"
  by (simp add: bit_simps)

lemma cont_byte_low:
  "(ucast ((ucast (sz AND 0x7F) OR 0x80 :: byte) AND 0x7F) :: size_t) = take_bit 7 sz"
  by (rule bit_eqI) (auto simp: bit_simps)

lemma small_take_bit: "(sz :: size_t) \<le> 0x7F \<Longrightarrow> take_bit 7 sz = sz"
  by (simp only: take_bit_eq_self_iff_drop_bit_eq_0 flip: unat_eq_0)
    (simp add: unat_drop_bit_word word_le_nat_alt flip: drop_bit_eq_div)

lemma last_byte_high: "sz \<le> 0x7F \<Longrightarrow> \<not> bit (ucast (sz :: size_t) :: byte) 7"
  using small_take_bit [of sz] by (metis bit_take_bit_iff bit_ucast_iff less_irrefl)

lemma last_byte_low:
  "sz \<le> 0x7F \<Longrightarrow> (ucast ((ucast (sz :: size_t) :: byte) AND 0x7F) :: size_t) = sz"
  using small_take_bit [of sz] by (auto simp: bit_eq_iff bit_simps)

lemma split_7_bits:
  "push_bit shift (take_bit 7 sz) OR push_bit (shift + 7) (drop_bit 7 sz) = push_bit shift (sz :: size_t)"
proof (rule bit_eqI)
  fix n
  show "bit (push_bit shift (take_bit 7 sz) OR push_bit (shift + 7) (drop_bit 7 sz)) n
          = bit (push_bit shift sz) n"
    by (cases "n < shift + 7") (auto simp: bit_simps)
qed

lemma varint_pack_small [simp]: "sz \<le> 0x7F \<Longrightarrow> varint_pack sz = [ucast sz]"
  by (subst varint_pack.simps) (simp add: leD)

lemma varint_pack_big:
  "\<not> sz \<le> 0x7F \<Longrightarrow>
     varint_pack sz = (ucast (sz AND 0x7F) OR 0x80) # varint_pack (drop_bit 7 sz)"
  by (subst varint_pack.simps) (simp add: not_less)

lemma varint_pack_induct [case_names small big]:
  assumes "\<And>sz. sz \<le> 0x7F \<Longrightarrow> P sz"
    and "\<And>sz. \<not> sz \<le> 0x7F \<Longrightarrow> P (drop_bit 7 sz) \<Longrightarrow> P sz"
  shows "P (sz :: size_t)"
proof (induction sz rule: varint_pack.induct)
  case (1 sz)
  then show ?case using assms by (cases "sz \<le> 0x7F") (auto simp: not_le)
qed

text \<open>All bytes of a packed size but the last carry the continuation bit.\<close>

lemma varint_pack_shape:
  "varint_pack sz \<noteq> [] \<and> (\<forall>b \<in> set (butlast (varint_pack sz)). bit b 7)
     \<and> \<not> bit (last (varint_pack sz)) 7"
  by (induction sz rule: varint_pack_induct)
    (auto simp: varint_pack_big last_byte_high cont_byte_high)

lemma varint_size_length_loop:
  "bit prev 7 \<Longrightarrow>
     (case varint_size_length_loop data len prev of (l, p) \<Rightarrow> if bit p 7 then 0 else l)
       = (if \<forall>b \<in> set data. bit b 7 then 0
          else len + Suc (length (takeWhile (\<lambda>b. bit b 7) data)))"
proof (induction data arbitrary: len prev)
  case Nil
  then show ?case by simp
next
  case (Cons b data)
  then show ?case
    by (cases "bit b 7"; cases data) (auto simp: byte_high_bit)
qed

lemma varint_size_length_eq:
  "varint_size_length data
     = (if \<forall>b \<in> set data. bit b 7 then 0 else Suc (length (takeWhile (\<lambda>b. bit b 7) data)))"
  using varint_size_length_loop [of "0x80" data 0]
  by (simp add: varint_size_length_def byte_high_bit)

lemma varint_size_length_0: "varint_size_length data = 0 \<longleftrightarrow> (\<forall>b \<in> set data. bit b 7)"
  by (simp add: varint_size_length_eq)

lemma length_takeWhile_less: "\<exists>x \<in> set xs. \<not> Q x \<Longrightarrow> length (takeWhile Q xs) < length xs"
  by (induction xs) auto

lemma varint_size_length_le: "varint_size_length xs \<le> length xs"
  by (auto simp: varint_size_length_eq Suc_le_eq intro!: length_takeWhile_less)

lemma takeWhile_butlast_last:
  "xs \<noteq> [] \<Longrightarrow> (\<And>x. x \<in> set (butlast xs) \<Longrightarrow> Q x) \<Longrightarrow> \<not> Q (last xs) \<Longrightarrow>
     takeWhile Q (xs @ ys) = butlast xs"
  by (induction xs) (auto split: if_splits)

lemma varint_size_length_pack:
  "varint_size_length (varint_pack sz @ rest) = length (varint_pack sz)"
proof -
  let ?p = "varint_pack sz"
  have ne: "?p \<noteq> []" and cont: "\<And>b. b \<in> set (butlast ?p) \<Longrightarrow> bit b 7"
    and fin: "\<not> bit (last ?p) 7"
    using varint_pack_shape [of sz] by auto
  have "last ?p \<in> set (?p @ rest)" using ne by simp
  with fin have "\<not> (\<forall>b \<in> set (?p @ rest). bit b 7)" by blast
  moreover have "takeWhile (\<lambda>b. bit b 7) (?p @ rest) = butlast ?p"
    using ne cont fin by (rule takeWhile_butlast_last)
  ultimately show ?thesis
    using ne by (simp add: varint_size_length_eq del: set_append)
qed

lemma varint_size_length_take:
  "k < length (varint_pack sz) \<Longrightarrow> varint_size_length (take k (varint_pack sz)) = 0"
  using varint_pack_shape [of sz]
  by (auto simp: varint_size_length_0 butlast_conv_take
      dest!: set_take_subset_set_take [of k "length (varint_pack sz) - 1", THEN subsetD, rotated])

lemma varint_unpack_loop_stop: "\<not> bit prev 7 \<Longrightarrow> varint_unpack_loop data res shift prev = res"
  by (cases data) (auto simp: byte_high_bit)

lemma varint_unpack_loop_pack:
  "bit prev 7 \<Longrightarrow> varint_unpack_loop (varint_pack sz @ rest) res shift prev = res OR push_bit shift sz"
proof (induction sz arbitrary: res shift prev rule: varint_pack_induct)
  case (small sz)
  then show ?case
    by (simp add: byte_high_bit varint_unpack_loop_stop last_byte_high last_byte_low)
next
  case (big sz)
  then show ?case
    by (simp add: varint_pack_big byte_high_bit cont_byte_high cont_byte_low or.assoc split_7_bits)
qed

lemma varint_unpack_pack: "varint_unpack (varint_pack sz @ rest) = sz"
  by (simp add: varint_unpack_def varint_unpack_loop_pack)

lemma varint_unpack_loop_append:
  "\<exists>b \<in> set xs. \<not> bit b 7 \<Longrightarrow>
     varint_unpack_loop (xs @ ys) res shift prev = varint_unpack_loop xs res shift prev"
  by (induction xs arbitrary: res shift prev) (auto simp: varint_unpack_loop_stop)

lemma varint_pack_length_le: "unat sz < 2 ^ (7 * n) \<Longrightarrow> 0 < n \<Longrightarrow> length (varint_pack sz) \<le> n"
proof (induction sz arbitrary: n rule: varint_pack_induct)
  case (small sz)
  then show ?case by simp
next
  case (big sz)
  then obtain m where m: "n = Suc m" "m \<noteq> 0"
    by (cases n; cases "n = 1") (auto simp: word_le_nat_alt)
  with big.prems have "unat (drop_bit 7 sz) < 2 ^ (7 * m)"
    by (simp add: unat_drop_bit_word power_add less_mult_imp_div_less mult.commute)
  with big.IH m have "length (varint_pack (drop_bit 7 sz)) \<le> m" by simp
  with big.hyps m show ?case by (simp add: varint_pack_big)
qed

lemma varint_pack_length_10: "length (varint_pack sz) \<le> 10"
proof (rule varint_pack_length_le)
  have "unat sz < 2 ^ 64" using unsigned_less [of sz] by simp
  also have "(2 :: nat) ^ 64 \<le> 2 ^ (7 * 10)" by simp
  finally show "unat sz < 2 ^ (7 * 10)" .
qed simp

lemma varint_size_length_append:
  "varint_size_length xs \<noteq> 0 \<Longrightarrow> varint_size_length (xs @ ys) = varint_size_length xs"
  by (auto simp: varint_size_length_eq takeWhile_append1 split: if_splits)

lemma varint_unpack_append:
  "varint_size_length xs \<noteq> 0 \<Longrightarrow> varint_unpack (xs @ ys) = varint_unpack xs"
  by (auto simp: varint_unpack_def varint_size_length_0 varint_unpack_loop_append)

interpretation varint: size_policy varint_policy
  by unfold_locales
    (simp_all add: varint_policy_def varint_unpack_pack varint_size_length_pack
      varint_pack_shape varint_size_length_take varint_size_length_append varint_pack_length_10
      varint_unpack_append varint_size_length_le varint_max_length_def)

text \<open>Writing through a pointer leaves the same bytes and reports their number.\<close>

lemma varint_pack_to_loop_eq:
  "varint_pack_to_loop sz index res =
     ((\<lambda>i. if index \<le> i \<and> i < index + length (varint_pack sz)
           then varint_pack sz ! (i - index) else res i), index + length (varint_pack sz))"
proof (induction sz arbitrary: index res rule: varint_pack_induct)
  case (small sz)
  then show ?case
    by (subst varint_pack_to_loop.simps) (auto simp: fun_eq_iff leD le_less_Suc_eq)
next
  case (big sz)
  then show ?case
    by (subst varint_pack_to_loop.simps)
      (auto simp: fun_eq_iff not_le varint_pack_big nth_Cons' Suc_le_eq)
qed

lemma fixint_pack_to_loop_eq:
  "fixint_pack_to_loop n sz res =
     (\<lambda>i. if i < n then ucast (drop_bit (8 * (n - 1 - i)) sz) else res i)"
proof (induction n arbitrary: sz res)
  case 0
  show ?case by simp
next
  case (Suc n)
  show ?case
    by (auto simp: Suc ucast_low_byte fun_eq_iff less_Suc_eq Suc_diff_Suc diff_mult_distrib2)
qed

lemma fixint_pack_nth: "i < 8 \<Longrightarrow> fixint_pack sz ! i = ucast (drop_bit (8 * (7 - i)) sz)"
  by (simp add: fixint_pack_def fixint_pack_loop_bytes fixint_max_length_def rev_nth
      del: upt_rec_numeral)

text \<open>
  C36. The variable-length size prefix round-trips: a packed size, whatever bytes follow it,
  is recognised at exactly its own length, unpacks to the number it was made from, and takes
  between one and ten bytes.
\<close>

theorem varint_roundtrip:
  "varint_unpack (varint_pack n @ rest) = n
   \<and> varint_size_length (varint_pack n @ rest) = length (varint_pack n)
   \<and> 1 \<le> length (varint_pack n) \<and> length (varint_pack n) \<le> varint_max_length"
  using varint.unpack_pack [of n rest] varint.size_length_pack [of n rest]
    varint.pack_length [of n] varint.pack_not_empty [of n]
  by (simp add: varint_policy_def Suc_le_eq)

text \<open>
  The fixed-width prefix is the big-endian encoding of the size on eight bytes: it
  round-trips, and both overloads of \<open>pack\<close> (the string and the pointer one, in either
  policy) produce the same bytes and the same length.
\<close>

theorem pack_overloads_agree:
  "fixint_unpack (fixint_pack n @ rest) = n
   \<and> fixint_pack_to n res = ((\<lambda>i. if i < 8 then fixint_pack n ! i else res i), 8)
   \<and> varint_pack_to n res =
       ((\<lambda>i. if i < length (varint_pack n) then varint_pack n ! i else res i),
        length (varint_pack n))"
  by (auto simp: fixint_unpack_pack fixint_pack_to_def fixint_pack_to_loop_eq fixint_pack_nth
      fixint_max_length_def varint_pack_to_def varint_pack_to_loop_eq fun_eq_iff)

text \<open>
  \<open>varint_policy::packed_length\<close> is the length of the packed size for every size but 0,
  where it answers 0 although \<open>pack\<close> emits one byte.
\<close>

theorem varint_packed_length_eq:
  "varint_packed_length n = (if n = 0 then 0 else length (varint_pack n))"
proof (induction n rule: varint_pack_induct)
  case (small n)
  then have "drop_bit 7 n = 0"
    using small_take_bit take_bit_eq_self_iff_drop_bit_eq_0 by metis
  with small show ?case
    by (subst varint_packed_length.simps) (simp add: varint_packed_length.simps [of 0])
next
  case (big n)
  then have "drop_bit 7 n \<noteq> 0"
    by (simp add: word_le_nat_alt unat_drop_bit_word div_eq_0_iff flip: unat_eq_0 drop_bit_eq_div)
  with big show ?case
    by (subst varint_packed_length.simps) (auto simp: varint_pack_big)
qed

end
