(* ===== verification/Data_Queue.thy ===== *)
theory Data_Queue
  imports Sizepack
begin

text \<open>
  The data queue, \<open>lib/vtrc/common/data-queue.cpp\<close>: a buffer of raw bytes and a queue of
  messages. A parser cuts complete frames (a size prefix and as many bytes) off the buffer;
  a serializer turns the whole buffer into one frame. Both are templates over the size
  policy, a record \<open>P\<close> here.

  Lengths of buffers are \<open>nat\<close>; the announced length, the maximum and their sum are
  \<open>size_t\<close>, so the addition that decides whether a frame is complete wraps around as in
  the source. Where it does, the iterator range of the message is reversed, which C++ leaves
  undefined (\<open>Undefined\<close>).
\<close>

subsection \<open>queue_base\<close>

record queue_base =
  qb_data :: bytes
  qb_packed :: "bytes list"
  qb_max :: size_t

definition queue_new :: "size_t \<Rightarrow> queue_base" where
  "queue_new max_valid_length =
     \<lparr> qb_data = [], qb_packed = [], qb_max = max_valid_length \<rparr>"

definition qb_append :: "queue_base \<Rightarrow> bytes \<Rightarrow> queue_base" where
  "qb_append q data = q\<lparr> qb_data := qb_data q @ data \<rparr>"

definition qb_data_size :: "queue_base \<Rightarrow> nat" where
  "qb_data_size q = length (qb_data q)"

definition qb_size :: "queue_base \<Rightarrow> nat" where
  "qb_size q = length (qb_packed q)"

definition qb_grab_all :: "queue_base \<Rightarrow> queue_base \<times> bytes list" where
  "qb_grab_all q = (q\<lparr> qb_packed := [] \<rparr>, qb_packed q)"

text \<open>\<open>front\<close> and \<open>pop_front\<close> of an empty deque are undefined.\<close>

definition qb_front :: "queue_base \<Rightarrow> exn + bytes" where
  "qb_front q = (case qb_packed q of [] \<Rightarrow> Inl Undefined | m # _ \<Rightarrow> Inr m)"

definition qb_pop_front :: "queue_base \<Rightarrow> queue_base \<times> (exn + unit)" where
  "qb_pop_front q =
     (case qb_packed q of [] \<Rightarrow> (q, Inl Undefined)
      | _ # ms \<Rightarrow> (q\<lparr> qb_packed := ms \<rparr>, Inr ()))"

definition qb_get_maximum_length :: "queue_base \<Rightarrow> size_t" where
  "qb_get_maximum_length q = qb_max q"

definition qb_set_maximum_length :: "queue_base \<Rightarrow> size_t \<Rightarrow> queue_base" where
  "qb_set_maximum_length q new_value = q\<lparr> qb_max := new_value \<rparr>"

subsection \<open>The serializer\<close>

definition serializer_process :: "spp \<Rightarrow> queue_base \<Rightarrow> queue_base \<times> (exn + unit)" where
  "serializer_process P q =
     (if of_nat (length (qb_data q)) > qb_max q
      then (q, Inl (Length_error ''Message is too long''))
      else (q\<lparr> qb_packed := qb_packed q @
                 [spp_pack P (of_nat (length (qb_data q))) @ qb_data q],
               qb_data := [] \<rparr>, Inr ()))"

definition serializer_process_one :: "spp \<Rightarrow> queue_base \<Rightarrow> queue_base \<times> (exn + bytes)" where
  "serializer_process_one P q =
     (case serializer_process P q of
        (q', Inl e) \<Rightarrow> (q', Inl e)
      | (q', Inr _) \<Rightarrow> (q', Inr (last (qb_packed q'))))"

subsection \<open>The parser\<close>

definition parser_process_one :: "spp \<Rightarrow> queue_base \<Rightarrow> queue_base \<times> (exn + bool)" where
  "parser_process_one P q =
     (let data = qb_data q; nxt = spp_size_length P data in
      if nxt > 0 then
        if nxt > spp_max_length P then
          (q, Inl (Length_error ''The serialized data is invalid''))
        else
          (let len = spp_unpack P data in
           if len > qb_max q then (q, Inl (Length_error ''Message is too long''))
           else
             (let e = unat (len + of_nat nxt) in
              if e \<le> length data then
                if e < nxt then (q, Inl Undefined)
                else (q\<lparr> qb_packed := qb_packed q @ [drop nxt (take e data)],
                         qb_data := drop e data \<rparr>, Inr True)
              else (q, Inr False)))
      else (q, Inr False))"

lemma parser_process_one_shrinks:
  "parser_process_one P q = (q', Inr True) \<Longrightarrow> length (qb_data q') < length (qb_data q)"
  by (auto simp: parser_process_one_def Let_def split: if_splits)

function parser_process :: "spp \<Rightarrow> queue_base \<Rightarrow> queue_base \<times> (exn + unit)" where
  "parser_process P q =
     (case parser_process_one P q of
        (q', Inl e) \<Rightarrow> (q', Inl e)
      | (q', Inr again) \<Rightarrow> if again then parser_process P q' else (q', Inr ()))"
  by pat_completeness auto
termination
  by (relation "measure (\<lambda>(P, q). length (qb_data q))") (auto dest!: sym [of "(_, _)"] parser_process_one_shrinks)

declare parser_process.simps [simp del]

text \<open>What a connection does with the pieces its socket delivers.\<close>

fun parser_feed :: "spp \<Rightarrow> queue_base \<Rightarrow> bytes list \<Rightarrow> queue_base \<times> (exn + unit)" where
  "parser_feed P q [] = (q, Inr ())"
| "parser_feed P q (c # cs) =
     (case parser_process P (qb_append q c) of
        (q', Inl e) \<Rightarrow> (q', Inl e)
      | (q', Inr _) \<Rightarrow> parser_feed P q' cs)"

definition frame :: "spp \<Rightarrow> bytes \<Rightarrow> bytes" where
  "frame P m = spp_pack P (of_nat (length m)) @ m"

text \<open>The maximum leaves room for a prefix: no sum of the parser wraps around. Every caller
  sets the maximum from a 32-bit field.\<close>

definition queue_wf :: "queue_base \<Rightarrow> bool" where
  "queue_wf q \<longleftrightarrow> unat (qb_max q) + 10 < 2 ^ 64"

subsection \<open>Field lemmas\<close>

lemma qb_append_sels [simp]:
  "qb_data (qb_append q ys) = qb_data q @ ys"
  "qb_packed (qb_append q ys) = qb_packed q"
  "qb_max (qb_append q ys) = qb_max q"
  by (simp_all add: qb_append_def)

lemma qb_append_append [simp]: "qb_append (qb_append q xs) ys = qb_append q (xs @ ys)"
  by (simp add: qb_append_def)

lemma qb_append_Nil [simp]: "qb_append q [] = q"
  by (simp add: qb_append_def)

lemma queue_wf_upds [simp]:
  "queue_wf (qb_append q ys) = queue_wf q"
  "queue_wf (q\<lparr> qb_data := d \<rparr>) = queue_wf q"
  "queue_wf (q\<lparr> qb_packed := ms \<rparr>) = queue_wf q"
  by (simp_all add: queue_wf_def)

lemma parser_process_one_keeps:
  "parser_process_one P q = (q', r) \<Longrightarrow>
     qb_max q' = qb_max q \<and> prefix (qb_packed q) (qb_packed q')"
  by (auto simp: parser_process_one_def Let_def split: if_splits)

lemma parser_process_one_False: "parser_process_one P q = (q', Inr False) \<Longrightarrow> q' = q"
  by (auto simp: parser_process_one_def Let_def split: if_splits)

lemma parser_process_one_Inl: "parser_process_one P q = (q', Inl e) \<Longrightarrow> q' = q"
  by (auto simp: parser_process_one_def Let_def split: if_splits)

lemma parser_process_raise:
  "parser_process_one P q = (q', Inl e) \<Longrightarrow> parser_process P q = (q, Inl e)"
  using parser_process_one_Inl [of P q q' e] by (subst parser_process.simps) simp

lemma parser_process_stop:
  "parser_process_one P q = (q', Inr False) \<Longrightarrow> parser_process P q = (q, Inr ())"
  using parser_process_one_False [of P q q'] by (subst parser_process.simps) simp

lemma parser_process_step:
  "parser_process_one P q = (q', Inr True) \<Longrightarrow> parser_process P q = parser_process P q'"
  by (subst parser_process.simps) simp

lemmas parser_process_eqs = parser_process_raise parser_process_stop parser_process_step

lemma parser_process_induct [case_names raise stop step]:
  assumes "\<And>q e. parser_process_one P q = (q, Inl e) \<Longrightarrow> Q q"
    and "\<And>q. parser_process_one P q = (q, Inr False) \<Longrightarrow> Q q"
    and "\<And>q q'. parser_process_one P q = (q', Inr True) \<Longrightarrow> Q q' \<Longrightarrow> Q q"
  shows "Q q"
proof (induction "length (qb_data q)" arbitrary: q rule: less_induct)
  case less
  obtain q' r where one: "parser_process_one P q = (q', r)" by fastforce
  show ?case
  proof (cases r)
    case (Inl e)
    with one show ?thesis using parser_process_one_Inl [of P q q' e] assms(1) by simp
  next
    case (Inr again)
    show ?thesis
    proof (cases again)
      case True
      with one Inr have step: "parser_process_one P q = (q', Inr True)" by simp
      then have "Q q'" by (intro less parser_process_one_shrinks)
      with step show ?thesis by (rule assms(3))
    next
      case False
      with one Inr show ?thesis using parser_process_one_False [of P q q'] assms(2) by simp
    qed
  qed
qed

lemma parser_process_keeps:
  "parser_process P q = (q', r) \<Longrightarrow>
     qb_max q' = qb_max q \<and> prefix (qb_packed q) (qb_packed q')"
proof (induction q rule: parser_process_induct [of P])
  case (step q q'')
  then show ?case
    using parser_process_one_keeps [OF step.hyps]
    by (auto simp: parser_process_step intro: prefix_order.trans)
qed (auto simp: parser_process_eqs)

subsection \<open>Streaming: the client of the size policy\<close>

text \<open>
  Under the laws of \<open>size_policy\<close> alone: a frame is cut off the same way whatever follows
  it, so the parser does not see how the stream was cut into pieces; and a stream of frames
  is parsed back into the messages it was made of.
\<close>

context size_policy
begin

lemma parser_process_one_append:
  assumes "parser_process_one P q = (q', r)" and "r \<noteq> Inr False"
  shows "parser_process_one P (qb_append q ys) = (qb_append q' ys, r)"
proof -
  let ?nxt = "spp_size_length P (qb_data q)"
  have "?nxt > 0"
    using assms by (auto simp: parser_process_one_def Let_def split: if_splits)
  then have hdr: "spp_size_length P (qb_data q @ ys) = ?nxt"
      "spp_unpack P (qb_data q @ ys) = spp_unpack P (qb_data q)"
    by (simp_all add: size_length_append unpack_append)
  from assms \<open>?nxt > 0\<close> show ?thesis
    unfolding parser_process_one_def Let_def qb_append_sels hdr
    by (auto simp: qb_append_def split: if_splits)
qed

lemma parser_process_append:
  "parser_process P q = (q', Inr ()) \<Longrightarrow>
     parser_process P (qb_append q ys) = parser_process P (qb_append q' ys)"
proof (induction q rule: parser_process_induct [of P])
  case (step q q'')
  from parser_process_one_append [OF step.hyps]
  have "parser_process_one P (qb_append q ys) = (qb_append q'' ys, Inr True)" by simp
  with step show ?case by (simp add: parser_process_step)
qed (auto simp: parser_process_eqs)

lemma parser_process_append_raise:
  "parser_process P q = (q', Inl e) \<Longrightarrow>
     parser_process P (qb_append q ys) = (qb_append q' ys, Inl e)"
proof (induction q rule: parser_process_induct [of P])
  case (step q q'')
  from parser_process_one_append [OF step.hyps]
  have "parser_process_one P (qb_append q ys) = (qb_append q'' ys, Inr True)" by simp
  with step show ?case by (simp add: parser_process_step)
next
  case (raise q e')
  from parser_process_one_append [OF raise.hyps]
  have "parser_process_one P (qb_append q ys) = (qb_append q ys, Inl e')" by simp
  with raise show ?case by (simp add: parser_process_raise)
qed (auto simp: parser_process_eqs)

text \<open>Feeding pieces is feeding their concatenation.\<close>

lemma parser_feed_concat:
  "parser_feed P q cs = (q', Inr ()) \<Longrightarrow> parser_process P q = (q, Inr ()) \<Longrightarrow>
     parser_process P (qb_append q (concat cs)) = (q', Inr ())"
proof (induction cs arbitrary: q)
  case Nil
  then show ?case by simp
next
  case (Cons c cs)
  then obtain q1 where q1: "parser_process P (qb_append q c) = (q1, Inr ())"
      and rest: "parser_feed P q1 cs = (q', Inr ())"
    by (auto split: prod.splits sum.splits)
  have idle: "parser_process P q1 = (q1, Inr ())"
    using parser_process_append [OF q1, of "[]"] q1 by simp
  have "parser_process P (qb_append q (concat (c # cs)))
          = parser_process P (qb_append q1 (concat cs))"
    using parser_process_append [OF q1, of "concat cs"] by simp
  also have "\<dots> = (q', Inr ())" using rest idle by (rule Cons.IH)
  finally show ?case .
qed

lemma parser_feed_process:
  "parser_process P (qb_append q (concat cs)) = (q', Inr ()) \<Longrightarrow>
   parser_process P q = (q, Inr ()) \<Longrightarrow> parser_feed P q cs = (q', Inr ())"
proof (induction cs arbitrary: q)
  case Nil
  then show ?case by simp
next
  case (Cons c cs)
  obtain q1 r where q1: "parser_process P (qb_append q c) = (q1, r)" by fastforce
  have "r \<noteq> Inl e" for e
    using parser_process_append_raise [of "qb_append q c" q1 e "concat cs"] q1 Cons.prems(1)
    by auto
  then have r: "r = Inr ()" by (cases r) auto
  have idle: "parser_process P q1 = (q1, Inr ())"
    using parser_process_append [of "qb_append q c" q1 "[]"] q1 r by simp
  have "parser_process P (qb_append q1 (concat cs)) = (q', Inr ())"
    using parser_process_append [of "qb_append q c" q1 "concat cs"] q1 r Cons.prems(1) by simp
  then have "parser_feed P q1 cs = (q', Inr ())" using idle by (rule Cons.IH)
  with q1 r show ?case by simp
qed

lemma unat_len_plus_prefix:
  assumes "queue_wf q" and "length m \<le> unat (qb_max q)"
  shows "unat (of_nat (length m) + of_nat (length (spp_pack P n)) :: size_t)
           = length m + length (spp_pack P n)"
proof -
  have "length m + length (spp_pack P n) < 2 ^ 64"
    using assms pack_length [of n] max_length_small by (simp add: queue_wf_def)
  then show ?thesis by (simp add: unat_of_nat_small flip: of_nat_add)
qed

lemma of_nat_le_max:
  assumes "queue_wf q" and "length m \<le> unat (qb_max q)"
  shows "\<not> of_nat (length m) > qb_max q"
  using assms by (simp add: queue_wf_def word_less_nat_alt unat_of_nat_small)

lemma parser_process_one_frame:
  assumes "queue_wf q" and "length m \<le> unat (qb_max q)" and "qb_data q = frame P m @ rest"
  shows "parser_process_one P q =
           (q\<lparr> qb_packed := qb_packed q @ [m], qb_data := rest \<rparr>, Inr True)"
proof -
  let ?n = "of_nat (length m) :: size_t"
  have hdr: "spp_size_length P (qb_data q) = length (spp_pack P ?n)"
      "spp_unpack P (qb_data q) = ?n"
    using assms(3) by (simp_all add: frame_def size_length_pack unpack_pack)
  have le: "length (spp_pack P ?n) \<le> spp_max_length P" "0 < length (spp_pack P ?n)"
    using pack_length pack_not_empty by simp_all
  show ?thesis
    unfolding parser_process_one_def Let_def hdr unat_len_plus_prefix [OF assms(1,2)]
    using of_nat_le_max [OF assms(1,2)] le assms(3) by (simp add: frame_def add.commute)
qed

lemma parser_process_frames:
  assumes "queue_wf q" and "\<forall>m \<in> set ms. length m \<le> unat (qb_max q)"
    and "qb_data q = concat (map (frame P) ms) @ rest"
  shows "parser_process P q =
           parser_process P (q\<lparr> qb_packed := qb_packed q @ ms, qb_data := rest \<rparr>)"
  using assms
proof (induction ms arbitrary: q)
  case Nil
  then show ?case by (cases q) simp
next
  case (Cons m ms)
  let ?q1 = "q\<lparr> qb_packed := qb_packed q @ [m], qb_data := concat (map (frame P) ms) @ rest \<rparr>"
  have "parser_process_one P q = (?q1, Inr True)"
    using Cons.prems by (intro parser_process_one_frame) auto
  then have "parser_process P q = parser_process P ?q1" by (rule parser_process_step)
  also have "\<dots> = parser_process P (?q1\<lparr> qb_packed := qb_packed ?q1 @ ms, qb_data := rest \<rparr>)"
    using Cons.prems by (intro Cons.IH) (auto simp: queue_wf_def)
  finally show ?case by simp
qed

text \<open>A frame that is not complete yet is left in the buffer.\<close>

lemma parser_process_one_partial:
  assumes "queue_wf q" and "length m \<le> unat (qb_max q)" and "strict_prefix (qb_data q) (frame P m)"
  shows "parser_process_one P q = (q, Inr False)"
proof -
  let ?p = "spp_pack P (of_nat (length m))"
  let ?k = "length (qb_data q)"
  have data: "qb_data q = take ?k (frame P m)" and k: "?k < length (frame P m)"
    using assms(3) by (auto simp: strict_prefix_def prefix_def)
  show ?thesis
  proof (cases "?k < length ?p")
    case True
    then have "qb_data q = take ?k ?p" using data by (simp add: frame_def)
    with True have "spp_size_length P (qb_data q) = 0"
      using size_length_take by metis
    then show ?thesis by (simp add: parser_process_one_def)
  next
    case False
    then have d: "qb_data q = ?p @ take (?k - length ?p) m" using data by (simp add: frame_def)
    have hdr: "spp_size_length P (qb_data q) = length ?p" "spp_unpack P (qb_data q) = of_nat (length m)"
      by (subst d, simp add: size_length_pack, subst d, simp add: unpack_pack)
    show ?thesis
      unfolding parser_process_one_def Let_def hdr unat_len_plus_prefix [OF assms(1,2)]
      using of_nat_le_max [OF assms(1,2)] k pack_length [of "of_nat (length m)"]
      by (simp add: frame_def)
  qed
qed

lemma parser_stream:
  assumes "queue_wf q" and "qb_data q = []"
    and "\<forall>m \<in> set ms. length m \<le> unat (qb_max q)"
    and "length m \<le> unat (qb_max q)" and "strict_prefix part (frame P m)"
    and "concat cs = concat (map (frame P) ms) @ part"
  shows "parser_feed P q cs = (q\<lparr> qb_packed := qb_packed q @ ms, qb_data := part \<rparr>, Inr ())"
proof (rule parser_feed_process)
  let ?q = "q\<lparr> qb_packed := qb_packed q @ ms, qb_data := part \<rparr>"
  have "parser_process P (qb_append q (concat cs)) = parser_process P ?q"
    using assms parser_process_frames [of "qb_append q (concat cs)" ms part]
    by (simp add: qb_append_def)
  also have "\<dots> = (?q, Inr ())"
    using assms by (intro parser_process_stop [where q' = ?q] parser_process_one_partial [where m = m])
      (auto simp: queue_wf_def)
  finally show "parser_process P (qb_append q (concat cs)) = (?q, Inr ())" .
  have "strict_prefix [] (frame P m)"
    by (auto simp: strict_prefix_def frame_def pack_not_empty)
  then show "parser_process P q = (q, Inr ())"
    using assms by (intro parser_process_stop [where q' = q] parser_process_one_partial [where m = m]) auto
qed

text \<open>On any beginning of a stream of frames the parser delivers the complete frames and keeps
  the incomplete one.\<close>

lemma parser_process_beginning:
  assumes "queue_wf q" and "\<forall>m \<in> set ms. length m \<le> unat (qb_max q)"
    and "qb_data q @ rest = concat (map (frame P) ms)"
  shows "\<exists>k part. parser_process P q = (q\<lparr> qb_packed := qb_packed q @ take k ms, qb_data := part \<rparr>, Inr ())
           \<and> part @ rest = concat (map (frame P) (drop k ms)) \<and> k \<le> length ms
           \<and> (part = [] \<or> k < length ms \<and> strict_prefix part (frame P (ms ! k)))"
  using assms
proof (induction ms arbitrary: q)
  case Nil
  have "spp_size_length P [] = 0" using size_length_le [of "[]"] by simp
  with Nil have "parser_process P q = (q, Inr ())"
    by (intro parser_process_stop [where q' = q]) (simp add: parser_process_one_def)
  with Nil show ?case by (cases q) auto
next
  case (Cons m ms)
  consider "strict_prefix (qb_data q) (frame P m)" | d where "qb_data q = frame P m @ d"
    using append_eq_cases [of "qb_data q" rest "frame P m"] Cons.prems(3) by auto
  then show ?case
  proof cases
    case 1
    with Cons.prems have "parser_process P q = (q, Inr ())"
      by (intro parser_process_stop [where q' = q] parser_process_one_partial [where m = m]) auto
    with 1 Cons.prems show ?thesis
      by (intro exI [of _ 0] exI [of _ "qb_data q"]) (cases q, auto)
  next
    case 2
    let ?q = "q\<lparr> qb_packed := qb_packed q @ [m], qb_data := d \<rparr>"
    have step: "parser_process P q = parser_process P ?q"
      using Cons.prems 2 by (intro parser_process_step parser_process_one_frame) auto
    obtain k part where "parser_process P ?q
        = (?q\<lparr> qb_packed := qb_packed ?q @ take k ms, qb_data := part \<rparr>, Inr ())"
      "part @ rest = concat (map (frame P) (drop k ms))" "k \<le> length ms"
      "part = [] \<or> k < length ms \<and> strict_prefix part (frame P (ms ! k))"
      using Cons.IH [of ?q] Cons.prems 2 by auto
    with step show ?thesis by (intro exI [of _ "Suc k"] exI [of _ part]) auto
  qed
qed

text \<open>Without wrap-around no range is reversed.\<close>

lemma parser_process_one_defined:
  assumes "queue_wf q"
  shows "parser_process_one P q \<noteq> (q', Inl Undefined)"
proof
  assume *: "parser_process_one P q = (q', Inl Undefined)"
  let ?nxt = "spp_size_length P (qb_data q)" and ?len = "spp_unpack P (qb_data q)"
  have le: "\<not> ?len > qb_max q" "?nxt \<le> spp_max_length P" and wrap: "unat (?len + of_nat ?nxt) < ?nxt"
    using * by (auto simp: parser_process_one_def Let_def split: if_splits)
  have "unat ?len + ?nxt < 2 ^ 64"
    using le assms max_length_small by (simp add: queue_wf_def word_less_nat_alt)
  then have "unat (?len + of_nat ?nxt) = unat ?len + ?nxt"
    by (simp add: unat_word_ariths unat_of_nat)
  with wrap show False by simp
qed

lemma parser_process_one_bounds:
  assumes "queue_wf q" and "parser_process_one P q = (q', Inr True)"
    and "\<forall>m \<in> set (qb_packed q). length m \<le> unat (qb_max q)"
  shows "\<forall>m \<in> set (qb_packed q'). length m \<le> unat (qb_max q')"
proof -
  let ?nxt = "spp_size_length P (qb_data q)" and ?len = "spp_unpack P (qb_data q)"
  have le: "?len \<le> qb_max q"
    using assms(2) by (auto simp: parser_process_one_def Let_def not_less split: if_splits)
  have "unat (?len + of_nat ?nxt) \<le> unat ?len + ?nxt" by (rule unat_plus_of_nat_le)
  then have "unat (?len + of_nat ?nxt) - ?nxt \<le> unat (qb_max q)"
    using le by (simp add: word_le_nat_alt)
  with assms(2,3) show ?thesis
    by (auto simp: parser_process_one_def Let_def split: if_splits)
qed

lemma parser_process_bounds:
  "queue_wf q \<Longrightarrow> \<forall>m \<in> set (qb_packed q). length m \<le> unat (qb_max q) \<Longrightarrow>
   parser_process P q = (q', r) \<Longrightarrow>
     r \<noteq> Inl Undefined \<and> (\<forall>m \<in> set (qb_packed q'). length m \<le> unat (qb_max q'))"
proof (induction q rule: parser_process_induct [of P])
  case (raise q e)
  then show ?case using parser_process_one_defined [of q q] by (auto simp: parser_process_raise)
next
  case (stop q)
  then show ?case by (auto simp: parser_process_stop)
next
  case (step q q'')
  have "queue_wf q''"
    using step.prems(1) parser_process_one_keeps [OF step.hyps] by (simp add: queue_wf_def)
  with step show ?case
    using parser_process_one_bounds [OF step.prems(1) step.hyps] by (simp add: parser_process_step)
qed

lemma parser_feed_raise:
  "parser_feed P q cs = (q', Inl e) \<Longrightarrow>
     \<exists>ys. parser_process P (qb_append q (concat cs)) = (qb_append q' ys, Inl e)"
proof (induction cs arbitrary: q)
  case Nil
  then show ?case by simp
next
  case (Cons c cs)
  obtain q1 r where q1: "parser_process P (qb_append q c) = (q1, r)" by fastforce
  show ?case
  proof (cases r)
    case (Inl e')
    with q1 Cons.prems have "r = Inl e" "q' = q1" by auto
    with q1 parser_process_append_raise [of "qb_append q c" q1 e "concat cs"]
    show ?thesis by auto
  next
    case (Inr u)
    with q1 Cons.prems Cons.IH [of q1] parser_process_append [of "qb_append q c" q1 "concat cs"]
    show ?thesis by auto
  qed
qed

lemma parser_process_one_too_long:
  assumes "qb_data q = spp_pack P n @ rest" and "n > qb_max q"
  shows "parser_process_one P q = (q, Inl (Length_error ''Message is too long''))"
  using assms pack_length [of n] pack_not_empty [of n]
  by (simp add: parser_process_one_def size_length_pack unpack_pack)

lemma serializer_frames:
  assumes "of_nat (length (qb_data q)) \<le> qb_max q"
  shows "serializer_process P q =
           (q\<lparr> qb_packed := qb_packed q @ [frame P (qb_data q)], qb_data := [] \<rparr>, Inr ())"
  using assms by (simp add: serializer_process_def frame_def leD)

end

subsection \<open>Properties of the queue the library creates\<close>

text \<open>
  Framing is faithful under any fragmentation: when the bytes a connection receives, cut
  into pieces in any way, are the frames of some messages followed by an incomplete frame,
  the parser delivers exactly those messages, in order, and keeps the incomplete frame.
\<close>

theorem varint_stream_parses:
  assumes "queue_wf q" and "qb_data q = []"
    and "\<forall>m \<in> set ms. length m \<le> unat (qb_max q)"
    and "length m \<le> unat (qb_max q)" and "strict_prefix part (frame varint_policy m)"
    and "concat cs = concat (map (frame varint_policy) ms) @ part"
  shows "parser_feed varint_policy q cs =
           (q\<lparr> qb_packed := qb_packed q @ ms, qb_data := part \<rparr>, Inr ())"
  using assms by (rule varint.parser_stream)

theorem varint_stream_parses_witness:
  "parser_feed varint_policy (queue_new 65536) [[2], [7, 8, 0], [3, 9]] =
     (\<lparr> qb_data = [3, 9], qb_packed = [[7, 8], []], qb_max = 65536 \<rparr>, Inr ())"
  using varint_stream_parses
    [of "queue_new 65536" "[[7, 8], []]" "[9, 9, 9]" "[3, 9]" "[[2], [7, 8, 0], [3, 9]]"]
  by (simp add: queue_new_def queue_wf_def frame_def varint_policy_def strict_prefix_def)

text \<open>
  C37. Fragmentation is invisible to the parser on every input, malformed input included:
  feeding pieces reports the same outcome (success or the same exception) and leaves the same
  message queue as one call on the whole stream.
\<close>

theorem parser_chunking_irrelevant:
  assumes "parser_process varint_policy q = (q, Inr ())"
  shows "snd (parser_feed varint_policy q cs)
           = snd (parser_process varint_policy (qb_append q (concat cs)))
       \<and> qb_packed (fst (parser_feed varint_policy q cs))
           = qb_packed (fst (parser_process varint_policy (qb_append q (concat cs))))"
proof (cases "parser_feed varint_policy q cs")
  case (Pair q' r)
  then show ?thesis
    using varint.parser_feed_concat [of q cs q'] varint.parser_feed_raise [of q cs q'] assms
    by (cases r) fastforce+
qed

theorem parser_chunking_irrelevant_witness:
  "snd (parser_feed varint_policy (queue_new 4) [[1], [5, 9], [0]])
     = snd (parser_process varint_policy (queue_new 4\<lparr> qb_data := [1, 5, 9, 0] \<rparr>))"
proof -
  have "parser_process varint_policy (queue_new 4) = (queue_new 4, Inr ())"
    by (rule parser_process_stop [where q' = "queue_new 4"])
      (simp add: parser_process_one_def queue_new_def varint_policy_def varint_size_length_eq)
  from parser_chunking_irrelevant [OF this, of "[[1], [5, 9], [0]]"] show ?thesis
    by (simp add: qb_append_def queue_new_def)
qed

text \<open>
  A frame that announces more than the maximum length is refused with
  \<open>Message is too long\<close>, whatever follows its prefix; the messages before it are delivered.
\<close>

theorem parser_refuses_too_long:
  assumes "queue_wf q" and "\<forall>m \<in> set ms. length m \<le> unat (qb_max q)"
    and "qb_data q = concat (map (frame varint_policy) ms) @ varint_pack n @ rest"
    and "n > qb_max q"
  shows "parser_process varint_policy q =
           (q\<lparr> qb_packed := qb_packed q @ ms, qb_data := varint_pack n @ rest \<rparr>,
            Inl (Length_error ''Message is too long''))"
proof -
  let ?q = "q\<lparr> qb_packed := qb_packed q @ ms, qb_data := varint_pack n @ rest \<rparr>"
  have "parser_process varint_policy q = parser_process varint_policy ?q"
    using assms by (intro varint.parser_process_frames) auto
  also have "\<dots> = (?q, Inl (Length_error ''Message is too long''))"
    using assms by (intro parser_process_raise [where q' = ?q] varint.parser_process_one_too_long)
      (auto simp: varint_policy_def)
  finally show ?thesis .
qed

theorem parser_refuses_too_long_witness:
  "parser_process varint_policy \<lparr> qb_data = [1, 5, 9, 0], qb_packed = [], qb_max = 4 \<rparr> =
     (\<lparr> qb_data = [9, 0], qb_packed = [[5]], qb_max = 4 \<rparr>,
      Inl (Length_error ''Message is too long''))"
  using parser_refuses_too_long
    [of "\<lparr> qb_data = [1, 5, 9, 0], qb_packed = [], qb_max = 4 \<rparr>" "[[5]]" 9 "[0]"]
  by (simp add: queue_wf_def frame_def varint_policy_def)

text \<open>
  C38. On any bytes whatsoever the parser with a 32-bit maximum has no undefined behaviour,
  and no message longer than the maximum ever enters the queue.
\<close>

theorem parser_bounds:
  assumes "queue_wf q" and "\<forall>m \<in> set (qb_packed q). length m \<le> unat (qb_max q)"
    and "parser_process varint_policy q = (q', r)"
  shows "r \<noteq> Inl Undefined \<and> (\<forall>m \<in> set (qb_packed q'). length m \<le> unat (qb_max q'))"
  using assms by (rule varint.parser_process_bounds)

theorem parser_bounds_witness:
  "snd (parser_process varint_policy \<lparr> qb_data = [1], qb_packed = [[5]], qb_max = 4 \<rparr>)
     \<noteq> Inl Undefined"
proof -
  let ?q = "\<lparr> qb_data = [1], qb_packed = [[5]], qb_max = 4 \<rparr>"
  obtain q' r where "parser_process varint_policy ?q = (q', r)" by fastforce
  with parser_bounds [of ?q q' r] show ?thesis by (simp add: queue_wf_def)
qed

text \<open>
  The check for an overlong prefix runs only once the prefix has ended: a stream of
  continuation bytes is never refused, at any length, and stays in the buffer.
\<close>

theorem parser_keeps_endless_prefix:
  assumes "\<forall>b \<in> set (qb_data q). b AND 0x80 \<noteq> 0"
  shows "parser_process varint_policy q = (q, Inr ())"
proof -
  have "varint_size_length (qb_data q) = 0"
    using assms by (simp add: varint_size_length_0 byte_high_bit)
  then show ?thesis
    by (intro parser_process_stop [where q' = q])
      (simp add: parser_process_one_def varint_policy_def)
qed

theorem parser_keeps_endless_prefix_witness:
  "parser_process varint_policy (queue_new 4\<lparr> qb_data := replicate 1000 0x80 \<rparr>)
     = (queue_new 4\<lparr> qb_data := replicate 1000 0x80 \<rparr>, Inr ())"
  by (rule parser_keeps_endless_prefix) (simp add: queue_new_def)

text \<open>
  What a serializer emits, a parser with the same maximum reads back: the buffer handed
  to the serializer is the one message the parser finds in the serialized bytes.
\<close>

theorem serializer_parser_roundtrip:
  assumes "queue_wf s" and "length (qb_data s) \<le> unat (qb_max s)"
    and "serializer_process varint_policy s = (s', Inr ())"
    and "queue_wf q" and "qb_max q = qb_max s" and "qb_data q = last (qb_packed s')"
  shows "parser_process_one varint_policy q =
           (q\<lparr> qb_packed := qb_packed q @ [qb_data s], qb_data := [] \<rparr>, Inr True)"
proof -
  have "of_nat (length (qb_data s)) \<le> qb_max s"
    using varint.of_nat_le_max [OF assms(1,2)] by simp
  with assms(3) have "last (qb_packed s') = frame varint_policy (qb_data s)"
    by (auto simp: varint.serializer_frames)
  with assms show ?thesis
    using varint.parser_process_one_frame [of q "qb_data s" "[]"] by simp
qed

theorem serializer_parser_roundtrip_witness:
  "parser_process_one varint_policy \<lparr> qb_data = [2, 7, 8], qb_packed = [], qb_max = 4 \<rparr>
     = (\<lparr> qb_data = [], qb_packed = [[7, 8]], qb_max = 4 \<rparr>, Inr True)"
  using serializer_parser_roundtrip
    [of "\<lparr> qb_data = [7, 8], qb_packed = [], qb_max = 4 \<rparr>"
        "\<lparr> qb_data = [], qb_packed = [[2, 7, 8]], qb_max = 4 \<rparr>"
        "\<lparr> qb_data = [2, 7, 8], qb_packed = [], qb_max = 4 \<rparr>"]
  by (simp add: queue_wf_def serializer_process_def varint_policy_def)

end
