(* ===== verification/Hash.thy ===== *)
theory Hash
  imports Prelude
begin

text \<open>
  Message digests, \<open>lib/vtrc/common/hash\<close>. An object of \<open>hash::iface\<close> is a record of its
  virtual functions. \<open>hasher_none\<close> and \<open>hasher_crc32\<close> are modelled completely, the table
  of \<open>crc32-impl.h\<close> included; \<open>hasher_sha\<close> is a template over the digest, which a build takes
  from OpenSSL or from \<open>sha2.c\<close>, so the digest is a parameter of the model.
\<close>

subsection \<open>The interface\<close>

text \<open>\<open>h_check data hash\<close> reads the digest at a pointer: \<open>hash\<close> is the memory from that
  pointer on, of which it reads \<open>h_size\<close> bytes.\<close>

record hash_iface =
  h_size :: nat
  h_get :: "bytes \<Rightarrow> bytes"
  h_check :: "bytes \<Rightarrow> bytes \<Rightarrow> bool"

subsection \<open>none\<close>

definition hasher_none :: hash_iface where
  "hasher_none = \<lparr> h_size = 0, h_get = (\<lambda>data. []), h_check = (\<lambda>data hash. True) \<rparr>"

subsection \<open>CRC-32\<close>

definition crc_32_table :: "u32 list" where
  "crc_32_table = [
      0x00000000, 0x77073096, 0xee0e612c, 0x990951ba, 0x076dc419, 0x706af48f, 0xe963a535, 0x9e6495a3,
      0x0edb8832, 0x79dcb8a4, 0xe0d5e91e, 0x97d2d988, 0x09b64c2b, 0x7eb17cbd, 0xe7b82d07, 0x90bf1d91,
      0x1db71064, 0x6ab020f2, 0xf3b97148, 0x84be41de, 0x1adad47d, 0x6ddde4eb, 0xf4d4b551, 0x83d385c7,
      0x136c9856, 0x646ba8c0, 0xfd62f97a, 0x8a65c9ec, 0x14015c4f, 0x63066cd9, 0xfa0f3d63, 0x8d080df5,
      0x3b6e20c8, 0x4c69105e, 0xd56041e4, 0xa2677172, 0x3c03e4d1, 0x4b04d447, 0xd20d85fd, 0xa50ab56b,
      0x35b5a8fa, 0x42b2986c, 0xdbbbc9d6, 0xacbcf940, 0x32d86ce3, 0x45df5c75, 0xdcd60dcf, 0xabd13d59,
      0x26d930ac, 0x51de003a, 0xc8d75180, 0xbfd06116, 0x21b4f4b5, 0x56b3c423, 0xcfba9599, 0xb8bda50f,
      0x2802b89e, 0x5f058808, 0xc60cd9b2, 0xb10be924, 0x2f6f7c87, 0x58684c11, 0xc1611dab, 0xb6662d3d,
      0x76dc4190, 0x01db7106, 0x98d220bc, 0xefd5102a, 0x71b18589, 0x06b6b51f, 0x9fbfe4a5, 0xe8b8d433,
      0x7807c9a2, 0x0f00f934, 0x9609a88e, 0xe10e9818, 0x7f6a0dbb, 0x086d3d2d, 0x91646c97, 0xe6635c01,
      0x6b6b51f4, 0x1c6c6162, 0x856530d8, 0xf262004e, 0x6c0695ed, 0x1b01a57b, 0x8208f4c1, 0xf50fc457,
      0x65b0d9c6, 0x12b7e950, 0x8bbeb8ea, 0xfcb9887c, 0x62dd1ddf, 0x15da2d49, 0x8cd37cf3, 0xfbd44c65,
      0x4db26158, 0x3ab551ce, 0xa3bc0074, 0xd4bb30e2, 0x4adfa541, 0x3dd895d7, 0xa4d1c46d, 0xd3d6f4fb,
      0x4369e96a, 0x346ed9fc, 0xad678846, 0xda60b8d0, 0x44042d73, 0x33031de5, 0xaa0a4c5f, 0xdd0d7cc9,
      0x5005713c, 0x270241aa, 0xbe0b1010, 0xc90c2086, 0x5768b525, 0x206f85b3, 0xb966d409, 0xce61e49f,
      0x5edef90e, 0x29d9c998, 0xb0d09822, 0xc7d7a8b4, 0x59b33d17, 0x2eb40d81, 0xb7bd5c3b, 0xc0ba6cad,
      0xedb88320, 0x9abfb3b6, 0x03b6e20c, 0x74b1d29a, 0xead54739, 0x9dd277af, 0x04db2615, 0x73dc1683,
      0xe3630b12, 0x94643b84, 0x0d6d6a3e, 0x7a6a5aa8, 0xe40ecf0b, 0x9309ff9d, 0x0a00ae27, 0x7d079eb1,
      0xf00f9344, 0x8708a3d2, 0x1e01f268, 0x6906c2fe, 0xf762575d, 0x806567cb, 0x196c3671, 0x6e6b06e7,
      0xfed41b76, 0x89d32be0, 0x10da7a5a, 0x67dd4acc, 0xf9b9df6f, 0x8ebeeff9, 0x17b7be43, 0x60b08ed5,
      0xd6d6a3e8, 0xa1d1937e, 0x38d8c2c4, 0x4fdff252, 0xd1bb67f1, 0xa6bc5767, 0x3fb506dd, 0x48b2364b,
      0xd80d2bda, 0xaf0a1b4c, 0x36034af6, 0x41047a60, 0xdf60efc3, 0xa867df55, 0x316e8eef, 0x4669be79,
      0xcb61b38c, 0xbc66831a, 0x256fd2a0, 0x5268e236, 0xcc0c7795, 0xbb0b4703, 0x220216b9, 0x5505262f,
      0xc5ba3bbe, 0xb2bd0b28, 0x2bb45a92, 0x5cb36a04, 0xc2d7ffa7, 0xb5d0cf31, 0x2cd99e8b, 0x5bdeae1d,
      0x9b64c2b0, 0xec63f226, 0x756aa39c, 0x026d930a, 0x9c0906a9, 0xeb0e363f, 0x72076785, 0x05005713,
      0x95bf4a82, 0xe2b87a14, 0x7bb12bae, 0x0cb61b38, 0x92d28e9b, 0xe5d5be0d, 0x7cdcefb7, 0x0bdbdf21,
      0x86d3d2d4, 0xf1d4e242, 0x68ddb3f8, 0x1fda836e, 0x81be16cd, 0xf6b9265b, 0x6fb077e1, 0x18b74777,
      0x88085ae6, 0xff0f6a70, 0x66063bca, 0x11010b5c, 0x8f659eff, 0xf862ae69, 0x616bffd3, 0x166ccf45,
      0xa00ae278, 0xd70dd2ee, 0x4e048354, 0x3903b3c2, 0xa7672661, 0xd06016f7, 0x4969474d, 0x3e6e77db,
      0xaed16a4a, 0xd9d65adc, 0x40df0b66, 0x37d83bf0, 0xa9bcae53, 0xdebb9ec5, 0x47b2cf7f, 0x30b5ffe9,
      0xbdbdf21c, 0xcabac28a, 0x53b39330, 0x24b4a3a6, 0xbad03605, 0xcdd70693, 0x54de5729, 0x23d967bf,
      0xb3667a2e, 0xc4614ab8, 0x5d681b02, 0x2a6f2b94, 0xb40bbe37, 0xc30c8ea1, 0x5a05df1b, 0x2d02ef8d]"

definition crc32_get_value :: "u32 \<Rightarrow> u32" where
  "crc32_get_value idx = crc_32_table ! (unat idx mod 0x100)"

definition crc32_update :: "u32 \<Rightarrow> byte \<Rightarrow> u32" where
  "crc32_update old val = crc32_get_value (old XOR ucast val) XOR drop_bit 8 old"

fun crc32_loop :: "u32 \<Rightarrow> bytes \<Rightarrow> u32" where
  "crc32_loop oldcrc [] = oldcrc"
| "crc32_loop oldcrc (b # data) = crc32_loop (crc32_update oldcrc b) data"

definition crc32_length :: nat where
  "crc32_length = 4"

definition crc32_get :: "bytes \<Rightarrow> bytes" where
  "crc32_get data =
     (let oldcrc = NOT (crc32_loop 0xFFFFFFFF data) in
      [ucast (drop_bit 24 oldcrc AND 0xFF), ucast (drop_bit 16 oldcrc AND 0xFF),
       ucast (drop_bit 8 oldcrc AND 0xFF), ucast (oldcrc AND 0xFF)])"

definition crc32_check :: "bytes \<Rightarrow> bytes \<Rightarrow> bool" where
  "crc32_check data res =
     (let oldcrc = NOT (crc32_loop 0xFFFFFFFF data) in
      res ! 0 = ucast (drop_bit 24 oldcrc AND 0xFF)
      \<and> res ! 1 = ucast (drop_bit 16 oldcrc AND 0xFF)
      \<and> res ! 2 = ucast (drop_bit 8 oldcrc AND 0xFF)
      \<and> res ! 3 = ucast (oldcrc AND 0xFF))"

definition hasher_crc32 :: hash_iface where
  "hasher_crc32 = \<lparr> h_size = crc32_length, h_get = crc32_get, h_check = crc32_check \<rparr>"

subsection \<open>SHA-2 over a given digest\<close>

definition hasher_sha :: "nat \<Rightarrow> (bytes \<Rightarrow> bytes) \<Rightarrow> hash_iface" where
  "hasher_sha digest_length digest =
     \<lparr> h_size = digest_length, h_get = digest,
       h_check = (\<lambda>data hash. take digest_length (digest data) = take digest_length hash) \<rparr>"

subsection \<open>Selection\<close>

definition HASH_NONE :: nat where "HASH_NONE = 0"
definition HASH_CRC_32 :: nat where "HASH_CRC_32 = 2"
definition HASH_SHA2_256 :: nat where "HASH_SHA2_256 = 10"

definition hash_create_by_index :: "(bytes \<Rightarrow> bytes) \<Rightarrow> nat \<Rightarrow> hash_iface option" where
  "hash_create_by_index sha256 var =
     (if var = HASH_NONE then Some hasher_none
      else if var = HASH_CRC_32 then Some hasher_crc32
      else if var = HASH_SHA2_256 then Some (hasher_sha 32 sha256)
      else None)"

text \<open>The default instance of \<open>client_selection\<close> has no explicit default for \<open>hash\<close>, so the
  field reads 0.\<close>

definition hash_create_default :: "(bytes \<Rightarrow> bytes) \<Rightarrow> hash_iface option" where
  "hash_create_default sha256 = hash_create_by_index sha256 0"

subsection \<open>What a protocol relies on\<close>

locale hash_law =
  fixes h :: hash_iface
  assumes h_get_length: "length (h_get h data) = h_size h"
    and h_check_iff:
      "h_size h \<le> length hash \<Longrightarrow> h_check h data hash \<longleftrightarrow> take (h_size h) hash = h_get h data"
begin

lemma h_check_get: "h_check h data (h_get h data @ rest)"
  by (simp add: h_check_iff h_get_length)

end

interpretation none_hash: hash_law hasher_none
  by unfold_locales (simp_all add: hasher_none_def)

lemma take_4: "4 \<le> length xs \<Longrightarrow> take 4 xs = [xs ! 0, xs ! 1, xs ! 2, xs ! 3]"
  by (auto simp: list_eq_iff_nth_eq nth_Cons numeral_2_eq_2 numeral_3_eq_3 split: nat.splits)

lemma crc32_get_length [simp]: "length (crc32_get data) = 4"
  by (simp add: crc32_get_def Let_def)

interpretation crc32_hash: hash_law hasher_crc32
  by unfold_locales
    (auto simp: hasher_crc32_def crc32_get_def crc32_check_def Let_def crc32_length_def take_4)

text \<open>A SHA hasher keeps the law for every digest of the announced length.\<close>

locale digest_law =
  fixes digest :: "bytes \<Rightarrow> bytes"
  assumes digest_length: "length (digest data) = 32"
begin

sublocale sha: hash_law "hasher_sha 32 digest"
  by unfold_locales (auto simp: hasher_sha_def digest_length)

lemma hash_create_by_index_law:
  "hash_create_by_index digest var = Some h \<Longrightarrow> hash_law h"
  using none_hash.hash_law_axioms crc32_hash.hash_law_axioms sha.hash_law_axioms
  by (auto simp: hash_create_by_index_def split: if_splits)

end

subsection \<open>The table is the polynomial\<close>

text \<open>The reference: one bit of the reflected polynomial division, eight times a byte.\<close>

definition crc32_bit :: "u32 \<Rightarrow> u32" where
  "crc32_bit c = (if bit c 0 then drop_bit 1 c XOR 0xEDB88320 else drop_bit 1 c)"

definition crc32_ref_update :: "u32 \<Rightarrow> byte \<Rightarrow> u32" where
  "crc32_ref_update old val = (crc32_bit ^^ 8) (old XOR ucast val)"

text \<open>The bit step is linear and injective: the polynomial has its top bit set, so bit 31
  of the result tells whether bit 0 was set.\<close>

lemma crc32_bit_0 [simp]: "crc32_bit 0 = 0"
  by (simp add: crc32_bit_def)

lemma crc32_bit_xor: "crc32_bit (a XOR b) = crc32_bit a XOR crc32_bit b"
proof -
  have *: "drop_bit 1 (a XOR b) = drop_bit 1 a XOR drop_bit 1 b"
    by (rule bit_eqI) (simp add: bit_simps)
  show ?thesis
    unfolding crc32_bit_def *
    by (auto simp: bit_simps xor.assoc xor.left_commute xor.commute [of _ "0xEDB88320"]
        xor.commute [of "drop_bit _ b"])
qed

lemma crc32_bits_xor: "(crc32_bit ^^ n) (a XOR b) = (crc32_bit ^^ n) a XOR (crc32_bit ^^ n) b"
  by (induction n) (simp_all add: crc32_bit_xor)

lemma crc32_bits_0 [simp]: "(crc32_bit ^^ n) 0 = 0"
  by (induction n) simp_all

lemma bit_crc_poly_31: "bit (0xEDB88320 :: u32) 31"
  by (simp add: bit_iff_odd drop_bit_eq_div)

lemma crc32_bit_31: "bit (crc32_bit c) 31 \<longleftrightarrow> bit c 0"
  using bit_crc_poly_31 bit_imp_le_length [of c 32] by (auto simp: crc32_bit_def bit_simps)

lemma crc32_bit_kernel: "crc32_bit c = 0 \<Longrightarrow> c = 0"
proof -
  assume *: "crc32_bit c = 0"
  then have "\<not> bit c 0" using crc32_bit_31 [of c] by simp
  moreover from this * have "drop_bit 1 c = 0" by (simp add: crc32_bit_def)
  ultimately show "c = 0"
    by (metis bit_0 even_iff_mod_2_eq_zero drop_bit_eq_div div_mult_mod_eq add_0 mult_zero_left power_one_right)
qed

lemma crc32_bits_kernel: "(crc32_bit ^^ n) c = 0 \<Longrightarrow> c = 0"
  by (induction n) (auto dest: crc32_bit_kernel)

lemma crc32_bits_inject: "(crc32_bit ^^ n) a = (crc32_bit ^^ n) b \<longleftrightarrow> a = b"
proof
  assume "(crc32_bit ^^ n) a = (crc32_bit ^^ n) b"
  then have "(crc32_bit ^^ n) (a XOR b) = 0" by (simp add: crc32_bits_xor)
  then have "a XOR b = 0" by (rule crc32_bits_kernel)
  then show "a = b" by simp
qed simp

text \<open>A word whose low bits are clear is only shifted.\<close>

lemma crc32_bits_shift: "\<forall>i < n. \<not> bit c i \<Longrightarrow> (crc32_bit ^^ n) c = drop_bit n c"
proof (induction n arbitrary: c)
  case 0
  then show ?case by simp
next
  case (Suc n)
  then have "crc32_bit c = drop_bit 1 c" by (simp add: crc32_bit_def)
  moreover have "\<forall>i < n. \<not> bit (drop_bit 1 c) i" using Suc.prems by (simp add: bit_simps)
  ultimately show ?case
    using Suc.IH [of "drop_bit 1 c"] by (simp add: funpow_swap1)
qed

text \<open>A table of a linear function doubles by one xor with the next basis value.\<close>

fun xor_table :: "u32 list \<Rightarrow> u32 list \<Rightarrow> u32 list" where
  "xor_table t [] = t"
| "xor_table t (b # bs) = xor_table (t @ map (\<lambda>x. x XOR b) t) bs"

lemma of_nat_add_exp:
  "i < 2 ^ k \<Longrightarrow> (of_nat (i + 2 ^ k) :: u32) = of_nat i XOR of_nat (2 ^ k)"
proof -
  assume "i < 2 ^ k"
  then have "take_bit k i = i" by (simp add: take_bit_nat_eq_self)
  then have "\<not> bit i k" by (metis bit_take_bit_iff less_irrefl)
  then have "i AND 2 ^ k = 0" by (intro bit_eqI) (auto simp: bit_simps)
  then have "i + 2 ^ k = i XOR 2 ^ k" by (simp add: disjunctive_add_eq_xor)
  then show ?thesis by (simp only: of_nat_xor_eq)
qed

lemma map_upt_shift: "map f [n..<n + m] = map (\<lambda>i. f (i + n)) [0..<m]"
  by (induction m) (simp_all add: add.commute)

lemma xor_table_linear:
  fixes f :: "u32 \<Rightarrow> u32"
  assumes "\<And>a b. f (a XOR b) = f a XOR f b"
    and "t = map (\<lambda>i. f (of_nat i)) [0..<2 ^ k]"
    and "bs = map (\<lambda>j. f (of_nat (2 ^ (k + j)))) [0..<n]"
  shows "xor_table t bs = map (\<lambda>i. f (of_nat i)) [0..<2 ^ (k + n)]"
  using assms(2,3)
proof (induction n arbitrary: t bs k)
  case 0
  then show ?case by simp
next
  case (Suc n)
  let ?t = "t @ map (\<lambda>x. x XOR f (of_nat (2 ^ k))) t"
  have bs: "bs = f (of_nat (2 ^ k)) # map (\<lambda>j. f (of_nat (2 ^ (Suc k + j)))) [0..<n]"
    unfolding Suc.prems(2) map_upt_Suc by simp
  have "?t = map (\<lambda>i. f (of_nat i)) ([0..<2 ^ k] @ [2 ^ k..<2 ^ k + 2 ^ k])"
    unfolding Suc.prems(1) map_append map_upt_shift
    by (simp add: of_nat_add_exp assms(1) del: of_nat_add of_nat_power)
  also have "[0..<2 ^ k] @ [2 ^ k..<2 ^ k + 2 ^ k] = [0..<2 ^ Suc k]"
    using upt_add_eq_append [of 0 "2 ^ k" "2 ^ k"] by (simp only: mult_2 power_Suc)
  finally have "xor_table ?t (map (\<lambda>j. f (of_nat (2 ^ (Suc k + j)))) [0..<n])
      = map (\<lambda>i. f (of_nat i)) [0..<2 ^ (Suc k + n)]"
    by (rule Suc.IH) simp
  then show ?case by (simp add: bs)
qed

lemma funpow_8: "(f ^^ 8) x = f (f (f (f (f (f (f (f x)))))))"
  by (simp add: eval_nat_numeral)

lemma crc32_basis:
  "map (\<lambda>j. (crc32_bit ^^ 8) (of_nat (2 ^ (0 + j)))) [0..<8] =
     [0x77073096, 0xee0e612c, 0x076dc419, 0x0edb8832, 0x1db71064, 0x3b6e20c8, 0x76dc4190,
      0xedb88320]"
proof -
  have "[0..<8] = [0, 1, 2, 3, 4, 5, 6, 7]" by (simp add: upt_rec)
  then show ?thesis by (simp add: funpow_8) (simp add: crc32_bit_def)
qed

lemma crc_32_table_xor:
  "crc_32_table = xor_table [0]
     [0x77073096, 0xee0e612c, 0x076dc419, 0x0edb8832, 0x1db71064, 0x3b6e20c8, 0x76dc4190,
      0xedb88320]"
  unfolding crc_32_table_def by simp

lemma crc_32_table_poly: "crc_32_table = map (\<lambda>i. (crc32_bit ^^ 8) (of_nat i)) [0..<2 ^ 8]"
proof -
  have "xor_table [0] (map (\<lambda>j. (crc32_bit ^^ 8) (of_nat (2 ^ (0 + j)))) [0..<8])
      = map (\<lambda>i. (crc32_bit ^^ 8) (of_nat i)) [0..<2 ^ (0 + 8)]"
    by (rule xor_table_linear) (simp_all add: crc32_bits_xor)
  then show ?thesis unfolding crc32_basis crc_32_table_xor by simp
qed

lemma crc32_get_value_poly: "crc32_get_value x = (crc32_bit ^^ 8) (take_bit 8 x)"
proof -
  have "unat x mod 256 < 2 ^ 8" by simp
  then have "crc32_get_value x = (crc32_bit ^^ 8) (of_nat (unat x mod 256))"
    unfolding crc32_get_value_def crc_32_table_poly by (simp del: upt_rec_numeral)
  also have "unat x mod 256 = take_bit 8 (unat x)" by (simp add: take_bit_eq_mod)
  then have "of_nat (unat x mod 256) = take_bit 8 x" by (simp add: of_nat_take_bit)
  finally show ?thesis .
qed

lemma crc32_update_ref: "crc32_update old val = crc32_ref_update old val"
proof -
  let ?x = "old XOR ucast val" and ?hi = "push_bit 8 (drop_bit 8 old)"
  have split: "?x = take_bit 8 ?x XOR ?hi"
    by (rule bit_eqI) (auto simp: bit_simps dest: bit_byte_iff_less)
  have "(crc32_bit ^^ 8) ?hi = drop_bit 8 ?hi"
    by (rule crc32_bits_shift) (simp add: bit_push_bit_iff)
  also have "\<dots> = drop_bit 8 old"
    by (rule bit_eqI) (auto simp: bit_simps dest: bit_u32_less)
  finally have hi: "(crc32_bit ^^ 8) ?hi = drop_bit 8 old" .
  have "crc32_ref_update old val = (crc32_bit ^^ 8) (take_bit 8 ?x) XOR (crc32_bit ^^ 8) ?hi"
    unfolding crc32_ref_update_def by (subst split) (rule crc32_bits_xor)
  then show ?thesis unfolding crc32_update_def crc32_get_value_poly hi by simp
qed

subsection \<open>Error detection\<close>

text \<open>Up to four bytes enter the register as one little-endian word.\<close>

fun le_word :: "bytes \<Rightarrow> u32" where
  "le_word [] = 0"
| "le_word (b # bs) = ucast b XOR push_bit 8 (le_word bs)"

lemma le_word_high: "length bs \<le> 3 \<Longrightarrow> 24 \<le> n \<Longrightarrow> \<not> bit (le_word bs) n"
proof -
  have "8 * length bs \<le> n \<Longrightarrow> \<not> bit (le_word bs) n" for bs n
    by (induction bs arbitrary: n) (auto simp: bit_simps dest: bit_byte_iff_less)
  then show "length bs \<le> 3 \<Longrightarrow> 24 \<le> n \<Longrightarrow> ?thesis" by fastforce
qed

lemma crc32_loop_word:
  "length vs \<le> 4 \<Longrightarrow> crc32_loop c vs = (crc32_bit ^^ (8 * length vs)) (c XOR le_word vs)"
proof (induction vs arbitrary: c)
  case Nil
  then show ?case by simp
next
  case (Cons v vs)
  let ?w = "push_bit 8 (le_word vs)"
  have len: "length vs \<le> 3" using Cons.prems by simp
  have "(crc32_bit ^^ 8) ?w = drop_bit 8 ?w"
    by (rule crc32_bits_shift) (simp add: bit_push_bit_iff)
  also have "\<dots> = le_word vs"
    using le_word_high [OF len] by (intro bit_eqI) (auto simp: bit_simps not_le [symmetric])
  finally have w: "(crc32_bit ^^ 8) ?w = le_word vs" .
  have "crc32_loop c (v # vs)
      = (crc32_bit ^^ (8 * length vs)) ((crc32_bit ^^ 8) (c XOR ucast v) XOR le_word vs)"
    using Cons by (simp add: crc32_update_ref crc32_ref_update_def)
  also have "\<dots> = (crc32_bit ^^ (8 * length vs)) ((crc32_bit ^^ 8) (c XOR ucast v XOR ?w))"
    by (simp add: crc32_bits_xor w xor.assoc)
  finally show ?case
    using funpow_add [of "8 * length vs" 8 crc32_bit] by (simp add: add.commute xor.assoc)
qed

lemma le_word_inject:
  "length vs = length ws \<Longrightarrow> length vs \<le> 4 \<Longrightarrow> le_word vs = le_word ws \<Longrightarrow> vs = ws"
proof (induction vs ws rule: list_induct2)
  case Nil
  then show ?case by simp
next
  case (Cons v vs w ws)
  have eq: "bit (ucast v XOR push_bit 8 (le_word vs)) n = bit (ucast w XOR push_bit 8 (le_word ws)) n"
    for n using Cons.prems by simp
  have len: "length vs \<le> 3" "length ws \<le> 3" using Cons.prems Cons.hyps by simp_all
  have "v = w"
  proof (rule bit_eqI)
    fix n assume "possible_bit TYPE(8 word) n"
    then show "bit v n = bit w n" using eq [of n] by (simp add: bit_simps)
  qed
  moreover have "le_word vs = le_word ws"
  proof (rule bit_eqI)
    fix n
    show "bit (le_word vs) n = bit (le_word ws) n"
      using eq [of "n + 8"] le_word_high [OF len(1), of n] le_word_high [OF len(2), of n]
      by (cases "n < 24") (auto simp: bit_simps dest: bit_byte_iff_less)
  qed
  ultimately show ?case using Cons by simp
qed

lemma crc32_loop_append: "crc32_loop c (xs @ ys) = crc32_loop (crc32_loop c xs) ys"
  by (induction xs arbitrary: c) auto

lemma crc32_update_inject: "crc32_update a v = crc32_update b v \<longleftrightarrow> a = b"
proof
  assume "crc32_update a v = crc32_update b v"
  then show "a = b"
    by (simp add: crc32_update_ref crc32_ref_update_def crc32_bits_inject)
qed simp

lemma crc32_loop_inject: "crc32_loop a ys = crc32_loop b ys \<longleftrightarrow> a = b"
  by (induction ys arbitrary: a b) (auto simp: crc32_update_inject)

lemma crc32_burst:
  assumes "length vs = length ws" and "length vs \<le> 4" and "vs \<noteq> ws"
  shows "crc32_loop c (pre @ vs @ post) \<noteq> crc32_loop c (pre @ ws @ post)"
proof
  assume "crc32_loop c (pre @ vs @ post) = crc32_loop c (pre @ ws @ post)"
  then have "crc32_loop (crc32_loop c pre) vs = crc32_loop (crc32_loop c pre) ws"
    by (simp add: crc32_loop_append crc32_loop_inject)
  then have "le_word vs = le_word ws"
    using assms by (simp add: crc32_loop_word crc32_bits_inject)
  with assms show False using le_word_inject by blast
qed

lemma u32_from_bytes:
  "push_bit 24 (ucast (ucast (drop_bit 24 x AND 0xFF) :: byte))
     OR push_bit 16 (ucast (ucast (drop_bit 16 x AND 0xFF) :: byte))
     OR push_bit 8 (ucast (ucast (drop_bit 8 x AND 0xFF) :: byte))
     OR ucast (ucast (x AND 0xFF) :: byte) = (x :: u32)"
proof (rule bit_eqI)
  fix n assume "possible_bit TYPE(32 word) n"
  then show "bit (push_bit 24 (ucast (ucast (drop_bit 24 x AND 0xFF) :: byte))
     OR push_bit 16 (ucast (ucast (drop_bit 16 x AND 0xFF) :: byte))
     OR push_bit 8 (ucast (ucast (drop_bit 8 x AND 0xFF) :: byte))
     OR ucast (ucast (x AND 0xFF) :: byte) :: u32) n = bit x n"
    by (cases "n < 8"; cases "n < 16"; cases "n < 24") (auto simp: bit_simps)
qed

lemma crc32_get_eq_iff:
  "crc32_get xs = crc32_get ys \<longleftrightarrow> crc32_loop 0xFFFFFFFF xs = crc32_loop 0xFFFFFFFF ys"
proof
  assume *: "crc32_get xs = crc32_get ys"
  let ?x = "NOT (crc32_loop 0xFFFFFFFF xs)" and ?y = "NOT (crc32_loop 0xFFFFFFFF ys)"
  from * have bs: "(ucast (drop_bit 24 ?x AND 0xFF) :: byte) = ucast (drop_bit 24 ?y AND 0xFF)"
      "(ucast (drop_bit 16 ?x AND 0xFF) :: byte) = ucast (drop_bit 16 ?y AND 0xFF)"
      "(ucast (drop_bit 8 ?x AND 0xFF) :: byte) = ucast (drop_bit 8 ?y AND 0xFF)"
      "(ucast (?x AND 0xFF) :: byte) = ucast (?y AND 0xFF)"
    unfolding crc32_get_def Let_def list.inject by blast+
  have "?x = ?y"
    using u32_from_bytes [of ?x] unfolding bs u32_from_bytes [of ?y] by (rule sym)
  then show "crc32_loop 0xFFFFFFFF xs = crc32_loop 0xFFFFFFFF ys" by simp
qed (simp add: crc32_get_def)

lemma crc32_check_burst:
  assumes "length vs = length ws" and "length vs \<le> 4" and "vs \<noteq> ws"
  shows "\<not> crc32_check (pre @ ws @ post) (crc32_get (pre @ vs @ post) @ rest)"
proof -
  have "crc32_get (pre @ vs @ post) \<noteq> crc32_get (pre @ ws @ post)"
    using crc32_burst [OF assms] by (simp add: crc32_get_eq_iff)
  moreover have "crc32_check data (crc32_get data' @ rest) \<longleftrightarrow> crc32_get data' = crc32_get data"
    for data data'
    using crc32_hash.h_check_iff [of "crc32_get data' @ rest" data] crc32_hash.h_get_length [of data']
    by (simp add: hasher_crc32_def)
  ultimately show ?thesis by simp
qed

subsection \<open>Properties\<close>

text \<open>
  C39. The table-driven CRC of the library is the bitwise CRC-32 of the reflected polynomial
  0xEDB88320, on every register value and every input; all 256 table entries are right.
\<close>

theorem crc32_table_is_polynomial:
  "crc32_loop c data = foldl crc32_ref_update c data"
  by (induction data arbitrary: c) (simp_all add: crc32_update_ref)

text \<open>
  A message whose CRC is attached is refused after any corruption confined to four
  consecutive bytes: the check of the corrupted data against the original digest fails.
\<close>

theorem crc32_detects_burst:
  assumes "length vs = length ws" and "length vs \<le> 4" and "vs \<noteq> ws"
  shows "\<not> crc32_check (pre @ ws @ post) (crc32_get (pre @ vs @ post))"
  using crc32_check_burst [OF assms, of pre post "[]"] by simp

theorem crc32_detects_burst_witness:
  "\<not> crc32_check [1, 2, 9, 9, 5] (crc32_get [1, 2, 3, 4, 5])"
  using crc32_detects_burst [of "[3, 4]" "[9, 9]" "[1, 2]" "[5]"] by simp

end
