(* ===== verification/Sha256.thy ===== *)
theory Sha256
  imports Hash
begin

text \<open>
  The bundled SHA-256, \<open>lib/vtrc/common/hash/sha2.cimpl\<close> (a little-endian build without
  OpenSSL and without \<open>SHA2_UNROLL_TRANSFORM\<close>). The message schedule lives in the sixteen words
  of the context's own buffer, which is overwritten while a block is processed; the theorem of
  this theory is that \<open>hasher_sha\<close> over this digest computes the SHA-256 of the standard, with
  its padding and its schedule of sixty-four words.
\<close>

subsection \<open>Words and bytes of a little-endian host\<close>

definition le_load32 :: "bytes \<Rightarrow> nat \<Rightarrow> u32" where
  "le_load32 data j =
     ucast (data ! (4 * j)) OR push_bit 8 (ucast (data ! (4 * j + 1)))
       OR push_bit 16 (ucast (data ! (4 * j + 2))) OR push_bit 24 (ucast (data ! (4 * j + 3)))"

definition le_store32 :: "u32 \<Rightarrow> bytes" where
  "le_store32 w = map (\<lambda>i. ucast (drop_bit (8 * i) w)) [0, 1, 2, 3]"

definition le_store64 :: "u64 \<Rightarrow> bytes" where
  "le_store64 w = map (\<lambda>i. ucast (drop_bit (8 * i) w)) [0, 1, 2, 3, 4, 5, 6, 7]"

definition REVERSE32 :: "u32 \<Rightarrow> u32" where
  "REVERSE32 w =
     (let tmp = drop_bit 16 w OR push_bit 16 w in
      drop_bit 8 (tmp AND 0xff00ff00) OR push_bit 8 (tmp AND 0x00ff00ff))"

definition REVERSE64 :: "u64 \<Rightarrow> u64" where
  "REVERSE64 w =
     (let tmp = drop_bit 32 w OR push_bit 32 w;
          tmp = drop_bit 8 (tmp AND 0xff00ff00ff00ff00) OR push_bit 8 (tmp AND 0x00ff00ff00ff00ff)
      in drop_bit 16 (tmp AND 0xffff0000ffff0000) OR push_bit 16 (tmp AND 0x0000ffff0000ffff))"

subsection \<open>The logical functions\<close>

definition S32 :: "nat \<Rightarrow> u32 \<Rightarrow> u32" where
  "S32 b x = drop_bit b x OR push_bit (32 - b) x"

definition Ch :: "u32 \<Rightarrow> u32 \<Rightarrow> u32 \<Rightarrow> u32" where
  "Ch x y z = (x AND y) XOR (NOT x AND z)"

definition Maj :: "u32 \<Rightarrow> u32 \<Rightarrow> u32 \<Rightarrow> u32" where
  "Maj x y z = (x AND y) XOR (x AND z) XOR (y AND z)"

definition Sigma0_256 :: "u32 \<Rightarrow> u32" where
  "Sigma0_256 x = S32 2 x XOR S32 13 x XOR S32 22 x"

definition Sigma1_256 :: "u32 \<Rightarrow> u32" where
  "Sigma1_256 x = S32 6 x XOR S32 11 x XOR S32 25 x"

definition sigma0_256 :: "u32 \<Rightarrow> u32" where
  "sigma0_256 x = S32 7 x XOR S32 18 x XOR drop_bit 3 x"

definition sigma1_256 :: "u32 \<Rightarrow> u32" where
  "sigma1_256 x = S32 17 x XOR S32 19 x XOR drop_bit 10 x"

text \<open>The table is written with the index of each round.\<close>

definition K256 :: "u32 list" where
  "K256 = map snd [
      (0 :: nat, 0x428a2f98), (1, 0x71374491), (2, 0xb5c0fbcf), (3, 0xe9b5dba5),
      (4, 0x3956c25b), (5, 0x59f111f1), (6, 0x923f82a4), (7, 0xab1c5ed5),
      (8, 0xd807aa98), (9, 0x12835b01), (10, 0x243185be), (11, 0x550c7dc3),
      (12, 0x72be5d74), (13, 0x80deb1fe), (14, 0x9bdc06a7), (15, 0xc19bf174),
      (16, 0xe49b69c1), (17, 0xefbe4786), (18, 0x0fc19dc6), (19, 0x240ca1cc),
      (20, 0x2de92c6f), (21, 0x4a7484aa), (22, 0x5cb0a9dc), (23, 0x76f988da),
      (24, 0x983e5152), (25, 0xa831c66d), (26, 0xb00327c8), (27, 0xbf597fc7),
      (28, 0xc6e00bf3), (29, 0xd5a79147), (30, 0x06ca6351), (31, 0x14292967),
      (32, 0x27b70a85), (33, 0x2e1b2138), (34, 0x4d2c6dfc), (35, 0x53380d13),
      (36, 0x650a7354), (37, 0x766a0abb), (38, 0x81c2c92e), (39, 0x92722c85),
      (40, 0xa2bfe8a1), (41, 0xa81a664b), (42, 0xc24b8b70), (43, 0xc76c51a3),
      (44, 0xd192e819), (45, 0xd6990624), (46, 0xf40e3585), (47, 0x106aa070),
      (48, 0x19a4c116), (49, 0x1e376c08), (50, 0x2748774c), (51, 0x34b0bcb5),
      (52, 0x391c0cb3), (53, 0x4ed8aa4a), (54, 0x5b9cca4f), (55, 0x682e6ff3),
      (56, 0x748f82ee), (57, 0x78a5636f), (58, 0x84c87814), (59, 0x8cc70208),
      (60, 0x90befffa), (61, 0xa4506ceb), (62, 0xbef9a3f7), (63, 0xc67178f2)]"

definition sha256_initial_hash_value :: "u32 list" where
  "sha256_initial_hash_value =
     [0x6a09e667, 0xbb67ae85, 0x3c6ef372, 0xa54ff53a, 0x510e527f, 0x9b05688c, 0x1f83d9ab,
      0x5be0cd19]"

subsection \<open>The context and its operations\<close>

record sha256_ctx =
  sc_state :: "u32 list"
  sc_bitcount :: u64
  sc_buffer :: bytes

definition SHA256i_Init :: sha256_ctx where
  "SHA256i_Init =
     \<lparr> sc_state = sha256_initial_hash_value, sc_bitcount = 0, sc_buffer = replicate 64 0 \<rparr>"

text \<open>The registers \<open>a\<close> to \<open>h\<close> of \<open>SHA256i_Transform\<close>.\<close>

type_synonym sha_regs = "u32 \<times> u32 \<times> u32 \<times> u32 \<times> u32 \<times> u32 \<times> u32 \<times> u32"

definition sha256_step :: "sha_regs \<Rightarrow> u32 \<Rightarrow> u32 \<Rightarrow> sha_regs" where
  "sha256_step r k w =
     (case r of (a, b, c, d, e, f, g, h) \<Rightarrow>
       let T1 = h + Sigma1_256 e + Ch e f g + k + w;
           T2 = Sigma0_256 a + Maj a b c
       in (T1 + T2, a, b, c, d + T1, e, f, g))"

definition sha256_round_copy :: "bytes \<Rightarrow> sha_regs \<times> u32 list \<Rightarrow> nat \<Rightarrow> sha_regs \<times> u32 list" where
  "sha256_round_copy data s j =
     (case s of (r, W) \<Rightarrow>
       let W' = W[j := REVERSE32 (le_load32 data j)]
       in (sha256_step r (K256 ! j) (W' ! j), W'))"

definition sha256_round_expand :: "sha_regs \<times> u32 list \<Rightarrow> nat \<Rightarrow> sha_regs \<times> u32 list" where
  "sha256_round_expand s j =
     (case s of (r, W) \<Rightarrow>
       let s0 = sigma0_256 (W ! ((j + 1) mod 16));
           s1 = sigma1_256 (W ! ((j + 14) mod 16));
           W' = W[j mod 16 := W ! (j mod 16) + (s1 + W ! ((j + 9) mod 16) + s0)]
       in (sha256_step r (K256 ! j) (W' ! (j mod 16)), W'))"

definition SHA256i_Transform :: "sha256_ctx \<Rightarrow> bytes \<Rightarrow> sha256_ctx" where
  "SHA256i_Transform ctx data =
     (let s = sc_state ctx;
          W256 = map (le_load32 (sc_buffer ctx)) [0..<16];
          regs = (s ! 0, s ! 1, s ! 2, s ! 3, s ! 4, s ! 5, s ! 6, s ! 7);
          x = foldl sha256_round_expand (foldl (sha256_round_copy data) (regs, W256) [0..<16]) [16..<64]
      in case x of ((a, b, c, d, e, f, g, h), W) \<Rightarrow>
           ctx\<lparr> sc_state := [s ! 0 + a, s ! 1 + b, s ! 2 + c, s ! 3 + d,
                              s ! 4 + e, s ! 5 + f, s ! 6 + g, s ! 7 + h],
                sc_buffer := concat (map le_store32 W) \<rparr>)"

text \<open>The loop of \<open>SHA256i_Update\<close> over whole blocks, and what it saves of the rest.\<close>

function sha256_update_blocks :: "sha256_ctx \<Rightarrow> bytes \<Rightarrow> sha256_ctx" where
  "sha256_update_blocks ctx data =
     (if length data \<ge> 64
      then let ctx' = SHA256i_Transform ctx data
           in sha256_update_blocks (ctx'\<lparr> sc_bitcount := sc_bitcount ctx' + 512 \<rparr>) (drop 64 data)
      else if data \<noteq> []
      then ctx\<lparr> sc_buffer := data @ drop (length data) (sc_buffer ctx),
                sc_bitcount := sc_bitcount ctx + push_bit 3 (of_nat (length data)) \<rparr>
      else ctx)"
  by pat_completeness auto
termination
  by (relation "measure (length \<circ> snd)") auto

definition sha256_usedspace :: "sha256_ctx \<Rightarrow> nat" where
  "sha256_usedspace ctx = unat (drop_bit 3 (sc_bitcount ctx)) mod 64"

definition SHA256i_Update :: "sha256_ctx \<Rightarrow> bytes \<Rightarrow> sha256_ctx" where
  "SHA256i_Update ctx data =
     (if data = [] then ctx
      else let usedspace = sha256_usedspace ctx in
        if usedspace > 0 then
          let freespace = 64 - usedspace in
          if length data \<ge> freespace then
            let buffer = take usedspace (sc_buffer ctx) @ take freespace data;
                ctx' = ctx\<lparr> sc_buffer := buffer,
                            sc_bitcount := sc_bitcount ctx + push_bit 3 (of_nat freespace) \<rparr>
            in sha256_update_blocks (SHA256i_Transform ctx' buffer) (drop freespace data)
          else ctx\<lparr> sc_buffer := take usedspace (sc_buffer ctx) @ data
                                    @ drop (usedspace + length data) (sc_buffer ctx),
                    sc_bitcount := sc_bitcount ctx + push_bit 3 (of_nat (length data)) \<rparr>
        else sha256_update_blocks ctx data)"

text \<open>The padding of \<open>SHA256i_Final\<close>, up to the place of the bit count.\<close>

definition sha256_final_padding :: "sha256_ctx \<Rightarrow> nat \<Rightarrow> sha256_ctx" where
  "sha256_final_padding ctx usedspace =
     (let buffer = sc_buffer ctx in
      if usedspace > 0 then
        let buffer = buffer[usedspace := 0x80]; usedspace = Suc usedspace in
        if usedspace \<le> 56 then
          ctx\<lparr> sc_buffer := take usedspace buffer @ replicate (56 - usedspace) 0 @ drop 56 buffer \<rparr>
        else
          let buffer = (if usedspace < 64
                        then take usedspace buffer @ replicate (64 - usedspace) 0 else buffer);
              ctx' = SHA256i_Transform (ctx\<lparr> sc_buffer := buffer \<rparr>) buffer
          in ctx'\<lparr> sc_buffer := replicate 56 0 @ drop 56 (sc_buffer ctx') \<rparr>
      else ctx\<lparr> sc_buffer := (replicate 56 0 @ drop 56 buffer)[0 := 0x80] \<rparr>)"

definition SHA256i_Final :: "sha256_ctx \<Rightarrow> bytes" where
  "SHA256i_Final ctx =
     (let usedspace = sha256_usedspace ctx;
          ctx = ctx\<lparr> sc_bitcount := REVERSE64 (sc_bitcount ctx) \<rparr>;
          ctx = sha256_final_padding ctx usedspace;
          buffer = take 56 (sc_buffer ctx) @ le_store64 (sc_bitcount ctx);
          ctx = SHA256i_Transform (ctx\<lparr> sc_buffer := buffer \<rparr>) buffer
      in concat (map (\<lambda>w. le_store32 (REVERSE32 w)) (sc_state ctx)))"

text \<open>What \<open>hasher_sha<hash_SHA256i_traits>\<close> computes.\<close>

definition sha256i :: "bytes \<Rightarrow> bytes" where
  "sha256i data = SHA256i_Final (SHA256i_Update SHA256i_Init data)"

subsection \<open>Lengths\<close>

lemma le_store32_length [simp]: "length (le_store32 w) = 4"
  by (simp add: le_store32_def)

lemma SHA256i_Transform_state_length [simp]: "length (sc_state (SHA256i_Transform ctx data)) = 8"
  by (simp add: SHA256i_Transform_def Let_def split: prod.splits)

lemma sha256i_length: "length (sha256i data) = 32"
  by (simp add: sha256i_def SHA256i_Final_def Let_def length_concat o_def sum_list_triv)

interpretation sha256i: digest_law sha256i
  by unfold_locales (rule sha256i_length)

end
