(* ===== verification/Transformers.thy ===== *)
theory Transformers
  imports Sha256
begin

text \<open>
  Message transformers, \<open>lib/vtrc/common/transformer\<close>: the identity, the stream cipher of
  \<open>erseefor.h\<close> with its first 3072 bytes dropped, and ChaCha (\<open>crypt/chacha/chacha-regs.c\<close>).
  A transformer is an object with a state that \<open>transform\<close> advances, so the two ends of a
  connection understand each other only while their objects are in the same state. The locale
  \<open>transformer_law\<close> is that contract, and every cipher is shown to keep it.
\<close>

subsection \<open>erseefor\<close>

record erseefor =
  ef_state :: bytes
  ef_si1 :: byte
  ef_si2 :: byte

definition swap_bytes :: "bytes \<Rightarrow> nat \<Rightarrow> nat \<Rightarrow> bytes" where
  "swap_bytes s i j = s[i := s ! j, j := s ! i]"

definition ef_key_step :: "bytes \<Rightarrow> bytes \<times> byte \<Rightarrow> nat \<Rightarrow> bytes \<times> byte" where
  "ef_key_step key sk i =
     (case sk of (s, k) \<Rightarrow>
       let k' = k + (s ! i + key ! (i mod length key))
       in (swap_bytes s i (unat k'), k'))"

text \<open>With an empty key the index \<open>i % keysize\<close> divides by zero.\<close>

definition ef_init_key :: "bytes \<Rightarrow> exn + erseefor" where
  "ef_init_key key =
     (if key = [] then Inl Undefined
      else Inr \<lparr> ef_state = fst (foldl (ef_key_step key) (map of_nat [0..<256], 0) [0..<256]),
                 ef_si1 = 0, ef_si2 = 0 \<rparr>)"

definition ef_next :: "erseefor \<Rightarrow> erseefor" where
  "ef_next e =
     (let si1 = ef_si1 e + 1; si2 = ef_si2 e + ef_state e ! unat si1
      in \<lparr> ef_state = swap_bytes (ef_state e) (unat si1) (unat si2), ef_si1 = si1, ef_si2 = si2 \<rparr>)"

fun ef_drop :: "nat \<Rightarrow> erseefor \<Rightarrow> erseefor" where
  "ef_drop 0 e = e"
| "ef_drop (Suc n) e = ef_drop n (ef_next e)"

definition ef_key_byte :: "erseefor \<Rightarrow> byte" where
  "ef_key_byte e =
     (let k = ef_state e ! unat (ef_si1 e) + ef_state e ! unat (ef_si2 e)
      in ef_state e ! unat k)"

fun ef_transform :: "erseefor \<Rightarrow> bytes \<Rightarrow> erseefor \<times> bytes" where
  "ef_transform e [] = (e, [])"
| "ef_transform e (b # bs) =
     (let e1 = ef_next e; (e2, cs) = ef_transform e1 bs
      in (e2, (b XOR ef_key_byte e1) # cs))"

definition drop_key_init :: nat where
  "drop_key_init = 3072"

definition erseefor_create :: "bytes \<Rightarrow> exn + erseefor" where
  "erseefor_create key = map_sum (\<lambda>e. e) (ef_drop drop_key_init) (ef_init_key key)"

subsection \<open>ChaCha\<close>

definition ROTL32 :: "u32 \<Rightarrow> nat \<Rightarrow> u32" where
  "ROTL32 v n = push_bit n v OR drop_bit (32 - n) v"

text \<open>The macro works on four variables; here on four places of the sixteen words.\<close>

definition QUARTERROUND :: "u32 list \<Rightarrow> nat \<Rightarrow> nat \<Rightarrow> nat \<Rightarrow> nat \<Rightarrow> u32 list" where
  "QUARTERROUND x ia ib ic id' =
     (let a = x ! ia; b = x ! ib; c = x ! ic; d = x ! id';
          a = a + b; d = ROTL32 (d XOR a) 16;
          c = c + d; b = ROTL32 (b XOR c) 12;
          a = a + b; d = ROTL32 (d XOR a) 8;
          c = c + d; b = ROTL32 (b XOR c) 7
      in x[ia := a, ib := b, ic := c, id' := d])"

definition chacha_double_round :: "u32 list \<Rightarrow> u32 list" where
  "chacha_double_round x =
     (let x = QUARTERROUND x 0 4 8 12; x = QUARTERROUND x 1 5 9 13;
          x = QUARTERROUND x 2 6 10 14; x = QUARTERROUND x 3 7 11 15;
          x = QUARTERROUND x 0 5 10 15; x = QUARTERROUND x 1 6 11 12;
          x = QUARTERROUND x 2 7 8 13; x = QUARTERROUND x 3 4 9 14
      in x)"

definition salsa20_wordtobyte :: "u32 list \<Rightarrow> bytes" where
  "salsa20_wordtobyte input =
     (let x = (chacha_double_round ^^ 10) input
      in concat (map (\<lambda>i. le_store32 (x ! i + input ! i)) [0..<16]))"

definition chacha_sigma :: bytes where
  "chacha_sigma = map (of_nat \<circ> of_char) ''expand 32-byte k''"

definition chacha_tau :: bytes where
  "chacha_tau = map (of_nat \<circ> of_char) ''expand 16-byte k''"

definition ECRYPT_keysetup :: "u32 list \<Rightarrow> bytes \<Rightarrow> nat \<Rightarrow> u32 list" where
  "ECRYPT_keysetup x k kbits =
     (let k' = (if kbits = 256 then drop 16 k else k);
          constants = (if kbits = 256 then chacha_sigma else chacha_tau)
      in x[4 := le_load32 k 0, 5 := le_load32 k 1, 6 := le_load32 k 2, 7 := le_load32 k 3,
           8 := le_load32 k' 0, 9 := le_load32 k' 1, 10 := le_load32 k' 2, 11 := le_load32 k' 3,
           0 := le_load32 constants 0, 1 := le_load32 constants 1,
           2 := le_load32 constants 2, 3 := le_load32 constants 3])"

text \<open>The block counter is the pair of words 12 and 13.\<close>

definition chacha_count :: "u32 list \<Rightarrow> u32 list" where
  "chacha_count x =
     (let x = x[12 := x ! 12 + 1] in
      if x ! 12 = 0 then x[13 := x ! 13 + 1] else x)"

function chacha_encrypt_loop :: "u32 list \<Rightarrow> bytes \<Rightarrow> u32 list \<times> bytes" where
  "chacha_encrypt_loop x m =
     (let output = salsa20_wordtobyte x; x = chacha_count x in
      if length m \<le> 64 then (x, map2 (XOR) m output)
      else case chacha_encrypt_loop x (drop 64 m) of
             (x', c) \<Rightarrow> (x', map2 (XOR) (take 64 m) output @ c))"
  by pat_completeness auto
termination
  by (relation "measure (length \<circ> snd)") auto

text \<open>The number of bytes is a 32-bit argument: of a longer string only the number of bytes
  that is left modulo \<open>2 ^ 32\<close> is encrypted, the rest stays as it is.\<close>

definition ECRYPT_encrypt_bytes :: "u32 list \<Rightarrow> bytes \<Rightarrow> u32 list \<times> bytes" where
  "ECRYPT_encrypt_bytes x m =
     (let n = length m mod 2 ^ 32 in
      if n = 0 then (x, m)
      else case chacha_encrypt_loop x (take n m) of (x', c) \<Rightarrow> (x', c @ drop n m))"

text \<open>The constructor repeats a short key until it has 32 bytes. With an empty key that loop
  never ends, which is the value \<open>None\<close>.\<close>

partial_function (option) chacha_fill_key :: "bytes \<Rightarrow> bytes \<Rightarrow> bytes option" where
  "chacha_fill_key tkey key =
     (if length key < 32 then chacha_fill_key tkey (key @ tkey) else Some key)"

definition chacha_create :: "bytes \<Rightarrow> u32 list option" where
  "chacha_create tkey =
     (let key = (if length tkey < 32 then map_option (take 32) (chacha_fill_key tkey [])
                 else Some (take 32 tkey))
      in map_option (\<lambda>k. ECRYPT_keysetup (replicate 16 0) k (length k * 8)) key)"

subsection \<open>Transformer objects\<close>

datatype transformer =
    Transformer_none
  | Transformer_erseefor erseefor
  | Transformer_chacha "u32 list"

fun transform :: "transformer \<Rightarrow> bytes \<Rightarrow> transformer \<times> bytes" where
  "transform Transformer_none data = (Transformer_none, data)"
| "transform (Transformer_erseefor e) data = map_prod Transformer_erseefor (\<lambda>d. d) (ef_transform e data)"
| "transform (Transformer_chacha x) data =
     map_prod Transformer_chacha (\<lambda>d. d) (ECRYPT_encrypt_bytes x data)"

definition TRANSFORM_NONE :: nat where "TRANSFORM_NONE = 0"
definition TRANSFORM_ERSEEFOR :: nat where "TRANSFORM_ERSEEFOR = 1"

text \<open>\<open>Inr None\<close> is the null pointer the factory returns for an index it does not know.\<close>

definition transformer_create :: "nat \<Rightarrow> bytes \<Rightarrow> exn + transformer option" where
  "transformer_create ident key =
     (if ident = TRANSFORM_ERSEEFOR
      then map_sum (\<lambda>e. e) (Some \<circ> Transformer_erseefor) (erseefor_create key)
      else if ident = TRANSFORM_NONE then Inr (Some Transformer_none)
      else Inr None)"

text \<open>Keys of the basic authentication. The digest is the one of \<open>sha2::create256\<close>.\<close>

definition create_key :: "(bytes \<Rightarrow> bytes) \<Rightarrow> bytes \<Rightarrow> bytes \<Rightarrow> bytes \<Rightarrow> bytes" where
  "create_key sha256 key s1 s2 =
     (let ts1 = sha256 (s1 @ key) in sha256 (s2 @ ts1))"

text \<open>A random device is the sequence of bytes it will deliver and the position in it.\<close>

type_synonym random_device = "(nat \<Rightarrow> byte) \<times> nat"

definition generate_block :: "random_device \<Rightarrow> nat \<Rightarrow> random_device \<times> bytes" where
  "generate_block rd n =
     (case rd of (rnd, pos) \<Rightarrow> ((rnd, pos + n), map rnd [pos..<pos + n]))"

definition generate_key_infos ::
    "(bytes \<Rightarrow> bytes) \<Rightarrow> random_device \<Rightarrow> bytes \<Rightarrow> random_device \<times> bytes \<times> bytes \<times> bytes" where
  "generate_key_infos sha256 rd key =
     (let (rd, ts1) = generate_block rd 256;
          (rd, ts2) = generate_block rd 256
      in (rd, ts1, ts2, create_key sha256 key ts1 ts2))"

subsection \<open>The contract\<close>

text \<open>A run of messages through one object.\<close>

fun trans_all :: "('s \<Rightarrow> bytes \<Rightarrow> 's \<times> bytes) \<Rightarrow> 's \<Rightarrow> bytes list \<Rightarrow> 's \<times> bytes list" where
  "trans_all f s [] = (s, [])"
| "trans_all f s (m # ms) =
     (case f s m of (s', c) \<Rightarrow> case trans_all f s' ms of (s'', cs) \<Rightarrow> (s'', c # cs))"

text \<open>
  \<open>trans\<close> advances the state by the length of what it transforms and not by its content; from
  one state it is its own inverse.
\<close>

locale transformer_law =
  fixes trans :: "'s \<Rightarrow> bytes \<Rightarrow> 's \<times> bytes"
  assumes trans_length: "length (snd (trans s d)) = length d"
    and trans_state: "length d = length d' \<Longrightarrow> fst (trans s d) = fst (trans s d')"
    and trans_inverse: "snd (trans s (snd (trans s d))) = d"
begin

text \<open>Two objects that start in the same state stay in step over any run of messages.\<close>

lemma trans_back: "trans s d = (s', c) \<Longrightarrow> trans s c = (s', d)"
  using trans_inverse [of s d] trans_state [of c d s] trans_length [of s d]
  by (cases "trans s c") auto

lemma trans_all_back: "trans_all trans s ms = (s', cs) \<Longrightarrow> trans_all trans s cs = (s', ms)"
  by (induction ms arbitrary: s cs) (auto split: prod.splits dest: trans_back)

end

text \<open>All the ciphers of the library are key streams: a change of the input is the same change
  of the output.\<close>

locale keystream_law = transformer_law +
  assumes trans_xor:
    "length d = length e \<Longrightarrow> snd (trans s (map2 (XOR) d e)) = map2 (XOR) (snd (trans s d)) e"
begin

lemma trans_xor_inverse:
  "length d = length e \<Longrightarrow> snd (trans s (map2 (XOR) (snd (trans s d)) e)) = map2 (XOR) d e"
  using trans_xor [of "snd (trans s d)" e s] by (simp add: trans_length trans_inverse)

lemma trans_all_xor:
  "trans_all trans s bs = (t, ds) \<Longrightarrow> i < length bs \<Longrightarrow> length e = length (bs ! i) \<Longrightarrow>
     trans_all trans s (bs[i := map2 (XOR) (bs ! i) e]) = (t, ds[i := map2 (XOR) (ds ! i) e])"
proof (induction bs arbitrary: s ds i)
  case (Cons b bs)
  show ?case
  proof (cases i)
    case 0
    have "trans s (map2 (XOR) b e) = (fst (trans s b), map2 (XOR) (snd (trans s b)) e)"
      using Cons.prems(3) 0 trans_xor [of b e s] trans_state [of "map2 (XOR) b e" b s]
      by (simp add: prod_eq_iff)
    with 0 Cons.prems(1) show ?thesis by (auto split: prod.splits)
  next
    case (Suc j)
    with Cons show ?thesis by (auto split: prod.splits)
  qed
qed simp

end

subsection \<open>erseefor keeps it\<close>

lemma ef_transform_length: "length (snd (ef_transform e d)) = length d"
  by (induction d arbitrary: e) (simp_all add: Let_def case_prod_beta)

lemma ef_transform_state: "length d = length d' \<Longrightarrow> fst (ef_transform e d) = fst (ef_transform e d')"
  by (induction d d' arbitrary: e rule: list_induct2) (auto simp: Let_def case_prod_beta)

lemma xor_twice [simp]: "(b XOR k) XOR k = (b :: 'a::len word)"
  by (auto simp: bit_eq_iff bit_simps)

lemma ef_transform_inverse: "snd (ef_transform e (snd (ef_transform e d))) = d"
  by (induction d arbitrary: e) (simp_all add: Let_def case_prod_beta)

text \<open>The state of the cipher stays a permutation of all bytes: no index leaves the table and
  no byte value is lost, for every key and at every position of the stream.\<close>

definition ef_wf :: "erseefor \<Rightarrow> bool" where
  "ef_wf e \<longleftrightarrow> mset (ef_state e) = mset (map of_nat [0..<256])"

lemma unat_byte_less [simp]: "unat (b :: byte) < 256"
  using unsigned_less [of b] by simp

lemma swap_bytes_mset:
  "i < length s \<Longrightarrow> j < length s \<Longrightarrow> mset (swap_bytes s i j) = mset s"
  unfolding swap_bytes_def by (rule mset_swap)

lemma mset_256_length:
  "mset s = mset (map of_nat [0..<256] :: bytes) \<Longrightarrow> length s = 256"
  by (metis length_map length_upt diff_zero mset_eq_length)

lemma ef_key_fold:
  assumes "\<forall>i \<in> set is. i < 256" and "mset s = mset (map of_nat [0..<256] :: bytes)"
  shows "mset (fst (foldl (ef_key_step key) (s, k) is)) = mset (map of_nat [0..<256] :: bytes)"
  using assms
proof (induction "is" arbitrary: s k)
  case (Cons i "is")
  let ?k = "k + (s ! i + key ! (i mod length key))"
  have "mset (swap_bytes s i (unat ?k)) = mset s"
    using Cons.prems mset_256_length [of s] by (intro swap_bytes_mset) auto
  with Cons show ?case by (simp add: ef_key_step_def Let_def)
qed simp

lemma ef_init_key_wf: "ef_init_key key = Inr e \<Longrightarrow> ef_wf e"
  using ef_key_fold [of "[0..<256]" "map of_nat [0..<256]" key 0]
  by (auto simp: ef_init_key_def ef_wf_def split: if_splits)

lemma ef_next_wf: "ef_wf e \<Longrightarrow> ef_wf (ef_next e)"
  using mset_256_length [of "ef_state e"]
  by (simp add: ef_wf_def ef_next_def Let_def swap_bytes_mset)

lemma ef_drop_wf: "ef_wf e \<Longrightarrow> ef_wf (ef_drop n e)"
  by (induction n arbitrary: e) (auto intro: ef_next_wf)

lemma ef_transform_wf: "ef_wf e \<Longrightarrow> ef_wf (fst (ef_transform e d))"
  by (induction d arbitrary: e) (auto simp: Let_def case_prod_beta intro: ef_next_wf)

lemma xor_swap: "(a XOR e) XOR k = (a XOR k) XOR (e :: 'a::len word)"
  by (auto simp: bit_eq_iff bit_simps)

lemma ef_transform_xor:
  "length d = length e \<Longrightarrow> snd (ef_transform s (map2 (XOR) d e)) = map2 (XOR) (snd (ef_transform s d)) e"
  by (induction d e arbitrary: s rule: list_induct2) (simp_all add: Let_def case_prod_beta xor_swap)

interpretation erseefor: keystream_law ef_transform
  by unfold_locales
    (fact ef_transform_length ef_transform_state ef_transform_inverse ef_transform_xor)+

subsection \<open>ChaCha keeps it\<close>

lemma QUARTERROUND_length [simp]: "length (QUARTERROUND x a b c d) = length x"
  by (simp add: QUARTERROUND_def Let_def)

lemma salsa20_wordtobyte_length [simp]: "length (salsa20_wordtobyte x) = 64"
  by (simp add: salsa20_wordtobyte_def Let_def length_concat o_def sum_list_triv)

lemma map2_xor_inverse:
  "length m \<le> length k \<Longrightarrow> map2 (XOR) (map2 (XOR) m k) k = (m :: bytes)"
  by (rule nth_equalityI) simp_all

declare chacha_encrypt_loop.simps [simp del]

lemma chacha_loop_length: "length (snd (chacha_encrypt_loop x m)) = length m"
proof (induction x m rule: chacha_encrypt_loop.induct)
  case (1 x m)
  then show ?case
    by (subst chacha_encrypt_loop.simps) (auto simp: Let_def split: prod.splits)
qed

lemma chacha_loop_state:
  "length m = length m' \<Longrightarrow> fst (chacha_encrypt_loop x m) = fst (chacha_encrypt_loop x m')"
proof (induction x m arbitrary: m' rule: chacha_encrypt_loop.induct)
  case (1 x m)
  show ?case
  proof (cases "length m \<le> 64")
    case False
    with "1.IH" [OF refl refl, of "drop 64 m'"] "1.prems" show ?thesis
      by (subst (1 2) chacha_encrypt_loop.simps) (auto simp: Let_def case_prod_beta)
  qed (use 1 in \<open>subst (1 2) chacha_encrypt_loop.simps, simp add: Let_def\<close>)
qed

lemma chacha_loop_inverse:
  "snd (chacha_encrypt_loop x (snd (chacha_encrypt_loop x m))) = m"
proof (induction x m rule: chacha_encrypt_loop.induct)
  case (1 x m)
  show ?case
  proof (cases "length m \<le> 64")
    case True
    then show ?thesis
      by (subst (1 2) chacha_encrypt_loop.simps) (simp add: Let_def map2_xor_inverse)
  next
    case False
    let ?o = "salsa20_wordtobyte x" and ?x = "chacha_count x"
    let ?c = "snd (chacha_encrypt_loop ?x (drop 64 m))"
    have *: "snd (chacha_encrypt_loop x m) = map2 (XOR) (take 64 m) ?o @ ?c"
      using False by (subst chacha_encrypt_loop.simps) (simp add: Let_def case_prod_beta)
    have "snd (chacha_encrypt_loop ?x ?c) = drop 64 m"
      using "1.IH" [OF refl refl] False by simp
    then show ?thesis
      unfolding * using False
      by (subst chacha_encrypt_loop.simps)
        (simp add: Let_def case_prod_beta chacha_loop_length map2_xor_inverse)
  qed
qed

lemma ECRYPT_encrypt_bytes_length: "length (snd (ECRYPT_encrypt_bytes x m)) = length m"
  by (auto simp: ECRYPT_encrypt_bytes_def Let_def case_prod_beta chacha_loop_length)

lemma ECRYPT_encrypt_bytes_state:
  "length m = length m' \<Longrightarrow> fst (ECRYPT_encrypt_bytes x m) = fst (ECRYPT_encrypt_bytes x m')"
  by (auto simp: ECRYPT_encrypt_bytes_def Let_def case_prod_beta intro: chacha_loop_state)

lemma ECRYPT_encrypt_bytes_inverse:
  "snd (ECRYPT_encrypt_bytes x (snd (ECRYPT_encrypt_bytes x m))) = m"
proof -
  let ?n = "length m mod 2 ^ 32"
  have "length (snd (chacha_encrypt_loop x (take ?n m))) = ?n"
    by (simp add: chacha_loop_length)
  then show ?thesis
    by (auto simp: ECRYPT_encrypt_bytes_def Let_def case_prod_beta chacha_loop_inverse
        simp del: length_take)
qed

lemma map2_xor_swap:
  "length d = length e \<Longrightarrow>
     map2 (XOR) (map2 (XOR) d e) k = map2 (XOR) (map2 (XOR) d k) (take (length k) (e :: bytes))"
  by (rule nth_equalityI) (simp_all add: xor_swap)

lemma map2_take_drop:
  "length d = length e \<Longrightarrow> take n (map2 f d e) = map2 f (take n d) (take n e)"
  "length d = length e \<Longrightarrow> drop n (map2 f d e) = map2 f (drop n d) (drop n e)"
  by (simp_all add: take_map drop_map take_zip drop_zip)

lemma chacha_loop_long:
  "64 < length m \<Longrightarrow> snd (chacha_encrypt_loop x m) =
     map2 (XOR) (take 64 m) (salsa20_wordtobyte x) @ snd (chacha_encrypt_loop (chacha_count x) (drop 64 m))"
  by (subst chacha_encrypt_loop.simps) (simp add: Let_def case_prod_beta)

lemma chacha_loop_xor:
  "length d = length e \<Longrightarrow>
     snd (chacha_encrypt_loop x (map2 (XOR) d e)) = map2 (XOR) (snd (chacha_encrypt_loop x d)) e"
proof (induction x d arbitrary: e rule: chacha_encrypt_loop.induct)
  case (1 x m)
  show ?case
  proof (cases "length m \<le> 64")
    case True
    then show ?thesis
      using "1.prems" by (subst (1 2) chacha_encrypt_loop.simps) (simp add: Let_def map2_xor_swap)
  next
    case False
    let ?o = "salsa20_wordtobyte x" and ?x = "chacha_count x"
    have "snd (chacha_encrypt_loop x (map2 (XOR) m e))
        = map2 (XOR) (map2 (XOR) (take 64 m) (take 64 e)) ?o
          @ map2 (XOR) (snd (chacha_encrypt_loop ?x (drop 64 m))) (drop 64 e)"
      using "1.IH" [OF refl refl False, of "drop 64 e"] "1.prems" False
      by (simp add: chacha_loop_long map2_take_drop)
    also have "map2 (XOR) (map2 (XOR) (take 64 m) (take 64 e)) ?o
        = map2 (XOR) (map2 (XOR) (take 64 m) ?o) (take 64 e)"
      using "1.prems" map2_xor_swap [of "take 64 m" "take 64 e" ?o] by simp
    also have "\<dots> @ map2 (XOR) (snd (chacha_encrypt_loop ?x (drop 64 m))) (drop 64 e)
        = map2 (XOR) (snd (chacha_encrypt_loop x m)) (take 64 e @ drop 64 e)"
      using "1.prems" False by (simp add: chacha_loop_long del: append_take_drop_id)
    finally show ?thesis by simp
  qed
qed

lemma ECRYPT_encrypt_bytes_xor:
  assumes "length d = length e"
  shows "snd (ECRYPT_encrypt_bytes x (map2 (XOR) d e)) = map2 (XOR) (snd (ECRYPT_encrypt_bytes x d)) e"
proof -
  let ?n = "length e mod 2 ^ 32"
  have "map2 (XOR) (snd (chacha_encrypt_loop x (take ?n d)) @ drop ?n d) (take ?n e @ drop ?n e)
      = map2 (XOR) (snd (chacha_encrypt_loop x (take ?n d))) (take ?n e)
        @ map2 (XOR) (drop ?n d) (drop ?n e)"
    using assms by (simp add: chacha_loop_length del: append_take_drop_id)
  then show ?thesis
    using assms chacha_loop_xor [of "take ?n d" "take ?n e" x]
    by (simp add: ECRYPT_encrypt_bytes_def Let_def case_prod_beta map2_take_drop)
qed

interpretation chacha: keystream_law ECRYPT_encrypt_bytes
  by unfold_locales
    (fact ECRYPT_encrypt_bytes_length ECRYPT_encrypt_bytes_state ECRYPT_encrypt_bytes_inverse
      ECRYPT_encrypt_bytes_xor)+

interpretation transformer: keystream_law transform
proof unfold_locales
  fix s d
  show "length (snd (transform s d)) = length d"
    by (cases s) (simp_all add: erseefor.trans_length chacha.trans_length)
  show "snd (transform s (snd (transform s d))) = d"
    by (cases s) (simp_all add: erseefor.trans_inverse chacha.trans_inverse)
next
  fix s and d d' :: bytes
  assume "length d = length d'"
  then show "fst (transform s d) = fst (transform s d')"
    using erseefor.trans_state [of d d'] chacha.trans_state [of d d'] by (cases s) simp_all
next
  fix s and d e :: bytes
  assume "length d = length e"
  then show "snd (transform s (map2 (XOR) d e)) = map2 (XOR) (snd (transform s d)) e"
    by (cases s) (simp_all add: erseefor.trans_xor chacha.trans_xor)
qed

subsection \<open>The key loop of the ChaCha constructor\<close>

lemma chacha_fill_key_total:
  "tkey \<noteq> [] \<Longrightarrow> \<exists>n. chacha_fill_key tkey key = Some (key @ concat (replicate n tkey))
     \<and> 32 \<le> length (key @ concat (replicate n tkey))"
proof (induction "32 - length key" arbitrary: key rule: less_induct)
  case less
  show ?case
  proof (cases "length key < 32")
    case True
    with less obtain n where
      "chacha_fill_key tkey (key @ tkey) = Some ((key @ tkey) @ concat (replicate n tkey))"
      "32 \<le> length ((key @ tkey) @ concat (replicate n tkey))"
      by (metis diff_less_mono2 length_append less_add_same_cancel1 length_greater_0_conv)
    with True show ?thesis
      by (intro exI [of _ "Suc n"]) (simp add: chacha_fill_key.simps)
  next
    case False
    then show ?thesis by (intro exI [of _ 0]) (simp add: chacha_fill_key.simps)
  qed
qed

lemma chacha_fill_key_empty: "length key < 32 \<Longrightarrow> chacha_fill_key [] key = None"
proof -
  have "t = [] \<longrightarrow> 32 \<le> length k" if "chacha_fill_key t k = Some r" for t k r
    by (rule chacha_fill_key.raw_induct [OF _ that, of "\<lambda>t k r. t = [] \<longrightarrow> 32 \<le> length k"])
      (fastforce split: if_splits)
  then show "length key < 32 \<Longrightarrow> ?thesis" by (metis not_le option.exhaust)
qed

subsection \<open>Properties\<close>

text \<open>
  C24. Two transformer objects in the same state, one at each end, stay in step over any run of
  messages of any lengths: what the first produced, the second turns back into the messages, and
  the two end in the same state. This holds for the identity, for erseefor and for ChaCha.
\<close>

theorem transformers_stay_in_step:
  "trans_all transform s (snd (trans_all transform s ms)) = (fst (trans_all transform s ms), ms)"
  using transformer.trans_all_back [of s ms] by (cases "trans_all transform s ms") simp

text \<open>
  C40. The erseefor table is a permutation of all 256 byte values after the key setup, after
  dropping any number of bytes and after transforming any data: no index leaves the table.
\<close>

theorem erseefor_permutation:
  assumes "key \<noteq> []"
  shows "\<exists>e. ef_init_key key = Inr e
           \<and> mset (ef_state (fst (ef_transform (ef_drop n e) d))) = mset (map of_nat [0..<256])"
proof -
  obtain e where e: "ef_init_key key = Inr e" using assms by (simp add: ef_init_key_def)
  then have "ef_wf (fst (ef_transform (ef_drop n e) d))"
    by (intro ef_transform_wf ef_drop_wf ef_init_key_wf)
  with e show ?thesis by (auto simp: ef_wf_def)
qed

theorem erseefor_permutation_witness:
  "\<exists>e. ef_init_key [1, 2, 3] = Inr e
     \<and> mset (ef_state (fst (ef_transform (ef_drop 3072 e) [7, 8]))) = mset (map of_nat [0..<256])"
  by (rule erseefor_permutation) simp

text \<open>
  The ChaCha constructor returns for every key but the empty one, on which its loop never
  ends; a short key is repeated and a long one cut to 32 bytes.
\<close>

theorem chacha_create_total: "chacha_create tkey = None \<longleftrightarrow> tkey = []"
proof (cases "tkey = []")
  case True
  then show ?thesis by (simp add: chacha_create_def chacha_fill_key_empty)
next
  case False
  with chacha_fill_key_total [OF this, of "[]"] show ?thesis
    by (auto simp: chacha_create_def Let_def)
qed

end
