(* ===== verification/Lowlevel.thy ===== *)
theory Lowlevel
  imports Data_Queue Transformers
begin

text \<open>
  The message layer of a connection, \<open>lib/vtrc/common/lowlevel-protocol-default.cpp\<close>:
  \<open>default_protocol\<close> packs an outgoing message (size prefix, then the transformed digest and
  data) and takes incoming bytes apart again (parser, revertor, digest check). The main
  theorem joins the three interfaces of the layers below, \<open>size_policy\<close>, \<open>hash_law\<close> and
  \<open>transformer_law\<close>.
\<close>

subsection \<open>State\<close>

text \<open>\<open>process_stage_\<close> only ever holds one of two member functions; before \<open>init\<close> it is empty.\<close>

datatype process_stage = No_stage | Ready_call | Do_handshake

record default_protocol =
  dp_hash_maker :: hash_iface
  dp_hash_checker :: hash_iface
  dp_transformer :: transformer
  dp_revertor :: transformer
  dp_queue :: queue_base
  dp_process_stage :: process_stage

record session_options =
  so_max_active_calls :: u32
  so_max_message_length :: u32
  so_max_stack_size :: u32
  so_read_buffer_size :: u32
  so_init_timeout :: u32

definition default_session_options :: session_options where
  "default_session_options =
     \<lparr> so_max_active_calls = 5, so_max_message_length = 65536, so_max_stack_size = 16,
       so_read_buffer_size = 4096, so_init_timeout = 10000 \<rparr>"

text \<open>\<open>create_default\<close> selects \<open>HASH_NONE\<close>, so it never returns a null pointer.\<close>

definition dp_new :: default_protocol where
  "dp_new =
     \<lparr> dp_hash_maker = hasher_none, dp_hash_checker = hasher_none,
       dp_transformer = Transformer_none, dp_revertor = Transformer_none,
       dp_queue = queue_new (ucast (so_max_message_length default_session_options)),
       dp_process_stage = No_stage \<rparr>"

definition dp_configure :: "session_options \<Rightarrow> default_protocol \<Rightarrow> default_protocol" where
  "dp_configure opts p =
     p\<lparr> dp_queue := qb_set_maximum_length (dp_queue p) (ucast (so_max_message_length opts)) \<rparr>"

definition dp_switch_to_ready :: "default_protocol \<Rightarrow> default_protocol" where
  "dp_switch_to_ready p = p\<lparr> dp_process_stage := Ready_call \<rparr>"

definition dp_switch_to_handshake :: "default_protocol \<Rightarrow> default_protocol" where
  "dp_switch_to_handshake p = p\<lparr> dp_process_stage := Do_handshake \<rparr>"

subsection \<open>Sending\<close>

definition pack_message :: "default_protocol \<Rightarrow> bytes \<Rightarrow> default_protocol \<times> bytes" where
  "pack_message p data =
     (let body_len = length data + h_size (dp_hash_maker p);
          header = varint_pack (of_nat body_len);
          body = h_get (dp_hash_maker p) data @ data;
          (t, body') = transform (dp_transformer p) body
      in (p\<lparr> dp_transformer := t \<rparr>, header @ body'))"

fun pack_all :: "default_protocol \<Rightarrow> bytes list \<Rightarrow> default_protocol \<times> bytes list" where
  "pack_all p [] = (p, [])"
| "pack_all p (m # ms) =
     (case pack_message p m of (p', w) \<Rightarrow>
        case pack_all p' ms of (p'', ws) \<Rightarrow> (p'', w # ws))"

subsection \<open>Receiving\<close>

text \<open>\<open>process_data\<close> reports whether the stage function is to be called: it is called once,
  however many messages the bytes completed.\<close>

definition process_data :: "default_protocol \<Rightarrow> bytes \<Rightarrow> default_protocol \<times> (exn + bool)" where
  "process_data p data =
     (if data = [] then (p, Inr False)
      else
        (let old = qb_size (dp_queue p) in
         case parser_process varint_policy (qb_append (dp_queue p) data) of
           (q, Inl e) \<Rightarrow> (p\<lparr> dp_queue := q \<rparr>, Inl e)
         | (q, Inr _) \<Rightarrow> (p\<lparr> dp_queue := q \<rparr>, Inr (old < qb_size q))))"

definition dp_queue_size :: "default_protocol \<Rightarrow> nat" where
  "dp_queue_size p = qb_size (dp_queue p)"

definition check_message :: "default_protocol \<Rightarrow> bytes \<Rightarrow> bool" where
  "check_message p mess =
     (let hash_length = h_size (dp_hash_checker p) in
      if length mess \<ge> hash_length
      then h_check (dp_hash_checker p) (drop hash_length mess) mess
      else False)"

text \<open>Both pops revert the first message in place, check its digest and remove it whatever the
  check says; \<open>None\<close> is the result \<open>false\<close>.\<close>

definition pop_raw_message :: "default_protocol \<Rightarrow> default_protocol \<times> (exn + bytes option)" where
  "pop_raw_message p =
     (case qb_front (dp_queue p) of
        Inl e \<Rightarrow> (p, Inl e)
      | Inr m \<Rightarrow>
          (let (r, data) = transform (dp_revertor p) m;
               q = fst (qb_pop_front (dp_queue p))
           in (p\<lparr> dp_revertor := r, dp_queue := q \<rparr>,
               Inr (if check_message p data
                    then Some (drop (h_size (dp_hash_checker p)) data) else None))))"

definition parse_raw_message :: "(bytes \<Rightarrow> 'm option) \<Rightarrow> default_protocol \<Rightarrow> bytes \<Rightarrow> 'm option" where
  "parse_raw_message parse p mess = parse (drop (h_size (dp_hash_checker p)) mess)"

definition pop_proto_message ::
    "(bytes \<Rightarrow> 'm option) \<Rightarrow> default_protocol \<Rightarrow> default_protocol \<times> (exn + 'm option)" where
  "pop_proto_message parse p =
     (case qb_front (dp_queue p) of
        Inl e \<Rightarrow> (p, Inl e)
      | Inr m \<Rightarrow>
          (let (r, data) = transform (dp_revertor p) m;
               q = fst (qb_pop_front (dp_queue p))
           in (p\<lparr> dp_revertor := r, dp_queue := q \<rparr>,
               Inr (if check_message p data then parse_raw_message parse p data else None))))"

text \<open>
  A ready connection empties the queue on every \<open>message_ready\<close>; \<open>pop_all\<close> is that loop with
  the raw messages as its result, and \<open>receive\<close> what a connection does with one piece of input.
\<close>

function pop_all :: "default_protocol \<Rightarrow> default_protocol \<times> bytes option list" where
  "pop_all p =
     (if dp_queue_size p = 0 then (p, [])
      else case pop_raw_message p of
             (p', Inl _) \<Rightarrow> (p', [])
           | (p', Inr m) \<Rightarrow> (case pop_all p' of (p'', ms) \<Rightarrow> (p'', m # ms)))"
  by pat_completeness auto
termination
  by (relation "measure dp_queue_size")
    (auto simp: dp_queue_size_def pop_raw_message_def qb_front_def qb_pop_front_def qb_size_def
      Let_def split: list.splits prod.splits)

declare pop_all.simps [simp del]

fun receive :: "default_protocol \<Rightarrow> bytes list \<Rightarrow> default_protocol \<times> (exn + bytes option list)" where
  "receive p [] = (p, Inr [])"
| "receive p (c # cs) =
     (case process_data p c of
        (p', Inl e) \<Rightarrow> (p', Inl e)
      | (p', Inr r) \<Rightarrow>
          (case (if r then pop_all p' else (p', [])) of (p1, ms) \<Rightarrow>
             case receive p1 cs of
               (p2, Inl e) \<Rightarrow> (p2, Inl e)
             | (p2, Inr ms') \<Rightarrow> (p2, Inr (ms @ ms'))))"

subsection \<open>What one call does\<close>

lemma trans_all_append:
  "trans_all f s (xs @ ys) =
     (case trans_all f s xs of (s', cs) \<Rightarrow> case trans_all f s' ys of (s'', ds) \<Rightarrow> (s'', cs @ ds))"
  by (induction xs arbitrary: s) (auto split: prod.splits)

definition checked_body :: "hash_iface \<Rightarrow> bytes \<Rightarrow> bytes option" where
  "checked_body h data =
     (if length data \<ge> h_size h \<and> h_check h (drop (h_size h) data) data
      then Some (drop (h_size h) data) else None)"

lemma pop_raw_message_Cons:
  assumes "qb_packed (dp_queue p) = m # ms"
  shows "pop_raw_message p =
           (p\<lparr> dp_revertor := fst (transform (dp_revertor p) m),
               dp_queue := dp_queue p\<lparr> qb_packed := ms \<rparr> \<rparr>,
            Inr (checked_body (dp_hash_checker p) (snd (transform (dp_revertor p) m))))"
  using assms
  by (simp add: pop_raw_message_def qb_front_def qb_pop_front_def checked_body_def check_message_def
      case_prod_beta Let_def)

lemma pop_all_eq:
  "pop_all p =
     (case trans_all transform (dp_revertor p) (qb_packed (dp_queue p)) of (r, ds) \<Rightarrow>
        (p\<lparr> dp_revertor := r, dp_queue := dp_queue p\<lparr> qb_packed := [] \<rparr> \<rparr>,
         map (checked_body (dp_hash_checker p)) ds))"
proof (induction "qb_packed (dp_queue p)" arbitrary: p)
  case Nil
  then show ?case
    by (cases p, cases "dp_queue p") (simp add: pop_all.simps dp_queue_size_def qb_size_def)
next
  case (Cons m ms)
  let ?p = "p\<lparr> dp_revertor := fst (transform (dp_revertor p) m),
               dp_queue := dp_queue p\<lparr> qb_packed := ms \<rparr> \<rparr>"
  have "pop_all p = (case pop_all ?p of (p'', rs) \<Rightarrow>
      (p'', checked_body (dp_hash_checker p) (snd (transform (dp_revertor p) m)) # rs))"
    using pop_raw_message_Cons [OF Cons.hyps(2) [symmetric]]
    by (subst pop_all.simps) (simp add: dp_queue_size_def qb_size_def flip: Cons.hyps(2))
  also have "\<dots> = (case trans_all transform (dp_revertor p) (m # ms) of (r, ds) \<Rightarrow>
        (p\<lparr> dp_revertor := r, dp_queue := dp_queue p\<lparr> qb_packed := [] \<rparr> \<rparr>,
         map (checked_body (dp_hash_checker p)) ds))"
    using Cons.hyps(1) [of ?p] by (simp split: prod.splits)
  finally show ?case by (simp only: Cons.hyps(2))
qed

text \<open>The state of the receiving side after the parser kept \<open>part\<close> and everything else was
  popped.\<close>

lemma receive_chunk:
  assumes "queue_wf (dp_queue p)" and "qb_packed (dp_queue p) = []"
    and "\<forall>b \<in> set bs. length b \<le> unat (qb_max (dp_queue p))"
    and "qb_data (dp_queue p) @ c @ rest = concat (map (frame varint_policy) bs)" and "c \<noteq> []"
  obtains k part where "k \<le> length bs"
    and "part @ rest = concat (map (frame varint_policy) (drop k bs))"
    and "part = [] \<or> k < length bs \<and> strict_prefix part (frame varint_policy (bs ! k))"
    and "\<And>cs. receive p (c # cs) =
          (case trans_all transform (dp_revertor p) (take k bs) of (r, ds) \<Rightarrow>
            (case receive (p\<lparr> dp_revertor := r, dp_queue := dp_queue p\<lparr> qb_data := part \<rparr> \<rparr>) cs of
               (p2, Inl e) \<Rightarrow> (p2, Inl e)
             | (p2, Inr ms') \<Rightarrow> (p2, Inr (map (checked_body (dp_hash_checker p)) ds @ ms'))))"
proof -
  let ?q = "qb_append (dp_queue p) c"
  obtain k part where k: "k \<le> length bs"
    "part @ rest = concat (map (frame varint_policy) (drop k bs))"
    "part = [] \<or> k < length bs \<and> strict_prefix part (frame varint_policy (bs ! k))"
    and pp: "parser_process varint_policy ?q = (?q\<lparr> qb_packed := take k bs, qb_data := part \<rparr>, Inr ())"
    using varint.parser_process_beginning [of ?q bs rest] assms by auto
  have pd: "process_data p c =
      (p\<lparr> dp_queue := dp_queue p\<lparr> qb_packed := take k bs, qb_data := part \<rparr> \<rparr>, Inr (take k bs \<noteq> []))"
    using pp assms(2,5) by (auto simp: process_data_def qb_append_def qb_size_def)
  obtain s ds where t: "trans_all transform (dp_revertor p) (take k bs) = (s, ds)" by fastforce
  have q: "dp_queue p\<lparr> qb_data := part, qb_packed := [] \<rparr> = dp_queue p\<lparr> qb_data := part \<rparr>"
    using assms(2) by (cases "dp_queue p") simp
  have pa: "pop_all (fst (process_data p c)) =
      (p\<lparr> dp_revertor := s, dp_queue := dp_queue p\<lparr> qb_data := part \<rparr> \<rparr>,
       map (checked_body (dp_hash_checker p)) ds)"
    by (simp add: pd pop_all_eq t q)
  have idle: "take k bs = [] \<Longrightarrow> pop_all (fst (process_data p c)) = (fst (process_data p c), [])"
    unfolding pd by (subst pop_all.simps) (auto simp: dp_queue_size_def qb_size_def)
  have "receive p (c # cs) =
      (case trans_all transform (dp_revertor p) (take k bs) of (r, ds) \<Rightarrow>
        (case receive (p\<lparr> dp_revertor := r, dp_queue := dp_queue p\<lparr> qb_data := part \<rparr> \<rparr>) cs of
           (p2, Inl e) \<Rightarrow> (p2, Inl e)
         | (p2, Inr ms') \<Rightarrow> (p2, Inr (map (checked_body (dp_hash_checker p)) ds @ ms'))))" for cs
    using pa idle pd by (cases "take k bs = []") (simp_all add: t)
  with k show thesis by (rule that)
qed

lemma receive_stream:
  assumes "queue_wf (dp_queue p)" and "qb_packed (dp_queue p) = []"
    and "\<forall>b \<in> set bs. length b \<le> unat (qb_max (dp_queue p))"
    and "qb_data (dp_queue p) @ concat cs @ rest = concat (map (frame varint_policy) bs)"
    and "qb_data (dp_queue p) = []
         \<or> bs \<noteq> [] \<and> strict_prefix (qb_data (dp_queue p)) (frame varint_policy (hd bs))"
  shows "\<exists>k part. k \<le> length bs
    \<and> part @ rest = concat (map (frame varint_policy) (drop k bs))
    \<and> (part = [] \<or> k < length bs \<and> strict_prefix part (frame varint_policy (bs ! k)))
    \<and> receive p cs =
        (case trans_all transform (dp_revertor p) (take k bs) of (r, ds) \<Rightarrow>
           (p\<lparr> dp_revertor := r, dp_queue := dp_queue p\<lparr> qb_data := part \<rparr> \<rparr>,
            Inr (map (checked_body (dp_hash_checker p)) ds)))"
  using assms
proof (induction cs arbitrary: p bs)
  case Nil
  then show ?case
    by (intro exI [of _ 0] exI [of _ "qb_data (dp_queue p)"]) (auto simp: hd_conv_nth)
next
  case (Cons c cs)
  show ?case
  proof (cases "c = []")
    case True
    then have "receive p (c # cs) = receive p cs"
      by (simp add: process_data_def split: prod.splits sum.splits)
    with Cons True show ?thesis by simp
  next
    case False
    from Cons.prems have stream: "qb_data (dp_queue p) @ c @ (concat cs @ rest)
        = concat (map (frame varint_policy) bs)" by simp
    obtain k part where k: "k \<le> length bs"
      "part @ concat cs @ rest = concat (map (frame varint_policy) (drop k bs))"
      "part = [] \<or> k < length bs \<and> strict_prefix part (frame varint_policy (bs ! k))"
      and r: "\<And>cs. receive p (c # cs) =
          (case trans_all transform (dp_revertor p) (take k bs) of (r, ds) \<Rightarrow>
            (case receive (p\<lparr> dp_revertor := r, dp_queue := dp_queue p\<lparr> qb_data := part \<rparr> \<rparr>) cs of
               (p2, Inl e) \<Rightarrow> (p2, Inl e)
             | (p2, Inr ms') \<Rightarrow> (p2, Inr (map (checked_body (dp_hash_checker p)) ds @ ms'))))"
      using receive_chunk [OF Cons.prems(1-3) stream False] by blast
    obtain s ds where t: "trans_all transform (dp_revertor p) (take k bs) = (s, ds)" by fastforce
    let ?p = "p\<lparr> dp_revertor := s, dp_queue := dp_queue p\<lparr> qb_data := part \<rparr> \<rparr>"
    have "\<forall>b \<in> set (drop k bs). length b \<le> unat (qb_max (dp_queue ?p))"
      using Cons.prems(3) by (auto dest: in_set_dropD)
    then obtain j part' where j: "j \<le> length (drop k bs)"
      "part' @ rest = concat (map (frame varint_policy) (drop j (drop k bs)))"
      "part' = [] \<or> j < length (drop k bs) \<and> strict_prefix part' (frame varint_policy (drop k bs ! j))"
      and r': "receive ?p cs =
        (case trans_all transform s (take j (drop k bs)) of (r, ds) \<Rightarrow>
           (?p\<lparr> dp_revertor := r, dp_queue := dp_queue ?p\<lparr> qb_data := part' \<rparr> \<rparr>,
            Inr (map (checked_body (dp_hash_checker ?p)) ds)))"
      using Cons.IH [of ?p "drop k bs"] Cons.prems(1,2) k
      by (elim meta_impE exE conjE) (auto simp: hd_drop_conv_nth)
    have "take (k + j) bs = take k bs @ take j (drop k bs)" by (rule take_add)
    then have "trans_all transform (dp_revertor p) (take (k + j) bs) =
        (case trans_all transform s (take j (drop k bs)) of (s'', ds') \<Rightarrow> (s'', ds @ ds'))"
      by (simp add: trans_all_append t)
    then show ?thesis
      using k(1) j r [of cs] r' t
      by (intro exI [of _ "k + j"] exI [of _ part'] conjI)
        (auto simp del: receive.simps simp add: add.commute split: prod.splits)
  qed
qed

lemma no_frame_left:
  assumes "k \<le> length bs" and "part = concat (map (frame varint_policy) (drop k bs))"
    and "part = [] \<or> k < length bs \<and> strict_prefix part (frame varint_policy (bs ! k))"
  shows "k = length bs \<and> part = []"
proof -
  have "\<not> k < length bs"
  proof
    assume "k < length bs"
    then have part: "part = frame varint_policy (bs ! k) @ concat (map (frame varint_policy) (drop (Suc k) bs))"
      using assms(2) by (simp flip: Cons_nth_drop_Suc)
    then have "part \<noteq> []" by (simp add: frame_def varint.pack_not_empty)
    with assms(3) part show False by (auto simp: strict_prefix_def prefix_def)
  qed
  with assms show ?thesis by auto
qed

text \<open>The whole stream: every body is reverted in turn and checked on its own.\<close>

lemma receive_bodies:
  assumes "queue_wf (dp_queue p)" and "qb_packed (dp_queue p) = []" and "qb_data (dp_queue p) = []"
    and "\<forall>b \<in> set bs. length b \<le> unat (qb_max (dp_queue p))"
    and "concat cs = concat (map (frame varint_policy) bs)"
    and "trans_all transform (dp_revertor p) bs = (r, ds)"
  shows "receive p cs = (p\<lparr> dp_revertor := r \<rparr>, Inr (map (checked_body (dp_hash_checker p)) ds))"
proof -
  obtain k part where k: "k \<le> length bs"
    "part = concat (map (frame varint_policy) (drop k bs))"
    "part = [] \<or> k < length bs \<and> strict_prefix part (frame varint_policy (bs ! k))"
    and rc: "receive p cs =
        (case trans_all transform (dp_revertor p) (take k bs) of (r, ds) \<Rightarrow>
           (p\<lparr> dp_revertor := r, dp_queue := dp_queue p\<lparr> qb_data := part \<rparr> \<rparr>,
            Inr (map (checked_body (dp_hash_checker p)) ds)))"
    using receive_stream [of p bs cs "[]"] assms by auto
  have "k = length bs" "part = []" using no_frame_left [OF k] by simp_all
  moreover have "dp_queue p\<lparr> qb_data := [] \<rparr> = dp_queue p" using assms(3) by (cases "dp_queue p") simp
  moreover have "p\<lparr> dp_revertor := r, dp_queue := dp_queue p \<rparr> = p\<lparr> dp_revertor := r \<rparr>"
    by (cases p) simp
  ultimately show ?thesis using rc assms(6) by simp
qed

subsection \<open>What the sender writes\<close>

context hash_law
begin

lemma pack_message_frame:
  assumes "dp_hash_maker p = h"
  shows "pack_message p m =
           (case transform (dp_transformer p) (h_get h m @ m) of (t, c) \<Rightarrow>
              (p\<lparr> dp_transformer := t \<rparr>, frame varint_policy c))"
  using assms transformer.trans_length [of "dp_transformer p" "h_get h m @ m"]
  by (auto simp: pack_message_def frame_def varint_policy_def h_get_length add.commute Let_def
      split: prod.splits)

lemma pack_all_frames:
  "dp_hash_maker p = h \<Longrightarrow>
     pack_all p ms =
       (case trans_all transform (dp_transformer p) (map (\<lambda>m. h_get h m @ m) ms) of (t, cs) \<Rightarrow>
          (p\<lparr> dp_transformer := t \<rparr>, map (frame varint_policy) cs))"
  by (induction ms arbitrary: p) (auto simp: pack_message_frame split: prod.splits)

lemma checked_body_get: "checked_body h (h_get h m @ m) = Some m"
  by (simp add: checked_body_def h_get_length h_check_get)

end

lemma trans_all_lengths:
  "trans_all transform s ms = (s', cs) \<Longrightarrow> map length cs = map length ms"
proof (induction ms arbitrary: s cs)
  case (Cons m ms)
  then show ?case
    using transformer.trans_length [of s m] by (auto split: prod.splits)
qed simp

lemma trans_all_take:
  "trans_all f s ms = (s', cs) \<Longrightarrow> snd (trans_all f s (take k ms)) = take k cs"
proof (induction ms arbitrary: s cs k)
  case (Cons m ms)
  then show ?case by (cases k) (auto simp: case_prod_beta prod_eq_iff)
qed simp

lemma hash_create_law:
  "\<forall>d. length (digest d) = 32 \<Longrightarrow> hash_create_by_index digest v = Some h \<Longrightarrow> hash_law h"
  by (rule digest_law.hash_create_by_index_law) (simp_all add: digest_law.intro)

text \<open>Everything the two theorems below need of the receiving side: a sender \<open>a\<close> and a receiver
  \<open>b\<close> that agree on the digest and whose cipher states are equal.\<close>

definition in_step :: "default_protocol \<Rightarrow> default_protocol \<Rightarrow> bool" where
  "in_step a b \<longleftrightarrow> dp_hash_maker a = dp_hash_checker b \<and> dp_transformer a = dp_revertor b
     \<and> queue_wf (dp_queue b) \<and> qb_packed (dp_queue b) = []"

context hash_law
begin

lemma receive_packed:
  assumes "dp_hash_maker a = h" and "in_step a b" and "qb_data (dp_queue b) = []"
    and "\<forall>m \<in> set ms. length m + h_size h \<le> unat (qb_max (dp_queue b))"
    and "pack_all a ms = (a', ws)" and "concat cs @ rest = concat ws"
  shows "\<exists>k b'. k \<le> length ms \<and> receive b cs = (b', Inr (map Some (take k ms)))
           \<and> (rest = [] \<longrightarrow> k = length ms \<and> in_step a' b' \<and> qb_data (dp_queue b') = [])"
proof -
  let ?body = "\<lambda>m. h_get h m @ m"
  obtain t bs where t: "trans_all transform (dp_transformer a) (map ?body ms) = (t, bs)" by fastforce
  have a': "a' = a\<lparr> dp_transformer := t \<rparr>" and ws: "ws = map (frame varint_policy) bs"
    using pack_all_frames [OF assms(1), of ms] assms(5) t by simp_all
  have rev_all: "trans_all transform (dp_revertor b) bs = (t, map ?body ms)"
    using transformer.trans_all_back [OF t] assms(2) by (simp add: in_step_def)
  have lens: "map length bs = map (\<lambda>m. length m + h_size h) ms"
    using trans_all_lengths [OF t] by (simp add: h_get_length o_def add.commute)
  then have n: "length bs = length ms" by (metis length_map)
  have "length ` set bs = (\<lambda>m. length m + h_size h) ` set ms"
    using arg_cong [OF lens, of set] by simp
  then have le: "\<forall>x \<in> set bs. length x \<le> unat (qb_max (dp_queue b))"
    using assms(4) by (metis (no_types, lifting) image_iff)
  obtain k part where k: "k \<le> length bs"
    "part @ rest = concat (map (frame varint_policy) (drop k bs))"
    "part = [] \<or> k < length bs \<and> strict_prefix part (frame varint_policy (bs ! k))"
    and r: "receive b cs =
        (case trans_all transform (dp_revertor b) (take k bs) of (r, ds) \<Rightarrow>
           (b\<lparr> dp_revertor := r, dp_queue := dp_queue b\<lparr> qb_data := part \<rparr> \<rparr>,
            Inr (map (checked_body h) ds)))"
    using receive_stream [of b bs cs rest] le assms(1-3,6) ws by (auto simp: in_step_def)
  have ds: "snd (trans_all transform (dp_revertor b) (take k bs)) = map ?body (take k ms)"
    using trans_all_take [OF rev_all] by (simp add: take_map)
  let ?b = "b\<lparr> dp_revertor := fst (trans_all transform (dp_revertor b) (take k bs)),
               dp_queue := dp_queue b\<lparr> qb_data := part \<rparr> \<rparr>"
  have res: "receive b cs = (?b, Inr (map Some (take k ms)))"
    using r ds by (simp add: case_prod_beta o_def checked_body_get)
  have all: "k = length ms \<and> part = []" if "rest = []"
    using no_frame_left [OF k(1) _ k(3)] k(2) that n by simp
  have "in_step a' ?b \<and> qb_data (dp_queue ?b) = []" if "rest = []"
    using all [OF that] rev_all n assms(1,2) by (auto simp: in_step_def a')
  with res all k(1) n show ?thesis by (intro exI [of _ k] exI [of _ ?b]) simp
qed

end

text \<open>An error on the wire: the last bytes of a frame, its data, are changed by \<open>e\<close>.\<close>

definition corrupt :: "bytes \<Rightarrow> bytes \<Rightarrow> bytes" where
  "corrupt w e = take (length w - length e) w @ map2 (XOR) (drop (length w - length e) w) e"

lemma map2_xor_zeros: "length d \<le> n \<Longrightarrow> map2 (XOR) d (replicate n 0) = (d :: bytes)"
  by (rule nth_equalityI) simp_all

lemma corrupt_frame:
  assumes "length e \<le> length c"
  shows "corrupt (frame varint_policy c) e
       = frame varint_policy (map2 (XOR) c (replicate (length c - length e) 0 @ e))"
proof -
  let ?k = "length c - length e" and ?f = "varint_pack (of_nat (length c))"
  have "length (frame varint_policy c) - length e = length ?f + ?k"
    using assms by (simp add: frame_def varint_policy_def)
  moreover have "map2 (XOR) (take ?k c @ drop ?k c) (replicate ?k 0 @ e)
      = take ?k c @ map2 (XOR) (drop ?k c) e"
    using assms map2_xor_zeros [of "take ?k c" ?k] by (simp del: append_take_drop_id)
  moreover have "length (map2 (XOR) c (replicate ?k 0 @ e)) = length c" using assms by simp
  ultimately show ?thesis
    unfolding corrupt_def frame_def varint_policy_def by simp
qed

lemma checked_body_corrupt:
  assumes "length m = j + length v + k" and "length v \<le> 4" and "\<exists>x \<in> set v. x \<noteq> 0"
  shows "checked_body hasher_crc32 (map2 (XOR) (crc32_get m @ m)
           (replicate 4 0 @ replicate j 0 @ v @ replicate k 0)) = None"
proof -
  let ?xs = "take j m" and ?us = "take (length v) (drop j m)" and ?ys = "drop (j + length v) m"
  have m: "m = ?xs @ ?us @ ?ys"
    by (metis append_take_drop_id append.assoc take_add drop_drop add.commute)
  have len: "length ?xs = j" "length ?us = length v" "length ?ys = k" using assms(1) by simp_all
  obtain i where i: "i < length v" "v ! i \<noteq> 0" using assms(3) by (metis in_set_conv_nth)
  then have "map2 (XOR) ?us v ! i \<noteq> ?us ! i" using len(2) by simp
  then have ne: "?us \<noteq> map2 (XOR) ?us v" by metis
  have "map2 (XOR) m (replicate j 0 @ v @ replicate k 0)
      = map2 (XOR) (?xs @ ?us @ ?ys) (replicate j 0 @ v @ replicate k 0)" using m by simp
  also have "\<dots> = ?xs @ map2 (XOR) ?us v @ ?ys"
    using len map2_xor_zeros [of ?xs j] map2_xor_zeros [of ?ys k] by (simp del: take_drop)
  finally have eq: "map2 (XOR) (crc32_get m @ m) (replicate 4 0 @ replicate j 0 @ v @ replicate k 0)
      = crc32_get m @ ?xs @ map2 (XOR) ?us v @ ?ys"
    using map2_xor_zeros [of "crc32_get m" 4] by simp
  have "\<not> crc32_check (?xs @ map2 (XOR) ?us v @ ?ys)
      (crc32_get (?xs @ ?us @ ?ys) @ ?xs @ map2 (XOR) ?us v @ ?ys)"
    using ne len(2) assms(2) by (intro crc32_check_burst) simp_all
  then show ?thesis unfolding eq checked_body_def using m
    by (simp add: hasher_crc32_def crc32_length_def)
qed

subsection \<open>Properties\<close>

text \<open>
  C1. The wire is faithful. A sender packs any messages, with any digest the factory knows and
  any transformer; the receiver, whose check and revertor match, is given the bytes cut into any
  pieces. It delivers exactly the messages sent, in order, with no false alarm and no exception;
  afterwards its buffer is empty and the two sides still agree, so the next run is delivered too.
\<close>

theorem wire_delivers:
  assumes "\<forall>d. length (digest d) = 32" and "hash_create_by_index digest v = Some h"
    and "dp_hash_maker a = h" and "in_step a b" and "qb_data (dp_queue b) = []"
    and "\<forall>m \<in> set ms. length m + h_size h \<le> unat (qb_max (dp_queue b))"
    and "pack_all a ms = (a', ws)" and "concat cs = concat ws"
  shows "\<exists>b'. receive b cs = (b', Inr (map Some ms)) \<and> in_step a' b' \<and> qb_data (dp_queue b') = []"
  using hash_law.receive_packed [OF hash_create_law [OF assms(1,2)] assms(3-7), of cs "[]"] assms(8)
  by auto

theorem wire_delivers_witness:
  "\<exists>b'. receive (dp_new\<lparr> dp_hash_checker := hasher_crc32,
             dp_revertor := Transformer_chacha (replicate 16 7) \<rparr>)
           [concat (snd (pack_all (dp_new\<lparr> dp_hash_maker := hasher_crc32,
             dp_transformer := Transformer_chacha (replicate 16 7) \<rparr>) [[1, 2], []]))]
         = (b', Inr [Some [1, 2], Some []])"
proof -
  let ?a = "dp_new\<lparr> dp_hash_maker := hasher_crc32, dp_transformer := Transformer_chacha (replicate 16 7) \<rparr>"
  let ?b = "dp_new\<lparr> dp_hash_checker := hasher_crc32, dp_revertor := Transformer_chacha (replicate 16 7) \<rparr>"
  obtain a' ws where ws: "pack_all ?a [[1, 2], []] = (a', ws)" by fastforce
  have "\<exists>b'. receive ?b [concat ws] = (b', Inr (map Some [[1, 2], []]))
      \<and> in_step a' b' \<and> qb_data (dp_queue b') = []"
    by (rule wire_delivers [where digest = sha256i and v = 2 and a = ?a and h = hasher_crc32, OF _ _ _ _ _ _ ws])
      (simp_all add: sha256i_length hash_create_by_index_def HASH_NONE_def HASH_CRC_32_def
        in_step_def dp_new_def queue_new_def queue_wf_def default_session_options_def
        hasher_crc32_def crc32_length_def)
  then show ?thesis using ws by auto
qed

text \<open>
  At any moment of the transfer, with only a beginning of the bytes received, what the
  receiver has delivered is a beginning of the list of messages sent: nothing is delivered early,
  twice, out of order or damaged.
\<close>

theorem wire_delivers_prefix:
  assumes "\<forall>d. length (digest d) = 32" and "hash_create_by_index digest v = Some h"
    and "dp_hash_maker a = h" and "in_step a b" and "qb_data (dp_queue b) = []"
    and "\<forall>m \<in> set ms. length m + h_size h \<le> unat (qb_max (dp_queue b))"
    and "pack_all a ms = (a', ws)" and "prefix (concat cs) (concat ws)"
  shows "\<exists>k b'. k \<le> length ms \<and> receive b cs = (b', Inr (map Some (take k ms)))"
  using hash_law.receive_packed [OF hash_create_law [OF assms(1,2)] assms(3-7), of cs] assms(8)
  by (metis prefix_def)

theorem wire_delivers_prefix_witness:
  "\<exists>k b'. k \<le> 2 \<and> receive (dp_new\<lparr> dp_hash_checker := hasher_crc32 \<rparr>)
           [take 7 (concat (snd (pack_all (dp_new\<lparr> dp_hash_maker := hasher_crc32 \<rparr>) [[1, 2], [3]])))]
         = (b', Inr (map Some (take k [[1, 2], [3]])))"
proof -
  let ?a = "dp_new\<lparr> dp_hash_maker := hasher_crc32 \<rparr>" and ?b = "dp_new\<lparr> dp_hash_checker := hasher_crc32 \<rparr>"
  obtain a' ws where ws: "pack_all ?a [[1, 2], [3]] = (a', ws)" by fastforce
  have "\<exists>k b'. k \<le> length [[1, 2], [3 :: byte]]
      \<and> receive ?b [take 7 (concat ws)] = (b', Inr (map Some (take k [[1, 2], [3]])))"
    by (rule wire_delivers_prefix
        [where digest = sha256i and v = 2 and a = ?a and h = hasher_crc32, OF _ _ _ _ _ _ ws])
      (simp_all add: sha256i_length hash_create_by_index_def HASH_NONE_def HASH_CRC_32_def
        in_step_def dp_new_def queue_new_def queue_wf_def default_session_options_def
        hasher_crc32_def crc32_length_def take_is_prefix)
  then show ?thesis using ws by (simp del: pack_all.simps receive.simps) (metis numeral_2_eq_2)
qed

text \<open>
  C5. Damage is contained. When up to four consecutive bytes of the data of one message are
  changed on the wire, with CRC-32 as the digest and any transformer, that message is reported as
  bad and every other message, before and after it, is still delivered; the two sides stay in step.
\<close>

theorem wire_drops_only_the_damaged:
  assumes "dp_hash_maker a = hasher_crc32" and "in_step a b" and "qb_data (dp_queue b) = []"
    and "\<forall>m \<in> set ms. length m + 4 \<le> unat (qb_max (dp_queue b))"
    and "pack_all a ms = (a', ws)" and "i < length ms"
    and "length (ms ! i) = j + length v + k" and "length v \<le> 4" and "\<exists>x \<in> set v. x \<noteq> 0"
    and "concat cs = concat (ws[i := corrupt (ws ! i) (replicate j 0 @ v @ replicate k 0)])"
  shows "\<exists>b'. receive b cs = (b', Inr ((map Some ms)[i := None])) \<and> in_step a' b'"
proof -
  let ?body = "\<lambda>m. crc32_get m @ m" and ?e = "replicate j 0 @ v @ replicate k 0"
  obtain t bs where t: "trans_all transform (dp_transformer a) (map ?body ms) = (t, bs)" by fastforce
  have h: "h_get hasher_crc32 = crc32_get" by (simp add: hasher_crc32_def)
  have a': "a' = a\<lparr> dp_transformer := t \<rparr>" and ws: "ws = map (frame varint_policy) bs"
    using crc32_hash.pack_all_frames [OF assms(1), of ms] assms(5) t by (simp_all add: h)
  have rev_all: "trans_all transform (dp_revertor b) bs = (t, map ?body ms)"
    using transformer.trans_all_back [OF t] assms(2) by (simp add: in_step_def)
  have lens: "map length bs = map (\<lambda>m. length m + 4) ms"
    using trans_all_lengths [OF t] by (simp add: o_def add.commute)
  then have n: "length bs = length ms" by (metis length_map)
  have nth: "x < length ms \<Longrightarrow> length (bs ! x) = length (ms ! x) + 4" for x
    using arg_cong [OF lens, of "\<lambda>l. l ! x"] n by simp
  let ?c = "map2 (XOR) (bs ! i) (replicate 4 0 @ ?e)"
  let ?bs = "bs[i := ?c]"
  have frames: "concat cs = concat (map (frame varint_policy) ?bs)"
    using assms(6,7,10) nth [OF assms(6)] corrupt_frame [of ?e "bs ! i"] n
    by (simp add: ws map_update add.commute)
  have le: "\<forall>x \<in> set ?bs. length x \<le> unat (qb_max (dp_queue b))"
    using assms(4,6,7) nth n
    by (auto simp: set_conv_nth nth_list_update nth [OF assms(6)] split: if_splits)
  have "trans_all transform (dp_revertor b) ?bs
      = (t, (map ?body ms)[i := map2 (XOR) (?body (ms ! i)) (replicate 4 0 @ ?e)])"
    using transformer.trans_all_xor [OF rev_all, of i "replicate 4 0 @ ?e"] n nth [OF assms(6)] assms(6,7)
    by simp
  from receive_bodies [OF _ _ assms(3) le frames this] assms(1,2)
  have "receive b cs = (b\<lparr> dp_revertor := t \<rparr>, Inr (map (checked_body hasher_crc32)
      ((map ?body ms)[i := map2 (XOR) (?body (ms ! i)) (replicate 4 0 @ ?e)])))"
    by (simp add: in_step_def)
  also have "map (checked_body hasher_crc32)
      ((map ?body ms)[i := map2 (XOR) (?body (ms ! i)) (replicate 4 0 @ ?e)]) = (map Some ms)[i := None]"
    using checked_body_corrupt [OF assms(7-9)] crc32_hash.checked_body_get
    by (simp add: map_update o_def h)
  finally show ?thesis using assms(1,2) a' by (auto simp: in_step_def)
qed

theorem wire_drops_only_the_damaged_witness:
  "\<exists>b'. receive (dp_new\<lparr> dp_hash_checker := hasher_crc32 \<rparr>)
         [concat ((snd (pack_all (dp_new\<lparr> dp_hash_maker := hasher_crc32 \<rparr>) [[1, 2], [3]]))
            [0 := corrupt (snd (pack_all (dp_new\<lparr> dp_hash_maker := hasher_crc32 \<rparr>) [[1, 2], [3]]) ! 0)
                    (replicate 1 0 @ [8] @ replicate 0 0)])]
       = (b', Inr ((map Some [[1, 2], [3]])[0 := None]))"
proof -
  let ?a = "dp_new\<lparr> dp_hash_maker := hasher_crc32 \<rparr>" and ?b = "dp_new\<lparr> dp_hash_checker := hasher_crc32 \<rparr>"
  obtain a' ws where ws: "pack_all ?a [[1, 2], [3]] = (a', ws)" by fastforce
  have "\<exists>b'. receive ?b [concat (ws[0 := corrupt (ws ! 0) (replicate 1 0 @ [8] @ replicate 0 0)])]
          = (b', Inr ((map Some [[1, 2], [3]])[0 := None])) \<and> in_step a' b'"
    by (rule wire_drops_only_the_damaged [where j = 1 and v = "[8]" and k = 0, OF _ _ _ _ ws])
      (simp_all add: in_step_def dp_new_def queue_new_def queue_wf_def default_session_options_def)
  then show ?thesis using ws by auto
qed

end
