(* ===== verification/Transport.thy ===== *)
theory Transport
  imports Lowlevel
begin

text \<open>
  The sending half of a connection (\<open>lib/vtrc/common/transport/stream-impl.h\<close>). A write is posted to
  a strand; there it is packed by the low-level protocol and queued, and the stream takes the first
  message of the queue, possibly in several pieces. The strand runs its handlers one at a time, in
  the order they were posted.

  The low-level protocol is an interface with a virtual \<open>pack_message\<close>; the transport gets it as the
  argument \<open>pack\<close>. The stream and the callbacks are observed: \<open>tr_wire\<close> is what the stream has
  taken, \<open>tr_events\<close> what was called.
\<close>

subsection \<open>State\<close>

record message_holder =
  mh_message :: bytes
  mh_closure :: "nat option"
  mh_on_send :: bool

datatype transport_event = Tr_closure nat bool | Tr_write_error | Tr_on_close | Tr_close_handle

text \<open>\<open>tr_pending\<close> holds the parameters (length and total) of an \<open>async_write_some\<close> in progress.\<close>

record 's transport =
  tr_proto :: 's
  tr_posted :: "message_holder list"
  tr_queue :: "message_holder list"
  tr_pending :: "(nat \<times> nat) option"
  tr_closed :: bool
  tr_wire :: bytes
  tr_events :: "transport_event list"

definition transport_new :: "'s \<Rightarrow> 's transport" where
  "transport_new p = \<lparr> tr_proto = p, tr_posted = [], tr_queue = [], tr_pending = None, tr_closed = False,
     tr_wire = [], tr_events = [] \<rparr>"

definition make_holder :: "bytes \<Rightarrow> nat option \<Rightarrow> bool \<Rightarrow> message_holder" where
  "make_holder data closure on_send = \<lparr> mh_message = data, mh_closure = closure, mh_on_send = on_send \<rparr>"

subsection \<open>Operations\<close>

definition tr_post :: "message_holder \<Rightarrow> 's transport \<Rightarrow> 's transport" where
  "tr_post m t = t\<lparr> tr_posted := tr_posted t @ [m] \<rparr>"

definition tr_write :: "bytes \<Rightarrow> 's transport \<Rightarrow> 's transport" where
  "tr_write data = tr_post (make_holder data None False)"

definition tr_write_closure :: "bytes \<Rightarrow> nat \<Rightarrow> bool \<Rightarrow> 's transport \<Rightarrow> 's transport" where
  "tr_write_closure data success on_send = tr_post (make_holder data (Some success) on_send)"

definition run_closure :: "bool \<Rightarrow> message_holder \<Rightarrow> bool \<Rightarrow> transport_event list" where
  "run_closure cond m err = (case mh_closure m of Some c \<Rightarrow> if cond then [Tr_closure c err] else [] | None \<Rightarrow> [])"

definition tr_async_write :: "nat \<Rightarrow> nat \<Rightarrow> 's transport \<Rightarrow> 's transport" where
  "tr_async_write len tot t = (if tr_closed t then t else t\<lparr> tr_pending := Some (len, tot) \<rparr>)"

text \<open>Starting on an empty queue would be undefined; it does not happen below.\<close>

definition tr_async_write_first :: "'s transport \<Rightarrow> 's transport option" where
  "tr_async_write_first t =
     (case tr_queue t of [] \<Rightarrow> None | m # _ \<Rightarrow> Some (tr_async_write (length (mh_message m)) 0 t))"

definition tr_write_impl :: "('s \<Rightarrow> bytes \<Rightarrow> 's \<times> bytes) \<Rightarrow> message_holder \<Rightarrow> 's transport \<Rightarrow> 's transport option" where
  "tr_write_impl pack m t =
     (let empty = (tr_queue t = []);
          (p, w) = pack (tr_proto t) (mh_message m);
          t = t\<lparr> tr_proto := p, tr_queue := tr_queue t @ [m\<lparr> mh_message := w \<rparr>],
                 tr_events := tr_events t @ run_closure (\<not> mh_on_send m) m False \<rparr>
      in if empty then tr_async_write_first t else Some t)"

definition tr_write_handler :: "bool \<Rightarrow> nat \<Rightarrow> nat \<Rightarrow> nat \<Rightarrow> 's transport \<Rightarrow> 's transport option" where
  "tr_write_handler error bytes len tot t =
     (case tr_queue t of
        [] \<Rightarrow> None
      | m # rest \<Rightarrow>
          if \<not> error then
            if bytes < len then
              Some (tr_async_write (length (mh_message m) - (tot + bytes)) (tot + bytes) t)
            else
              (let t = t\<lparr> tr_queue := rest, tr_events := tr_events t @ run_closure (mh_on_send m) m False \<rparr>
               in if rest \<noteq> [] then tr_async_write_first t else Some t)
          else Some (t\<lparr> tr_events := tr_events t @ run_closure (mh_on_send m) m True @ [Tr_write_error] \<rparr>))"

definition tr_close :: "'s transport \<Rightarrow> 's transport" where
  "tr_close t =
     (if \<not> tr_closed t
      then t\<lparr> tr_closed := True, tr_events := tr_events t @ [Tr_on_close, Tr_close_handle] \<rparr> else t)"

subsection \<open>Steps\<close>

text \<open>
  The strand runs the first posted write. A write in progress ends with \<open>n\<close> bytes taken, at least
  one and no more than were offered, or with an error.
\<close>

definition tr_run_post :: "('s \<Rightarrow> bytes \<Rightarrow> 's \<times> bytes) \<Rightarrow> 's transport \<Rightarrow> 's transport option" where
  "tr_run_post pack t =
     (case tr_posted t of [] \<Rightarrow> None | m # ms \<Rightarrow> tr_write_impl pack m (t\<lparr> tr_posted := ms \<rparr>))"

definition tr_complete :: "bool \<Rightarrow> nat \<Rightarrow> 's transport \<Rightarrow> 's transport option" where
  "tr_complete error n t =
     (case (tr_pending t, tr_queue t) of
        (Some (len, tot), m # _) \<Rightarrow>
          tr_write_handler error n len tot
            (t\<lparr> tr_pending := None, tr_wire := tr_wire t @ take n (drop tot (mh_message m)) \<rparr>)
      | _ \<Rightarrow> None)"

text \<open>\<open>tr_reach pack p ms t\<close>: a new transport reaches \<open>t\<close>, and \<open>ms\<close> was written on the way.\<close>

inductive tr_reach :: "('s \<Rightarrow> bytes \<Rightarrow> 's \<times> bytes) \<Rightarrow> 's \<Rightarrow> message_holder list \<Rightarrow> 's transport \<Rightarrow> bool"
  for pack p where
  Tr_new: "tr_reach pack p [] (transport_new p)"
| Tr_post: "tr_reach pack p ms t \<Longrightarrow> tr_reach pack p (ms @ [m]) (tr_post m t)"
| Tr_impl: "tr_reach pack p ms t \<Longrightarrow> tr_run_post pack t = Some t' \<Longrightarrow> tr_reach pack p ms t'"
| Tr_done: "tr_reach pack p ms t \<Longrightarrow> tr_pending t = Some (len, tot) \<Longrightarrow> 0 < n \<Longrightarrow> n \<le> len \<Longrightarrow>
    tr_complete False n t = Some t' \<Longrightarrow> tr_reach pack p ms t'"
| Tr_fail: "tr_reach pack p ms t \<Longrightarrow> tr_complete True 0 t = Some t' \<Longrightarrow> tr_reach pack p ms t'"
| Tr_close: "tr_reach pack p ms t \<Longrightarrow> tr_reach pack p ms (tr_close t)"

subsection \<open>The invariant\<close>

fun packs :: "('s \<Rightarrow> bytes \<Rightarrow> 's \<times> bytes) \<Rightarrow> 's \<Rightarrow> message_holder list \<Rightarrow> 's \<times> bytes list" where
  "packs pack p [] = (p, [])"
| "packs pack p (m # ms) =
     (let (p, w) = pack p (mh_message m); (p, ws) = packs pack p ms in (p, w # ws))"

definition failed :: "'s transport \<Rightarrow> bool" where
  "failed t \<longleftrightarrow> Tr_write_error \<in> set (tr_events t)"

text \<open>\<open>us\<close> are the messages the stream has taken, \<open>vs\<close> those in the queue; \<open>off\<close> bytes of the first
  one are on the wire too.\<close>

fun pending_ok :: "(nat \<times> nat) option \<Rightarrow> message_holder list \<Rightarrow> bool \<Rightarrow> bool \<Rightarrow> nat \<Rightarrow> bool" where
  "pending_ok None q fail closed off \<longleftrightarrow> q = [] \<or> fail \<or> closed"
| "pending_ok (Some (len, tot)) q fail closed off \<longleftrightarrow>
     q \<noteq> [] \<and> tot = off \<and> \<not> fail \<and> len = length (mh_message (hd q)) - off"

definition head_sent :: "message_holder list \<Rightarrow> nat \<Rightarrow> bytes" where
  "head_sent q off = (case q of [] \<Rightarrow> [] | m # _ \<Rightarrow> take off (mh_message m))"

definition tr_at ::
    "('s \<Rightarrow> bytes \<Rightarrow> 's \<times> bytes) \<Rightarrow> 's \<Rightarrow> message_holder list \<Rightarrow> 's transport \<Rightarrow> message_holder list \<Rightarrow> bytes list \<Rightarrow> nat \<Rightarrow> bool" where
  "tr_at pack p ms t qs us off \<longleftrightarrow>
     ms = qs @ tr_posted t
     \<and> packs pack p qs = (tr_proto t, us @ map mh_message (tr_queue t))
     \<and> tr_wire t = concat us @ head_sent (tr_queue t) off
     \<and> (tr_queue t \<noteq> [] \<longrightarrow> off < length (mh_message (hd (tr_queue t))))
     \<and> (\<forall>m \<in> set (tr_queue t). mh_message m \<noteq> [])
     \<and> pending_ok (tr_pending t) (tr_queue t) (failed t) (tr_closed t) off
     \<and> (failed t \<longrightarrow> tr_queue t \<noteq> [])"

definition tr_inv :: "('s \<Rightarrow> bytes \<Rightarrow> 's \<times> bytes) \<Rightarrow> 's \<Rightarrow> message_holder list \<Rightarrow> 's transport \<Rightarrow> bool" where
  "tr_inv pack p ms t \<longleftrightarrow> (\<exists>qs us off. tr_at pack p ms t qs us off)"

lemma head_sent_simps [simp]: "head_sent [] off = []" "head_sent (m # q) off = take off (mh_message m)"
  "q \<noteq> [] \<Longrightarrow> head_sent (q @ q') off = head_sent q off"
  by (auto simp: head_sent_def split: list.splits)

lemma pending_snoc:
  "q \<noteq> [] \<Longrightarrow> pending_ok pend q fail closed off \<Longrightarrow> pending_ok pend (q @ [m]) fail closed off"
  by (cases "(pend, q, fail, closed, off)" rule: pending_ok.cases) auto

lemma pending_close: "pending_ok pend q fail closed off \<Longrightarrow> pending_ok pend q fail True off"
  by (cases "(pend, q, fail, closed, off)" rule: pending_ok.cases) auto

lemma pending_empty: "pending_ok pend [] fail closed off \<Longrightarrow> pend = None"
  by (cases pend) auto

lemma packs_snoc:
  "packs pack p (ms @ [m]) =
     (let (p, ws) = packs pack p ms; (p, w) = pack p (mh_message m) in (p, ws @ [w]))"
  by (induction ms arbitrary: p) (auto simp: split_beta Let_def)

lemma packs_append:
  "packs pack p (ms @ ns) =
     (let (p, ws) = packs pack p ms; (p, vs) = packs pack p ns in (p, ws @ vs))"
  by (induction ms arbitrary: p) (auto simp: split_beta Let_def)

lemma failed_simps [simp]:
  "failed (t\<lparr> tr_posted := x \<rparr>) = failed t" "failed (t\<lparr> tr_queue := y \<rparr>) = failed t" "failed (t\<lparr> tr_pending := z \<rparr>) = failed t"
  "failed (t\<lparr> tr_proto := q \<rparr>) = failed t" "failed (t\<lparr> tr_wire := w \<rparr>) = failed t" "failed (t\<lparr> tr_closed := b \<rparr>) = failed t"
  "failed (t\<lparr> tr_events := tr_events t' @ es \<rparr>) \<longleftrightarrow> failed t' \<or> Tr_write_error \<in> set es"
  "Tr_write_error \<notin> set (run_closure c m e)"
  by (auto simp: failed_def run_closure_def split: option.splits)

subsection \<open>The contract of the low-level protocol\<close>

text \<open>The transport relies on one law of \<open>pack_message\<close>: what it makes is not empty. An empty message
  at the head of the queue would never be completed.\<close>

locale packer =
  fixes pack :: "'s \<Rightarrow> bytes \<Rightarrow> 's \<times> bytes"
  assumes pack_nonempty: "snd (pack s m) \<noteq> []"
begin

lemma inv_new: "tr_inv pack p [] (transport_new p)"
  by (auto simp: tr_inv_def tr_at_def transport_new_def failed_def)

lemma inv_post:
  assumes "tr_inv pack p ms t"
  shows "tr_inv pack p (ms @ [m]) (tr_post m t)"
proof -
  obtain qs us off where "tr_at pack p ms t qs us off" using assms by (auto simp: tr_inv_def)
  then have "tr_at pack p (ms @ [m]) (tr_post m t) qs us off" by (simp add: tr_at_def tr_post_def)
  then show ?thesis by (auto simp: tr_inv_def)
qed

lemma inv_close:
  assumes "tr_inv pack p ms t"
  shows "tr_inv pack p ms (tr_close t)"
proof -
  obtain qs us off where "tr_at pack p ms t qs us off" using assms by (auto simp: tr_inv_def)
  then have "tr_at pack p ms (tr_close t) qs us off" by (auto simp: tr_at_def tr_close_def intro: pending_close)
  then show ?thesis by (auto simp: tr_inv_def)
qed

lemma inv_impl:
  assumes "tr_inv pack p ms t" and "tr_posted t \<noteq> []"
  shows "\<exists>t'. tr_run_post pack t = Some t' \<and> tr_inv pack p ms t'"
proof -
  obtain m rest where po: "tr_posted t = m # rest" using assms(2) by (cases "tr_posted t") auto
  obtain p' w where pk: "pack (tr_proto t) (mh_message m) = (p', w)" by fastforce
  have w: "w \<noteq> []" using pack_nonempty [of "tr_proto t" "mh_message m"] pk by simp
  obtain qs us off where i: "tr_at pack p ms t qs us off" using assms(1) by (auto simp: tr_inv_def)
  have q1: "packs pack p (qs @ [m]) = (p', us @ map mh_message (tr_queue t) @ [w])"
    using i pk by (simp add: packs_snoc tr_at_def)
  show ?thesis
  proof (cases "tr_queue t = []")
    case True
    let ?t = "t\<lparr> tr_posted := rest, tr_proto := p', tr_queue := [m\<lparr> mh_message := w \<rparr>],
      tr_events := tr_events t @ run_closure (\<not> mh_on_send m) m False \<rparr>"
    have "tr_run_post pack t = Some (tr_async_write (length w) 0 ?t)"
      using po pk True by (simp add: tr_run_post_def tr_write_impl_def tr_async_write_first_def)
    moreover have "tr_pending t = None"
      using i True by (auto simp: tr_at_def dest: pending_empty)
    then have "tr_at pack p ms (tr_async_write (length w) 0 ?t) (qs @ [m]) us 0"
      using i po q1 w True by (simp add: tr_at_def tr_async_write_def)
    ultimately show ?thesis by (auto simp: tr_inv_def)
  next
    case False
    let ?t = "t\<lparr> tr_posted := rest, tr_proto := p', tr_queue := tr_queue t @ [m\<lparr> mh_message := w \<rparr>],
      tr_events := tr_events t @ run_closure (\<not> mh_on_send m) m False \<rparr>"
    have "tr_run_post pack t = Some ?t" using po pk False by (simp add: tr_run_post_def tr_write_impl_def)
    moreover have "tr_at pack p ms ?t (qs @ [m]) us off"
      using i po q1 w False by (auto simp: tr_at_def pending_snoc)
    ultimately show ?thesis by (auto simp: tr_inv_def)
  qed
qed

text \<open>A write in progress ends: it goes on, or the next message starts, or the transport has failed.\<close>

lemma inv_complete:
  assumes "tr_inv pack p ms t" and "tr_pending t = Some (len, tot)" and "0 < n" and "n \<le> len"
  shows "\<exists>t'. tr_complete False n t = Some t' \<and> tr_inv pack p ms t'"
proof -
  obtain qs us off where i: "tr_at pack p ms t qs us off" using assms(1) by (auto simp: tr_inv_def)
  obtain m rest where q: "tr_queue t = m # rest" using i assms(2) by (cases "tr_queue t") (auto simp: tr_at_def)
  let ?m = "mh_message m"
  have pend: "tot = off" "len = length ?m - off" "\<not> failed t" and off: "off < length ?m"
    and wire: "tr_wire t = concat us @ take off ?m"
    using i assms(2) q by (auto simp: tr_at_def)
  let ?t = "t\<lparr> tr_pending := None, tr_wire := tr_wire t @ take n (drop off ?m) \<rparr>"
  have w': "tr_wire ?t = concat us @ take (off + n) ?m" using wire by (simp add: take_add)
  show ?thesis
  proof (cases "n < len")
    case True
    let ?t' = "tr_async_write (length ?m - (off + n)) (off + n) ?t"
    have "tr_complete False n t = Some ?t'"
      using assms(2) q True pend(1) by (simp add: tr_complete_def tr_write_handler_def)
    moreover have "tr_at pack p ms ?t' qs us (off + n)"
      using i q True pend w' by (simp add: tr_at_def tr_async_write_def)
    ultimately show ?thesis by (auto simp: tr_inv_def)
  next
    case False
    let ?t1 = "?t\<lparr> tr_queue := rest, tr_events := tr_events t @ run_closure (mh_on_send m) m False \<rparr>"
    have all: "tr_wire ?t = concat (us @ [?m])" using w' False pend(2) assms(4) by simp
    show ?thesis
    proof (cases rest)
      case Nil
      have "tr_complete False n t = Some ?t1"
        using assms(2) q False Nil pend(1) by (simp add: tr_complete_def tr_write_handler_def)
      moreover have "tr_at pack p ms ?t1 qs (us @ [?m]) 0"
        using i q all pend Nil by (simp add: tr_at_def)
      ultimately show ?thesis by (auto simp: tr_inv_def)
    next
      case (Cons m' rest')
      let ?t2 = "tr_async_write (length (mh_message m')) 0 ?t1"
      have "tr_complete False n t = Some ?t2"
        using assms(2) q False Cons pend(1) by (simp add: tr_complete_def tr_write_handler_def tr_async_write_first_def)
      moreover have "tr_at pack p ms ?t2 qs (us @ [?m]) 0"
        using i q all pend Cons by (auto simp: tr_at_def tr_async_write_def)
      ultimately show ?thesis by (auto simp: tr_inv_def)
    qed
  qed
qed

lemma inv_fail:
  assumes "tr_inv pack p ms t" and "tr_complete True 0 t = Some t'"
  shows "tr_inv pack p ms t'"
proof -
  obtain qs us off where i: "tr_at pack p ms t qs us off" using assms(1) by (auto simp: tr_inv_def)
  obtain len tot m rest where q: "tr_pending t = Some (len, tot)" "tr_queue t = m # rest"
    using assms(2) by (auto simp: tr_complete_def split: option.splits list.splits)
  have "tr_at pack p ms t' qs us off"
    using i q assms(2) by (auto simp: tr_complete_def tr_write_handler_def tr_at_def)
  then show ?thesis by (auto simp: tr_inv_def)
qed

lemma reach_inv: "tr_reach pack p ms t \<Longrightarrow> tr_inv pack p ms t"
proof (induction rule: tr_reach.induct)
  case (Tr_impl ms t t')
  moreover have "tr_posted t \<noteq> []" using Tr_impl(2) by (auto simp: tr_run_post_def)
  ultimately show ?case using inv_impl by fastforce
next
  case (Tr_done ms t len tot n t')
  then show ?case using inv_complete [OF Tr_done.IH Tr_done.hyps(2-4)] by simp
qed (auto intro: inv_new inv_post inv_close inv_fail)

text \<open>The stream has taken a beginning of the packed messages.\<close>

lemma wire_prefix:
  assumes "tr_reach pack p ms t" and "packs pack p ms = (p', ws)"
  shows "prefix (tr_wire t) (concat ws)"
proof -
  obtain qs us off where i: "tr_at pack p ms t qs us off" using reach_inv [OF assms(1)] by (auto simp: tr_inv_def)
  obtain vs where "ws = (us @ map mh_message (tr_queue t)) @ vs"
    using i assms(2) by (auto simp: tr_at_def packs_append split_beta Let_def)
  moreover have "prefix (head_sent (tr_queue t) off) (concat (map mh_message (tr_queue t)))"
    by (cases "tr_queue t") (auto simp: take_is_prefix)
  ultimately show ?thesis using i by (auto simp: tr_at_def intro: prefix_prefix)
qed

text \<open>When neither the strand nor the stream has anything to do, everything is on the wire.\<close>

lemma idle_complete:
  assumes "tr_reach pack p ms t" and "tr_posted t = []" and "tr_pending t = None"
    and "\<not> failed t" and "\<not> tr_closed t"
  shows "tr_queue t = []" and "packs pack p ms = (p', ws) \<Longrightarrow> tr_wire t = concat ws"
  using reach_inv [OF assms(1)] assms(2-5) by (auto simp: tr_inv_def tr_at_def)

lemma idle_proto:
  assumes "tr_reach pack p ms t" and "tr_posted t = []" and "tr_pending t = None"
    and "\<not> failed t" and "\<not> tr_closed t" and "packs pack p ms = (p', ws)"
  shows "tr_proto t = p'"
  using reach_inv [OF assms(1)] assms(2-6) by (auto simp: tr_inv_def tr_at_def)

lemma pending_step:
  assumes "tr_reach pack p ms t" and "tr_pending t = Some (len, tot)"
  shows "0 < len" and "0 < n \<Longrightarrow> n \<le> len \<Longrightarrow> \<exists>t'. tr_complete False n t = Some t'"
    and "\<exists>m rest. tr_queue t = m # rest \<and> length (mh_message m) = len + tot"
proof -
  show "0 < len" using reach_inv [OF assms(1)] assms(2) by (auto simp: tr_inv_def tr_at_def)
  show "0 < n \<Longrightarrow> n \<le> len \<Longrightarrow> \<exists>t'. tr_complete False n t = Some t'"
    using inv_complete [OF reach_inv [OF assms(1)] assms(2)] by blast
  show "\<exists>m rest. tr_queue t = m # rest \<and> length (mh_message m) = len + tot"
    using reach_inv [OF assms(1)] assms(2) by (cases "tr_queue t") (auto simp: tr_inv_def tr_at_def)
qed

lemma complete_decreases:
  assumes "tr_reach pack p ms t" and "tr_pending t = Some (len, tot)" and "0 < n" and "n \<le> len"
    and "tr_complete False n t = Some t'"
  shows "tr_posted t' = tr_posted t"
    and "length (tr_queue t') < length (tr_queue t)
      \<or> tr_queue t' = tr_queue t \<and> (case tr_pending t' of None \<Rightarrow> True | Some (l, _) \<Rightarrow> l < len)"
  using pending_step(3) [OF assms(1,2)] assms(2-5)
  by (auto simp: tr_complete_def tr_write_handler_def tr_async_write_def tr_async_write_first_def Let_def
      split: if_splits list.splits option.splits)

lemma post_step:
  assumes "tr_reach pack p ms t" and "tr_posted t \<noteq> []"
  shows "\<exists>t'. tr_run_post pack t = Some t'"
  using inv_impl [OF reach_inv [OF assms(1)] assms(2)] by blast

end

subsection \<open>The work that is left\<close>

text \<open>One step of the strand or of the stream, without an error.\<close>

definition tr_internal :: "('s \<Rightarrow> bytes \<Rightarrow> 's \<times> bytes) \<Rightarrow> 's transport \<Rightarrow> 's transport \<Rightarrow> bool" where
  "tr_internal pack t t' \<longleftrightarrow>
     tr_run_post pack t = Some t'
     \<or> (\<exists>len tot n. tr_pending t = Some (len, tot) \<and> 0 < n \<and> n \<le> len \<and> tr_complete False n t = Some t')"

definition work_left :: "'s transport \<Rightarrow> nat \<times> nat \<times> nat" where
  "work_left t = (length (tr_posted t), length (tr_queue t), case tr_pending t of None \<Rightarrow> 0 | Some (len, tot) \<Rightarrow> len)"

lemma internal_reach: "tr_reach pack p ms t \<Longrightarrow> tr_internal pack t t' \<Longrightarrow> tr_reach pack p ms t'"
  by (auto simp: tr_internal_def intro: tr_reach.intros)

lemma internal_healthy:
  assumes "tr_internal pack t t'"
  shows "failed t' = failed t" "tr_closed t' = tr_closed t"
  using assms
  by (auto simp: tr_internal_def tr_run_post_def tr_write_impl_def tr_complete_def tr_write_handler_def tr_async_write_def
      tr_async_write_first_def Let_def split: list.splits prod.splits if_splits)

definition work_rel :: "((nat \<times> nat \<times> nat) \<times> (nat \<times> nat \<times> nat)) set" where
  "work_rel = less_than <*lex*> (less_than <*lex*> less_than)"

lemma wf_work_rel: "wf work_rel"
  by (simp add: work_rel_def wf_lex_prod)

lemma impl_decreases:
  assumes "tr_run_post pack t = Some t'"
  shows "length (tr_posted t') < length (tr_posted t)"
  using assms
  by (auto simp: tr_run_post_def tr_write_impl_def tr_async_write_def tr_async_write_first_def Let_def
      split: if_splits list.splits prod.splits)

interpretation lowlevel_packer: packer pack_message
proof unfold_locales
  fix s m
  have "varint_pack w \<noteq> []" for w :: "64 word" by (subst varint_pack.simps) simp
  then show "snd (pack_message s m) \<noteq> []" by (simp add: pack_message_def Let_def split_beta)
qed

lemma packs_pack_all: "packs pack_message p ms = pack_all p (map mh_message ms)"
  by (induction ms arbitrary: p) (auto simp: split_beta Let_def)

lemma internal_decreases:
  assumes r: "tr_reach pack_message p ms t" and "tr_internal pack_message t t'"
  shows "(work_left t', work_left t) \<in> work_rel"
  using assms(2) unfolding tr_internal_def
proof
  assume "tr_run_post pack_message t = Some t'"
  from impl_decreases [OF this] show ?thesis by (simp add: work_rel_def work_left_def)
next
  assume "\<exists>len tot n. tr_pending t = Some (len, tot) \<and> 0 < n \<and> n \<le> len \<and> tr_complete False n t = Some t'"
  then obtain len tot n where d: "tr_pending t = Some (len, tot)" "0 < n" "n \<le> len" "tr_complete False n t = Some t'" by blast
  show ?thesis
    using lowlevel_packer.complete_decreases [OF r d] lowlevel_packer.pending_step(1) [OF r d(1)] d(1)
    by (auto simp: work_rel_def work_left_def split: option.splits)
qed

subsection \<open>Callbacks\<close>

definition closures :: "message_holder list \<Rightarrow> nat multiset" where
  "closures ms = mset (List.map_filter mh_closure ms)"

fun closure_event :: "transport_event \<Rightarrow> nat option" where
  "closure_event (Tr_closure c err) = Some c"
| "closure_event _ = None"

definition called :: "'s transport \<Rightarrow> nat multiset" where
  "called t = mset (List.map_filter closure_event (tr_events t))"

text \<open>The callbacks still to run; after a failure that of the first message has run.\<close>

definition waiting :: "'s transport \<Rightarrow> nat multiset" where
  "waiting t = closures (tr_posted t) + closures (filter mh_on_send (if failed t then tl (tr_queue t) else tr_queue t))"

lemma closures_simps [simp]:
  "closures [] = {#}"
  "closures (m # ms) = (case mh_closure m of None \<Rightarrow> {#} | Some c \<Rightarrow> {#c#}) + closures ms"
  "closures (ms @ ns) = closures ms + closures ns"
  by (auto simp: closures_def map_filter_def split: option.splits)

lemma called_upd [simp]:
  "called (t\<lparr> tr_posted := x \<rparr>) = called t" "called (t\<lparr> tr_queue := y \<rparr>) = called t" "called (t\<lparr> tr_pending := z \<rparr>) = called t"
  "called (t\<lparr> tr_proto := q \<rparr>) = called t" "called (t\<lparr> tr_wire := w \<rparr>) = called t" "called (t\<lparr> tr_closed := b \<rparr>) = called t"
  "called (t\<lparr> tr_events := tr_events t' @ es \<rparr>) = called t' + mset (List.map_filter closure_event es)"
  by (simp_all add: called_def map_filter_def)

lemma map_filter_closures [simp]:
  "mset (List.map_filter closure_event (run_closure c m e)) = (if c then closures [m] else {#})"
  "mset (List.map_filter closure_event (es @ fs))
     = mset (List.map_filter closure_event es) + mset (List.map_filter closure_event fs)"
  "mset (List.map_filter closure_event (e' # es))
     = (case closure_event e' of None \<Rightarrow> {#} | Some k \<Rightarrow> {#k#}) + mset (List.map_filter closure_event es)"
  "mset (List.map_filter closure_event []) = {#}"
  by (auto simp: run_closure_def map_filter_def split: option.splits)

definition cb_inv :: "message_holder list \<Rightarrow> 's transport \<Rightarrow> bool" where
  "cb_inv ms t \<longleftrightarrow> called t + waiting t = closures ms
     \<and> (failed t \<longrightarrow> tr_queue t \<noteq> [] \<and> tr_pending t = None)"

lemma closure_of_upd [simp]: "closures [m\<lparr> mh_message := w \<rparr>] = closures [m]"
  by simp

lemma async_write_frame [simp]:
  "tr_posted (tr_async_write l n t) = tr_posted t" "tr_queue (tr_async_write l n t) = tr_queue t"
  "called (tr_async_write l n t) = called t" "failed (tr_async_write l n t) = failed t"
  by (simp_all add: tr_async_write_def)

lemma waiting_frame [simp]: "waiting (tr_async_write l n t) = waiting t"
  by (simp add: waiting_def)

lemma cb_impl:
  assumes "cb_inv ms t" and "tr_run_post pack t = Some t'"
  shows "cb_inv ms t'"
proof -
  obtain m rest where po: "tr_posted t = m # rest" using assms(2) by (auto simp: tr_run_post_def split: list.splits)
  obtain p w where pk: "pack (tr_proto t) (mh_message m) = (p, w)" by fastforce
  define t1 where "t1 = t\<lparr> tr_posted := rest, tr_proto := p, tr_queue := tr_queue t @ [m\<lparr> mh_message := w \<rparr>],
    tr_events := tr_events t @ run_closure (\<not> mh_on_send m) m False \<rparr>"
  have t': "t' = (if tr_queue t = [] then tr_async_write (length w) 0 t1 else t1)"
    using assms(2) po pk by (auto simp: t1_def tr_run_post_def tr_write_impl_def tr_async_write_first_def)
  have "called t1 + waiting t1 = closures ms"
    using assms(1) po by (auto simp: t1_def waiting_def cb_inv_def ac_simps)
  moreover have "failed t1 = failed t" "tr_queue t1 \<noteq> []" "tr_pending t1 = tr_pending t" by (simp_all add: t1_def)
  ultimately show ?thesis using assms(1) t' by (auto simp: cb_inv_def)
qed

lemma cb_complete:
  assumes "cb_inv ms t" and "tr_pending t \<noteq> None" and "tr_complete e n t = Some t'"
  shows "cb_inv ms t'"
  using assms
  by (auto simp: cb_inv_def waiting_def tr_complete_def tr_write_handler_def tr_async_write_first_def Let_def ac_simps
      split: list.splits if_splits)

lemma cb_reach: "tr_reach pack p ms t \<Longrightarrow> cb_inv ms t"
proof (induction rule: tr_reach.induct)
  case Tr_new
  show ?case by (simp add: cb_inv_def waiting_def transport_new_def called_def failed_def map_filter_def)
next
  case (Tr_post ms t m)
  then show ?case by (auto simp: cb_inv_def waiting_def tr_post_def ac_simps)
next
  case (Tr_fail ms t t')
  have "tr_pending t \<noteq> None" using Tr_fail(2) by (cases "tr_pending t") (auto simp: tr_complete_def)
  then show ?case using cb_complete Tr_fail by blast
next
  case (Tr_close ms t)
  then show ?case by (auto simp: cb_inv_def waiting_def tr_close_def)
qed (auto intro: cb_impl cb_complete)

subsection \<open>Properties\<close>

definition idle :: "'s transport \<Rightarrow> bool" where
  "idle t \<longleftrightarrow> tr_posted t = [] \<and> tr_pending t = None \<and> \<not> failed t \<and> \<not> tr_closed t"

text \<open>
  C11. The bytes on the stream are always a beginning of the packed messages, in the order in which
  they were written, whatever pieces the stream takes and whenever it fails or is closed; when the
  transport is idle they are all of them.
\<close>

theorem transport_keeps_order:
  assumes "tr_reach pack_message p ms t" and "pack_all p (map mh_message ms) = (p', ws)"
  shows "prefix (tr_wire t) (concat ws) \<and> (idle t \<longrightarrow> tr_wire t = concat ws)"
proof -
  have "packs pack_message p ms = (p', ws)" using assms(2) by (simp add: packs_pack_all)
  then show ?thesis
    using lowlevel_packer.wire_prefix [OF assms(1)] lowlevel_packer.idle_complete(2) [OF assms(1)]
    by (auto simp: idle_def)
qed

text \<open>A transport that sends one message of two bytes in two pieces.\<close>

definition example_message :: message_holder where
  "example_message = make_holder [1, 2] (Some 7) True"

lemma example_pack: "pack_message dp_new [1, 2] = (dp_new, [2, 1, 2])"
  by (simp add: pack_message_def dp_new_def hasher_none_def varint_pack.simps)

lemma example_run:
  shows "tr_reach pack_message dp_new [example_message]
      \<lparr> tr_proto = dp_new, tr_posted = [], tr_queue = [example_message\<lparr> mh_message := [2, 1, 2] \<rparr>],
        tr_pending = Some (3, 0), tr_closed = False, tr_wire = [], tr_events = [] \<rparr>" (is "tr_reach _ _ _ ?t2")
    and "tr_reach pack_message dp_new [example_message]
      \<lparr> tr_proto = dp_new, tr_posted = [], tr_queue = [], tr_pending = None, tr_closed = False,
        tr_wire = [2, 1, 2], tr_events = [Tr_closure 7 False] \<rparr>" (is "tr_reach _ _ _ ?t4")
proof -
  let ?t1 = "tr_post example_message (transport_new dp_new)"
  have r1: "tr_reach pack_message dp_new [example_message] ?t1" using tr_reach.intros(1,2) [of pack_message dp_new] by fastforce
  have "tr_run_post pack_message ?t1 = Some ?t2"
    using example_pack by (simp add: tr_run_post_def tr_post_def transport_new_def tr_write_impl_def example_message_def
        make_holder_def tr_async_write_first_def tr_async_write_def run_closure_def)
  from Tr_impl [OF r1 this] show r2: "tr_reach pack_message dp_new [example_message] ?t2" .
  let ?t3 = "?t2\<lparr> tr_pending := Some (2, 1), tr_wire := [2] \<rparr>"
  have "tr_complete False 1 ?t2 = Some ?t3"
    by (simp add: tr_complete_def tr_write_handler_def tr_async_write_def)
  from Tr_done [OF r2 _ _ _ this] have r3: "tr_reach pack_message dp_new [example_message] ?t3" by simp
  have "tr_complete False 2 ?t3 = Some ?t4"
    by (simp add: tr_complete_def tr_write_handler_def run_closure_def example_message_def make_holder_def)
  from Tr_done [OF r3 _ _ _ this] show "tr_reach pack_message dp_new [example_message] ?t4" by simp
qed

theorem transport_keeps_order_witness:
  "prefix [2] (concat [[2, 1, 2 :: byte]]) \<and> [2, 1, 2] = concat [[2, 1, 2 :: byte]]"
proof -
  have "pack_all dp_new (map mh_message [example_message]) = (dp_new, [[2, 1, 2]])"
    using example_pack by (simp add: example_message_def make_holder_def)
  from transport_keeps_order [OF example_run(2) this]
  show ?thesis by (simp add: idle_def failed_def)
qed



text \<open>
  C18. No callback of a write runs twice, and when the transport is idle every callback has run.
\<close>

theorem write_callbacks_once:
  assumes "tr_reach pack_message p ms t"
  shows "called t \<subseteq># closures ms \<and> (idle t \<longrightarrow> called t = closures ms)"
proof -
  have inv: "called t + waiting t = closures ms" using cb_reach [OF assms] by (simp add: cb_inv_def)
  then have "called t \<subseteq># closures ms" by (metis mset_subset_eq_add_left)
  moreover have "waiting t = {#}" if "idle t"
    using that lowlevel_packer.idle_complete(1) [OF assms] by (simp add: idle_def waiting_def)
  ultimately show ?thesis using inv by auto
qed

theorem write_callbacks_once_witness:
  "called \<lparr> tr_proto = dp_new, tr_posted = [], tr_queue = [], tr_pending = None, tr_closed = False,
     tr_wire = [2, 1, 2], tr_events = [Tr_closure 7 False] \<rparr> = {#7#}"
  using write_callbacks_once [OF example_run(2)] by (simp add: idle_def failed_def example_message_def make_holder_def)

end
