(* ===== verification/Rpc_Types.thy ===== *)
theory Rpc_Types
  imports Prelude
begin

text \<open>
  The units two peers exchange (\<open>protocol-base/vtrc-rpc-lowlevel.proto\<close>), the error container and
  error numbers (\<open>vtrc-errors.proto\<close>), the options of a unit, and the controller object of a call
  (\<open>rpc-controller.cpp\<close>). A field that is not set reads as its default, as in the generated code.
\<close>

subsection \<open>Errors\<close>

definition ERR_NO_ERROR :: nat where "ERR_NO_ERROR = 0"
definition ERR_BAD_FILE :: nat where "ERR_BAD_FILE = 9"
definition ERR_ACCESS :: nat where "ERR_ACCESS = 13"
definition ERR_BUSY :: nat where "ERR_BUSY = 16"
definition ERR_INVALID_VALUE :: nat where "ERR_INVALID_VALUE = 22"
definition ERR_NO_FUNC :: nat where "ERR_NO_FUNC = 38"
definition ERR_TIMEOUT :: nat where "ERR_TIMEOUT = 62"
definition ERR_COMM :: nat where "ERR_COMM = 70"
definition ERR_PROTOCOL :: nat where "ERR_PROTOCOL = 71"
definition ERR_CANCELED :: nat where "ERR_CANCELED = 125"
definition ERR_UNKNOWN :: nat where "ERR_UNKNOWN = 1000"
definition ERR_CALL_FAILED :: nat where "ERR_CALL_FAILED = 1001"
definition ERR_INTERNAL :: nat where "ERR_INTERNAL = 1002"
definition ERR_CHANNEL :: nat where "ERR_CHANNEL = 1003"
definition ERR_OVERFLOW :: nat where "ERR_OVERFLOW = 1004"
definition ERR_CONTEXT :: nat where "ERR_CONTEXT = 1005"

definition CATEGORY_INTERNAL :: nat where "CATEGORY_INTERNAL = 0"
definition CATEGORY_SYSTEM :: nat where "CATEGORY_SYSTEM = 2"

lemmas err_defs = ERR_NO_ERROR_def ERR_BAD_FILE_def ERR_ACCESS_def ERR_BUSY_def
  ERR_INVALID_VALUE_def ERR_NO_FUNC_def ERR_TIMEOUT_def ERR_COMM_def ERR_PROTOCOL_def
  ERR_CANCELED_def ERR_UNKNOWN_def ERR_CALL_FAILED_def ERR_INTERNAL_def ERR_CHANNEL_def
  ERR_OVERFLOW_def ERR_CONTEXT_def CATEGORY_INTERNAL_def CATEGORY_SYSTEM_def

record error_container =
  ec_code :: nat
  ec_category :: nat
  ec_fatal :: bool
  ec_additional :: string

definition no_error :: error_container where
  "no_error = \<lparr> ec_code = ERR_NO_ERROR, ec_category = CATEGORY_INTERNAL, ec_fatal = False,
                 ec_additional = [] \<rparr>"

text \<open>\<open>vtrc::common::exception( code )\<close> and \<open>exception( code, additional )\<close>.\<close>

definition rpc_exception :: "nat \<Rightarrow> exn" where
  "rpc_exception code = Rpc_exception code CATEGORY_INTERNAL []"

definition rpc_exception_msg :: "nat \<Rightarrow> string \<Rightarrow> exn" where
  "rpc_exception_msg code additional = Rpc_exception code CATEGORY_INTERNAL additional"

text \<open>The texts of exceptions: the descriptions of the error numbers, or what the system says about a code
  (\<open>sysmsg\<close>, which may raise with a text).\<close>

definition errors_numbers :: "(nat \<times> string) list" where
  "errors_numbers =
     [(0, ''No error''), (1, ''Operation not permitted''), (2, ''Object was not found''), (5, ''I/O error''),
      (9, ''Bad file number''), (13, ''Permission denied''), (16, ''Device or resource busy''), (22, ''Invalid value''),
      (38, ''Function not implemented''), (61, ''No data available''), (62, ''Timeout''),
      (70, ''Communication error on send''), (71, ''Protocol error''), (90, ''Message is too long''),
      (125, ''Operation canceled''), (1000, ''Unknown error''), (1001, ''Call failed''), (1002, ''Internal error''),
      (1003, ''Channel error''), (1004, ''Stack overflow''), (1005, ''Bad callback context'')]"

definition unknown_error :: string where "unknown_error = ''Unknown error''"

definition get_internal_error :: "nat \<Rightarrow> string" where
  "get_internal_error code = (case map_of errors_numbers code of Some d \<Rightarrow> d | None \<Rightarrow> unknown_error)"

definition get_error_code_string :: "(nat \<Rightarrow> string + string) \<Rightarrow> nat \<Rightarrow> nat \<Rightarrow> string" where
  "get_error_code_string sysmsg code category =
     (if category = CATEGORY_INTERNAL then get_internal_error code
      else if category = CATEGORY_SYSTEM then (case sysmsg code of Inl what \<Rightarrow> what | Inr message \<Rightarrow> message)
      else unknown_error)"

text \<open>The text of an internal error tells its number, unless it is the text of an unknown one.\<close>

lemma internal_error_text_identifies:
  assumes "get_internal_error a = get_internal_error b" and "get_internal_error a \<noteq> unknown_error"
  shows "a = b"
proof -
  have d: "distinct (map snd errors_numbers)" by code_simp
  have e: "(n, get_internal_error n) \<in> set errors_numbers" if "get_internal_error n \<noteq> unknown_error" for n
    using that by (auto simp: get_internal_error_def dest: map_of_SomeD split: option.splits)
  from e [of a] e [of b] assms show ?thesis using eq_key_imp_eq_value [of "map prod.swap errors_numbers"] d
    by (auto simp: comp_def image_iff) (metis distinct_map inj_on_contraD snd_conv fst_conv)
qed

subsection \<open>Units\<close>

definition MESSAGE_NONE :: nat where "MESSAGE_NONE = 0"
definition MESSAGE_CLIENT_CALL :: nat where "MESSAGE_CLIENT_CALL = 1"
definition MESSAGE_SERVER_CALL :: nat where "MESSAGE_SERVER_CALL = 2"
definition MESSAGE_CLIENT_CALLBACK :: nat where "MESSAGE_CLIENT_CALLBACK = 3"
definition MESSAGE_SERVER_CALLBACK :: nat where "MESSAGE_SERVER_CALLBACK = 4"
definition MESSAGE_SERVICE :: nat where "MESSAGE_SERVICE = 5"
definition MESSAGE_INTERNAL :: nat where "MESSAGE_INTERNAL = 6"

definition FLAG_CALLBACK_ALONE :: u32 where "FLAG_CALLBACK_ALONE = 1"

lemmas message_type_defs = MESSAGE_NONE_def MESSAGE_CLIENT_CALL_def MESSAGE_SERVER_CALL_def
  MESSAGE_CLIENT_CALLBACK_def MESSAGE_SERVER_CALLBACK_def MESSAGE_SERVICE_def MESSAGE_INTERNAL_def

record unit_options =
  uo_wait :: bool
  uo_accept_callbacks :: bool
  uo_accept_response :: bool

definition unit_options_cleared :: unit_options where
  "unit_options_cleared =
     \<lparr> uo_wait = False, uo_accept_callbacks = False, uo_accept_response = False \<rparr>"

definition default_unit_options :: unit_options where
  "default_unit_options =
     \<lparr> uo_wait = True, uo_accept_callbacks = True, uo_accept_response = True \<rparr>"

record lowlevel_unit =
  llu_id :: u64
  llu_target_id :: u64
  llu_type :: nat
  llu_flags :: u32
  llu_service_id :: string
  llu_method_id :: string
  llu_error :: error_container
  llu_opt :: unit_options
  llu_channel_data :: bytes
  llu_request :: bytes
  llu_response :: bytes

definition llu_new :: lowlevel_unit where
  "llu_new =
     \<lparr> llu_id = 0, llu_target_id = 0, llu_type = MESSAGE_NONE, llu_flags = 0,
       llu_service_id = [], llu_method_id = [], llu_error = no_error,
       llu_opt = unit_options_cleared, llu_channel_data = [], llu_request = [],
       llu_response = [] \<rparr>"

definition llu_clear_call :: "lowlevel_unit \<Rightarrow> lowlevel_unit" where
  "llu_clear_call llu = llu\<lparr> llu_service_id := [], llu_method_id := [] \<rparr>"

definition llu_set_code :: "nat \<Rightarrow> lowlevel_unit \<Rightarrow> lowlevel_unit" where
  "llu_set_code code llu = llu\<lparr> llu_error := (llu_error llu)\<lparr> ec_code := code \<rparr> \<rparr>"

definition llu_set_additional :: "string \<Rightarrow> lowlevel_unit \<Rightarrow> lowlevel_unit" where
  "llu_set_additional text llu = llu\<lparr> llu_error := (llu_error llu)\<lparr> ec_additional := text \<rparr> \<rparr>"

definition alone_callback :: "lowlevel_unit \<Rightarrow> bool" where
  "alone_callback llu \<longleftrightarrow> llu_flags llu AND FLAG_CALLBACK_ALONE \<noteq> 0"

definition fill_error :: "lowlevel_unit \<Rightarrow> nat \<Rightarrow> string \<Rightarrow> bool \<Rightarrow> lowlevel_unit" where
  "fill_error llu code message fatal =
     llu\<lparr> llu_error := (llu_error llu)\<lparr> ec_code := code, ec_additional := message,
                                       ec_fatal := fatal \<rparr> \<rparr>"

subsection \<open>The controller\<close>

text \<open>\<open>rc_cancel_runs\<close> counts how often a registered cancel callback was run; a callback is
  registered at most once.\<close>

record rpc_controller =
  rc_failed :: bool
  rc_error_string :: string
  rc_canceled :: bool
  rc_cancel_cl :: bool
  rc_cancel_runs :: nat

definition controller_new :: rpc_controller where
  "controller_new =
     \<lparr> rc_failed = False, rc_error_string = [], rc_canceled = False, rc_cancel_cl = False,
       rc_cancel_runs = 0 \<rparr>"

definition controller_reset :: "rpc_controller \<Rightarrow> rpc_controller" where
  "controller_reset c =
     c\<lparr> rc_failed := False, rc_canceled := False, rc_cancel_cl := False, rc_error_string := [] \<rparr>"

definition StartCancel :: "rpc_controller \<Rightarrow> rpc_controller" where
  "StartCancel c =
     (let c = c\<lparr> rc_canceled := True \<rparr> in
      if rc_cancel_cl c then c\<lparr> rc_cancel_runs := Suc (rc_cancel_runs c) \<rparr> else c)"

definition SetFailed :: "string \<Rightarrow> rpc_controller \<Rightarrow> rpc_controller" where
  "SetFailed reason c = c\<lparr> rc_failed := True, rc_error_string := reason \<rparr>"

definition NotifyOnCancel :: "rpc_controller \<Rightarrow> rpc_controller" where
  "NotifyOnCancel c =
     (if rc_canceled c then c\<lparr> rc_cancel_runs := Suc (rc_cancel_runs c) \<rparr>
      else c\<lparr> rc_cancel_cl := True \<rparr>)"

end
