(* ===== verification/Condition_Queues.thy ===== *)
theory Condition_Queues
  imports Prelude
begin

text \<open>
  Waiting slots for answers, \<open>include/vtrc/common/condition-queues.h\<close>: a map from keys to
  shared queues, each with its own lock, a condition variable and a flag that cancels its
  readers. A reader keeps the shared pointer while it waits, so a queue may outlive its entry in
  the map: queues live in a heap of cells, and the map holds addresses.

  The first part gives every member function, with the wait of a reader (\<open>call_wait\<close> in the
  source) as an argument. The second part is a step relation in which any number of threads read,
  write, cancel and erase, with one step per critical section.
\<close>

subsection \<open>State\<close>

datatype wait_result = WAIT_RESULT_CANCELED | WAIT_RESULT_SUCCESS | WAIT_RESULT_TIMEOUT

record 'v hold_value =
  hv_canceled :: bool
  hv_data :: "'v list"

definition hold_value_new :: "'v hold_value" where
  "hold_value_new = \<lparr> hv_canceled = False, hv_data = [] \<rparr>"

text \<open>\<open>std::map\<close> is a list of pairs, sorted by key and without duplicates.\<close>

record ('k, 'v) condition_queues =
  cq_store :: "('k \<times> nat) list"
  cq_heap :: "nat \<Rightarrow> 'v hold_value"
  cq_next :: nat

definition cq_new :: "('k, 'v) condition_queues" where
  "cq_new = \<lparr> cq_store = [], cq_heap = (\<lambda>_. hold_value_new), cq_next = 0 \<rparr>"

definition cq_find :: "('k, 'v) condition_queues \<Rightarrow> 'k \<Rightarrow> nat option" where
  "cq_find s k = map_of (cq_store s) k"

definition cq_at :: "('k, 'v) condition_queues \<Rightarrow> 'k \<Rightarrow> exn + nat" where
  "cq_at s k =
     (case cq_find s k of None \<Rightarrow> Inl (Out_of_range ''Bad queue index'') | Some a \<Rightarrow> Inr a)"

definition cq_update :: "nat \<Rightarrow> ('v hold_value \<Rightarrow> 'v hold_value) \<Rightarrow>
    ('k, 'v) condition_queues \<Rightarrow> ('k, 'v) condition_queues" where
  "cq_update a f s = s\<lparr> cq_heap := (cq_heap s)(a := f (cq_heap s a)) \<rparr>"

definition queue_empty_predicate :: "('k, 'v) condition_queues \<Rightarrow> nat \<Rightarrow> bool" where
  "queue_empty_predicate s a \<longleftrightarrow> hv_data (cq_heap s a) \<noteq> [] \<or> hv_canceled (cq_heap s a)"

definition cancel_res2wait_res :: "bool \<Rightarrow> bool \<Rightarrow> wait_result" where
  "cancel_res2wait_res canceled waitres =
     (if canceled then WAIT_RESULT_CANCELED
      else if waitres then WAIT_RESULT_SUCCESS else WAIT_RESULT_TIMEOUT)"

subsection \<open>Operations that do not wait\<close>

definition cancel_value :: "nat \<Rightarrow> ('k, 'v) condition_queues \<Rightarrow> ('k, 'v) condition_queues" where
  "cancel_value a = cq_update a (\<lambda>v. v\<lparr> hv_canceled := True \<rparr>)"

definition push_value_data :: "nat \<Rightarrow> 'v \<Rightarrow> ('k, 'v) condition_queues \<Rightarrow> ('k, 'v) condition_queues" where
  "push_value_data a d = cq_update a (\<lambda>v. v\<lparr> hv_data := hv_data v @ [d] \<rparr>)"

definition cq_size :: "('k, 'v) condition_queues \<Rightarrow> nat" where
  "cq_size s = length (cq_store s)"

definition cq_queue_size :: "('k, 'v) condition_queues \<Rightarrow> 'k \<Rightarrow> exn + nat" where
  "cq_queue_size s k = map_sum (\<lambda>e. e) (\<lambda>a. length (hv_data (cq_heap s a))) (cq_at s k)"

text \<open>\<open>std::map::insert\<close> leaves an existing entry as it is.\<close>

definition add_queue :: "'k::linorder \<Rightarrow> ('k, 'v) condition_queues \<Rightarrow> ('k, 'v) condition_queues" where
  "add_queue k s =
     (case cq_find s k of
        Some _ \<Rightarrow> s
      | None \<Rightarrow> s\<lparr> cq_store := insort_key fst (k, cq_next s) (cq_store s),
                   cq_heap := (cq_heap s)(cq_next s := hold_value_new),
                   cq_next := Suc (cq_next s) \<rparr>)"

definition erase_queue :: "'k \<Rightarrow> ('k, 'v) condition_queues \<Rightarrow> ('k, 'v) condition_queues" where
  "erase_queue k s =
     (case cq_find s k of
        None \<Rightarrow> s
      | Some a \<Rightarrow> (let s = cancel_value a s in
                   s\<lparr> cq_store := filter (\<lambda>(k', _). k' \<noteq> k) (cq_store s) \<rparr>))"

definition cancel_all :: "('k, 'v) condition_queues \<Rightarrow> ('k, 'v) condition_queues" where
  "cancel_all s = foldl (\<lambda>s (k, a). cancel_value a s) s (cq_store s)"

definition erase_all :: "('k, 'v) condition_queues \<Rightarrow> ('k, 'v) condition_queues" where
  "erase_all s = (cancel_all s)\<lparr> cq_store := [] \<rparr>"

definition cancel_queue :: "'k \<Rightarrow> ('k, 'v) condition_queues \<Rightarrow> ('k, 'v) condition_queues \<times> (exn + unit)" where
  "cancel_queue k s =
     (case cq_at s k of Inl e \<Rightarrow> (s, Inl e) | Inr a \<Rightarrow> (cancel_value a s, Inr ()))"

definition write_queue :: "'k \<Rightarrow> 'v \<Rightarrow> ('k, 'v) condition_queues \<Rightarrow> ('k, 'v) condition_queues \<times> (exn + unit)" where
  "write_queue k d s =
     (case cq_at s k of Inl e \<Rightarrow> (s, Inl e) | Inr a \<Rightarrow> (push_value_data a d s, Inr ()))"

definition write_queue_all_of ::
    "'k \<Rightarrow> 'v list \<Rightarrow> ('k, 'v) condition_queues \<Rightarrow> ('k, 'v) condition_queues \<times> (exn + unit)" where
  "write_queue_all_of k ds s =
     (case cq_at s k of Inl e \<Rightarrow> (s, Inl e)
      | Inr a \<Rightarrow> (cq_update a (\<lambda>v. v\<lparr> hv_data := hv_data v @ ds \<rparr>) s, Inr ()))"

definition write_all :: "'v \<Rightarrow> ('k, 'v) condition_queues \<Rightarrow> ('k, 'v) condition_queues \<times> nat" where
  "write_all d s =
     foldl (\<lambda>(s, cnt) (k, a). (push_value_data a d s, Suc cnt)) (s, 0) (cq_store s)"

definition write_queue_if_exists ::
    "'k \<Rightarrow> 'v \<Rightarrow> ('k, 'v) condition_queues \<Rightarrow> ('k, 'v) condition_queues \<times> bool" where
  "write_queue_if_exists k d s =
     (case cq_find s k of None \<Rightarrow> (s, False) | Some a \<Rightarrow> (push_value_data a d s, True))"

definition queue_exists :: "('k, 'v) condition_queues \<Rightarrow> 'k \<Rightarrow> bool" where
  "queue_exists s k \<longleftrightarrow> cq_find s k \<noteq> None"

subsection \<open>Readers\<close>

text \<open>\<open>call_wait\<close> gives up the lock of the cell, so the state it returns may differ from the one
  it was called in by whatever other threads did; its result is the predicate at its end, or
  \<open>false\<close> after a timeout.\<close>

type_synonym ('k, 'v) call_wait = "('k, 'v) condition_queues \<Rightarrow> nat \<Rightarrow> ('k, 'v) condition_queues \<times> bool"

definition reader_enter :: "nat \<Rightarrow> ('k, 'v) condition_queues \<Rightarrow> ('k, 'v) condition_queues" where
  "reader_enter a = cq_update a (\<lambda>v. v\<lparr> hv_canceled := False \<rparr>)"

definition read_leave ::
    "nat \<Rightarrow> bool \<Rightarrow> ('k, 'v) condition_queues \<Rightarrow> ('k, 'v) condition_queues \<times> wait_result \<times> 'v option" where
  "read_leave a res s =
     (let v = cq_heap s a; w = cancel_res2wait_res (hv_canceled v) res in
      if \<not> hv_canceled v \<and> hv_data v \<noteq> []
      then (cq_update a (\<lambda>v. v\<lparr> hv_data := tl (hv_data v) \<rparr>) s, w, Some (hd (hv_data v)))
      else (s, w, None))"

definition read_impl :: "('k, 'v) call_wait \<Rightarrow> 'k \<Rightarrow> ('k, 'v) condition_queues \<Rightarrow>
    ('k, 'v) condition_queues \<times> (exn + wait_result \<times> 'v option)" where
  "read_impl call_wait k s =
     (case cq_at s k of
        Inl e \<Rightarrow> (s, Inl e)
      | Inr a \<Rightarrow> (case call_wait (reader_enter a s) a of
                    (s', res) \<Rightarrow> (case read_leave a res s' of (s'', r) \<Rightarrow> (s'', Inr r))))"

definition read_queue_leave ::
    "nat \<Rightarrow> bool \<Rightarrow> ('k, 'v) condition_queues \<Rightarrow> ('k, 'v) condition_queues \<times> wait_result \<times> 'v list option" where
  "read_queue_leave a res s =
     (let v = cq_heap s a; w = cancel_res2wait_res (hv_canceled v) res in
      if res then (cq_update a (\<lambda>v. v\<lparr> hv_data := [] \<rparr>) s, w, Some (hv_data v))
      else (s, w, None))"

definition read_queue_impl :: "('k, 'v) call_wait \<Rightarrow> 'k \<Rightarrow> ('k, 'v) condition_queues \<Rightarrow>
    ('k, 'v) condition_queues \<times> (exn + wait_result \<times> 'v list option)" where
  "read_queue_impl call_wait k s =
     (case cq_at s k of
        Inl e \<Rightarrow> (s, Inl e)
      | Inr a \<Rightarrow> (case call_wait (reader_enter a s) a of
                    (s', res) \<Rightarrow> (case read_queue_leave a res s' of (s'', r) \<Rightarrow> (s'', Inr r))))"

definition wait_queue_impl :: "('k, 'v) call_wait \<Rightarrow> 'k \<Rightarrow> ('k, 'v) condition_queues \<Rightarrow>
    ('k, 'v) condition_queues \<times> (exn + wait_result)" where
  "wait_queue_impl call_wait k s =
     (case cq_at s k of
        Inl e \<Rightarrow> (s, Inl e)
      | Inr a \<Rightarrow> (case call_wait (reader_enter a s) a of
                    (s', res) \<Rightarrow>
                      (s', Inr (cancel_res2wait_res (hv_canceled (cq_heap s' a)) res))))"

subsection \<open>Well-formedness\<close>

definition cq_wf :: "('k::linorder, 'v) condition_queues \<Rightarrow> bool" where
  "cq_wf s \<longleftrightarrow> sorted (map fst (cq_store s)) \<and> distinct (map fst (cq_store s))
     \<and> distinct (map snd (cq_store s)) \<and> (\<forall>a \<in> snd ` set (cq_store s). a < cq_next s)"

lemma cq_new_wf [inv_intros]: "cq_wf cq_new"
  by (simp add: cq_wf_def cq_new_def)

lemma cq_find_new [simp]: "cq_find cq_new k = None"
  by (simp add: cq_find_def cq_new_def)

lemma cq_update_sels [simp]:
  "cq_store (cq_update a f s) = cq_store s" "cq_next (cq_update a f s) = cq_next s"
  "cq_heap (cq_update a f s) b = (if b = a then f (cq_heap s a) else cq_heap s b)"
  by (simp_all add: cq_update_def)

lemma cq_wf_update [simp]: "cq_wf (cq_update a f s) = cq_wf s"
  by (simp add: cq_wf_def)

lemmas cell_ops = cancel_value_def push_value_data_def reader_enter_def

lemma cancel_fold_sels [simp]:
  "cq_store (foldl (\<lambda>s (k, a). cancel_value a s) s xs) = cq_store s"
  "cq_next (foldl (\<lambda>s (k, a). cancel_value a s) s xs) = cq_next s"
  by (induction xs arbitrary: s) (auto simp: cell_ops)

lemma cancel_fold_data [simp]:
  "hv_data (cq_heap (foldl (\<lambda>s (k, a). cancel_value a s) s xs) b) = hv_data (cq_heap s b)"
  by (induction xs arbitrary: s) (auto simp: cell_ops)

lemma cancel_fold_canceled:
  "hv_canceled (cq_heap (foldl (\<lambda>s (k, a). cancel_value a s) s xs) b)
     \<longleftrightarrow> hv_canceled (cq_heap s b) \<or> b \<in> snd ` set xs"
  by (induction xs arbitrary: s) (auto simp: cell_ops)

lemma write_fold_sels:
  "cq_store (fst (foldl (\<lambda>(s, cnt) (k, a). (push_value_data a d s, Suc cnt)) (s, n) xs)) = cq_store s"
  "cq_next (fst (foldl (\<lambda>(s, cnt) (k, a). (push_value_data a d s, Suc cnt)) (s, n) xs)) = cq_next s"
  "snd (foldl (\<lambda>(s, cnt) (k, a). (push_value_data a d s, Suc cnt)) (s, n) xs) = n + length xs"
  by (induction xs arbitrary: s n) (auto simp: cell_ops)

lemma write_fold_heap:
  "distinct (map snd xs) \<Longrightarrow>
     cq_heap (fst (foldl (\<lambda>(s, cnt) (k, a). (push_value_data a d s, Suc cnt)) (s, n) xs)) b
       = (if b \<in> snd ` set xs then (cq_heap s b)\<lparr> hv_data := hv_data (cq_heap s b) @ [d] \<rparr>
          else cq_heap s b)"
proof (induction xs arbitrary: s n)
  case (Cons x xs)
  then show ?case by (cases x; cases "b \<in> snd ` set xs") (auto simp: cell_ops)
qed simp

lemma add_queue_wf [inv_intros]: "cq_wf s \<Longrightarrow> cq_wf (add_queue k s)"
proof (cases "cq_find s k")
  case None
  assume wf: "cq_wf s"
  have "k \<notin> fst ` set (cq_store s)" using None by (simp add: cq_find_def map_of_eq_None_iff)
  with wf None show ?thesis
    by (auto simp: add_queue_def cq_wf_def sorted_insort_key set_insort_key distinct_map_insort
        less_Suc_eq)
qed (simp add: add_queue_def)

lemma erase_queue_wf [inv_intros]: "cq_wf s \<Longrightarrow> cq_wf (erase_queue k s)"
  by (auto simp: erase_queue_def cell_ops cq_wf_def Let_def distinct_map_filter sorted_filter
      split: option.splits)

lemma cancel_all_wf [inv_intros]: "cq_wf s \<Longrightarrow> cq_wf (cancel_all s)"
  by (simp add: cancel_all_def cq_wf_def)

lemma erase_all_wf [inv_intros]: "cq_wf s \<Longrightarrow> cq_wf (erase_all s)"
  by (simp add: erase_all_def cq_wf_def)

lemma write_all_wf [inv_intros]: "cq_wf s \<Longrightarrow> cq_wf (fst (write_all d s))"
  by (simp add: write_all_def cq_wf_def write_fold_sels)

lemma read_leave_wf [simp]: "cq_wf (fst (read_leave a res s)) = cq_wf s"
  by (simp add: read_leave_def Let_def)

lemma cq_find_erase_all: "cq_find (erase_all s) k = None"
  by (simp add: cq_find_def erase_all_def)

lemma find_less_next: "cq_wf s \<Longrightarrow> cq_find s k = Some a \<Longrightarrow> a < cq_next s"
  unfolding cq_wf_def cq_find_def by (force dest: map_of_SomeD)

lemma find_inject: "cq_wf s \<Longrightarrow> cq_find s k = Some a \<Longrightarrow> cq_find s k' = Some a \<Longrightarrow> k = k'"
  unfolding cq_wf_def cq_find_def
  by (metis (no_types, lifting) fst_conv inj_onD distinct_map map_of_SomeD snd_conv)

subsection \<open>The slots as a map of queues\<close>

text \<open>What a client sees: which keys have a slot, and what waits in it.\<close>

definition slots :: "('k, 'v) condition_queues \<Rightarrow> 'k \<Rightarrow> 'v list option" where
  "slots s k = map_option (\<lambda>a. hv_data (cq_heap s a)) (cq_find s k)"

text \<open>
  The contract of a slot store: \<open>view\<close> is the abstract map; every operation acts on it as on a
  finite map of queues and keeps the invariant.
\<close>

locale slot_store =
  fixes inv :: "'s \<Rightarrow> bool"
    and view :: "'s \<Rightarrow> 'k \<Rightarrow> 'v list option"
    and empty :: 's
    and add :: "'k \<Rightarrow> 's \<Rightarrow> 's"
    and erase :: "'k \<Rightarrow> 's \<Rightarrow> 's"
    and put :: "'k \<Rightarrow> 'v \<Rightarrow> 's \<Rightarrow> 's \<times> bool"
    and put_all :: "'v \<Rightarrow> 's \<Rightarrow> 's \<times> nat"
    and clear :: "'s \<Rightarrow> 's"
  assumes inv_empty: "inv empty"
    and inv_add: "inv s \<Longrightarrow> inv (add k s)"
    and inv_erase: "inv s \<Longrightarrow> inv (erase k s)"
    and inv_write: "inv s \<Longrightarrow> inv (fst (put k v s))"
    and inv_broadcast: "inv s \<Longrightarrow> inv (fst (put_all v s))"
    and inv_clear: "inv s \<Longrightarrow> inv (clear s)"
    and view_empty: "view empty k = None"
    and view_add: "inv s \<Longrightarrow> view (add k s) =
          (if view s k = None then (view s)(k \<mapsto> []) else view s)"
    and view_erase: "inv s \<Longrightarrow> view (erase k s) = (view s)(k := None)"
    and view_write: "inv s \<Longrightarrow> view (fst (put k v s)) =
          (case view s k of None \<Rightarrow> view s | Some q \<Rightarrow> (view s)(k \<mapsto> q @ [v]))"
    and write_result: "inv s \<Longrightarrow> snd (put k v s) \<longleftrightarrow> view s k \<noteq> None"
    and view_broadcast: "inv s \<Longrightarrow> view (fst (put_all v s)) = (\<lambda>k. map_option (\<lambda>q. q @ [v]) (view s k))"
    and broadcast_result: "inv s \<Longrightarrow> snd (put_all v s) = card (dom (view s))"
    and view_clear: "inv s \<Longrightarrow> view (clear s) = (\<lambda>k. None)"
begin

text \<open>An answer written before or after other slots came and went is there exactly as long as
  its own slot is.\<close>

lemma write_other: "inv s \<Longrightarrow> k \<noteq> k' \<Longrightarrow> view (fst (put k v s)) k' = view s k'"
  by (simp add: view_write split: option.splits)

lemma write_erased: "inv s \<Longrightarrow> \<not> snd (put k v (erase k s))"
  by (simp add: write_result inv_erase view_erase)

lemma add_write: "inv s \<Longrightarrow> view s k = None \<Longrightarrow> view (fst (put k v (add k s))) k = Some [v]"
  by (simp add: view_write view_add inv_add)

end

lemma slots_add:
  assumes "cq_wf s"
  shows "slots (add_queue k s) = (if slots s k = None then (slots s)(k \<mapsto> []) else slots s)"
proof (cases "cq_find s k")
  case None
  have "k \<notin> fst ` set (cq_store s)" using None by (simp add: cq_find_def map_of_eq_None_iff)
  then have f: "cq_find (add_queue k s) = (cq_find s)(k \<mapsto> cq_next s)"
    using None by (simp add: fun_eq_iff cq_find_def add_queue_def map_of_insort)
  show ?thesis
  proof
    fix k'
    show "slots (add_queue k s) k' = (if slots s k = None then (slots s)(k \<mapsto> []) else slots s) k'"
      using None f find_less_next [OF assms, of k']
      by (cases "cq_find s k'") (auto simp: slots_def add_queue_def hold_value_new_def cq_find_def)
  qed
qed (simp add: add_queue_def slots_def)

lemma slots_update:
  assumes "cq_wf s" and "cq_find s k = Some a"
  shows "slots (cq_update a f s) = (slots s)(k \<mapsto> hv_data (f (cq_heap s a)))"
proof
  fix k'
  show "slots (cq_update a f s) k' = ((slots s)(k \<mapsto> hv_data (f (cq_heap s a)))) k'"
  proof (cases "k' = k")
    case True
    with assms(2) show ?thesis by (simp add: slots_def cq_find_def)
  next
    case False
    then have "cq_find s k' \<noteq> Some a" using find_inject [OF assms] by blast
    with False show ?thesis by (cases "cq_find s k'") (simp_all add: slots_def cq_find_def)
  qed
qed

lemma slots_erase:
  assumes "cq_wf s"
  shows "slots (erase_queue k s) = (slots s)(k := None)"
proof (cases "cq_find s k")
  case (Some a)
  have "cq_find (erase_queue k s) = (cq_find s)(k := None)"
    using Some by (simp add: fun_eq_iff erase_queue_def cq_find_def Let_def cell_ops map_of_filter_key)
  moreover have "hv_data (cq_heap (erase_queue k s) b) = hv_data (cq_heap s b)" for b
    using Some by (simp add: erase_queue_def Let_def cell_ops)
  ultimately show ?thesis by (auto simp: fun_eq_iff slots_def)
qed (auto simp: erase_queue_def slots_def)

lemma slots_write_all:
  assumes "cq_wf s"
  shows "slots (fst (write_all v s)) = (\<lambda>k. map_option (\<lambda>q. q @ [v]) (slots s k))"
proof
  fix k
  have "a \<in> snd ` set (cq_store s)" if "cq_find s k = Some a" for a
    using that by (force simp: cq_find_def dest: map_of_SomeD)
  then show "slots (fst (write_all v s)) k = map_option (\<lambda>q. q @ [v]) (slots s k)"
    using assms
    by (cases "cq_find s k")
      (auto simp: slots_def write_all_def cq_find_def write_fold_sels write_fold_heap cq_wf_def)
qed

lemma dom_slots: "dom (slots s) = fst ` set (cq_store s)"
  by (auto simp: slots_def dom_def cq_find_def dom_map_of_conv_image_fst [symmetric])

interpretation cqs: slot_store cq_wf slots cq_new add_queue erase_queue write_queue_if_exists
    write_all erase_all
proof unfold_locales
  fix s :: "('k::linorder, 'v) condition_queues" and v :: 'v
  assume "cq_wf s"
  then have "card (fst ` set (cq_store s)) = length (cq_store s)"
    by (metis cq_wf_def distinct_card length_map set_map)
  then show "snd (write_all v s) = card (dom (slots s))"
    by (simp add: write_all_def write_fold_sels dom_slots)
next
  fix s :: "('k::linorder, 'v) condition_queues" and k v
  assume wf: "cq_wf s"
  have none: "slots s k = None \<longleftrightarrow> cq_find s k = None" by (simp add: slots_def)
  show "slots (fst (write_queue_if_exists k v s)) =
      (case slots s k of None \<Rightarrow> slots s | Some q \<Rightarrow> (slots s)(k \<mapsto> q @ [v]))"
    using slots_update [OF wf, of k]
    by (auto simp: write_queue_if_exists_def cell_ops slots_def [of s k] split: option.splits)
  show "snd (write_queue_if_exists k v s) \<longleftrightarrow> slots s k \<noteq> None"
    by (simp add: write_queue_if_exists_def none split: option.splits)
  show "cq_wf (fst (write_queue_if_exists k v s))"
    using wf by (simp add: write_queue_if_exists_def cell_ops split: option.splits)
qed (simp_all add: inv_intros slots_add slots_erase slots_write_all slots_def [of cq_new]
    slots_def [of "erase_all _"] fun_eq_iff cq_find_erase_all)

subsection \<open>Threads\<close>

text \<open>
  One step per critical section. A reader finds its cell under the lock of the map, then enters
  under the lock of the cell: it resets the flag and either leaves at once or starts to wait. A
  waiting reader leaves when the predicate holds, or after a timeout. \<open>write_queue_if_exists\<close>
  finds the cell and pushes in two separate sections; every other operation is one section.
  The fields \<open>cf_pushed\<close> and \<open>cf_popped\<close> record what went into and came out of each cell.
\<close>

datatype 'v thread =
    Idle
  | Found_read nat
  | Waiting nat
  | Found_write nat 'v
  | Returned wait_result "'v option"

record ('k, 'v) config =
  cf_queues :: "('k, 'v) condition_queues"
  cf_thread :: "nat \<Rightarrow> 'v thread"
  cf_pushed :: "nat \<Rightarrow> 'v list"
  cf_popped :: "nat \<Rightarrow> 'v list"

definition cf_new :: "('k, 'v) config" where
  "cf_new = \<lparr> cf_queues = cq_new, cf_thread = (\<lambda>_. Idle), cf_pushed = (\<lambda>_. []), cf_popped = (\<lambda>_. []) \<rparr>"

definition set_thread :: "nat \<Rightarrow> 'v thread \<Rightarrow> ('k, 'v) config \<Rightarrow> ('k, 'v) config" where
  "set_thread t th c = c\<lparr> cf_thread := (cf_thread c)(t := th) \<rparr>"

definition push_at :: "nat \<Rightarrow> 'v \<Rightarrow> ('k, 'v) config \<Rightarrow> ('k, 'v) config" where
  "push_at a d c =
     c\<lparr> cf_queues := push_value_data a d (cf_queues c),
        cf_pushed := (cf_pushed c)(a := cf_pushed c a @ [d]) \<rparr>"

definition leave_at :: "nat \<Rightarrow> nat \<Rightarrow> bool \<Rightarrow> ('k, 'v) config \<Rightarrow> ('k, 'v) config" where
  "leave_at t a res c =
     (case read_leave a res (cf_queues c) of (q, w, r) \<Rightarrow>
        set_thread t (Returned w r)
          (c\<lparr> cf_queues := q,
              cf_popped := (cf_popped c)(a := cf_popped c a @ (case r of None \<Rightarrow> [] | Some v \<Rightarrow> [v])) \<rparr>))"

definition enter_at :: "nat \<Rightarrow> ('k, 'v) config \<Rightarrow> ('k, 'v) config" where
  "enter_at a c = c\<lparr> cf_queues := reader_enter a (cf_queues c) \<rparr>"

inductive cq_step :: "('k::linorder, 'v) config \<Rightarrow> ('k, 'v) config \<Rightarrow> bool" where
  add: "cq_step c (c\<lparr> cf_queues := add_queue k (cf_queues c) \<rparr>)"
| erase: "cq_step c (c\<lparr> cf_queues := erase_queue k (cf_queues c) \<rparr>)"
| erase_all: "cq_step c (c\<lparr> cf_queues := erase_all (cf_queues c) \<rparr>)"
| cancel_all: "cq_step c (c\<lparr> cf_queues := cancel_all (cf_queues c) \<rparr>)"
| cancel: "cq_find (cf_queues c) k = Some a \<Longrightarrow>
    cq_step c (c\<lparr> cf_queues := cancel_value a (cf_queues c) \<rparr>)"
| put: "cq_find (cf_queues c) k = Some a \<Longrightarrow> cq_step c (push_at a d c)"
| put_all: "cq_step c (c\<lparr> cf_queues := fst (write_all d (cf_queues c)),
      cf_pushed := (\<lambda>a. if a \<in> snd ` set (cq_store (cf_queues c)) then cf_pushed c a @ [d]
                         else cf_pushed c a) \<rparr>)"
| write_find: "cf_thread c t = Idle \<Longrightarrow> cq_find (cf_queues c) k = Some a \<Longrightarrow>
    cq_step c (set_thread t (Found_write a d) c)"
| write_push: "cf_thread c t = Found_write a d \<Longrightarrow> cq_step c (set_thread t Idle (push_at a d c))"
| read_find: "cf_thread c t = Idle \<Longrightarrow> cq_find (cf_queues c) k = Some a \<Longrightarrow>
    cq_step c (set_thread t (Found_read a) c)"
| read_now: "cf_thread c t = Found_read a \<Longrightarrow> hv_data (cq_heap (cf_queues c) a) \<noteq> [] \<Longrightarrow>
    cq_step c (leave_at t a True (enter_at a c))"
| read_wait: "cf_thread c t = Found_read a \<Longrightarrow> hv_data (cq_heap (cf_queues c) a) = [] \<Longrightarrow>
    cq_step c (set_thread t (Waiting a) (enter_at a c))"
| read_wake: "cf_thread c t = Waiting a \<Longrightarrow> queue_empty_predicate (cf_queues c) a \<Longrightarrow>
    cq_step c (leave_at t a True c)"
| read_timeout: "cf_thread c t = Waiting a \<Longrightarrow> \<not> queue_empty_predicate (cf_queues c) a \<Longrightarrow>
    cq_step c (leave_at t a False c)"
| again: "cf_thread c t = Returned w r \<Longrightarrow> cq_step c (set_thread t Idle c)"

abbreviation cq_steps :: "('k::linorder, 'v) config \<Rightarrow> ('k, 'v) config \<Rightarrow> bool" where
  "cq_steps \<equiv> cq_step\<^sup>*\<^sup>*"

subsection \<open>The invariant\<close>

fun thread_ok :: "('k, 'v) condition_queues \<Rightarrow> 'v thread \<Rightarrow> bool" where
  "thread_ok s Idle = True"
| "thread_ok s (Found_read a) = (a < cq_next s)"
| "thread_ok s (Waiting a) = (a < cq_next s)"
| "thread_ok s (Found_write a d) = (a < cq_next s)"
| "thread_ok s (Returned w r) = (w = WAIT_RESULT_SUCCESS \<longleftrightarrow> r \<noteq> None)"

definition cells_ok :: "('k, 'v) config \<Rightarrow> bool" where
  "cells_ok c \<longleftrightarrow>
     (\<forall>a. cf_pushed c a = cf_popped c a @ hv_data (cq_heap (cf_queues c) a)
        \<and> (cf_pushed c a \<noteq> [] \<longrightarrow> a < cq_next (cf_queues c)))"

definition config_ok :: "('k::linorder, 'v) config \<Rightarrow> bool" where
  "config_ok c \<longleftrightarrow> cq_wf (cf_queues c) \<and> cells_ok c \<and> (\<forall>t. thread_ok (cf_queues c) (cf_thread c t))"

text \<open>An operation on the map alone: cells keep their data, addresses are never taken back.\<close>

lemma thread_ok_mono: "thread_ok s th \<Longrightarrow> cq_next s \<le> cq_next s' \<Longrightarrow> thread_ok s' th"
  by (cases th) auto

lemma config_ok_map_op:
  assumes "config_ok c" and "cq_wf s" and "cq_next (cf_queues c) \<le> cq_next s"
    and "\<And>a. hv_data (cq_heap s a) = hv_data (cq_heap (cf_queues c) a)"
  shows "config_ok (c\<lparr> cf_queues := s \<rparr>)"
proof -
  have "a < cq_next s" if "cf_pushed c a \<noteq> []" for a
    using assms(1,3) that by (meson cells_ok_def config_ok_def less_le_trans)
  then have "cells_ok (c\<lparr> cf_queues := s \<rparr>)"
    using assms(1,4) unfolding config_ok_def cells_ok_def by auto
  with assms thread_ok_mono [of "cf_queues c" _ s] show ?thesis by (simp add: config_ok_def)
qed

lemma config_ok_set_thread:
  "config_ok c \<Longrightarrow> thread_ok (cf_queues c) th \<Longrightarrow> config_ok (set_thread t th c)"
  by (simp add: config_ok_def cells_ok_def set_thread_def)

lemma config_ok_push: "config_ok c \<Longrightarrow> a < cq_next (cf_queues c) \<Longrightarrow> config_ok (push_at a d c)"
  by (auto simp: config_ok_def cells_ok_def push_at_def cell_ops intro: thread_ok_mono)

lemma config_ok_enter: "config_ok c \<Longrightarrow> config_ok (enter_at a c)"
  unfolding enter_at_def by (rule config_ok_map_op) (auto simp: cell_ops config_ok_def)

lemma read_leave_result:
  "read_leave a res s = (s', w, r) \<Longrightarrow> res = queue_empty_predicate s a \<Longrightarrow>
     (w = WAIT_RESULT_SUCCESS \<longleftrightarrow> r \<noteq> None) \<and> cq_next s' = cq_next s
     \<and> (case r of None \<Rightarrow> [] | Some v \<Rightarrow> [v]) @ hv_data (cq_heap s' a) = hv_data (cq_heap s a)
     \<and> (\<forall>b. b \<noteq> a \<longrightarrow> cq_heap s' b = cq_heap s b)"
  by (auto simp: read_leave_def Let_def cancel_res2wait_res_def queue_empty_predicate_def split: if_splits)

lemma config_ok_leave:
  assumes "config_ok c" and "res = queue_empty_predicate (cf_queues c) a"
  shows "config_ok (leave_at t a res c)"
proof -
  obtain q w r where l: "read_leave a res (cf_queues c) = (q, w, r)" by (metis prod_cases3)
  have wf: "cq_wf q" using assms(1) l read_leave_wf [of a res "cf_queues c"] by (simp add: config_ok_def)
  note r = read_leave_result [OF l assms(2)]
  let ?c = "c\<lparr> cf_queues := q,
      cf_popped := (cf_popped c)(a := cf_popped c a @ (case r of None \<Rightarrow> [] | Some v \<Rightarrow> [v])) \<rparr>"
  have "cells_ok ?c"
    using assms(1) r by (auto simp: config_ok_def cells_ok_def)
  then have "config_ok ?c"
    using assms(1) wf r thread_ok_mono [of "cf_queues c" _ q] by (auto simp: config_ok_def)
  then show ?thesis using r by (auto simp: leave_at_def l intro: config_ok_set_thread)
qed

lemma config_ok_add:
  assumes "config_ok c"
  shows "config_ok (c\<lparr> cf_queues := add_queue k (cf_queues c) \<rparr>)"
proof (rule config_ok_map_op [OF assms])
  have "hv_data (cq_heap (cf_queues c) (cq_next (cf_queues c))) = []"
    using assms unfolding config_ok_def cells_ok_def by (metis append_is_Nil_conv less_irrefl)
  then show "hv_data (cq_heap (add_queue k (cf_queues c)) a) = hv_data (cq_heap (cf_queues c) a)" for a
    by (simp add: add_queue_def hold_value_new_def split: option.splits)
  show "cq_wf (add_queue k (cf_queues c))" using assms by (simp add: config_ok_def add_queue_wf)
  show "cq_next (cf_queues c) \<le> cq_next (add_queue k (cf_queues c))"
    by (simp add: add_queue_def split: option.splits)
qed

lemma config_ok_put_all:
  assumes "config_ok c"
  shows "config_ok (c\<lparr> cf_queues := fst (write_all d (cf_queues c)),
      cf_pushed := (\<lambda>a. if a \<in> snd ` set (cq_store (cf_queues c)) then cf_pushed c a @ [d]
                         else cf_pushed c a) \<rparr>)"
proof -
  have wf: "cq_wf (cf_queues c)" using assms by (simp add: config_ok_def)
  then have "distinct (map snd (cq_store (cf_queues c)))"
    "\<forall>a \<in> snd ` set (cq_store (cf_queues c)). a < cq_next (cf_queues c)"
    by (simp_all add: cq_wf_def)
  then have "cells_ok (c\<lparr> cf_queues := fst (write_all d (cf_queues c)),
      cf_pushed := (\<lambda>a. if a \<in> snd ` set (cq_store (cf_queues c)) then cf_pushed c a @ [d]
                         else cf_pushed c a) \<rparr>)"
    using assms by (auto simp: config_ok_def cells_ok_def write_all_def write_fold_heap write_fold_sels)
  moreover have "thread_ok (fst (write_all d (cf_queues c))) th" if "thread_ok (cf_queues c) th" for th
    by (rule thread_ok_mono [OF that]) (simp add: write_all_def write_fold_sels)
  ultimately show ?thesis using assms write_all_wf [OF wf, of d] by (simp add: config_ok_def)
qed

lemma config_ok_step: "cq_step c c' \<Longrightarrow> config_ok c \<Longrightarrow> config_ok c'"
proof (induction rule: cq_step.induct)
  case (erase c k)
  then show ?case
    by (intro config_ok_map_op)
      (auto simp: config_ok_def erase_queue_wf, auto simp: erase_queue_def cell_ops Let_def split: option.splits)
next
  case (write_push c t a d)
  then have "a < cq_next (cf_queues c)" by (metis config_ok_def thread_ok.simps(4))
  with write_push show ?case by (simp add: config_ok_set_thread config_ok_push)
next
  case (read_now c t a)
  then show ?case
    by (intro config_ok_leave config_ok_enter) (simp_all add: enter_at_def cell_ops queue_empty_predicate_def)
next
  case (read_wait c t a)
  then have "a < cq_next (cf_queues c)" by (metis config_ok_def thread_ok.simps(2))
  with read_wait show ?case
    by (intro config_ok_set_thread config_ok_enter) (simp_all add: enter_at_def cell_ops)
next
  case (erase_all c)
  then show ?case
    by (intro config_ok_map_op) (auto simp: config_ok_def erase_all_wf, auto simp: erase_all_def cancel_all_def)
next
  case (cancel_all c)
  then show ?case
    by (intro config_ok_map_op) (auto simp: config_ok_def cancel_all_wf, auto simp: cancel_all_def)
next
  case (cancel c k a)
  then show ?case by (intro config_ok_map_op) (auto simp: config_ok_def cell_ops)
next
  case (put c k a d)
  then have "a < cq_next (cf_queues c)" by (auto simp: config_ok_def dest: find_less_next)
  with put show ?case by (simp add: config_ok_push)
next
  case (write_find c t k a d)
  then have "a < cq_next (cf_queues c)" by (auto simp: config_ok_def dest: find_less_next)
  with write_find show ?case by (simp add: config_ok_set_thread)
next
  case (read_find c t k a)
  then have "a < cq_next (cf_queues c)" by (auto simp: config_ok_def dest: find_less_next)
  with read_find show ?case by (simp add: config_ok_set_thread)
qed (simp_all add: config_ok_add config_ok_put_all config_ok_leave config_ok_set_thread)

lemma config_ok_new: "config_ok cf_new"
  by (simp add: config_ok_def cells_ok_def cf_new_def cq_new_wf) (simp add: cq_new_def hold_value_new_def)

lemma config_ok_reachable: "cq_steps cf_new c \<Longrightarrow> config_ok c"
  by (induction rule: rtranclp_induct) (auto simp: config_ok_new intro: config_ok_step)

subsection \<open>Properties\<close>

text \<open>
  The slot store refines a finite map of queues: adding, erasing, writing to one slot,
  writing to all and erasing all act on the map from keys to waiting answers exactly as the names
  say; adding an existing slot changes nothing, a write to a missing slot is refused, and a
  broadcast reports the number of slots.
\<close>

theorem slots_refine_map:
  assumes "cq_wf s"
  shows "slots (add_queue k s) = (if slots s k = None then (slots s)(k \<mapsto> []) else slots s)
       \<and> slots (erase_queue k s) = (slots s)(k := None)
       \<and> slots (fst (write_queue_if_exists k v s)) =
           (case slots s k of None \<Rightarrow> slots s | Some q \<Rightarrow> (slots s)(k \<mapsto> q @ [v]))
       \<and> (snd (write_queue_if_exists k v s) \<longleftrightarrow> slots s k \<noteq> None)
       \<and> slots (fst (write_all v s)) = (\<lambda>k. map_option (\<lambda>q. q @ [v]) (slots s k))
       \<and> snd (write_all v s) = card (dom (slots s))
       \<and> slots (erase_all s) = (\<lambda>k. None)"
  by (intro conjI cqs.view_add cqs.view_erase cqs.view_write cqs.write_result cqs.view_broadcast
      cqs.broadcast_result cqs.view_clear assms)

theorem slots_refine_map_witness:
  "slots (add_queue (3 :: nat) (add_queue 5 (cq_new :: (nat, nat) condition_queues)))
     = [3 \<mapsto> [], 5 \<mapsto> []]"
proof -
  let ?s = "add_queue (5 :: nat) (cq_new :: (nat, nat) condition_queues)"
  have "cq_wf ?s" by (simp add: add_queue_wf cq_new_wf)
  from conjunct1 [OF slots_refine_map [OF this, of 3 0]]
    conjunct1 [OF slots_refine_map [OF cq_new_wf, of "5 :: nat" "0 :: nat"]]
  show ?thesis by (simp add: slots_def [of cq_new] fun_eq_iff)
qed

text \<open>
  C8. However readers, writers, cancellations, erasures and timeouts interleave, every slot is a
  queue: what readers took, in the order they took it, followed by what still waits, is what was
  written. No answer is lost, duplicated or reordered, and a reader that reports success has an
  answer while one that reports a timeout or a cancellation has taken none.
\<close>

theorem slot_fifo:
  assumes "cq_steps cf_new c"
  shows "cf_pushed c a = cf_popped c a @ hv_data (cq_heap (cf_queues c) a)
       \<and> (cf_thread c t = Returned w r \<longrightarrow> (w = WAIT_RESULT_SUCCESS \<longleftrightarrow> r \<noteq> None))"
  using config_ok_reachable [OF assms] unfolding config_ok_def cells_ok_def
  by (metis thread_ok.simps(5))

theorem slot_fifo_witness:
  "\<exists>c. cq_steps (cf_new :: (nat, nat) config) c \<and> cf_pushed c 0 = [7] \<and> cf_popped c 0 = []
     \<and> cf_pushed c 0 = cf_popped c 0 @ hv_data (cq_heap (cf_queues c) 0)"
proof -
  let ?c1 = "cf_new\<lparr> cf_queues := add_queue 3 (cf_queues cf_new) \<rparr> :: (nat, nat) config"
  have f: "cq_find (cf_queues ?c1) 3 = Some 0"
    by (simp add: cf_new_def cq_new_def add_queue_def cq_find_def)
  have "cq_step cf_new ?c1" by (rule cq_step.add)
  moreover have "cq_step ?c1 (push_at 0 7 ?c1)" using f by (rule cq_step.put)
  ultimately have r: "cq_steps cf_new (push_at 0 7 ?c1)" by (metis rtranclp.simps)
  have "cf_pushed (push_at 0 7 ?c1) 0 = [7]" "cf_popped (push_at 0 7 ?c1) 0 = []"
    by (simp_all add: push_at_def cf_new_def)
  with r slot_fifo [OF r, of 0] show ?thesis by blast
qed

text \<open>
  A cancellation that falls between the moment a reader has found its slot and the moment it
  starts to wait is lost: entering resets the flag, and the reader waits in exactly the state it
  would wait in had nobody cancelled it.
\<close>

theorem cancel_before_wait_is_lost:
  assumes "cf_thread c t = Found_read a" and "hv_data (cq_heap (cf_queues c) a) = []"
    and "\<not> hv_canceled (cq_heap (cf_queues c) a)" and "cq_find (cf_queues c) k = Some a"
  shows "\<exists>c1. cq_step c c1 \<and> hv_canceled (cq_heap (cf_queues c1) a)
           \<and> cq_step c1 (set_thread t (Waiting a) c)"
proof -
  let ?c1 = "c\<lparr> cf_queues := cancel_value a (cf_queues c) \<rparr>"
  have "cq_step c ?c1" using assms(4) by (rule cq_step.cancel)
  moreover have "cq_step ?c1 (set_thread t (Waiting a) (enter_at a ?c1))"
    using assms by (intro cq_step.read_wait) (simp_all add: cell_ops)
  moreover have "reader_enter a (cancel_value a (cf_queues c)) = cf_queues c"
    using assms(3)
    by (cases "cf_queues c"; cases "cq_heap (cf_queues c) a") (auto simp: cell_ops cq_update_def fun_eq_iff)
  then have "enter_at a ?c1 = c" by (simp add: enter_at_def)
  ultimately show ?thesis by (auto simp: cell_ops)
qed

theorem cancel_before_wait_is_lost_witness:
  "let c = cf_new\<lparr> cf_queues := add_queue (3 :: nat) cq_new, cf_thread := (\<lambda>_. Found_read 0) \<rparr>
   in \<exists>c1. cq_step c c1 \<and> hv_canceled (cq_heap (cf_queues c1) 0)
        \<and> cq_step c1 (set_thread 0 (Waiting 0 :: nat thread) c)"
  unfolding Let_def
  by (rule cancel_before_wait_is_lost [where k = 3])
    (simp_all add: cq_new_def add_queue_def cq_find_def hold_value_new_def)

end
