(* ===== verification/Protocol_Layer.thy ===== *)
theory Protocol_Layer
  imports Rpc_Types Condition_Queues Lowlevel
begin

text \<open>
  The part of the protocol both sides share, \<open>lib/vtrc/common/protocol-layer.cpp\<close>: identifiers of
  calls, the slots in which callers wait for answers, and the execution of a call that arrived
  (\<open>make_local_call\<close>), with the closure object that sends the answer.

  What the layer hands to the connection is kept in order in \<open>pl_sent\<close>, and every call of the
  \<open>done\<close> function a caller of \<open>make_local_call\<close> supplied in \<open>pl_done\<close>. Services are an argument:
  what a method does is described by how it used its closure, the controller and the response it
  leaves, and the exception it raised, if any.
\<close>

subsection \<open>State and slots\<close>

record protocol_layer =
  pl_rpc_queue :: "(u64, lowlevel_unit) condition_queues"
  pl_rpc_index :: u64
  pl_session_opts :: session_options
  pl_lowlevel :: default_protocol
  pl_ready :: bool
  pl_sent :: "lowlevel_unit list"
  pl_done :: "error_container list"

definition pl_new :: "bool \<Rightarrow> session_options \<Rightarrow> protocol_layer" where
  "pl_new oddside opts =
     \<lparr> pl_rpc_queue = cq_new, pl_rpc_index = (if oddside then 101 else 100), pl_session_opts = opts,
       pl_lowlevel = dp_new, pl_ready = False, pl_sent = [], pl_done = [] \<rparr>"

definition pl_configure_session :: "session_options \<Rightarrow> protocol_layer \<Rightarrow> protocol_layer" where
  "pl_configure_session opts p =
     p\<lparr> pl_session_opts := opts, pl_lowlevel := dp_configure opts (pl_lowlevel p) \<rparr>"

definition pl_set_ready :: "bool \<Rightarrow> protocol_layer \<Rightarrow> protocol_layer" where
  "pl_set_ready r p = p\<lparr> pl_ready := r \<rparr>"

definition pl_set_lowlevel :: "default_protocol \<Rightarrow> protocol_layer \<Rightarrow> protocol_layer" where
  "pl_set_lowlevel ll p = p\<lparr> pl_lowlevel := dp_configure (pl_session_opts p) ll \<rparr>"

definition send_message :: "lowlevel_unit \<Rightarrow> protocol_layer \<Rightarrow> protocol_layer" where
  "send_message llu p = p\<lparr> pl_sent := pl_sent p @ [llu] \<rparr>"

definition next_index :: "protocol_layer \<Rightarrow> protocol_layer \<times> u64" where
  "next_index p = (let i = pl_rpc_index p + 2 in (p\<lparr> pl_rpc_index := i \<rparr>, i))"

definition push_rpc_message :: "u64 \<Rightarrow> lowlevel_unit \<Rightarrow> protocol_layer \<Rightarrow> protocol_layer \<times> nat" where
  "push_rpc_message slot mess p =
     (case write_queue_if_exists slot mess (pl_rpc_queue p) of
        (q, b) \<Rightarrow> (p\<lparr> pl_rpc_queue := q \<rparr>, if b then 1 else 0))"

definition push_rpc_message_all :: "lowlevel_unit \<Rightarrow> protocol_layer \<Rightarrow> protocol_layer \<times> nat" where
  "push_rpc_message_all mess p =
     (case write_all mess (pl_rpc_queue p) of (q, n) \<Rightarrow> (p\<lparr> pl_rpc_queue := q \<rparr>, n))"

definition call_rpc_method_slot :: "u64 \<Rightarrow> lowlevel_unit \<Rightarrow> protocol_layer \<Rightarrow> protocol_layer \<times> (exn + unit)" where
  "call_rpc_method_slot slot llu p =
     (if \<not> pl_ready p then (p, Inl (rpc_exception ERR_COMM))
      else (send_message llu (p\<lparr> pl_rpc_queue := add_queue slot (pl_rpc_queue p) \<rparr>), Inr ()))"

definition call_rpc_method :: "lowlevel_unit \<Rightarrow> protocol_layer \<Rightarrow> protocol_layer \<times> (exn + unit)" where
  "call_rpc_method llu p =
     (if \<not> pl_ready p then (p, Inl (rpc_exception ERR_COMM)) else (send_message llu p, Inr ()))"

text \<open>\<open>mess\<close> is the unit the caller passed in; it is replaced by an answer if there was one, and a
  wait that did not succeed is reported in its error code.\<close>

definition read_slot_for ::
    "(u64, lowlevel_unit) call_wait \<Rightarrow> u64 \<Rightarrow> lowlevel_unit \<Rightarrow> protocol_layer \<Rightarrow>
     protocol_layer \<times> (exn + lowlevel_unit)" where
  "read_slot_for call_wait slot mess p =
     (case read_impl call_wait slot (pl_rpc_queue p) of
        (q, Inl e) \<Rightarrow> (p\<lparr> pl_rpc_queue := q \<rparr>, Inl e)
      | (q, Inr (w, r)) \<Rightarrow>
          (let top = (case r of Some m \<Rightarrow> m | None \<Rightarrow> mess);
               top = (if w = WAIT_RESULT_SUCCESS then top
                      else llu_set_code (if w = WAIT_RESULT_CANCELED then ERR_CANCELED
                                         else ERR_TIMEOUT) top)
           in (p\<lparr> pl_rpc_queue := q \<rparr>, Inr top)))"

definition close_slot :: "u64 \<Rightarrow> protocol_layer \<Rightarrow> protocol_layer" where
  "close_slot slot p = p\<lparr> pl_rpc_queue := erase_queue slot (pl_rpc_queue p) \<rparr>"

definition cancel_slot :: "u64 \<Rightarrow> protocol_layer \<Rightarrow> protocol_layer \<times> (exn + unit)" where
  "cancel_slot slot p =
     (case cancel_queue slot (pl_rpc_queue p) of (q, r) \<Rightarrow> (p\<lparr> pl_rpc_queue := q \<rparr>, r))"

definition slot_exists :: "u64 \<Rightarrow> protocol_layer \<Rightarrow> bool" where
  "slot_exists slot p = queue_exists (pl_rpc_queue p) slot"

definition erase_all_slots :: "protocol_layer \<Rightarrow> protocol_layer" where
  "erase_all_slots p = p\<lparr> pl_rpc_queue := erase_all (pl_rpc_queue p) \<rparr>"

definition cancel_all_slots :: "protocol_layer \<Rightarrow> protocol_layer" where
  "cancel_all_slots p = p\<lparr> pl_rpc_queue := cancel_all (pl_rpc_queue p) \<rparr>"

text \<open>A transport error ends every pending call.\<close>

definition on_system_error :: "nat \<Rightarrow> string \<Rightarrow> protocol_layer \<Rightarrow> protocol_layer" where
  "on_system_error code add p =
     (let llu = llu_new\<lparr> llu_error := \<lparr> ec_code = code, ec_category = CATEGORY_SYSTEM,
                                          ec_fatal = True, ec_additional = add \<rparr> \<rparr>
      in fst (push_rpc_message_all llu (pl_set_ready False p)))"

definition on_write_error :: "nat \<Rightarrow> protocol_layer \<Rightarrow> protocol_layer" where
  "on_write_error code = on_system_error code ''Transport write error.''"

definition on_read_error :: "nat \<Rightarrow> protocol_layer \<Rightarrow> protocol_layer" where
  "on_read_error code = on_system_error code ''Transport read error.''"

subsection \<open>Local calls\<close>

text \<open>The closure object a method receives is run normally, while an exception unwinds the stack,
  or not before the method returns.\<close>

datatype closure_use = Not_run | Run_normal | Run_unwinding

record method_result =
  mr_use :: closure_use
  mr_controller :: rpc_controller
  mr_response :: bytes
  mr_exn :: "exn option"

type_synonym service_method = "bytes \<Rightarrow> method_result"
type_synonym service = "string \<Rightarrow> service_method option"
type_synonym services = "string \<Rightarrow> service option"

text \<open>\<open>closure_holder_type\<close>: \<open>ch_bound\<close> says that \<open>llu_\<close> and \<open>connection_\<close> are set,
  \<open>ch_closure\<close> that \<open>proto_closure_\<close> is not null, \<open>ch_internal\<close> that \<open>internal_closure_\<close> holds a
  function.\<close>

record closure_holder =
  ch_llu :: lowlevel_unit
  ch_bound :: bool
  ch_controller :: rpc_controller
  ch_response :: bytes
  ch_closure :: bool
  ch_internal :: bool

definition call_done_function :: "error_container \<Rightarrow> protocol_layer \<Rightarrow> protocol_layer" where
  "call_done_function err p = p\<lparr> pl_done := pl_done p @ [err] \<rparr>"

text \<open>The destructor of the holder; \<open>alive\<close> tells whether the connection still exists.\<close>

definition call_internal :: "bool \<Rightarrow> closure_holder \<Rightarrow> protocol_layer \<Rightarrow> protocol_layer" where
  "call_internal alive h p =
     (if ch_internal h \<and> ch_bound h \<and> alive then call_done_function (llu_error (ch_llu h)) p else p)"

definition closure_done :: "closure_holder \<Rightarrow> protocol_layer \<Rightarrow> closure_holder \<times> protocol_layer" where
  "closure_done h p =
     (let c = ch_controller h;
          failed = (rc_canceled c \<or> rc_failed c);
          errorcode = (if rc_canceled c then ERR_CANCELED else ERR_CALL_FAILED);
          llu = (llu_clear_call (ch_llu h))\<lparr> llu_request := [], llu_channel_data := [] \<rparr>;
          llu = (if failed
                 then let llu = (llu_set_code errorcode llu)\<lparr> llu_response := [] \<rparr>
                      in (if rc_error_string c \<noteq> [] then llu_set_additional (rc_error_string c) llu
                          else llu)
                 else if uo_accept_response (llu_opt llu)
                 then llu\<lparr> llu_response := ch_response h \<rparr> else llu)
      in (h\<lparr> ch_llu := llu \<rparr>, send_message llu p))"

definition closure_runner ::
    "bool \<Rightarrow> bool \<Rightarrow> bool \<Rightarrow> closure_holder \<Rightarrow> protocol_layer \<Rightarrow> closure_holder \<times> protocol_layer" where
  "closure_runner alive uncaught in_context h p =
     (if \<not> ch_closure h then (h, p)
      else
        (let h = h\<lparr> ch_closure := False \<rparr> in
         if \<not> alive then (h, p)
         else if \<not> uncaught then closure_done h p
         else if \<not> in_context
         then closure_done (h\<lparr> ch_controller :=
                SetFailed ''Uncaught exception while running closure'' (ch_controller h) \<rparr>) p
         else (h, p)))"

text \<open>A closure that outlives its call: running it releases the last reference to the holder.\<close>

definition run_pending ::
    "bool \<Rightarrow> bool \<Rightarrow> bool \<Rightarrow> closure_holder \<Rightarrow> protocol_layer \<Rightarrow> protocol_layer" where
  "run_pending alive uncaught in_context h p =
     (case closure_runner alive uncaught in_context h p of (h', p') \<Rightarrow> call_internal alive h' p')"

definition make_local_call_impl ::
    "bool \<Rightarrow> nat \<Rightarrow> services \<Rightarrow> closure_holder \<Rightarrow> protocol_layer \<Rightarrow>
     closure_holder \<times> protocol_layer \<times> (exn + unit)" where
  "make_local_call_impl alive depth services h p =
     (if depth > unat (so_max_stack_size (pl_session_opts p))
      then (h, p, Inl (rpc_exception ERR_OVERFLOW))
      else case services (llu_service_id (ch_llu h)) of
        None \<Rightarrow> (h, p, Inl (rpc_exception_msg ERR_BAD_FILE ''Service not found''))
      | Some service \<Rightarrow>
          (case service (llu_method_id (ch_llu h)) of
             None \<Rightarrow> (h, p, Inl (rpc_exception_msg ERR_NO_FUNC ''Method not found''))
           | Some meth \<Rightarrow>
               (let r = meth (llu_request (ch_llu h));
                    h = h\<lparr> ch_bound := True, ch_closure := True,
                           ch_controller := mr_controller r, ch_response := mr_response r \<rparr>;
                    (h, p) = (case mr_use r of
                                Not_run \<Rightarrow> (h, p)
                              | Run_normal \<Rightarrow> closure_runner alive False True h p
                              | Run_unwinding \<Rightarrow> closure_runner alive True True h p)
                in (h, p, case mr_exn r of None \<Rightarrow> Inr () | Some e \<Rightarrow> Inl e))))"

text \<open>The three \<open>catch\<close> clauses. Only the code and the text of an exception are kept.\<close>

fun caught_error :: "exn \<Rightarrow> nat \<times> string" where
  "caught_error (Rpc_exception code category additional) = (code, additional)"
| "caught_error (Length_error what) = (ERR_INTERNAL, what)"
| "caught_error (Logic_error what) = (ERR_INTERNAL, what)"
| "caught_error (Out_of_range what) = (ERR_INTERNAL, what)"
| "caught_error (Runtime_error what) = (ERR_INTERNAL, what)"
| "caught_error Other_exception = (ERR_UNKNOWN, ''...'')"
| "caught_error Undefined = (ERR_UNKNOWN, ''...'')"

definition holder_new :: "bool \<Rightarrow> lowlevel_unit \<Rightarrow> closure_holder" where
  "holder_new has_done llu =
     \<lparr> ch_llu = llu, ch_bound = False, ch_controller = controller_new, ch_response = [],
       ch_closure = False, ch_internal = has_done \<rparr>"

text \<open>What a caller sees of an exception on the other side.\<close>

definition carried :: "exn \<Rightarrow> exn" where
  "carried e = (case caught_error e of (code, additional) \<Rightarrow> Rpc_exception code CATEGORY_INTERNAL additional)"

definition remote :: "'s \<times> (exn + 'a) \<Rightarrow> 's \<times> (exn + 'a)" where
  "remote r = (case r of (s, Inl e) \<Rightarrow> (s, Inl (carried e)) | (s, Inr x) \<Rightarrow> (s, Inr x))"

text \<open>The closure object refers to the holder, so a holder whose closure was not run survives the
  call; it is the second component of the result.\<close>

definition make_local_call ::
    "bool \<Rightarrow> bool \<Rightarrow> nat \<Rightarrow> services \<Rightarrow> lowlevel_unit \<Rightarrow> protocol_layer \<Rightarrow>
     protocol_layer \<times> closure_holder option" where
  "make_local_call alive has_done depth services llu p =
     (case make_local_call_impl alive depth services (holder_new has_done llu) p of
        (h, p, r) \<Rightarrow>
          (let (h, p) =
             (case r of
                Inr _ \<Rightarrow> (h, p)
              | Inl e \<Rightarrow>
                  (let (code, text) = caught_error e;
                       llu = (llu_set_code code (llu_set_additional text (ch_llu h)))\<lparr> llu_response := [] \<rparr>;
                       h = h\<lparr> ch_llu := llu \<rparr>
                   in if uo_wait (llu_opt llu)
                      then let p = send_message llu p in
                           (h\<lparr> ch_internal := False \<rparr>,
                            if has_done then call_done_function (llu_error llu) p else p)
                      else (h, p)))
           in if ch_closure h then (p, Some h) else (call_internal alive h p, None)))"

subsection \<open>Identifiers\<close>

fun take_indices :: "nat \<Rightarrow> protocol_layer \<Rightarrow> u64 list" where
  "take_indices 0 p = []"
| "take_indices (Suc n) p = (case next_index p of (p', i) \<Rightarrow> i # take_indices n p')"

lemma take_indices_eq: "take_indices n p = map (\<lambda>k. pl_rpc_index p + of_nat (2 * Suc k)) [0..<n]"
proof (induction n arbitrary: p)
  case (Suc n)
  then show ?case
    unfolding map_upt_Suc by (simp add: next_index_def Let_def algebra_simps)
qed simp

lemma unat_index:
  "k < n \<Longrightarrow> b + 2 * n < 2 ^ 64 \<Longrightarrow> unat (of_nat b + of_nat (2 * Suc k) :: u64) = b + 2 * Suc k"
proof -
  assume "k < n" "b + 2 * n < 2 ^ 64"
  then have "b + 2 * Suc k < 2 ^ 64" by simp
  then show ?thesis
    using unat_of_nat_small [where 'a = 64, of "b + 2 * Suc k"] by (simp only: of_nat_add len_of_numeral_defs) simp
qed

lemma take_indices_unat:
  "unat (pl_rpc_index p) + 2 * n < 2 ^ 64 \<Longrightarrow>
     map unat (take_indices n p) = map (\<lambda>k. unat (pl_rpc_index p) + 2 * Suc k) [0..<n]"
  using unat_index [of _ n "unat (pl_rpc_index p)"] by (simp add: take_indices_eq del: mult_Suc_right)

subsection \<open>What a call is answered with\<close>

text \<open>A method that has finished when it returns: it ran its closure, or it raised.\<close>

definition finishes :: "method_result \<Rightarrow> bool" where
  "finishes r \<longleftrightarrow> (case mr_use r of Run_normal \<Rightarrow> mr_exn r = None | _ \<Rightarrow> mr_exn r \<noteq> None)"

text \<open>The abstract answer: an error code, or the bytes of the response.\<close>

definition method_answer :: "method_result \<Rightarrow> nat + bytes" where
  "method_answer r =
     (case mr_exn r of
        Some e \<Rightarrow> Inl (fst (caught_error e))
      | None \<Rightarrow> if rc_canceled (mr_controller r) then Inl ERR_CANCELED
                else if rc_failed (mr_controller r) then Inl ERR_CALL_FAILED
                else Inr (mr_response r))"

definition call_answer :: "nat \<Rightarrow> services \<Rightarrow> session_options \<Rightarrow> lowlevel_unit \<Rightarrow> nat + bytes" where
  "call_answer depth services opts llu =
     (if depth > unat (so_max_stack_size opts) then Inl ERR_OVERFLOW
      else case services (llu_service_id llu) of
        None \<Rightarrow> Inl ERR_BAD_FILE
      | Some service \<Rightarrow>
          (case service (llu_method_id llu) of
             None \<Rightarrow> Inl ERR_NO_FUNC
           | Some meth \<Rightarrow> method_answer (meth (llu_request llu))))"

definition call_finishes :: "services \<Rightarrow> lowlevel_unit \<Rightarrow> bool" where
  "call_finishes services llu \<longleftrightarrow>
     (\<forall>service meth. services (llu_service_id llu) = Some service \<longrightarrow>
        service (llu_method_id llu) = Some meth \<longrightarrow> finishes (meth (llu_request llu)))"

definition answer_unit :: "lowlevel_unit \<Rightarrow> nat + bytes \<Rightarrow> lowlevel_unit \<Rightarrow> bool" where
  "answer_unit llu ans a \<longleftrightarrow>
     llu_id a = llu_id llu \<and> llu_target_id a = llu_target_id llu \<and> llu_type a = llu_type llu
     \<and> (case ans of Inl code \<Rightarrow> ec_code (llu_error a) = code \<and> llu_response a = []
        | Inr resp \<Rightarrow> ec_code (llu_error a) = ec_code (llu_error llu)
            \<and> (uo_accept_response (llu_opt llu) \<longrightarrow> llu_response a = resp))"

lemma llu_set_sels [simp]:
  "llu_error (llu_set_code c u) = (llu_error u)\<lparr> ec_code := c \<rparr>"
  "llu_error (llu_set_additional t u) = (llu_error u)\<lparr> ec_additional := t \<rparr>"
  "llu_error (llu_clear_call u) = llu_error u"
  "llu_id (llu_set_code c u) = llu_id u" "llu_id (llu_set_additional t u) = llu_id u"
  "llu_id (llu_clear_call u) = llu_id u"
  "llu_target_id (llu_set_code c u) = llu_target_id u"
  "llu_target_id (llu_set_additional t u) = llu_target_id u"
  "llu_target_id (llu_clear_call u) = llu_target_id u"
  "llu_type (llu_set_code c u) = llu_type u" "llu_type (llu_set_additional t u) = llu_type u"
  "llu_type (llu_clear_call u) = llu_type u"
  "llu_opt (llu_set_code c u) = llu_opt u" "llu_opt (llu_set_additional t u) = llu_opt u"
  "llu_opt (llu_clear_call u) = llu_opt u"
  "llu_response (llu_set_code c u) = llu_response u"
  "llu_response (llu_set_additional t u) = llu_response u"
  "llu_response (llu_clear_call u) = llu_response u"
  by (simp_all add: llu_set_code_def llu_set_additional_def llu_clear_call_def)

lemma pl_log_sels [simp]:
  "pl_sent (send_message u p) = pl_sent p @ [u]" "pl_done (send_message u p) = pl_done p"
  "pl_sent (call_done_function e p) = pl_sent p"
  "pl_done (call_done_function e p) = pl_done p @ [e]"
  by (simp_all add: send_message_def call_done_function_def)

text \<open>One run of the closure of a bound holder.\<close>

lemma closure_done_answer:
  assumes "closure_done h p = (h', p')"
  shows "pl_sent p' = pl_sent p @ [ch_llu h'] \<and> pl_done p' = pl_done p
       \<and> ch_internal h' = ch_internal h \<and> ch_bound h' = ch_bound h \<and> ch_closure h' = ch_closure h
       \<and> answer_unit (ch_llu h)
           (if rc_canceled (ch_controller h) then Inl ERR_CANCELED
            else if rc_failed (ch_controller h) then Inl ERR_CALL_FAILED
            else Inr (ch_response h)) (ch_llu h')"
  using assms
  by (auto simp: closure_done_def Let_def answer_unit_def split: if_splits)

text \<open>A failed call that is waited for.\<close>

lemma failed_answer:
  "answer_unit llu (Inl (fst (caught_error e)))
     ((llu_set_code (fst (caught_error e)) (llu_set_additional (snd (caught_error e)) llu))\<lparr> llu_response := [] \<rparr>)"
  by (simp add: answer_unit_def)

definition answered :: "bool \<Rightarrow> lowlevel_unit \<Rightarrow> nat + bytes \<Rightarrow> protocol_layer \<Rightarrow> protocol_layer \<Rightarrow> bool" where
  "answered has_done llu ans p p' \<longleftrightarrow>
     (\<exists>a. pl_sent p' = pl_sent p @ [a] \<and> answer_unit llu ans a
        \<and> pl_done p' = pl_done p @ (if has_done then [llu_error a] else []))"

text \<open>Every exception ends in the same way.\<close>

lemma make_local_call_raises:
  assumes "make_local_call_impl alive depth services (holder_new has_done llu) p = (h, p, Inl e)"
    and "ch_llu h = llu" and "uo_wait (llu_opt llu)"
  shows "answered has_done llu (Inl (fst (caught_error e))) p
           (fst (make_local_call alive has_done depth services llu p))"
  using assms failed_answer [of llu e]
  by (cases "caught_error e")
    (auto simp: make_local_call_def answered_def Let_def call_internal_def split: prod.splits)

lemma make_local_call_returns:
  assumes "closure_done h p = (h', p')" and "ch_closure h = False" and "ch_bound h"
    and "make_local_call_impl True depth services (holder_new has_done llu) p = (h', p', Inr ())"
    and "ch_internal h = has_done" and "ch_llu h = llu"
  shows "answered has_done llu
           (if rc_canceled (ch_controller h) then Inl ERR_CANCELED
            else if rc_failed (ch_controller h) then Inl ERR_CALL_FAILED
            else Inr (ch_response h)) p
           (fst (make_local_call True has_done depth services llu p))"
  using assms(2-6) closure_done_answer [OF assms(1)]
  by (auto simp: make_local_call_def answered_def Let_def call_internal_def)

lemma local_call_answered:
  assumes wait: "uo_wait (llu_opt llu)" and fin: "call_finishes services llu"
  shows "answered has_done llu (call_answer depth services (pl_session_opts p) llu) p
           (fst (make_local_call True has_done depth services llu p))"
proof -
  let ?h = "holder_new has_done llu" and ?max = "unat (so_max_stack_size (pl_session_opts p))"
  have h: "ch_llu ?h = llu" by (simp add: holder_new_def)
  consider (deep) "depth > ?max"
    | (service) "\<not> depth > ?max" "services (llu_service_id llu) = None"
    | (meth) srv where "\<not> depth > ?max" "services (llu_service_id llu) = Some srv"
        "srv (llu_method_id llu) = None"
    | (found) srv m where "\<not> depth > ?max" "services (llu_service_id llu) = Some srv"
        "srv (llu_method_id llu) = Some m"
    by (metis option.exhaust)
  then show ?thesis
  proof cases
    case deep
    then show ?thesis
      using make_local_call_raises [of True depth services has_done llu p ?h "rpc_exception ERR_OVERFLOW"] wait h
      by (simp add: make_local_call_impl_def call_answer_def rpc_exception_def)
  next
    case service
    then show ?thesis
      using make_local_call_raises [of True depth services has_done llu p ?h
          "rpc_exception_msg ERR_BAD_FILE ''Service not found''"] wait h
      by (simp add: make_local_call_impl_def call_answer_def rpc_exception_msg_def)
  next
    case meth
    then show ?thesis
      using make_local_call_raises [of True depth services has_done llu p ?h
          "rpc_exception_msg ERR_NO_FUNC ''Method not found''"] wait h
      by (simp add: make_local_call_impl_def call_answer_def rpc_exception_msg_def)
  next
    case found
    let ?r = "m (llu_request llu)"
    let ?hb = "?h\<lparr> ch_bound := True, ch_closure := True, ch_controller := mr_controller ?r,
                    ch_response := mr_response ?r \<rparr>"
    have fr: "finishes ?r" using fin found by (simp add: call_finishes_def)
    show ?thesis
    proof (cases "mr_use ?r = Run_normal")
      case True
      then have none: "mr_exn ?r = None" using fr by (simp add: finishes_def)
      obtain h' p' where cd: "closure_done (?hb\<lparr> ch_closure := False \<rparr>) p = (h', p')" by fastforce
      have "make_local_call_impl True depth services ?h p = (h', p', Inr ())"
        using found True none cd h by (simp add: make_local_call_impl_def closure_runner_def Let_def)
      from make_local_call_returns [OF cd _ _ this] h found none show ?thesis
        by (auto simp: call_answer_def method_answer_def holder_new_def split: if_splits)
    next
      case False
      then obtain e where e: "mr_exn ?r = Some e"
        using fr by (cases "mr_use ?r") (auto simp: finishes_def)
      have "\<exists>h. make_local_call_impl True depth services ?h p = (h, p, Inl e) \<and> ch_llu h = llu"
        using found False e h
        by (cases "mr_use ?r") (auto simp: make_local_call_impl_def closure_runner_def Let_def)
      with found e wait show ?thesis
        using make_local_call_raises [of True depth services has_done llu p _ e]
        by (auto simp: call_answer_def method_answer_def)
    qed
  qed
qed

subsection \<open>Properties\<close>

text \<open>
  The identifiers the two sides give to their calls never collide: for any number of calls
  below \<open>2 ^ 62\<close> on each side they are all different, never zero, odd on the client and even on the
  server.
\<close>

theorem call_ids_unique:
  assumes "n < 2 ^ 62" and "m < 2 ^ 62"
  shows "distinct (take_indices n (pl_new True opts) @ take_indices m (pl_new False opts'))
       \<and> (\<forall>i \<in> set (take_indices n (pl_new True opts)). odd (unat i))
       \<and> (\<forall>i \<in> set (take_indices m (pl_new False opts')). even (unat i) \<and> i \<noteq> 0)"
proof -
  let ?c = "take_indices n (pl_new True opts)" and ?s = "take_indices m (pl_new False opts')"
  have c: "map unat ?c = map (\<lambda>k. 101 + 2 * Suc k) [0..<n]"
    using take_indices_unat [of "pl_new True opts" n] assms by (simp add: pl_new_def)
  have s: "map unat ?s = map (\<lambda>k. 100 + 2 * Suc k) [0..<m]"
    using take_indices_unat [of "pl_new False opts'" m] assms by (simp add: pl_new_def)
  have uc: "unat i \<in> set (map (\<lambda>k. 101 + 2 * Suc k) [0..<n])" if "i \<in> set ?c" for i
    using that by (metis c image_eqI set_map)
  have us: "unat i \<in> set (map (\<lambda>k. 100 + 2 * Suc k) [0..<m])" if "i \<in> set ?s" for i
    using that by (metis s image_eqI set_map)
  have "distinct (map unat ?c)" "distinct (map unat ?s)"
    unfolding c s by (simp_all add: distinct_map inj_on_def)
  then have "distinct ?c" "distinct ?s" by (simp_all add: distinct_map)
  moreover have odd: "\<forall>i \<in> set ?c. odd (unat i)" using uc by fastforce
  moreover have even: "\<forall>i \<in> set ?s. even (unat i) \<and> i \<noteq> 0" using us by fastforce
  moreover have "set ?c \<inter> set ?s = {}" using odd even by blast
  ultimately show ?thesis by simp
qed

theorem call_ids_unique_witness:
  "distinct (take_indices 3 (pl_new True default_session_options)
     @ take_indices 2 (pl_new False default_session_options))"
  using call_ids_unique [of 3 2 default_session_options default_session_options] by simp

text \<open>
  C10. A call that is waited for is answered exactly once, and its \<open>done\<close> function is run exactly
  once with the error of that answer: with the stack overflow, the missing service or the missing
  method, with the code of the exception the method raised, with the state of the controller, or
  with the response. The answer carries the identifiers and the type of the call.
\<close>

theorem local_call_answered_once:
  assumes "uo_wait (llu_opt llu)" and "call_finishes services llu"
    and "make_local_call True has_done depth services llu p = (p', pending)"
  shows "\<exists>a. pl_sent p' = pl_sent p @ [a]
           \<and> answer_unit llu (call_answer depth services (pl_session_opts p) llu) a
           \<and> pl_done p' = pl_done p @ (if has_done then [llu_error a] else [])"
  using local_call_answered [OF assms(1,2), of has_done depth p] assms(3)
  by (auto simp: answered_def)

theorem local_call_answered_once_witness:
  "let llu = llu_new\<lparr> llu_id := 103, llu_service_id := ''calc'', llu_opt := default_unit_options \<rparr>;
       p = pl_new False default_session_options
   in \<exists>a. pl_sent (fst (make_local_call True True 1 (\<lambda>_. None) llu p)) = [a]
        \<and> llu_id a = 103 \<and> ec_code (llu_error a) = ERR_BAD_FILE"
proof -
  let ?llu = "llu_new\<lparr> llu_id := 103, llu_service_id := ''calc'', llu_opt := default_unit_options \<rparr>"
  let ?p = "pl_new False default_session_options"
  obtain p' pend where m: "make_local_call True True 1 (\<lambda>_. None) ?llu ?p = (p', pend)" by fastforce
  have w: "uo_wait (llu_opt ?llu)" "call_finishes (\<lambda>_. None) ?llu"
    by (simp_all add: default_unit_options_def call_finishes_def)
  have "call_answer 1 (\<lambda>_. None) (pl_session_opts ?p) ?llu = Inl ERR_BAD_FILE" "pl_sent ?p = []"
    by (simp_all add: call_answer_def pl_new_def default_session_options_def)
  with local_call_answered_once [OF w m] m show ?thesis by (auto simp: answer_unit_def Let_def)
qed

text \<open>
  C27. A method that keeps its closure and runs it later, in whatever state the layer then is, is
  answered at that moment, exactly once, and its \<open>done\<close> function is run; nothing is sent before.
\<close>

theorem pending_call_answered_once:
  assumes "depth \<le> unat (so_max_stack_size (pl_session_opts p))"
    and "services (llu_service_id llu) = Some srv" and "srv (llu_method_id llu) = Some meth"
    and "mr_use (meth (llu_request llu)) = Not_run" and "mr_exn (meth (llu_request llu)) = None"
  shows "\<exists>h. make_local_call True has_done depth services llu p = (p, Some h)
           \<and> (\<forall>q. answered has_done llu (method_answer (meth (llu_request llu))) q
                    (run_pending True False in_context h q))"
proof -
  let ?r = "meth (llu_request llu)"
  let ?h = "(holder_new has_done llu)\<lparr> ch_bound := True, ch_closure := True,
              ch_controller := mr_controller ?r, ch_response := mr_response ?r \<rparr>"
  have "make_local_call True has_done depth services llu p = (p, Some ?h)"
    using assms by (simp add: make_local_call_def make_local_call_impl_def holder_new_def Let_def)
  moreover have "answered has_done llu (method_answer ?r) q (run_pending True False in_context ?h q)" for q
  proof -
    obtain h' q' where cd: "closure_done (?h\<lparr> ch_closure := False \<rparr>) q = (h', q')" by fastforce
    have "run_pending True False in_context ?h q = call_internal True h' q'"
      using cd by (simp add: run_pending_def closure_runner_def)
    with closure_done_answer [OF cd] assms(5) show ?thesis
      by (auto simp: answered_def call_internal_def method_answer_def holder_new_def split: if_splits)
  qed
  ultimately show ?thesis by blast
qed

theorem pending_call_answered_once_witness:
  "let llu = llu_new\<lparr> llu_id := 103 \<rparr>; p = pl_new False default_session_options;
       r = \<lparr> mr_use = Not_run, mr_controller = controller_new, mr_response = [9], mr_exn = None \<rparr>
   in \<exists>h. make_local_call True True 1 (\<lambda>_. Some (\<lambda>_. Some (\<lambda>_. r))) llu p = (p, Some h)
        \<and> answered True llu (Inr [9]) p (run_pending True False False h p)"
proof -
  let ?llu = "llu_new\<lparr> llu_id := 103 \<rparr>" and ?p = "pl_new False default_session_options"
  let ?r = "\<lparr> mr_use = Not_run, mr_controller = controller_new, mr_response = [9], mr_exn = None \<rparr>"
  have "method_answer ?r = Inr [9]" by (simp add: method_answer_def controller_new_def)
  moreover have "1 \<le> unat (so_max_stack_size (pl_session_opts ?p))"
    by (simp add: pl_new_def default_session_options_def)
  note pending_call_answered_once [OF this, where services = "\<lambda>_. Some (\<lambda>_. Some (\<lambda>_. ?r))"
      and llu = ?llu and srv = "\<lambda>_. Some (\<lambda>_. ?r)" and meth = "\<lambda>_. ?r" and has_done = True
      and in_context = False]
  ultimately show ?thesis unfolding Let_def by fastforce
qed

text \<open>
  C32. A transport error reaches every caller: the layer stops being ready, so that no further call
  is accepted, and every slot gets the fatal system error as its last entry.
\<close>

theorem system_error_reaches_all:
  assumes "cq_wf (pl_rpc_queue p)"
  shows "\<exists>m. ec_code (llu_error m) = code \<and> ec_fatal (llu_error m) \<and> ec_category (llu_error m) = CATEGORY_SYSTEM
           \<and> slots (pl_rpc_queue (on_system_error code add p))
               = (\<lambda>k. map_option (\<lambda>q. q @ [m]) (slots (pl_rpc_queue p) k))
           \<and> call_rpc_method_slot slot llu (on_system_error code add p)
               = (on_system_error code add p, Inl (rpc_exception ERR_COMM))"
proof -
  let ?m = "llu_new\<lparr> llu_error := \<lparr> ec_code = code, ec_category = CATEGORY_SYSTEM, ec_fatal = True,
                                    ec_additional = add \<rparr> \<rparr>"
  let ?p = "on_system_error code add p"
  have q: "pl_rpc_queue ?p = fst (write_all ?m (pl_rpc_queue p))" and r: "\<not> pl_ready ?p"
    by (simp_all add: on_system_error_def pl_set_ready_def push_rpc_message_all_def Let_def split: prod.splits)
  have "slots (pl_rpc_queue ?p) = (\<lambda>k. map_option (\<lambda>q. q @ [?m]) (slots (pl_rpc_queue p) k))"
    unfolding q by (rule cqs.view_broadcast [OF assms])
  with r show ?thesis by (intro exI [of _ ?m]) (simp add: call_rpc_method_slot_def)
qed

theorem system_error_reaches_all_witness:
  "\<exists>m. ec_code (llu_error m) = 104
     \<and> slots (pl_rpc_queue (on_system_error 104 ''reset'' (pl_new True default_session_options)))
         = (\<lambda>k. map_option (\<lambda>q. q @ [m]) (slots (pl_rpc_queue (pl_new True default_session_options)) k))"
proof -
  have "cq_wf (pl_rpc_queue (pl_new True default_session_options))"
    by (simp add: pl_new_def cq_new_wf)
  from system_error_reaches_all [OF this, of 104 "''reset''"] show ?thesis by blast
qed

text \<open>
  A method that runs its closure and then raises is answered twice: the closure has already
  sent the response when the exception is caught and reported in a second unit.
\<close>

theorem local_call_answered_twice:
  assumes "uo_wait (llu_opt llu)" and "depth \<le> unat (so_max_stack_size (pl_session_opts p))"
    and "services (llu_service_id llu) = Some srv" and "srv (llu_method_id llu) = Some meth"
    and "mr_use (meth (llu_request llu)) = Run_normal" and "mr_exn (meth (llu_request llu)) = Some e"
  shows "\<exists>a b. pl_sent (fst (make_local_call True has_done depth services llu p)) = pl_sent p @ [a, b]
           \<and> llu_id a = llu_id llu \<and> llu_id b = llu_id llu
           \<and> ec_code (llu_error b) = fst (caught_error e)"
proof -
  let ?r = "meth (llu_request llu)" and ?h = "holder_new has_done llu"
  let ?hb = "?h\<lparr> ch_bound := True, ch_closure := False, ch_controller := mr_controller ?r,
                  ch_response := mr_response ?r \<rparr>"
  obtain h' p' where cd: "closure_done ?hb p = (h', p')" by fastforce
  have "make_local_call_impl True depth services ?h p = (h', p', Inl e)"
    using assms cd by (simp add: make_local_call_impl_def closure_runner_def holder_new_def Let_def)
  moreover have "uo_wait (llu_opt (ch_llu h'))"
    using cd assms(1) by (auto simp: closure_done_def Let_def holder_new_def split: if_splits)
  ultimately show ?thesis
    using closure_done_answer [OF cd]
    by (cases "caught_error e")
      (auto simp: make_local_call_def Let_def call_internal_def answer_unit_def holder_new_def split: prod.splits)
qed

theorem local_call_answered_twice_witness:
  "let llu = llu_new\<lparr> llu_id := 103, llu_opt := default_unit_options \<rparr>;
       p = pl_new False default_session_options;
       r = \<lparr> mr_use = Run_normal, mr_controller = controller_new, mr_response = [9],
             mr_exn = Some (Runtime_error ''late'') \<rparr>
   in \<exists>a b. pl_sent (fst (make_local_call True True 1 (\<lambda>_. Some (\<lambda>_. Some (\<lambda>_. r))) llu p)) = [a, b]
        \<and> llu_id a = 103 \<and> llu_id b = 103 \<and> ec_code (llu_error b) = ERR_INTERNAL"
proof -
  let ?llu = "llu_new\<lparr> llu_id := 103, llu_opt := default_unit_options \<rparr>"
  let ?p = "pl_new False default_session_options"
  let ?r = "\<lparr> mr_use = Run_normal, mr_controller = controller_new, mr_response = [9],
             mr_exn = Some (Runtime_error ''late'') \<rparr>"
  have "uo_wait (llu_opt ?llu)" "1 \<le> unat (so_max_stack_size (pl_session_opts ?p))" "pl_sent ?p = []"
    by (simp_all add: default_unit_options_def pl_new_def default_session_options_def)
  then show ?thesis
    using local_call_answered_twice [of ?llu 1 ?p "\<lambda>_. Some (\<lambda>_. Some (\<lambda>_. ?r))" "\<lambda>_. Some (\<lambda>_. ?r)" "\<lambda>_. ?r"
        "Runtime_error ''late''" True] unfolding Let_def by fastforce
qed

end
