(* ===== verification/Message_Router.thy ===== *)
theory Message_Router
  imports Protocol_Layer
begin

text \<open>
  The contract both protocol layers (\<open>protocol-layer-s.cpp\<close>, \<open>protocol-layer-c.cpp\<close>) keep towards
  the callers that wait in slots: a unit that answers a call goes to the slot of its \<open>id\<close> and
  changes nothing else in the shared part of the layer. What follows for a whole sequence of
  answers, for any number of concurrent callers, is proved once here.
\<close>

subsection \<open>Frame facts\<close>

text \<open>No handler touches the queue of the low-level protocol, and taking a message makes it
  shorter, so both loops over the incoming messages end.\<close>

lemma layer_lowlevel [simp]:
  "pl_lowlevel (fst (push_rpc_message k m l)) = pl_lowlevel l"
  "pl_lowlevel (fst (push_rpc_message_all m l)) = pl_lowlevel l"
  "pl_lowlevel (fst (call_rpc_method llu l)) = pl_lowlevel l"
  by (simp_all add: push_rpc_message_def push_rpc_message_all_def call_rpc_method_def send_message_def
      split: prod.splits)

lemma layer_ops_opts [simp]:
  "pl_session_opts (fst (push_rpc_message k m l)) = pl_session_opts l"
  "pl_session_opts (fst (push_rpc_message_all m l)) = pl_session_opts l"
  "pl_session_opts (fst (call_rpc_method llu l)) = pl_session_opts l"
  "pl_session_opts (fst (call_rpc_method_slot k llu l)) = pl_session_opts l"
  "pl_session_opts (close_slot k l) = pl_session_opts l"
  "pl_session_opts (cancel_all_slots l) = pl_session_opts l"
  "pl_session_opts (on_system_error code add l) = pl_session_opts l"
  "pl_session_opts (pl_set_ready b l) = pl_session_opts l"
  by (simp_all add: push_rpc_message_def push_rpc_message_all_def call_rpc_method_def call_rpc_method_slot_def
      send_message_def close_slot_def cancel_all_slots_def on_system_error_def pl_set_ready_def Let_def
      split: prod.splits)

lemma pop_proto_shrinks:
  "pop_proto_message parse d = (d', Inr (Some llu)) \<Longrightarrow> dp_queue_size d' < dp_queue_size d"
  by (auto simp: pop_proto_message_def dp_queue_size_def qb_front_def qb_pop_front_def qb_size_def Let_def
      split: list.splits prod.splits sum.splits option.splits)

subsection \<open>The contract\<close>

locale answer_router =
  fixes layer :: "'s \<Rightarrow> protocol_layer"
    and dispatch :: "lowlevel_unit \<Rightarrow> 's \<Rightarrow> 's \<times> (exn + unit)"
    and answers :: "nat set"
  assumes answer_returns: "llu_type llu \<in> answers \<Longrightarrow> snd (dispatch llu s) = Inr ()"
    and answer_pushed: "llu_type llu \<in> answers \<Longrightarrow>
          layer (fst (dispatch llu s)) = fst (push_rpc_message (llu_id llu) llu (layer s))"
begin

definition deliver :: "lowlevel_unit list \<Rightarrow> 's \<Rightarrow> 's" where
  "deliver llus s = fold (\<lambda>llu s. fst (dispatch llu s)) llus s"

lemma deliver_simps [simp]:
  "deliver [] s = s"
  "deliver (llu # llus) s = deliver llus (fst (dispatch llu s))"
  by (simp_all add: deliver_def)

lemma answer_slots:
  assumes "llu_type llu \<in> answers" and "cq_wf (pl_rpc_queue (layer s))"
  shows "cq_wf (pl_rpc_queue (layer (fst (dispatch llu s))))
       \<and> slots (pl_rpc_queue (layer (fst (dispatch llu s)))) k
           = map_option (\<lambda>q. q @ (if llu_id llu = k then [llu] else [])) (slots (pl_rpc_queue (layer s)) k)"
  using assms cqs.inv_write [OF assms(2)]
  by (cases "slots (pl_rpc_queue (layer s)) (llu_id llu)"; cases "slots (pl_rpc_queue (layer s)) k")
    (auto simp: answer_pushed push_rpc_message_def case_prod_beta cqs.view_write)

lemma answers_demultiplexed:
  assumes "\<forall>llu \<in> set llus. llu_type llu \<in> answers" and "cq_wf (pl_rpc_queue (layer s))"
  shows "slots (pl_rpc_queue (layer (deliver llus s))) k
       = map_option (\<lambda>q. q @ filter (\<lambda>llu. llu_id llu = k) llus) (slots (pl_rpc_queue (layer s)) k)"
  using assms
proof (induction llus arbitrary: s)
  case (Cons llu llus)
  have w: "llu_type llu \<in> answers" using Cons.prems by simp
  from answer_slots [OF w Cons.prems(2), of k] Cons show ?case
    by (simp add: option.map_comp comp_def)
qed (simp add: option.map_ident)

end

end
