(* ===== verification/Protocol_Server.thy ===== *)
theory Protocol_Server
  imports Message_Router
begin

text \<open>
  The server side of a connection, \<open>lib/vtrc/server/protocol-layer-s.cpp\<close>: it takes the messages of
  the low-level protocol one by one and routes them (calls, callbacks, answers), keeps the number
  of active calls within the limit of the session, and caches the services of the application.

  \<open>app_.execute\<close> hands a call to a pool: \<open>ps_posted\<close> holds the calls that wait there and
  \<open>ps_running\<close> the holders of calls whose method has returned without running its closure.
  The parser of the message body is an argument.
\<close>

subsection \<open>State\<close>

record protocol_s =
  ps_layer :: protocol_layer
  ps_closed :: bool
  ps_services :: "(string \<times> service) list"
  ps_client_id :: string
  ps_current_calls :: u32
  ps_posted :: "lowlevel_unit list"
  ps_running :: "closure_holder list"
  ps_connection_closed :: bool

definition ps_new :: "session_options \<Rightarrow> protocol_s" where
  "ps_new opts =
     \<lparr> ps_layer = pl_new False opts, ps_closed = False, ps_services = [], ps_client_id = [],
       ps_current_calls = 0, ps_posted = [], ps_running = [], ps_connection_closed = False \<rparr>"

definition ps_on_layer :: "(protocol_layer \<Rightarrow> protocol_layer) \<Rightarrow> protocol_s \<Rightarrow> protocol_s" where
  "ps_on_layer f s = s\<lparr> ps_layer := f (ps_layer s) \<rparr>"

definition ps_set_client_id :: "string \<Rightarrow> protocol_s \<Rightarrow> protocol_s" where
  "ps_set_client_id ident s = s\<lparr> ps_client_id := ident \<rparr>"

text \<open>\<open>protocol_layer_s::close\<close>; the default connection setup does nothing in its own \<open>close\<close>.\<close>

definition ps_close :: "protocol_s \<Rightarrow> protocol_s" where
  "ps_close s = (ps_on_layer cancel_all_slots s)\<lparr> ps_closed := True \<rparr>"

subsection \<open>Services\<close>

text \<open>\<open>app\<close> is the application's own lookup; what it finds is kept.\<close>

definition ps_get_service :: "services \<Rightarrow> string \<Rightarrow> protocol_s \<Rightarrow> protocol_s \<times> service option" where
  "ps_get_service app name s =
     (case map_of (ps_services s) name of
        Some srv \<Rightarrow> (s, Some srv)
      | None \<Rightarrow>
          (case app name of
             None \<Rightarrow> (s, None)
           | Some srv \<Rightarrow> (s\<lparr> ps_services := (name, srv) # ps_services s \<rparr>, Some srv)))"

definition ps_drop_service :: "string \<Rightarrow> protocol_s \<Rightarrow> protocol_s" where
  "ps_drop_service name s = s\<lparr> ps_services := filter (\<lambda>(n, _). n \<noteq> name) (ps_services s) \<rparr>"

definition ps_drop_all_services :: "protocol_s \<Rightarrow> protocol_s" where
  "ps_drop_all_services s = s\<lparr> ps_services := [] \<rparr>"

definition ps_lookup :: "services \<Rightarrow> protocol_s \<Rightarrow> services" where
  "ps_lookup app s name = snd (ps_get_service app name s)"

subsection \<open>Calls\<close>

definition ps_max_calls :: "protocol_s \<Rightarrow> u32" where
  "ps_max_calls s = so_max_active_calls (pl_session_opts (ps_layer s))"

definition ps_call_done :: "protocol_s \<Rightarrow> protocol_s" where
  "ps_call_done s = s\<lparr> ps_current_calls := ps_current_calls s - 1 \<rparr>"

definition send_busy :: "lowlevel_unit \<Rightarrow> protocol_s \<Rightarrow> protocol_s \<times> (exn + unit)" where
  "send_busy llu s =
     (if uo_wait (llu_opt llu) then
        (let llu = llu_set_code ERR_BUSY ((llu_clear_call llu)\<lparr> llu_request := [], llu_response := [] \<rparr>)
         in case call_rpc_method llu (ps_layer s) of (l, r) \<Rightarrow> (s\<lparr> ps_layer := l \<rparr>, r))
      else (s, Inr ()))"

definition ps_process_call :: "lowlevel_unit \<Rightarrow> protocol_s \<Rightarrow> protocol_s \<times> (exn + unit)" where
  "ps_process_call llu s =
     (let s = s\<lparr> ps_current_calls := ps_current_calls s + 1 \<rparr> in
      if ps_current_calls s \<le> ps_max_calls s
      then (s\<lparr> ps_posted := ps_posted s @ [llu] \<rparr>, Inr ())
      else case send_busy llu s of
             (s, Inl e) \<Rightarrow> (s, Inl e)
           | (s, Inr _) \<Rightarrow> (s\<lparr> ps_current_calls := ps_current_calls s - 1 \<rparr>, Inr ()))"

definition ps_process_answer :: "lowlevel_unit \<Rightarrow> protocol_s \<Rightarrow> protocol_s" where
  "ps_process_answer llu = ps_on_layer (\<lambda>l. fst (push_rpc_message (llu_id llu) llu l))"

definition ps_process_insertion :: "lowlevel_unit \<Rightarrow> protocol_s \<Rightarrow> protocol_s \<times> (exn + unit)" where
  "ps_process_insertion llu s =
     (case push_rpc_message (llu_target_id llu) llu (ps_layer s) of
        (l, n) \<Rightarrow>
          (let s = s\<lparr> ps_layer := l \<rparr> in
           if n = 0 then
             if alone_callback llu then ps_process_call llu s
             else if uo_wait (llu_opt llu) then
               (let llu = fill_error ((llu_clear_call llu)\<lparr> llu_request := [], llu_response := [],
                            llu_opt := unit_options_cleared \<rparr>) ERR_CONTEXT ''Context was not found.'' False
                in case call_rpc_method llu (ps_layer s) of (l, r) \<Rightarrow> (s\<lparr> ps_layer := l \<rparr>, r))
             else (s, Inr ())
           else (s, Inr ())))"

definition ps_dispatch :: "lowlevel_unit \<Rightarrow> protocol_s \<Rightarrow> protocol_s \<times> (exn + unit)" where
  "ps_dispatch llu s =
     (if llu_type llu = MESSAGE_CLIENT_CALL then ps_process_call llu s
      else if llu_type llu = MESSAGE_CLIENT_CALLBACK then ps_process_insertion llu s
      else if llu_type llu = MESSAGE_SERVER_CALL \<or> llu_type llu = MESSAGE_SERVER_CALLBACK
      then (ps_process_answer llu s, Inr ())
      else (s, Inr ()))"

definition ps_pop_message ::
    "(bytes \<Rightarrow> lowlevel_unit option) \<Rightarrow> protocol_s \<Rightarrow> protocol_s \<times> lowlevel_unit option" where
  "ps_pop_message parse s =
     (case pop_proto_message parse (pl_lowlevel (ps_layer s)) of
        (d, r) \<Rightarrow>
          (let s = ps_on_layer (\<lambda>l. l\<lparr> pl_lowlevel := d \<rparr>) s in
           case r of Inr (Some llu) \<Rightarrow> (s, Some llu)
           | _ \<Rightarrow> (s\<lparr> ps_connection_closed := True \<rparr>, None)))"

lemma send_busy_lowlevel [simp]: "pl_lowlevel (ps_layer (fst (send_busy llu s))) = pl_lowlevel (ps_layer s)"
  using layer_lowlevel(3) by (auto simp: send_busy_def Let_def case_prod_beta)

lemma process_call_lowlevel [simp]:
  "pl_lowlevel (ps_layer (fst (ps_process_call llu s))) = pl_lowlevel (ps_layer s)"
  using send_busy_lowlevel [of llu "s\<lparr> ps_current_calls := ps_current_calls s + 1 \<rparr>"]
  by (auto simp: ps_process_call_def Let_def simp del: send_busy_lowlevel split: prod.splits sum.splits)

lemma dispatch_lowlevel: "pl_lowlevel (ps_layer (fst (ps_dispatch llu s))) = pl_lowlevel (ps_layer s)"
  using layer_lowlevel
  by (auto simp: ps_dispatch_def ps_process_answer_def ps_on_layer_def ps_process_insertion_def Let_def
      case_prod_beta)

lemma pop_message_shrinks:
  assumes "ps_pop_message parse s = (s', Some llu)"
  shows "dp_queue_size (pl_lowlevel (ps_layer s')) < dp_queue_size (pl_lowlevel (ps_layer s))"
  using assms pop_proto_shrinks
  by (auto simp: ps_pop_message_def ps_on_layer_def Let_def split: prod.splits sum.splits option.splits)

lemma loop_shrinks:
  assumes "ps_pop_message parse s = (s1, Some llu)" and "ps_dispatch llu s1 = (s2, r)"
  shows "dp_queue_size (pl_lowlevel (ps_layer s2)) < dp_queue_size (pl_lowlevel (ps_layer s))"
  using pop_message_shrinks [OF assms(1)] dispatch_lowlevel [of llu s1] assms(2) by simp

function on_rcp_call_ready ::
    "(bytes \<Rightarrow> lowlevel_unit option) \<Rightarrow> protocol_s \<Rightarrow> protocol_s \<times> (exn + unit)" where
  "on_rcp_call_ready parse s =
     (if dp_queue_size (pl_lowlevel (ps_layer s)) = 0 then (s, Inr ())
      else case ps_pop_message parse s of
        (s1, None) \<Rightarrow> (s1, Inr ())
      | (s1, Some llu) \<Rightarrow>
          (case ps_dispatch llu s1 of
             (s2, Inl e) \<Rightarrow> (s2, Inl e)
           | (s2, Inr _) \<Rightarrow> on_rcp_call_ready parse s2))"
  by pat_completeness auto
termination
  by (relation "measure (\<lambda>(parse, s). dp_queue_size (pl_lowlevel (ps_layer s)))")
    (auto dest!: sym [of "(_, _)"] loop_shrinks)

declare on_rcp_call_ready.simps [simp del]

interpretation server_answers: answer_router ps_layer ps_dispatch
    "{MESSAGE_SERVER_CALL, MESSAGE_SERVER_CALLBACK}"
  by unfold_locales
    (auto simp: ps_dispatch_def ps_process_answer_def ps_on_layer_def message_type_defs)

subsection \<open>Execution\<close>

text \<open>Every call of the \<open>done\<close> function, \<open>call_done\<close>, takes one from the number of active calls.\<close>

definition ps_layer_done :: "protocol_layer \<Rightarrow> protocol_s \<Rightarrow> protocol_s" where
  "ps_layer_done l s =
     (ps_call_done ^^ (length (pl_done l) - length (pl_done (ps_layer s)))) (s\<lparr> ps_layer := l \<rparr>)"

definition ps_push_call :: "bool \<Rightarrow> nat \<Rightarrow> services \<Rightarrow> lowlevel_unit \<Rightarrow> protocol_s \<Rightarrow> protocol_s" where
  "ps_push_call alive depth app llu s =
     (case make_local_call alive True depth (ps_lookup app s) llu (ps_layer s) of
        (l, pending) \<Rightarrow>
          (let s = ps_layer_done l s
           in s\<lparr> ps_running := ps_running s @ (case pending of None \<Rightarrow> [] | Some h \<Rightarrow> [h]) \<rparr>))"

text \<open>A thread of the pool takes a posted call; a closure that was kept is run later.\<close>

definition ps_execute :: "bool \<Rightarrow> nat \<Rightarrow> services \<Rightarrow> nat \<Rightarrow> protocol_s \<Rightarrow> protocol_s" where
  "ps_execute alive depth app i s =
     ps_push_call alive depth app (ps_posted s ! i)
       (s\<lparr> ps_posted := take i (ps_posted s) @ drop (Suc i) (ps_posted s) \<rparr>)"

definition ps_finish :: "bool \<Rightarrow> bool \<Rightarrow> bool \<Rightarrow> nat \<Rightarrow> protocol_s \<Rightarrow> protocol_s" where
  "ps_finish alive uncaught in_context i s =
     ps_layer_done (run_pending alive uncaught in_context (ps_running s ! i) (ps_layer s))
       (s\<lparr> ps_running := take i (ps_running s) @ drop (Suc i) (ps_running s) \<rparr>)"

text \<open>All that happens to a server connection, in any order. An exception that leaves a handler
  ends the connection, so it has no step.\<close>

inductive ps_step :: "protocol_s \<Rightarrow> protocol_s \<Rightarrow> bool" where
  dispatch: "ps_dispatch llu s = (s', Inr ()) \<Longrightarrow> ps_step s s'"
| execute: "i < length (ps_posted s) \<Longrightarrow> ps_step s (ps_execute alive depth app i s)"
| finish: "i < length (ps_running s) \<Longrightarrow> ps_step s (ps_finish alive uncaught in_context i s)"
| call: "call_rpc_method_slot slot llu (ps_layer s) = (l, r) \<Longrightarrow> ps_step s (s\<lparr> ps_layer := l \<rparr>)"
| erase: "ps_step s (ps_on_layer (close_slot slot) s)"
| transport_error: "ps_step s (ps_on_layer (on_system_error code add) s)"
| close: "ps_step s (ps_close s)"
| ready: "ps_step s (ps_on_layer (pl_set_ready b) s)"
| cached: "ps_get_service app name s = (s', r) \<Longrightarrow> ps_step s s'"
| drop: "ps_step s (ps_drop_service name s)"
| drop_all: "ps_step s (ps_drop_all_services s)"

abbreviation ps_steps :: "protocol_s \<Rightarrow> protocol_s \<Rightarrow> bool" where
  "ps_steps \<equiv> ps_step\<^sup>*\<^sup>*"

subsection \<open>The number of active calls\<close>

text \<open>\<open>active\<close> is what is really in progress: posted calls, and returned calls whose \<open>done\<close>
  function is still to be run.\<close>

definition active :: "protocol_s \<Rightarrow> nat" where
  "active s = length (ps_posted s) + length (filter ch_internal (ps_running s))"

definition calls_ok :: "protocol_s \<Rightarrow> bool" where
  "calls_ok s \<longleftrightarrow> active s \<le> unat (ps_current_calls s) \<and> ps_current_calls s \<le> ps_max_calls s"

lemma make_local_call_impl_done:
  assumes "make_local_call_impl alive depth services h p = (h', p', r)"
  shows "pl_done p' = pl_done p \<and> pl_session_opts p' = pl_session_opts p \<and> pl_ready p' = pl_ready p
       \<and> ch_internal h' = ch_internal h"
  using assms
  by (auto simp: make_local_call_impl_def closure_runner_def closure_done_def send_message_def Let_def
      split: if_splits option.splits closure_use.splits)

lemma make_local_call_done:
  assumes "make_local_call alive True depth services llu p = (p', pending)"
  shows "pl_session_opts p' = pl_session_opts p
       \<and> (\<exists>es. pl_done p' = pl_done p @ es
            \<and> length es + (case pending of None \<Rightarrow> 0 | Some h \<Rightarrow> if ch_internal h then 1 else 0) \<le> 1)"
proof -
  obtain h' p1 r where i: "make_local_call_impl alive depth services (holder_new True llu) p = (h', p1, r)"
    by (metis prod_cases3)
  from make_local_call_impl_done [OF i] assms i show ?thesis
    by (auto simp: make_local_call_def call_internal_def call_done_function_def send_message_def Let_def
        split: sum.splits prod.splits if_splits)
qed

lemma run_pending_done:
  "pl_session_opts (run_pending alive u c h p) = pl_session_opts p
   \<and> (\<exists>es. pl_done (run_pending alive u c h p) = pl_done p @ es \<and> length es \<le> (if ch_internal h then 1 else 0))"
  by (auto simp: run_pending_def closure_runner_def closure_done_def call_internal_def call_done_function_def
      send_message_def Let_def)

lemma call_done_pow:
  "(ps_call_done ^^ n) s = s\<lparr> ps_current_calls := ps_current_calls s - of_nat n \<rparr>"
  by (induction n) (simp_all add: ps_call_done_def algebra_simps)

lemma calls_ok_layer_done:
  assumes "calls_ok s" and "pl_done l = pl_done (ps_layer s) @ es"
    and "pl_session_opts l = pl_session_opts (ps_layer s)"
    and "length ps + length (filter ch_internal rs) + length es \<le> active s"
  shows "calls_ok ((ps_layer_done l (s\<lparr> ps_posted := ps \<rparr>))\<lparr> ps_running := rs \<rparr>)"
proof -
  have n: "length es \<le> unat (ps_current_calls s)" using assms(1,4) by (simp add: calls_ok_def)
  then have "unat (ps_current_calls s - of_nat (length es)) = unat (ps_current_calls s) - length es"
    by (rule unat_sub_of_nat)
  then show ?thesis
    using assms n
    by (auto simp: ps_layer_done_def call_done_pow calls_ok_def active_def ps_max_calls_def word_le_nat_alt)
qed

lemma calls_ok_same:
  assumes "calls_ok s" and "ps_posted s' = ps_posted s" and "ps_running s' = ps_running s"
    and "ps_current_calls s' = ps_current_calls s"
    and "pl_session_opts (ps_layer s') = pl_session_opts (ps_layer s)"
  shows "calls_ok s' \<and> ps_max_calls s' = ps_max_calls s"
  using assms by (simp add: calls_ok_def active_def ps_max_calls_def)

lemma send_busy_frame [simp]:
  "ps_posted (fst (send_busy llu s)) = ps_posted s" "ps_running (fst (send_busy llu s)) = ps_running s"
  "ps_current_calls (fst (send_busy llu s)) = ps_current_calls s"
  "pl_session_opts (ps_layer (fst (send_busy llu s))) = pl_session_opts (ps_layer s)"
  using layer_ops_opts(3) by (auto simp: send_busy_def Let_def case_prod_beta)

lemma process_call_ok:
  assumes "calls_ok s" and "ps_max_calls s < - 1" and "ps_process_call llu s = (s', Inr ())"
  shows "calls_ok s' \<and> ps_max_calls s' = ps_max_calls s"
proof -
  let ?s = "s\<lparr> ps_current_calls := ps_current_calls s + 1 \<rparr>"
  have max: "ps_max_calls ?s = ps_max_calls s" by (simp add: ps_max_calls_def)
  show ?thesis
  proof (cases "ps_current_calls s + 1 \<le> ps_max_calls s")
    case True
    have "ps_current_calls s < - 1" using assms(1,2) by (auto simp: calls_ok_def)
    then have "unat (ps_current_calls s + 1) = Suc (unat (ps_current_calls s))"
      using unatSuc [of "ps_current_calls s"] eq_neg_iff_add_eq_0 [of "ps_current_calls s" 1]
      by (auto simp: add.commute)
    with True assms(1,3) max show ?thesis
      by (auto simp: ps_process_call_def calls_ok_def active_def ps_max_calls_def Let_def)
  next
    case False
    then obtain s1 where s1: "send_busy llu ?s = (s1, Inr ())"
      and s': "s' = s1\<lparr> ps_current_calls := ps_current_calls s1 - 1 \<rparr>"
      using assms(3) max by (auto simp: ps_process_call_def Let_def split: prod.splits sum.splits)
    show ?thesis
      using send_busy_frame [of llu ?s] assms(1) s' by (intro calls_ok_same) (simp_all add: s1)
  qed
qed

lemma insertion_cases:
  assumes "ps_process_insertion llu s = (s', Inr ())"
  shows "ps_process_call llu (s\<lparr> ps_layer := fst (push_rpc_message (llu_target_id llu) llu (ps_layer s)) \<rparr>)
           = (s', Inr ())
       \<or> (\<exists>l. s' = s\<lparr> ps_layer := l \<rparr> \<and> pl_session_opts l = pl_session_opts (ps_layer s))"
  using assms layer_ops_opts(1,3)
  by (fastforce simp: ps_process_insertion_def Let_def case_prod_beta split: if_splits)

lemma insertion_ok:
  assumes "calls_ok s" and "ps_max_calls s < - 1" and "ps_process_insertion llu s = (s', Inr ())"
  shows "calls_ok s' \<and> ps_max_calls s' = ps_max_calls s"
proof -
  let ?p = "s\<lparr> ps_layer := fst (push_rpc_message (llu_target_id llu) llu (ps_layer s)) \<rparr>"
  have p: "calls_ok ?p \<and> ps_max_calls ?p = ps_max_calls s"
    using assms(1) by (intro calls_ok_same) simp_all
  from insertion_cases [OF assms(3)] consider (call) "ps_process_call llu ?p = (s', Inr ())"
    | (other) l where "s' = s\<lparr> ps_layer := l \<rparr>" "pl_session_opts l = pl_session_opts (ps_layer s)" by blast
  then show ?thesis
  proof cases
    case call
    with process_call_ok [OF _ _ call] p assms(2) show ?thesis by simp
  next
    case other
    then show ?thesis using assms(1) by (intro calls_ok_same) simp_all
  qed
qed

lemma dispatch_ok:
  assumes "calls_ok s" and "ps_max_calls s < - 1" and "ps_dispatch llu s = (s', Inr ())"
  shows "calls_ok s' \<and> ps_max_calls s' = ps_max_calls s"
proof -
  have ans: "calls_ok (ps_process_answer llu s) \<and> ps_max_calls (ps_process_answer llu s) = ps_max_calls s"
    using assms(1) by (intro calls_ok_same) (simp_all add: ps_process_answer_def ps_on_layer_def)
  show ?thesis
    using assms(1,3) ans process_call_ok [OF assms(1,2), of llu s'] insertion_ok [OF assms(1,2), of llu s']
    unfolding ps_dispatch_def by (simp split: if_split_asm)
qed

lemma active_take_drop:
  "i < length ps \<Longrightarrow> length (filter P ps)
     = length (filter P (take i ps @ drop (Suc i) ps)) + (if P (ps ! i) then 1 else 0)"
  by (subst id_take_nth_drop [of i ps]) simp_all

lemma execute_ok:
  assumes "calls_ok s" and "i < length (ps_posted s)"
  shows "calls_ok (ps_execute alive depth app i s)
       \<and> ps_max_calls (ps_execute alive depth app i s) = ps_max_calls s"
proof -
  let ?ps = "take i (ps_posted s) @ drop (Suc i) (ps_posted s)" and ?app = "ps_lookup app (s\<lparr> ps_posted := take i (ps_posted s) @ drop (Suc i) (ps_posted s) \<rparr>)"
  obtain l pending where m: "make_local_call alive True depth ?app (ps_posted s ! i) (ps_layer s) = (l, pending)"
    by fastforce
  let ?rs = "ps_running s @ (case pending of None \<Rightarrow> [] | Some h \<Rightarrow> [h])"
  from make_local_call_done [OF m] obtain es where es: "pl_done l = pl_done (ps_layer s) @ es"
      "pl_session_opts l = pl_session_opts (ps_layer s)"
      "length es + (case pending of None \<Rightarrow> 0 | Some h \<Rightarrow> if ch_internal h then 1 else 0) \<le> 1" by blast
  have "length ?ps + length (filter ch_internal ?rs) + length es \<le> active s"
    using assms(2) es(3) by (auto simp: active_def split: option.splits)
  from calls_ok_layer_done [OF assms(1) es(1,2) this] m es(2) show ?thesis
    by (simp add: ps_execute_def ps_push_call_def Let_def ps_layer_done_def call_done_pow ps_max_calls_def)
qed

lemma finish_ok:
  assumes "calls_ok s" and "i < length (ps_running s)"
  shows "calls_ok (ps_finish alive u c i s) \<and> ps_max_calls (ps_finish alive u c i s) = ps_max_calls s"
proof -
  let ?l = "run_pending alive u c (ps_running s ! i) (ps_layer s)"
  let ?rs = "take i (ps_running s) @ drop (Suc i) (ps_running s)"
  from run_pending_done [of alive u c "ps_running s ! i" "ps_layer s"]
  obtain es where es: "pl_done ?l = pl_done (ps_layer s) @ es" "pl_session_opts ?l = pl_session_opts (ps_layer s)"
      "length es \<le> (if ch_internal (ps_running s ! i) then 1 else 0)" by blast
  have "length (ps_posted s) + length (filter ch_internal ?rs) + length es \<le> active s"
    using active_take_drop [OF assms(2), of ch_internal] es(3) by (simp add: active_def split: if_splits)
  from calls_ok_layer_done [OF assms(1) es(1,2) this] es(2) show ?thesis
    by (simp add: ps_finish_def ps_layer_done_def call_done_pow calls_ok_def active_def ps_max_calls_def)
qed

lemma ps_step_ok:
  assumes "ps_step s s'" and "calls_ok s" and "ps_max_calls s < - 1"
  shows "calls_ok s' \<and> ps_max_calls s' = ps_max_calls s"
  using assms(1)
proof cases
  case (dispatch llu)
  then show ?thesis by (rule dispatch_ok [OF assms(2,3)])
next
  case (execute i alive depth app)
  then show ?thesis using execute_ok [OF assms(2)] by simp
next
  case (finish i alive u c)
  then show ?thesis using finish_ok [OF assms(2)] by simp
next
  case (call slot llu l r)
  then show ?thesis
    using assms(2) layer_ops_opts(4) [of slot llu "ps_layer s"] by (intro calls_ok_same) simp_all
qed (intro calls_ok_same; use assms(2) in
  \<open>auto simp: ps_on_layer_def ps_close_def ps_get_service_def ps_drop_service_def ps_drop_all_services_def
     split: option.splits\<close>)+

lemma ps_steps_ok:
  assumes "ps_steps s s'" and "calls_ok s" and "ps_max_calls s < - 1"
  shows "calls_ok s' \<and> ps_max_calls s' = ps_max_calls s"
  using assms(1)
proof (induction rule: rtranclp_induct)
  case (step y z)
  then show ?case using ps_step_ok [of y z] assms(3) by simp
qed (simp add: assms(2))

lemma ps_new_ok: "calls_ok (ps_new opts)"
  by (simp add: calls_ok_def active_def ps_new_def)

subsection \<open>Calls that are never counted as done\<close>

text \<open>A one-way call that fails before its method is bound leaves the layer untouched.\<close>

lemma oneway_not_found:
  assumes "\<not> uo_wait (llu_opt llu)" and "services (llu_service_id llu) = None"
    and "depth \<le> unat (so_max_stack_size (pl_session_opts p))"
  shows "make_local_call alive True depth services llu p = (p, None)"
  using assms
  by (auto simp: make_local_call_def make_local_call_impl_def holder_new_def call_internal_def Let_def
      split: prod.splits)

definition lost_call :: lowlevel_unit where
  "lost_call = llu_new\<lparr> llu_type := MESSAGE_CLIENT_CALL \<rparr>"

lemma leak_one:
  assumes "ps_posted s = []" and "ps_services s = []" and "ps_current_calls s + 1 \<le> ps_max_calls s"
  shows "ps_steps s (s\<lparr> ps_current_calls := ps_current_calls s + 1 \<rparr>)"
proof -
  let ?s = "s\<lparr> ps_current_calls := ps_current_calls s + 1 \<rparr>"
  let ?d = "?s\<lparr> ps_posted := [lost_call] \<rparr>"
  have "ps_dispatch lost_call s = (?d, Inr ())"
    using assms
    by (simp add: ps_dispatch_def lost_call_def ps_process_call_def ps_max_calls_def Let_def)
  then have d: "ps_step s ?d" by (rule ps_step.dispatch)
  have "make_local_call True True 0 (ps_lookup (\<lambda>_. None) (?d\<lparr> ps_posted := [] \<rparr>)) lost_call (ps_layer s)
      = (ps_layer s, None)"
    using assms by (intro oneway_not_found)
      (simp_all add: lost_call_def llu_new_def unit_options_cleared_def ps_lookup_def ps_get_service_def)
  then have e: "ps_execute True 0 (\<lambda>_. None) 0 ?d = ?s"
    using assms(1) by (simp add: ps_execute_def ps_push_call_def ps_layer_done_def)
  have "ps_step ?d (ps_execute True 0 (\<lambda>_. None) 0 ?d)" by (rule ps_step.execute) simp
  with d show ?thesis unfolding e by simp
qed

lemma leak_many:
  assumes "ps_posted s = []" and "ps_services s = []" and "ps_current_calls s = 0"
    and "n \<le> unat (ps_max_calls s)"
  shows "ps_steps s (s\<lparr> ps_current_calls := of_nat n \<rparr>)"
  using assms(4)
proof (induction n)
  case 0
  have "s\<lparr> ps_current_calls := of_nat 0 \<rparr> = s" using assms(3) by simp
  then show ?case by simp
next
  case (Suc n)
  let ?s = "s\<lparr> ps_current_calls := of_nat n \<rparr>"
  have "Suc n < 2 ^ 32" using Suc.prems unsigned_less [where 'b = 32 and 'a = nat, of "ps_max_calls s"] by simp
  then have "unat (of_nat (Suc n) :: u32) = Suc n" by (intro unat_of_nat_small) simp
  then have "ps_current_calls ?s + 1 \<le> ps_max_calls ?s"
    using Suc.prems by (simp add: word_le_nat_alt ps_max_calls_def add.commute)
  with leak_one [of ?s] Suc assms(1,2) show ?case by (simp add: add.commute)
qed

text \<open>With every unit of the count lost, nothing is ever executed again.\<close>

definition blocked :: "protocol_s \<Rightarrow> bool" where
  "blocked s \<longleftrightarrow> ps_posted s = [] \<and> ps_running s = [] \<and> ps_current_calls s = ps_max_calls s
     \<and> ps_max_calls s < - 1"

lemma above_limit: "(c :: u32) < - 1 \<Longrightarrow> \<not> c + 1 \<le> c"
  using unatSuc [of c] eq_neg_iff_add_eq_0 [of c 1] by (auto simp: word_le_nat_alt add.commute)

lemma blocked_same:
  assumes "blocked s" and "ps_posted s' = ps_posted s" and "ps_running s' = ps_running s"
    and "ps_current_calls s' = ps_current_calls s"
    and "pl_session_opts (ps_layer s') = pl_session_opts (ps_layer s)"
  shows "blocked s'"
  using assms by (simp add: blocked_def ps_max_calls_def)

lemma process_call_blocked:
  assumes "blocked s"
  shows "ps_process_call llu s
       = (case send_busy llu (s\<lparr> ps_current_calls := ps_current_calls s + 1 \<rparr>) of
            (s, Inl e) \<Rightarrow> (s, Inl e) | (s, Inr _) \<Rightarrow> (s\<lparr> ps_current_calls := ps_current_calls s - 1 \<rparr>, Inr ()))"
  using assms above_limit [of "ps_max_calls s"]
  by (auto simp: ps_process_call_def blocked_def ps_max_calls_def Let_def)

lemma process_call_stays_blocked:
  assumes "blocked s" and "ps_process_call llu s = (s', Inr ())"
  shows "blocked s'"
proof -
  let ?s = "s\<lparr> ps_current_calls := ps_current_calls s + 1 \<rparr>"
  from assms obtain s1 where s1: "send_busy llu ?s = (s1, Inr ())"
    and s': "s' = s1\<lparr> ps_current_calls := ps_current_calls s1 - 1 \<rparr>"
    by (auto simp: process_call_blocked split: prod.splits sum.splits)
  show ?thesis
    using send_busy_frame [of llu ?s] assms(1) s' by (intro blocked_same [OF assms(1)]) (simp_all add: s1)
qed

lemma insertion_stays_blocked:
  assumes "blocked s" and "ps_process_insertion llu s = (s', Inr ())"
  shows "blocked s'"
proof -
  let ?p = "s\<lparr> ps_layer := fst (push_rpc_message (llu_target_id llu) llu (ps_layer s)) \<rparr>"
  have p: "blocked ?p" by (intro blocked_same [OF assms(1)]) simp_all
  from insertion_cases [OF assms(2)] consider "ps_process_call llu ?p = (s', Inr ())"
    | l where "s' = s\<lparr> ps_layer := l \<rparr>" "pl_session_opts l = pl_session_opts (ps_layer s)" by blast
  then show ?thesis
  proof cases
    case 2
    then show ?thesis by (intro blocked_same [OF assms(1)]) simp_all
  qed (rule process_call_stays_blocked [OF p])
qed

lemma ps_step_blocked:
  assumes "ps_step s s'" and "blocked s"
  shows "blocked s'"
  using assms(1)
proof cases
  case (dispatch llu)
  have "blocked (ps_process_answer llu s)"
    by (intro blocked_same [OF assms(2)]) (simp_all add: ps_process_answer_def ps_on_layer_def)
  then show ?thesis
    using dispatch assms(2) process_call_stays_blocked [OF assms(2), of llu s']
      insertion_stays_blocked [OF assms(2), of llu s']
    unfolding ps_dispatch_def by (simp split: if_split_asm)
next
  case (call slot llu l r)
  then show ?thesis
    using layer_ops_opts(4) [of slot llu "ps_layer s"] by (intro blocked_same [OF assms(2)]) simp_all
next
  case (execute i alive depth app)
  then show ?thesis using assms(2) by (simp add: blocked_def)
next
  case (finish i alive u c)
  then show ?thesis using assms(2) by (simp add: blocked_def)
qed (intro blocked_same [OF assms(2)];
  auto simp: ps_on_layer_def ps_close_def ps_get_service_def ps_drop_service_def ps_drop_all_services_def
     split: option.splits)+

lemma ps_steps_blocked: "ps_steps s s' \<Longrightarrow> blocked s \<Longrightarrow> blocked s'"
  by (induction rule: rtranclp_induct) (auto intro: ps_step_blocked)

lemma blocked_busy:
  assumes "blocked s" and "pl_ready (ps_layer s)" and "llu_type llu = MESSAGE_CLIENT_CALL" and "uo_wait (llu_opt llu)"
  shows "\<exists>a. pl_sent (ps_layer (fst (ps_dispatch llu s))) = pl_sent (ps_layer s) @ [a]
           \<and> llu_id a = llu_id llu \<and> ec_code (llu_error a) = ERR_BUSY"
  using assms by (simp add: ps_dispatch_def process_call_blocked send_busy_def call_rpc_method_def Let_def)

subsection \<open>Properties\<close>

text \<open>
  C12. Whatever a peer sends and in whatever order calls are executed and finished, the server never
  has more calls in progress than the session allows.
\<close>

theorem active_calls_bounded:
  assumes "ps_steps (ps_new opts) s" and "so_max_active_calls opts < - 1"
  shows "active s \<le> unat (so_max_active_calls opts)"
proof -
  have m: "ps_max_calls (ps_new opts) = so_max_active_calls opts"
    by (simp add: ps_max_calls_def ps_new_def pl_new_def)
  from ps_steps_ok [OF assms(1) ps_new_ok] assms(2) m show ?thesis
    by (auto simp: calls_ok_def word_le_nat_alt)
qed

theorem active_calls_bounded_witness:
  "active (fst (ps_dispatch lost_call (ps_new default_session_options)))
     \<le> unat (so_max_active_calls default_session_options)"
proof -
  let ?s = "ps_new default_session_options"
  have "ps_dispatch lost_call ?s
      = (?s\<lparr> ps_current_calls := 1, ps_posted := [lost_call] \<rparr>, Inr ())"
    by (simp add: ps_dispatch_def lost_call_def ps_process_call_def ps_max_calls_def ps_new_def pl_new_def
        default_session_options_def Let_def)
  then have "ps_steps ?s (fst (ps_dispatch lost_call ?s))" by (simp add: ps_step.dispatch r_into_rtranclp)
  from active_calls_bounded [OF this] show ?thesis by (simp add: default_session_options_def)
qed

text \<open>
  The count of active calls is not exact: a one-way call to a service that does not exist is
  never counted as done. A peer that sends as many of them as the session allows brings the server
  into a state in which no call is in progress and, whatever happens next, none ever will be: every
  further call is answered with \<open>ERR_BUSY\<close>.
\<close>

theorem lost_calls_block_server:
  assumes "so_max_active_calls opts < - 1"
  shows "\<exists>s. ps_steps (ps_new opts) s \<and> pl_ready (ps_layer s)
           \<and> (\<forall>s'. ps_steps s s' \<longrightarrow> active s' = 0
                \<and> (\<forall>llu. pl_ready (ps_layer s') \<longrightarrow> llu_type llu = MESSAGE_CLIENT_CALL \<longrightarrow> uo_wait (llu_opt llu) \<longrightarrow>
                     (\<exists>a. pl_sent (ps_layer (fst (ps_dispatch llu s'))) = pl_sent (ps_layer s') @ [a]
                        \<and> llu_id a = llu_id llu \<and> ec_code (llu_error a) = ERR_BUSY)))"
proof -
  let ?r = "ps_on_layer (pl_set_ready True) (ps_new opts)"
  let ?s = "?r\<lparr> ps_current_calls := ps_max_calls ?r \<rparr>"
  have "ps_steps ?r ?s"
    using leak_many [of ?r "unat (ps_max_calls ?r)"] by (simp add: ps_on_layer_def ps_new_def)
  then have "ps_steps (ps_new opts) ?s"
    using ps_step.ready by (rule converse_rtranclp_into_rtranclp [rotated])
  moreover have "pl_ready (ps_layer ?s)" by (simp add: ps_on_layer_def pl_set_ready_def)
  moreover have "blocked ?s"
    using assms by (simp add: blocked_def ps_on_layer_def ps_new_def pl_new_def ps_max_calls_def)
  ultimately show ?thesis
    using blocked_busy ps_steps_blocked by (intro exI [of _ ?s]) (auto simp: blocked_def active_def)
qed

theorem lost_calls_block_server_witness:
  "\<exists>s. ps_steps (ps_new default_session_options) s \<and> active s = 0
     \<and> (\<exists>a. pl_sent (ps_layer (fst (ps_dispatch (lost_call\<lparr> llu_opt := default_unit_options \<rparr>) s)))
              = pl_sent (ps_layer s) @ [a] \<and> ec_code (llu_error a) = ERR_BUSY)"
proof -
  let ?llu = "lost_call\<lparr> llu_opt := default_unit_options \<rparr>"
  have m: "so_max_active_calls default_session_options < - 1" by (simp add: default_session_options_def)
  have "llu_type ?llu = MESSAGE_CLIENT_CALL" "uo_wait (llu_opt ?llu)"
    by (simp_all add: lost_call_def default_unit_options_def)
  with lost_calls_block_server [OF m] show ?thesis by blast
qed

end
