(* ===== verification/Protocol_Client.thy ===== *)
theory Protocol_Client
  imports Message_Router
begin

text \<open>
  The client side of a connection, \<open>lib/vtrc/client/protocol-layer-c.cpp\<close>: the routing of the
  units a server sends (events, callbacks and the answers to the client's own calls), the signals
  the client object receives, and the end of the connection. \<open>pc_posted\<close> holds the calls given to
  \<open>client_->execute\<close>. The handler lookup of the client object is an argument.
\<close>

subsection \<open>State\<close>

datatype signal = On_ready bool | On_init_error error_container string | On_disconnect

record protocol_c =
  pc_layer :: protocol_layer
  pc_closed :: bool
  pc_posted :: "lowlevel_unit list"
  pc_running :: "closure_holder list"
  pc_signals :: "signal list"
  pc_connection_closed :: bool

definition pc_new :: "session_options \<Rightarrow> protocol_c" where
  "pc_new opts =
     \<lparr> pc_layer = pl_new True opts, pc_closed = False, pc_posted = [], pc_running = [],
       pc_signals = [], pc_connection_closed = False \<rparr>"

definition pc_on_layer :: "(protocol_layer \<Rightarrow> protocol_layer) \<Rightarrow> protocol_c \<Rightarrow> protocol_c" where
  "pc_on_layer f s = s\<lparr> pc_layer := f (pc_layer s) \<rparr>"

definition pc_error :: "error_container \<Rightarrow> string \<Rightarrow> protocol_c \<Rightarrow> protocol_c" where
  "pc_error err mes s = s\<lparr> pc_signals := pc_signals s @ [On_init_error err mes] \<rparr>"

definition pc_ready :: "bool \<Rightarrow> protocol_c \<Rightarrow> protocol_c" where
  "pc_ready value s =
     (pc_on_layer (pl_set_ready value) s)\<lparr> pc_signals := pc_signals s @ [On_ready value] \<rparr>"

definition pc_accessor_close :: "protocol_c \<Rightarrow> protocol_c" where
  "pc_accessor_close s = s\<lparr> pc_closed := True, pc_connection_closed := True \<rparr>"

definition pc_configure_session :: "session_options \<Rightarrow> protocol_c \<Rightarrow> protocol_c" where
  "pc_configure_session opts = pc_on_layer (pl_configure_session opts)"

definition create_error :: "nat \<Rightarrow> string \<Rightarrow> error_container" where
  "create_error code add =
     \<lparr> ec_code = code, ec_category = CATEGORY_INTERNAL, ec_fatal = False, ec_additional = add \<rparr>"

text \<open>\<open>protocol_layer_c::close\<close>; \<open>setup_close\<close> is the handler of the connection setup.\<close>

definition pc_close :: "(protocol_c \<Rightarrow> protocol_c) \<Rightarrow> protocol_c \<Rightarrow> protocol_c" where
  "pc_close setup_close s =
     (let s = pc_on_layer cancel_all_slots (setup_close s)
      in s\<lparr> pc_signals := pc_signals s @ [On_disconnect] \<rparr>)"

subsection \<open>Routing\<close>

definition pc_process_call :: "lowlevel_unit \<Rightarrow> protocol_c \<Rightarrow> protocol_c" where
  "pc_process_call llu s =
     (if llu_id llu \<noteq> 0 then s\<lparr> pc_posted := pc_posted s @ [llu] \<rparr>
      else pc_on_layer (\<lambda>l. fst (push_rpc_message_all llu l)) s)"

definition pc_process_answer :: "lowlevel_unit \<Rightarrow> protocol_c \<Rightarrow> protocol_c" where
  "pc_process_answer llu = pc_on_layer (\<lambda>l. fst (push_rpc_message (llu_id llu) llu l))"

definition pc_process_insertion :: "lowlevel_unit \<Rightarrow> protocol_c \<Rightarrow> protocol_c \<times> (exn + unit)" where
  "pc_process_insertion llu s =
     (case push_rpc_message (llu_target_id llu) llu (pc_layer s) of
        (l, n) \<Rightarrow>
          (let s = s\<lparr> pc_layer := l \<rparr> in
           if n = 0 then
             if alone_callback llu then (pc_process_call llu s, Inr ())
             else if uo_wait (llu_opt llu) then
               (let llu = fill_error ((llu_clear_call llu)\<lparr> llu_request := [], llu_response := [],
                            llu_opt := unit_options_cleared \<rparr>) ERR_CONTEXT ''Context was not found.'' False
                in case call_rpc_method llu (pc_layer s) of (l, r) \<Rightarrow> (s\<lparr> pc_layer := l \<rparr>, r))
             else (s, Inr ())
           else (s, Inr ())))"

text \<open>\<open>process_service\<close>, \<open>process_internal\<close> and \<open>process_invalid\<close> are empty.\<close>

definition pc_dispatch :: "lowlevel_unit \<Rightarrow> protocol_c \<Rightarrow> protocol_c \<times> (exn + unit)" where
  "pc_dispatch llu s =
     (if llu_type llu = MESSAGE_SERVER_CALL then (pc_process_call llu s, Inr ())
      else if llu_type llu = MESSAGE_SERVER_CALLBACK then pc_process_insertion llu s
      else if llu_type llu = MESSAGE_SERVICE \<or> llu_type llu = MESSAGE_INTERNAL then (s, Inr ())
      else if llu_type llu = MESSAGE_CLIENT_CALL \<or> llu_type llu = MESSAGE_CLIENT_CALLBACK
      then (pc_process_answer llu s, Inr ())
      else (s, Inr ()))"

text \<open>A message that cannot be taken apart ends every pending call and the connection.\<close>

definition pc_bad_message :: "protocol_c \<Rightarrow> protocol_c" where
  "pc_bad_message s =
     (let llu = fill_error llu_new ERR_PROTOCOL ''Bad message was received'' True
      in (pc_on_layer (\<lambda>l. fst (push_rpc_message_all llu l)) s)\<lparr> pc_connection_closed := True \<rparr>)"

lemma pc_dispatch_lowlevel: "pl_lowlevel (pc_layer (fst (pc_dispatch llu s))) = pl_lowlevel (pc_layer s)"
  by (auto simp: pc_dispatch_def pc_process_answer_def pc_process_call_def pc_on_layer_def
      pc_process_insertion_def Let_def case_prod_beta)

lemma pc_loop_shrinks:
  assumes "pop_proto_message parse (pl_lowlevel (pc_layer s)) = (d, Inr (Some llu))"
    and "pc_dispatch llu (pc_on_layer (\<lambda>l. l\<lparr> pl_lowlevel := d \<rparr>) s) = (s2, r)"
  shows "dp_queue_size (pl_lowlevel (pc_layer s2)) < dp_queue_size (pl_lowlevel (pc_layer s))"
  using pop_proto_shrinks [OF assms(1)] pc_dispatch_lowlevel [of llu "pc_on_layer (\<lambda>l. l\<lparr> pl_lowlevel := d \<rparr>) s"]
    assms(2) by (simp add: pc_on_layer_def)

function on_rpc_process ::
    "(bytes \<Rightarrow> lowlevel_unit option) \<Rightarrow> protocol_c \<Rightarrow> protocol_c \<times> (exn + unit)" where
  "on_rpc_process parse s =
     (if dp_queue_size (pl_lowlevel (pc_layer s)) = 0 then (s, Inr ())
      else case pop_proto_message parse (pl_lowlevel (pc_layer s)) of
        (d, Inr (Some llu)) \<Rightarrow>
          (case pc_dispatch llu (pc_on_layer (\<lambda>l. l\<lparr> pl_lowlevel := d \<rparr>) s) of
             (s2, Inl e) \<Rightarrow> (s2, Inl e)
           | (s2, Inr _) \<Rightarrow> on_rpc_process parse s2)
      | (d, _) \<Rightarrow> (pc_bad_message (pc_on_layer (\<lambda>l. l\<lparr> pl_lowlevel := d \<rparr>) s), Inr ()))"
  by pat_completeness auto
termination
  by (relation "measure (\<lambda>(parse, s). dp_queue_size (pl_lowlevel (pc_layer s)))")
    (auto dest!: sym [of "(_, _)"] pc_loop_shrinks)

declare on_rpc_process.simps [simp del]

subsection \<open>Execution\<close>

text \<open>\<open>process_call_\<close>, run by the client's pool; \<open>locked\<close> tells whether the client still exists.\<close>

definition pc_execute :: "bool \<Rightarrow> bool \<Rightarrow> nat \<Rightarrow> services \<Rightarrow> nat \<Rightarrow> protocol_c \<Rightarrow> protocol_c" where
  "pc_execute locked alive depth handlers i s =
     (let llu = pc_posted s ! i;
          s = s\<lparr> pc_posted := take i (pc_posted s) @ drop (Suc i) (pc_posted s) \<rparr>
      in if \<not> locked then s
         else case make_local_call alive False depth handlers llu (pc_layer s) of
           (l, pending) \<Rightarrow>
             s\<lparr> pc_layer := l, pc_running := pc_running s @ (case pending of None \<Rightarrow> [] | Some h \<Rightarrow> [h]) \<rparr>)"

definition pc_finish :: "bool \<Rightarrow> bool \<Rightarrow> bool \<Rightarrow> nat \<Rightarrow> protocol_c \<Rightarrow> protocol_c" where
  "pc_finish alive uncaught in_context i s =
     s\<lparr> pc_layer := run_pending alive uncaught in_context (pc_running s ! i) (pc_layer s),
        pc_running := take i (pc_running s) @ drop (Suc i) (pc_running s) \<rparr>"

interpretation client_answers: answer_router pc_layer pc_dispatch
    "{MESSAGE_CLIENT_CALL, MESSAGE_CLIENT_CALLBACK}"
  by unfold_locales
    (auto simp: pc_dispatch_def pc_process_answer_def pc_on_layer_def message_type_defs)

end
