(* ===== verification/Unit_Stream.thy ===== *)
theory Unit_Stream
  imports Transport Protocol_Server Protocol_Client
begin

text \<open>
  From the bytes a connection reads to the handlers of the units in them: \<open>process_data\<close> of
  \<open>protocol-layer.cpp\<close>, which feeds the low-level protocol and, through \<open>ready_call\<close> and
  \<open>message_ready\<close>, runs the loops \<open>on_rcp_call_ready\<close> of the server and \<open>on_rpc_process\<close> of the client.
  The interface \<open>unit_reader\<close> is what both layers promise; what follows for a whole stream, cut into
  any pieces and written through any transport, is proved once.
\<close>

subsection \<open>Reading\<close>

definition ps_low :: "protocol_s \<Rightarrow> default_protocol" where
  "ps_low s = pl_lowlevel (ps_layer s)"

definition ps_set_low :: "default_protocol \<Rightarrow> protocol_s \<Rightarrow> protocol_s" where
  "ps_set_low d s = ps_on_layer (\<lambda>l. l\<lparr> pl_lowlevel := d \<rparr>) s"

definition pc_low :: "protocol_c \<Rightarrow> default_protocol" where
  "pc_low s = pl_lowlevel (pc_layer s)"

definition pc_set_low :: "default_protocol \<Rightarrow> protocol_c \<Rightarrow> protocol_c" where
  "pc_set_low d s = pc_on_layer (\<lambda>l. l\<lparr> pl_lowlevel := d \<rparr>) s"

text \<open>One read of a ready connection.\<close>

definition ps_process_data ::
    "(bytes \<Rightarrow> lowlevel_unit option) \<Rightarrow> bytes \<Rightarrow> protocol_s \<Rightarrow> protocol_s \<times> (exn + unit)" where
  "ps_process_data parse data s =
     (case process_data (ps_low s) data of
        (d, Inl e) \<Rightarrow> (ps_set_low d s, Inl e)
      | (d, Inr ready) \<Rightarrow>
          if ready then on_rcp_call_ready parse (ps_set_low d s) else (ps_set_low d s, Inr ()))"

definition pc_process_data ::
    "(bytes \<Rightarrow> lowlevel_unit option) \<Rightarrow> bytes \<Rightarrow> protocol_c \<Rightarrow> protocol_c \<times> (exn + unit)" where
  "pc_process_data parse data s =
     (case process_data (pc_low s) data of
        (d, Inl e) \<Rightarrow> (pc_set_low d s, Inl e)
      | (d, Inr ready) \<Rightarrow>
          if ready then on_rpc_process parse (pc_set_low d s) else (pc_set_low d s, Inr ()))"

text \<open>A sequence of reads or of units; the first exception ends it.\<close>

fun run_all :: "('a \<Rightarrow> 's \<Rightarrow> 's \<times> (exn + unit)) \<Rightarrow> 'a list \<Rightarrow> 's \<Rightarrow> 's \<times> (exn + unit)" where
  "run_all f [] s = (s, Inr ())"
| "run_all f (x # xs) s = (case f x s of (s, Inl e) \<Rightarrow> (s, Inl e) | (s, Inr _) \<Rightarrow> run_all f xs s)"

lemma run_all_append:
  "run_all f (xs @ ys) s = (case run_all f xs s of (s, Inl e) \<Rightarrow> (s, Inl e) | (s, Inr _) \<Rightarrow> run_all f ys s)"
  by (induction xs arbitrary: s) (auto split: prod.splits sum.splits)

lemma run_all_take:
  assumes "run_all f xs s = (s', Inr ())"
  shows "\<exists>s''. run_all f (take k xs) s = (s'', Inr ())"
  using run_all_append [of f "take k xs" "drop k xs" s] assms by (auto split: prod.splits sum.splits)

text \<open>The two ways to take a message differ only in the parser.\<close>

lemma pop_proto_raw:
  "pop_proto_message parse p =
     (case pop_raw_message p of
        (p', Inl e) \<Rightarrow> (p', Inl e) | (p', Inr m) \<Rightarrow> (p', Inr (Option.bind m parse)))"
  by (simp add: pop_proto_message_def pop_raw_message_def parse_raw_message_def Let_def split_beta split: sum.splits)

subsection \<open>The interface\<close>

locale unit_reader =
  fixes low :: "'s \<Rightarrow> default_protocol"
    and set_low :: "default_protocol \<Rightarrow> 's \<Rightarrow> 's"
    and dispatch :: "lowlevel_unit \<Rightarrow> 's \<Rightarrow> 's \<times> (exn + unit)"
    and ready :: "(bytes \<Rightarrow> lowlevel_unit option) \<Rightarrow> 's \<Rightarrow> 's \<times> (exn + unit)"
    and proc :: "(bytes \<Rightarrow> lowlevel_unit option) \<Rightarrow> bytes \<Rightarrow> 's \<Rightarrow> 's \<times> (exn + unit)"
  assumes low_set [simp]: "low (set_low d s) = d"
    and set_low_same [simp]: "set_low (low s) s = s"
    and set_set [simp]: "set_low d (set_low d' s) = set_low d s"
    and dispatch_set: "dispatch u (set_low d s) = (set_low d (fst (dispatch u s)), snd (dispatch u s))"
    and ready_empty: "dp_queue_size (low s) = 0 \<Longrightarrow> ready parse s = (s, Inr ())"
    and ready_next: "dp_queue_size (low s) \<noteq> 0 \<Longrightarrow> pop_proto_message parse (low s) = (d, Inr (Some u)) \<Longrightarrow>
          dispatch u (set_low d s) = (s', Inr ()) \<Longrightarrow> ready parse s = ready parse s'"
    and proc_eq: "proc parse data s =
          (case process_data (low s) data of
             (d, Inl e) \<Rightarrow> (set_low d s, Inl e)
           | (d, Inr r) \<Rightarrow> if r then ready parse (set_low d s) else (set_low d s, Inr ()))"
begin

lemma run_all_set:
  "run_all dispatch us s = (s', r) \<Longrightarrow> run_all dispatch us (set_low d s) = (set_low d s', r)"
proof (induction us arbitrary: s)
  case (Cons u us)
  obtain s1 r1 where d: "dispatch u s = (s1, r1)" by fastforce
  then have "dispatch u (set_low d s) = (set_low d s1, r1)" by (simp add: dispatch_set)
  with Cons d show ?case by (cases r1) auto
qed simp

text \<open>The loop over the queue handles the units of all messages in it.\<close>

lemma ready_all:
  assumes "pop_all (low s) = (p, map Some ms)" and "map parse ms = map Some us"
    and "run_all dispatch us s = (s', Inr ())"
  shows "ready parse s = (set_low p s', Inr ())"
  using assms
proof (induction us arbitrary: s s' ms)
  case Nil
  have "dp_queue_size (low s) = 0"
  proof (rule ccontr)
    assume n: "dp_queue_size (low s) \<noteq> 0"
    then obtain m q where "qb_front (dp_queue (low s)) = Inr m"
      by (cases "qb_packed (dp_queue (low s))") (auto simp: dp_queue_size_def qb_size_def qb_front_def)
    then show False using Nil n
      by (subst (asm) pop_all.simps) (auto simp: pop_raw_message_def Let_def split: prod.splits)
  qed
  moreover have "p = low s" using Nil calculation by (subst (asm) pop_all.simps) simp
  moreover have "s = s'" using Nil(3) by simp
  ultimately show ?case by (simp only: ready_empty set_low_same)
next
  case (Cons u us)
  obtain m ms' where ms: "ms = m # ms'" "parse m = Some u" "map parse ms' = map Some us"
    using Cons.prems(2) by (cases ms) auto
  have ne: "dp_queue_size (low s) \<noteq> 0"
    using Cons.prems(1) ms(1) by (subst (asm) pop_all.simps) (auto split: if_splits)
  obtain p1 where p1: "pop_raw_message (low s) = (p1, Inr (Some m))" "pop_all p1 = (p, map Some ms')"
    using Cons.prems(1) ms(1) ne by (subst (asm) pop_all.simps) (auto split: if_splits prod.splits sum.splits)
  obtain s1 where s1: "dispatch u s = (s1, Inr ())" "run_all dispatch us s1 = (s', Inr ())"
    using Cons.prems(3) by (auto split: prod.splits sum.splits)
  have "pop_proto_message parse (low s) = (p1, Inr (Some u))" using p1(1) ms(2) by (simp add: pop_proto_raw)
  moreover have "dispatch u (set_low p1 s) = (set_low p1 s1, Inr ())" by (simp add: dispatch_set s1(1))
  ultimately have "ready parse s = ready parse (set_low p1 s1)" by (rule ready_next [OF ne])
  also have "\<dots> = (set_low p (set_low p1 s'), Inr ())"
    using Cons.IH [of "set_low p1 s1" ms' "set_low p1 s'"] p1(2) ms(3) run_all_set [OF s1(2)] by simp
  finally show ?case by simp
qed

text \<open>A whole stream of reads does.\<close>

lemma proc_all:
  assumes "receive (low s) cs = (p, Inr (map Some ms))" and "map parse ms = map Some us"
    and "run_all dispatch us s = (s', Inr ())"
  shows "run_all (proc parse) cs s = (set_low p s', Inr ())"
  using assms
proof (induction cs arbitrary: s s' ms us)
  case Nil
  then show ?case by auto
next
  case (Cons c cs)
  obtain d r where d: "process_data (low s) c = (d, Inr r)"
    using Cons.prems(1) by (auto split: prod.splits sum.splits)
  obtain p1 ms1 where p1: "(if r then pop_all d else (d, [])) = (p1, ms1)" by fastforce
  obtain ms2 where ms2: "receive p1 cs = (p, Inr ms2)" "map Some ms = ms1 @ ms2"
    using Cons.prems(1) d p1 by (auto split: prod.splits sum.splits)
  define n where "n = length ms1"
  have ms1: "ms1 = map Some (take n ms)" "ms2 = map Some (drop n ms)"
    using arg_cong [OF ms2(2), of "take n"] arg_cong [OF ms2(2), of "drop n"] by (simp_all add: n_def take_map drop_map)
  have us: "map parse (take n ms) = map Some (take n us)" "map parse (drop n ms) = map Some (drop n us)"
    using Cons.prems(2) by (metis take_map, metis drop_map)
  obtain s1 where s1: "run_all dispatch (take n us) s = (s1, Inr ())" "run_all dispatch (drop n us) s1 = (s', Inr ())"
    using run_all_append [of dispatch "take n us" "drop n us" s] Cons.prems(3) by (auto split: prod.splits sum.splits)
  have "proc parse c s = (set_low p1 s1, Inr ())"
  proof (cases r)
    case True
    then have "pop_all (low (set_low d s)) = (p1, map Some (take n ms))" using p1 ms1 by simp
    from ready_all [OF this us(1) run_all_set [OF s1(1)]] d True show ?thesis by (simp add: proc_eq)
  next
    case False
    then have "n = 0" "p1 = d" using p1 by (simp_all add: n_def)
    with False d s1(1) show ?thesis by (simp add: proc_eq)
  qed
  moreover have "run_all (proc parse) cs (set_low p1 s1) = (set_low p (set_low p1 s'), Inr ())"
    using Cons.IH [of "set_low p1 s1" "drop n ms" "drop n us" "set_low p1 s'"] ms2(1) ms1(2) us(2) run_all_set [OF s1(2)] by simp
  ultimately show ?case by simp
qed

end

text \<open>What is received of the messages that were written to a transport.\<close>

context hash_law
begin

lemma transport_received:
  assumes "tr_reach pack_message a ms t" and "dp_hash_maker a = h" and "in_step a b" and "qb_data (dp_queue b) = []"
    and "\<forall>m \<in> set ms. length (mh_message m) + h_size h \<le> unat (qb_max (dp_queue b))"
    and "prefix (concat cs) (tr_wire t)"
  shows "\<exists>k b'. k \<le> length ms \<and> receive b cs = (b', Inr (map Some (take k (map mh_message ms))))
           \<and> (idle t \<and> concat cs = tr_wire t \<longrightarrow>
                k = length ms \<and> in_step (tr_proto t) b' \<and> qb_data (dp_queue b') = [])"
proof -
  obtain a' ws where ws: "pack_all a (map mh_message ms) = (a', ws)" by fastforce
  then have pk: "packs pack_message a ms = (a', ws)" by (simp add: packs_pack_all)
  have "prefix (concat cs) (concat ws)"
    using assms(6) lowlevel_packer.wire_prefix [OF assms(1) pk] by (rule prefix_order.trans)
  then obtain rest where rest: "concat cs @ rest = concat ws" by (auto simp: prefix_def)
  have fit: "\<forall>m \<in> set (map mh_message ms). length m + h_size h \<le> unat (qb_max (dp_queue b))" using assms(5) by simp
  have all: "rest = [] \<and> tr_proto t = a'" if "idle t" "concat cs = tr_wire t"
  proof -
    have i: "tr_posted t = []" "tr_pending t = None" "\<not> failed t" "\<not> tr_closed t" using that(1) by (simp_all add: idle_def)
    show ?thesis
      using lowlevel_packer.idle_complete(2) [OF assms(1) i pk] lowlevel_packer.idle_proto [OF assms(1) i pk] that(2) rest by simp
  qed
  from receive_packed [OF assms(2-4) fit ws rest] all show ?thesis by auto
qed

end

text \<open>Units that one side writes to its transport are handled by the other: of any beginning of the
  stream, in any pieces, a beginning of the units, and all of them when the transport is idle.\<close>

context unit_reader
begin

lemma units_handled:
  assumes "hash_law h" and "tr_reach pack_message a ms t" and "dp_hash_maker a = h" and "in_step a (low s)"
    and "qb_data (dp_queue (low s)) = []"
    and "\<forall>m \<in> set ms. length (mh_message m) + h_size h \<le> unat (qb_max (dp_queue (low s)))"
    and "map (parse \<circ> mh_message) ms = map Some us" and "prefix (concat cs) (tr_wire t)"
    and "run_all dispatch us s = (s', Inr ())"
  shows "\<exists>k b' s''. k \<le> length us \<and> run_all dispatch (take k us) s = (s'', Inr ())
           \<and> run_all (proc parse) cs s = (set_low b' s'', Inr ())
           \<and> (idle t \<and> concat cs = tr_wire t \<longrightarrow> s'' = s' \<and> in_step (tr_proto t) b' \<and> qb_data (dp_queue b') = [])"
proof -
  obtain k b' where k: "k \<le> length ms" "receive (low s) cs = (b', Inr (map Some (take k (map mh_message ms))))"
    and i: "idle t \<and> concat cs = tr_wire t \<longrightarrow> k = length ms \<and> in_step (tr_proto t) b' \<and> qb_data (dp_queue b') = []"
    using hash_law.transport_received [OF assms(1-6) assms(8)] by blast
  have n: "length us = length ms" using arg_cong [OF assms(7), of length] by simp
  have parse: "map parse (take k (map mh_message ms)) = map Some (take k us)"
    using arg_cong [OF assms(7), of "take k"] by (simp add: take_map)
  obtain s'' where s: "run_all dispatch (take k us) s = (s'', Inr ())" using run_all_take [OF assms(9)] by blast
  from proc_all [OF k(2) parse s] i k(1) n s assms(9) show ?thesis by (intro exI [of _ k] exI [of _ b'] exI [of _ s'']) auto
qed

end

subsection \<open>The two layers\<close>

text \<open>No handler reads or changes the low-level protocol.\<close>

lemma layer_ops_set_low:
  "push_rpc_message k m (l\<lparr> pl_lowlevel := d \<rparr>) = (case push_rpc_message k m l of (l, n) \<Rightarrow> (l\<lparr> pl_lowlevel := d \<rparr>, n))"
  "push_rpc_message_all m (l\<lparr> pl_lowlevel := d \<rparr>) = (case push_rpc_message_all m l of (l, n) \<Rightarrow> (l\<lparr> pl_lowlevel := d \<rparr>, n))"
  "call_rpc_method llu (l\<lparr> pl_lowlevel := d \<rparr>) = (case call_rpc_method llu l of (l, r) \<Rightarrow> (l\<lparr> pl_lowlevel := d \<rparr>, r))"
  by (simp_all add: push_rpc_message_def push_rpc_message_all_def call_rpc_method_def send_message_def split: prod.splits)

lemma send_busy_set_low:
  "send_busy llu (ps_set_low d s) = (ps_set_low d (fst (send_busy llu s)), snd (send_busy llu s))"
  by (simp add: send_busy_def ps_set_low_def ps_on_layer_def Let_def layer_ops_set_low split_beta)

lemma ps_process_call_set_low:
  "ps_process_call llu (ps_set_low d s) = (ps_set_low d (fst (ps_process_call llu s)), snd (ps_process_call llu s))"
proof -
  let ?s = "s\<lparr> ps_current_calls := ps_current_calls s + 1 \<rparr>"
  have "(ps_set_low d s)\<lparr> ps_current_calls := ps_current_calls (ps_set_low d s) + 1 \<rparr> = ps_set_low d ?s"
    and "\<And>x. ps_max_calls (ps_set_low d x) = ps_max_calls x" "\<And>x. ps_current_calls (ps_set_low d x) = ps_current_calls x"
    and "\<And>x y. (ps_set_low d x)\<lparr> ps_current_calls := y \<rparr> = ps_set_low d (x\<lparr> ps_current_calls := y \<rparr>)"
    and "\<And>x y. (ps_set_low d x)\<lparr> ps_posted := ps_posted (ps_set_low d x) @ y \<rparr> = ps_set_low d (x\<lparr> ps_posted := ps_posted x @ y \<rparr>)"
    by (simp_all add: ps_set_low_def ps_on_layer_def ps_max_calls_def)
  then show ?thesis
    unfolding ps_process_call_def Let_def
    by (cases "send_busy llu ?s") (auto simp: send_busy_set_low split: sum.splits)
qed

lemma ps_dispatch_set_low:
  "ps_dispatch llu (ps_set_low d s) = (ps_set_low d (fst (ps_dispatch llu s)), snd (ps_dispatch llu s))"
proof -
  have push: "push_rpc_message k m (ps_layer (ps_set_low d s))
      = (case push_rpc_message k m (ps_layer s) of (l, n) \<Rightarrow> (l\<lparr> pl_lowlevel := d \<rparr>, n))" for k m
    by (simp add: ps_set_low_def ps_on_layer_def layer_ops_set_low)
  have upd: "(ps_set_low d s)\<lparr> ps_layer := l\<lparr> pl_lowlevel := d \<rparr> \<rparr> = ps_set_low d (s\<lparr> ps_layer := l \<rparr>)" for l
    by (simp add: ps_set_low_def ps_on_layer_def)
  have call: "call_rpc_method u (ps_layer (ps_set_low d x))
      = (case call_rpc_method u (ps_layer x) of (l, r) \<Rightarrow> (l\<lparr> pl_lowlevel := d \<rparr>, r))" for u x
    by (simp add: ps_set_low_def ps_on_layer_def layer_ops_set_low)
  have upd': "(ps_set_low d x)\<lparr> ps_layer := l\<lparr> pl_lowlevel := d \<rparr> \<rparr> = ps_set_low d (x\<lparr> ps_layer := l \<rparr>)" for l x
    by (simp add: ps_set_low_def ps_on_layer_def)
  have ins: "ps_process_insertion llu (ps_set_low d s)
      = (ps_set_low d (fst (ps_process_insertion llu s)), snd (ps_process_insertion llu s))"
    by (simp add: ps_process_insertion_def push upd Let_def split_beta ps_process_call_set_low call upd')
  have "ps_process_answer llu (ps_set_low d s) = ps_set_low d (ps_process_answer llu s)"
    by (simp add: ps_process_answer_def ps_set_low_def ps_on_layer_def layer_ops_set_low split_beta)
  with ins show ?thesis by (simp add: ps_dispatch_def ps_process_call_set_low)
qed

lemma pc_dispatch_set_low:
  "pc_dispatch llu (pc_set_low d s) = (pc_set_low d (fst (pc_dispatch llu s)), snd (pc_dispatch llu s))"
  by (simp add: pc_dispatch_def pc_process_call_def pc_process_answer_def pc_process_insertion_def pc_set_low_def
      pc_on_layer_def layer_ops_set_low Let_def split_beta)

interpretation server_units: unit_reader ps_low ps_set_low ps_dispatch on_rcp_call_ready ps_process_data
proof
  fix s :: protocol_s and parse d u s'
  show "ps_low (ps_set_low d s) = d" "ps_set_low (ps_low s) s = s"
    by (simp_all add: ps_low_def ps_set_low_def ps_on_layer_def)
  show "ps_set_low d (ps_set_low d' s) = ps_set_low d s" for d' by (simp add: ps_set_low_def ps_on_layer_def)
  show "ps_dispatch u (ps_set_low d s) = (ps_set_low d (fst (ps_dispatch u s)), snd (ps_dispatch u s))"
    by (rule ps_dispatch_set_low)
  show "dp_queue_size (ps_low s) = 0 \<Longrightarrow> on_rcp_call_ready parse s = (s, Inr ())"
    by (subst on_rcp_call_ready.simps) (simp add: ps_low_def)
  show "on_rcp_call_ready parse s = on_rcp_call_ready parse s'"
    if "dp_queue_size (ps_low s) \<noteq> 0" "pop_proto_message parse (ps_low s) = (d, Inr (Some u))"
      "ps_dispatch u (ps_set_low d s) = (s', Inr ())"
  proof -
    have "ps_pop_message parse s = (ps_set_low d s, Some u)"
      using that(2) by (simp add: ps_pop_message_def ps_low_def ps_set_low_def)
    then show ?thesis using that(1,3) by (subst on_rcp_call_ready.simps) (simp add: ps_low_def)
  qed
qed (simp add: ps_process_data_def)

interpretation client_units: unit_reader pc_low pc_set_low pc_dispatch on_rpc_process pc_process_data
proof
  fix s :: protocol_c and parse d u s'
  show "pc_low (pc_set_low d s) = d" "pc_set_low (pc_low s) s = s"
    by (simp_all add: pc_low_def pc_set_low_def pc_on_layer_def)
  show "pc_set_low d (pc_set_low d' s) = pc_set_low d s" for d' by (simp add: pc_set_low_def pc_on_layer_def)
  show "pc_dispatch u (pc_set_low d s) = (pc_set_low d (fst (pc_dispatch u s)), snd (pc_dispatch u s))"
    by (rule pc_dispatch_set_low)
  show "dp_queue_size (pc_low s) = 0 \<Longrightarrow> on_rpc_process parse s = (s, Inr ())"
    by (subst on_rpc_process.simps) (simp add: pc_low_def)
  show "on_rpc_process parse s = on_rpc_process parse s'"
    if "dp_queue_size (pc_low s) \<noteq> 0" "pop_proto_message parse (pc_low s) = (d, Inr (Some u))"
      "pc_dispatch u (pc_set_low d s) = (s', Inr ())"
    using that by (subst on_rpc_process.simps) (simp add: pc_low_def pc_set_low_def)
qed (simp add: pc_process_data_def)

end
