(* ===== verification/Protobuf.thy ===== *)
theory Protobuf
  imports Prelude
begin

text \<open>
  The wire format of protocol buffers (version 2), as far as the messages of the program use it:
  base-128 numbers, length-delimited fields, fields in the order of their numbers. The program gets
  its serialisers from the protocol buffers library; the development takes them as arguments, and
  this theory provides an instance of them, so that every theorem about parsed messages can be
  applied to real bytes.
\<close>

subsection \<open>Numbers\<close>

fun vint :: "nat \<Rightarrow> bytes" where
  "vint n = (if n < 128 then [of_nat n] else of_nat (n mod 128 + 128) # vint (n div 128))"

declare vint.simps [simp del]

fun dec_vint :: "bytes \<Rightarrow> (nat \<times> bytes) option" where
  "dec_vint [] = None"
| "dec_vint (b # bs) =
     (if unat b < 128 then Some (unat b, bs)
      else map_option (\<lambda>(n, r). (unat b - 128 + 128 * n, r)) (dec_vint bs))"

lemma vint_not_Nil [simp]: "vint n \<noteq> []"
  by (subst vint.simps) simp

lemma unat_of_nat_byte: "n < 256 \<Longrightarrow> unat (of_nat n :: byte) = n"
  by (rule unat_of_nat_small) simp

lemma dec_vint_vint [simp]: "dec_vint (vint n @ bs) = Some (n, bs)"
proof (induction n rule: vint.induct)
  case (1 n)
  show ?case
  proof (cases "n < 128")
    case True
    then show ?thesis by (simp add: vint.simps [of n] unat_of_nat_byte)
  next
    case False
    have "unat (of_nat (n mod 128 + 128) :: byte) = n mod 128 + 128" by (rule unat_of_nat_byte) simp
    with False 1 show ?thesis by (simp add: vint.simps [of n] del: of_nat_add)
  qed
qed

lemma dec_vint_shorter: "dec_vint bs = Some (n, r) \<Longrightarrow> length r < length bs"
  by (induction bs arbitrary: n r) (fastforce split: if_splits)+

subsection \<open>Fields\<close>

datatype fval = Fvarint nat | Flen bytes

type_synonym field = "nat \<times> fval"

fun enc_field :: "field \<Rightarrow> bytes" where
  "enc_field (f, Fvarint n) = vint (8 * f) @ vint n"
| "enc_field (f, Flen b) = vint (8 * f + 2) @ vint (length b) @ b"

definition enc_fields :: "field list \<Rightarrow> bytes" where
  "enc_fields fs = concat (map enc_field fs)"

definition dec_field :: "bytes \<Rightarrow> (field \<times> bytes) option" where
  "dec_field bs =
     (case dec_vint bs of
        None \<Rightarrow> None
      | Some (t, r) \<Rightarrow>
          (case dec_vint r of
             None \<Rightarrow> None
           | Some (n, r') \<Rightarrow>
               if t mod 8 = 0 then Some ((t div 8, Fvarint n), r')
               else if t mod 8 = 2 \<and> n \<le> length r' then Some ((t div 8, Flen (take n r')), drop n r')
               else None))"

lemma dec_field_shorter: "dec_field bs = Some (f, r) \<Longrightarrow> length r < length bs"
  by (fastforce simp: dec_field_def dest!: dec_vint_shorter split: option.splits if_splits)

function dec_fields :: "bytes \<Rightarrow> field list option" where
  "dec_fields bs =
     (if bs = [] then Some []
      else case dec_field bs of
             None \<Rightarrow> None
           | Some (f, r) \<Rightarrow> map_option (\<lambda>fs. f # fs) (dec_fields r))"
  by pat_completeness auto
termination
  by (relation "measure length") (auto simp: dec_field_shorter)

declare dec_fields.simps [simp del]

lemma len_tag: "(8 * f + 2) mod 8 = (2 :: nat)" "(8 * f + 2) div 8 = (f :: nat)"
  by presburger+

lemma dec_field_enc: "dec_field (enc_field f @ bs) = Some (f, bs)"
  by (cases f; cases "snd f") (auto simp: dec_field_def len_tag simp del: add_2_eq_Suc add_2_eq_Suc')

lemma dec_enc_fields [simp]: "dec_fields (enc_fields fs) = Some fs"
proof (induction fs)
  case (Cons f fs)
  have "enc_field f \<noteq> []" by (cases f; cases "snd f") auto
  then show ?case
    using Cons dec_field_enc [of f "enc_fields fs"]
    by (subst dec_fields.simps) (simp add: enc_fields_def)
qed (simp add: enc_fields_def dec_fields.simps)

subsection \<open>Lengths\<close>

lemma vint_length: "length (vint n) \<le> Suc (n div 128)"
proof (induction n rule: vint.induct)
  case (1 n)
  show ?case
  proof (cases "n < 128")
    case False
    then have "n div 128 div 128 < n div 128" by simp
    with 1 [OF False] False show ?thesis by (simp add: vint.simps [of n])
  qed (simp add: vint.simps [of n])
qed

text \<open>An upper bound of the length of a field that needs no evaluation of its bytes.\<close>

fun field_bound :: "field \<Rightarrow> nat" where
  "field_bound (f, Fvarint n) = 2 + f + n div 128"
| "field_bound (f, Flen b) = 3 + f + 2 * length b"

lemma enc_field_bound: "length (enc_field x) \<le> field_bound x"
proof (cases x rule: field_bound.cases)
  case (1 f n)
  then show ?thesis using vint_length [of "8 * f"] vint_length [of n] by simp
next
  case (2 f b)
  then show ?thesis using vint_length [of "8 * f + 2"] vint_length [of "length b"] by simp
qed

lemma enc_fields_bound: "length (enc_fields fs) \<le> sum_list (map field_bound fs)"
proof (induction fs)
  case (Cons x fs)
  then show ?case using enc_field_bound [of x] by (simp add: enc_fields_def)
qed (simp add: enc_fields_def)

subsection \<open>Values\<close>

text \<open>The last occurrence of a field counts; an absent field has the default of its type.\<close>

definition get_varint :: "nat \<Rightarrow> field list \<Rightarrow> nat" where
  "get_varint k fs = (case map_of (rev fs) k of Some (Fvarint n) \<Rightarrow> n | _ \<Rightarrow> 0)"

definition get_len :: "nat \<Rightarrow> field list \<Rightarrow> bytes" where
  "get_len k fs = (case map_of (rev fs) k of Some (Flen b) \<Rightarrow> b | _ \<Rightarrow> [])"

definition get_repeated :: "nat \<Rightarrow> field list \<Rightarrow> nat list" where
  "get_repeated k fs = List.map_filter (\<lambda>(f, v). case v of Fvarint n \<Rightarrow> if f = k then Some n else None | _ \<Rightarrow> None) fs"

definition of_text :: "string \<Rightarrow> bytes" where
  "of_text s = map (\<lambda>c. of_nat (of_char c)) s"

definition to_text :: "bytes \<Rightarrow> string" where
  "to_text b = map (\<lambda>x. char_of (unat x)) b"

lemma to_text_of_text [simp]: "to_text (of_text s) = s"
  by (induction s) (simp_all add: of_text_def to_text_def unat_of_nat_byte)

text \<open>A whole message: whether it could be parsed, and what it reads as.\<close>

definition parse_with :: "(field list \<Rightarrow> 'm) \<Rightarrow> bytes \<Rightarrow> bool \<times> 'm" where
  "parse_with f bs = (case dec_fields bs of Some fs \<Rightarrow> (True, f fs) | None \<Rightarrow> (False, f []))"

lemma parse_with_enc [simp]: "parse_with f (enc_fields fs) = (True, f fs)"
  by (simp add: parse_with_def)

end
