(* ===== verification/Auth_Messages.thy ===== *)
theory Auth_Messages
  imports Protobuf Rpc_Types Lowlevel
begin

text \<open>
  The messages of the handshake (\<open>protocol-base/vtrc-auth.proto\<close>). Their serialisers and parsers are
  generated code; they are gathered in the record \<open>auth_codec\<close>, an argument of the handshake.
  \<open>ParseFromString\<close> gives whether it succeeded and the message it leaves in either case.
  \<open>codec_ok\<close> is what the protocol buffers library documents: what was serialised is parsed back.
\<close>

record init_protocol =
  ip_hash_supported :: "nat list"
  ip_transform_supported :: "nat list"

record client_selection =
  cs_hash :: nat
  cs_transform :: nat
  cs_id :: string

record transformer_setup =
  ts_salt1 :: bytes
  ts_salt2 :: bytes

record init_capsule =
  ic_text :: string
  ic_ready :: bool
  ic_error :: error_container
  ic_body :: bytes

definition init_capsule_new :: init_capsule where
  "init_capsule_new = \<lparr> ic_text = [], ic_ready = False, ic_error = no_error, ic_body = [] \<rparr>"

record auth_codec =
  enc_capsule :: "init_capsule \<Rightarrow> bytes"
  dec_capsule :: "bytes \<Rightarrow> bool \<times> init_capsule"
  enc_protocol :: "init_protocol \<Rightarrow> bytes"
  dec_protocol :: "bytes \<Rightarrow> bool \<times> init_protocol"
  enc_selection :: "client_selection \<Rightarrow> bytes"
  dec_selection :: "bytes \<Rightarrow> bool \<times> client_selection"
  enc_setup :: "transformer_setup \<Rightarrow> bytes"
  dec_setup :: "bytes \<Rightarrow> bool \<times> transformer_setup"
  enc_session :: "session_options \<Rightarrow> bytes"
  dec_session :: "bytes \<Rightarrow> bool \<times> session_options"

definition codec_ok :: "auth_codec \<Rightarrow> bool" where
  "codec_ok cd \<longleftrightarrow>
     (\<forall>m. dec_capsule cd (enc_capsule cd m) = (True, m))
     \<and> (\<forall>m. dec_protocol cd (enc_protocol cd m) = (True, m))
     \<and> (\<forall>m. dec_selection cd (enc_selection cd m) = (True, m))
     \<and> (\<forall>m. dec_setup cd (enc_setup cd m) = (True, m))
     \<and> (\<forall>m. dec_session cd (enc_session cd m) = (True, m))"

subsection \<open>An instance\<close>

definition error_fields :: "error_container \<Rightarrow> field list" where
  "error_fields e = [(1, Fvarint (ec_code e)), (2, Fvarint (ec_category e)),
     (3, Fvarint (of_bool (ec_fatal e))), (10, Flen (of_text (ec_additional e)))]"

definition fields_error :: "field list \<Rightarrow> error_container" where
  "fields_error fs = \<lparr> ec_code = get_varint 1 fs, ec_category = get_varint 2 fs,
     ec_fatal = (get_varint 3 fs \<noteq> 0), ec_additional = to_text (get_len 10 fs) \<rparr>"

definition capsule_fields :: "init_capsule \<Rightarrow> field list" where
  "capsule_fields m = [(1, Flen (of_text (ic_text m))), (2, Fvarint (of_bool (ic_ready m))),
     (3, Flen (enc_fields (error_fields (ic_error m)))), (10, Flen (ic_body m))]"

definition fields_capsule :: "field list \<Rightarrow> init_capsule" where
  "fields_capsule fs = \<lparr> ic_text = to_text (get_len 1 fs), ic_ready = (get_varint 2 fs \<noteq> 0),
     ic_error = snd (parse_with fields_error (get_len 3 fs)), ic_body = get_len 10 fs \<rparr>"

definition protocol_fields :: "init_protocol \<Rightarrow> field list" where
  "protocol_fields m = map (\<lambda>h. (1, Fvarint h)) (ip_hash_supported m)
     @ map (\<lambda>t. (2, Fvarint t)) (ip_transform_supported m)"

definition fields_protocol :: "field list \<Rightarrow> init_protocol" where
  "fields_protocol fs = \<lparr> ip_hash_supported = get_repeated 1 fs, ip_transform_supported = get_repeated 2 fs \<rparr>"

definition selection_fields :: "client_selection \<Rightarrow> field list" where
  "selection_fields m = [(1, Fvarint (cs_hash m)), (2, Fvarint (cs_transform m)), (3, Flen (of_text (cs_id m)))]"

definition fields_selection :: "field list \<Rightarrow> client_selection" where
  "fields_selection fs = \<lparr> cs_hash = get_varint 1 fs, cs_transform = get_varint 2 fs,
     cs_id = to_text (get_len 3 fs) \<rparr>"

definition setup_fields :: "transformer_setup \<Rightarrow> field list" where
  "setup_fields m = [(1, Flen (ts_salt1 m)), (2, Flen (ts_salt2 m))]"

definition fields_setup :: "field list \<Rightarrow> transformer_setup" where
  "fields_setup fs = \<lparr> ts_salt1 = get_len 1 fs, ts_salt2 = get_len 2 fs \<rparr>"

definition session_fields :: "session_options \<Rightarrow> field list" where
  "session_fields m = [(1, Fvarint (unat (so_max_active_calls m))), (2, Fvarint (unat (so_max_message_length m))),
     (4, Fvarint (unat (so_max_stack_size m))), (5, Fvarint (unat (so_read_buffer_size m))),
     (6, Fvarint (unat (so_init_timeout m)))]"

definition fields_session :: "field list \<Rightarrow> session_options" where
  "fields_session fs = \<lparr> so_max_active_calls = of_nat (get_varint 1 fs),
     so_max_message_length = of_nat (get_varint 2 fs), so_max_stack_size = of_nat (get_varint 4 fs),
     so_read_buffer_size = of_nat (get_varint 5 fs), so_init_timeout = of_nat (get_varint 6 fs) \<rparr>"

definition protobuf_codec :: auth_codec where
  "protobuf_codec =
     \<lparr> enc_capsule = (\<lambda>m. enc_fields (capsule_fields m)), dec_capsule = parse_with fields_capsule,
       enc_protocol = (\<lambda>m. enc_fields (protocol_fields m)), dec_protocol = parse_with fields_protocol,
       enc_selection = (\<lambda>m. enc_fields (selection_fields m)), dec_selection = parse_with fields_selection,
       enc_setup = (\<lambda>m. enc_fields (setup_fields m)), dec_setup = parse_with fields_setup,
       enc_session = (\<lambda>m. enc_fields [(1, Flen (enc_fields (session_fields m)))]),
       dec_session = parse_with (\<lambda>fs. snd (parse_with fields_session (get_len 1 fs))) \<rparr>"

lemma fields_repeated [simp]:
  "get_repeated k (map (\<lambda>x. (k', Fvarint x)) xs) = (if k' = k then xs else [])"
  "get_repeated k (fs @ gs) = get_repeated k fs @ get_repeated k gs"
  by (simp_all add: get_repeated_def map_filter_def comp_def)

lemma protobuf_codec_ok: "codec_ok protobuf_codec"
  by (simp add: codec_ok_def protobuf_codec_def capsule_fields_def fields_capsule_def protocol_fields_def
      fields_protocol_def selection_fields_def fields_selection_def setup_fields_def fields_setup_def
      session_fields_def fields_session_def error_fields_def fields_error_def get_len_def get_varint_def)

text \<open>Bounds of the lengths of the messages, in terms of their parts.\<close>

lemma error_bound: "length (enc_fields (error_fields e)) \<le>
    32 + ec_code e div 128 + ec_category e div 128 + 2 * length (ec_additional e)"
  using enc_fields_bound [of "error_fields e"] by (simp add: error_fields_def of_text_def)

lemma capsule_bound: "length (enc_capsule protobuf_codec m) \<le>
    96 + 2 * length (ic_text m) + 2 * length (ic_body m)
       + 2 * (ec_code (ic_error m) div 128 + ec_category (ic_error m) div 128 + 2 * length (ec_additional (ic_error m)))"
  using enc_fields_bound [of "capsule_fields m"] error_bound [of "ic_error m"]
  by (simp add: protobuf_codec_def capsule_fields_def of_text_def)

lemma protocol_bound: "length (enc_protocol protobuf_codec m) \<le>
    sum_list (map (\<lambda>n. 3 + n) (ip_hash_supported m)) + sum_list (map (\<lambda>n. 4 + n) (ip_transform_supported m))"
proof -
  have "sum_list (map (field_bound \<circ> (\<lambda>h. (1, Fvarint h))) xs) \<le> sum_list (map (\<lambda>n. 3 + n) xs)"
    "sum_list (map (field_bound \<circ> (\<lambda>h. (2, Fvarint h))) xs) \<le> sum_list (map (\<lambda>n. 4 + n) xs)" for xs
    by (induction xs) (auto intro: add_mono)
  note h = this(1) [of "ip_hash_supported m"] and t = this(2) [of "ip_transform_supported m"]
  show ?thesis
    using add_mono [OF h t] enc_fields_bound [of "protocol_fields m"]
    by (simp add: protobuf_codec_def protocol_fields_def)
qed

lemma selection_bound: "length (enc_selection protobuf_codec m) \<le>
    16 + cs_hash m div 128 + cs_transform m div 128 + 2 * length (cs_id m)"
  using enc_fields_bound [of "selection_fields m"] by (simp add: protobuf_codec_def selection_fields_def of_text_def)

lemma setup_bound: "length (enc_setup protobuf_codec m) \<le> 16 + 2 * length (ts_salt1 m) + 2 * length (ts_salt2 m)"
  using enc_fields_bound [of "setup_fields m"] by (simp add: protobuf_codec_def setup_fields_def)

lemma session_bound: "length (enc_session protobuf_codec m) \<le>
    128 + 2 * (unat (so_max_active_calls m) div 128 + unat (so_max_message_length m) div 128
      + unat (so_max_stack_size m) div 128 + unat (so_read_buffer_size m) div 128 + unat (so_init_timeout m) div 128)"
  using enc_fields_bound [of "[(1, Flen (enc_fields (session_fields m)))]"] enc_fields_bound [of "session_fields m"]
  by (simp add: protobuf_codec_def session_fields_def)

end
