(* ===== verification/Handshake.thy ===== *)
theory Handshake
  imports Auth_Messages
begin

text \<open>
  The handshake that opens a connection: the server's side (\<open>lib/vtrc/server/connection/default.cpp\<close>)
  and the client's (\<open>lib/vtrc/client/connection-default.cpp\<close>). The server greets with what it
  supports, the client selects a hash and, if it has a session key, the transformer; with a
  transformer, both sides choose salts for one direction each; at the end the server sends the
  options of the session.

  A message is written by posting it; the transport packs it later, with the hash and transformer
  the protocol then has, and runs the callback of the write. \<open>drain\<close> does this for all posted
  writes. \<open>feed\<close> is what the read handler does with the chunks that arrive. What the protocol
  asks of the connection is recorded in a list of events.
\<close>

subsection \<open>Shared parts\<close>

datatype accessor_event =
    Ev_client_id string
  | Ev_close
  | Ev_connection_close
  | Ev_error error_container string
  | Ev_ready bool
  | Ev_configure session_options

datatype write_callback = Cb_none | Cb_start_reading | Cb_close_client | Cb_set_options

type_synonym posted = "bytes \<times> write_callback"

definition auth_error :: "nat \<Rightarrow> string \<Rightarrow> error_container" where
  "auth_error code add =
     \<lparr> ec_code = code, ec_category = CATEGORY_INTERNAL, ec_fatal = False, ec_additional = add \<rparr>"

text \<open>Both sides use the ChaCha cipher for the transformer they negotiate. With an empty key its
  constructor does not return.\<close>

definition default_cypher_create :: "bytes \<Rightarrow> transformer option" where
  "default_cypher_create key = map_option Transformer_chacha (chacha_create key)"

definition default_hash_value :: nat where
  "default_hash_value = HASH_CRC_32"

text \<open>The bytes of one connection arrive in chunks. The stage function is called at most once for
  each chunk; when the handshake is over, messages stay in the queue for the protocol layer.\<close>

fun feed ::
    "('s \<Rightarrow> default_protocol) \<Rightarrow> (default_protocol \<Rightarrow> 's \<Rightarrow> 's) \<Rightarrow> ('s \<Rightarrow> 's option) \<Rightarrow> bytes list \<Rightarrow> 's \<Rightarrow>
     (exn + 's) option" where
  "feed dp set_dp do_handshake [] s = Some (Inr s)"
| "feed dp set_dp do_handshake (c # cs) s =
     (case process_data (dp s) c of
        (d, Inl e) \<Rightarrow> Some (Inl e)
      | (d, Inr called) \<Rightarrow>
          if called \<and> dp_process_stage d = Do_handshake
          then (case do_handshake (set_dp d s) of
                  None \<Rightarrow> None
                | Some s' \<Rightarrow> feed dp set_dp do_handshake cs s')
          else feed dp set_dp do_handshake cs (set_dp d s))"

subsection \<open>The server\<close>

datatype server_stage = On_client_selection | On_client_transformer

record server_app =
  sa_session_key :: "string \<Rightarrow> bytes"
  sa_session_key_required :: "string \<Rightarrow> bool"
  sa_configure_session :: "session_options \<Rightarrow> session_options"

record server_handshake =
  sh_dp :: default_protocol
  sh_stage :: server_stage
  sh_client_id :: string
  sh_session_opts :: session_options
  sh_ready :: bool
  sh_timer :: bool
  sh_random :: random_device
  sh_posted :: "posted list"
  sh_events :: "accessor_event list"

definition sh_set_dp :: "default_protocol \<Rightarrow> server_handshake \<Rightarrow> server_handshake" where
  "sh_set_dp d s = s\<lparr> sh_dp := d \<rparr>"

definition sh_post :: "bytes \<Rightarrow> write_callback \<Rightarrow> server_handshake \<Rightarrow> server_handshake" where
  "sh_post data cb s = s\<lparr> sh_posted := sh_posted s @ [(data, cb)] \<rparr>"

definition sh_event :: "accessor_event \<Rightarrow> server_handshake \<Rightarrow> server_handshake" where
  "sh_event ev s = s\<lparr> sh_events := sh_events s @ [ev] \<rparr>"

definition hello_capsule :: "auth_codec \<Rightarrow> init_capsule" where
  "hello_capsule cd =
     init_capsule_new\<lparr> ic_text := ''Tervetuloa!'', ic_ready := True,
       ic_body := enc_protocol cd \<lparr> ip_hash_supported = [HASH_NONE, HASH_CRC_32, HASH_SHA2_256],
                                    ip_transform_supported = [TRANSFORM_NONE, TRANSFORM_ERSEEFOR] \<rparr> \<rparr>"

definition first_message :: "auth_codec \<Rightarrow> bytes" where
  "first_message cd = enc_capsule cd (hello_capsule cd)"

definition server_handshake_new :: "session_options \<Rightarrow> random_device \<Rightarrow> server_handshake" where
  "server_handshake_new opts rd =
     \<lparr> sh_dp = dp_configure opts dp_new, sh_stage = On_client_selection, sh_client_id = [],
       sh_session_opts = opts, sh_ready = False, sh_timer = False, sh_random = rd, sh_posted = [],
       sh_events = [] \<rparr>"

definition sh_init :: "auth_codec \<Rightarrow> server_handshake \<Rightarrow> server_handshake" where
  "sh_init cd s =
     (let s = s\<lparr> sh_dp := dp_switch_to_handshake (sh_dp s) \<rparr>;
          s = sh_post (first_message cd) Cb_start_reading s
      in s\<lparr> sh_timer := True \<rparr>)"

definition sh_send :: "auth_codec \<Rightarrow> init_capsule \<Rightarrow> server_handshake \<Rightarrow> server_handshake" where
  "sh_send cd cap = sh_post (enc_capsule cd cap) Cb_none"

definition send_and_close :: "auth_codec \<Rightarrow> init_capsule \<Rightarrow> server_handshake \<Rightarrow> server_handshake" where
  "send_and_close cd cap = sh_post (enc_capsule cd cap) Cb_close_client"

text \<open>\<open>fired\<close>: the timer has expired and was not cancelled.\<close>

definition on_init_timeout :: "auth_codec \<Rightarrow> bool \<Rightarrow> server_handshake \<Rightarrow> server_handshake" where
  "on_init_timeout cd fired s =
     (if fired \<and> \<not> sh_ready s
      then send_and_close cd (init_capsule_new\<lparr> ic_error := no_error\<lparr> ec_code := ERR_TIMEOUT \<rparr> \<rparr>) s
      else s)"

definition ready_capsule :: "auth_codec \<Rightarrow> server_app \<Rightarrow> session_options \<Rightarrow> init_capsule \<Rightarrow> init_capsule" where
  "ready_capsule cd app opts capsule =
     capsule\<lparr> ic_ready := True, ic_text := ''Kiva nahda sinut!'',
              ic_body := enc_session cd (sa_configure_session app opts) \<rparr>"

definition set_client_ready :: "auth_codec \<Rightarrow> server_app \<Rightarrow> init_capsule \<Rightarrow> server_handshake \<Rightarrow> server_handshake" where
  "set_client_ready cd app capsule s =
     (let s = s\<lparr> sh_timer := False \<rparr>;
          opts = sa_configure_session app (sh_session_opts s);
          s = s\<lparr> sh_dp := dp_configure opts (sh_dp s), sh_ready := True \<rparr>
      in sh_send cd (ready_capsule cd app (sh_session_opts s) capsule) s)"

definition sh_set_transformer :: "transformer \<Rightarrow> server_handshake \<Rightarrow> server_handshake" where
  "sh_set_transformer t s = s\<lparr> sh_dp := (sh_dp s)\<lparr> dp_transformer := t \<rparr> \<rparr>"

definition sh_set_revertor :: "transformer \<Rightarrow> server_handshake \<Rightarrow> server_handshake" where
  "sh_set_revertor t s = s\<lparr> sh_dp := (sh_dp s)\<lparr> dp_revertor := t \<rparr> \<rparr>"

definition sh_set_hash :: "hash_iface \<Rightarrow> server_handshake \<Rightarrow> server_handshake" where
  "sh_set_hash h s = s\<lparr> sh_dp := (sh_dp s)\<lparr> dp_hash_checker := h, dp_hash_maker := h \<rparr> \<rparr>"

definition on_client_transformer ::
    "auth_codec \<Rightarrow> server_app \<Rightarrow> bytes \<Rightarrow> server_handshake \<Rightarrow> server_handshake option" where
  "on_client_transformer cd app data s =
     (case dec_capsule cd data of (check, capsule) \<Rightarrow>
        if \<not> check then Some (sh_event Ev_close s)
        else if \<not> ic_ready capsule then Some (sh_event Ev_connection_close s)
        else
          (let tsetup = snd (dec_setup cd (ic_body capsule));
               key = sa_session_key app (sh_client_id s);
               key = create_key sha256i key (ts_salt1 tsetup) (ts_salt2 tsetup)
           in map_option (\<lambda>t. set_client_ready cd app init_capsule_new (sh_set_transformer t s))
                (default_cypher_create key)))"

definition setup_transformer ::
    "auth_codec \<Rightarrow> server_app \<Rightarrow> nat \<Rightarrow> server_handshake \<Rightarrow> server_handshake option" where
  "setup_transformer cd app ident s =
     (if ident = TRANSFORM_NONE then
        if \<not> sa_session_key_required app (sh_client_id s)
        then Some (set_client_ready cd app init_capsule_new s)
        else Some (send_and_close cd
               (init_capsule_new\<lparr> ic_error := auth_error ERR_ACCESS ''Session key required'' \<rparr>) s)
      else if ident = TRANSFORM_ERSEEFOR then
        (case generate_key_infos sha256i (sh_random s) (sa_session_key app (sh_client_id s)) of
           (rd, salt1, salt2, key) \<Rightarrow>
             map_option
               (\<lambda>t. let s = sh_set_revertor t (s\<lparr> sh_random := rd \<rparr>);
                        capsule = init_capsule_new\<lparr> ic_ready := True,
                          ic_body := enc_setup cd \<lparr> ts_salt1 = salt1, ts_salt2 = salt2 \<rparr> \<rparr>
                    in sh_send cd capsule (s\<lparr> sh_stage := On_client_transformer \<rparr>))
               (default_cypher_create key))
      else Some (send_and_close cd
             (init_capsule_new\<lparr> ic_error := auth_error ERR_INVALID_VALUE ''Invalid transformer'' \<rparr>) s))"

definition on_client_selection ::
    "auth_codec \<Rightarrow> server_app \<Rightarrow> bytes \<Rightarrow> server_handshake \<Rightarrow> server_handshake option" where
  "on_client_selection cd app data s =
     (case dec_capsule cd data of (check, capsule) \<Rightarrow>
        if \<not> check then Some (sh_event Ev_close s)
        else if \<not> ic_ready capsule then Some s
        else
          (let cs = snd (dec_selection cd (ic_body capsule)) in
           case hash_create_by_index sha256i (cs_hash cs) of
             None \<Rightarrow> Some (sh_event Ev_close s)
           | Some h \<Rightarrow>
               setup_transformer cd app (cs_transform cs)
                 (sh_set_hash h (sh_event (Ev_client_id (cs_id cs)) (s\<lparr> sh_client_id := cs_id cs \<rparr>)))))"

definition sh_stage_function ::
    "auth_codec \<Rightarrow> server_app \<Rightarrow> bytes \<Rightarrow> server_handshake \<Rightarrow> server_handshake option" where
  "sh_stage_function cd app data s =
     (case sh_stage s of
        On_client_selection \<Rightarrow> on_client_selection cd app data s
      | On_client_transformer \<Rightarrow> on_client_transformer cd app data s)"

text \<open>\<open>do_handshake\<close> runs with a message in the queue; taking one from an empty queue is undefined.\<close>

definition sh_do_handshake :: "auth_codec \<Rightarrow> server_app \<Rightarrow> server_handshake \<Rightarrow> server_handshake option" where
  "sh_do_handshake cd app s =
     (case pop_raw_message (sh_dp s) of
        (d, Inr (Some data)) \<Rightarrow>
          map_option
            (\<lambda>s. if sh_ready s
                 then sh_event (Ev_ready True) (s\<lparr> sh_dp := dp_switch_to_ready (sh_dp s) \<rparr>) else s)
            (sh_stage_function cd app data (s\<lparr> sh_dp := d \<rparr>))
      | (d, Inl _) \<Rightarrow> None
      | (d, Inr None) \<Rightarrow> Some (sh_event Ev_close (sh_event (Ev_error (auth_error ERR_INTERNAL []) ''Bad hash.'')
                    (s\<lparr> sh_dp := d \<rparr>))))"

text \<open>The transport packs what was posted; \<open>close_client\<close> is the callback of a last message.\<close>

fun sh_written :: "write_callback \<Rightarrow> server_handshake \<Rightarrow> server_handshake" where
  "sh_written Cb_close_client s = sh_event Ev_connection_close (s\<lparr> sh_ready := False \<rparr>)"
| "sh_written _ s = s"

fun sh_drain_loop :: "posted list \<Rightarrow> server_handshake \<Rightarrow> server_handshake \<times> bytes list" where
  "sh_drain_loop [] s = (s, [])"
| "sh_drain_loop ((data, cb) # ps) s =
     (case pack_message (sh_dp s) data of
        (d, w) \<Rightarrow>
          (case sh_drain_loop ps (sh_written cb (s\<lparr> sh_dp := d \<rparr>)) of (s, ws) \<Rightarrow> (s, w # ws)))"

definition sh_drain :: "server_handshake \<Rightarrow> server_handshake \<times> bytes list" where
  "sh_drain s = sh_drain_loop (sh_posted s) (s\<lparr> sh_posted := [] \<rparr>)"

definition sh_read ::
    "auth_codec \<Rightarrow> server_app \<Rightarrow> bytes list \<Rightarrow> server_handshake \<Rightarrow> (exn + server_handshake) option" where
  "sh_read cd app = feed sh_dp sh_set_dp (sh_do_handshake cd app)"

subsection \<open>The client\<close>

datatype protocol_stage = STAGE_HELLO | STAGE_SETUP | STAGE_ERROR | STAGE_READY

text \<open>\<open>hc_key\<close> is the entry \<open>session_key\<close> of the client's environment, if it exists.\<close>

record client_handshake =
  hc_dp :: default_protocol
  hc_stage :: protocol_stage
  hc_session_id :: string
  hc_key :: "bytes option"
  hc_ready :: bool
  hc_random :: random_device
  hc_posted :: "posted list"
  hc_events :: "accessor_event list"

definition client_handshake_new :: "string \<Rightarrow> bytes option \<Rightarrow> random_device \<Rightarrow> client_handshake" where
  "client_handshake_new ident key rd =
     \<lparr> hc_dp = dp_configure default_session_options dp_new, hc_stage = STAGE_HELLO, hc_session_id = ident,
       hc_key = key, hc_ready = False, hc_random = rd, hc_posted = [], hc_events = [] \<rparr>"

definition hc_set_dp :: "default_protocol \<Rightarrow> client_handshake \<Rightarrow> client_handshake" where
  "hc_set_dp d c = c\<lparr> hc_dp := d \<rparr>"

definition hc_post :: "bytes \<Rightarrow> write_callback \<Rightarrow> client_handshake \<Rightarrow> client_handshake" where
  "hc_post data cb c = c\<lparr> hc_posted := hc_posted c @ [(data, cb)] \<rparr>"

definition hc_event :: "accessor_event \<Rightarrow> client_handshake \<Rightarrow> client_handshake" where
  "hc_event ev c = c\<lparr> hc_events := hc_events c @ [ev] \<rparr>"

definition hc_fail :: "error_container \<Rightarrow> string \<Rightarrow> client_handshake \<Rightarrow> client_handshake" where
  "hc_fail err mes c = hc_event Ev_close (hc_event (Ev_error err mes) c)"

definition session_key :: "client_handshake \<Rightarrow> bytes" where
  "session_key c = (case hc_key c of Some k \<Rightarrow> k | None \<Rightarrow> [])"

definition hc_init :: "client_handshake \<Rightarrow> client_handshake" where
  "hc_init c = c\<lparr> hc_dp := dp_switch_to_handshake (hc_dp c) \<rparr>"

definition server_has_transformer :: "auth_codec \<Rightarrow> init_capsule \<Rightarrow> nat \<Rightarrow> bool" where
  "server_has_transformer cd cap ty \<longleftrightarrow> ty \<in> set (ip_transform_supported (snd (dec_protocol cd (ic_body cap))))"

text \<open>\<open>change_stage\<close> also binds the stage function, which \<open>hc_stage_call\<close> selects below.\<close>

definition change_stage :: "protocol_stage \<Rightarrow> client_handshake \<Rightarrow> client_handshake" where
  "change_stage st c = c\<lparr> hc_stage := st \<rparr>"

definition check_disconnect_stage :: "client_handshake \<Rightarrow> client_handshake" where
  "check_disconnect_stage c =
     (case hc_stage c of
        STAGE_HELLO \<Rightarrow> hc_event (Ev_error (auth_error ERR_BUSY []) ''Server in not ready'') c
      | STAGE_SETUP \<Rightarrow> hc_event (Ev_error (auth_error ERR_INVALID_VALUE []) ''Bad setup info.'') c
      | STAGE_READY \<Rightarrow> hc_event (Ev_error (auth_error ERR_INTERNAL []) ''Bad session key.'') c
      | STAGE_ERROR \<Rightarrow> c)"

definition hc_close :: "client_handshake \<Rightarrow> client_handshake" where
  "hc_close c = (if \<not> hc_ready c then check_disconnect_stage c else c)"

text \<open>\<open>set_options\<close>, the callback of the write of the selection, which runs as soon as it is packed.\<close>

definition set_options :: "client_handshake \<Rightarrow> client_handshake" where
  "set_options c =
     (case hash_create_by_index sha256i default_hash_value of
        None \<Rightarrow> c
      | Some h \<Rightarrow> c\<lparr> hc_dp := (hc_dp c)\<lparr> dp_hash_maker := h \<rparr> \<rparr>)"

definition hc_set_hash_checker :: "client_handshake \<Rightarrow> client_handshake" where
  "hc_set_hash_checker c =
     (case hash_create_by_index sha256i default_hash_value of
        None \<Rightarrow> c
      | Some h \<Rightarrow> c\<lparr> hc_dp := (hc_dp c)\<lparr> dp_hash_checker := h \<rparr> \<rparr>)"

text \<open>The texts of the errors quote a stage.\<close>

definition quoted :: "string \<Rightarrow> string" where
  "quoted s = CHR 0x27 # s @ [CHR 0x27]"

definition not_ready_text :: "string \<Rightarrow> string" where
  "not_ready_text st = ''Server is not ready; stage: '' @ quoted st"

definition bad_hash_text :: "string \<Rightarrow> string \<Rightarrow> string" where
  "bad_hash_text st rest = ''Server'' @ [CHR 0x27] @ ''s '' @ quoted st @ '' has bad hash.'' @ rest"

definition on_trans_setup :: "auth_codec \<Rightarrow> bytes \<Rightarrow> client_handshake \<Rightarrow> client_handshake option" where
  "on_trans_setup cd data c =
     (case dec_capsule cd data of (check, capsule) \<Rightarrow>
        if \<not> check
        then Some (hc_fail (auth_error ERR_INTERNAL []) (bad_hash_text ''Ready'' '' Bad session key.'') c)
        else if \<not> ic_ready capsule
        then Some (hc_fail (ic_error capsule) (not_ready_text ''Setup'') c)
        else
          (let tsetup = snd (dec_setup cd (ic_body capsule));
               key = create_key sha256i (session_key c) (ts_salt1 tsetup) (ts_salt2 tsetup)
           in case default_cypher_create key of
                None \<Rightarrow> None
              | Some t \<Rightarrow>
                  (case generate_key_infos sha256i (hc_random c) (session_key c) of
                     (rd, s1, s2, key) \<Rightarrow>
                       map_option
                         (\<lambda>r. let c = c\<lparr> hc_random := rd,
                                          hc_dp := (hc_dp c)\<lparr> dp_transformer := t, dp_revertor := r \<rparr> \<rparr>;
                                  capsule = capsule\<lparr> ic_ready := True,
                                    ic_body := enc_setup cd \<lparr> ts_salt1 = s1, ts_salt2 = s2 \<rparr> \<rparr>
                              in hc_post (enc_capsule cd capsule) Cb_none (change_stage STAGE_READY c))
                         (default_cypher_create key))))"

definition on_server_ready :: "auth_codec \<Rightarrow> bytes \<Rightarrow> client_handshake \<Rightarrow> client_handshake option" where
  "on_server_ready cd data c =
     (case dec_capsule cd data of (check, capsule) \<Rightarrow>
        if \<not> check
        then Some (hc_fail (auth_error ERR_INTERNAL []) (bad_hash_text ''Ready'' '' Bad session key.'') c)
        else if \<not> ic_ready capsule
        then Some (hc_event Ev_close (change_stage STAGE_ERROR
               (hc_event (Ev_error (ic_error capsule)
                  (if ec_additional (ic_error capsule) \<noteq> [] then ec_additional (ic_error capsule)
                   else not_ready_text ''Ready'')) c)))
        else
          (let opts = snd (dec_session cd (ic_body capsule));
               c = hc_event (Ev_configure opts) c
           in Some (c\<lparr> hc_dp := dp_configure opts (hc_dp c), hc_ready := True \<rparr>)))"

text \<open>The hello is turned into the selection; its other fields are sent back as they came.\<close>

definition selection_capsule :: "auth_codec \<Rightarrow> client_handshake \<Rightarrow> init_capsule \<Rightarrow> init_capsule" where
  "selection_capsule cd c capsule =
     (let capsule = capsule\<lparr> ic_ready := True, ic_text := ''Miten menee?'' \<rparr>;
          sel = (if hc_key c \<noteq> None \<and> server_has_transformer cd capsule TRANSFORM_ERSEEFOR
                 then \<lparr> cs_hash = default_hash_value, cs_transform = TRANSFORM_ERSEEFOR, cs_id = hc_session_id c \<rparr>
                 else \<lparr> cs_hash = default_hash_value, cs_transform = TRANSFORM_NONE, cs_id = [] \<rparr>)
      in capsule\<lparr> ic_body := enc_selection cd sel \<rparr>)"

definition on_hello_call :: "auth_codec \<Rightarrow> bytes \<Rightarrow> client_handshake \<Rightarrow> client_handshake option" where
  "on_hello_call cd data c =
     (case dec_capsule cd data of (check, capsule) \<Rightarrow>
        if \<not> check
        then Some (hc_fail (auth_error ERR_INTERNAL []) (bad_hash_text ''Hello'' []) c)
        else if \<not> ic_ready capsule
        then Some (hc_fail (ic_error capsule) (not_ready_text ''Hello'') c)
        else Some (hc_post (enc_capsule cd (selection_capsule cd c capsule)) Cb_set_options
               (change_stage (if hc_key c \<noteq> None then STAGE_SETUP else STAGE_READY)
                 (hc_set_hash_checker c))))"

definition hc_stage_call :: "auth_codec \<Rightarrow> bytes \<Rightarrow> client_handshake \<Rightarrow> client_handshake option" where
  "hc_stage_call cd data c =
     (case hc_stage c of
        STAGE_HELLO \<Rightarrow> on_hello_call cd data c
      | STAGE_SETUP \<Rightarrow> on_trans_setup cd data c
      | STAGE_ERROR \<Rightarrow> Some c
      | STAGE_READY \<Rightarrow> on_server_ready cd data c)"

definition hc_do_handshake :: "auth_codec \<Rightarrow> client_handshake \<Rightarrow> client_handshake option" where
  "hc_do_handshake cd c =
     (case pop_raw_message (hc_dp c) of
        (d, Inr (Some data)) \<Rightarrow>
          map_option
            (\<lambda>c. if hc_ready c
                 then hc_event (Ev_ready True) (c\<lparr> hc_dp := dp_switch_to_ready (hc_dp c) \<rparr>) else c)
            (hc_stage_call cd data (c\<lparr> hc_dp := d \<rparr>))
      | (d, Inl _) \<Rightarrow> None
      | (d, Inr None) \<Rightarrow> Some (hc_fail (auth_error ERR_INTERNAL []) ''Bad hash.'' (change_stage STAGE_ERROR (c\<lparr> hc_dp := d \<rparr>))))"

fun hc_written :: "write_callback \<Rightarrow> client_handshake \<Rightarrow> client_handshake" where
  "hc_written Cb_set_options c = set_options c"
| "hc_written _ c = c"

fun hc_drain_loop :: "posted list \<Rightarrow> client_handshake \<Rightarrow> client_handshake \<times> bytes list" where
  "hc_drain_loop [] c = (c, [])"
| "hc_drain_loop ((data, cb) # ps) c =
     (case pack_message (hc_dp c) data of
        (d, w) \<Rightarrow>
          (case hc_drain_loop ps (hc_written cb (c\<lparr> hc_dp := d \<rparr>)) of (c, ws) \<Rightarrow> (c, w # ws)))"

definition hc_drain :: "client_handshake \<Rightarrow> client_handshake \<times> bytes list" where
  "hc_drain c = hc_drain_loop (hc_posted c) (c\<lparr> hc_posted := [] \<rparr>)"

definition hc_read :: "auth_codec \<Rightarrow> bytes list \<Rightarrow> client_handshake \<Rightarrow> (exn + client_handshake) option" where
  "hc_read cd = feed hc_dp hc_set_dp (hc_do_handshake cd)"

end
