(* ===== verification/Handshake_Correct.thy ===== *)
theory Handshake_Correct
  imports Handshake
begin

text \<open>
  The handshake as a system of two peers: what is posted by one is packed, carried in chunks of any
  size and handled by the other. The theorems show that it ends with both sides ready, agreeing on
  digest, ciphers and limits in both directions, so that the theorems of \<open>Lowlevel\<close> apply to
  everything that is sent afterwards.
\<close>

subsection \<open>One message\<close>

text \<open>What a peer must provide so that a message arrives: access to its protocol object, and a
  stage function.\<close>

locale handshake_peer =
  fixes dp :: "'s \<Rightarrow> default_protocol"
    and set_dp :: "default_protocol \<Rightarrow> 's \<Rightarrow> 's"
    and do_handshake :: "'s \<Rightarrow> 's option"
  assumes dp_set_dp: "dp (set_dp d s) = d"
    and set_dp_set_dp: "set_dp d' (set_dp d s) = set_dp d' s"
    and set_dp_dp: "set_dp (dp s) s = s"
begin

lemma feed_empty: "concat cs = [] \<Longrightarrow> feed dp set_dp do_handshake cs s = Some (Inr s)"
  by (induction cs) (simp_all add: process_data_def set_dp_dp)

text \<open>A frame in any number of chunks calls the stage function exactly once, when it is complete.\<close>

lemma feed_frame:
  assumes "queue_wf (dp_queue (dp s))" and "qb_packed (dp_queue (dp s)) = []"
    and "length b \<le> unat (qb_max (dp_queue (dp s)))" and "dp_process_stage (dp s) = Do_handshake"
    and "qb_data (dp_queue (dp s)) @ concat cs = frame varint_policy b"
    and "strict_prefix (qb_data (dp_queue (dp s))) (frame varint_policy b)"
  shows "feed dp set_dp do_handshake cs s
       = map_option Inr (do_handshake
           (set_dp ((dp s)\<lparr> dp_queue := (dp_queue (dp s))\<lparr> qb_packed := [b], qb_data := [] \<rparr> \<rparr>) s))"
  using assms
proof (induction cs arbitrary: s)
  case Nil
  then show ?case by simp
next
  case (Cons c cs)
  let ?q = "dp_queue (dp s)"
  show ?case
  proof (cases "c = []")
    case True
    then show ?thesis using Cons by (simp add: process_data_def set_dp_dp)
  next
    case False
    obtain k part where pp:
        "parser_process varint_policy (qb_append ?q c)
           = ((qb_append ?q c)\<lparr> qb_packed := qb_packed (qb_append ?q c) @ take k [b], qb_data := part \<rparr>, Inr ())"
        "part @ concat cs = concat (map (frame varint_policy) (drop k [b]))" "k \<le> length [b]"
        "part = [] \<or> k < length [b] \<and> strict_prefix part (frame varint_policy ([b] ! k))"
      using varint.parser_process_beginning [of "qb_append ?q c" "[b]" "concat cs"] Cons.prems
      by (auto simp: qb_append_def)
    have pd: "process_data (dp s) c
        = ((dp s)\<lparr> dp_queue := ?q\<lparr> qb_packed := take k [b], qb_data := part \<rparr> \<rparr>, Inr (0 < k))"
      using pp(1,3) Cons.prems(2) False by (auto simp: process_data_def qb_append_def qb_size_def)
    show ?thesis
    proof (cases k)
      case 0
      then have part: "part @ concat cs = frame varint_policy b" using pp(2) by simp
      have "strict_prefix part (frame varint_policy b)"
        using pp(4) part 0 by (auto simp: frame_def varint.pack_not_empty strict_prefix_def)
      moreover have "process_data (dp s) c = ((dp s)\<lparr> dp_queue := ?q\<lparr> qb_data := part \<rparr> \<rparr>, Inr False)"
        using pd 0 Cons.prems(2) by (cases ?q) simp
      ultimately show ?thesis
        using Cons.IH [of "set_dp ((dp s)\<lparr> dp_queue := ?q\<lparr> qb_data := part \<rparr> \<rparr>) s"] Cons.prems part
        by (simp add: dp_set_dp set_dp_set_dp queue_wf_def)
    next
      case (Suc j)
      then have k: "k = 1" using pp(3) by simp
      then have "part = []" "concat cs = []" using pp(2) by simp_all
      then show ?thesis
        using pd k Cons.prems(4) feed_empty [of cs]
        by (cases "do_handshake (set_dp ((dp s)\<lparr> dp_queue := ?q\<lparr> qb_packed := [b], qb_data := [] \<rparr> \<rparr>) s)")
          simp_all
    qed
  qed
qed

text \<open>A message that a peer in step has packed is what the stage function finds.\<close>

lemma feed_message:
  assumes "hash_law (dp_hash_maker a)" and "in_step a (dp s)" and "qb_data (dp_queue (dp s)) = []"
    and "dp_process_stage (dp s) = Do_handshake"
    and "length m + h_size (dp_hash_maker a) \<le> unat (qb_max (dp_queue (dp s)))"
    and "pack_message a m = (a', w)" and "concat cs = w"
  shows "\<exists>d. feed dp set_dp do_handshake cs s = map_option Inr (do_handshake (set_dp d s))
           \<and> pop_raw_message d = ((dp s)\<lparr> dp_revertor := dp_transformer a' \<rparr>, Inr (Some m))"
proof -
  let ?q = "dp_queue (dp s)" and ?h = "dp_hash_maker a"
  obtain t b where t: "transform (dp_transformer a) (h_get ?h m @ m) = (t, b)" by fastforce
  have a': "a' = a\<lparr> dp_transformer := t \<rparr>" and w: "w = frame varint_policy b"
    using hash_law.pack_message_frame [OF assms(1) refl, of m] t assms(6) by simp_all
  have len: "length b = length m + h_size ?h"
    using transformer.trans_length [of "dp_transformer a" "h_get ?h m @ m"] t hash_law.h_get_length [OF assms(1)]
    by simp
  let ?d = "(dp s)\<lparr> dp_queue := ?q\<lparr> qb_packed := [b], qb_data := [] \<rparr> \<rparr>"
  have f: "feed dp set_dp do_handshake cs s = map_option Inr (do_handshake (set_dp ?d s))"
    by (rule feed_frame)
      (use assms len w in \<open>auto simp: in_step_def frame_def varint.pack_not_empty strict_prefix_def\<close>)
  have "transform (dp_revertor (dp s)) b = (t, h_get ?h m @ m)"
    using transformer.trans_back [OF t] assms(2) by (simp add: in_step_def)
  then have "pop_raw_message ?d = (?d\<lparr> dp_revertor := t, dp_queue := ?q\<lparr> qb_packed := [], qb_data := [] \<rparr> \<rparr>, Inr (Some m))"
    using pop_raw_message_Cons [of ?d b "[]"] hash_law.checked_body_get [OF assms(1)] assms(2)
    by (simp add: in_step_def)
  moreover have "?q\<lparr> qb_packed := [], qb_data := [] \<rparr> = ?q"
    using assms(2,3) by (cases ?q) (simp add: in_step_def)
  ultimately have "pop_raw_message ?d = ((dp s)\<lparr> dp_revertor := dp_transformer a' \<rparr>, Inr (Some m))"
    using a' by simp
  with f show ?thesis by blast
qed

end

interpretation server_peer: handshake_peer sh_dp sh_set_dp "sh_do_handshake cd app" for cd app
  by unfold_locales (simp_all add: sh_set_dp_def)

interpretation client_peer: handshake_peer hc_dp hc_set_dp "hc_do_handshake cd" for cd
  by unfold_locales (simp_all add: hc_set_dp_def)

subsection \<open>The two peers\<close>

inductive hs_step ::
    "auth_codec \<Rightarrow> server_app \<Rightarrow> server_handshake \<times> client_handshake \<Rightarrow> server_handshake \<times> client_handshake \<Rightarrow> bool"
  for cd app where
  to_client: "sh_posted s \<noteq> [] \<Longrightarrow> sh_drain s = (s', ws) \<Longrightarrow> concat cs = concat ws \<Longrightarrow>
     hc_read cd cs c = Some (Inr c') \<Longrightarrow> hs_step cd app (s, c) (s', c')"
| to_server: "hc_posted c \<noteq> [] \<Longrightarrow> hc_drain c = (c', ws) \<Longrightarrow> concat cs = concat ws \<Longrightarrow>
     sh_read cd app cs s = Some (Inr s') \<Longrightarrow> hs_step cd app (s, c) (s', c')"

inductive_cases hs_stepE: "hs_step cd app (s, c) (s', c')"

abbreviation hs_steps ::
    "auth_codec \<Rightarrow> server_app \<Rightarrow> server_handshake \<times> client_handshake \<Rightarrow> server_handshake \<times> client_handshake \<Rightarrow> bool" where
  "hs_steps cd app \<equiv> (hs_step cd app)\<^sup>*\<^sup>*"

text \<open>The sending side \<open>a\<close> and the receiving side \<open>b\<close> agree and \<open>b\<close> is idle.\<close>

definition hs_linked :: "default_protocol \<Rightarrow> default_protocol \<Rightarrow> bool" where
  "hs_linked a b \<longleftrightarrow> hash_law (dp_hash_maker a) \<and> in_step a b \<and> qb_data (dp_queue b) = []
     \<and> dp_process_stage b = Do_handshake"

definition fits :: "default_protocol \<Rightarrow> bytes \<Rightarrow> bool" where
  "fits b m \<longleftrightarrow> length m + h_size (dp_hash_checker b) \<le> unat (qb_max (dp_queue b))"

definition packed_state :: "default_protocol \<Rightarrow> bytes \<Rightarrow> default_protocol" where
  "packed_state a m = fst (pack_message a m)"

definition sh_finish :: "server_handshake \<Rightarrow> server_handshake" where
  "sh_finish s = (if sh_ready s
     then sh_event (Ev_ready True) (s\<lparr> sh_dp := dp_switch_to_ready (sh_dp s) \<rparr>) else s)"

definition hc_finish :: "client_handshake \<Rightarrow> client_handshake" where
  "hc_finish c = (if hc_ready c
     then hc_event (Ev_ready True) (c\<lparr> hc_dp := dp_switch_to_ready (hc_dp c) \<rparr>) else c)"

lemma sh_read_message:
  assumes "hs_linked a (sh_dp s)" and "fits (sh_dp s) m" and "concat cs = snd (pack_message a m)"
  shows "sh_read cd app cs s = map_option (\<lambda>s. Inr (sh_finish s)) (sh_stage_function cd app m
           (s\<lparr> sh_dp := (sh_dp s)\<lparr> dp_revertor := dp_transformer (packed_state a m) \<rparr> \<rparr>))"
proof -
  obtain d where "sh_read cd app cs s = map_option Inr (sh_do_handshake cd app (sh_set_dp d s))"
    and "pop_raw_message d = ((sh_dp s)\<lparr> dp_revertor := dp_transformer (packed_state a m) \<rparr>, Inr (Some m))"
    using server_peer.feed_message [where a = a and s = s and m = m and a' = "packed_state a m"
      and w = "snd (pack_message a m)" and cs = cs and cd = cd and app = app] assms
    by (auto simp: sh_read_def hs_linked_def fits_def packed_state_def in_step_def)
  then show ?thesis
    by (simp add: sh_do_handshake_def sh_set_dp_def option.map_comp comp_def sh_finish_def)
qed

lemma hc_read_message:
  assumes "hs_linked a (hc_dp c)" and "fits (hc_dp c) m" and "concat cs = snd (pack_message a m)"
  shows "hc_read cd cs c = map_option (\<lambda>c. Inr (hc_finish c)) (hc_stage_call cd m
           (c\<lparr> hc_dp := (hc_dp c)\<lparr> dp_revertor := dp_transformer (packed_state a m) \<rparr> \<rparr>))"
proof -
  obtain d where "hc_read cd cs c = map_option Inr (hc_do_handshake cd (hc_set_dp d c))"
    and "pop_raw_message d = ((hc_dp c)\<lparr> dp_revertor := dp_transformer (packed_state a m) \<rparr>, Inr (Some m))"
    using client_peer.feed_message [where a = a and s = c and m = m and a' = "packed_state a m"
      and w = "snd (pack_message a m)" and cs = cs and cd = cd] assms
    by (auto simp: hc_read_def hs_linked_def fits_def packed_state_def in_step_def)
  then show ?thesis
    by (simp add: hc_do_handshake_def hc_set_dp_def option.map_comp comp_def hc_finish_def)
qed

text \<open>With one message under way there is exactly one next state, whatever the chunks are.\<close>

lemma step_to_client:
  assumes "sh_posted s = [(m, cb)]" and "hc_posted c = []"
    and "hs_linked (sh_dp s) (hc_dp c)" and "fits (hc_dp c) m"
    and "hc_stage_call cd m
           (c\<lparr> hc_dp := (hc_dp c)\<lparr> dp_revertor := dp_transformer (packed_state (sh_dp s) m) \<rparr> \<rparr>) = Some c'"
  shows "hs_step cd app (s, c) y
     \<longleftrightarrow> y = (sh_written cb (s\<lparr> sh_posted := [], sh_dp := packed_state (sh_dp s) m \<rparr>), hc_finish c')"
proof -
  have dr: "sh_drain s = (sh_written cb (s\<lparr> sh_posted := [], sh_dp := packed_state (sh_dp s) m \<rparr>),
      [snd (pack_message (sh_dp s) m)])"
    using assms(1) by (simp add: sh_drain_def packed_state_def split: prod.split)
  note rd = hc_read_message [OF assms(3,4), of _ cd, unfolded assms(5) option.map(2)]
  show ?thesis
  proof
    assume "hs_step cd app (s, c) y"
    then show "y = (sh_written cb (s\<lparr> sh_posted := [], sh_dp := packed_state (sh_dp s) m \<rparr>), hc_finish c')"
      using assms(2) dr rd by (cases y) (auto elim!: hs_stepE)
  next
    assume "y = (sh_written cb (s\<lparr> sh_posted := [], sh_dp := packed_state (sh_dp s) m \<rparr>), hc_finish c')"
    then show "hs_step cd app (s, c) y"
      using hs_step.to_client [OF _ dr, of "[snd (pack_message (sh_dp s) m)]" cd c "hc_finish c'" app] assms(1) rd
      by simp
  qed
qed

lemma step_to_server:
  assumes "hc_posted c = [(m, cb)]" and "sh_posted s = []"
    and "hs_linked (hc_dp c) (sh_dp s)" and "fits (sh_dp s) m"
    and "sh_stage_function cd app m
           (s\<lparr> sh_dp := (sh_dp s)\<lparr> dp_revertor := dp_transformer (packed_state (hc_dp c) m) \<rparr> \<rparr>) = Some s'"
  shows "hs_step cd app (s, c) y
     \<longleftrightarrow> y = (sh_finish s', hc_written cb (c\<lparr> hc_posted := [], hc_dp := packed_state (hc_dp c) m \<rparr>))"
proof -
  have dr: "hc_drain c = (hc_written cb (c\<lparr> hc_posted := [], hc_dp := packed_state (hc_dp c) m \<rparr>),
      [snd (pack_message (hc_dp c) m)])"
    using assms(1) by (simp add: hc_drain_def packed_state_def split: prod.split)
  note rd = sh_read_message [OF assms(3,4), of _ cd app, unfolded assms(5) option.map(2)]
  show ?thesis
  proof
    assume "hs_step cd app (s, c) y"
    then show "y = (sh_finish s', hc_written cb (c\<lparr> hc_posted := [], hc_dp := packed_state (hc_dp c) m \<rparr>))"
      using assms(2) dr rd by (cases y) (auto elim!: hs_stepE)
  next
    assume "y = (sh_finish s', hc_written cb (c\<lparr> hc_posted := [], hc_dp := packed_state (hc_dp c) m \<rparr>))"
    then show "hs_step cd app (s, c) y"
      using hs_step.to_server [OF _ dr, of "[snd (pack_message (hc_dp c) m)]" cd app s "sh_finish s'"] assms(1) rd
      by simp
  qed
qed

lemma step_idle: "sh_posted s = [] \<Longrightarrow> hc_posted c = [] \<Longrightarrow> \<not> hs_step cd app (s, c) y"
  by (cases y) (auto elim!: hs_stepE)

text \<open>A path without branches has one end.\<close>

lemma run_forward:
  assumes "\<And>y. R x y \<longleftrightarrow> y = x'" and "R\<^sup>*\<^sup>* x' z \<and> (\<forall>y. R\<^sup>*\<^sup>* x' y \<longrightarrow> R\<^sup>*\<^sup>* y z)"
  shows "R\<^sup>*\<^sup>* x z \<and> (\<forall>y. R\<^sup>*\<^sup>* x y \<longrightarrow> R\<^sup>*\<^sup>* y z)"
proof -
  have x: "R x x'" using assms(1) by simp
  then have z: "R\<^sup>*\<^sup>* x z" using assms(2) by (meson converse_rtranclp_into_rtranclp)
  moreover have "R\<^sup>*\<^sup>* y z" if "R\<^sup>*\<^sup>* x y" for y
    using that z assms by (cases rule: converse_rtranclpE) auto
  ultimately show ?thesis by blast
qed

subsection \<open>Facts about the pieces\<close>

lemma default_hash: "hash_create_by_index sha256i default_hash_value = Some hasher_crc32"
  by (simp add: hash_create_by_index_def default_hash_value_def HASH_NONE_def HASH_CRC_32_def)

lemma packed_state_eq:
  "packed_state a m = a\<lparr> dp_transformer := fst (transform (dp_transformer a) (h_get (dp_hash_maker a) m @ m)) \<rparr>"
  by (simp add: packed_state_def pack_message_def Let_def split: prod.split)

lemma packed_state_none: "dp_transformer a = Transformer_none \<Longrightarrow> packed_state a m = a"
  by (simp add: packed_state_eq)

lemma codec_simps:
  assumes "codec_ok cd"
  shows "dec_capsule cd (enc_capsule cd m) = (True, m)" "dec_protocol cd (enc_protocol cd ip) = (True, ip)"
    "dec_selection cd (enc_selection cd sel) = (True, sel)" "dec_setup cd (enc_setup cd ts) = (True, ts)"
    "dec_session cd (enc_session cd so) = (True, so)"
  using assms by (simp_all add: codec_ok_def)

text \<open>The keys of a session are digests, so the cipher is always created.\<close>

definition session_cypher :: "bytes \<Rightarrow> bytes \<Rightarrow> bytes \<Rightarrow> transformer" where
  "session_cypher key s1 s2 = the (default_cypher_create (create_key sha256i key s1 s2))"

lemma session_cypher: "default_cypher_create (create_key sha256i key s1 s2) = Some (session_cypher key s1 s2)"
proof -
  have "create_key sha256i key s1 s2 \<noteq> []"
    using sha256i_length [of "s2 @ sha256i (s1 @ key)"] by (auto simp: create_key_def Let_def)
  then have "chacha_create (create_key sha256i key s1 s2) \<noteq> None"
    using chacha_fill_key_total [of _ "[]"] by (auto simp: chacha_create_def Let_def)
  then show ?thesis by (auto simp: session_cypher_def default_cypher_create_def)
qed

lemma packed_state_cypher:
  "dp_transformer a = session_cypher key s1 s2 \<Longrightarrow> dp_transformer (packed_state a m) \<noteq> Transformer_none"
proof -
  assume a: "dp_transformer a = session_cypher key s1 s2"
  obtain z where "session_cypher key s1 s2 = Transformer_chacha z"
    using session_cypher [of key s1 s2] by (auto simp: default_cypher_create_def dest: sym)
  with a show ?thesis by (simp add: packed_state_eq)
qed

subsection \<open>The initial states\<close>

definition server_start :: "auth_codec \<Rightarrow> session_options \<Rightarrow> random_device \<Rightarrow> server_handshake" where
  "server_start cd opts rd = sh_init cd (server_handshake_new opts rd)"

definition client_start :: "string \<Rightarrow> bytes option \<Rightarrow> random_device \<Rightarrow> client_handshake" where
  "client_start ident key rd = hc_init (client_handshake_new ident key rd)"

definition idle_dp :: "session_options \<Rightarrow> hash_iface \<Rightarrow> hash_iface \<Rightarrow> transformer \<Rightarrow> transformer \<Rightarrow> process_stage \<Rightarrow>
    default_protocol" where
  "idle_dp opts maker checker t r st =
     \<lparr> dp_hash_maker = maker, dp_hash_checker = checker, dp_transformer = t, dp_revertor = r,
       dp_queue = queue_new (ucast (so_max_message_length opts)), dp_process_stage = st \<rparr>"

lemma idle_dp_new: "dp_switch_to_handshake (dp_configure opts dp_new)
    = idle_dp opts hasher_none hasher_none Transformer_none Transformer_none Do_handshake"
  by (simp add: idle_dp_def dp_switch_to_handshake_def dp_configure_def dp_new_def queue_new_def
      qb_set_maximum_length_def)

lemma idle_dp_ops [simp]:
  "dp_configure opts' (idle_dp opts h h' t r st) = idle_dp opts' h h' t r st"
  "dp_switch_to_ready (idle_dp opts h h' t r st) = idle_dp opts h h' t r Ready_call"
  "(idle_dp opts h h' t r st)\<lparr> dp_transformer := t' \<rparr> = idle_dp opts h h' t' r st"
  "(idle_dp opts h h' t r st)\<lparr> dp_revertor := r' \<rparr> = idle_dp opts h h' t r' st"
  "(idle_dp opts h h' t r st)\<lparr> dp_hash_maker := x \<rparr> = idle_dp opts x h' t r st"
  "(idle_dp opts h h' t r st)\<lparr> dp_hash_checker := x \<rparr> = idle_dp opts h x t r st"
  "dp_transformer (idle_dp opts h h' t r st) = t" "dp_revertor (idle_dp opts h h' t r st) = r"
  "dp_hash_maker (idle_dp opts h h' t r st) = h" "dp_hash_checker (idle_dp opts h h' t r st) = h'"
  "dp_process_stage (idle_dp opts h h' t r st) = st"
  by (simp_all add: idle_dp_def dp_configure_def dp_switch_to_ready_def queue_new_def qb_set_maximum_length_def)

lemma idle_dp_inject [simp]:
  "idle_dp opts h h' t r st = idle_dp opts h h' t' r' st \<longleftrightarrow> t = t' \<and> r = r'"
  by (simp add: idle_dp_def)

lemma unat_ucast_64: "unat (ucast (x :: u32) :: size_t) = unat x"
proof -
  have "unat x < 2 ^ 32" using unsigned_less [where 'b = 32 and 'a = nat, of x] by simp
  then have "unat x < 2 ^ 64" by simp
  then show ?thesis by (simp add: unsigned_ucast_eq take_bit_nat_eq_self)
qed

lemma idle_dp_queue:
  "qb_packed (dp_queue (idle_dp opts h h' t r st)) = []" "qb_data (dp_queue (idle_dp opts h h' t r st)) = []"
  "qb_max (dp_queue (idle_dp opts h h' t r st)) = ucast (so_max_message_length opts)"
  "queue_wf (dp_queue (idle_dp opts h h' t r st))"
proof -
  have "unat (so_max_message_length opts) < 2 ^ 32"
    using unsigned_less [where 'b = 32 and 'a = nat, of "so_max_message_length opts"] by simp
  then show "queue_wf (dp_queue (idle_dp opts h h' t r st))"
    by (simp add: idle_dp_def queue_new_def queue_wf_def unat_ucast_64)
qed (simp_all add: idle_dp_def queue_new_def)

lemma linked_idle:
  assumes "h = hasher_none \<or> h = hasher_crc32"
  shows "hs_linked (idle_dp opts h x t y st) (idle_dp opts' z h w t Do_handshake)"
  using assms none_hash.hash_law_axioms crc32_hash.hash_law_axioms
  by (auto simp: hs_linked_def in_step_def idle_dp_queue)

definition fits_opts :: "session_options \<Rightarrow> bytes \<Rightarrow> bool" where
  "fits_opts opts m \<longleftrightarrow> length m + 4 \<le> unat (so_max_message_length opts)"

lemma fits_idle:
  assumes "fits_opts opts m" and "h = hasher_none \<or> h = hasher_crc32"
  shows "fits (idle_dp opts z h w t st) m"
  using assms
  by (auto simp: fits_def fits_opts_def idle_dp_queue hasher_none_def hasher_crc32_def crc32_length_def
      unat_ucast_64)

subsection \<open>The steps\<close>

text \<open>Each message of the protocol, from the states in which it is sent.\<close>

lemma hello_step:
  assumes ok: "codec_ok cd" and "fits_opts opts' (first_message cd)"
    and s: "sh_posted s = [(first_message cd, Cb_start_reading)]"
      "sh_dp s = idle_dp opts hasher_none hasher_none Transformer_none Transformer_none Do_handshake"
    and c: "hc_posted c = []" "hc_stage c = STAGE_HELLO" "\<not> hc_ready c"
      "hc_dp c = idle_dp opts' hasher_none hasher_none Transformer_none Transformer_none Do_handshake"
  shows "hs_step cd app (s, c) y \<longleftrightarrow>
     y = (s\<lparr> sh_posted := [],
             sh_dp := idle_dp opts hasher_none hasher_none Transformer_none Transformer_none Do_handshake \<rparr>,
          c\<lparr> hc_dp := idle_dp opts' hasher_none hasher_crc32 Transformer_none Transformer_none Do_handshake,
             hc_stage := (if hc_key c \<noteq> None then STAGE_SETUP else STAGE_READY),
             hc_posted := [(enc_capsule cd (selection_capsule cd c (hello_capsule cd)), Cb_set_options)] \<rparr>)"
    (is "_ \<longleftrightarrow> y = (?s, ?c)")
proof -
  have "hc_stage_call cd (first_message cd)
      (c\<lparr> hc_dp := (hc_dp c)\<lparr> dp_revertor := dp_transformer (packed_state (sh_dp s) (first_message cd)) \<rparr> \<rparr>) = Some ?c"
    using ok c s
    by (simp add: hc_stage_call_def on_hello_call_def first_message_def codec_simps hello_capsule_def
        hc_post_def change_stage_def hc_set_hash_checker_def default_hash packed_state_none selection_capsule_def)
  moreover have "hc_finish ?c = ?c" using c by (simp add: hc_finish_def)
  ultimately show ?thesis
    using step_to_client [OF s(1) c(1), of cd ?c app y] s c assms(2)
    by (simp add: linked_idle fits_idle packed_state_none)
qed

lemma selection_step_plain:
  assumes ok: "codec_ok cd" and "fits_opts opts m" and req: "\<not> sa_session_key_required app (cs_id sel)"
    and m: "m = enc_capsule cd cap" "ic_ready cap" "ic_body cap = enc_selection cd sel"
      "cs_hash sel = default_hash_value" "cs_transform sel = TRANSFORM_NONE"
    and s: "sh_posted s = []" "sh_stage s = On_client_selection" "sh_session_opts s = opts"
      "sh_dp s = idle_dp opts hasher_none hasher_none Transformer_none Transformer_none Do_handshake"
    and c: "hc_posted c = [(m, Cb_set_options)]"
      "hc_dp c = idle_dp opts' hasher_none hasher_crc32 Transformer_none Transformer_none Do_handshake"
  shows "hs_step cd app (s, c) y \<longleftrightarrow>
     y = (s\<lparr> sh_timer := False, sh_ready := True, sh_client_id := cs_id sel,
             sh_posted := [(enc_capsule cd (ready_capsule cd app opts init_capsule_new), Cb_none)],
             sh_dp := idle_dp (sa_configure_session app opts) hasher_crc32 hasher_crc32 Transformer_none
               Transformer_none Ready_call,
             sh_events := sh_events s @ [Ev_client_id (cs_id sel), Ev_ready True] \<rparr>,
          c\<lparr> hc_posted := [],
             hc_dp := idle_dp opts' hasher_crc32 hasher_crc32 Transformer_none Transformer_none Do_handshake \<rparr>)"
    (is "_ \<longleftrightarrow> y = (?s, ?c)")
proof -
  let ?t = "s\<lparr> sh_timer := False, sh_ready := True, sh_client_id := cs_id sel,
             sh_posted := [(enc_capsule cd (ready_capsule cd app opts init_capsule_new), Cb_none)],
             sh_dp := idle_dp (sa_configure_session app opts) hasher_crc32 hasher_crc32 Transformer_none
               Transformer_none Do_handshake,
             sh_events := sh_events s @ [Ev_client_id (cs_id sel)] \<rparr>"
  have "sh_stage_function cd app m
      (s\<lparr> sh_dp := (sh_dp s)\<lparr> dp_revertor := dp_transformer (packed_state (hc_dp c) m) \<rparr> \<rparr>) = Some ?t"
    using ok m s c req
    by (simp add: sh_stage_function_def on_client_selection_def codec_simps default_hash setup_transformer_def
        set_client_ready_def sh_send_def sh_post_def sh_event_def sh_set_hash_def packed_state_none Let_def)
  moreover have "sh_finish ?t = ?s" by (simp add: sh_finish_def sh_event_def)
  ultimately show ?thesis
    using step_to_server [OF c(1) s(1), of cd app ?t y] s c assms(2)
    by (simp add: linked_idle fits_idle packed_state_none set_options_def default_hash)
qed

lemma ready_step:
  assumes ok: "codec_ok cd" and "fits_opts opts' m"
    and m: "m = enc_capsule cd cap" "ic_ready cap" "ic_body cap = enc_session cd so"
    and s: "sh_posted s = [(m, Cb_none)]" "sh_dp s = idle_dp so hasher_crc32 hasher_crc32 t r Ready_call"
    and c: "hc_posted c = []" "hc_stage c = STAGE_READY"
      "hc_dp c = idle_dp opts' hasher_crc32 hasher_crc32 t' t Do_handshake"
  shows "hs_step cd app (s, c) y \<longleftrightarrow>
     y = (s\<lparr> sh_posted := [], sh_dp := packed_state (sh_dp s) m \<rparr>,
          c\<lparr> hc_dp := idle_dp so hasher_crc32 hasher_crc32 t'
               (dp_transformer (packed_state (sh_dp s) m)) Ready_call, hc_ready := True,
             hc_events := hc_events c @ [Ev_configure so, Ev_ready True] \<rparr>)"
    (is "_ \<longleftrightarrow> y = (?s, ?c)")
proof -
  let ?t = "dp_transformer (packed_state (sh_dp s) m)"
  let ?d = "c\<lparr> hc_dp := idle_dp so hasher_crc32 hasher_crc32 t' ?t Do_handshake, hc_ready := True,
              hc_events := hc_events c @ [Ev_configure so] \<rparr>"
  have "hc_stage_call cd m (c\<lparr> hc_dp := (hc_dp c)\<lparr> dp_revertor := ?t \<rparr> \<rparr>) = Some ?d"
    using ok m c
    by (simp add: hc_stage_call_def on_server_ready_def codec_simps hc_event_def Let_def)
  moreover have "hc_finish ?d = ?c" by (simp add: hc_finish_def hc_event_def)
  ultimately show ?thesis
    using step_to_client [OF s(1) c(1), of cd ?d app y] s c assms(2) by (simp add: linked_idle fits_idle)
qed

text \<open>With a session key: the server chooses the salts of the client's direction, then the client
  those of the server's.\<close>

lemma selection_step_cypher:
  assumes ok: "codec_ok cd" and "fits_opts opts m"
    and m: "m = enc_capsule cd cap" "ic_ready cap" "ic_body cap = enc_selection cd sel"
      "cs_hash sel = default_hash_value" "cs_transform sel = TRANSFORM_ERSEEFOR"
    and k: "generate_key_infos sha256i (sh_random s) (sa_session_key app (cs_id sel)) = (rd, s1, s2, key)"
    and s: "sh_posted s = []" "sh_stage s = On_client_selection" "\<not> sh_ready s"
      "sh_dp s = idle_dp opts hasher_none hasher_none Transformer_none Transformer_none Do_handshake"
    and c: "hc_posted c = [(m, Cb_set_options)]"
      "hc_dp c = idle_dp opts' hasher_none hasher_crc32 Transformer_none Transformer_none Do_handshake"
  shows "hs_step cd app (s, c) y \<longleftrightarrow>
     y = (s\<lparr> sh_random := rd, sh_client_id := cs_id sel, sh_stage := On_client_transformer,
             sh_posted := [(enc_capsule cd (init_capsule_new\<lparr> ic_ready := True,
                              ic_body := enc_setup cd \<lparr> ts_salt1 = s1, ts_salt2 = s2 \<rparr> \<rparr>), Cb_none)],
             sh_dp := idle_dp opts hasher_crc32 hasher_crc32 Transformer_none
               (session_cypher (sa_session_key app (cs_id sel)) s1 s2) Do_handshake,
             sh_events := sh_events s @ [Ev_client_id (cs_id sel)] \<rparr>,
          c\<lparr> hc_posted := [],
             hc_dp := idle_dp opts' hasher_crc32 hasher_crc32 Transformer_none Transformer_none Do_handshake \<rparr>)"
    (is "_ \<longleftrightarrow> y = (?s, ?c)")
proof -
  have key: "key = create_key sha256i (sa_session_key app (cs_id sel)) s1 s2"
    using k by (auto simp: generate_key_infos_def Let_def split: prod.splits)
  have t: "TRANSFORM_ERSEEFOR \<noteq> TRANSFORM_NONE" by (simp add: TRANSFORM_ERSEEFOR_def TRANSFORM_NONE_def)
  have "sh_stage_function cd app m
      (s\<lparr> sh_dp := (sh_dp s)\<lparr> dp_revertor := dp_transformer (packed_state (hc_dp c) m) \<rparr> \<rparr>) = Some ?s"
    using ok m s c k t session_cypher [of "sa_session_key app (cs_id sel)" s1 s2]
    by (simp add: sh_stage_function_def on_client_selection_def codec_simps default_hash setup_transformer_def
        sh_send_def sh_post_def sh_event_def sh_set_hash_def sh_set_revertor_def packed_state_none key Let_def)
  moreover have "sh_finish ?s = ?s" using s by (simp add: sh_finish_def)
  ultimately show ?thesis
    using step_to_server [OF c(1) s(1), of cd app ?s y] s c assms(2)
    by (simp add: linked_idle fits_idle packed_state_none set_options_def default_hash)
qed

lemma setup_step:
  assumes ok: "codec_ok cd" and "fits_opts opts' m"
    and m: "m = enc_capsule cd cap" "ic_ready cap" "ic_body cap = enc_setup cd \<lparr> ts_salt1 = s1, ts_salt2 = s2 \<rparr>"
    and k: "generate_key_infos sha256i (hc_random c) (session_key c) = (rd, s1', s2', key)"
    and s: "sh_posted s = [(m, Cb_none)]" "sh_dp s = idle_dp opts hasher_crc32 hasher_crc32 Transformer_none r Do_handshake"
    and c: "hc_posted c = []" "hc_stage c = STAGE_SETUP" "\<not> hc_ready c"
      "hc_dp c = idle_dp opts' hasher_crc32 hasher_crc32 Transformer_none Transformer_none Do_handshake"
  shows "hs_step cd app (s, c) y \<longleftrightarrow>
     y = (s\<lparr> sh_posted := [],
             sh_dp := idle_dp opts hasher_crc32 hasher_crc32 Transformer_none r Do_handshake \<rparr>,
          c\<lparr> hc_random := rd, hc_stage := STAGE_READY,
             hc_dp := idle_dp opts' hasher_crc32 hasher_crc32 (session_cypher (session_key c) s1 s2)
               (session_cypher (session_key c) s1' s2') Do_handshake,
             hc_posted := [(enc_capsule cd (cap\<lparr> ic_ready := True,
                              ic_body := enc_setup cd \<lparr> ts_salt1 = s1', ts_salt2 = s2' \<rparr> \<rparr>), Cb_none)] \<rparr>)"
    (is "_ \<longleftrightarrow> y = (?s, ?c)")
proof -
  have key: "key = create_key sha256i (session_key c) s1' s2'"
    using k by (auto simp: generate_key_infos_def Let_def split: prod.splits)
  let ?cc = "c\<lparr> hc_dp := (hc_dp c)\<lparr> dp_revertor := dp_transformer (packed_state (sh_dp s) m) \<rparr> \<rparr>"
  have "session_key ?cc = session_key c" "hc_random ?cc = hc_random c" by (simp_all add: session_key_def)
  then have "hc_stage_call cd m ?cc = Some ?c"
    using ok m c s k session_cypher [of "session_key c" s1 s2] session_cypher [of "session_key c" s1' s2']
    by (simp add: hc_stage_call_def on_trans_setup_def codec_simps hc_post_def change_stage_def key
        packed_state_none Let_def)
  moreover have "hc_finish ?c = ?c" using c by (simp add: hc_finish_def)
  ultimately show ?thesis
    using step_to_client [OF s(1) c(1), of cd ?c app y] s c assms(2)
    by (simp add: linked_idle fits_idle packed_state_none)
qed

lemma transformer_step:
  assumes ok: "codec_ok cd" and "fits_opts opts m"
    and m: "m = enc_capsule cd cap" "ic_ready cap" "ic_body cap = enc_setup cd \<lparr> ts_salt1 = s1, ts_salt2 = s2 \<rparr>"
    and s: "sh_posted s = []" "sh_stage s = On_client_transformer" "sh_session_opts s = opts"
      "sh_dp s = idle_dp opts hasher_crc32 hasher_crc32 Transformer_none t Do_handshake"
    and c: "hc_posted c = [(m, Cb_none)]" "hc_dp c = idle_dp opts' hasher_crc32 hasher_crc32 t r Do_handshake"
  shows "hs_step cd app (s, c) y \<longleftrightarrow>
     y = (s\<lparr> sh_timer := False, sh_ready := True,
             sh_posted := [(enc_capsule cd (ready_capsule cd app opts init_capsule_new), Cb_none)],
             sh_dp := idle_dp (sa_configure_session app opts) hasher_crc32 hasher_crc32
               (session_cypher (sa_session_key app (sh_client_id s)) s1 s2)
               (dp_transformer (packed_state (hc_dp c) m)) Ready_call,
             sh_events := sh_events s @ [Ev_ready True] \<rparr>,
          c\<lparr> hc_posted := [], hc_dp := packed_state (hc_dp c) m \<rparr>)"
    (is "_ \<longleftrightarrow> y = (?s, ?c)")
proof -
  let ?r = "dp_transformer (packed_state (hc_dp c) m)"
  let ?t = "s\<lparr> sh_timer := False, sh_ready := True,
             sh_posted := [(enc_capsule cd (ready_capsule cd app opts init_capsule_new), Cb_none)],
             sh_dp := idle_dp (sa_configure_session app opts) hasher_crc32 hasher_crc32
               (session_cypher (sa_session_key app (sh_client_id s)) s1 s2) ?r Do_handshake \<rparr>"
  have "sh_stage_function cd app m (s\<lparr> sh_dp := (sh_dp s)\<lparr> dp_revertor := ?r \<rparr> \<rparr>) = Some ?t"
    using ok m s session_cypher [of "sa_session_key app (sh_client_id s)" s1 s2]
    by (simp add: sh_stage_function_def on_client_transformer_def codec_simps set_client_ready_def sh_send_def
        sh_post_def sh_set_transformer_def Let_def)
  moreover have "sh_finish ?t = ?s" by (simp add: sh_finish_def sh_event_def)
  ultimately show ?thesis
    using step_to_server [OF c(1) s(1), of cd app ?t y] s c assms(2) by (simp add: linked_idle fits_idle)
qed

subsection \<open>Whole runs\<close>

text \<open>Both ends of a finished handshake: idle, ready, and in step in both directions.\<close>

definition hs_complete :: "session_options \<Rightarrow> server_handshake \<Rightarrow> client_handshake \<Rightarrow> bool" where
  "hs_complete opts s c \<longleftrightarrow>
     sh_posted s = [] \<and> hc_posted c = [] \<and> sh_ready s \<and> hc_ready c \<and> \<not> sh_timer s
     \<and> last (sh_events s) = Ev_ready True \<and> hc_events c = [Ev_configure opts, Ev_ready True]
     \<and> (\<exists>t r. sh_dp s = idle_dp opts hasher_crc32 hasher_crc32 t r Ready_call
            \<and> hc_dp c = idle_dp opts hasher_crc32 hasher_crc32 r t Ready_call)"

definition reaches :: "auth_codec \<Rightarrow> server_app \<Rightarrow> server_handshake \<times> client_handshake \<Rightarrow>
    server_handshake \<times> client_handshake \<Rightarrow> bool" where
  "reaches cd app x z \<longleftrightarrow> hs_steps cd app x z \<and> (\<forall>y. hs_steps cd app x y \<longrightarrow> hs_steps cd app y z)"

lemma reaches_step:
  "(\<And>y. hs_step cd app x y \<longleftrightarrow> y = x') \<Longrightarrow> reaches cd app x' z \<Longrightarrow> reaches cd app x z"
  unfolding reaches_def by (rule run_forward)

lemma reaches_idle: "sh_posted s = [] \<Longrightarrow> hc_posted c = [] \<Longrightarrow> reaches cd app (s, c) (s, c)"
  using step_idle [of s c cd app] unfolding reaches_def
  by (metis converse_rtranclpE rtranclp.rtrancl_refl)

lemma start_facts:
  "sh_posted (server_start cd opts rd) = [(first_message cd, Cb_start_reading)]"
  "sh_dp (server_start cd opts rd) = idle_dp opts hasher_none hasher_none Transformer_none Transformer_none Do_handshake"
  "sh_stage (server_start cd opts rd) = On_client_selection" "sh_session_opts (server_start cd opts rd) = opts"
  "\<not> sh_ready (server_start cd opts rd)" "sh_random (server_start cd opts rd) = rd"
  "sh_events (server_start cd opts rd) = []"
  "hc_posted (client_start ident key rdc) = []" "hc_stage (client_start ident key rdc) = STAGE_HELLO"
  "\<not> hc_ready (client_start ident key rdc)" "hc_key (client_start ident key rdc) = key"
  "hc_random (client_start ident key rdc) = rdc" "hc_events (client_start ident key rdc) = []"
  "hc_session_id (client_start ident key rdc) = ident"
  "hc_dp (client_start ident key rdc)
     = idle_dp default_session_options hasher_none hasher_none Transformer_none Transformer_none Do_handshake"
  by (simp_all add: server_start_def client_start_def sh_init_def hc_init_def server_handshake_new_def
      client_handshake_new_def sh_post_def idle_dp_new Let_def)

lemma session_key_start: "session_key (client_start ident (Some key) rdc) = key"
  by (simp add: session_key_def start_facts)

definition selection_message :: "auth_codec \<Rightarrow> string \<Rightarrow> bytes option \<Rightarrow> bytes" where
  "selection_message cd ident key =
     enc_capsule cd (selection_capsule cd (client_start ident key ((\<lambda>_. 0), 0)) (hello_capsule cd))"

definition ready_message :: "auth_codec \<Rightarrow> server_app \<Rightarrow> session_options \<Rightarrow> bytes" where
  "ready_message cd app opts = enc_capsule cd (ready_capsule cd app opts init_capsule_new)"

text \<open>The message with the salts that a random device gives for a key.\<close>

definition salts_message :: "auth_codec \<Rightarrow> random_device \<Rightarrow> bytes" where
  "salts_message cd rd =
     (case generate_key_infos sha256i rd [] of (_, s1, s2, _) \<Rightarrow>
        enc_capsule cd (init_capsule_new\<lparr> ic_ready := True,
          ic_body := enc_setup cd \<lparr> ts_salt1 = s1, ts_salt2 = s2 \<rparr> \<rparr>))"

lemma selection_capsule_start:
  assumes "codec_ok cd"
  shows "enc_capsule cd (selection_capsule cd (client_start ident key rdc) (hello_capsule cd))
           = selection_message cd ident key"
    "ic_ready (selection_capsule cd (client_start ident key rdc) (hello_capsule cd))"
    "ic_body (selection_capsule cd (client_start ident key rdc) (hello_capsule cd)) = enc_selection cd
       (if key = None then \<lparr> cs_hash = default_hash_value, cs_transform = TRANSFORM_NONE, cs_id = [] \<rparr>
        else \<lparr> cs_hash = default_hash_value, cs_transform = TRANSFORM_ERSEEFOR, cs_id = ident \<rparr>)"
  using codec_simps [OF assms]
  by (simp_all add: selection_message_def selection_capsule_def start_facts server_has_transformer_def
      hello_capsule_def Let_def)

lemma plain_run:
  assumes ok: "codec_ok cd" and req: "\<not> sa_session_key_required app []"
    and fit: "fits_opts default_session_options (first_message cd)"
      "fits_opts opts (selection_message cd ident None)"
      "fits_opts default_session_options (ready_message cd app opts)"
  shows "\<exists>s c. reaches cd app (server_start cd opts rd, client_start ident None rdc) (s, c)
           \<and> hs_complete (sa_configure_session app opts) s c"
proof -
  define so where "so = sa_configure_session app opts"
  define s0 c0 where 0: "s0 = server_start cd opts rd" "c0 = client_start ident None rdc"
  let ?N = Transformer_none and ?n = hasher_none and ?k = hasher_crc32 and ?o = default_session_options
  let ?m = "selection_message cd ident None" and ?r = "ready_message cd app opts"
  define s1 c1 where 1:
    "s1 = s0\<lparr> sh_posted := [], sh_dp := idle_dp opts ?n ?n ?N ?N Do_handshake \<rparr>"
    "c1 = c0\<lparr> hc_dp := idle_dp ?o ?n ?k ?N ?N Do_handshake, hc_stage := STAGE_READY,
             hc_posted := [(?m, Cb_set_options)] \<rparr>"
  define s2 c2 where 2:
    "s2 = s1\<lparr> sh_timer := False, sh_ready := True, sh_client_id := [], sh_posted := [(?r, Cb_none)],
             sh_dp := idle_dp so ?k ?k ?N ?N Ready_call, sh_events := [Ev_client_id [], Ev_ready True] \<rparr>"
    "c2 = c1\<lparr> hc_posted := [], hc_dp := idle_dp ?o ?k ?k ?N ?N Do_handshake \<rparr>"
  define s3 c3 where 3:
    "s3 = s2\<lparr> sh_posted := [], sh_dp := idle_dp so ?k ?k ?N ?N Ready_call \<rparr>"
    "c3 = c2\<lparr> hc_dp := idle_dp so ?k ?k ?N ?N Ready_call, hc_ready := True,
             hc_events := [Ev_configure so, Ev_ready True] \<rparr>"
  have st0: "hs_step cd app (s0, c0) y \<longleftrightarrow> y = (s1, c1)" for y
    using hello_step [OF ok fit(1), of s0 opts c0 app y]
    by (simp add: 0 1 start_facts selection_capsule_start [OF ok])
  have st1: "hs_step cd app (s1, c1) y \<longleftrightarrow> y = (s2, c2)" for y
    using selection_step_plain [OF ok fit(2), where app = app and s = s1 and c = c1 and opts' = ?o and y = y
        and sel = "\<lparr> cs_hash = default_hash_value, cs_transform = TRANSFORM_NONE, cs_id = [] \<rparr>"
        and cap = "selection_capsule cd (client_start ident None rdc) (hello_capsule cd)"] req
    by (simp add: 0 1 2 start_facts selection_capsule_start [OF ok] so_def ready_message_def)
  have st2: "hs_step cd app (s2, c2) y \<longleftrightarrow> y = (s3, c3)" for y
    using ready_step [OF ok fit(3), of "ready_capsule cd app opts init_capsule_new" so s2 ?N ?N c2 ?N app y]
    by (simp add: 0 1 2 3 start_facts ready_message_def ready_capsule_def so_def packed_state_none)
  have fin: "reaches cd app (s3, c3) (s3, c3)" by (rule reaches_idle) (simp_all add: 2 3)
  have "reaches cd app (s0, c0) (s3, c3)"
    by (rule reaches_step [OF st0], rule reaches_step [OF st1], rule reaches_step [OF st2], rule fin)
  moreover have "hs_complete so s3 c3" by (simp add: hs_complete_def 0 1 2 3)
  ultimately show ?thesis unfolding 0 so_def by blast
qed

lemma cypher_run:
  assumes ok: "codec_ok cd" and key: "sa_session_key app ident = key"
    and fit: "fits_opts default_session_options (first_message cd)"
      "fits_opts opts (selection_message cd ident (Some key))"
      "fits_opts default_session_options (salts_message cd rd)" "fits_opts opts (salts_message cd rdc)"
      "fits_opts default_session_options (ready_message cd app opts)"
  shows "\<exists>s c. reaches cd app (server_start cd opts rd, client_start ident (Some key) rdc) (s, c)
           \<and> hs_complete (sa_configure_session app opts) s c \<and> sh_client_id s = ident
           \<and> dp_transformer (sh_dp s) \<noteq> Transformer_none \<and> dp_transformer (hc_dp c) \<noteq> Transformer_none"
proof -
  define so where "so = sa_configure_session app opts"
  define s0 c0 where 0: "s0 = server_start cd opts rd" "c0 = client_start ident (Some key) rdc"
  let ?N = Transformer_none and ?n = hasher_none and ?k = hasher_crc32 and ?o = default_session_options
  let ?m = "selection_message cd ident (Some key)" and ?r = "ready_message cd app opts"
  let ?sel = "\<lparr> cs_hash = default_hash_value, cs_transform = TRANSFORM_ERSEEFOR, cs_id = ident \<rparr>"
  obtain rd' a1 a2 ak where a: "generate_key_infos sha256i rd key = (rd', a1, a2, ak)" by (metis prod_cases4)
  obtain rd'' b1 b2 bk where b: "generate_key_infos sha256i rdc key = (rd'', b1, b2, bk)" by (metis prod_cases4)
  let ?cap = "\<lambda>x y. init_capsule_new\<lparr> ic_ready := True, ic_body := enc_setup cd \<lparr> ts_salt1 = x, ts_salt2 = y \<rparr> \<rparr>"
  have sm: "salts_message cd rd = enc_capsule cd (?cap a1 a2)" "salts_message cd rdc = enc_capsule cd (?cap b1 b2)"
    using a b by (auto simp: salts_message_def generate_key_infos_def generate_block_def Let_def split: prod.splits)
  let ?A = "session_cypher key a1 a2" and ?B = "session_cypher key b1 b2"
  define s1 c1 where 1:
    "s1 = s0\<lparr> sh_posted := [], sh_dp := idle_dp opts ?n ?n ?N ?N Do_handshake \<rparr>"
    "c1 = c0\<lparr> hc_dp := idle_dp ?o ?n ?k ?N ?N Do_handshake, hc_stage := STAGE_SETUP,
             hc_posted := [(?m, Cb_set_options)] \<rparr>"
  define s2 c2 where 2:
    "s2 = s1\<lparr> sh_random := rd', sh_client_id := ident, sh_stage := On_client_transformer,
             sh_posted := [(salts_message cd rd, Cb_none)], sh_dp := idle_dp opts ?k ?k ?N ?A Do_handshake,
             sh_events := [Ev_client_id ident] \<rparr>"
    "c2 = c1\<lparr> hc_posted := [], hc_dp := idle_dp ?o ?k ?k ?N ?N Do_handshake \<rparr>"
  define s3 c3 where 3:
    "s3 = s2\<lparr> sh_posted := [], sh_dp := idle_dp opts ?k ?k ?N ?A Do_handshake \<rparr>"
    "c3 = c2\<lparr> hc_random := rd'', hc_stage := STAGE_READY, hc_dp := idle_dp ?o ?k ?k ?A ?B Do_handshake,
             hc_posted := [(salts_message cd rdc, Cb_none)] \<rparr>"
  define A where "A = dp_transformer (packed_state (hc_dp c3) (salts_message cd rdc))"
  define s4 c4 where 4:
    "s4 = s3\<lparr> sh_timer := False, sh_ready := True, sh_posted := [(?r, Cb_none)],
             sh_dp := idle_dp so ?k ?k ?B A Ready_call, sh_events := [Ev_client_id ident, Ev_ready True] \<rparr>"
    "c4 = c3\<lparr> hc_posted := [], hc_dp := packed_state (hc_dp c3) (salts_message cd rdc) \<rparr>"
  define B where "B = dp_transformer (packed_state (sh_dp s4) ?r)"
  define s5 c5 where 5:
    "s5 = s4\<lparr> sh_posted := [], sh_dp := packed_state (sh_dp s4) ?r \<rparr>"
    "c5 = c4\<lparr> hc_dp := idle_dp so ?k ?k A B Ready_call, hc_ready := True,
             hc_events := [Ev_configure so, Ev_ready True] \<rparr>"
  have st0: "hs_step cd app (s0, c0) y \<longleftrightarrow> y = (s1, c1)" for y
    using hello_step [OF ok fit(1), of s0 opts c0 app y]
    by (simp add: 0 1 start_facts selection_capsule_start [OF ok])
  have st1: "hs_step cd app (s1, c1) y \<longleftrightarrow> y = (s2, c2)" for y
    using selection_step_cypher [OF ok fit(2), where sel = ?sel and app = app and s = s1 and c = c1 and opts' = ?o
        and cap = "selection_capsule cd (client_start ident (Some key) rdc) (hello_capsule cd)" and y = y
        and rd = rd' and ?s1.0 = a1 and ?s2.0 = a2 and key = ak] key a
    by (simp add: 0 1 2 start_facts selection_capsule_start [OF ok] sm)
  have st2: "hs_step cd app (s2, c2) y \<longleftrightarrow> y = (s3, c3)" for y
    using setup_step [OF ok fit(3), where cap = "?cap a1 a2" and ?s1.0 = a1 and ?s2.0 = a2 and c = c2 and s = s2
        and rd = rd'' and s1' = b1 and s2' = b2 and key = bk and opts = opts and r = ?A and app = app and y = y] b
      session_key_start [of ident key rdc]
    by (simp add: 0 1 2 3 start_facts sm session_key_def)
  have st3: "hs_step cd app (s3, c3) y \<longleftrightarrow> y = (s4, c4)" for y
    using transformer_step [OF ok fit(4), where cap = "?cap b1 b2" and ?s1.0 = b1 and ?s2.0 = b2 and s = s3 and c = c3
        and t = ?A and r = ?B and opts' = ?o and app = app and y = y] key
    by (simp add: 0 1 2 3 4 start_facts sm so_def ready_message_def A_def)
  have st4: "hs_step cd app (s4, c4) y \<longleftrightarrow> y = (s5, c5)" for y
    using ready_step [OF ok fit(5), where cap = "ready_capsule cd app opts init_capsule_new" and so = so and s = s4
        and c = c4 and t = ?B and r = A and t' = A and app = app and y = y]
    by (simp add: 0 1 2 3 4 5 start_facts ready_message_def ready_capsule_def so_def A_def B_def packed_state_eq)
  have fin: "reaches cd app (s5, c5) (s5, c5)" by (rule reaches_idle) (simp_all add: 4 5)
  have "reaches cd app (s0, c0) (s5, c5)"
    by (rule reaches_step [OF st0], rule reaches_step [OF st1], rule reaches_step [OF st2], rule reaches_step [OF st3], rule reaches_step [OF st4], rule fin)
  moreover have "hs_complete so s5 c5" "sh_client_id s5 = ident"
    by (simp_all add: hs_complete_def 0 1 2 3 4 5 B_def packed_state_eq)
  moreover have "dp_transformer (sh_dp s5) \<noteq> ?N" "dp_transformer (hc_dp c5) \<noteq> ?N"
    by (simp_all add: 3 4 5 A_def packed_state_cypher)
  ultimately show ?thesis unfolding 0 so_def by blast
qed

lemma complete_in_step:
  assumes "hs_complete opts s c"
  shows "in_step (sh_dp s) (hc_dp c) \<and> in_step (hc_dp c) (sh_dp s)
       \<and> qb_data (dp_queue (sh_dp s)) = [] \<and> qb_data (dp_queue (hc_dp c)) = []
       \<and> dp_process_stage (sh_dp s) = Ready_call \<and> dp_process_stage (hc_dp c) = Ready_call
       \<and> unat (qb_max (dp_queue (sh_dp s))) = unat (so_max_message_length opts)
       \<and> unat (qb_max (dp_queue (hc_dp c))) = unat (so_max_message_length opts)"
  using assms by (auto simp: hs_complete_def in_step_def idle_dp_queue unat_ucast_64)

text \<open>A client without a key that the server wants one from.\<close>

definition refusal_message :: "auth_codec \<Rightarrow> bytes" where
  "refusal_message cd =
     enc_capsule cd (init_capsule_new\<lparr> ic_error := auth_error ERR_ACCESS ''Session key required'' \<rparr>)"

lemma refused_run:
  assumes ok: "codec_ok cd" and req: "sa_session_key_required app []"
    and fit: "fits_opts default_session_options (first_message cd)"
      "fits_opts opts (selection_message cd ident None)" "fits_opts default_session_options (refusal_message cd)"
  shows "\<exists>s c. reaches cd app (server_start cd opts rd, client_start ident None rdc) (s, c)
           \<and> \<not> sh_ready s \<and> \<not> hc_ready c \<and> last (sh_events s) = Ev_connection_close
           \<and> hc_events c = [Ev_error (auth_error ERR_ACCESS ''Session key required'') ''Session key required'', Ev_close]"
proof -
  define s0 c0 where 0: "s0 = server_start cd opts rd" "c0 = client_start ident None rdc"
  let ?N = Transformer_none and ?n = hasher_none and ?k = hasher_crc32 and ?o = default_session_options
  let ?m = "selection_message cd ident None" and ?e = "auth_error ERR_ACCESS ''Session key required''"
  let ?sel = "\<lparr> cs_hash = default_hash_value, cs_transform = TRANSFORM_NONE, cs_id = [] \<rparr>"
  define s1 c1 where 1:
    "s1 = s0\<lparr> sh_posted := [], sh_dp := idle_dp opts ?n ?n ?N ?N Do_handshake \<rparr>"
    "c1 = c0\<lparr> hc_dp := idle_dp ?o ?n ?k ?N ?N Do_handshake, hc_stage := STAGE_READY,
             hc_posted := [(?m, Cb_set_options)] \<rparr>"
  define s2 c2 where 2:
    "s2 = s1\<lparr> sh_client_id := [], sh_posted := [(refusal_message cd, Cb_close_client)],
             sh_dp := idle_dp opts ?k ?k ?N ?N Do_handshake, sh_events := [Ev_client_id []] \<rparr>"
    "c2 = c1\<lparr> hc_posted := [], hc_dp := idle_dp ?o ?k ?k ?N ?N Do_handshake \<rparr>"
  define s3 c3 where 3:
    "s3 = s2\<lparr> sh_posted := [], sh_dp := idle_dp opts ?k ?k ?N ?N Do_handshake, sh_ready := False,
             sh_events := [Ev_client_id [], Ev_connection_close] \<rparr>"
    "c3 = c2\<lparr> hc_stage := STAGE_ERROR, hc_events := [Ev_error ?e ''Session key required'', Ev_close] \<rparr>"
  note f = selection_capsule_start [OF ok, of ident None rdc] codec_simps [OF ok]
  have m: "dec_capsule cd ?m = (True, selection_capsule cd (client_start ident None rdc) (hello_capsule cd))"
    using f(1,4) by metis
  have st0: "hs_step cd app (s0, c0) y \<longleftrightarrow> y = (s1, c1)" for y
    using hello_step [OF ok fit(1), of s0 opts c0 app y] by (simp add: 0 1 start_facts f)
  have call1: "sh_stage_function cd app ?m s1 = Some s2"
    using req
    by (simp add: 0 1 2 start_facts sh_stage_function_def on_client_selection_def m f default_hash sh_set_hash_def
        sh_event_def setup_transformer_def send_and_close_def sh_post_def refusal_message_def)
  have st1: "hs_step cd app (s1, c1) y \<longleftrightarrow> y = (s2, c2)" for y
    using step_to_server [of c1 ?m Cb_set_options s1 cd app s2 y] call1 fit(2)
    by (simp add: 0 1 2 start_facts linked_idle fits_idle packed_state_none sh_finish_def set_options_def default_hash)
  have call2: "hc_stage_call cd (refusal_message cd) c2 = Some c3"
    by (simp add: 0 1 2 3 start_facts hc_stage_call_def on_server_ready_def refusal_message_def f init_capsule_new_def
        hc_event_def change_stage_def auth_error_def)
  have st2: "hs_step cd app (s2, c2) y \<longleftrightarrow> y = (s3, c3)" for y
    using step_to_client [of s2 "refusal_message cd" Cb_close_client c2 cd c3 app y] call2 fit(3)
    by (simp add: 0 1 2 3 start_facts linked_idle fits_idle packed_state_none hc_finish_def sh_event_def)
  have fin: "reaches cd app (s3, c3) (s3, c3)" by (rule reaches_idle) (simp_all add: 2 3)
  have "reaches cd app (s0, c0) (s3, c3)"
    by (rule reaches_step [OF st0], rule reaches_step [OF st1], rule reaches_step [OF st2], rule fin)
  moreover have "\<not> sh_ready s3" "\<not> hc_ready c3" "last (sh_events s3) = Ev_connection_close"
    "hc_events c3 = [Ev_error ?e ''Session key required'', Ev_close]"
    by (simp_all add: 0 1 2 3 start_facts)
  ultimately show ?thesis unfolding 0 by blast
qed

subsection \<open>Properties\<close>

text \<open>
  A client without a session key and a server that does not ask for one always complete the
  handshake, however the bytes are split on the way: every run leads to the same end, in which both
  sides are ready, use the limits the application chose, and are in step in both directions with
  nothing left over, so that everything sent afterwards is delivered.
\<close>

theorem handshake_plain:
  assumes "codec_ok cd" and "\<not> sa_session_key_required app []"
    and "fits_opts default_session_options (first_message cd)"
    and "fits_opts opts (selection_message cd ident None)"
    and "fits_opts default_session_options (ready_message cd app opts)"
  shows "\<exists>s c. reaches cd app (server_start cd opts rd, client_start ident None rdc) (s, c)
           \<and> sh_ready s \<and> hc_ready c
           \<and> in_step (sh_dp s) (hc_dp c) \<and> in_step (hc_dp c) (sh_dp s)
           \<and> qb_data (dp_queue (sh_dp s)) = [] \<and> qb_data (dp_queue (hc_dp c)) = []
           \<and> dp_process_stage (sh_dp s) = Ready_call \<and> dp_process_stage (hc_dp c) = Ready_call
           \<and> hc_events c = [Ev_configure (sa_configure_session app opts), Ev_ready True]"
proof -
  obtain s c where r: "reaches cd app (server_start cd opts rd, client_start ident None rdc) (s, c)"
    and h: "hs_complete (sa_configure_session app opts) s c"
    using plain_run [OF assms] by blast
  with complete_in_step [OF h] show ?thesis by (auto simp: hs_complete_def)
qed

text \<open>An application with one key for everybody, and the messages it leads to.\<close>

definition open_app :: "bool \<Rightarrow> bytes \<Rightarrow> server_app" where
  "open_app required key =
     \<lparr> sa_session_key = (\<lambda>_. key), sa_session_key_required = (\<lambda>_. required), sa_configure_session = id \<rparr>"

lemma salts_message_length: "length (salts_message protobuf_codec rd) \<le> 3000"
proof -
  obtain rnd pos where rd: "rd = (rnd, pos)" by fastforce
  define t where "t = \<lparr> ts_salt1 = map rnd [pos..<pos + 256], ts_salt2 = map rnd [pos + 256..<512 + pos] \<rparr>"
  have "salts_message protobuf_codec rd
      = enc_capsule protobuf_codec (init_capsule_new\<lparr> ic_ready := True, ic_body := enc_setup protobuf_codec t \<rparr>)"
    by (simp add: salts_message_def rd generate_key_infos_def generate_block_def Let_def t_def)
  then show ?thesis
    using capsule_bound [of "init_capsule_new\<lparr> ic_ready := True, ic_body := enc_setup protobuf_codec t \<rparr>"]
      setup_bound [of t]
    by (simp add: t_def init_capsule_new_def no_error_def ERR_NO_ERROR_def CATEGORY_INTERNAL_def)
qed

lemma example_messages:
  "fits_opts default_session_options (first_message protobuf_codec)"
  "fits_opts default_session_options (selection_message protobuf_codec ''me'' key)"
  "fits_opts default_session_options (refusal_message protobuf_codec)"
  "fits_opts default_session_options (ready_message protobuf_codec (open_app r k) default_session_options)"
  "fits_opts default_session_options (salts_message protobuf_codec rd)"
proof -
  note defs = fits_opts_def init_capsule_new_def no_error_def ERR_NO_ERROR_def HASH_NONE_def HASH_CRC_32_def HASH_SHA2_256_def
    TRANSFORM_NONE_def TRANSFORM_ERSEEFOR_def ERR_ACCESS_def CATEGORY_INTERNAL_def
  show "fits_opts default_session_options (first_message protobuf_codec)"
    using capsule_bound [of "hello_capsule protobuf_codec"]
      protocol_bound [of "\<lparr> ip_hash_supported = [HASH_NONE, HASH_CRC_32, HASH_SHA2_256],
        ip_transform_supported = [TRANSFORM_NONE, TRANSFORM_ERSEEFOR] \<rparr>"]
    by (simp add: defs default_session_options_def first_message_def hello_capsule_def)
  show "fits_opts default_session_options (selection_message protobuf_codec ''me'' key)"
    using capsule_bound [of "selection_capsule protobuf_codec (client_start ''me'' key ((\<lambda>_. 0), 0)) (hello_capsule protobuf_codec)"]
      selection_bound [of "\<lparr> cs_hash = default_hash_value, cs_transform = TRANSFORM_ERSEEFOR, cs_id = ''me'' \<rparr>"]
      selection_bound [of "\<lparr> cs_hash = default_hash_value, cs_transform = TRANSFORM_NONE, cs_id = [] \<rparr>"]
    by (auto simp add: defs default_session_options_def selection_message_def selection_capsule_def hello_capsule_def
        default_hash_value_def start_facts Let_def split: if_splits)
  show "fits_opts default_session_options (refusal_message protobuf_codec)"
    using capsule_bound [of "init_capsule_new\<lparr> ic_error := auth_error ERR_ACCESS ''Session key required'' \<rparr>"]
    by (simp add: defs default_session_options_def refusal_message_def auth_error_def)
  show "fits_opts default_session_options (ready_message protobuf_codec (open_app r k) default_session_options)"
    using capsule_bound [of "ready_capsule protobuf_codec (open_app r k) default_session_options init_capsule_new"]
      session_bound [of default_session_options]
    by (simp add: defs ready_message_def ready_capsule_def open_app_def default_session_options_def)
  show "fits_opts default_session_options (salts_message protobuf_codec rd)"
    using salts_message_length [of rd] by (simp add: fits_opts_def default_session_options_def)
qed

theorem handshake_plain_witness:
  "\<exists>s c. reaches protobuf_codec (open_app False []) (server_start protobuf_codec default_session_options ((\<lambda>_. 7), 0),
             client_start ''me'' None ((\<lambda>_. 9), 0)) (s, c)
     \<and> in_step (sh_dp s) (hc_dp c) \<and> in_step (hc_dp c) (sh_dp s)"
proof -
  have "\<not> sa_session_key_required (open_app False []) []" by (simp add: open_app_def)
  from handshake_plain [OF protobuf_codec_ok this example_messages(1,2,4), of "((\<lambda>_. 7), 0)" "((\<lambda>_. 9), 0)"]
  show ?thesis by blast
qed

text \<open>
  C7. With a session key both sides know, the handshake completes in the same way and both
  directions are enciphered, each with a key of its own that comes from the session key and the
  salts of the receiving side; the two ciphers of each direction are in the same state.
\<close>

theorem handshake_enciphered:
  assumes "codec_ok cd" and "sa_session_key app ident = key"
    and "fits_opts default_session_options (first_message cd)"
    and "fits_opts opts (selection_message cd ident (Some key))"
    and "fits_opts default_session_options (salts_message cd rd)" and "fits_opts opts (salts_message cd rdc)"
    and "fits_opts default_session_options (ready_message cd app opts)"
  shows "\<exists>s c. reaches cd app (server_start cd opts rd, client_start ident (Some key) rdc) (s, c)
           \<and> sh_ready s \<and> hc_ready c \<and> sh_client_id s = ident
           \<and> dp_transformer (sh_dp s) \<noteq> Transformer_none \<and> dp_transformer (hc_dp c) \<noteq> Transformer_none
           \<and> in_step (sh_dp s) (hc_dp c) \<and> in_step (hc_dp c) (sh_dp s)
           \<and> qb_data (dp_queue (sh_dp s)) = [] \<and> qb_data (dp_queue (hc_dp c)) = []
           \<and> dp_process_stage (sh_dp s) = Ready_call \<and> dp_process_stage (hc_dp c) = Ready_call"
proof -
  obtain s c where "reaches cd app (server_start cd opts rd, client_start ident (Some key) rdc) (s, c)"
    and h: "hs_complete (sa_configure_session app opts) s c" and "sh_client_id s = ident"
    and "dp_transformer (sh_dp s) \<noteq> Transformer_none" "dp_transformer (hc_dp c) \<noteq> Transformer_none"
    using cypher_run [OF assms] by blast
  with complete_in_step [OF h] show ?thesis by (auto simp: hs_complete_def)
qed

theorem handshake_enciphered_witness:
  "\<exists>s c. reaches protobuf_codec (open_app True [1, 2, 3])
       (server_start protobuf_codec default_session_options ((\<lambda>_. 7), 0), client_start ''me'' (Some [1, 2, 3]) ((\<lambda>_. 9), 0)) (s, c)
     \<and> sh_client_id s = ''me'' \<and> dp_transformer (sh_dp s) \<noteq> Transformer_none \<and> in_step (sh_dp s) (hc_dp c)"
proof -
  have "sa_session_key (open_app True [1, 2, 3]) ''me'' = [1, 2, 3]" by (simp add: open_app_def)
  from handshake_enciphered [OF protobuf_codec_ok this example_messages(1,2) example_messages(5) example_messages(5)
      example_messages(4), of "((\<lambda>_. 7), 0)" "((\<lambda>_. 9), 0)"]
  show ?thesis by blast
qed

text \<open>
  A client without a key that meets a server which asks for one is refused: neither side ever
  becomes ready, the server closes the connection after its answer, and the client is told why.
\<close>

theorem handshake_refused:
  assumes "codec_ok cd" and "sa_session_key_required app []"
    and "fits_opts default_session_options (first_message cd)"
    and "fits_opts opts (selection_message cd ident None)"
    and "fits_opts default_session_options (refusal_message cd)"
  shows "\<exists>s c. reaches cd app (server_start cd opts rd, client_start ident None rdc) (s, c)
           \<and> \<not> sh_ready s \<and> \<not> hc_ready c \<and> last (sh_events s) = Ev_connection_close
           \<and> hc_events c = [Ev_error (auth_error ERR_ACCESS ''Session key required'') ''Session key required'', Ev_close]"
  by (rule refused_run [OF assms])

theorem handshake_refused_witness:
  "\<exists>s c. reaches protobuf_codec (open_app True []) (server_start protobuf_codec default_session_options ((\<lambda>_. 7), 0),
             client_start ''me'' None ((\<lambda>_. 9), 0)) (s, c)
     \<and> \<not> sh_ready s \<and> \<not> hc_ready c"
proof -
  have "sa_session_key_required (open_app True []) []" by (simp add: open_app_def)
  from handshake_refused [OF protobuf_codec_ok this example_messages(1,2,3), of "((\<lambda>_. 7), 0)" "((\<lambda>_. 9), 0)"]
  show ?thesis by blast
qed

end
