(* ===== verification/Call_Context.thy ===== *)
theory Call_Context
  imports Rpc_Types
begin

text \<open>
  Call contexts (\<open>lib/vtrc/common/call-context.cpp\<close>), the thread's stack of them
  (\<open>protocol-layer.cpp\<close>, \<open>push_call_context\<close> to \<open>top_call_context\<close>) and the keeper of a call that is
  answered later (\<open>call-keeper.cpp\<close>). Contexts refer to each other by raw pointers, and a copy of a
  stack shares nothing but these pointers, so contexts live in a heap of addresses. The
  thread-specific pointer to the stack is \<open>None\<close> when it is null.
\<close>

subsection \<open>Contexts\<close>

record call_context =
  cc_llu :: lowlevel_unit
  cc_next :: "nat option"
  cc_opts :: "nat option"
  cc_done :: "nat option"
  cc_depth :: nat
  cc_impersonated :: bool

definition call_context_new :: "lowlevel_unit \<Rightarrow> call_context" where
  "call_context_new llu =
     \<lparr> cc_llu = llu, cc_next = None, cc_opts = None, cc_done = None, cc_depth = 1,
       cc_impersonated = False \<rparr>"

record ctx_state =
  cs_heap :: "nat \<Rightarrow> call_context"
  cs_fresh :: nat
  cs_stack :: "nat list option"

definition cs_new :: ctx_state where
  "cs_new = \<lparr> cs_heap = (\<lambda>_. call_context_new llu_new), cs_fresh = 0, cs_stack = None \<rparr>"

definition ctx_alloc :: "call_context \<Rightarrow> ctx_state \<Rightarrow> ctx_state \<times> nat" where
  "ctx_alloc c s =
     (s\<lparr> cs_heap := (cs_heap s)(cs_fresh s := c), cs_fresh := Suc (cs_fresh s) \<rparr>, cs_fresh s)"

definition ctx_update :: "nat \<Rightarrow> (call_context \<Rightarrow> call_context) \<Rightarrow> ctx_state \<Rightarrow> ctx_state" where
  "ctx_update a f s = s\<lparr> cs_heap := (cs_heap s)(a := f (cs_heap s a)) \<rparr>"

definition set_next :: "nat \<Rightarrow> nat option \<Rightarrow> ctx_state \<Rightarrow> ctx_state" where
  "set_next a parent s =
     ctx_update a (\<lambda>c. c\<lparr> cc_next := parent,
       cc_depth := (case parent of None \<Rightarrow> 1 | Some b \<Rightarrow> cc_depth (cs_heap s b) + 1) \<rparr>) s"

definition set_call_options :: "nat \<Rightarrow> nat option \<Rightarrow> ctx_state \<Rightarrow> ctx_state" where
  "set_call_options a opts = ctx_update a (\<lambda>c. c\<lparr> cc_opts := opts \<rparr>)"

definition set_done_closure :: "nat \<Rightarrow> nat option \<Rightarrow> ctx_state \<Rightarrow> ctx_state" where
  "set_done_closure a done = ctx_update a (\<lambda>c. c\<lparr> cc_done := done \<rparr>)"

definition set_impersonated :: "nat \<Rightarrow> bool \<Rightarrow> ctx_state \<Rightarrow> ctx_state" where
  "set_impersonated a v = ctx_update a (\<lambda>c. c\<lparr> cc_impersonated := v \<rparr>)"

subsection \<open>The stack of a thread\<close>

definition check_create_stack :: "ctx_state \<Rightarrow> ctx_state" where
  "check_create_stack s = (case cs_stack s of None \<Rightarrow> s\<lparr> cs_stack := Some [] \<rparr> | Some _ \<Rightarrow> s)"

definition top_call_context :: "ctx_state \<Rightarrow> nat option" where
  "top_call_context s = (case cs_stack s of Some (a # _) \<Rightarrow> Some a | _ \<Rightarrow> None)"

definition push_call_context :: "nat \<Rightarrow> ctx_state \<Rightarrow> ctx_state" where
  "push_call_context cc s =
     (let s = check_create_stack s;
          s = set_next cc (top_call_context s) s
      in s\<lparr> cs_stack := map_option ((#) cc) (cs_stack s) \<rparr>)"

text \<open>With no stack at all \<open>pop_call_context\<close> dereferences a null pointer.\<close>

definition pop_call_context :: "ctx_state \<Rightarrow> exn + ctx_state" where
  "pop_call_context s =
     (case cs_stack s of
        None \<Rightarrow> Inl Undefined
      | Some xs \<Rightarrow> (let xs = tl xs in Inr (s\<lparr> cs_stack := (if xs = [] then None else Some xs) \<rparr>)))"

definition reset_call_context :: "ctx_state \<Rightarrow> ctx_state" where
  "reset_call_context s = s\<lparr> cs_stack := None \<rparr>"

definition swap_call_stack :: "nat list \<Rightarrow> ctx_state \<Rightarrow> ctx_state \<times> nat list" where
  "swap_call_stack other s =
     (let s = check_create_stack s
      in (s\<lparr> cs_stack := Some other \<rparr>, case cs_stack s of Some xs \<Rightarrow> xs | None \<Rightarrow> []))"

text \<open>One step of the loop of \<open>clone_stack\<close>: \<open>last\<close> points to the previous context of the source.\<close>

definition clone_step ::
    "ctx_state \<times> nat list \<times> nat option \<Rightarrow> nat \<Rightarrow> ctx_state \<times> nat list \<times> nat option" where
  "clone_step st b =
     (case st of (s, tmp, prev) \<Rightarrow>
       let (s, c) = ctx_alloc (cs_heap s b) s;
           s = (case prev of None \<Rightarrow> s | Some l \<Rightarrow> set_next l (Some b) s)
       in (s, tmp @ [c], Some b))"

definition clone_stack :: "nat list \<Rightarrow> ctx_state \<Rightarrow> ctx_state \<times> nat list" where
  "clone_stack src s =
     (case foldl clone_step (s, [], None) src of (s', tmp, _) \<Rightarrow> (s', tmp))"

definition copy_call_stack :: "ctx_state \<Rightarrow> ctx_state \<times> nat list" where
  "copy_call_stack s =
     (case cs_stack s of None \<Rightarrow> (s, []) | Some xs \<Rightarrow> clone_stack xs s)"

text \<open>The object that opens a context for the time of a local call.\<close>

definition context_holder_open :: "lowlevel_unit \<Rightarrow> ctx_state \<Rightarrow> ctx_state \<times> nat" where
  "context_holder_open llu s =
     (case ctx_alloc (call_context_new llu) s of (s', a) \<Rightarrow> (push_call_context a s', a))"

subsection \<open>Keepers\<close>

record call_keeper =
  ck_done :: "nat option"
  ck_stack :: "nat list"

definition call_keeper_new :: "ctx_state \<Rightarrow> ctx_state \<times> (exn + call_keeper)" where
  "call_keeper_new s =
     (if top_call_context s = None
      then (s, Inl (Runtime_error ''Call context is not found.''))
      else (case copy_call_stack s of
              (s', st) \<Rightarrow> (s', Inr \<lparr> ck_done = cc_done (cs_heap s' (hd st)), ck_stack = st \<rparr>)))"

definition ck_call_context :: "call_keeper \<Rightarrow> nat option" where
  "ck_call_context k = (case ck_stack k of [] \<Rightarrow> None | a # _ \<Rightarrow> Some a)"

text \<open>The destructor runs the closure it kept.\<close>

definition call_keeper_runs :: "call_keeper \<Rightarrow> nat list" where
  "call_keeper_runs k = (case ck_done k of None \<Rightarrow> [] | Some d \<Rightarrow> [d])"

subsection \<open>The invariant of the stack\<close>

text \<open>Every context points to the one below it and knows its depth.\<close>

fun linked :: "(nat \<Rightarrow> call_context) \<Rightarrow> nat list \<Rightarrow> bool" where
  "linked h [] = True"
| "linked h (a # xs) \<longleftrightarrow>
     cc_next (h a) = (case xs of [] \<Rightarrow> None | b # _ \<Rightarrow> Some b)
     \<and> cc_depth (h a) = Suc (length xs) \<and> linked h xs"

definition stack_ok :: "ctx_state \<Rightarrow> bool" where
  "stack_ok s \<longleftrightarrow>
     (case cs_stack s of None \<Rightarrow> True
      | Some xs \<Rightarrow> distinct xs \<and> (\<forall>a \<in> set xs. a < cs_fresh s) \<and> linked (cs_heap s) xs)"

lemma linked_cong: "(\<And>a. a \<in> set xs \<Longrightarrow> h a = h' a) \<Longrightarrow> linked h xs = linked h' xs"
  by (induction xs) auto

lemma linked_fresh: "\<forall>a \<in> set xs. a < n \<Longrightarrow> linked (h(n := c)) xs = linked h xs"
  by (rule linked_cong) auto

lemma stack_ok_new: "stack_ok cs_new"
  by (simp add: stack_ok_def cs_new_def)

lemma push_ok:
  assumes "stack_ok s" and "cc < cs_fresh s" and "\<forall>xs. cs_stack s = Some xs \<longrightarrow> cc \<notin> set xs"
  shows "stack_ok (push_call_context cc s)"
proof -
  define xs where "xs = (case cs_stack s of None \<Rightarrow> [] | Some xs \<Rightarrow> xs)"
  have st: "cs_stack (check_create_stack s) = Some xs" "cs_heap (check_create_stack s) = cs_heap s"
    "cs_fresh (check_create_stack s) = cs_fresh s"
    by (simp_all add: check_create_stack_def xs_def split: option.splits)
  have ok: "distinct xs" "\<forall>a \<in> set xs. a < cs_fresh s" "linked (cs_heap s) xs" "cc \<notin> set xs"
    using assms by (auto simp: stack_ok_def xs_def split: option.splits)
  let ?h = "cs_heap (push_call_context cc s)"
  have h: "?h a = cs_heap s a" if "a \<noteq> cc" for a
    using that by (simp add: push_call_context_def set_next_def ctx_update_def Let_def st)
  have "linked ?h xs" using ok linked_cong [of xs ?h "cs_heap s"] h by metis
  moreover have "cc_next (?h cc) = (case xs of [] \<Rightarrow> None | b # _ \<Rightarrow> Some b)"
    "cc_depth (?h cc) = Suc (length xs)"
    using ok(3) by (cases xs; simp add: push_call_context_def set_next_def ctx_update_def
        top_call_context_def Let_def st)+
  moreover have "cs_stack (push_call_context cc s) = Some (cc # xs)"
    "cs_fresh (push_call_context cc s) = cs_fresh s"
    by (simp_all add: push_call_context_def set_next_def ctx_update_def Let_def st)
  ultimately show ?thesis using ok assms(2) by (simp add: stack_ok_def)
qed

lemma open_ok: "stack_ok s \<Longrightarrow> stack_ok (fst (context_holder_open llu s))"
proof -
  assume ok: "stack_ok s"
  let ?s = "fst (ctx_alloc (call_context_new llu) s)"
  have "linked (cs_heap ?s) xs" if "cs_stack s = Some xs" for xs
    using ok that linked_fresh by (simp add: stack_ok_def ctx_alloc_def)
  then have "stack_ok ?s"
    using ok by (auto simp: stack_ok_def ctx_alloc_def split: option.splits)
  then have "stack_ok (push_call_context (cs_fresh s) ?s)"
    using ok by (intro push_ok) (auto simp: stack_ok_def ctx_alloc_def)
  then show ?thesis by (simp add: context_holder_open_def ctx_alloc_def)
qed

lemma pop_ok: "stack_ok s \<Longrightarrow> pop_call_context s = Inr s' \<Longrightarrow> stack_ok s'"
proof -
  assume ok: "stack_ok s" and p: "pop_call_context s = Inr s'"
  then obtain xs where xs: "cs_stack s = Some xs" by (auto simp: pop_call_context_def split: option.splits)
  with ok p show "stack_ok s'"
    by (cases xs) (auto simp: stack_ok_def pop_call_context_def Let_def split: if_splits)
qed

subsection \<open>Copies\<close>

lemma set_next_id:
  assumes "linked (cs_heap s) (l # b # xs)"
  shows "set_next l (Some b) s = s"
proof -
  have "cc_next (cs_heap s l) = Some b" "cc_depth (cs_heap s l) = cc_depth (cs_heap s b) + 1"
    using assms by simp_all
  then have "(cs_heap s l)\<lparr> cc_next := Some b, cc_depth := cc_depth (cs_heap s b) + 1 \<rparr> = cs_heap s l"
    by (cases "cs_heap s l") simp
  then show ?thesis by (cases s) (simp add: set_next_def ctx_update_def)
qed

text \<open>Cloning leaves the source as it is and copies every context, its link to the source's next
  context included.\<close>

lemma clone_fold:
  assumes "\<forall>a \<in> set xs \<union> set_option prev. a < cs_fresh s"
    and "linked (cs_heap s) (case prev of None \<Rightarrow> xs | Some l \<Rightarrow> l # xs)"
  shows "\<exists>s' l. foldl clone_step (s, tmp, prev) xs = (s', tmp @ [cs_fresh s..<cs_fresh s + length xs], l)
           \<and> (\<forall>a < cs_fresh s. cs_heap s' a = cs_heap s a)
           \<and> (\<forall>i < length xs. cs_heap s' (cs_fresh s + i) = cs_heap s (xs ! i))"
  using assms
proof (induction xs arbitrary: s tmp prev)
  case (Cons b xs)
  let ?s = "fst (ctx_alloc (cs_heap s b) s)"
  have l: "linked (cs_heap ?s) (case prev of None \<Rightarrow> b # xs | Some l \<Rightarrow> l # b # xs)"
    using Cons.prems linked_fresh [of "case prev of None \<Rightarrow> b # xs | Some l \<Rightarrow> l # b # xs" "cs_fresh s"]
    by (cases prev) (auto simp: ctx_alloc_def)
  then have step: "clone_step (s, tmp, prev) b = (?s, tmp @ [cs_fresh s], Some b)"
    using set_next_id [of ?s _ b xs] by (cases prev) (simp_all add: clone_step_def ctx_alloc_def Let_def)
  have "linked (cs_heap ?s) (b # xs)" using l by (cases prev) auto
  moreover have "\<forall>a \<in> set xs \<union> set_option (Some b). a < cs_fresh ?s"
    using Cons.prems(1) by (auto simp: ctx_alloc_def less_Suc_eq)
  ultimately obtain s' l' where IH:
    "foldl clone_step (?s, tmp @ [cs_fresh s], Some b) xs =
       (s', (tmp @ [cs_fresh s]) @ [cs_fresh ?s..<cs_fresh ?s + length xs], l')"
    "\<forall>a < cs_fresh ?s. cs_heap s' a = cs_heap ?s a"
    "\<forall>i < length xs. cs_heap s' (cs_fresh ?s + i) = cs_heap ?s (xs ! i)"
    using Cons.IH [of "Some b" ?s "tmp @ [cs_fresh s]"] by auto
  have "cs_heap s' (cs_fresh s + i) = cs_heap s ((b # xs) ! i)" if i: "i < length (b # xs)" for i
  proof (cases i)
    case 0
    then show ?thesis using IH(2) by (simp add: ctx_alloc_def)
  next
    case (Suc j)
    then have "cs_heap s' (cs_fresh s + i) = cs_heap ?s (xs ! j)"
      using IH(3) i by (simp add: ctx_alloc_def)
    moreover have "xs ! j < cs_fresh s" using Cons.prems(1) Suc i by auto
    ultimately show ?thesis using Suc by (simp add: ctx_alloc_def)
  qed
  moreover have "\<forall>a < cs_fresh s. cs_heap s' a = cs_heap s a"
    using IH(2) by (simp add: ctx_alloc_def)
  ultimately show ?case
    using IH(1) step upt_conv_Cons [of "cs_fresh s" "cs_fresh s + length (b # xs)"]
    by (simp add: ctx_alloc_def del: upt_Suc)
qed simp

lemma copy_call_stack_copies:
  assumes "stack_ok s" and "cs_stack s = Some xs" and "copy_call_stack s = (s', st)"
  shows "st = [cs_fresh s..<cs_fresh s + length xs]
       \<and> (\<forall>a < cs_fresh s. cs_heap s' a = cs_heap s a)
       \<and> (\<forall>i < length xs. cs_heap s' (st ! i) = cs_heap s (xs ! i))"
  using clone_fold [of xs None s "[]"] assms
  by (auto simp: copy_call_stack_def clone_stack_def stack_ok_def split: prod.splits)

subsection \<open>Properties\<close>

text \<open>
  Opening a context for a call and closing it again leaves the thread's stack as it was, and
  while it is open its depth is the number of calls in progress on the thread, itself included:
  the limit on the stack size counts nested calls exactly.
\<close>

theorem context_open_close:
  assumes "stack_ok s" and "cs_stack s = (if xs = [] then None else Some xs)"
    and "context_holder_open llu s = (s', a)"
  shows "cc_depth (cs_heap s' a) = Suc (length xs) \<and> cc_llu (cs_heap s' a) = llu
       \<and> cs_stack s' = Some (a # xs) \<and> stack_ok s'
       \<and> (\<exists>s''. pop_call_context s' = Inr s'' \<and> cs_stack s'' = cs_stack s \<and> stack_ok s'')"
proof -
  have ok: "stack_ok s'" using open_ok [OF assms(1), of llu] assms(3) by simp
  have st: "cs_stack s' = Some (a # xs)" "cc_llu (cs_heap s' a) = llu"
    using assms(2,3)
    by (auto simp: context_holder_open_def ctx_alloc_def push_call_context_def set_next_def ctx_update_def
        check_create_stack_def call_context_new_def Let_def split: if_splits)
  have "pop_call_context s' = Inr (s'\<lparr> cs_stack := cs_stack s \<rparr>)"
    using st(1) assms(2) by (simp add: pop_call_context_def Let_def)
  with ok st pop_ok [OF ok this] show ?thesis by (auto simp: stack_ok_def)
qed

theorem context_open_close_witness:
  "\<exists>s' a s''. context_holder_open llu_new cs_new = (s', a) \<and> cc_depth (cs_heap s' a) = 1
     \<and> pop_call_context s' = Inr s'' \<and> cs_stack s'' = None"
proof -
  obtain s' a where o: "context_holder_open llu_new cs_new = (s', a)" by fastforce
  have "cs_stack cs_new = (if ([] :: nat list) = [] then None else Some [])" by (simp add: cs_new_def)
  from context_open_close [OF stack_ok_new this o] o show ?thesis by (auto simp: cs_new_def)
qed

text \<open>
  A keeper owns copies of the contexts of its call, with the same unit, closure and depth, and
  takes nothing from the original stack; but the copies still point to the original contexts, not
  to each other: once the call that created the keeper has returned, following \<open>next( )\<close> from the
  keeper's context leads to an object that no longer exists.
\<close>

theorem keeper_copies_point_to_originals:
  assumes "stack_ok s" and "cs_stack s = Some (a # b # xs)" and "call_keeper_new s = (s', Inr k)"
  shows "length (ck_stack k) = length (a # b # xs) \<and> ck_done k = cc_done (cs_heap s a)
       \<and> (\<forall>c \<in> set (a # b # xs). cs_heap s' c = cs_heap s c)
       \<and> (\<exists>c. ck_call_context k = Some c \<and> c \<notin> set (a # b # xs)
              \<and> cc_llu (cs_heap s' c) = cc_llu (cs_heap s a)
              \<and> cc_next (cs_heap s' c) = Some b \<and> b \<notin> set (ck_stack k))"
proof -
  obtain st where cp: "copy_call_stack s = (s', st)"
    and k: "k = \<lparr> ck_done = cc_done (cs_heap s' (hd st)), ck_stack = st \<rparr>"
    using assms(2,3) by (auto simp: call_keeper_new_def top_call_context_def split: prod.splits)
  note c = copy_call_stack_copies [OF assms(1,2) cp]
  have lt: "\<forall>x \<in> set (a # b # xs). x < cs_fresh s" and nxt: "cc_next (cs_heap s a) = Some b"
    using assms(1,2) by (auto simp: stack_ok_def)
  have st: "st = cs_fresh s # [Suc (cs_fresh s)..<cs_fresh s + length (a # b # xs)]"
    using c upt_conv_Cons [of "cs_fresh s" "cs_fresh s + length (a # b # xs)"] by simp
  have hd: "cs_heap s' (cs_fresh s) = cs_heap s a"
    using c st by (metis length_greater_0_conv list.distinct(1) nth_Cons_0)
  show ?thesis
    using c lt nxt st hd k by (auto simp: ck_call_context_def)
qed

theorem keeper_copies_point_to_originals_witness:
  "let s = fst (context_holder_open llu_new (fst (context_holder_open llu_new cs_new)))
   in \<exists>k c. snd (call_keeper_new s) = Inr k \<and> ck_call_context k = Some c
        \<and> cc_next (cs_heap (fst (call_keeper_new s)) c) = Some 0 \<and> 0 \<notin> set (ck_stack k)"
proof -
  let ?s = "fst (context_holder_open llu_new (fst (context_holder_open llu_new cs_new)))"
  have ok: "stack_ok ?s" by (intro open_ok stack_ok_new)
  have st: "cs_stack ?s = Some [1, 0]"
    by (simp add: context_holder_open_def ctx_alloc_def push_call_context_def set_next_def ctx_update_def
        check_create_stack_def cs_new_def Let_def)
  then obtain s' k where k: "call_keeper_new ?s = (s', Inr k)"
    by (cases "copy_call_stack ?s") (auto simp: call_keeper_new_def top_call_context_def)
  from keeper_copies_point_to_originals [OF ok st k] k show ?thesis by (auto simp: Let_def)
qed

end
