(* ===== verification/Rpc_Channel.thy ===== *)
theory Rpc_Channel
  imports Protocol_Layer Call_Context
begin

text \<open>
  The channels through which calls are made: the common part (\<open>lib/vtrc/common/rpc-channel.cpp\<close>),
  the channel of a client (\<open>client/rpc-channel-c.cpp\<close>) and the unicast and broadcast channels of a
  server (\<open>server/channels.cpp\<close>).

  A call sees the shared part of its connection's layer and the context stack of its thread. A
  message object of the application appears as the bytes it is serialised to; an error callback as
  the exception it raises, if any. Each pass of the waiting loop has its own wait, which stands for
  what other threads do meanwhile; the loop takes a list of them and gives \<open>None\<close> when the list is
  used up and the caller still waits.
\<close>

subsection \<open>Channels\<close>

definition DEFAULT_flags :: u32 where "DEFAULT_flags = 0"
definition DISABLE_WAIT :: u32 where "DISABLE_WAIT = 1"
definition USE_CONTEXT_CALL :: u32 where "USE_CONTEXT_CALL = 2"
definition USE_STATIC_CONTEXT :: u32 where "USE_STATIC_CONTEXT = 4"
definition CONTEXT_NOT_REQUIRE :: u32 where "CONTEXT_NOT_REQUIRE = 8"

lemmas flag_defs = DEFAULT_flags_def DISABLE_WAIT_def USE_CONTEXT_CALL_def USE_STATIC_CONTEXT_def
  CONTEXT_NOT_REQUIRE_def

record rpc_channel =
  rch_direct_type :: nat
  rch_callback_type :: nat
  rch_flags :: u32
  rch_static_target :: u64
  rch_accept_callbacks :: bool
  rch_data :: bytes
  rch_error_cb :: "nat \<Rightarrow> nat \<Rightarrow> string \<Rightarrow> exn option"
  rch_chan_error_cb :: "string \<Rightarrow> exn option"
  rch_timeout :: u64

definition default_error_cb :: "nat \<Rightarrow> nat \<Rightarrow> string \<Rightarrow> exn option" where
  "default_error_cb code cat mess = Some (Rpc_exception code cat mess)"

definition default_chan_error_cb :: "string \<Rightarrow> exn option" where
  "default_chan_error_cb mess = Some (rpc_exception_msg ERR_CHANNEL mess)"

definition can_accept_callbacks :: "call_context \<Rightarrow> bool" where
  "can_accept_callbacks cc \<longleftrightarrow> uo_wait (llu_opt (cc_llu cc)) \<and> uo_accept_callbacks (llu_opt (cc_llu cc))"

definition set_static_context :: "call_context option \<Rightarrow> rpc_channel \<Rightarrow> rpc_channel" where
  "set_static_context ctx ch =
     (case ctx of
        Some c \<Rightarrow> ch\<lparr> rch_accept_callbacks := can_accept_callbacks c, rch_static_target := llu_id (cc_llu c) \<rparr>
      | None \<Rightarrow> ch\<lparr> rch_accept_callbacks := False, rch_static_target := 0 \<rparr>)"

text \<open>The constructor looks at the context it is called in, if there is one.\<close>

definition rpc_channel_new :: "nat \<Rightarrow> nat \<Rightarrow> call_context option \<Rightarrow> rpc_channel" where
  "rpc_channel_new direct callback ctx =
     (let ch = \<lparr> rch_direct_type = direct, rch_callback_type = callback, rch_flags = DEFAULT_flags,
                 rch_static_target = 0, rch_accept_callbacks = False, rch_data = [],
                 rch_error_cb = default_error_cb, rch_chan_error_cb = default_chan_error_cb,
                 rch_timeout = 30000000 \<rparr>
      in case ctx of None \<Rightarrow> ch
         | Some c \<Rightarrow> ch\<lparr> rch_accept_callbacks := can_accept_callbacks c, rch_static_target := llu_id (cc_llu c) \<rparr>)"

definition rch_set_flags :: "u32 \<Rightarrow> rpc_channel \<Rightarrow> rpc_channel" where
  "rch_set_flags f ch = ch\<lparr> rch_flags := f \<rparr>"

definition rch_set_flag :: "u32 \<Rightarrow> rpc_channel \<Rightarrow> rpc_channel" where
  "rch_set_flag v ch = ch\<lparr> rch_flags := rch_flags ch OR v \<rparr>"

definition rch_reset_flag :: "u32 \<Rightarrow> rpc_channel \<Rightarrow> rpc_channel" where
  "rch_reset_flag v ch = ch\<lparr> rch_flags := rch_flags ch AND NOT v \<rparr>"

definition has_flag :: "u32 \<Rightarrow> rpc_channel \<Rightarrow> bool" where
  "has_flag v ch \<longleftrightarrow> rch_flags ch AND v \<noteq> 0"

text \<open>A callback that is not given is replaced by the default one.\<close>

definition set_proto_error_callback :: "(nat \<Rightarrow> nat \<Rightarrow> string \<Rightarrow> exn option) option \<Rightarrow> rpc_channel \<Rightarrow> rpc_channel" where
  "set_proto_error_callback v ch =
     ch\<lparr> rch_error_cb := (case v of Some f \<Rightarrow> f | None \<Rightarrow> default_error_cb) \<rparr>"

definition set_channel_error_callback :: "(string \<Rightarrow> exn option) option \<Rightarrow> rpc_channel \<Rightarrow> rpc_channel" where
  "set_channel_error_callback v ch =
     ch\<lparr> rch_chan_error_cb := (case v of Some f \<Rightarrow> f | None \<Rightarrow> default_chan_error_cb) \<rparr>"

subsection \<open>Units\<close>

definition create_lowlevel :: "string \<Rightarrow> string \<Rightarrow> bool \<Rightarrow> lowlevel_unit" where
  "create_lowlevel service meth has_response =
     llu_new\<lparr> llu_service_id := service, llu_method_id := meth,
              llu_opt := unit_options_cleared\<lparr> uo_accept_response := has_response \<rparr> \<rparr>"

text \<open>\<open>cc\<close> is the context the caller runs in. When the channel needs a static context that accepts
  no callbacks, the error callback is called; if that returns, so does \<open>configure_message\<close>, with
  no type set.\<close>

definition configure_message ::
    "rpc_channel \<Rightarrow> call_context option \<Rightarrow> nat \<Rightarrow> bytes option \<Rightarrow> lowlevel_unit \<Rightarrow> protocol_layer \<Rightarrow>
     protocol_layer \<times> (exn + lowlevel_unit)" where
  "configure_message ch cc mess_type req llu p =
     (let (p, ident) = next_index p;
          llu = llu\<lparr> llu_id := ident \<rparr>;
          llu = (case req of None \<Rightarrow> llu | Some r \<Rightarrow> llu\<lparr> llu_request := r \<rparr>)
      in if mess_type = rch_callback_type ch
         then let llu = (if has_flag CONTEXT_NOT_REQUIRE ch then llu\<lparr> llu_flags := FLAG_CALLBACK_ALONE \<rparr> else llu)
              in if has_flag USE_STATIC_CONTEXT ch
                 then if \<not> rch_accept_callbacks ch
                      then (p, case rch_chan_error_cb ch ''Invalid context.'' of Some e \<Rightarrow> Inl e | None \<Rightarrow> Inr llu)
                      else (p, Inr (llu\<lparr> llu_type := mess_type, llu_target_id := rch_static_target ch \<rparr>))
                 else (case cc of
                         Some c \<Rightarrow>
                           if can_accept_callbacks c
                           then (p, Inr (llu\<lparr> llu_type := mess_type, llu_target_id := llu_id (cc_llu c) \<rparr>))
                           else (p, Inr (llu\<lparr> llu_type := rch_direct_type ch \<rparr>))
                       | None \<Rightarrow> (p, Inr (llu\<lparr> llu_type := rch_direct_type ch \<rparr>)))
         else (p, Inr (llu\<lparr> llu_type := mess_type \<rparr>)))"

subsection \<open>Waiting for an answer\<close>

text \<open>What a call changes besides its result: the layer, the context stack of its thread, the closures
  that callbacks kept, and the runs of the caller's own closure. A local call opens a context on
  top of the thread's stack and closes it again (theorem \<open>context_open_close\<close> of
  \<open>Call_Context\<close>), so only its depth matters here.\<close>

record call_env =
  ce_layer :: protocol_layer
  ce_ctx :: ctx_state
  ce_pending :: "closure_holder list"
  ce_done_runs :: nat

definition current_context :: "call_env \<Rightarrow> call_context option" where
  "current_context e = map_option (cs_heap (ce_ctx e)) (top_call_context (ce_ctx e))"

definition local_depth :: "call_env \<Rightarrow> nat" where
  "local_depth e = (case current_context e of None \<Rightarrow> 1 | Some c \<Rightarrow> cc_depth c + 1)"

definition env_local_call :: "bool \<Rightarrow> services \<Rightarrow> lowlevel_unit \<Rightarrow> call_env \<Rightarrow> call_env" where
  "env_local_call alive services mess e =
     (case make_local_call alive False (local_depth e) services mess (ce_layer e) of
        (l, pending) \<Rightarrow>
          e\<lparr> ce_layer := l, ce_pending := ce_pending e @ (case pending of None \<Rightarrow> [] | Some h \<Rightarrow> [h]) \<rparr>)"

fun wait_loop ::
    "rpc_channel \<Rightarrow> bool \<Rightarrow> services \<Rightarrow> u64 \<Rightarrow> nat \<Rightarrow> bool \<Rightarrow> (u64, lowlevel_unit) call_wait list \<Rightarrow>
     call_env \<Rightarrow> (call_env \<times> (exn + bool \<times> bytes option)) option" where
  "wait_loop ch alive services call_id mess_type want [] e = None"
| "wait_loop ch alive services call_id mess_type want (w # ws) e =
     (case read_slot_for w call_id llu_new (ce_layer e) of
        (l, Inl x) \<Rightarrow> Some (e\<lparr> ce_layer := l \<rparr>, Inl x)
      | (l, Inr mess) \<Rightarrow>
          (let e = e\<lparr> ce_layer := l \<rparr> in
           if ec_code (llu_error mess) \<noteq> ERR_NO_ERROR
           then Some (e, case rch_error_cb ch (ec_code (llu_error mess)) (ec_category (llu_error mess))
                                (ec_additional (llu_error mess)) of
                           Some x \<Rightarrow> Inl x | None \<Rightarrow> Inr (False, None))
           else if llu_type mess \<noteq> mess_type
           then wait_loop ch alive services call_id mess_type want ws
                  (env_local_call alive services mess e)
           else Some (e, Inr (True, if want then Some (llu_response mess) else None))))"

text \<open>The slot is erased on every way out.\<close>

definition erase_after :: "u64 \<Rightarrow> call_env \<times> 'a \<Rightarrow> call_env \<times> 'a" where
  "erase_after call_id r = (case r of (e, x) \<Rightarrow> (e\<lparr> ce_layer := close_slot call_id (ce_layer e) \<rparr>, x))"

definition call_and_wait ::
    "rpc_channel \<Rightarrow> bool \<Rightarrow> bool \<Rightarrow> services \<Rightarrow> u64 \<Rightarrow> lowlevel_unit \<Rightarrow> bool \<Rightarrow>
     (u64, lowlevel_unit) call_wait list \<Rightarrow> call_env \<Rightarrow>
     (call_env \<times> (exn + bool \<times> bytes option)) option" where
  "call_and_wait ch active alive services call_id llu want ws e =
     (if \<not> active
      then Some (e, case rch_chan_error_cb ch ''Channel is not ready.'' of
                      Some x \<Rightarrow> Inl x | None \<Rightarrow> Inr (False, None))
      else map_option (erase_after call_id)
        (case call_rpc_method_slot call_id llu (ce_layer e) of
           (l, Inl x) \<Rightarrow> Some (e\<lparr> ce_layer := l \<rparr>, Inl x)
         | (l, Inr _) \<Rightarrow>
             wait_loop ch alive services call_id (llu_type llu) want ws (e\<lparr> ce_layer := l \<rparr>)))"

text \<open>The raw variant hands units that are not answers to \<open>events\<close>, which may raise, and returns the
  last unit whatever its error is.\<close>

fun wait_loop_raw ::
    "(lowlevel_unit \<Rightarrow> exn option) option \<Rightarrow> u64 \<Rightarrow> nat \<Rightarrow> (u64, lowlevel_unit) call_wait list \<Rightarrow>
     call_env \<Rightarrow> (call_env \<times> (exn + lowlevel_unit)) option" where
  "wait_loop_raw events call_id mess_type [] e = None"
| "wait_loop_raw events call_id mess_type (w # ws) e =
     (case read_slot_for w call_id llu_new (ce_layer e) of
        (l, Inl x) \<Rightarrow> Some (e\<lparr> ce_layer := l \<rparr>, Inl x)
      | (l, Inr mess) \<Rightarrow>
          (let e = e\<lparr> ce_layer := l \<rparr> in
           if ec_code (llu_error mess) \<noteq> ERR_NO_ERROR then Some (e, Inr mess)
           else if llu_type mess \<noteq> mess_type
           then (case Option.bind events (\<lambda>f. f mess) of
                   Some x \<Rightarrow> Some (e, Inl x)
                 | None \<Rightarrow> wait_loop_raw events call_id mess_type ws e)
           else Some (e, Inr mess)))"

text \<open>The result of the raw call is null when the channel is not ready. The third component is the
  caller's unit, changed only after it was sent.\<close>

definition call_and_wait_raw ::
    "rpc_channel \<Rightarrow> bool \<Rightarrow> (lowlevel_unit \<Rightarrow> exn option) option \<Rightarrow> u64 \<Rightarrow> lowlevel_unit \<Rightarrow>
     (u64, lowlevel_unit) call_wait list \<Rightarrow> call_env \<Rightarrow>
     (call_env \<times> (exn + lowlevel_unit option) \<times> lowlevel_unit) option" where
  "call_and_wait_raw ch active events call_id llu ws e =
     (if \<not> active
      then Some (e, case rch_chan_error_cb ch ''Channel is not ready.'' of
                      Some x \<Rightarrow> Inl x | None \<Rightarrow> Inr None, llu)
      else map_option (erase_after call_id)
        (case call_rpc_method_slot call_id llu (ce_layer e) of
           (l, Inl x) \<Rightarrow> Some (e\<lparr> ce_layer := l \<rparr>, Inl x, llu)
         | (l, Inr _) \<Rightarrow>
             (let llu' = (if events = None
                          then llu\<lparr> llu_opt := (llu_opt llu)\<lparr> uo_accept_callbacks := False \<rparr> \<rparr> else llu)
              in map_option (\<lambda>(e, r). (e, map_sum id Some r, llu'))
                   (wait_loop_raw events call_id (llu_type llu) ws (e\<lparr> ce_layer := l \<rparr>)))))"

subsection \<open>Unicast channels\<close>

record call_options =
  co_timeout :: u64
  co_wait :: bool
  co_accept_callbacks :: bool

definition method_options :: call_options where
  "method_options = \<lparr> co_timeout = 30000000, co_wait = True, co_accept_callbacks = True \<rparr>"

text \<open>\<open>get_method_options\<close> gives the same options for every method.\<close>

definition get_method_options :: "string \<Rightarrow> call_options" where
  "get_method_options meth = method_options"

definition client_channel_new :: "call_context option \<Rightarrow> u32 \<Rightarrow> rpc_channel" where
  "client_channel_new cc opts =
     rch_set_flags opts (rpc_channel_new MESSAGE_CLIENT_CALL MESSAGE_CLIENT_CALLBACK cc)"

definition unicast_channel_new :: "call_context option \<Rightarrow> u32 \<Rightarrow> rpc_channel" where
  "unicast_channel_new cc flags =
     rch_set_flags flags (rpc_channel_new MESSAGE_SERVER_CALL MESSAGE_SERVER_CALLBACK cc)"

definition client_message_type :: "rpc_channel \<Rightarrow> nat" where
  "client_message_type ch =
     (if has_flag USE_CONTEXT_CALL ch then MESSAGE_CLIENT_CALLBACK else MESSAGE_CLIENT_CALL)"

definition unicast_message_type :: "rpc_channel \<Rightarrow> nat" where
  "unicast_message_type ch =
     (if has_flag USE_CONTEXT_CALL ch then MESSAGE_SERVER_CALLBACK else MESSAGE_SERVER_CALL)"

definition apply_options :: "rpc_channel \<Rightarrow> call_options \<Rightarrow> lowlevel_unit \<Rightarrow> lowlevel_unit" where
  "apply_options ch opts llu =
     llu\<lparr> llu_opt := (if has_flag DISABLE_WAIT ch then (llu_opt llu)\<lparr> uo_wait := False \<rparr>
                      else (llu_opt llu)\<lparr> uo_wait := co_wait opts,
                                          uo_accept_callbacks := co_accept_callbacks opts \<rparr>) \<rparr>"

definition run_done :: "bool \<Rightarrow> call_env \<Rightarrow> call_env" where
  "run_done has_done e = (if has_done then e\<lparr> ce_done_runs := Suc (ce_done_runs e) \<rparr> else e)"

definition env_configure ::
    "rpc_channel \<Rightarrow> nat \<Rightarrow> bytes option \<Rightarrow> lowlevel_unit \<Rightarrow> call_env \<Rightarrow> call_env \<times> (exn + lowlevel_unit)" where
  "env_configure ch mess_type req llu e =
     (case configure_message ch (current_context e) mess_type req llu (ce_layer e) of
        (l, r) \<Rightarrow> (e\<lparr> ce_layer := l \<rparr>, r))"

definition env_call_rpc_method :: "lowlevel_unit \<Rightarrow> call_env \<Rightarrow> call_env \<times> (exn + unit)" where
  "env_call_rpc_method llu e =
     (case call_rpc_method llu (ce_layer e) of (l, r) \<Rightarrow> (e\<lparr> ce_layer := l \<rparr>, r))"

text \<open>The context that is open while a caller waits.\<close>

definition open_context :: "lowlevel_unit \<Rightarrow> call_env \<Rightarrow> call_env" where
  "open_context llu e = e\<lparr> ce_ctx := fst (context_holder_open llu (ce_ctx e)) \<rparr>"

definition close_context :: "call_env \<Rightarrow> call_env" where
  "close_context e =
     e\<lparr> ce_ctx := (case pop_call_context (ce_ctx e) of Inr c \<Rightarrow> c | Inl _ \<Rightarrow> ce_ctx e) \<rparr>"

text \<open>\<open>send_message\<close> of the client channel and of the server's unicast channel, which differ in
  their message types only. \<open>locked\<close> tells whether the connection object still exists, \<open>active\<close>
  whether it is active.\<close>

definition unicast_send_message ::
    "rpc_channel \<Rightarrow> nat \<Rightarrow> bool \<Rightarrow> bool \<Rightarrow> services \<Rightarrow> rpc_controller option \<Rightarrow> string \<Rightarrow> bytes option \<Rightarrow>
     bool \<Rightarrow> bool \<Rightarrow> (u64, lowlevel_unit) call_wait list \<Rightarrow> lowlevel_unit \<Rightarrow> call_env \<Rightarrow>
     (call_env \<times> rpc_controller option \<times> (exn + bytes option)) option" where
  "unicast_send_message ch mess_type locked active services controller meth req want has_done ws llu e =
     (if \<not> locked
      then Some (run_done has_done e, map_option (SetFailed ''Connection lost'') controller,
                 case rch_chan_error_cb ch ''Connection lost'' of Some x \<Rightarrow> Inl x | None \<Rightarrow> Inr None)
      else case env_configure ch mess_type req (apply_options ch (get_method_options meth) llu) e of
        (e, Inl x) \<Rightarrow> Some (run_done has_done e, controller, Inl x)
      | (e, Inr llu) \<Rightarrow>
          if uo_wait (llu_opt llu)
          then map_option (\<lambda>(e, r). (run_done has_done (close_context e), controller, map_sum id snd r))
                 (call_and_wait ch active True services (llu_id llu) llu want ws (open_context llu e))
          else (case env_call_rpc_method llu e of
                  (e, Inl x) \<Rightarrow> Some (run_done has_done e, controller, Inl x)
                | (e, Inr _) \<Rightarrow> Some (run_done has_done e, controller, Inr None)))"

definition CallMethod ::
    "rpc_channel \<Rightarrow> nat \<Rightarrow> bool \<Rightarrow> bool \<Rightarrow> services \<Rightarrow> rpc_controller option \<Rightarrow> string \<Rightarrow> string \<Rightarrow> bytes option \<Rightarrow>
     bool \<Rightarrow> bool \<Rightarrow> (u64, lowlevel_unit) call_wait list \<Rightarrow> call_env \<Rightarrow>
     (call_env \<times> rpc_controller option \<times> (exn + bytes option)) option" where
  "CallMethod ch mess_type locked active services controller service meth req want has_done ws e =
     (let llu = create_lowlevel service meth want;
          llu = (if rch_data ch = [] then llu else llu\<lparr> llu_channel_data := rch_data ch \<rparr>)
      in unicast_send_message ch mess_type locked active services controller meth req want has_done ws llu e)"

text \<open>\<open>send_raw\<close> and \<open>raw_call\<close>: the options are the caller's own.\<close>

definition unicast_raw_call ::
    "rpc_channel \<Rightarrow> nat \<Rightarrow> bool \<Rightarrow> bool \<Rightarrow> bytes option \<Rightarrow> (lowlevel_unit \<Rightarrow> exn option) option \<Rightarrow>
     (u64, lowlevel_unit) call_wait list \<Rightarrow> lowlevel_unit \<Rightarrow> call_env \<Rightarrow>
     (call_env \<times> (exn + lowlevel_unit option)) option" where
  "unicast_raw_call ch mess_type locked active req events ws llu e =
     (if \<not> locked
      then Some (e, case rch_chan_error_cb ch ''Connection lost'' of Some x \<Rightarrow> Inl x | None \<Rightarrow> Inr None)
      else case env_configure ch mess_type req llu e of
        (e, Inl x) \<Rightarrow> Some (e, Inl x)
      | (e, Inr llu) \<Rightarrow>
          if uo_wait (llu_opt llu)
          then map_option (\<lambda>(e, r, _). (close_context e, r))
                 (call_and_wait_raw ch active events (llu_id llu) llu ws (open_context llu e))
          else (case env_call_rpc_method llu e of
                  (e, Inl x) \<Rightarrow> Some (e, Inl x) | (e, Inr _) \<Rightarrow> Some (e, Inr None)))"

text \<open>The client's variants.\<close>

definition client_send_message ::
    "rpc_channel \<Rightarrow> bool \<Rightarrow> bool \<Rightarrow> services \<Rightarrow> rpc_controller option \<Rightarrow> string \<Rightarrow> bytes option \<Rightarrow>
     bool \<Rightarrow> bool \<Rightarrow> (u64, lowlevel_unit) call_wait list \<Rightarrow> lowlevel_unit \<Rightarrow> call_env \<Rightarrow>
     (call_env \<times> rpc_controller option \<times> (exn + bytes option)) option" where
  "client_send_message ch = unicast_send_message ch (client_message_type ch)"

definition client_send_raw ::
    "rpc_channel \<Rightarrow> bool \<Rightarrow> bool \<Rightarrow> bytes option \<Rightarrow> (lowlevel_unit \<Rightarrow> exn option) option \<Rightarrow>
     (u64, lowlevel_unit) call_wait list \<Rightarrow> lowlevel_unit \<Rightarrow> call_env \<Rightarrow>
     (call_env \<times> (exn + lowlevel_unit option)) option" where
  "client_send_raw ch = unicast_raw_call ch (client_message_type ch)"

definition client_make_lowlevel ::
    "rpc_channel \<Rightarrow> bool \<Rightarrow> string \<Rightarrow> string \<Rightarrow> bytes option \<Rightarrow> bool \<Rightarrow> call_env \<Rightarrow>
     call_env \<times> (exn + lowlevel_unit option)" where
  "client_make_lowlevel ch locked service meth req want e =
     (if \<not> locked
      then (e, case rch_chan_error_cb ch ''Connection lost'' of Some x \<Rightarrow> Inl x | None \<Rightarrow> Inr None)
      else case env_configure ch (client_message_type ch) req (create_lowlevel service meth want) e of
        (e, r) \<Rightarrow> (e, map_sum id Some r))"

definition unicast_make_lowlevel ::
    "rpc_channel \<Rightarrow> bool \<Rightarrow> string \<Rightarrow> string \<Rightarrow> bytes option \<Rightarrow> bool \<Rightarrow> call_env \<Rightarrow>
     call_env \<times> (exn + lowlevel_unit option)" where
  "unicast_make_lowlevel ch locked service meth req want e =
     (if \<not> locked
      then (e, case rch_chan_error_cb ch ''Connection lost'' of Some x \<Rightarrow> Inl x | None \<Rightarrow> Inr None)
      else case env_configure ch (unicast_message_type ch) req
                  (apply_options ch (get_method_options meth) (create_lowlevel service meth want)) e of
        (e, r) \<Rightarrow> (e, map_sum id Some r))"

subsection \<open>Broadcast channels\<close>

text \<open>A connection of the list, with its layer; it is active when the layer is ready. The list is a map ordered by
  the address of the connection; \<open>foreach_while\<close> holds its lock for the whole loop.\<close>

record bc_client =
  bc_addr :: nat
  bc_layer :: protocol_layer

definition bc_active :: "bc_client \<Rightarrow> bool" where
  "bc_active c = pl_ready (bc_layer c)"

definition broadcast_channel_new :: "nat \<Rightarrow> call_context option \<Rightarrow> rpc_channel" where
  "broadcast_channel_new mess_type cc =
     rch_set_flags (DISABLE_WAIT OR (if mess_type = MESSAGE_SERVER_CALLBACK then USE_CONTEXT_CALL else 0))
       (rpc_channel_new MESSAGE_SERVER_CALL MESSAGE_SERVER_CALLBACK cc)"

text \<open>The same unit is configured anew for each client. Both variants of \<open>send_to_client\<close>: with a
  sender, which is left out, and without.\<close>

definition send_to_client ::
    "rpc_channel \<Rightarrow> call_context option \<Rightarrow> nat option \<Rightarrow> bytes option \<Rightarrow> nat \<Rightarrow> bc_client \<Rightarrow> lowlevel_unit \<Rightarrow>
     bc_client \<times> (exn + lowlevel_unit)" where
  "send_to_client ch cc sender req mess_type c mess =
     (if sender \<noteq> Some (bc_addr c) \<and> bc_active c
      then case configure_message ch cc mess_type req mess (bc_layer c) of
        (l, Inl x) \<Rightarrow> (c\<lparr> bc_layer := l \<rparr>, Inl x)
      | (l, Inr mess) \<Rightarrow>
          (case call_rpc_method mess l of
             (l, Inl x) \<Rightarrow> (c\<lparr> bc_layer := l \<rparr>, Inl x)
           | (l, Inr _) \<Rightarrow> (c\<lparr> bc_layer := l \<rparr>, Inr mess))
      else (c, Inr mess))"

fun broadcast_loop ::
    "rpc_channel \<Rightarrow> call_context option \<Rightarrow> nat option \<Rightarrow> bytes option \<Rightarrow> nat \<Rightarrow> lowlevel_unit \<Rightarrow> bc_client list \<Rightarrow>
     bc_client list \<times> (exn + lowlevel_unit)" where
  "broadcast_loop ch cc sender req mess_type mess [] = ([], Inr mess)"
| "broadcast_loop ch cc sender req mess_type mess (c # cs) =
     (case send_to_client ch cc sender req mess_type c mess of
        (c, Inl x) \<Rightarrow> (c # cs, Inl x)
      | (c, Inr mess) \<Rightarrow>
          (case broadcast_loop ch cc sender req mess_type mess cs of (cs, r) \<Rightarrow> (c # cs, r)))"

text \<open>\<open>listed\<close> tells whether the list still exists.\<close>

definition broadcast_send_message ::
    "rpc_channel \<Rightarrow> call_context option \<Rightarrow> bool \<Rightarrow> nat option \<Rightarrow> bytes option \<Rightarrow> nat \<Rightarrow> lowlevel_unit \<Rightarrow> bc_client list \<Rightarrow>
     bc_client list \<times> (exn + unit)" where
  "broadcast_send_message ch cc listed sender req mess_type llu cs =
     (if \<not> listed
      then (cs, case rch_chan_error_cb ch ''Connection lost'' of Some x \<Rightarrow> Inl x | None \<Rightarrow> Inr ())
      else let llu = llu\<lparr> llu_type := mess_type, llu_opt := (llu_opt llu)\<lparr> uo_wait := False \<rparr> \<rparr>
           in case broadcast_loop ch cc sender req mess_type llu cs of (cs, r) \<Rightarrow> (cs, map_sum id (\<lambda>_. ()) r))"

definition broadcast_make_lowlevel ::
    "rpc_channel \<Rightarrow> bool \<Rightarrow> nat \<Rightarrow> string \<Rightarrow> string \<Rightarrow> bool \<Rightarrow> exn + lowlevel_unit option" where
  "broadcast_make_lowlevel ch listed mess_type service meth want =
     (if \<not> listed
      then (case rch_chan_error_cb ch ''Connection lost'' of Some x \<Rightarrow> Inl x | None \<Rightarrow> Inr None)
      else let llu = create_lowlevel service meth want
           in Inr (Some (llu\<lparr> llu_type := mess_type, llu_opt := (llu_opt llu)\<lparr> uo_wait := False \<rparr> \<rparr>)))"

text \<open>What a broadcast does to one connection.\<close>

definition got_event :: "nat option \<Rightarrow> bc_client \<Rightarrow> bc_client \<Rightarrow> bool" where
  "got_event sender c c' \<longleftrightarrow>
     bc_addr c' = bc_addr c
     \<and> (if sender \<noteq> Some (bc_addr c) \<and> bc_active c
        then \<exists>m. pl_sent (bc_layer c') = pl_sent (bc_layer c) @ [m]
               \<and> llu_id m = pl_rpc_index (bc_layer c) + 2 \<and> pl_rpc_index (bc_layer c') = llu_id m
               \<and> \<not> uo_wait (llu_opt m)
        else c' = c)"

lemma configure_broadcast:
  assumes "\<not> has_flag USE_STATIC_CONTEXT ch"
  shows "\<exists>u. configure_message ch cc mess_type req llu p = (fst (next_index p), Inr u)
           \<and> llu_id u = pl_rpc_index p + 2 \<and> llu_opt u = llu_opt llu"
  using assms
  by (auto simp: configure_message_def next_index_def Let_def split: option.split)

lemma send_to_client_event:
  assumes "\<not> has_flag USE_STATIC_CONTEXT ch" and "\<not> uo_wait (llu_opt mess)"
  shows "\<exists>c' mess'. send_to_client ch cc sender req mess_type c mess = (c', Inr mess')
           \<and> got_event sender c c' \<and> \<not> uo_wait (llu_opt mess')"
  using configure_broadcast [OF assms(1), of cc mess_type req mess "bc_layer c"] assms(2)
  by (auto simp: send_to_client_def got_event_def bc_active_def call_rpc_method_def send_message_def
      next_index_def Let_def)

lemma broadcast_loop_event:
  assumes "\<not> has_flag USE_STATIC_CONTEXT ch" and "\<not> uo_wait (llu_opt mess)"
  shows "\<exists>cs' mess'. broadcast_loop ch cc sender req mess_type mess cs = (cs', Inr mess')
           \<and> list_all2 (got_event sender) cs cs'"
  using assms(2)
proof (induction cs arbitrary: mess)
  case (Cons c cs)
  from send_to_client_event [OF assms(1) Cons.prems, of cc sender req mess_type c] obtain c' mess' where
    s: "send_to_client ch cc sender req mess_type c mess = (c', Inr mess')" "got_event sender c c'"
       "\<not> uo_wait (llu_opt mess')" by blast
  from Cons.IH [OF s(3)] s show ?case by auto
qed simp

lemma broadcast_flags: "\<not> has_flag USE_STATIC_CONTEXT (broadcast_channel_new mess_type cc)"
  by (simp add: broadcast_channel_new_def rch_set_flags_def has_flag_def flag_defs)

text \<open>
  C28. A broadcast reaches every connection that is active except the sender: each of them is sent
  exactly one unit, one-way and with a new identifier of that connection, and no other connection is
  touched.
\<close>

theorem broadcast_reaches_all:
  "\<exists>cs'. broadcast_send_message (broadcast_channel_new mess_type ctx) cc True sender req mess_type llu cs
            = (cs', Inr ())
         \<and> list_all2 (got_event sender) cs cs'"
proof -
  let ?llu = "llu\<lparr> llu_type := mess_type, llu_opt := (llu_opt llu)\<lparr> uo_wait := False \<rparr> \<rparr>"
  have "\<not> uo_wait (llu_opt ?llu)" by simp
  from broadcast_loop_event [OF broadcast_flags this] obtain cs' mess' where
    "broadcast_loop (broadcast_channel_new mess_type ctx) cc sender req mess_type ?llu cs = (cs', Inr mess')"
    "list_all2 (got_event sender) cs cs'" by blast
  then show ?thesis by (simp add: broadcast_send_message_def)
qed

end
