(* ===== verification/Call_Refinement.thy ===== *)
theory Call_Refinement
  imports Rpc_Channel
begin

text \<open>
  What a caller that waits in \<open>call_and_wait\<close> sees: a specification of a call in terms of the units
  for its own slot only, and the proof that the code implements it while units for any other slots
  arrive in between.
\<close>

subsection \<open>Traffic\<close>

text \<open>Units with the slot they are pushed to, in the order of arrival. A wait ends when the caller's
  cell is not empty, or with a timeout after all of its traffic.\<close>

type_synonym traffic = "(u64 \<times> lowlevel_unit) list"

definition push_traffic :: "traffic \<Rightarrow> (u64, lowlevel_unit) condition_queues \<Rightarrow> (u64, lowlevel_unit) condition_queues" where
  "push_traffic tr s = fold (\<lambda>(k, m) s. fst (write_queue_if_exists k m s)) tr s"

definition traffic_wait :: "traffic \<Rightarrow> (u64, lowlevel_unit) call_wait" where
  "traffic_wait tr s a = (let s = push_traffic tr s in (s, queue_empty_predicate s a))"

definition units_for :: "u64 \<Rightarrow> traffic \<Rightarrow> lowlevel_unit list" where
  "units_for k tr = map snd (filter (\<lambda>(k', m). k' = k) tr)"

lemma units_for_simps [simp]:
  "units_for k [] = []"
  "units_for k ((k', m) # tr) = (if k' = k then m # units_for k tr else units_for k tr)"
  "units_for k (tr @ tr') = units_for k tr @ units_for k tr'"
  by (simp_all add: units_for_def)

subsection \<open>The specification\<close>

definition error_outcome :: "rpc_channel \<Rightarrow> error_container \<Rightarrow> exn + bool \<times> bytes option" where
  "error_outcome ch err =
     (case rch_error_cb ch (ec_code err) (ec_category err) (ec_additional err) of
        Some x \<Rightarrow> Inl x | None \<Rightarrow> Inr (False, None))"

definition timeout_error :: error_container where
  "timeout_error = no_error\<lparr> ec_code := ERR_TIMEOUT \<rparr>"

text \<open>The callbacks to execute and the outcome, from the units for the slot of the call.\<close>

fun call_outcome ::
    "rpc_channel \<Rightarrow> nat \<Rightarrow> bool \<Rightarrow> lowlevel_unit list \<Rightarrow> lowlevel_unit list list \<Rightarrow>
     (lowlevel_unit list \<times> (exn + bool \<times> bytes option)) option" where
  "call_outcome ch mess_type want q [] = None"
| "call_outcome ch mess_type want q (ms # mss) =
     (case q @ ms of
        [] \<Rightarrow> Some ([], error_outcome ch timeout_error)
      | m # q' \<Rightarrow>
          if ec_code (llu_error m) \<noteq> ERR_NO_ERROR then Some ([], error_outcome ch (llu_error m))
          else if llu_type m \<noteq> mess_type
          then map_option (\<lambda>(cbs, r). (m # cbs, r)) (call_outcome ch mess_type want q' mss)
          else Some ([], Inr (True, if want then Some (llu_response m) else None)))"

subsection \<open>Local calls and the queue of slots\<close>

definition with_queue :: "(u64, lowlevel_unit) condition_queues \<Rightarrow> call_env \<Rightarrow> call_env" where
  "with_queue q e = e\<lparr> ce_layer := (ce_layer e)\<lparr> pl_rpc_queue := q \<rparr> \<rparr>"

lemma closure_done_queue:
  "closure_done h (p\<lparr> pl_rpc_queue := q \<rparr>) = map_prod id (\<lambda>p. p\<lparr> pl_rpc_queue := q \<rparr>) (closure_done h p)"
  by (simp add: closure_done_def send_message_def Let_def)

lemma closure_runner_queue:
  "closure_runner alive u c h (p\<lparr> pl_rpc_queue := q \<rparr>)
     = map_prod id (\<lambda>p. p\<lparr> pl_rpc_queue := q \<rparr>) (closure_runner alive u c h p)"
  by (simp add: closure_runner_def closure_done_queue Let_def)

lemma make_local_call_impl_queue:
  "make_local_call_impl alive depth services h (p\<lparr> pl_rpc_queue := q \<rparr>)
     = map_prod id (map_prod (\<lambda>p. p\<lparr> pl_rpc_queue := q \<rparr>) id) (make_local_call_impl alive depth services h p)"
  by (simp add: make_local_call_impl_def closure_runner_queue Let_def case_prod_beta
      split: option.split closure_use.split)

lemma make_local_call_queue:
  "make_local_call alive d depth services llu (p\<lparr> pl_rpc_queue := q \<rparr>)
     = map_prod (\<lambda>p. p\<lparr> pl_rpc_queue := q \<rparr>) id (make_local_call alive d depth services llu p)"
  by (cases "make_local_call_impl alive depth services (holder_new d llu) p")
    (auto simp: make_local_call_def make_local_call_impl_queue send_message_def call_done_function_def
      call_internal_def Let_def case_prod_beta split: sum.split)

lemma env_local_call_queue:
  "env_local_call alive services m (with_queue q e) = with_queue q (env_local_call alive services m e)"
  by (simp add: env_local_call_def with_queue_def make_local_call_queue local_depth_def current_context_def
      split: prod.split)

lemma fold_local_call_queue:
  "fold (env_local_call alive services) cbs (with_queue q e)
     = with_queue q (fold (env_local_call alive services) cbs e)"
  by (induction cbs arbitrary: e) (simp_all add: env_local_call_queue)

lemma with_queue_simps [simp]:
  "with_queue q (with_queue q' e) = with_queue q e"
  "pl_rpc_queue (ce_layer (with_queue q e)) = q"
  by (simp_all add: with_queue_def)

lemma with_queue_same: "pl_rpc_queue (ce_layer e) = q \<Longrightarrow> with_queue q e = e"
  by (auto simp: with_queue_def)

lemma env_local_call_keeps_queue:
  "pl_rpc_queue (ce_layer (env_local_call alive services m e)) = pl_rpc_queue (ce_layer e)"
  using arg_cong [OF env_local_call_queue [of alive services m "pl_rpc_queue (ce_layer e)" e],
      of "\<lambda>e. pl_rpc_queue (ce_layer e)"]
  by (simp add: with_queue_same)

subsection \<open>One read\<close>

lemma write_if_exists_frame:
  "cq_find (fst (write_queue_if_exists k' m s)) k = cq_find s k"
  "hv_canceled (cq_heap (fst (write_queue_if_exists k' m s)) a) = hv_canceled (cq_heap s a)"
  by (simp_all add: write_queue_if_exists_def cell_ops cq_find_def split: option.split)

lemma push_traffic_frame:
  "cq_find (push_traffic tr s) k = cq_find s k"
  "hv_canceled (cq_heap (push_traffic tr s) a) = hv_canceled (cq_heap s a)"
  unfolding push_traffic_def
  by (induction tr arbitrary: s) (simp_all add: write_if_exists_frame split: prod.split)

lemma push_traffic_slots:
  assumes "cq_wf s"
  shows "cq_wf (push_traffic tr s)
       \<and> slots (push_traffic tr s) k = map_option (\<lambda>q. q @ units_for k tr) (slots s k)"
  using assms
proof (induction tr arbitrary: s)
  case (Cons x tr)
  obtain k' m where x: "x = (k', m)" by fastforce
  have "slots (fst (write_queue_if_exists k' m s)) k
      = map_option (\<lambda>q. q @ (if k' = k then [m] else [])) (slots s k)"
    using cqs.view_write [OF Cons.prems, of k' m]
    by (cases "slots s k'"; cases "slots s k") auto
  with Cons.IH [OF cqs.inv_write [OF Cons.prems, of k' m]] x show ?case
    by (auto simp: push_traffic_def option.map_comp comp_def)
qed (simp add: push_traffic_def option.map_ident)

text \<open>Reading takes the first unit of the slot, the ones that arrive during the wait included.\<close>

lemma read_traffic:
  assumes wf: "cq_wf s" and q: "slots s k = Some q"
  shows "\<exists>s'. cq_wf s'
       \<and> read_impl (traffic_wait tr) k s
           = (s', Inr (case q @ units_for k tr of [] \<Rightarrow> (WAIT_RESULT_TIMEOUT, None)
                       | m # _ \<Rightarrow> (WAIT_RESULT_SUCCESS, Some m)))
       \<and> slots s' k = Some (tl (q @ units_for k tr))
       \<and> (\<forall>k'. k' \<noteq> k \<longrightarrow> slots s' k' = map_option (\<lambda>q. q @ units_for k' tr) (slots s k'))"
proof -
  obtain a where a: "cq_find s k = Some a" using q by (auto simp: slots_def)
  let ?e = "reader_enter a s"
  let ?t = "push_traffic tr ?e"
  have e: "cq_wf ?e" "slots ?e = slots s" "cq_find ?e = cq_find s" "\<not> hv_canceled (cq_heap ?e a)"
    using wf by (auto simp: cell_ops slots_def cq_find_def fun_eq_iff intro!: map_option_cong)
  have t: "cq_wf ?t" "\<And>k'. slots ?t k' = map_option (\<lambda>q. q @ units_for k' tr) (slots s k')"
    "\<not> hv_canceled (cq_heap ?t a)" "cq_find ?t k = Some a"
    using push_traffic_slots [OF e(1)] e push_traffic_frame a by auto
  then have d: "hv_data (cq_heap ?t a) = q @ units_for k tr"
    using q t(2) [of k] by (simp add: slots_def [of ?t])
  let ?s = "if q @ units_for k tr = [] then ?t else cq_update a (\<lambda>v. v\<lparr> hv_data := tl (hv_data v) \<rparr>) ?t"
  have r: "read_impl (traffic_wait tr) k s
      = (?s, Inr (case q @ units_for k tr of [] \<Rightarrow> (WAIT_RESULT_TIMEOUT, None)
                  | m # _ \<Rightarrow> (WAIT_RESULT_SUCCESS, Some m)))"
    using a t(3) d
    by (simp add: read_impl_def cq_at_def traffic_wait_def Let_def read_leave_def queue_empty_predicate_def
        cancel_res2wait_res_def split: list.split)
  have s: "slots ?s = (slots ?t)(k \<mapsto> tl (q @ units_for k tr))"
    using slots_update [OF t(1) t(4), of "\<lambda>v. v\<lparr> hv_data := tl (hv_data v) \<rparr>"] d t(2) [of k] q
    by (auto simp: fun_eq_iff)
  show ?thesis using r s t(1,2) by (intro exI [of _ ?s]) auto
qed

lemma read_slot_for_traffic:
  assumes "cq_wf (pl_rpc_queue p)" and "slots (pl_rpc_queue p) k = Some q"
  shows "\<exists>s'. cq_wf s'
       \<and> read_slot_for (traffic_wait tr) k llu_new p
           = (p\<lparr> pl_rpc_queue := s' \<rparr>,
              Inr (case q @ units_for k tr of [] \<Rightarrow> llu_set_code ERR_TIMEOUT llu_new | m # _ \<Rightarrow> m))
       \<and> slots s' k = Some (tl (q @ units_for k tr))
       \<and> (\<forall>k'. k' \<noteq> k \<longrightarrow> slots s' k' = map_option (\<lambda>q. q @ units_for k' tr) (slots (pl_rpc_queue p) k'))"
  using read_traffic [OF assms, of tr]
  by (auto simp: read_slot_for_def Let_def split: list.split)

subsection \<open>The loop\<close>

text \<open>The state after a call: the callbacks were executed in order, and the slots of all other calls
  got their units.\<close>

definition call_done_env ::
    "bool \<Rightarrow> services \<Rightarrow> u64 \<Rightarrow> lowlevel_unit list \<Rightarrow> traffic \<Rightarrow> call_env \<Rightarrow> call_env \<Rightarrow> bool" where
  "call_done_env alive services k cbs tr e e' \<longleftrightarrow>
     (\<exists>s. e' = with_queue s (fold (env_local_call alive services) cbs e)
        \<and> cq_wf s
        \<and> (\<forall>k'. k' \<noteq> k \<longrightarrow> slots s k' = map_option (\<lambda>q. q @ units_for k' tr) (slots (pl_rpc_queue (ce_layer e)) k')))"

lemma wait_loop_outcome:
  assumes "cq_wf (pl_rpc_queue (ce_layer e))" and "slots (pl_rpc_queue (ce_layer e)) k = Some q"
  shows "case call_outcome ch mess_type want q (map (units_for k) trs) of
           None \<Rightarrow> wait_loop ch alive services k mess_type want (map traffic_wait trs) e = None
         | Some (cbs, r) \<Rightarrow>
             \<exists>e'. wait_loop ch alive services k mess_type want (map traffic_wait trs) e = Some (e', r)
                \<and> call_done_env alive services k cbs (concat (take (Suc (length cbs)) trs)) e e'"
  using assms
proof (induction trs arbitrary: e q)
  case (Cons tr trs)
  obtain s' where s': "cq_wf s'" and
    rd: "read_slot_for (traffic_wait tr) k llu_new (ce_layer e)
           = ((ce_layer e)\<lparr> pl_rpc_queue := s' \<rparr>,
              Inr (case q @ units_for k tr of [] \<Rightarrow> llu_set_code ERR_TIMEOUT llu_new | m # _ \<Rightarrow> m))" and
    sk: "slots s' k = Some (tl (q @ units_for k tr))" and
    so: "\<forall>k'. k' \<noteq> k \<longrightarrow> slots s' k' = map_option (\<lambda>q. q @ units_for k' tr) (slots (pl_rpc_queue (ce_layer e)) k')"
    using read_slot_for_traffic [OF Cons.prems, of tr] by blast
  have e1: "e\<lparr> ce_layer := (ce_layer e)\<lparr> pl_rpc_queue := s' \<rparr> \<rparr> = with_queue s' e"
    by (simp add: with_queue_def)
  have fin: "call_done_env alive services k [] tr e (with_queue s' e)"
    using s' so by (auto simp: call_done_env_def)
  show ?case
  proof (cases "q @ units_for k tr")
    case Nil
    then show ?thesis
      using rd e1 fin
      by (auto simp: error_outcome_def timeout_error_def llu_new_def no_error_def err_defs
          split: option.splits)
  next
    case m: (Cons m q')
    show ?thesis
    proof (cases "ec_code (llu_error m) \<noteq> ERR_NO_ERROR \<or> llu_type m = mess_type")
      case True
      then show ?thesis using m rd e1 fin by (auto simp: error_outcome_def)
    next
      case False
      let ?e = "env_local_call alive services m (with_queue s' e)"
      have q: "pl_rpc_queue (ce_layer ?e) = s'" by (simp add: env_local_call_keeps_queue)
      have loop: "wait_loop ch alive services k mess_type want (map traffic_wait (tr # trs)) e
          = wait_loop ch alive services k mess_type want (map traffic_wait trs) ?e"
        using m rd e1 False by simp
      note IH = Cons.IH [of ?e q', unfolded q, OF s']
      show ?thesis
      proof (cases "call_outcome ch mess_type want q' (map (units_for k) trs)")
        case None
        then show ?thesis using IH loop m False sk by auto
      next
        case (Some x)
        obtain cbs r where x: "x = (cbs, r)" by fastforce
        from IH sk m Some x obtain e' where
          w: "wait_loop ch alive services k mess_type want (map traffic_wait trs) ?e = Some (e', r)" and
          d: "call_done_env alive services k cbs (concat (take (Suc (length cbs)) trs)) ?e e'"
          by auto
        from d have "call_done_env alive services k (m # cbs)
            (concat (take (Suc (length (m # cbs))) (tr # trs))) e e'"
          using so unfolding call_done_env_def q
          by (auto simp: env_local_call_queue fold_local_call_queue option.map_comp comp_def)
        with w loop m False Some x show ?thesis by auto
      qed
    qed
  qed
qed simp

lemma call_outcome_total:
  "length q + length (concat mss) < length mss \<Longrightarrow> call_outcome ch mess_type want q mss \<noteq> None"
proof (induction mss arbitrary: q)
  case (Cons ms mss)
  show ?case
  proof (cases "q @ ms")
    case m: (Cons m q')
    from arg_cong [OF this, of length] Cons.prems have "length q' + length (concat mss) < length mss" by simp
    from Cons.IH [OF this] m show ?thesis by auto
  qed simp
qed simp

lemma erase_find: "cq_find (erase_queue k s) k = None"
  by (cases "cq_find s k")
    (auto simp: erase_queue_def cq_find_def Let_def cell_ops map_of_filter_key)

lemma erase_after_slot: "erase_after k x = (e, r) \<Longrightarrow> \<not> slot_exists k (ce_layer e)"
  by (auto simp: erase_after_def slot_exists_def queue_exists_def close_slot_def erase_find split: prod.splits)

text \<open>Sending opens the slot and erasing it at the end leaves every other slot alone.\<close>

lemma call_and_wait_outcome:
  assumes wf: "cq_wf (pl_rpc_queue (ce_layer e))" and rdy: "pl_ready (ce_layer e)"
    and fresh: "slots (pl_rpc_queue (ce_layer e)) k = None"
  shows "case call_outcome ch (llu_type llu) want [] (map (units_for k) trs) of
           None \<Rightarrow> call_and_wait ch True alive services k llu want (map traffic_wait trs) e = None
         | Some (cbs, r) \<Rightarrow>
             \<exists>e'. call_and_wait ch True alive services k llu want (map traffic_wait trs) e = Some (e', r)
                \<and> call_done_env alive services k cbs (concat (take (Suc (length cbs)) trs))
                     (e\<lparr> ce_layer := send_message llu (ce_layer e) \<rparr>) e'
                \<and> slots (pl_rpc_queue (ce_layer e')) k = None"
proof -
  let ?q = "add_queue k (pl_rpc_queue (ce_layer e))"
  let ?m = "e\<lparr> ce_layer := send_message llu (ce_layer e) \<rparr>"
  have "e\<lparr> ce_layer := send_message llu ((ce_layer e)\<lparr> pl_rpc_queue := ?q \<rparr>) \<rparr> = with_queue ?q ?m"
    by (simp add: with_queue_def send_message_def)
  then have call: "call_and_wait ch True alive services k llu want ws e
      = map_option (erase_after k) (wait_loop ch alive services k (llu_type llu) want ws (with_queue ?q ?m))" for ws
    using rdy by (simp add: call_and_wait_def call_rpc_method_slot_def)
  have v: "slots ?q = (slots (pl_rpc_queue (ce_layer e)))(k \<mapsto> [])" and wfq: "cq_wf ?q"
    using cqs.view_add [OF wf, of k] fresh cqs.inv_add [OF wf] by simp_all
  have l: "pl_rpc_queue (ce_layer (with_queue ?q ?m)) = ?q" "pl_rpc_queue (ce_layer ?m) = pl_rpc_queue (ce_layer e)"
    by (simp_all add: send_message_def)
  note w = wait_loop_outcome [where e = "with_queue ?q ?m" and k = k and q = "[]" and mess_type = "llu_type llu"
      and ch = ch and want = want and trs = trs and alive = alive and services = services, unfolded l, OF wfq]
  show ?thesis
  proof (cases "call_outcome ch (llu_type llu) want [] (map (units_for k) trs)")
    case None
    then show ?thesis using w v call by simp
  next
    case (Some x)
    obtain cbs r where x: "x = (cbs, r)" by fastforce
    from w v Some x obtain e' where
      w': "wait_loop ch alive services k (llu_type llu) want (map traffic_wait trs) (with_queue ?q ?m) = Some (e', r)" and
      d: "call_done_env alive services k cbs (concat (take (Suc (length cbs)) trs)) (with_queue ?q ?m) e'" by auto
    from d obtain s where s: "e' = with_queue s (fold (env_local_call alive services) cbs ?m)" "cq_wf s"
      "\<forall>k'. k' \<noteq> k \<longrightarrow> slots s k' = map_option (\<lambda>q. q @ units_for k' (concat (take (Suc (length cbs)) trs))) (slots ?q k')"
      unfolding call_done_env_def l by (auto simp: fold_local_call_queue)
    let ?r = "erase_queue k s"
    have "erase_after k (e', r) = (with_queue ?r (fold (env_local_call alive services) cbs ?m), r)"
      by (simp add: erase_after_def s(1) close_slot_def with_queue_def)
    moreover have "slots ?r = (slots s)(k := None)" "cq_wf ?r"
      using cqs.view_erase [OF s(2)] cqs.inv_erase [OF s(2)] by simp_all
    ultimately show ?thesis
      using Some x w' call s(3) v unfolding call_done_env_def l by auto
  qed
qed

text \<open>A connection that has just become ready, for examples.\<close>

definition fresh_env :: call_env where
  "fresh_env = \<lparr> ce_layer = pl_set_ready True (pl_new True default_session_options), ce_ctx = cs_new,
                 ce_pending = [], ce_done_runs = 0 \<rparr>"

lemma fresh_env_ok:
  "cq_wf (pl_rpc_queue (ce_layer fresh_env))" "pl_ready (ce_layer fresh_env)"
  "slots (pl_rpc_queue (ce_layer fresh_env)) k = None"
  by (simp_all add: fresh_env_def pl_new_def pl_set_ready_def cq_new_wf slots_def)

subsection \<open>Properties\<close>

text \<open>
  C6. A call does what its specification says, whatever else arrives on the connection: the outcome
  depends on the units for its own slot only, in the order of their arrival; the units that are not
  answers are executed as local calls, each once and in order, before the outcome; a missing answer
  is the timeout error; the slot is gone afterwards, and every other slot has got exactly the units
  sent to it.
\<close>

theorem call_and_wait_refines:
  assumes "cq_wf (pl_rpc_queue (ce_layer e))" and "pl_ready (ce_layer e)"
    and "slots (pl_rpc_queue (ce_layer e)) k = None"
    and "call_outcome ch (llu_type llu) want [] (map (units_for k) trs) = Some (cbs, r)"
  shows "\<exists>e'. call_and_wait ch True alive services k llu want (map traffic_wait trs) e = Some (e', r)
           \<and> call_done_env alive services k cbs (concat (take (Suc (length cbs)) trs))
                (e\<lparr> ce_layer := send_message llu (ce_layer e) \<rparr>) e'
           \<and> slots (pl_rpc_queue (ce_layer e')) k = None"
  using call_and_wait_outcome [OF assms(1-3), where ch = ch and llu = llu and want = want and
      trs = trs and alive = alive and services = services] assms(4) by simp

theorem call_and_wait_refines_witness:
  "let ch = client_channel_new None 0; llu = llu_new\<lparr> llu_type := MESSAGE_CLIENT_CALL \<rparr>;
       cb = llu_new\<lparr> llu_type := MESSAGE_SERVER_CALLBACK \<rparr>; ans = llu\<lparr> llu_response := [42] \<rparr>
   in \<exists>e'. call_and_wait ch True True (\<lambda>_. None) 103 llu True
              (map traffic_wait [[(55, ans), (103, cb)], [(103, ans)]]) fresh_env
              = Some (e', Inr (True, Some [42]))
        \<and> call_done_env True (\<lambda>_. None) 103 [cb] [(55, ans), (103, cb), (103, ans)]
             (fresh_env\<lparr> ce_layer := send_message llu (ce_layer fresh_env) \<rparr>) e'"
proof -
  let ?ch = "client_channel_new None 0" and ?llu = "llu_new\<lparr> llu_type := MESSAGE_CLIENT_CALL \<rparr>"
  let ?cb = "llu_new\<lparr> llu_type := MESSAGE_SERVER_CALLBACK \<rparr>"
  let ?ans = "?llu\<lparr> llu_response := [42] \<rparr>"
  let ?trs = "[[(55 :: u64, ?ans), (103, ?cb)], [(103, ?ans)]]"
  have "call_outcome ?ch (llu_type ?llu) True [] (map (units_for 103) ?trs) = Some ([?cb], Inr (True, Some [42]))"
    by (simp add: llu_new_def no_error_def message_type_defs err_defs)
  from call_and_wait_refines [OF fresh_env_ok this, of True "\<lambda>_. None"] show ?thesis
    unfolding Let_def by auto
qed

text \<open>
  C25. A caller does not wait for ever: if a peer sends it finitely many units, the call returns,
  after at most one more wait than there were units.
\<close>

theorem call_and_wait_returns:
  assumes "cq_wf (pl_rpc_queue (ce_layer e))" and "pl_ready (ce_layer e)"
    and "slots (pl_rpc_queue (ce_layer e)) k = None"
    and "length (concat (map (units_for k) trs)) < length trs"
  shows "\<exists>e' r. call_and_wait ch True alive services k llu want (map traffic_wait trs) e = Some (e', r)"
proof -
  have "call_outcome ch (llu_type llu) want [] (map (units_for k) trs) \<noteq> None"
    by (rule call_outcome_total) (use assms(4) in simp)
  then obtain x where "call_outcome ch (llu_type llu) want [] (map (units_for k) trs) = Some x" by blast
  with call_and_wait_outcome [OF assms(1-3), where ch = ch and llu = llu and want = want and
      trs = trs and alive = alive and services = services] show ?thesis
    by (cases x) auto
qed

theorem call_and_wait_returns_witness:
  "\<exists>e' r. call_and_wait (client_channel_new None 0) True True (\<lambda>_. None) 103 llu_new True
            (map traffic_wait [[(103, llu_new)], []]) fresh_env = Some (e', r)"
  by (rule call_and_wait_returns [OF fresh_env_ok]) simp

text \<open>
  No slot is left behind: with any behaviour of the other threads, a call that returns or raises
  has erased its slot, in both variants of the waiting call.
\<close>

theorem call_slot_erased:
  assumes "call_and_wait ch True alive services k llu want ws e = Some (e1, r)"
    and "call_and_wait_raw ch True events k llu ws' e = Some (e2, r')"
  shows "\<not> slot_exists k (ce_layer e1) \<and> \<not> slot_exists k (ce_layer e2)"
  using assms by (auto simp: call_and_wait_def call_and_wait_raw_def dest: erase_after_slot)

theorem call_slot_erased_witness:
  "\<exists>e1 e2 r r'. call_and_wait (client_channel_new None 0) True True (\<lambda>_. None) 103 llu_new True
       [\<lambda>s a. (s, False)] fresh_env = Some (e1, r)
     \<and> call_and_wait_raw (client_channel_new None 0) True None 103 llu_new [\<lambda>s a. (s, False)] fresh_env
         = Some (e2, r')
     \<and> \<not> slot_exists 103 (ce_layer e1) \<and> \<not> slot_exists 103 (ce_layer e2)"
proof -
  note ev = fresh_env_def pl_set_ready_def pl_new_def call_rpc_method_slot_def send_message_def
    read_slot_for_def read_impl_def cq_at_def add_queue_def cq_find_def cq_new_def read_leave_def
    cell_ops hold_value_new_def cancel_res2wait_res_def llu_new_def no_error_def err_defs
  obtain e1 r where 1: "call_and_wait (client_channel_new None 0) True True (\<lambda>_. None) 103 llu_new True
      [\<lambda>s a. (s, False)] fresh_env = Some (e1, r)"
    by (simp add: call_and_wait_def erase_after_def ev Let_def)
  obtain e2 r' where 2: "call_and_wait_raw (client_channel_new None 0) True None 103 llu_new
      [\<lambda>s a. (s, False)] fresh_env = Some (e2, r')"
    by (simp add: call_and_wait_raw_def erase_after_def ev Let_def)
  from call_slot_erased [OF 1 2] 1 2 show ?thesis by blast
qed

text \<open>
  When a handler raises while data is being read, the connection reports a read error whose code
  is the one of the read itself, zero. A caller in a slot does not take the unit it gets for an
  error: it executes it as a callback to a nameless service and waits on, as if nothing had arrived.
\<close>

theorem read_error_without_code_is_no_error:
  assumes "cq_wf (pl_rpc_queue p)" and "mess_type \<noteq> MESSAGE_NONE"
  shows "\<exists>m. slots (pl_rpc_queue (on_read_error 0 p)) = (\<lambda>k. map_option (\<lambda>q. q @ [m]) (slots (pl_rpc_queue p) k))
           \<and> llu_service_id m = []
           \<and> call_outcome ch mess_type want [] ([m] # mss)
               = map_option (\<lambda>(cbs, r). (m # cbs, r)) (call_outcome ch mess_type want [] mss)"
proof -
  let ?m = "llu_new\<lparr> llu_error := \<lparr> ec_code = 0, ec_category = CATEGORY_SYSTEM, ec_fatal = True,
                                    ec_additional = ''Transport read error.'' \<rparr> \<rparr>"
  have "pl_rpc_queue (on_read_error 0 p) = fst (write_all ?m (pl_rpc_queue p))"
    by (simp add: on_read_error_def on_system_error_def pl_set_ready_def push_rpc_message_all_def Let_def
        split: prod.splits)
  then show ?thesis
    using cqs.view_broadcast [OF assms(1), of ?m] assms(2)
    by (intro exI [of _ ?m]) (simp add: llu_new_def err_defs)
qed

theorem read_error_without_code_is_no_error_witness:
  "\<exists>m. slots (pl_rpc_queue (on_read_error 0 (ce_layer fresh_env)))
           = (\<lambda>k. map_option (\<lambda>q. q @ [m]) (slots (pl_rpc_queue (ce_layer fresh_env)) k))
     \<and> call_outcome (client_channel_new None 0) MESSAGE_CLIENT_CALL True [] [[m]] = None"
proof -
  have "MESSAGE_CLIENT_CALL \<noteq> MESSAGE_NONE" by (simp add: message_type_defs)
  from read_error_without_code_is_no_error [OF fresh_env_ok(1) this, where mss = "[]" and want = True
      and ch = "client_channel_new None 0"]
  obtain m where m: "slots (pl_rpc_queue (on_read_error 0 (ce_layer fresh_env)))
      = (\<lambda>k. map_option (\<lambda>q. q @ [m]) (slots (pl_rpc_queue (ce_layer fresh_env)) k))"
    "call_outcome (client_channel_new None 0) MESSAGE_CLIENT_CALL True [] [[m]] = None"
    unfolding call_outcome.simps(1) by auto
  then show ?thesis by blast
qed

end
