(* ===== verification/End_To_End.thy ===== *)
theory End_To_End
  imports Unit_Stream Handshake_Correct Call_Refinement
begin

text \<open>
  Facts that join the components: what a session set up by the handshake delivers, and what a
  caller gets back from the server that handles its call.
\<close>

subsection \<open>Sessions\<close>

text \<open>Whatever is written to a transport over the packing side \<open>a\<close>, the other side \<open>b\<close> delivers of any
  beginning of the stream exactly a beginning of it, and all of it once the transport is idle.\<close>

definition delivers :: "session_options \<Rightarrow> default_protocol \<Rightarrow> default_protocol \<Rightarrow> bool" where
  "delivers opts a b \<longleftrightarrow>
     (\<forall>ms t cs. tr_reach pack_message a ms t \<longrightarrow> (\<forall>m \<in> set ms. fits_opts opts (mh_message m)) \<longrightarrow>
        prefix (concat cs) (tr_wire t) \<longrightarrow>
        (\<exists>k b'. k \<le> length ms \<and> receive b cs = (b', Inr (map Some (take k (map mh_message ms))))
           \<and> (idle t \<and> concat cs = tr_wire t \<longrightarrow> k = length ms)))"

lemma delivers_in_step:
  assumes "dp_hash_maker a = hasher_crc32" and "in_step a b" and "qb_data (dp_queue b) = []"
    and "unat (qb_max (dp_queue b)) = unat (so_max_message_length opts)"
  shows "delivers opts a b"
  unfolding delivers_def
proof (intro allI impI)
  fix ms t cs
  assume r: "tr_reach pack_message a ms t" and f: "\<forall>m \<in> set ms. fits_opts opts (mh_message m)"
    and p: "prefix (concat cs) (tr_wire t)"
  have "\<forall>m \<in> set ms. length (mh_message m) + h_size hasher_crc32 \<le> unat (qb_max (dp_queue b))"
    using f assms(4) by (simp add: fits_opts_def hasher_crc32_def crc32_length_def)
  from crc32_hash.transport_received [OF r assms(1-3) this p]
  show "\<exists>k b'. k \<le> length ms \<and> receive b cs = (b', Inr (map Some (take k (map mh_message ms))))
           \<and> (idle t \<and> concat cs = tr_wire t \<longrightarrow> k = length ms)" by blast
qed

lemma complete_delivers:
  assumes "hs_complete opts s c"
  shows "delivers opts (sh_dp s) (hc_dp c)" "delivers opts (hc_dp c) (sh_dp s)"
proof -
  have "dp_hash_maker (sh_dp s) = hasher_crc32" "dp_hash_maker (hc_dp c) = hasher_crc32"
    using assms by (auto simp: hs_complete_def)
  then show "delivers opts (sh_dp s) (hc_dp c)" "delivers opts (hc_dp c) (sh_dp s)"
    using complete_in_step [OF assms] by (auto intro: delivers_in_step)
qed

subsection \<open>Calls\<close>

text \<open>What a caller gets for an answer.\<close>

definition answer_outcome :: "rpc_channel \<Rightarrow> nat + bytes \<Rightarrow> lowlevel_unit \<Rightarrow> exn + bool \<times> bytes option" where
  "answer_outcome ch ans a =
     (case ans of
        Inr resp \<Rightarrow> Inr (True, Some resp)
      | Inl code \<Rightarrow> if code = ERR_NO_ERROR then Inr (True, Some []) else error_outcome ch (llu_error a))"

text \<open>A call the server has room for: taken, executed, answered once and counted as done.\<close>

lemma server_answers_call:
  assumes "llu_type llu = MESSAGE_CLIENT_CALL" and "uo_wait (llu_opt llu)"
    and "ps_current_calls s + 1 \<le> ps_max_calls s" and "call_finishes (ps_lookup app s) llu"
    and "s' = ps_execute True depth app (length (ps_posted s)) (fst (ps_dispatch llu s))"
  shows "\<exists>a. pl_sent (ps_layer s') = pl_sent (ps_layer s) @ [a] \<and> ps_current_calls s' = ps_current_calls s
           \<and> ps_posted s' = ps_posted s
           \<and> answer_unit llu (call_answer depth (ps_lookup app s) (pl_session_opts (ps_layer s)) llu) a"
proof -
  let ?s = "s\<lparr> ps_current_calls := ps_current_calls s + 1 \<rparr>"
  have d: "fst (ps_dispatch llu s) = ?s\<lparr> ps_posted := ps_posted s @ [llu] \<rparr>"
    using assms(1,3) by (simp add: ps_dispatch_def ps_process_call_def ps_max_calls_def message_type_defs)
  have look: "ps_lookup app ?s = ps_lookup app s"
    by (rule ext) (simp add: ps_lookup_def ps_get_service_def split: option.splits)
  obtain l pend where m: "make_local_call True True depth (ps_lookup app s) llu (ps_layer s) = (l, pend)" by fastforce
  obtain a where a: "pl_sent l = pl_sent (ps_layer s) @ [a]" "pl_done l = pl_done (ps_layer s) @ [llu_error a]"
    "answer_unit llu (call_answer depth (ps_lookup app s) (pl_session_opts (ps_layer s)) llu) a"
    using local_call_answered [OF assms(2,4), of True depth "ps_layer s"] m by (auto simp: answered_def)
  have "ps_layer s' = l \<and> ps_current_calls s' = ps_current_calls s \<and> ps_posted s' = ps_posted s"
    using m a(2) unfolding assms(5) d
    by (simp add: ps_execute_def ps_push_call_def look ps_layer_done_def ps_call_done_def Let_def)
  with a show ?thesis by auto
qed

text \<open>The caller of a unit that is answered so.\<close>

lemma caller_gets_answer:
  assumes "cq_wf (pl_rpc_queue (ce_layer e))" and "pl_ready (ce_layer e)"
    and "slots (pl_rpc_queue (ce_layer e)) (llu_id llu) = None"
    and "answer_unit llu ans a" and "uo_accept_response (llu_opt llu)" and "ec_code (llu_error llu) = ERR_NO_ERROR"
    and "units_for (llu_id llu) tr = [a]"
  shows "\<exists>e'. call_and_wait ch True alive handlers (llu_id llu) llu True [traffic_wait tr] e
                = Some (e', answer_outcome ch ans a)"
proof -
  have "call_outcome ch (llu_type llu) True [] (map (units_for (llu_id llu)) [tr]) = Some ([], answer_outcome ch ans a)"
    using assms(4-7) by (auto simp: answer_unit_def answer_outcome_def split: sum.splits)
  with call_and_wait_outcome [OF assms(1-3), where ch = ch and llu = llu and want = True and
      trs = "[tr]" and alive = alive and services = handlers] show ?thesis by auto
qed

end
