(* ===== verification/Client_Connection.thy ===== *)
theory Client_Connection
  imports Unit_Stream Handshake_Correct
begin

text \<open>
  The client's end of a connection: the read and write handlers of \<open>client_stream_impl\<close>
  (\<open>lib/vtrc/client/stream-impl.h\<close>) and the blocking \<open>connect\<close> of \<open>vtrc_client\<close>
  (\<open>connect_impl\<close> of \<open>lib/vtrc/client/client.cpp\<close>), which waits for the outcome of the handshake.
\<close>

subsection \<open>Handlers of the stream\<close>

text \<open>\<open>cs_open\<close>: the transport is not closed. Its first \<open>close\<close> runs \<open>on_close\<close>, which closes the
  protocol; \<open>setup_close\<close> is the handler of the connection setup.\<close>

record client_stream =
  cs_protocol :: protocol_c
  cs_open :: bool
  cs_reading :: bool

definition client_stream_new :: "session_options \<Rightarrow> client_stream" where
  "client_stream_new opts = \<lparr> cs_protocol = pc_new opts, cs_open = True, cs_reading = False \<rparr>"

definition cs_start_reading :: "client_stream \<Rightarrow> client_stream" where
  "cs_start_reading s = s\<lparr> cs_reading := True \<rparr>"

definition cs_on_close :: "(protocol_c \<Rightarrow> protocol_c) \<Rightarrow> client_stream \<Rightarrow> client_stream" where
  "cs_on_close setup_close s = s\<lparr> cs_protocol := pc_close setup_close (cs_protocol s) \<rparr>"

definition cs_close :: "(protocol_c \<Rightarrow> protocol_c) \<Rightarrow> client_stream \<Rightarrow> client_stream" where
  "cs_close setup_close s = (if cs_open s then cs_on_close setup_close (s\<lparr> cs_open := False \<rparr>) else s)"

text \<open>The result of the connection attempt; the caller's closure gets it in both cases.\<close>

definition cs_on_connect :: "nat option \<Rightarrow> client_stream \<Rightarrow> client_stream" where
  "cs_on_connect err s = (if err = None then cs_start_reading s else s)"

text \<open>A read ends with bytes or with the code of an error.\<close>

definition cs_read_handler ::
    "(bytes \<Rightarrow> lowlevel_unit option) \<Rightarrow> (protocol_c \<Rightarrow> protocol_c) \<Rightarrow> bool \<Rightarrow> nat + bytes \<Rightarrow> client_stream \<Rightarrow> client_stream" where
  "cs_read_handler parse setup_close client_alive res s =
     (let s = s\<lparr> cs_reading := False \<rparr> in
      if \<not> client_alive then s
      else case res of
        Inr data \<Rightarrow>
          (case pc_process_data parse data (cs_protocol s) of
             (p, Inl e) \<Rightarrow> cs_close setup_close (s\<lparr> cs_protocol := p \<rparr>)
           | (p, Inr _) \<Rightarrow> cs_start_reading (s\<lparr> cs_protocol := p \<rparr>))
      | Inl code \<Rightarrow>
          cs_close setup_close (s\<lparr> cs_protocol := pc_on_layer (on_read_error code) (cs_protocol s) \<rparr>))"

definition cs_on_write_error :: "nat \<Rightarrow> client_stream \<Rightarrow> client_stream" where
  "cs_on_write_error code s = s\<lparr> cs_protocol := pc_on_layer (on_write_error code) (cs_protocol s) \<rparr>"

text \<open>The client goes on reading exactly as long as nothing fails.\<close>

lemma read_handler_alternatives:
  assumes "cs_open s"
  shows "cs_reading (cs_read_handler parse setup_close True res s) = cs_open (cs_read_handler parse setup_close True res s)"
  using assms
  by (auto simp: cs_read_handler_def cs_close_def cs_on_close_def cs_start_reading_def Let_def split: sum.splits prod.splits)

subsection \<open>Connecting\<close>

text \<open>The signals that arrive while \<open>connect_impl\<close> waits, in groups: the waiting thread looks at
  \<open>on_ready_diconnect\<close> between two groups, and a last time when the ten seconds are over.\<close>

record connect_state =
  cw_failed :: bool
  cw_message :: string
  cw_ready :: bool

definition connect_start :: connect_state where
  "connect_start = \<lparr> cw_failed = False, cw_message = [], cw_ready = False \<rparr>"

definition on_init_error_s :: "string \<Rightarrow> connect_state \<Rightarrow> connect_state" where
  "on_init_error_s mess w = w\<lparr> cw_failed := True, cw_message := mess \<rparr>"

definition on_ready_diconnect :: "connect_state \<Rightarrow> bool" where
  "on_ready_diconnect w \<longleftrightarrow> cw_failed w \<or> cw_ready w"

fun connect_signal :: "signal \<Rightarrow> connect_state \<Rightarrow> connect_state" where
  "connect_signal (On_ready v) w = w\<lparr> cw_ready := v \<rparr>"
| "connect_signal (On_init_error err mess) w = on_init_error_s mess w"
| "connect_signal On_disconnect w = w"

fun connect_wait :: "signal list list \<Rightarrow> connect_state \<Rightarrow> connect_state \<times> bool" where
  "connect_wait [] w = (w, on_ready_diconnect w)"
| "connect_wait (sigs # rest) w =
     (if on_ready_diconnect w then (w, True) else connect_wait rest (fold connect_signal sigs w))"

definition connect_impl :: "exn + unit \<Rightarrow> signal list list \<Rightarrow> exn + unit" where
  "connect_impl conn_func sigs =
     (case conn_func of
        Inl e \<Rightarrow> Inl e
      | Inr _ \<Rightarrow>
          (case connect_wait sigs connect_start of
             (w, ok) \<Rightarrow>
               if \<not> ok then Inl (rpc_exception ERR_TIMEOUT)
               else if cw_failed w then Inl (rpc_exception_msg ERR_INTERNAL (cw_message w))
               else Inr ()))"

text \<open>What the handshake tells the client object.\<close>

fun signals_of :: "accessor_event list \<Rightarrow> signal list" where
  "signals_of [] = []"
| "signals_of (Ev_ready v # evs) = On_ready v # signals_of evs"
| "signals_of (Ev_error err mess # evs) = On_init_error err mess # signals_of evs"
| "signals_of (Ev_close # evs) = On_disconnect # signals_of evs"
| "signals_of (_ # evs) = signals_of evs"

text \<open>Once the predicate holds it decides the outcome; groups before that leave it undecided.\<close>

lemma connect_wait_decided:
  assumes "on_ready_diconnect w" shows "connect_wait sigs w = (w, True)"
  using assms by (cases sigs) simp_all

lemma connect_wait_ready:
  "concat sigs = [On_ready True] \<Longrightarrow> \<not> on_ready_diconnect w \<Longrightarrow> connect_wait sigs w = (w\<lparr> cw_ready := True \<rparr>, True)"
proof (induction sigs)
  case (Cons g sigs)
  show ?case
  proof (cases g)
    case Nil
    with Cons show ?thesis by simp
  next
    case (Cons a g')
    with Cons.prems have "g = [On_ready True]" by auto
    with Cons.prems show ?thesis by (simp add: connect_wait_decided on_ready_diconnect_def)
  qed
qed simp

lemma connect_wait_error:
  "concat sigs = [On_init_error err mess, On_disconnect] \<Longrightarrow> \<not> on_ready_diconnect w \<Longrightarrow>
     connect_wait sigs w = (on_init_error_s mess w, True)"
proof (induction sigs)
  case (Cons g sigs)
  show ?case
  proof (cases g)
    case Nil
    with Cons show ?thesis by simp
  next
    case (Cons a g')
    with Cons.prems have "g = [On_init_error err mess] \<or> g = [On_init_error err mess, On_disconnect]"
      by (cases g') auto
    with Cons.prems show ?thesis
      by (auto simp: connect_wait_decided on_ready_diconnect_def on_init_error_s_def)
  qed
qed simp

text \<open>A connection that is closed while it is set up is not noticed: the caller waits the whole time
  and gets a timeout.\<close>

lemma connect_disconnected_times_out:
  assumes "set (concat sigs) \<subseteq> {On_disconnect}"
  shows "connect_impl (Inr ()) sigs = Inl (rpc_exception ERR_TIMEOUT)"
proof -
  have f: "set g \<subseteq> {On_disconnect} \<Longrightarrow> fold connect_signal g w = w" for g w
    by (induction g) auto
  have "\<not> on_ready_diconnect w \<Longrightarrow> connect_wait sigs w = (w, False)" for w
    using assms by (induction sigs) (auto simp: f)
  then show ?thesis by (simp add: connect_impl_def connect_start_def on_ready_diconnect_def)
qed

lemma connect_after_ready:
  assumes "hs_complete opts s c" and "concat sigs = signals_of (hc_events c)"
  shows "connect_impl (Inr ()) sigs = Inr ()"
proof -
  have "concat sigs = [On_ready True]" using assms by (simp add: hs_complete_def)
  from connect_wait_ready [OF this, of connect_start] show ?thesis
    by (simp add: connect_impl_def connect_start_def on_ready_diconnect_def)
qed

lemma connect_after_error:
  assumes "hc_events c = [Ev_error err mess, Ev_close]" and "concat sigs = signals_of (hc_events c)"
  shows "connect_impl (Inr ()) sigs = Inl (rpc_exception_msg ERR_INTERNAL mess)"
proof -
  have "concat sigs = [On_init_error err mess, On_disconnect]" using assms by simp
  from connect_wait_error [OF this, of connect_start] show ?thesis
    by (simp add: connect_impl_def connect_start_def on_ready_diconnect_def on_init_error_s_def)
qed

end
