(* ===== verification/Environment.thy ===== *)
theory Environment
  imports Prelude
begin

text \<open>
  The environment of a client, a listener or a connection (\<open>lib/vtrc/common/enviroment.cpp\<close>): named
  strings behind a mutex. Every operation holds the mutex for its whole length, except assignment,
  which copies the source under the mutex of the source and then swaps under its own.

  The locale \<open>string_store\<close> is what the other components rely on. The session key of a client is kept
  there under a fixed name (\<open>set_session_key\<close> and its relatives in \<open>lib/vtrc/client/client.cpp\<close>).
\<close>

record environment =
  env_data :: "string \<rightharpoonup> string"

definition env_new :: environment where
  "env_new = \<lparr> env_data = Map.empty \<rparr>"

definition env_copy :: "environment \<Rightarrow> environment" where
  "env_copy other = \<lparr> env_data = env_data other \<rparr>"

definition env_assign :: "environment \<Rightarrow> environment \<Rightarrow> environment" where
  "env_assign e other = e\<lparr> env_data := env_data other \<rparr>"

definition env_set :: "string \<Rightarrow> string \<Rightarrow> environment \<Rightarrow> environment" where
  "env_set name val e =
     (case env_data e name of
        None \<Rightarrow> e\<lparr> env_data := (env_data e)(name \<mapsto> val) \<rparr>
      | Some _ \<Rightarrow> e\<lparr> env_data := (env_data e)(name \<mapsto> val) \<rparr>)"

definition env_get_default :: "string \<Rightarrow> string \<Rightarrow> environment \<Rightarrow> string" where
  "env_get_default name default_value e =
     (case env_data e name of None \<Rightarrow> default_value | Some v \<Rightarrow> v)"

definition env_get :: "string \<Rightarrow> environment \<Rightarrow> string" where
  "env_get name e = env_get_default name [] e"

definition env_remove :: "string \<Rightarrow> environment \<Rightarrow> environment \<times> nat" where
  "env_remove name e =
     (e\<lparr> env_data := (env_data e)(name := None) \<rparr>, if env_data e name = None then 0 else 1)"

definition env_exists :: "string \<Rightarrow> environment \<Rightarrow> bool" where
  "env_exists name e \<longleftrightarrow> env_data e name \<noteq> None"

subsection \<open>The contract\<close>

locale string_store =
  fixes put :: "string \<Rightarrow> string \<Rightarrow> 'e \<Rightarrow> 'e"
    and get :: "string \<Rightarrow> string \<Rightarrow> 'e \<Rightarrow> string"
    and del :: "string \<Rightarrow> 'e \<Rightarrow> 'e"
    and has :: "string \<Rightarrow> 'e \<Rightarrow> bool"
  assumes get_put: "get n d (put k v e) = (if n = k then v else get n d e)"
    and has_put: "has n (put k v e) \<longleftrightarrow> n = k \<or> has n e"
    and get_del: "get n d (del k e) = (if n = k then d else get n d e)"
    and has_del: "has n (del k e) \<longleftrightarrow> n \<noteq> k \<and> has n e"
    and get_absent: "\<not> has n e \<Longrightarrow> get n d e = d"
begin

text \<open>An entry as an optional value.\<close>

definition entry :: "string \<Rightarrow> 'e \<Rightarrow> string option" where
  "entry n e = (if has n e then Some (get n [] e) else None)"

lemma entry_put: "entry n (put k v e) = (if n = k then Some v else entry n e)"
  by (simp add: entry_def has_put get_put)

lemma entry_del: "entry n (del k e) = (if n = k then None else entry n e)"
  by (simp add: entry_def has_del get_del)

lemma get_entry: "get n [] e = (case entry n e of None \<Rightarrow> [] | Some v \<Rightarrow> v)"
  by (simp add: entry_def get_absent)

end

interpretation env_store: string_store env_set env_get_default "\<lambda>n e. fst (env_remove n e)" env_exists
  by unfold_locales
    (auto simp: env_set_def env_get_default_def env_remove_def env_exists_def split: option.splits)

subsection \<open>The session key\<close>

definition set_session_key :: "string \<Rightarrow> environment \<Rightarrow> environment" where
  "set_session_key val = env_set ''session_key'' val"

definition get_session_key :: "environment \<Rightarrow> string" where
  "get_session_key e = env_get ''session_key'' e"

definition reset_session_key :: "environment \<Rightarrow> environment" where
  "reset_session_key e = fst (env_remove ''session_key'' e)"

text \<open>What the handshake reads: whether there is a key, and which.\<close>

definition env_session_key :: "environment \<Rightarrow> string option" where
  "env_session_key e = (if env_exists ''session_key'' e then Some (env_get ''session_key'' e) else None)"

lemma env_session_key_entry: "env_session_key e = env_store.entry ''session_key'' e"
  by (simp add: env_session_key_def env_store.entry_def env_get_def)

lemma session_key_set [simp]: "env_session_key (set_session_key k e) = Some k"
  by (simp add: env_session_key_entry set_session_key_def env_store.entry_put)

lemma session_key_reset [simp]: "env_session_key (reset_session_key e) = None"
  by (simp add: env_session_key_entry reset_session_key_def env_store.entry_del)

lemma session_key_other [simp]: "n \<noteq> ''session_key'' \<Longrightarrow> env_session_key (env_set n v e) = env_session_key e"
  by (simp add: env_session_key_entry env_store.entry_put)

end
