(* ===== verification/Client_Base.thy ===== *)
theory Client_Base
  imports Environment
begin

text \<open>
  The services a client offers to its server (\<open>base::impl\<close> of \<open>lib/vtrc/client/base.cpp\<close>). Handlers are
  kept in three maps by the full name of their service: wrappers the client holds, weak pointers to
  wrappers and weak pointers to plain services, which are wrapped at each lookup; a factory comes
  last.

  Objects have addresses. An object lives as long as somebody holds it: the map of held wrappers,
  or the rest of the program, which is the argument \<open>ext\<close> of the operations that lock a weak
  pointer. The name of a wrapper's or service's descriptor, the wrapping and the factory are
  arguments too.
\<close>

subsection \<open>State\<close>

datatype wrapper = Wrapper nat | Wrap_of nat

record client_base =
  cb_native :: "string \<rightharpoonup> nat"
  cb_weak :: "string \<rightharpoonup> wrapper"
  cb_hold :: "string \<rightharpoonup> wrapper"
  cb_factory :: "(string \<Rightarrow> wrapper option) option"
  cb_session_id :: string
  cb_env :: environment

definition client_base_new :: client_base where
  "client_base_new = \<lparr> cb_native = Map.empty, cb_weak = Map.empty, cb_hold = Map.empty, cb_factory = None,
     cb_session_id = [], cb_env = env_new \<rparr>"

text \<open>What is alive outside the client: services and wrappers.\<close>

record liveness =
  lv_service :: "nat \<Rightarrow> bool"
  lv_wrapper :: "wrapper \<Rightarrow> bool"

definition lock_wrapper :: "liveness \<Rightarrow> client_base \<Rightarrow> wrapper \<Rightarrow> wrapper option" where
  "lock_wrapper ext c w = (if lv_wrapper ext w \<or> w \<in> ran (cb_hold c) then Some w else None)"

text \<open>A wrapper holds its service, so that a service whose wrapper is held is alive.\<close>

definition lock_service :: "liveness \<Rightarrow> client_base \<Rightarrow> nat \<Rightarrow> nat option" where
  "lock_service ext c s = (if lv_service ext s \<or> Wrap_of s \<in> ran (cb_hold c) then Some s else None)"

subsection \<open>Operations\<close>

definition assign_weak_handler :: "(nat \<Rightarrow> string) \<Rightarrow> liveness \<Rightarrow> nat \<Rightarrow> client_base \<Rightarrow> client_base" where
  "assign_weak_handler name ext serv c =
     (case lock_service ext c serv of
        None \<Rightarrow> c
      | Some s \<Rightarrow> c\<lparr> cb_native := (cb_native c)(name s \<mapsto> serv) \<rparr>)"

definition assign_handler_wrap :: "(wrapper \<Rightarrow> string) \<Rightarrow> wrapper \<Rightarrow> client_base \<Rightarrow> client_base" where
  "assign_handler_wrap wname serv c =
     (case cb_hold c (wname serv) of
        Some _ \<Rightarrow> c\<lparr> cb_hold := (cb_hold c)(wname serv \<mapsto> serv), cb_weak := (cb_weak c)(wname serv \<mapsto> serv) \<rparr>
      | None \<Rightarrow> c\<lparr> cb_hold := (cb_hold c)(wname serv \<mapsto> serv), cb_weak := (cb_weak c)(wname serv \<mapsto> serv) \<rparr>)"

definition assign_handler :: "(wrapper \<Rightarrow> string) \<Rightarrow> nat \<Rightarrow> client_base \<Rightarrow> client_base" where
  "assign_handler wname serv = assign_handler_wrap wname (Wrap_of serv)"

definition assign_weak_handler_wrap :: "(wrapper \<Rightarrow> string) \<Rightarrow> liveness \<Rightarrow> wrapper \<Rightarrow> client_base \<Rightarrow> client_base" where
  "assign_weak_handler_wrap wname ext serv c =
     (case lock_wrapper ext c serv of
        None \<Rightarrow> c
      | Some w \<Rightarrow> c\<lparr> cb_weak := (cb_weak c)(wname w \<mapsto> serv) \<rparr>)"

definition assign_service_factory :: "(string \<Rightarrow> wrapper option) option \<Rightarrow> client_base \<Rightarrow> client_base" where
  "assign_service_factory f c = c\<lparr> cb_factory := f \<rparr>"

text \<open>The three stages of \<open>get_handler\<close>; a dead entry is removed on the way.\<close>

definition find_weak :: "liveness \<Rightarrow> string \<Rightarrow> client_base \<Rightarrow> client_base \<times> wrapper option" where
  "find_weak ext name c =
     (case cb_weak c name of
        None \<Rightarrow> (c, None)
      | Some w \<Rightarrow>
          (case lock_wrapper ext c w of
             None \<Rightarrow> (c\<lparr> cb_weak := (cb_weak c)(name := None) \<rparr>, None)
           | Some w \<Rightarrow> (c, Some w)))"

definition find_native :: "liveness \<Rightarrow> string \<Rightarrow> client_base \<Rightarrow> client_base \<times> wrapper option" where
  "find_native ext name c =
     (case cb_native c name of
        None \<Rightarrow> (c, None)
      | Some s \<Rightarrow>
          (case lock_service ext c s of
             None \<Rightarrow> (c\<lparr> cb_native := (cb_native c)(name := None) \<rparr>, None)
           | Some s \<Rightarrow> (c, Some (Wrap_of s))))"

definition get_handler :: "liveness \<Rightarrow> string \<Rightarrow> client_base \<Rightarrow> client_base \<times> wrapper option" where
  "get_handler ext name c =
     (case find_weak ext name c of
        (c, Some w) \<Rightarrow> (c, Some w)
      | (c, None) \<Rightarrow>
          (case find_native ext name c of
             (c, Some w) \<Rightarrow> (c, Some w)
           | (c, None) \<Rightarrow> (c, case cb_factory c of None \<Rightarrow> None | Some f \<Rightarrow> f name)))"

definition erase_rpc_handler :: "string \<Rightarrow> client_base \<Rightarrow> client_base" where
  "erase_rpc_handler name c =
     c\<lparr> cb_hold := (cb_hold c)(name := None), cb_weak := (cb_weak c)(name := None),
        cb_native := (cb_native c)(name := None) \<rparr>"

definition erase_all_rpc_handlers :: "client_base \<Rightarrow> client_base" where
  "erase_all_rpc_handlers c = c\<lparr> cb_hold := Map.empty, cb_weak := Map.empty \<rparr>"

definition set_session_id :: "string \<Rightarrow> client_base \<Rightarrow> client_base" where
  "set_session_id ident c = c\<lparr> cb_session_id := ident \<rparr>"

definition reset_session_id :: "client_base \<Rightarrow> client_base" where
  "reset_session_id c = c\<lparr> cb_session_id := [] \<rparr>"

definition client_set_session_key :: "string \<Rightarrow> string \<Rightarrow> client_base \<Rightarrow> client_base" where
  "client_set_session_key ident key c =
     (let c = set_session_id ident c in c\<lparr> cb_env := set_session_key key (cb_env c) \<rparr>)"

definition reset_session_info :: "client_base \<Rightarrow> client_base" where
  "reset_session_info c =
     (let c = reset_session_id c in c\<lparr> cb_env := reset_session_key (cb_env c) \<rparr>)"

subsection \<open>Lookup\<close>

lemmas registry_defs = assign_weak_handler_def assign_handler_wrap_def assign_handler_def assign_weak_handler_wrap_def
  get_handler_def find_weak_def find_native_def erase_rpc_handler_def erase_all_rpc_handlers_def
  lock_wrapper_def lock_service_def

text \<open>What a lookup returns, without the removals.\<close>

definition handler_spec :: "liveness \<Rightarrow> string \<Rightarrow> client_base \<Rightarrow> wrapper option" where
  "handler_spec ext name c =
     (case Option.bind (cb_weak c name) (lock_wrapper ext c) of
        Some w \<Rightarrow> Some w
      | None \<Rightarrow>
          (case Option.bind (cb_native c name) (lock_service ext c) of
             Some s \<Rightarrow> Some (Wrap_of s)
           | None \<Rightarrow> Option.bind (cb_factory c) (\<lambda>f. f name)))"

lemma lock_weak_upd [simp]:
  "lock_wrapper ext (c\<lparr> cb_weak := m \<rparr>) = lock_wrapper ext c" "lock_service ext (c\<lparr> cb_weak := m \<rparr>) = lock_service ext c"
  "lock_wrapper ext (c\<lparr> cb_native := n \<rparr>) = lock_wrapper ext c" "lock_service ext (c\<lparr> cb_native := n \<rparr>) = lock_service ext c"
  by (simp_all add: fun_eq_iff lock_wrapper_def lock_service_def)

lemma get_handler_result: "snd (get_handler ext name c) = handler_spec ext name c"
  by (auto simp: get_handler_def find_weak_def find_native_def handler_spec_def split: option.splits)

text \<open>The removals of a lookup change no later lookup, unless an object that had died were alive again.\<close>

lemma lookup_pure:
  assumes "\<And>w. lv_wrapper ext' w \<Longrightarrow> lv_wrapper ext w" and "\<And>s. lv_service ext' s \<Longrightarrow> lv_service ext s"
  shows "handler_spec ext' other (fst (get_handler ext name c)) = handler_spec ext' other c"
  using assms
  by (auto simp: handler_spec_def get_handler_def find_weak_def find_native_def lock_wrapper_def lock_service_def
      split: option.splits)

subsection \<open>Histories\<close>

datatype reg_cmd =
    Reg_assign wrapper
  | Reg_assign_weak liveness wrapper
  | Reg_assign_native liveness nat
  | Reg_factory "(string \<Rightarrow> wrapper option) option"
  | Reg_get liveness string
  | Reg_erase string
  | Reg_erase_all

fun reg_step :: "(nat \<Rightarrow> string) \<Rightarrow> (wrapper \<Rightarrow> string) \<Rightarrow> reg_cmd \<Rightarrow> client_base \<Rightarrow> client_base" where
  "reg_step name wname (Reg_assign w) = assign_handler_wrap wname w"
| "reg_step name wname (Reg_assign_weak ext w) = assign_weak_handler_wrap wname ext w"
| "reg_step name wname (Reg_assign_native ext s) = assign_weak_handler name ext s"
| "reg_step name wname (Reg_factory f) = assign_service_factory f"
| "reg_step name wname (Reg_get ext n) = (\<lambda>c. fst (get_handler ext n c))"
| "reg_step name wname (Reg_erase n) = erase_rpc_handler n"
| "reg_step name wname Reg_erase_all = erase_all_rpc_handlers"

text \<open>The operations that may change what is registered as a wrapper under the name \<open>n\<close>.\<close>

fun touches :: "(wrapper \<Rightarrow> string) \<Rightarrow> string \<Rightarrow> reg_cmd \<Rightarrow> bool" where
  "touches wname n (Reg_assign w) \<longleftrightarrow> wname w = n"
| "touches wname n (Reg_assign_weak ext w) \<longleftrightarrow> wname w = n"
| "touches wname n (Reg_erase n') \<longleftrightarrow> n' = n"
| "touches wname n Reg_erase_all \<longleftrightarrow> True"
| "touches wname n _ \<longleftrightarrow> False"

definition held :: "string \<Rightarrow> wrapper \<Rightarrow> client_base \<Rightarrow> bool" where
  "held n w c \<longleftrightarrow> cb_hold c n = Some w \<and> cb_weak c n = Some w"

lemma held_lock: "held n w c \<Longrightarrow> lock_wrapper ext c w = Some w"
  by (auto simp: held_def lock_wrapper_def ran_def)

lemma held_step:
  assumes "held n w c" and "\<not> touches wname n cmd"
  shows "held n w (reg_step name wname cmd c)"
proof (cases cmd)
  case (Reg_get ext n')
  have "cb_weak (fst (find_weak ext n' c)) n = Some w" "cb_hold (fst (find_weak ext n' c)) n = Some w"
    using assms(1) held_lock [OF assms(1), of ext] by (auto simp: find_weak_def held_def split: option.splits)
  then show ?thesis using Reg_get
    by (auto simp: held_def get_handler_def find_native_def split: prod.splits option.splits)
qed (use assms in \<open>auto simp: held_def registry_defs assign_service_factory_def split: option.splits\<close>)

lemma held_found: "held n w c \<Longrightarrow> snd (get_handler ext n c) = Some w"
  using held_lock by (simp add: get_handler_result handler_spec_def held_def)

text \<open>
  A handler the client holds is found: once assigned, every lookup of its name returns it,
  through any history of assignments, weak assignments, lookups and erasures of other names, whatever
  objects outside the client die.
\<close>

theorem held_handler_found:
  assumes "\<forall>cmd \<in> set cmds. \<not> touches wname (wname w) cmd"
  shows "snd (get_handler ext (wname w) (fold (reg_step name wname) cmds (assign_handler_wrap wname w c))) = Some w"
proof -
  have "held (wname w) w (fold (reg_step name wname) cmds c')" if "held (wname w) w c'" for c'
    using assms that by (induction cmds arbitrary: c') (auto simp: held_step)
  moreover have "held (wname w) w (assign_handler_wrap wname w c)"
    by (simp add: held_def assign_handler_wrap_def split: option.splits)
  ultimately show ?thesis by (blast intro: held_found)
qed

definition no_one :: liveness where
  "no_one = \<lparr> lv_service = (\<lambda>_. False), lv_wrapper = (\<lambda>_. False) \<rparr>"

theorem held_handler_found_witness:
  "snd (get_handler no_one ''a''
     (fold (reg_step (\<lambda>_. ''b'') (\<lambda>w. if w = Wrapper 1 then ''a'' else ''b''))
       [Reg_assign (Wrapper 2), Reg_get no_one ''a'', Reg_erase ''b'']
       (assign_handler_wrap (\<lambda>w. if w = Wrapper 1 then ''a'' else ''b'') (Wrapper 1) client_base_new))) = Some (Wrapper 1)"
proof -
  let ?wname = "\<lambda>w. if w = Wrapper 1 then ''a'' else ''b''"
  have "\<forall>cmd \<in> set [Reg_assign (Wrapper 2), Reg_get no_one ''a'', Reg_erase ''b'']. \<not> touches ?wname (?wname (Wrapper 1)) cmd"
    by simp
  from held_handler_found [OF this, of no_one "\<lambda>_. ''b''" client_base_new] show ?thesis by simp
qed

text \<open>A weak assignment hides a held handler of the same name for good: when the weak one dies, the
  lookup erases it and goes on to the other maps, never back to the held one.\<close>

lemma weak_hides_held:
  assumes "cb_hold c n = Some w" and "cb_weak c n = Some w'" and "lock_wrapper ext c w' = None"
    and "cb_native c n = None" and "cb_factory c = None"
  shows "snd (get_handler ext n c) = None \<and> cb_hold (fst (get_handler ext n c)) n = Some w"
  using assms by (simp add: get_handler_def find_weak_def find_native_def)

text \<open>\<open>erase_all_rpc_handlers\<close> leaves the plain services: they are still found afterwards.\<close>

lemma erase_all_keeps_native:
  assumes "cb_native c n = Some s" and "lv_service ext s"
  shows "snd (get_handler ext n (erase_all_rpc_handlers c)) = Some (Wrap_of s)"
  using assms by (simp add: get_handler_result handler_spec_def erase_all_rpc_handlers_def lock_service_def)

end
