(* ===== verification/Connections.thy ===== *)
theory Connections
  imports Prelude
begin

text \<open>
  The connections of a server: the list of clients (\<open>lib/vtrc/common/connection-list.cpp\<close>), the
  listener that accepts them (\<open>listener/impl.h\<close>, \<open>listener/listener.cpp\<close>), the connection objects and
  their read handlers (\<open>connection/impl.h\<close>), and \<open>stop_all_clients\<close> of \<open>application.cpp\<close>.

  A connection is an address. Its transport runs \<open>close\<close> under \<open>close_lock_\<close>, its other handlers one
  after another; the steps below interleave those of all connections. What a connection does with
  the data it reads belongs to the protocol; here only whether it raises matters.
\<close>

subsection \<open>The list of clients\<close>

text \<open>A map from the address of a connection to a shared pointer to it, in the order of addresses.\<close>

type_synonym client_map = "nat set"

definition cl_store :: "nat \<Rightarrow> client_map \<Rightarrow> client_map" where
  "cl_store c m = insert c m"

definition cl_lock :: "nat \<Rightarrow> client_map \<Rightarrow> nat option" where
  "cl_lock c m = (if c \<in> m then Some c else None)"

definition cl_drop :: "nat \<Rightarrow> client_map \<Rightarrow> client_map" where
  "cl_drop c m = (if c \<in> m then m - {c} else m)"

definition cl_clear :: "client_map \<Rightarrow> client_map" where
  "cl_clear m = {}"

fun foreach_loop :: "(nat \<Rightarrow> 's \<Rightarrow> 's \<times> bool) \<Rightarrow> nat list \<Rightarrow> 's \<Rightarrow> nat \<Rightarrow> 's \<times> nat" where
  "foreach_loop func [] s result = (s, result)"
| "foreach_loop func (c # cs) s result =
     (case func c s of (s, ot) \<Rightarrow>
        if \<not> ot then (s, result) else foreach_loop func cs s (Suc result))"

definition foreach_while :: "(nat \<Rightarrow> 's \<Rightarrow> 's \<times> bool) \<Rightarrow> client_map \<Rightarrow> 's \<Rightarrow> 's \<times> nat" where
  "foreach_while func m s = foreach_loop func (sorted_list_of_set m) s 0"

lemma foreach_loop_all:
  assumes "\<And>c s. snd (func c s)"
  shows "foreach_loop func cs s n = (fold (\<lambda>c s. fst (func c s)) cs s, n + length cs)"
proof (induction cs arbitrary: s n)
  case (Cons c cs)
  then show ?case using assms [of c s] by (simp add: split_beta)
qed simp

subsection \<open>Connections and the listener\<close>

record connection =
  cn_closed :: bool
  cn_on_close :: nat
  cn_handle_open :: bool
  cn_reading :: bool

definition connection_new :: connection where
  "connection_new = \<lparr> cn_closed = False, cn_on_close = 0, cn_handle_open = True, cn_reading = False \<rparr>"

datatype listener_event = Lv_start | Lv_new nat | Lv_stop_conn nat | Lv_accept_failed | Lv_stop

record server =
  sv_conns :: "nat \<rightharpoonup> connection"
  sv_clients :: client_map
  sv_count :: size_t
  sv_working :: bool
  sv_accepting :: bool
  sv_events :: "listener_event list"

definition server_new :: server where
  "server_new = \<lparr> sv_conns = Map.empty, sv_clients = {}, sv_count = 0, sv_working = False, sv_accepting = False,
     sv_events = [] \<rparr>"

definition sv_signal :: "listener_event \<Rightarrow> server \<Rightarrow> server" where
  "sv_signal ev s = s\<lparr> sv_events := sv_events s @ [ev] \<rparr>"

definition new_connection :: "nat \<Rightarrow> server \<Rightarrow> server" where
  "new_connection c s = sv_signal (Lv_new c) (s\<lparr> sv_count := sv_count s + 1 \<rparr>)"

definition stop_connection :: "nat \<Rightarrow> server \<Rightarrow> server" where
  "stop_connection c s = sv_signal (Lv_stop_conn c) (s\<lparr> sv_count := sv_count s - 1 \<rparr>)"

definition start_accept :: "server \<Rightarrow> server" where
  "start_accept s = s\<lparr> sv_accepting := True \<rparr>"

definition listener_start :: "server \<Rightarrow> server" where
  "listener_start s = sv_signal Lv_start ((start_accept s)\<lparr> sv_working := True \<rparr>)"

text \<open>Closing the acceptor ends the accept in progress with an error.\<close>

definition listener_stop :: "server \<Rightarrow> server" where
  "listener_stop s = s\<lparr> sv_working := False \<rparr>"

text \<open>\<open>close\<close> of the transport, with the connection's \<open>on_close\<close>: the first call closes the protocol,
  tells the listener and closes the handle.\<close>

definition conn_close :: "nat \<Rightarrow> server \<Rightarrow> server" where
  "conn_close c s =
     (case sv_conns s c of
        None \<Rightarrow> s
      | Some k \<Rightarrow>
          if \<not> cn_closed k
          then stop_connection c
                 (s\<lparr> sv_conns := (sv_conns s)
                       (c \<mapsto> k\<lparr> cn_closed := True, cn_on_close := Suc (cn_on_close k), cn_handle_open := False \<rparr>) \<rparr>)
          else s)"

definition conn_upd :: "nat \<Rightarrow> (connection \<Rightarrow> connection) \<Rightarrow> server \<Rightarrow> server" where
  "conn_upd c f s =
     (case sv_conns s c of None \<Rightarrow> s | Some k \<Rightarrow> s\<lparr> sv_conns := (sv_conns s)(c \<mapsto> f k) \<rparr>)"

definition start_reading :: "nat \<Rightarrow> server \<Rightarrow> server" where
  "start_reading c = conn_upd c (\<lambda>k. k\<lparr> cn_reading := True \<rparr>)"

definition close_drop :: "nat \<Rightarrow> server \<Rightarrow> server" where
  "close_drop c s = (let s = conn_close c s in s\<lparr> sv_clients := cl_drop c (sv_clients s) \<rparr>)"

datatype read_outcome = Read_data | Read_raises | Read_error

text \<open>The read handler; the operation that called it is over. In both failures the protocol's
  \<open>on_read_error\<close> runs first, which touches only the calls of that connection.\<close>

definition read_handler :: "nat \<Rightarrow> read_outcome \<Rightarrow> server \<Rightarrow> server" where
  "read_handler c out s =
     (let s = conn_upd c (\<lambda>k. k\<lparr> cn_reading := False \<rparr>) s in
      case out of
        Read_data \<Rightarrow> start_reading c s
      | Read_raises \<Rightarrow> close_drop c s
      | Read_error \<Rightarrow> close_drop c s)"

definition conn_write_error :: "nat \<Rightarrow> server \<Rightarrow> server" where
  "conn_write_error c s = conn_close c s"

text \<open>How far the body of \<open>on_accept\<close> gets before something raises.\<close>

datatype accept_outcome = Accept_ok | Setup_raises | Init_raises

definition on_accept :: "accept_outcome \<Rightarrow> nat \<Rightarrow> server \<Rightarrow> server" where
  "on_accept out c s =
     start_accept
       (case out of
          Setup_raises \<Rightarrow> s\<lparr> sv_clients := cl_drop c (sv_clients s) \<rparr>
        | Accept_ok \<Rightarrow>
            new_connection c (s\<lparr> sv_conns := (sv_conns s)(c \<mapsto> connection_new), sv_clients := cl_store c (sv_clients s) \<rparr>)
        | Init_raises \<Rightarrow>
            (let s = new_connection c (s\<lparr> sv_clients := cl_store c (sv_clients s) \<rparr>)
             in s\<lparr> sv_clients := cl_drop c (sv_clients s) \<rparr>))"

definition on_accept_error :: "server \<Rightarrow> server" where
  "on_accept_error s =
     (let s = s\<lparr> sv_accepting := False \<rparr> in
      if sv_working s then sv_signal Lv_accept_failed (listener_stop s) else sv_signal Lv_stop s)"

definition close_all_connection :: "nat \<Rightarrow> server \<Rightarrow> server \<times> bool" where
  "close_all_connection c s = (conn_close c s, True)"

definition stop_all_clients :: "server \<Rightarrow> server" where
  "stop_all_clients s = fst (foreach_while close_all_connection (sv_clients s) s)"

subsection \<open>Steps\<close>

text \<open>\<open>Sv_destroy\<close>: the last pointer to a connection outside the list is gone. \<open>Sv_close\<close>: the
  application, the handshake or a timer closes a connection.\<close>

inductive sv_step :: "server \<Rightarrow> server \<Rightarrow> bool" where
  Sv_start: "sv_step s (listener_start s)"
| Sv_stop: "sv_step s (listener_stop s)"
| Sv_accept: "sv_accepting s \<Longrightarrow> c \<notin> dom (sv_conns s) \<Longrightarrow> out \<noteq> Init_raises \<Longrightarrow> sv_step s (on_accept out c s)"
| Sv_accept_error: "sv_accepting s \<Longrightarrow> sv_step s (on_accept_error s)"
| Sv_started: "c \<in> dom (sv_conns s) \<Longrightarrow> sv_step s (start_reading c s)"
| Sv_read: "sv_conns s c = Some k \<Longrightarrow> cn_reading k \<Longrightarrow> sv_step s (read_handler c out s)"
| Sv_write_error: "c \<in> dom (sv_conns s) \<Longrightarrow> sv_step s (conn_write_error c s)"
| Sv_close: "c \<in> dom (sv_conns s) \<Longrightarrow> sv_step s (conn_close c s)"
| Sv_stop_all: "sv_step s (stop_all_clients s)"
| Sv_destroy: "c \<in> dom (sv_conns s) \<Longrightarrow> c \<notin> sv_clients s \<Longrightarrow>
    sv_step s (s\<lparr> sv_conns := (sv_conns s)(c := None) \<rparr>)"

inductive sv_reach :: "server \<Rightarrow> bool" where
  reach_new: "sv_reach server_new"
| reach_step: "sv_reach s \<Longrightarrow> sv_step s s' \<Longrightarrow> sv_reach s'"

subsection \<open>The invariant\<close>

definition opened :: "server \<Rightarrow> nat set" where
  "opened s = {c. \<exists>k. sv_conns s c = Some k \<and> \<not> cn_closed k}"

fun conn_ok :: "connection option \<Rightarrow> bool" where
  "conn_ok None \<longleftrightarrow> True"
| "conn_ok (Some k) \<longleftrightarrow> cn_on_close k = of_bool (cn_closed k) \<and> cn_handle_open k = (\<not> cn_closed k)"

definition sv_inv :: "server \<Rightarrow> bool" where
  "sv_inv s \<longleftrightarrow> finite (dom (sv_conns s)) \<and> sv_clients s \<subseteq> dom (sv_conns s) \<and> opened s \<subseteq> sv_clients s
     \<and> sv_count s = of_nat (card (opened s)) \<and> (\<forall>c. conn_ok (sv_conns s c))"

lemma opened_finite: "finite (dom (sv_conns s)) \<Longrightarrow> finite (opened s)"
  by (rule finite_subset [of _ "dom (sv_conns s)"]) (auto simp: opened_def)

lemma server_upd_simps [simp]:
  "sv_conns (sv_signal ev s) = sv_conns s" "sv_clients (sv_signal ev s) = sv_clients s"
  "sv_count (sv_signal ev s) = sv_count s"
  "opened (sv_signal ev s) = opened s" "opened (s\<lparr> sv_clients := m \<rparr>) = opened s"
  "opened (s\<lparr> sv_count := n \<rparr>) = opened s" "opened (s\<lparr> sv_accepting := b \<rparr>) = opened s" "opened (s\<lparr> sv_working := b \<rparr>) = opened s"
  by (simp_all add: sv_signal_def opened_def)

lemma conn_close_inv:
  assumes "sv_inv s"
  shows "sv_inv (conn_close c s)" "opened (conn_close c s) = opened s - {c}"
    "sv_clients (conn_close c s) = sv_clients s" "dom (sv_conns (conn_close c s)) = dom (sv_conns s)"
proof -
  show o: "opened (conn_close c s) = opened s - {c}"
    by (auto simp: conn_close_def opened_def stop_connection_def split: option.splits if_splits)
  show cl: "sv_clients (conn_close c s) = sv_clients s"
    by (simp add: conn_close_def stop_connection_def split: option.splits)
  show d: "dom (sv_conns (conn_close c s)) = dom (sv_conns s)"
    by (auto simp: conn_close_def stop_connection_def split: option.splits if_splits)
  have fin: "finite (opened s)" using assms opened_finite by (simp add: sv_inv_def)
  have cnt: "sv_count (conn_close c s) = of_nat (card (opened s - {c}))"
  proof (cases "c \<in> opened s")
    case True
    then have "sv_count (conn_close c s) = sv_count s - 1"
      by (auto simp: conn_close_def opened_def stop_connection_def)
    moreover have "card (opened s) = Suc (card (opened s - {c}))" using fin True by (metis card.remove)
    ultimately show ?thesis using assms by (simp add: sv_inv_def)
  next
    case False
    then have "sv_count (conn_close c s) = sv_count s"
      by (auto simp: conn_close_def opened_def split: option.splits)
    with False assms show ?thesis by (simp add: sv_inv_def)
  qed
  have "conn_ok (sv_conns (conn_close c s) b)" for b
    using assms by (auto simp: sv_inv_def conn_close_def stop_connection_def split: option.splits if_splits)
      (metis conn_ok.simps(2) of_bool_eq(1))+
  then show "sv_inv (conn_close c s)" using assms o cl d cnt by (auto simp: sv_inv_def)
qed

lemma inv_upd [inv_intros]:
  assumes "sv_inv s" and "\<And>k. cn_closed (f k) = cn_closed k \<and> cn_on_close (f k) = cn_on_close k \<and> cn_handle_open (f k) = cn_handle_open k"
  shows "sv_inv (conn_upd c f s)"
proof -
  have f: "cn_closed (f k) = cn_closed k" "cn_on_close (f k) = cn_on_close k" "cn_handle_open (f k) = cn_handle_open k" for k
    using assms(2) by simp_all
  have "opened (conn_upd c f s) = opened s"
    by (cases "sv_conns s c") (auto simp: conn_upd_def opened_def f)
  moreover have "dom (sv_conns (conn_upd c f s)) = dom (sv_conns s)"
    "sv_clients (conn_upd c f s) = sv_clients s" "sv_count (conn_upd c f s) = sv_count s"
    by (cases "sv_conns s c"; force simp: conn_upd_def)+
  moreover have "conn_ok (sv_conns (conn_upd c f s) b)" for b
  proof -
    have "conn_ok (sv_conns s b)" using assms(1) by (simp add: sv_inv_def)
    then show ?thesis by (cases "sv_conns s c"; cases "sv_conns s b"; cases "b = c") (simp_all add: conn_upd_def f)
  qed
  ultimately show ?thesis using assms(1) by (simp add: sv_inv_def)
qed

lemma inv_fold_close:
  assumes "sv_inv s"
  shows "sv_inv (fold conn_close cs s) \<and> opened (fold conn_close cs s) = opened s - set cs"
  using assms
proof (induction cs arbitrary: s)
  case (Cons c cs)
  from Cons.IH [OF conn_close_inv(1) [OF Cons.prems, of c]] conn_close_inv(2) [OF Cons.prems, of c] show ?case by auto
qed simp

lemma stop_all_fold: "stop_all_clients s = fold conn_close (sorted_list_of_set (sv_clients s)) s"
proof -
  have "(\<lambda>c s. fst (close_all_connection c s)) = conn_close" by (simp add: fun_eq_iff close_all_connection_def)
  then show ?thesis
    by (simp add: stop_all_clients_def foreach_while_def foreach_loop_all close_all_connection_def)
qed

lemma clients_finite: "sv_inv s \<Longrightarrow> finite (sv_clients s)"
  by (auto simp: sv_inv_def intro: finite_subset)

lemma inv_stop_all:
  assumes "sv_inv s"
  shows "sv_inv (stop_all_clients s)" "opened (stop_all_clients s) = {}"
  using inv_fold_close [OF assms, of "sorted_list_of_set (sv_clients s)"] assms clients_finite [OF assms]
  by (auto simp: stop_all_fold sv_inv_def)

lemma inv_accept [inv_intros]:
  assumes "sv_inv s" and "c \<notin> dom (sv_conns s)" and "out \<noteq> Init_raises"
  shows "sv_inv (on_accept out c s)"
proof (cases out)
  case Accept_ok
  have fin: "finite (opened s)" "c \<notin> opened s" using assms(1,2) opened_finite by (auto simp: sv_inv_def opened_def)
  let ?s = "on_accept Accept_ok c s"
  have conns: "sv_conns ?s = (sv_conns s)(c \<mapsto> connection_new)" "sv_clients ?s = insert c (sv_clients s)"
    "sv_count ?s = sv_count s + 1"
    by (simp_all add: on_accept_def start_accept_def new_connection_def cl_store_def)
  then have "opened ?s = insert c (opened s)" using assms(2) by (auto simp: opened_def connection_new_def)
  moreover have "conn_ok (sv_conns ?s b)" for b
    using assms(1) conns(1) by (auto simp: sv_inv_def connection_new_def)
  ultimately show ?thesis using Accept_ok assms(1) conns fin by (auto simp: sv_inv_def)
next
  case Setup_raises
  have "c \<notin> sv_clients s" using assms(1,2) by (auto simp: sv_inv_def)
  then show ?thesis using Setup_raises assms(1)
    by (simp add: on_accept_def start_accept_def sv_inv_def cl_drop_def opened_def)
qed (use assms(3) in simp)

lemma inv_close_drop [inv_intros]:
  assumes "sv_inv s"
  shows "sv_inv (close_drop c s)"
proof -
  have cl: "sv_clients (close_drop c s) = sv_clients s - {c}" "sv_conns (close_drop c s) = sv_conns (conn_close c s)"
    "sv_count (close_drop c s) = sv_count (conn_close c s)" "opened (close_drop c s) = opened s - {c}"
    using conn_close_inv(2,3) [OF assms, of c] by (simp_all add: close_drop_def cl_drop_def Let_def)
  have "opened s - {c} \<subseteq> sv_clients s - {c}" "sv_clients s - {c} \<subseteq> dom (sv_conns s)" using assms by (auto simp: sv_inv_def)
  with cl conn_close_inv(1,2,4) [OF assms, of c] show ?thesis by (simp add: sv_inv_def)
qed

lemma inv_destroy [inv_intros]:
  assumes "sv_inv s" and "c \<notin> sv_clients s"
  shows "sv_inv (s\<lparr> sv_conns := (sv_conns s)(c := None) \<rparr>)"
proof -
  have "c \<notin> opened s" using assms by (auto simp: sv_inv_def)
  then have "opened (s\<lparr> sv_conns := (sv_conns s)(c := None) \<rparr>) = opened s" by (auto simp: opened_def)
  with assms show ?thesis by (auto simp: sv_inv_def)
qed

lemma inv_step: "sv_step s s' \<Longrightarrow> sv_inv s \<Longrightarrow> sv_inv s'"
proof (induction rule: sv_step.induct)
  case (Sv_read s c k out)
  have "sv_inv (conn_upd c (\<lambda>k. k\<lparr> cn_reading := False \<rparr>) s)" by (rule inv_upd) (use Sv_read in auto)
  then show ?case
    by (auto simp: read_handler_def start_reading_def Let_def intro: inv_intros split: read_outcome.splits)
next
  case (Sv_started c s)
  then show ?case unfolding start_reading_def by (intro inv_upd) auto
next
  case (Sv_accept_error s)
  then show ?case by (simp add: on_accept_error_def listener_stop_def sv_inv_def Let_def)
next
  case (Sv_start s)
  then show ?case by (simp add: listener_start_def start_accept_def sv_inv_def)
next
  case (Sv_stop s)
  then show ?case by (simp add: listener_stop_def sv_inv_def)
next
  case (Sv_write_error c s)
  then show ?case by (simp add: conn_write_error_def conn_close_inv)
qed (auto intro: inv_intros conn_close_inv(1) inv_stop_all(1))

lemma inv_reach: "sv_reach s \<Longrightarrow> sv_inv s"
proof (induction rule: sv_reach.induct)
  case reach_new
  show ?case by (simp add: sv_inv_def server_new_def opened_def)
next
  case (reach_step s s')
  then show ?case by (auto intro: inv_step)
qed

text \<open>
  C19. As long as \<open>init\<close> of a new connection does not raise, the listener's count of clients is
  the number of connections that are open; every open connection is held by the list of clients, so
  that it is not destroyed; and each connection has told the listener and closed its protocol and its
  handle exactly once when it is closed, and never before.
\<close>

theorem client_count_exact:
  assumes "sv_reach s"
  shows "sv_count s = of_nat (card (opened s)) \<and> opened s \<subseteq> sv_clients s
           \<and> (\<forall>c k. sv_conns s c = Some k \<longrightarrow> cn_on_close k = of_bool (cn_closed k) \<and> cn_handle_open k = (\<not> cn_closed k))"
proof -
  have inv: "sv_inv s" using assms by (rule inv_reach)
  have "cn_on_close k = of_bool (cn_closed k) \<and> cn_handle_open k = (\<not> cn_closed k)" if "sv_conns s c = Some k" for c k
  proof -
    have "conn_ok (sv_conns s c)" using inv by (simp add: sv_inv_def)
    with that show ?thesis by simp
  qed
  with inv show ?thesis by (simp add: sv_inv_def)
qed

text \<open>
  \<open>stop_all_clients\<close> closes every open connection, whatever happened before, and the count of
  clients is zero afterwards.
\<close>

theorem stop_all_closes_everything:
  assumes "sv_reach s"
  shows "opened (stop_all_clients s) = {} \<and> sv_count (stop_all_clients s) = 0"
proof -
  have "sv_inv (stop_all_clients s)" "opened (stop_all_clients s) = {}"
    using inv_stop_all [OF inv_reach [OF assms]] by simp_all
  then show ?thesis by (simp add: sv_inv_def)
qed

text \<open>Two clients, the second of which meets a read error.\<close>

definition example_server :: server where
  "example_server =
     read_handler 8 Read_error (start_reading 8 (on_accept Accept_ok 8 (on_accept Accept_ok 4 (listener_start server_new))))"

lemma example_reach: "sv_reach example_server"
proof -
  let ?s1 = "listener_start server_new"
  let ?s2 = "on_accept Accept_ok 4 ?s1"
  let ?s3 = "on_accept Accept_ok 8 ?s2"
  note defs = listener_start_def start_accept_def server_new_def on_accept_def new_connection_def sv_signal_def
    start_reading_def conn_upd_def connection_new_def
  have "sv_reach ?s1" by (rule reach_step [OF reach_new Sv_start])
  then have "sv_reach ?s2" by (rule reach_step) (rule Sv_accept, simp_all add: defs)
  then have "sv_reach ?s3" by (rule reach_step) (rule Sv_accept, simp_all add: defs)
  then have "sv_reach (start_reading 8 ?s3)" by (rule reach_step) (rule Sv_started, simp add: defs)
  then show ?thesis unfolding example_server_def
    by (rule reach_step) (rule Sv_read [of _ _ "connection_new\<lparr> cn_reading := True \<rparr>"], simp_all add: defs)
qed

lemma example_opened: "opened example_server = {4}" "sv_clients example_server = {4}"
  by (auto simp: example_server_def opened_def read_handler_def close_drop_def conn_close_def stop_connection_def
      listener_start_def start_accept_def server_new_def on_accept_def new_connection_def sv_signal_def
      start_reading_def conn_upd_def connection_new_def cl_drop_def cl_store_def split: if_splits)

theorem client_count_exact_witness: "sv_count example_server = 1 \<and> opened example_server = {4}"
  using client_count_exact [OF example_reach] by (simp add: example_opened)

theorem stop_all_closes_everything_witness:
  "opened example_server \<noteq> {} \<and> opened (stop_all_clients example_server) = {}"
  using stop_all_closes_everything [OF example_reach] by (simp add: example_opened)

text \<open>When \<open>init\<close> raises, the new connection is dropped but stays counted, and no later step corrects it.\<close>

lemma init_failure_leaks_count:
  assumes "sv_inv s" and "c \<notin> dom (sv_conns s)"
  shows "sv_count (on_accept Init_raises c s) = of_nat (Suc (card (opened (on_accept Init_raises c s))))"
    and "Lv_new c \<in> set (sv_events (on_accept Init_raises c s))"
proof -
  have "opened (on_accept Init_raises c s) = opened s"
    by (simp add: on_accept_def start_accept_def new_connection_def opened_def sv_signal_def Let_def)
  then show "sv_count (on_accept Init_raises c s) = of_nat (Suc (card (opened (on_accept Init_raises c s))))"
    using assms(1) by (simp add: on_accept_def start_accept_def new_connection_def sv_inv_def sv_signal_def Let_def)
  show "Lv_new c \<in> set (sv_events (on_accept Init_raises c s))"
    by (simp add: on_accept_def start_accept_def new_connection_def sv_signal_def Let_def)
qed

subsection \<open>The custom listener\<close>

text \<open>
  A listener without an acceptor (\<open>listener/custom.cpp\<close>): the program makes the connections, and hands each to
  \<open>init_protocol\<close> and, when it ends, to \<open>stop_client\<close>. Whether \<open>init\<close> raises is an argument; the protocol it
  returns is that of the other listeners.
\<close>

definition custom_start :: "server \<Rightarrow> server" where
  "custom_start s = s\<lparr> sv_working := True \<rparr>"

definition custom_stop :: "server \<Rightarrow> server" where
  "custom_stop s = s\<lparr> sv_working := False \<rparr>"

definition custom_init_protocol :: "exn + unit \<Rightarrow> nat \<Rightarrow> server \<Rightarrow> server \<times> (exn + unit)" where
  "custom_init_protocol init c s =
     (let s = new_connection c (s\<lparr> sv_clients := cl_store c (sv_clients s) \<rparr>) in
      case init of
        Inl e \<Rightarrow> (s\<lparr> sv_clients := cl_drop c (sv_clients s) \<rparr>, Inl e)
      | Inr _ \<Rightarrow> (s, Inr ()))"

definition custom_stop_client :: "nat \<Rightarrow> server \<Rightarrow> server" where
  "custom_stop_client c s = (let s = stop_connection c s in s\<lparr> sv_clients := cl_drop c (sv_clients s) \<rparr>)"

lemmas custom_defs = custom_start_def custom_stop_def custom_init_protocol_def custom_stop_client_def new_connection_def
  stop_connection_def sv_signal_def cl_store_def cl_drop_def

datatype custom_act = Custom_start | Custom_stop | Custom_init "exn + unit" nat | Custom_stop_client nat

fun custom_run :: "custom_act \<Rightarrow> server \<Rightarrow> server" where
  "custom_run Custom_start s = custom_start s"
| "custom_run Custom_stop s = custom_stop s"
| "custom_run (Custom_init init c) s = fst (custom_init_protocol init c s)"
| "custom_run (Custom_stop_client c) s = custom_stop_client c s"

text \<open>What the program has to keep: each connection is new when it comes, is stopped once, and \<open>init\<close> does not raise.\<close>

fun custom_use :: "custom_act \<Rightarrow> server \<Rightarrow> bool" where
  "custom_use (Custom_init init c) s \<longleftrightarrow> init = Inr () \<and> c \<notin> sv_clients s"
| "custom_use (Custom_stop_client c) s \<longleftrightarrow> c \<in> sv_clients s"
| "custom_use _ s \<longleftrightarrow> True"

inductive custom_reach :: "server \<Rightarrow> bool" where
  Custom_new: "custom_reach server_new"
| Custom_act: "custom_reach s \<Longrightarrow> custom_use act s \<Longrightarrow> custom_reach (custom_run act s)"

definition custom_inv :: "server \<Rightarrow> bool" where
  "custom_inv s \<longleftrightarrow> finite (sv_clients s) \<and> sv_count s = of_nat (card (sv_clients s))"

lemma custom_inv_act: "custom_inv s \<Longrightarrow> custom_use act s \<Longrightarrow> custom_inv (custom_run act s)"
proof (cases act)
  case (Custom_stop_client c)
  assume s: "custom_inv s" and "custom_use act s"
  then have "card (sv_clients s) = Suc (card (sv_clients s - {c}))"
    using Custom_stop_client by (metis card.remove custom_inv_def custom_use.simps(2))
  with Custom_stop_client s \<open>custom_use act s\<close> show ?thesis by (simp add: custom_inv_def custom_defs Let_def)
qed (auto simp: custom_inv_def custom_defs Let_def)

text \<open>A program that uses the custom listener in this way finds its clients in the list and counted exactly.\<close>

theorem custom_count_exact:
  assumes "custom_reach s" shows "finite (sv_clients s) \<and> sv_count s = of_nat (card (sv_clients s))"
proof -
  have "custom_inv s" using assms
  proof (induction rule: custom_reach.induct)
    case Custom_new
    show ?case by (simp add: custom_inv_def server_new_def)
  next
    case (Custom_act s act)
    then show ?case by (blast intro: custom_inv_act)
  qed
  then show ?thesis by (simp add: custom_inv_def)
qed

text \<open>Outside of it the count is off: a failed \<open>init\<close> stays counted, and a client that is stopped twice is
  counted down twice.\<close>

lemma custom_init_failure_leaks_count:
  assumes "c \<notin> sv_clients s"
  shows "sv_clients (fst (custom_init_protocol (Inl e) c s)) = sv_clients s"
    "sv_count (fst (custom_init_protocol (Inl e) c s)) = sv_count s + 1"
  using assms by (simp_all add: custom_defs Let_def)

lemma custom_stop_twice_wraps:
  "sv_count (custom_stop_client c (custom_stop_client c (fst (custom_init_protocol (Inr ()) c server_new)))) = - 1"
  by (simp add: custom_defs server_new_def Let_def)

end
