(* ===== verification/Linked_List.thy ===== *)
theory Linked_List
  imports Prelude "HOL-Library.Monad_Syntax"
begin

text \<open>
  The doubly linked list of \<open>include/vtrc/common/details/list.h\<close>, on an explicit heap: nodes live at
  addresses, the null pointer is \<open>None\<close>, and an access to an address that holds no node gives \<open>None\<close>.
  Two lists may live in one heap, since \<open>splice_back\<close> moves the nodes of one to the other. The
  address of a new node is an argument, the allocator's choice.

  \<open>repr h l rs\<close> says that the list object \<open>l\<close> represents the sequence \<open>rs\<close> of addresses and values.
  Each operation is shown to be the operation on sequences, to touch no node of another list, and
  never to follow a dangling pointer.
\<close>

subsection \<open>Nodes and lists\<close>

type_synonym addr = nat

record 'a node =
  nd_prev :: "addr option"
  nd_next :: "addr option"
  nd_data :: 'a

type_synonym 'a heap = "addr \<rightharpoonup> 'a node"

record dlist =
  l_front :: "addr option"
  l_back :: "addr option"
  l_size :: "64 word"

type_synonym itr = "addr option"

definition list_new :: dlist where
  "list_new = \<lparr> l_front = None, l_back = None, l_size = 0 \<rparr>"

definition list_begin :: "dlist \<Rightarrow> itr" where
  "list_begin l = l_front l"

definition list_rbegin :: "dlist \<Rightarrow> itr" where
  "list_rbegin l = l_back l"

definition list_end :: "dlist \<Rightarrow> itr" where
  "list_end l = None"

definition itr_get :: "'a heap \<Rightarrow> itr \<Rightarrow> 'a option" where
  "itr_get h i = do { r \<leftarrow> i; n \<leftarrow> h r; Some (nd_data n) }"

definition itr_inc :: "'a heap \<Rightarrow> itr \<Rightarrow> itr option" where
  "itr_inc h i = do { r \<leftarrow> i; n \<leftarrow> h r; Some (nd_next n) }"

definition itr_dec :: "'a heap \<Rightarrow> itr \<Rightarrow> itr option" where
  "itr_dec h i = do { r \<leftarrow> i; n \<leftarrow> h r; Some (nd_prev n) }"

definition store_next :: "itr \<Rightarrow> addr \<Rightarrow> 'a heap \<Rightarrow> 'a heap option" where
  "store_next v r h = map_option (\<lambda>n. h(r \<mapsto> n\<lparr> nd_next := v \<rparr>)) (h r)"

definition store_prev :: "itr \<Rightarrow> addr \<Rightarrow> 'a heap \<Rightarrow> 'a heap option" where
  "store_prev v r h = map_option (\<lambda>n. h(r \<mapsto> n\<lparr> nd_prev := v \<rparr>)) (h r)"

text \<open>The guarded assignments of \<open>cerase\<close>: a neighbour that is null is left alone.\<close>

definition link_next :: "itr \<Rightarrow> itr \<Rightarrow> 'a heap \<Rightarrow> 'a heap option" where
  "link_next v p h = (case p of None \<Rightarrow> Some h | Some r \<Rightarrow> store_next v r h)"

definition link_prev :: "itr \<Rightarrow> itr \<Rightarrow> 'a heap \<Rightarrow> 'a heap option" where
  "link_prev v p h = (case p of None \<Rightarrow> Some h | Some r \<Rightarrow> store_prev v r h)"

subsection \<open>Operations\<close>

definition cerase :: "'a heap \<Rightarrow> dlist \<Rightarrow> addr \<Rightarrow> ('a heap \<times> dlist) option" where
  "cerase h l r = do {
     n \<leftarrow> h r;
     h \<leftarrow> link_next (nd_next n) (nd_prev n) h;
     n \<leftarrow> h r;
     h \<leftarrow> link_prev (nd_prev n) (nd_next n) h;
     n \<leftarrow> h r;
     let l = (if Some r = l_back l then l\<lparr> l_back := nd_prev n \<rparr> else l);
     let l = (if Some r = l_front l then l\<lparr> l_front := nd_next n \<rparr> else l);
     Some (h(r := None), l\<lparr> l_size := l_size l - 1 \<rparr>) }"

definition list_erase :: "'a heap \<Rightarrow> dlist \<Rightarrow> itr \<Rightarrow> ('a heap \<times> dlist \<times> itr) option" where
  "list_erase h l i =
     (case i of
        None \<Rightarrow> Some (h, l, i)
      | Some r \<Rightarrow> do { tmp \<leftarrow> itr_inc h i; (h, l) \<leftarrow> cerase h l r; Some (h, l, tmp) })"

definition list_rerase :: "'a heap \<Rightarrow> dlist \<Rightarrow> itr \<Rightarrow> ('a heap \<times> dlist \<times> itr) option" where
  "list_rerase h l i =
     (case i of
        None \<Rightarrow> Some (h, l, i)
      | Some r \<Rightarrow> do { tmp \<leftarrow> itr_dec h i; (h, l) \<leftarrow> cerase h l r; Some (h, l, tmp) })"

definition list_push_back :: "'a heap \<Rightarrow> dlist \<Rightarrow> addr \<Rightarrow> 'a \<Rightarrow> ('a heap \<times> dlist) option" where
  "list_push_back h l r x =
     (let h = h(r \<mapsto> \<lparr> nd_prev = None, nd_next = None, nd_data = x \<rparr>) in
      if l_front l \<noteq> None then do {
        h \<leftarrow> store_prev (l_back l) r h;
        b \<leftarrow> l_back l;
        h \<leftarrow> store_next (Some r) b h;
        Some (h, l\<lparr> l_back := Some r, l_size := l_size l + 1 \<rparr>) }
      else Some (h, l\<lparr> l_back := Some r, l_front := Some r, l_size := l_size l + 1 \<rparr>))"

definition list_push_front :: "'a heap \<Rightarrow> dlist \<Rightarrow> addr \<Rightarrow> 'a \<Rightarrow> ('a heap \<times> dlist) option" where
  "list_push_front h l r x =
     (let h = h(r \<mapsto> \<lparr> nd_prev = None, nd_next = None, nd_data = x \<rparr>) in
      if l_front l \<noteq> None then do {
        h \<leftarrow> store_next (l_front l) r h;
        f \<leftarrow> l_front l;
        h \<leftarrow> store_prev (Some r) f h;
        Some (h, l\<lparr> l_front := Some r, l_size := l_size l + 1 \<rparr>) }
      else Some (h, l\<lparr> l_back := Some r, l_front := Some r, l_size := l_size l + 1 \<rparr>))"

text \<open>The argument is another list object than the receiver; on the same object \<open>splice_back\<close> does
  nothing.\<close>

definition splice_back :: "'a heap \<Rightarrow> dlist \<Rightarrow> dlist \<Rightarrow> ('a heap \<times> dlist \<times> dlist) option" where
  "splice_back h l other = do {
     (h, l) \<leftarrow>
       (if l_front l = None then Some (h, l\<lparr> l_front := l_front other, l_back := l_back other \<rparr>)
        else (case l_front other of
                None \<Rightarrow> Some (h, l)
              | Some f \<Rightarrow> do {
                  b \<leftarrow> l_back l;
                  h \<leftarrow> store_next (Some f) b h;
                  h \<leftarrow> store_prev (l_back l) f h;
                  Some (h, l\<lparr> l_back := l_back other \<rparr>) }));
     Some (h, l\<lparr> l_size := l_size l + l_size other \<rparr>, other\<lparr> l_front := None, l_back := None, l_size := 0 \<rparr>) }"

definition list_swap :: "dlist \<Rightarrow> dlist \<Rightarrow> dlist \<times> dlist" where
  "list_swap l other = (other, l)"

text \<open>\<open>clear\<close> deletes the nodes and resets the two ends, but not the size.\<close>

partial_function (option) clear_loop :: "'a heap \<Rightarrow> itr \<Rightarrow> 'a heap option" where
  "clear_loop h p =
     (case p of
        None \<Rightarrow> Some h
      | Some r \<Rightarrow> do { n \<leftarrow> h r; clear_loop (h(r := None)) (nd_next n) })"

definition list_clear :: "'a heap \<Rightarrow> dlist \<Rightarrow> ('a heap \<times> dlist) option" where
  "list_clear h l = do { h \<leftarrow> clear_loop h (l_front l); Some (h, l\<lparr> l_front := None, l_back := None \<rparr>) }"

text \<open>The constructor from a range, with the addresses of the nodes it makes.\<close>

fun push_all :: "'a heap \<Rightarrow> dlist \<Rightarrow> (addr \<times> 'a) list \<Rightarrow> ('a heap \<times> dlist) option" where
  "push_all h l [] = Some (h, l)"
| "push_all h l ((r, x) # rs) = do { (h, l) \<leftarrow> list_push_back h l r x; push_all h l rs }"

definition list_of_range :: "'a heap \<Rightarrow> (addr \<times> 'a) list \<Rightarrow> ('a heap \<times> dlist) option" where
  "list_of_range h rs = push_all h list_new rs"

subsection \<open>What a list object represents\<close>

definition hd_ref :: "itr \<Rightarrow> (addr \<times> 'a) list \<Rightarrow> itr" where
  "hd_ref e rs = (case rs of [] \<Rightarrow> e | (r, _) # _ \<Rightarrow> Some r)"

definition last_ref :: "itr \<Rightarrow> (addr \<times> 'a) list \<Rightarrow> itr" where
  "last_ref e rs = (if rs = [] then e else Some (fst (last rs)))"

fun seg :: "'a heap \<Rightarrow> itr \<Rightarrow> (addr \<times> 'a) list \<Rightarrow> itr \<Rightarrow> bool" where
  "seg h p [] e \<longleftrightarrow> True"
| "seg h p ((r, x) # rs) e \<longleftrightarrow>
     h r = Some \<lparr> nd_prev = p, nd_next = hd_ref e rs, nd_data = x \<rparr> \<and> seg h (Some r) rs e"

definition refs :: "(addr \<times> 'a) list \<Rightarrow> addr set" where
  "refs rs = fst ` set rs"

definition repr :: "'a heap \<Rightarrow> dlist \<Rightarrow> (addr \<times> 'a) list \<Rightarrow> bool" where
  "repr h l rs \<longleftrightarrow> seg h None rs None \<and> distinct (map fst rs)
     \<and> l_front l = hd_ref None rs \<and> l_back l = last_ref None rs \<and> l_size l = of_nat (length rs)"

lemma ref_simps [simp]:
  "hd_ref e [] = e" "hd_ref e ((r, x) # rs) = Some r" "last_ref e [] = e"
  "hd_ref e (xs @ ys) = hd_ref (hd_ref e ys) xs" "last_ref e (xs @ ys) = last_ref (last_ref e xs) ys"
  "last_ref e (y # ys) = last_ref (Some (fst y)) ys"
  by (auto simp: hd_ref_def last_ref_def split: list.splits)

lemma ref_Some [simp]: "hd_ref (Some r) rs \<noteq> None" "last_ref (Some r) rs \<noteq> None"
  by (auto simp: hd_ref_def last_ref_def split: list.splits)

lemma refs_simps [simp]:
  "refs [] = {}" "refs ((r, x) # rs) = insert r (refs rs)" "refs (xs @ ys) = refs xs \<union> refs ys"
  by (auto simp: refs_def)

lemma seg_append [simp]:
  "seg h p (xs @ ys) e \<longleftrightarrow> seg h p xs (hd_ref e ys) \<and> seg h (last_ref p xs) ys e"
proof (induction xs arbitrary: p)
  case (Cons y xs)
  then show ?case by (cases y) simp
qed simp

lemma seg_frame: "seg h p rs e \<Longrightarrow> (\<And>r. r \<in> refs rs \<Longrightarrow> h' r = h r) \<Longrightarrow> seg h' p rs e"
  by (induction rs arbitrary: p) auto

lemma seg_upd_other [simp]: "r \<notin> refs rs \<Longrightarrow> seg (h(r := v)) p rs e = seg h p rs e"
  by (induction rs arbitrary: p) auto

lemma refs_fst: "refs rs = set (map fst rs)"
  by (simp add: refs_def)

lemma repr_frame:
  assumes "repr h l rs" and "\<And>r. r \<in> refs rs \<Longrightarrow> h' r = h r"
  shows "repr h' l rs"
  using assms seg_frame [of h None rs None h'] by (simp add: repr_def)

subsection \<open>The operations on sequences\<close>

lemma repr_new [simp]: "repr h list_new []"
  by (simp add: repr_def list_new_def)

lemma seg_relink_end:
  assumes "seg h p rs e" and "distinct (map fst rs)"
  shows "\<exists>h'. link_next e' (last_ref None rs) h = Some h'
    \<and> seg h' p rs e' \<and> (\<forall>q. q \<notin> refs rs \<longrightarrow> h' q = h q)"
proof (cases rs rule: rev_cases)
  case (snoc xs y)
  obtain r x where y: "y = (r, x)" by fastforce
  from assms snoc y have "h r = Some \<lparr> nd_prev = last_ref p xs, nd_next = e, nd_data = x \<rparr>" "r \<notin> refs xs"
    by (auto simp: refs_fst)
  with assms snoc y show ?thesis by (auto simp: link_next_def store_next_def)
qed (simp add: link_next_def)

lemma seg_relink_begin:
  assumes "seg h p rs e" and "distinct (map fst rs)"
  shows "\<exists>h'. link_prev p' (hd_ref None rs) h = Some h'
    \<and> seg h' p' rs e \<and> (\<forall>q. q \<notin> refs rs \<longrightarrow> h' q = h q)"
proof (cases rs)
  case (Cons y xs)
  obtain r x where y: "y = (r, x)" by fastforce
  from assms Cons y have "h r = Some \<lparr> nd_prev = p, nd_next = hd_ref e xs, nd_data = x \<rparr>" "r \<notin> refs xs"
    by (auto simp: refs_fst)
  with assms Cons y show ?thesis by (auto simp: link_prev_def store_prev_def)
qed (simp add: link_prev_def)

text \<open>Erasing a node in the middle of a sequence.\<close>

lemma cerase_seg:
  assumes r: "repr h l (xs @ (r, x) # ys)"
  obtains h' l' where "cerase h l r = Some (h', l')" "repr h' l' (xs @ ys)"
    "\<And>q. q \<notin> refs (xs @ (r, x) # ys) \<Longrightarrow> h' q = h q"
proof -
  let ?n = "\<lparr> nd_prev = last_ref None xs, nd_next = hd_ref None ys, nd_data = x \<rparr>"
  from r have hr: "h r = Some ?n" and sx: "seg h None xs (Some r)" and sy: "seg h (Some r) ys None"
    and d: "distinct (map fst xs)" "distinct (map fst ys)" "r \<notin> refs xs" "r \<notin> refs ys" "refs xs \<inter> refs ys = {}"
    and l: "l_front l = hd_ref (Some r) xs" "l_back l = last_ref (Some r) ys" "l_size l = of_nat (Suc (length xs + length ys))"
    by (auto simp: repr_def refs_fst)
  obtain h1 where h1: "link_next (hd_ref None ys) (last_ref None xs) h = Some h1"
    "seg h1 None xs (hd_ref None ys)" "\<And>q. q \<notin> refs xs \<Longrightarrow> h1 q = h q"
    using seg_relink_end [OF sx d(1)] by blast
  have sy1: "seg h1 (Some r) ys None" using seg_frame [OF sy, of h1] h1(3) d(5) by blast
  obtain h2 where h2: "link_prev (last_ref None xs) (hd_ref None ys) h1 = Some h2"
    "seg h2 (last_ref None xs) ys None" "\<And>q. q \<notin> refs ys \<Longrightarrow> h2 q = h1 q"
    using seg_relink_begin [OF sy1 d(2)] by blast
  have sx2: "seg h2 None xs (hd_ref None ys)" using seg_frame [OF h1(2), of h2] h2(3) d(5) by blast
  have r1: "h1 r = Some ?n" "h2 r = Some ?n" using h1(3) [of r] h2(3) [of r] hr d(3,4) by simp_all
  let ?b = "if Some r = l_back l then last_ref None xs else l_back l"
  let ?f = "if Some r = l_front l then hd_ref None ys else l_front l"
  have "cerase h l r = Some (h2(r := None), l\<lparr> l_back := ?b, l_front := ?f, l_size := l_size l - 1 \<rparr>)"
    using hr h1(1) r1 h2(1) by (simp add: cerase_def Let_def)
  moreover have "repr (h2(r := None)) (l\<lparr> l_back := ?b, l_front := ?f, l_size := l_size l - 1 \<rparr>) (xs @ ys)"
  proof -
    have "?f = hd_ref (hd_ref None ys) xs" using l(1) d(3) by (cases xs) auto
    moreover have "?b = last_ref (last_ref None xs) ys" using l(2) d(4) by (cases ys rule: rev_cases) auto
    ultimately show ?thesis using sx2 h2(2) d l(3) by (simp add: repr_def refs_fst)
  qed
  moreover have "(h2(r := None)) q = h q" if "q \<notin> refs (xs @ (r, x) # ys)" for q
    using that h1(3) [of q] h2(3) [of q] by simp
  ultimately show ?thesis using that by blast
qed

lemma repr_node:
  assumes "repr h l (xs @ (r, x) # ys)"
  shows "h r = Some \<lparr> nd_prev = last_ref None xs, nd_next = hd_ref None ys, nd_data = x \<rparr>"
  using assms by (simp add: repr_def)

lemma list_erase_repr:
  assumes "repr h l (xs @ (r, x) # ys)"
  shows "\<exists>h' l'. list_erase h l (Some r) = Some (h', l', hd_ref None ys) \<and> repr h' l' (xs @ ys)
    \<and> (\<forall>q. q \<notin> refs (xs @ (r, x) # ys) \<longrightarrow> h' q = h q)"
proof -
  obtain h' l' where "cerase h l r = Some (h', l')" "repr h' l' (xs @ ys)"
    "\<And>q. q \<notin> refs (xs @ (r, x) # ys) \<Longrightarrow> h' q = h q"
    using cerase_seg [OF assms] by metis
  then show ?thesis using repr_node [OF assms] by (simp add: list_erase_def itr_inc_def)
qed

lemma list_rerase_repr:
  assumes "repr h l (xs @ (r, x) # ys)"
  shows "\<exists>h' l'. list_rerase h l (Some r) = Some (h', l', last_ref None xs) \<and> repr h' l' (xs @ ys)
    \<and> (\<forall>q. q \<notin> refs (xs @ (r, x) # ys) \<longrightarrow> h' q = h q)"
proof -
  obtain h' l' where "cerase h l r = Some (h', l')" "repr h' l' (xs @ ys)"
    "\<And>q. q \<notin> refs (xs @ (r, x) # ys) \<Longrightarrow> h' q = h q"
    using cerase_seg [OF assms] by metis
  then show ?thesis using repr_node [OF assms] by (simp add: list_rerase_def itr_dec_def)
qed

lemma empty_refs:
  "hd_ref None rs = None \<longleftrightarrow> rs = []" "last_ref None rs = None \<longleftrightarrow> rs = []"
  by (auto simp: hd_ref_def last_ref_def split: list.splits)

lemma push_back_repr:
  assumes "repr h l rs" and "r \<notin> refs rs"
  shows "\<exists>h' l'. list_push_back h l r x = Some (h', l') \<and> repr h' l' (rs @ [(r, x)])
    \<and> (\<forall>q. q \<notin> insert r (refs rs) \<longrightarrow> h' q = h q)"
proof (cases rs rule: rev_cases)
  case Nil
  with assms show ?thesis by (simp add: list_push_back_def Let_def repr_def)
next
  case (snoc xs y)
  obtain p u where y: "y = (p, u)" by fastforce
  have hp: "h p = Some \<lparr> nd_prev = last_ref None xs, nd_next = None, nd_data = u \<rparr>"
    using repr_node [of h l xs p u "[]"] assms(1) snoc y by simp
  have d: "p \<noteq> r" "p \<notin> refs xs" "r \<notin> refs xs" "distinct (map fst xs)" and sx: "seg h None xs (Some p)"
    and l: "l_front l = hd_ref (Some p) xs" "l_back l = Some p" "l_size l = of_nat (Suc (length xs))"
    using assms snoc y by (auto simp: repr_def refs_fst)
  have "l_front l \<noteq> None" using l(1) by simp
  then show ?thesis using d sx l hp snoc y
    by (simp add: list_push_back_def Let_def store_prev_def store_next_def repr_def refs_fst)
qed

lemma splice_back_repr:
  assumes l: "repr h l xs" and o: "repr h other ys" and d: "refs xs \<inter> refs ys = {}"
  shows "\<exists>h' l'. splice_back h l other = Some (h', l', list_new) \<and> repr h' l' (xs @ ys)
    \<and> (\<forall>q. q \<notin> refs xs \<union> refs ys \<longrightarrow> h' q = h q)"
proof (cases "xs = [] \<or> ys = []")
  case True
  then show ?thesis using l o
    by (auto simp: splice_back_def list_new_def repr_def empty_refs split: option.splits)
next
  case False
  have lf: "l_front l \<noteq> None" "l_back l = last_ref None xs" "l_back l \<noteq> None"
    and of': "l_front other = hd_ref None ys" "hd_ref None ys \<noteq> None"
    using l o False by (auto simp: repr_def empty_refs)
  obtain h1 where h1: "link_next (hd_ref None ys) (last_ref None xs) h = Some h1"
    "seg h1 None xs (hd_ref None ys)" "\<And>q. q \<notin> refs xs \<Longrightarrow> h1 q = h q"
    using seg_relink_end [of h None xs None "hd_ref None ys"] l by (auto simp: repr_def)
  have sy: "seg h1 None ys None" using seg_frame [of h None ys None h1] o h1(3) d by (auto simp: repr_def)
  obtain h2 where h2: "link_prev (last_ref None xs) (hd_ref None ys) h1 = Some h2"
    "seg h2 (last_ref None xs) ys None" "\<And>q. q \<notin> refs ys \<Longrightarrow> h2 q = h1 q"
    using seg_relink_begin [OF sy, of "last_ref None xs"] o by (auto simp: repr_def)
  have "seg h2 None xs (hd_ref None ys)" using seg_frame [OF h1(2), of h2] h2(3) d by blast
  moreover have "hd_ref e xs = Some (fst (hd xs))" "last_ref e ys = Some (fst (last ys))" for e
    using False by (auto simp: hd_ref_def last_ref_def split: list.splits)
  ultimately show ?thesis using h2(2) l o d lf of' h1 h2
    by (auto simp: splice_back_def list_new_def repr_def link_next_def link_prev_def refs_fst split: option.splits)
qed

lemma push_front_repr:
  assumes "repr h l rs" and "r \<notin> refs rs"
  shows "\<exists>h' l'. list_push_front h l r x = Some (h', l') \<and> repr h' l' ((r, x) # rs)
    \<and> (\<forall>q. q \<notin> insert r (refs rs) \<longrightarrow> h' q = h q)"
proof (cases rs)
  case Nil
  with assms show ?thesis by (simp add: list_push_front_def Let_def repr_def)
next
  case (Cons y ys)
  obtain p u where y: "y = (p, u)" by fastforce
  have hp: "h p = Some \<lparr> nd_prev = None, nd_next = hd_ref None ys, nd_data = u \<rparr>"
    using repr_node [of h l "[]" p u ys] assms(1) Cons y by simp
  have d: "p \<noteq> r" "p \<notin> refs ys" "r \<notin> refs ys" "distinct (map fst ys)" and sy: "seg h (Some p) ys None"
    and l: "l_front l = Some p" "l_back l = last_ref (Some p) ys" "l_size l = of_nat (Suc (length ys))"
    using assms Cons y by (auto simp: repr_def refs_fst)
  then show ?thesis using hp Cons y
    by (simp add: list_push_front_def Let_def store_prev_def store_next_def repr_def refs_fst)
qed

text \<open>\<open>clear\<close> ends and frees exactly the nodes of the list.\<close>

lemma clear_loop_seg:
  "seg h p rs None \<Longrightarrow> distinct (map fst rs) \<Longrightarrow>
   clear_loop h (hd_ref None rs) = Some (\<lambda>q. if q \<in> refs rs then None else h q)"
proof (induction rs arbitrary: h p)
  case (Cons y ys)
  obtain r x where y: "y = (r, x)" by fastforce
  from Cons.prems y have "seg (h(r := None)) (Some r) ys None" by (simp add: refs_fst)
  with Cons.IH Cons.prems y
  have ih: "clear_loop (h(r := None)) (hd_ref None ys) = Some (\<lambda>q. if q \<in> refs ys then None else (h(r := None)) q)"
    by simp
  have e: "(\<lambda>q. if q \<in> refs ys then None else (h(r := None)) q) = (\<lambda>q. if q \<in> refs (y # ys) then None else h q)"
    by (auto simp: y fun_eq_iff)
  have "clear_loop h (hd_ref None (y # ys)) = clear_loop (h(r := None)) (hd_ref None ys)"
    using Cons.prems y by (subst clear_loop.simps) simp
  also note ih [unfolded e]
  finally show ?case .
qed (subst clear_loop.simps, simp)

lemma list_clear_repr:
  assumes "repr h l rs"
  shows "list_clear h l = Some (\<lambda>q. if q \<in> refs rs then None else h q,
           \<lparr> l_front = None, l_back = None, l_size = l_size l \<rparr>)"
  using assms clear_loop_seg [of h None rs] by (simp add: list_clear_def repr_def)

lemma push_all_repr:
  assumes "repr h l rs" and "distinct (map fst (rs @ qs))"
  shows "\<exists>h' l'. push_all h l qs = Some (h', l') \<and> repr h' l' (rs @ qs)
    \<and> (\<forall>q. q \<notin> refs (rs @ qs) \<longrightarrow> h' q = h q)"
  using assms
proof (induction qs arbitrary: h l rs)
  case (Cons y qs)
  obtain r x where y: "y = (r, x)" by fastforce
  from Cons.prems y have "r \<notin> refs rs" by (simp add: refs_fst)
  then obtain h1 l1 where 1: "list_push_back h l r x = Some (h1, l1)" "repr h1 l1 (rs @ [(r, x)])"
    "\<And>q. q \<notin> insert r (refs rs) \<Longrightarrow> h1 q = h q"
    using push_back_repr [OF Cons.prems(1)] by metis
  have "distinct (map fst ((rs @ [(r, x)]) @ qs))" using Cons.prems(2) y by simp
  then show ?case using Cons.IH [OF 1(2)] 1 y by fastforce
qed simp

subsection \<open>Every history of operations\<close>

datatype 'a list_cmd = Cmd_push_back addr 'a | Cmd_push_front addr 'a | Cmd_erase addr | Cmd_rerase addr

fun dl_run :: "'a list_cmd list \<Rightarrow> 'a heap \<times> dlist \<Rightarrow> ('a heap \<times> dlist) option" where
  "dl_run [] s = Some s"
| "dl_run (Cmd_push_back r x # cs) (h, l) = do { s \<leftarrow> list_push_back h l r x; dl_run cs s }"
| "dl_run (Cmd_push_front r x # cs) (h, l) = do { s \<leftarrow> list_push_front h l r x; dl_run cs s }"
| "dl_run (Cmd_erase r # cs) (h, l) = do { (h, l, i) \<leftarrow> list_erase h l (Some r); dl_run cs (h, l) }"
| "dl_run (Cmd_rerase r # cs) (h, l) = do { (h, l, i) \<leftarrow> list_rerase h l (Some r); dl_run cs (h, l) }"

fun seq_cmd :: "'a list_cmd \<Rightarrow> (addr \<times> 'a) list \<Rightarrow> (addr \<times> 'a) list" where
  "seq_cmd (Cmd_push_back r x) rs = rs @ [(r, x)]"
| "seq_cmd (Cmd_push_front r x) rs = (r, x) # rs"
| "seq_cmd (Cmd_erase r) rs = filter (\<lambda>n. fst n \<noteq> r) rs"
| "seq_cmd (Cmd_rerase r) rs = filter (\<lambda>n. fst n \<noteq> r) rs"

fun cmd_ok :: "'a list_cmd \<Rightarrow> (addr \<times> 'a) list \<Rightarrow> bool" where
  "cmd_ok (Cmd_push_back r x) rs \<longleftrightarrow> r \<notin> refs rs"
| "cmd_ok (Cmd_push_front r x) rs \<longleftrightarrow> r \<notin> refs rs"
| "cmd_ok (Cmd_erase r) rs \<longleftrightarrow> r \<in> refs rs"
| "cmd_ok (Cmd_rerase r) rs \<longleftrightarrow> r \<in> refs rs"

fun cmds_ok :: "'a list_cmd list \<Rightarrow> (addr \<times> 'a) list \<Rightarrow> bool" where
  "cmds_ok [] rs \<longleftrightarrow> True"
| "cmds_ok (c # cs) rs \<longleftrightarrow> cmd_ok c rs \<and> cmds_ok cs (seq_cmd c rs)"

lemma split_at_ref:
  assumes "r \<in> refs rs" and "distinct (map fst rs)"
  obtains xs x ys where "rs = xs @ (r, x) # ys" "filter (\<lambda>n. fst n \<noteq> r) rs = xs @ ys"
proof -
  from assms(1) obtain x where "(r, x) \<in> set rs" by (auto simp: refs_def)
  then obtain xs ys where rs: "rs = xs @ (r, x) # ys" by (meson split_list)
  with assms(2) have "\<forall>n \<in> set xs \<union> set ys. fst n \<noteq> r" by auto
  then have "filter (\<lambda>n. fst n \<noteq> r) xs = xs" "filter (\<lambda>n. fst n \<noteq> r) ys = ys" by (auto simp: filter_id_conv)
  with rs that show ?thesis by simp
qed

lemma repr_distinct: "repr h l rs \<Longrightarrow> distinct (map fst rs)"
  by (simp add: repr_def)

lemma erase_filter:
  assumes "repr h l rs" and "r \<in> refs rs"
  shows "\<exists>h' l' i. list_erase h l (Some r) = Some (h', l', i) \<and> repr h' l' (filter (\<lambda>n. fst n \<noteq> r) rs)"
    and "\<exists>h' l' i. list_rerase h l (Some r) = Some (h', l', i) \<and> repr h' l' (filter (\<lambda>n. fst n \<noteq> r) rs)"
proof -
  obtain xs x ys where "rs = xs @ (r, x) # ys" "filter (\<lambda>n. fst n \<noteq> r) rs = xs @ ys"
    using split_at_ref [OF assms(2) repr_distinct [OF assms(1)]] .
  then show "\<exists>h' l' i. list_erase h l (Some r) = Some (h', l', i) \<and> repr h' l' (filter (\<lambda>n. fst n \<noteq> r) rs)"
    and "\<exists>h' l' i. list_rerase h l (Some r) = Some (h', l', i) \<and> repr h' l' (filter (\<lambda>n. fst n \<noteq> r) rs)"
    using list_erase_repr [of h l xs r x ys] list_rerase_repr [of h l xs r x ys] assms(1) by auto
qed

lemma dl_step:
  assumes r: "repr h l rs" and "cmd_ok c rs"
  shows "\<exists>h' l'. dl_run (c # cs) (h, l) = dl_run cs (h', l') \<and> repr h' l' (seq_cmd c rs)"
proof (cases c)
  case (Cmd_push_back q x)
  then show ?thesis using push_back_repr [OF r, of q x] assms(2) by force
next
  case (Cmd_push_front q x)
  then show ?thesis using push_front_repr [OF r, of q x] assms(2) by force
next
  case (Cmd_erase q)
  then show ?thesis using erase_filter(1) [OF r, of q] assms(2) by force
next
  case (Cmd_rerase q)
  then show ?thesis using erase_filter(2) [OF r, of q] assms(2) by force
qed

text \<open>
  C29. The linked list is a sequence: after any history of insertions with fresh addresses and of
  erasures of nodes in the list, the object represents the sequence the same history gives on
  sequences; no operation of it follows a dangling or null pointer, and the stored size is the length.
\<close>

theorem linked_list_refines:
  assumes "cmds_ok cs rs" and "repr h l rs"
  shows "\<exists>h' l'. dl_run cs (h, l) = Some (h', l') \<and> repr h' l' (fold seq_cmd cs rs)"
  using assms
proof (induction cs arbitrary: h l rs)
  case (Cons c cs)
  obtain h1 l1 where step: "dl_run (c # cs) (h, l) = dl_run cs (h1, l1)" "repr h1 l1 (seq_cmd c rs)"
    using dl_step [OF Cons.prems(2)] Cons.prems(1) by fastforce
  with Cons.IH Cons.prems(1) show ?case by fastforce
qed simp

theorem linked_list_refines_witness:
  "\<exists>h l. dl_run [Cmd_push_back 5 ''a'', Cmd_push_front 3 ''b'', Cmd_push_back 9 ''c'', Cmd_erase 5] (Map.empty, list_new)
      = Some (h, l) \<and> repr h l [(3, ''b''), (9, ''c'')]"
proof -
  have "cmds_ok [Cmd_push_back 5 ''a'', Cmd_push_front 3 ''b'', Cmd_push_back 9 ''c'', Cmd_erase 5] []" by simp
  from linked_list_refines [OF this repr_new] show ?thesis by simp
qed

end
