(* ===== verification/Observer.thy ===== *)
theory Observer
  imports Linked_List
begin

text \<open>
  The observer (signal) of \<open>include/vtrc/common/observer/base.h\<close>, with its subscriptions
  (\<open>subscription.h\<close>, \<open>scoped-subscription.h\<close>) and the slot traits of \<open>traits/simple.h\<close>. Slots are
  kept in the linked list \<open>list_\<close>; new ones wait in \<open>added_\<close> and removed ones in \<open>removed_\<close> until the
  next notification, so that both are possible while slots run.

  A notification calls slots one after another. What happens to the observer while the slot with
  identifier \<open>i\<close> runs, by the slot itself or by another thread, is the list \<open>acts i\<close> of
  subscriptions and unsubscriptions; both only take \<open>tmp_lock_\<close>.
\<close>

subsection \<open>State\<close>

record 'f slot_info =
  si_slot :: 'f
  si_id :: size_t

text \<open>\<open>ob_next\<close> is the address of the next node the allocator gives.\<close>

record 'f observer =
  ob_heap :: "'f slot_info heap"
  ob_list :: dlist
  ob_added :: dlist
  ob_removed :: "size_t set"
  ob_id :: size_t
  ob_next :: addr

definition observer_new :: "'f observer" where
  "observer_new = \<lparr> ob_heap = Map.empty, ob_list = list_new, ob_added = list_new, ob_removed = {},
     ob_id = 1, ob_next = 0 \<rparr>"

subsection \<open>Operations\<close>

definition ob_connect :: "'f \<Rightarrow> 'f observer \<Rightarrow> ('f observer \<times> size_t) option" where
  "ob_connect f ob = do {
     (h, l) \<leftarrow> list_push_back (ob_heap ob) (ob_added ob) (ob_next ob) \<lparr> si_slot = f, si_id = ob_id ob \<rparr>;
     Some (ob\<lparr> ob_heap := h, ob_added := l, ob_id := ob_id ob + 1, ob_next := Suc (ob_next ob) \<rparr>, ob_id ob) }"

text \<open>The loops \<open>for( ; b && (b->id_ < id); ++b )\<close> and \<open>for( ; b && (id < b->id_); --b )\<close>.\<close>

partial_function (option) skip_lt :: "'f slot_info heap \<Rightarrow> size_t \<Rightarrow> itr \<Rightarrow> itr option" where
  "skip_lt h i b =
     (case b of
        None \<Rightarrow> Some None
      | Some r \<Rightarrow> do {
          n \<leftarrow> h r;
          if si_id (nd_data n) < i then do { b' \<leftarrow> itr_inc h b; skip_lt h i b' } else Some b })"

partial_function (option) skip_gt :: "'f slot_info heap \<Rightarrow> size_t \<Rightarrow> itr \<Rightarrow> itr option" where
  "skip_gt h i b =
     (case b of
        None \<Rightarrow> Some None
      | Some r \<Rightarrow> do {
          n \<leftarrow> h r;
          if i < si_id (nd_data n) then do { b' \<leftarrow> itr_dec h b; skip_gt h i b' } else Some b })"

text \<open>\<open>b && ( b->id_ == id )\<close>.\<close>

definition is_at :: "'f slot_info heap \<Rightarrow> size_t \<Rightarrow> itr \<Rightarrow> bool option" where
  "is_at h i b =
     (case b of None \<Rightarrow> Some False | Some r \<Rightarrow> do { n \<leftarrow> h r; Some (si_id (nd_data n) = i) })"

definition remove_by_index :: "'f slot_info heap \<Rightarrow> dlist \<Rightarrow> size_t \<Rightarrow> ('f slot_info heap \<times> dlist) option" where
  "remove_by_index h l i =
     (if 0 < l_size l then do {
        lo \<leftarrow> itr_get h (list_begin l);
        hi \<leftarrow> itr_get h (list_rbegin l);
        let min_id = si_id lo; max_id = si_id hi in
        if i < min_id \<or> max_id < i then Some (h, l)
        else if i - min_id < max_id - i then do {
          b \<leftarrow> skip_lt h i (list_begin l);
          found \<leftarrow> is_at h i b;
          if found then do { (h, l, _) \<leftarrow> list_erase h l b; Some (h, l) } else Some (h, l) }
        else do {
          b \<leftarrow> skip_gt h i (list_rbegin l);
          found \<leftarrow> is_at h i b;
          if found then do { (h, l, _) \<leftarrow> list_rerase h l b; Some (h, l) } else Some (h, l) } }
      else Some (h, l))"

definition ob_unsubscribe :: "size_t \<Rightarrow> 'f observer \<Rightarrow> 'f observer option" where
  "ob_unsubscribe i ob = do {
     (h, l) \<leftarrow> remove_by_index (ob_heap ob) (ob_added ob) i;
     Some (ob\<lparr> ob_removed := insert i (ob_removed ob), ob_heap := h, ob_added := l \<rparr>) }"

definition ob_is_removed :: "size_t \<Rightarrow> 'f observer \<Rightarrow> 'f observer \<times> bool" where
  "ob_is_removed i ob = (ob\<lparr> ob_removed := ob_removed ob - {i} \<rparr>, i \<in> ob_removed ob)"

fun clear_removed_loop ::
    "size_t list \<Rightarrow> itr \<Rightarrow> 'f slot_info heap \<Rightarrow> dlist \<Rightarrow> ('f slot_info heap \<times> dlist) option" where
  "clear_removed_loop [] bl h l = Some (h, l)"
| "clear_removed_loop (b # bs) bl h l =
     (if bl = None then Some (h, l)
      else do {
        bl \<leftarrow> skip_lt h b bl;
        found \<leftarrow> is_at h b bl;
        if found then do { (h, l, bl) \<leftarrow> list_erase h l bl; clear_removed_loop bs bl h l }
        else clear_removed_loop bs bl h l })"

definition ob_clear_removed :: "'f observer \<Rightarrow> 'f observer option" where
  "ob_clear_removed ob =
     (let tmp = sorted_list_of_set (ob_removed ob); ob = ob\<lparr> ob_removed := {} \<rparr> in do {
        (h, l) \<leftarrow> clear_removed_loop tmp (list_begin (ob_list ob)) (ob_heap ob) (ob_list ob);
        Some (ob\<lparr> ob_heap := h, ob_list := l \<rparr>) })"

definition splice_added :: "'f observer \<Rightarrow> 'f observer option" where
  "splice_added ob = do {
     (h, l, a) \<leftarrow> splice_back (ob_heap ob) (ob_list ob) (ob_added ob);
     Some (ob\<lparr> ob_heap := h, ob_list := l, ob_added := a \<rparr>) }"

partial_function (option) erase_each :: "itr \<Rightarrow> 'f slot_info heap \<Rightarrow> dlist \<Rightarrow> ('f slot_info heap \<times> dlist) option" where
  "erase_each b h l =
     (if b = None then Some (h, l) else do { (h, l, b) \<leftarrow> list_erase h l b; erase_each b h l })"

definition unsubscribe_all :: "'f observer \<Rightarrow> 'f observer option" where
  "unsubscribe_all ob = do {
     (h, l) \<leftarrow> erase_each (list_begin (ob_list ob)) (ob_heap ob) (ob_list ob);
     (h, a) \<leftarrow> erase_each (list_begin (ob_added ob)) h (ob_added ob);
     Some (ob\<lparr> ob_heap := h, ob_list := l, ob_added := a, ob_removed := {} \<rparr>) }"

subsection \<open>Notification\<close>

datatype 'f obs_action = Act_subscribe 'f | Act_unsubscribe size_t

fun ob_act :: "'f obs_action \<Rightarrow> 'f observer \<Rightarrow> 'f observer option" where
  "ob_act (Act_subscribe f) ob = map_option fst (ob_connect f ob)"
| "ob_act (Act_unsubscribe i) ob = ob_unsubscribe i ob"

fun ob_acts :: "'f obs_action list \<Rightarrow> 'f observer \<Rightarrow> 'f observer option" where
  "ob_acts [] ob = Some ob"
| "ob_acts (a # as) ob = do { ob \<leftarrow> ob_act a ob; ob_acts as ob }"

text \<open>The loop of \<open>operator ( )\<close>; it also returns the identifiers and slots it called, in order.
  \<open>expired\<close> is the function of the slot traits.\<close>

partial_function (option) notify_loop ::
    "('f \<Rightarrow> bool) \<Rightarrow> (size_t \<Rightarrow> 'f obs_action list) \<Rightarrow> itr \<Rightarrow> 'f observer \<Rightarrow>
     ('f observer \<times> (size_t \<times> 'f) list) option" where
  "notify_loop expired acts b ob =
     (if b = None then Some (ob, []) else do {
        s \<leftarrow> itr_get (ob_heap ob) b;
        (case ob_is_removed (si_id s) ob of (ob, gone) \<Rightarrow>
         if gone then do {
           (h, l, b) \<leftarrow> list_erase (ob_heap ob) (ob_list ob) b;
           notify_loop expired acts b (ob\<lparr> ob_heap := h, ob_list := l \<rparr>) }
         else do {
           ob \<leftarrow> ob_acts (acts (si_id s)) ob;
           (ob, calls) \<leftarrow>
             (if expired (si_slot s) then do {
                (h, l, b) \<leftarrow> list_erase (ob_heap ob) (ob_list ob) b;
                notify_loop expired acts b (ob\<lparr> ob_heap := h, ob_list := l \<rparr>) }
              else do {
                b \<leftarrow> itr_inc (ob_heap ob) b;
                notify_loop expired acts b ob });
           Some (ob, (si_id s, si_slot s) # calls) }) })"

definition notify ::
    "('f \<Rightarrow> bool) \<Rightarrow> (size_t \<Rightarrow> 'f obs_action list) \<Rightarrow> 'f observer \<Rightarrow>
     ('f observer \<times> (size_t \<times> 'f) list) option" where
  "notify expired acts ob = do {
     ob \<leftarrow> splice_added ob;
     (ob, calls) \<leftarrow> notify_loop expired acts (list_begin (ob_list ob)) ob;
     ob \<leftarrow> ob_clear_removed ob;
     Some (ob, calls) }"

text \<open>The slots of \<open>traits::simple\<close> never expire.\<close>

definition simple_expired :: "'f \<Rightarrow> bool" where
  "simple_expired f = False"

subsection \<open>The loops on sequences\<close>

abbreviation slot_ident :: "addr \<times> 'f slot_info \<Rightarrow> size_t" where
  "slot_ident n \<equiv> si_id (snd n)"

lemma skip_lt_seg:
  "seg h p rs None \<Longrightarrow> skip_lt h i (hd_ref None rs) = Some (hd_ref None (dropWhile (\<lambda>n. slot_ident n < i) rs))"
proof (induction rs arbitrary: p)
  case (Cons y ys)
  obtain r x where y: "y = (r, x)" by fastforce
  show ?case
  proof (cases "si_id x < i")
    case True
    have "skip_lt h i (hd_ref None ys) = Some (hd_ref None (dropWhile (\<lambda>n. slot_ident n < i) ys))"
      using Cons.IH [of "Some r"] Cons.prems y by simp
    with True Cons.prems y show ?thesis by (subst skip_lt.simps) (simp add: itr_inc_def)
  next
    case False
    with Cons.prems y show ?thesis by (subst skip_lt.simps) simp
  qed
qed (subst skip_lt.simps, simp)

lemma skip_gt_seg:
  "seg h None rs e \<Longrightarrow>
   skip_gt h i (last_ref None rs) = Some (last_ref None (rev (dropWhile (\<lambda>n. i < slot_ident n) (rev rs))))"
proof (induction rs arbitrary: e rule: rev_induct)
  case (snoc y ys)
  obtain r x where y: "y = (r, x)" by fastforce
  show ?case
  proof (cases "i < si_id x")
    case True
    have "skip_gt h i (last_ref None ys) = Some (last_ref None (rev (dropWhile (\<lambda>n. i < slot_ident n) (rev ys))))"
      using snoc.IH [of "Some r"] snoc.prems y by simp
    with True snoc.prems y show ?thesis by (subst skip_gt.simps) (simp add: itr_dec_def)
  next
    case False
    with snoc.prems y show ?thesis by (subst skip_gt.simps) simp
  qed
qed (subst skip_gt.simps, simp)

text \<open>Identifiers increase along a list, so that a walk to one of them splits the list there.\<close>

definition ids_sorted :: "(addr \<times> 'f slot_info) list \<Rightarrow> bool" where
  "ids_sorted rs \<longleftrightarrow> sorted_wrt (\<lambda>a b. slot_ident a < slot_ident b) rs"

abbreviation without :: "size_t \<Rightarrow> (addr \<times> 'f slot_info) list \<Rightarrow> (addr \<times> 'f slot_info) list" where
  "without i rs \<equiv> filter (\<lambda>n. slot_ident n \<noteq> i) rs"

lemma ids_sorted_append:
  "ids_sorted (xs @ ys) \<longleftrightarrow> ids_sorted xs \<and> ids_sorted ys \<and> (\<forall>x \<in> set xs. \<forall>y \<in> set ys. slot_ident x < slot_ident y)"
  by (simp add: ids_sorted_def sorted_wrt_append)

lemma ids_sorted_Nil [simp]: "ids_sorted []"
  by (simp add: ids_sorted_def)

lemma ids_sorted_Cons:
  "ids_sorted (x # ys) \<longleftrightarrow> ids_sorted ys \<and> (\<forall>y \<in> set ys. slot_ident x < slot_ident y)"
  by (auto simp: ids_sorted_def)

lemma ids_sorted_filter: "ids_sorted rs \<Longrightarrow> ids_sorted (filter P rs)"
  by (simp add: ids_sorted_def sorted_wrt_filter)

lemma without_id: "\<forall>n \<in> set rs. slot_ident n \<noteq> i \<Longrightarrow> without i rs = rs"
  by (simp add: filter_id_conv)

lemma split_up:
  assumes "ids_sorted rs"
  obtains "without i rs = rs" "\<forall>n \<in> set (dropWhile (\<lambda>n. slot_ident n < i) rs). i < slot_ident n"
  | xs n ys where "rs = xs @ n # ys" "slot_ident n = i" "dropWhile (\<lambda>n. slot_ident n < i) rs = n # ys" "without i rs = xs @ ys"
      "\<forall>m \<in> set ys. i < slot_ident m"
proof -
  define xs where "xs = takeWhile (\<lambda>n. slot_ident n < i) rs"
  define zs where "zs = dropWhile (\<lambda>n. slot_ident n < i) rs"
  have rs: "rs = xs @ zs" and lt: "\<forall>n \<in> set xs. slot_ident n < i"
    by (auto simp: xs_def zs_def dest: set_takeWhileD)
  have wx: "without i xs = xs" using lt by (intro without_id) auto
  show ?thesis
  proof (cases zs)
    case Nil
    with rs wx show ?thesis using that(1) unfolding zs_def [symmetric] by simp
  next
    case (Cons n ys)
    have "\<not> slot_ident n < i" using hd_dropWhile [of "\<lambda>n. slot_ident n < i" rs] unfolding zs_def [symmetric] Cons by simp
    moreover have ys: "\<forall>m \<in> set ys. slot_ident n < slot_ident m" using assms rs Cons by (simp add: ids_sorted_append ids_sorted_Cons)
    ultimately consider "slot_ident n = i" | "\<forall>m \<in> set zs. i < slot_ident m" using Cons by force
    then show ?thesis
    proof cases
      case 1
      have "without i ys = ys" using ys 1 by (intro without_id) auto
      with 1 wx rs Cons ys show ?thesis using that(2) [of xs n ys] zs_def by simp
    next
      case 2
      then have "without i zs = zs" by (intro without_id) auto
      with wx have "without i (xs @ zs) = xs @ zs" by simp
      then have "without i rs = rs" using rs by (simp only:)
      with 2 show ?thesis using that(1) unfolding zs_def [symmetric] by blast
    qed
  qed
qed

lemma rev_split_down:
  assumes "ids_sorted rs"
  obtains "without i rs = rs" "\<forall>n \<in> set (dropWhile (\<lambda>n. i < slot_ident n) (rev rs)). slot_ident n < i"
  | xs n ys where "rs = xs @ n # ys" "slot_ident n = i" "dropWhile (\<lambda>n. i < slot_ident n) (rev rs) = n # rev xs" "without i rs = xs @ ys"
proof -
  define ys where "ys = rev (takeWhile (\<lambda>n. i < slot_ident n) (rev rs))"
  define zs where "zs = dropWhile (\<lambda>n. i < slot_ident n) (rev rs)"
  have "rev rs = rev ys @ zs" by (simp add: ys_def zs_def)
  then have rs: "rs = rev zs @ ys" by (metis rev_append rev_rev_ident)
  have gt: "\<forall>n \<in> set ys. i < slot_ident n" by (auto simp: ys_def dest: set_takeWhileD)
  have wy: "without i ys = ys" using gt by (intro without_id) auto
  show ?thesis
  proof (cases zs)
    case Nil
    with rs wy show ?thesis using that(1) unfolding zs_def [symmetric] by simp
  next
    case (Cons n us)
    have "\<not> i < slot_ident n" using hd_dropWhile [of "\<lambda>n. i < slot_ident n" "rev rs"] unfolding zs_def [symmetric] Cons by simp
    moreover have us: "\<forall>m \<in> set us. slot_ident m < slot_ident n" using assms rs Cons by (auto simp: ids_sorted_append)
    ultimately consider "slot_ident n = i" | "\<forall>m \<in> set zs. slot_ident m < i" using Cons by force
    then show ?thesis
    proof cases
      case 1
      have "without i (rev us) = rev us" using us 1 by (intro without_id) auto
      with 1 wy rs Cons show ?thesis using that(2) [of "rev us" n ys] zs_def by simp
    next
      case 2
      then have "without i (rev zs) = rev zs" by (intro without_id) auto
      with wy have "without i (rev zs @ ys) = rev zs @ ys" by simp
      then have "without i rs = rs" using rs by (simp only:)
      with 2 show ?thesis using that(1) unfolding zs_def [symmetric] by blast
    qed
  qed
qed

lemma is_at_hd:
  assumes "seg h p rs None"
  shows "is_at h i (hd_ref None rs) = Some (rs \<noteq> [] \<and> slot_ident (hd rs) = i)"
  using assms by (cases rs) (auto simp: is_at_def)

lemma is_at_last:
  assumes "seg h None rs e"
  shows "is_at h i (last_ref None rs) = Some (rs \<noteq> [] \<and> slot_ident (last rs) = i)"
  using assms by (cases rs rule: rev_cases) (auto simp: is_at_def)

definition removes :: "size_t \<Rightarrow> 'f slot_info heap \<Rightarrow> (addr \<times> 'f slot_info) list \<Rightarrow> ('f slot_info heap \<times> dlist) option \<Rightarrow> bool" where
  "removes i h rs res \<longleftrightarrow>
     (\<exists>h' l'. res = Some (h', l') \<and> repr h' l' (without i rs) \<and> (\<forall>q. q \<notin> refs rs \<longrightarrow> h' q = h q))"

lemma removes_up:
  assumes r: "repr h l rs" and s: "ids_sorted rs"
  shows "removes i h rs
    (do { b \<leftarrow> skip_lt h i (list_begin l); found \<leftarrow> is_at h i b;
          if found then do { (h, l, _) \<leftarrow> list_erase h l b; Some (h, l) } else Some (h, l) })"
proof -
  let ?zs = "dropWhile (\<lambda>n. slot_ident n < i) rs"
  have sg: "seg h None rs None" and b: "list_begin l = hd_ref None rs" using r by (auto simp: repr_def list_begin_def)
  have "seg h (last_ref None (takeWhile (\<lambda>n. slot_ident n < i) rs)) ?zs None"
    using sg seg_append [of h None "takeWhile (\<lambda>n. slot_ident n < i) rs" ?zs None] by simp
  note at = is_at_hd [OF this, of i] and sk = skip_lt_seg [OF sg, of i]
  from s show ?thesis
  proof (cases rule: split_up [where i = i])
    case 1
    have "\<not> (?zs \<noteq> [] \<and> slot_ident (hd ?zs) = i)" using 1(2) by (metis hd_in_set less_irrefl)
    with at have "is_at h i (hd_ref None ?zs) = Some False" by (simp only:)
    then show ?thesis using sk 1(1) r by (simp add: b removes_def)
  next
    case (2 xs n ys)
    obtain q x where n: "n = (q, x)" by fastforce
    show ?thesis using sk at 2 n list_erase_repr [of h l xs q x ys] r by (auto simp: b removes_def)
  qed
qed

lemma removes_down:
  assumes r: "repr h l rs" and s: "ids_sorted rs"
  shows "removes i h rs
    (do { b \<leftarrow> skip_gt h i (list_rbegin l); found \<leftarrow> is_at h i b;
          if found then do { (h, l, _) \<leftarrow> list_rerase h l b; Some (h, l) } else Some (h, l) })"
proof -
  let ?zs = "rev (dropWhile (\<lambda>n. i < slot_ident n) (rev rs))"
  let ?us = "rev (takeWhile (\<lambda>n. i < slot_ident n) (rev rs))"
  have rs: "rs = ?zs @ ?us" by (metis rev_append rev_rev_ident takeWhile_dropWhile_id)
  have sg: "seg h None rs None" and b: "list_rbegin l = last_ref None rs" using r by (auto simp: repr_def list_rbegin_def)
  have "seg h None ?zs (hd_ref None ?us)"
    using sg rs seg_append [of h None ?zs ?us None] by simp
  note at = is_at_last [OF this, of i] and sk = skip_gt_seg [OF sg, of i]
  from s show ?thesis
  proof (cases rule: rev_split_down [where i = i])
    case 1
    have "\<not> (?zs \<noteq> [] \<and> slot_ident (last ?zs) = i)" using 1(2) by (metis last_in_set less_irrefl set_rev)
    with at have "is_at h i (last_ref None ?zs) = Some False" by (simp only:)
    then show ?thesis using sk 1(1) r by (simp add: b removes_def)
  next
    case (2 xs n ys)
    obtain q x where n: "n = (q, x)" by fastforce
    show ?thesis using sk at 2 n list_rerase_repr [of h l xs q x ys] r by (auto simp: b removes_def)
  qed
qed

lemma remove_by_index_repr:
  assumes r: "repr h l rs" and s: "ids_sorted rs" and len: "length rs < 2 ^ 64"
  shows "removes i h rs (remove_by_index h l i)"
proof (cases "rs = []")
  case True
  with r show ?thesis by (simp add: remove_by_index_def removes_def repr_def)
next
  case False
  have "l_size l \<noteq> 0" using r False len unat_of_nat_small [of "length rs", where 'a = 64]
    by (auto simp: repr_def)
  then have sz: "0 < l_size l" by (simp add: word_neq_0_conv)
  have lo: "itr_get h (list_begin l) = Some (snd (hd rs))"
    using r False by (cases rs) (auto simp: itr_get_def list_begin_def repr_def)
  have hi: "itr_get h (list_rbegin l) = Some (snd (last rs))"
    using r False by (cases rs rule: rev_cases) (auto simp: itr_get_def list_rbegin_def repr_def)
  have out: "without i rs = rs" if "i < slot_ident (hd rs) \<or> slot_ident (last rs) < i"
  proof (rule without_id, rule ballI)
    fix n assume n: "n \<in> set rs"
    have "slot_ident (hd rs) \<le> slot_ident n" using s n False by (cases rs) (auto simp: ids_sorted_Cons)
    moreover have "slot_ident n \<le> slot_ident (last rs)" using s n False by (cases rs rule: rev_cases) (auto simp: ids_sorted_append)
    ultimately show "slot_ident n \<noteq> i" using that by auto
  qed
  show ?thesis
  proof (cases "i < slot_ident (hd rs) \<or> slot_ident (last rs) < i")
    case True
    with out sz lo hi r show ?thesis by (auto simp: remove_by_index_def removes_def)
  next
    case False
    with sz lo hi removes_up [OF r s, of i] removes_down [OF r s, of i] show ?thesis
      by (simp add: remove_by_index_def Let_def)
  qed
qed

lemma clear_removed_repr:
  assumes "repr h l (xs @ ys)" and "ids_sorted (xs @ ys)" and "sorted_wrt (<) bs"
    and "\<forall>n \<in> set xs. \<forall>b \<in> set bs. slot_ident n < b"
  shows "\<exists>h' l'. clear_removed_loop bs (hd_ref None ys) h l = Some (h', l')
    \<and> repr h' l' (filter (\<lambda>n. slot_ident n \<notin> set bs) (xs @ ys)) \<and> (\<forall>q. q \<notin> refs (xs @ ys) \<longrightarrow> h' q = h q)"
  using assms
proof (induction bs arbitrary: xs ys h l)
  case (Cons b bs)
  have fx: "filter (\<lambda>n. slot_ident n \<notin> set (b # bs)) xs = xs" using Cons.prems(4) by (force simp: filter_id_conv)
  show ?case
  proof (cases "ys = []")
    case True
    with fx Cons.prems(1) show ?thesis by simp
  next
    case False
    let ?us = "takeWhile (\<lambda>n. slot_ident n < b) ys" and ?zs = "dropWhile (\<lambda>n. slot_ident n < b) ys"
    have sy: "seg h (last_ref None xs) ys None" using Cons.prems(1) by (simp add: repr_def)
    have "seg h (last_ref (last_ref None xs) ?us) ?zs None"
      using sy seg_append [of h "last_ref None xs" ?us ?zs None] by simp
    note at = is_at_hd [OF this, of b] and sk = skip_lt_seg [OF sy, of b]
    have sys: "ids_sorted ys" using Cons.prems(2) by (simp add: ids_sorted_append)
    have bs: "sorted_wrt (<) bs" "\<forall>c \<in> set bs. b < c" using Cons.prems(3) by auto
    have below: "\<forall>n \<in> set (xs @ ?us). \<forall>c \<in> set bs. slot_ident n < c"
      using Cons.prems(4) bs(2) by (auto dest!: set_takeWhileD)
    from sys show ?thesis
    proof (cases rule: split_up [where i = b])
      case 1
      have "\<not> (?zs \<noteq> [] \<and> slot_ident (hd ?zs) = b)" using 1(2) by (metis hd_in_set less_irrefl)
      with at have "is_at h b (hd_ref None ?zs) = Some False" by (simp only:)
      then have step: "clear_removed_loop (b # bs) (hd_ref None ys) h l = clear_removed_loop bs (hd_ref None ?zs) h l"
        using sk False by (simp add: empty_refs)
      have eq: "xs @ ys = (xs @ ?us) @ ?zs" by simp
      have "\<forall>n \<in> set (xs @ ys). slot_ident n \<noteq> b" using 1(1) Cons.prems(4) by (auto simp: filter_id_conv)
      then have "filter (\<lambda>n. slot_ident n \<notin> set (b # bs)) (xs @ ys) = filter (\<lambda>n. slot_ident n \<notin> set bs) (xs @ ys)"
        by (intro filter_cong) auto
      then show ?thesis
        using Cons.IH [of h l "xs @ ?us" ?zs] Cons.prems(1,2) bs(1) below step unfolding eq by simp
    next
      case (2 us n zs)
      obtain r x where n: "n = (r, x)" by fastforce
      obtain h' l' where e: "list_erase h l (Some r) = Some (h', l', hd_ref None zs)" "repr h' l' ((xs @ us) @ zs)"
        "\<And>q. q \<notin> refs (xs @ ys) \<Longrightarrow> h' q = h q"
        using list_erase_repr [of h l "xs @ us" r x zs] Cons.prems(1) 2(1) n by auto
      have step: "clear_removed_loop (b # bs) (hd_ref None ys) h l = clear_removed_loop bs (hd_ref None zs) h' l'"
        using sk at False 2 n e(1) by (simp add: empty_refs)
      have us: "?us = us" using 2(1,3) takeWhile_dropWhile_id [of "\<lambda>n. slot_ident n < b" ys] by simp
      have srt: "ids_sorted ((xs @ us) @ zs)" using Cons.prems(2) 2(1) by (simp add: ids_sorted_append ids_sorted_Cons)
      have fl: "filter (\<lambda>n. slot_ident n \<notin> set (b # bs)) (xs @ ys) = filter (\<lambda>n. slot_ident n \<notin> set bs) ((xs @ us) @ zs)"
      proof -
        have "filter (\<lambda>n. slot_ident n \<notin> set (b # bs)) ys = filter (\<lambda>n. slot_ident n \<notin> set bs) (without b ys)"
          by (simp add: conj_commute)
        moreover have "filter (\<lambda>n. slot_ident n \<notin> set bs) xs = xs" using Cons.prems(4) by (force simp: filter_id_conv)
        ultimately show ?thesis using 2(4) fx by simp
      qed
      have sub: "refs ((xs @ us) @ zs) \<subseteq> refs (xs @ ys)" using 2(1) n by auto
      show ?thesis
        using Cons.IH [OF e(2) srt bs(1)] below us step fl e(3) sub by (metis (no_types, lifting) in_mono)
    qed
  qed
qed simp

lemma erase_each_repr:
  "repr h l rs \<Longrightarrow> \<exists>h' l'. erase_each (hd_ref None rs) h l = Some (h', l') \<and> repr h' l' []
     \<and> (\<forall>q. q \<notin> refs rs \<longrightarrow> h' q = h q)"
proof (induction rs arbitrary: h l)
  case (Cons n rs)
  obtain r x where n: "n = (r, x)" by fastforce
  obtain h' l' where e: "list_erase h l (Some r) = Some (h', l', hd_ref None rs)" "repr h' l' rs"
    "\<And>q. q \<notin> refs (n # rs) \<Longrightarrow> h' q = h q"
    using list_erase_repr [of h l "[]" r x rs] Cons.prems n by auto
  have "erase_each (hd_ref None (n # rs)) h l = erase_each (hd_ref None rs) h' l'"
    using e(1) n by (subst erase_each.simps) simp
  with Cons.IH [OF e(2)] e(3) n show ?case by auto
qed (subst erase_each.simps, simp)

subsection \<open>The specification\<close>

text \<open>
  A signal keeps its subscriptions in order of their identifiers. The counter of the specification
  is a natural number; the program's is its value modulo \<open>2 ^ 64\<close>.
\<close>

record 'f signal_spec =
  sg_list :: "(size_t \<times> 'f) list"
  sg_added :: "(size_t \<times> 'f) list"
  sg_removed :: "size_t set"
  sg_id :: nat

definition signal_new :: "'f signal_spec" where
  "signal_new = \<lparr> sg_list = [], sg_added = [], sg_removed = {}, sg_id = 1 \<rparr>"

definition sig_subscribe :: "'f \<Rightarrow> 'f signal_spec \<Rightarrow> 'f signal_spec" where
  "sig_subscribe f a = a\<lparr> sg_added := sg_added a @ [(of_nat (sg_id a), f)], sg_id := Suc (sg_id a) \<rparr>"

definition sig_unsubscribe :: "size_t \<Rightarrow> 'f signal_spec \<Rightarrow> 'f signal_spec" where
  "sig_unsubscribe i a =
     a\<lparr> sg_added := filter (\<lambda>e. fst e \<noteq> i) (sg_added a), sg_removed := insert i (sg_removed a) \<rparr>"

fun sig_act :: "'f obs_action \<Rightarrow> 'f signal_spec \<Rightarrow> 'f signal_spec" where
  "sig_act (Act_subscribe f) = sig_subscribe f"
| "sig_act (Act_unsubscribe i) = sig_unsubscribe i"

fun sig_loop ::
    "('f \<Rightarrow> bool) \<Rightarrow> (size_t \<Rightarrow> 'f obs_action list) \<Rightarrow> (size_t \<times> 'f) list \<Rightarrow> (size_t \<times> 'f) list \<Rightarrow> 'f signal_spec \<Rightarrow>
     'f signal_spec \<times> (size_t \<times> 'f) list" where
  "sig_loop expired acts kept [] a = (a\<lparr> sg_list := kept \<rparr>, [])"
| "sig_loop expired acts kept ((i, f) # todo) a =
     (if i \<in> sg_removed a then sig_loop expired acts kept todo (a\<lparr> sg_removed := sg_removed a - {i} \<rparr>)
      else (let (a, calls) = sig_loop expired acts (if expired f then kept else kept @ [(i, f)]) todo
                               (fold sig_act (acts i) a)
            in (a, (i, f) # calls)))"

definition sig_clear_removed :: "'f signal_spec \<Rightarrow> 'f signal_spec" where
  "sig_clear_removed a = a\<lparr> sg_list := filter (\<lambda>e. fst e \<notin> sg_removed a) (sg_list a), sg_removed := {} \<rparr>"

definition sig_notify ::
    "('f \<Rightarrow> bool) \<Rightarrow> (size_t \<Rightarrow> 'f obs_action list) \<Rightarrow> 'f signal_spec \<Rightarrow> 'f signal_spec \<times> (size_t \<times> 'f) list" where
  "sig_notify expired acts a =
     (let (a, calls) = sig_loop expired acts [] (sg_list a @ sg_added a) (a\<lparr> sg_added := [] \<rparr>)
      in (sig_clear_removed a, calls))"

definition sig_clear :: "'f signal_spec \<Rightarrow> 'f signal_spec" where
  "sig_clear a = a\<lparr> sg_list := [], sg_added := [], sg_removed := {} \<rparr>"

subsection \<open>The refinement\<close>

definition entries :: "(addr \<times> 'f slot_info) list \<Rightarrow> (size_t \<times> 'f) list" where
  "entries rs = map (\<lambda>n. (slot_ident n, si_slot (snd n))) rs"

lemma entries_simps [simp]:
  "entries [] = []" "entries (n # rs) = (slot_ident n, si_slot (snd n)) # entries rs" "entries (xs @ ys) = entries xs @ entries ys"
  "filter Q (entries rs) = entries (filter (\<lambda>n. Q (slot_ident n, si_slot (snd n))) rs)"
  by (simp_all add: entries_def filter_map comp_def)

definition obs_at ::
    "'f observer \<Rightarrow> (addr \<times> 'f slot_info) list \<Rightarrow> (addr \<times> 'f slot_info) list \<Rightarrow> bool" where
  "obs_at ob rs as \<longleftrightarrow>
     repr (ob_heap ob) (ob_list ob) rs \<and> repr (ob_heap ob) (ob_added ob) as \<and> refs rs \<inter> refs as = {}
     \<and> (\<forall>r \<in> refs rs \<union> refs as. r < ob_next ob) \<and> ids_sorted (rs @ as)
     \<and> 0 < ob_id ob \<and> (\<forall>n \<in> set (rs @ as). 0 < slot_ident n \<and> slot_ident n < ob_id ob)"

definition obs_rel :: "'f observer \<Rightarrow> (addr \<times> 'f slot_info) list \<Rightarrow> (addr \<times> 'f slot_info) list \<Rightarrow> 'f signal_spec \<Rightarrow> bool" where
  "obs_rel ob rs as a \<longleftrightarrow> obs_at ob rs as \<and> sg_list a = entries rs \<and> sg_added a = entries as
     \<and> sg_removed a = ob_removed ob \<and> unat (ob_id ob) = sg_id a"

lemma distinct_words_bound:
  fixes ws :: "size_t list"
  assumes "distinct ws" and "0 \<notin> set ws"
  shows "length ws < 2 ^ 64"
proof -
  have "length ws = card (set ws)" using assms(1) by (simp add: distinct_card)
  also have "\<dots> < card (UNIV :: size_t set)" using assms(2) by (intro psubset_card_mono) auto
  also have "\<dots> = 2 ^ 64" by (simp add: card_word)
  finally show ?thesis .
qed

lemma ids_sorted_distinct: "ids_sorted rs \<Longrightarrow> distinct (map slot_ident rs)"
  by (induction rs) (auto simp: ids_sorted_Cons)

lemma obs_at_length:
  assumes "obs_at ob rs as"
  shows "length as < 2 ^ 64"
proof -
  have "ids_sorted as" using assms by (simp add: obs_at_def ids_sorted_append)
  moreover have "0 < slot_ident n" if "n \<in> set as" for n using assms that by (simp add: obs_at_def)
  then have "0 \<notin> set (map slot_ident as)" by (metis (no_types, lifting) imageE less_irrefl set_map)
  ultimately show ?thesis using distinct_words_bound [OF ids_sorted_distinct] by fastforce
qed

lemma connect_sim:
  assumes r: "obs_rel ob rs as a" and b: "Suc (sg_id a) < 2 ^ 64"
  shows "\<exists>ob' as'. ob_connect f ob = Some (ob', ob_id ob) \<and> obs_rel ob' rs as' (sig_subscribe f a)"
proof -
  let ?s = "\<lparr> si_slot = f, si_id = ob_id ob \<rparr>"
  from r have o: "repr (ob_heap ob) (ob_list ob) rs" "repr (ob_heap ob) (ob_added ob) as" "refs rs \<inter> refs as = {}"
    "\<forall>r \<in> refs rs \<union> refs as. r < ob_next ob" "ids_sorted (rs @ as)"
    "\<forall>n \<in> set (rs @ as). 0 < slot_ident n \<and> slot_ident n < ob_id ob" "unat (ob_id ob) = sg_id a" "0 < ob_id ob"
    by (auto simp: obs_rel_def obs_at_def)
  have nf: "ob_next ob \<notin> refs rs" "ob_next ob \<notin> refs as" using o(4) by auto
  obtain h l where p: "list_push_back (ob_heap ob) (ob_added ob) (ob_next ob) ?s = Some (h, l)"
    "repr h l (as @ [(ob_next ob, ?s)])" "\<And>q. q \<notin> insert (ob_next ob) (refs as) \<Longrightarrow> h q = ob_heap ob q"
    using push_back_repr [OF o(2) nf(2)] by metis
  have rl: "repr h (ob_list ob) rs"
  proof (rule repr_frame [OF o(1)])
    fix q assume "q \<in> refs rs"
    with nf(1) o(3) have "q \<notin> insert (ob_next ob) (refs as)" by blast
    then show "h q = ob_heap ob q" by (rule p(3))
  qed
  have idn: "of_nat (sg_id a) = ob_id ob" using o(7) [symmetric] by simp
  have up: "ob_id ob < ob_id ob + 1" "unat (ob_id ob + 1) = Suc (sg_id a)"
    using o(7) b by (simp_all add: word_less_nat_alt unat_word_ariths)
  have "ids_sorted (rs @ as @ [(ob_next ob, ?s)])"
    using o(5,6) by (auto simp: ids_sorted_append ids_sorted_Cons)
  then show ?thesis using r p(1,2) rl nf o up idn
    by (intro exI [of _ "ob\<lparr> ob_heap := h, ob_added := l, ob_id := ob_id ob + 1, ob_next := Suc (ob_next ob) \<rparr>"]
          exI [of _ "as @ [(ob_next ob, ?s)]"])
      (auto simp: ob_connect_def obs_rel_def obs_at_def sig_subscribe_def less_Suc_eq intro: less_trans)
qed

lemma unsubscribe_sim:
  assumes r: "obs_rel ob rs as a"
  shows "\<exists>ob'. ob_unsubscribe i ob = Some ob' \<and> obs_rel ob' rs (without i as) (sig_unsubscribe i a)"
proof -
  from r have o: "repr (ob_heap ob) (ob_list ob) rs" "repr (ob_heap ob) (ob_added ob) as" "refs rs \<inter> refs as = {}"
    "ids_sorted as" "length as < 2 ^ 64"
    using obs_at_length [of ob rs as] by (auto simp: obs_rel_def obs_at_def ids_sorted_append)
  obtain h l where p: "remove_by_index (ob_heap ob) (ob_added ob) i = Some (h, l)"
    "repr h l (without i as)" "\<And>q. q \<notin> refs as \<Longrightarrow> h q = ob_heap ob q"
    using remove_by_index_repr [OF o(2,4,5), of i] by (auto simp: removes_def)
  have rl: "repr h (ob_list ob) rs" by (rule repr_frame [OF o(1)]) (use p(3) o(3) in blast)
  have sub: "refs (without i as) \<subseteq> refs as" by (auto simp: refs_def)
  have srt: "ids_sorted (rs @ without i as)"
    using r by (auto simp: obs_rel_def obs_at_def ids_sorted_append ids_sorted_filter)
  show ?thesis using r p(1,2) rl sub srt
    by (auto simp: ob_unsubscribe_def obs_rel_def obs_at_def sig_unsubscribe_def)
qed

lemma act_counts: "sg_id a \<le> sg_id (fold sig_act as a)"
proof (induction as arbitrary: a)
  case (Cons c as)
  have "sg_id a \<le> sg_id (sig_act c a)" by (cases c) (auto simp: sig_subscribe_def sig_unsubscribe_def)
  with Cons [of "sig_act c a"] show ?case by simp
qed simp

lemma acts_sim:
  assumes "obs_rel ob rs as a" and "sg_id (fold sig_act cs a) < 2 ^ 64"
  shows "\<exists>ob' as'. ob_acts cs ob = Some ob' \<and> obs_rel ob' rs as' (fold sig_act cs a)"
  using assms
proof (induction cs arbitrary: ob as a)
  case (Cons c cs)
  have "sg_id (sig_act c a) < 2 ^ 64" using Cons.prems(2) act_counts [of "sig_act c a" cs] by simp
  then have "\<exists>ob' as'. ob_act c ob = Some ob' \<and> obs_rel ob' rs as' (sig_act c a)"
    using connect_sim [OF Cons.prems(1)] unsubscribe_sim [OF Cons.prems(1)]
    by (cases c) (fastforce simp: sig_subscribe_def)+
  then obtain ob1 as1 where "ob_act c ob = Some ob1" "obs_rel ob1 rs as1 (sig_act c a)" by blast
  with Cons.IH [of ob1 as1 "sig_act c a"] Cons.prems(2) show ?case by simp
qed auto

text \<open>Inside the loop the list of the specification is what was kept and what is still to do.\<close>

lemma loop_counts: "sg_id a \<le> sg_id (fst (sig_loop expired acts kept todo a))"
proof (induction todo arbitrary: kept a)
  case (Cons e todo)
  obtain i f where e: "e = (i, f)" by fastforce
  let ?kept = "if expired f then kept else kept @ [(i, f)]"
  show ?case
  proof (cases "i \<in> sg_removed a")
    case True
    then show ?thesis using Cons [of "a\<lparr> sg_removed := sg_removed a - {i} \<rparr>" kept] by (simp add: e)
  next
    case False
    have "sg_id a \<le> sg_id (fst (sig_loop expired acts ?kept todo (fold sig_act (acts i) a)))"
      using Cons [of "fold sig_act (acts i) a" ?kept] act_counts [of a "acts i"] by simp
    with False show ?thesis by (simp add: e split_beta)
  qed
qed simp

lemma act_upd_list: "fold sig_act cs (a\<lparr> sg_list := x \<rparr>) = (fold sig_act cs a)\<lparr> sg_list := x \<rparr>"
proof (induction cs arbitrary: a)
  case (Cons c cs)
  have "sig_act c (a\<lparr> sg_list := x \<rparr>) = (sig_act c a)\<lparr> sg_list := x \<rparr>"
    by (cases c) (simp_all add: sig_subscribe_def sig_unsubscribe_def)
  with Cons show ?case by simp
qed simp

lemma erase_sim:
  assumes r: "obs_rel ob (ks @ (q, x) # ts) as a"
  shows "\<exists>h l. list_erase (ob_heap ob) (ob_list ob) (Some q) = Some (h, l, hd_ref None ts)
    \<and> obs_rel (ob\<lparr> ob_heap := h, ob_list := l \<rparr>) (ks @ ts) as (a\<lparr> sg_list := entries (ks @ ts) \<rparr>)"
proof -
  from r have o: "repr (ob_heap ob) (ob_list ob) (ks @ (q, x) # ts)" "repr (ob_heap ob) (ob_added ob) as"
    "refs (ks @ (q, x) # ts) \<inter> refs as = {}" "ids_sorted ((ks @ (q, x) # ts) @ as)"
    by (auto simp: obs_rel_def obs_at_def)
  obtain h l where e: "list_erase (ob_heap ob) (ob_list ob) (Some q) = Some (h, l, hd_ref None ts)"
    "repr h l (ks @ ts)" "\<And>p. p \<notin> refs (ks @ (q, x) # ts) \<Longrightarrow> h p = ob_heap ob p"
    using list_erase_repr [OF o(1)] by metis
  have "repr h (ob_added ob) as" by (rule repr_frame [OF o(2)]) (use e(3) o(3) in blast)
  moreover have "ids_sorted ((ks @ ts) @ as)" using o(4) by (simp add: ids_sorted_append ids_sorted_Cons)
  ultimately show ?thesis using r e(1,2) o(3) by (auto simp: obs_rel_def obs_at_def)
qed

lemma removed_sim:
  assumes "obs_rel ob rs as a"
  shows "obs_rel (ob\<lparr> ob_removed := ob_removed ob - {i} \<rparr>) rs as (a\<lparr> sg_removed := sg_removed a - {i} \<rparr>)"
  using assms by (simp add: obs_rel_def obs_at_def)

lemma obs_rel_node:
  assumes "obs_rel ob (ks @ (q, x) # ts) as a"
  shows "ob_heap ob q = Some \<lparr> nd_prev = last_ref None ks, nd_next = hd_ref None ts, nd_data = x \<rparr>"
  using assms repr_node [of "ob_heap ob" "ob_list ob" ks q x ts] by (simp add: obs_rel_def obs_at_def)

lemma notify_loop_sim:
  assumes "obs_rel ob (ks @ ts) as (a\<lparr> sg_list := entries (ks @ ts) \<rparr>)"
    and "sg_id (fst (sig_loop expired acts (entries ks) (entries ts) a)) < 2 ^ 64"
  shows "\<exists>ob' rs' as'. notify_loop expired acts (hd_ref None ts) ob
      = Some (ob', snd (sig_loop expired acts (entries ks) (entries ts) a))
    \<and> obs_rel ob' rs' as' (fst (sig_loop expired acts (entries ks) (entries ts) a))"
  using assms
proof (induction ts arbitrary: ob ks as a)
  case Nil
  then show ?case by (subst notify_loop.simps) auto
next
  case (Cons n ts)
  obtain q x where n: "n = (q, x)" by fastforce
  let ?i = "si_id x" and ?f = "si_slot x"
  note rel = Cons.prems(1) [unfolded n]
  have rem: "sg_removed a = ob_removed ob" using rel by (simp add: obs_rel_def)
  note nd = obs_rel_node [OF rel]
  show ?case
  proof (cases "?i \<in> ob_removed ob")
    case True
    let ?a = "a\<lparr> sg_removed := sg_removed a - {?i} \<rparr>"
    let ?ob = "ob\<lparr> ob_removed := ob_removed ob - {?i} \<rparr>"
    obtain h l where e: "list_erase (ob_heap ob) (ob_list ob) (Some q) = Some (h, l, hd_ref None ts)"
      "obs_rel (?ob\<lparr> ob_heap := h, ob_list := l \<rparr>) (ks @ ts) as (?a\<lparr> sg_list := entries (ks @ ts) \<rparr>)"
      using erase_sim [OF removed_sim [OF rel, of ?i]] by auto
    have "notify_loop expired acts (Some q) ob
        = notify_loop expired acts (hd_ref None ts) (?ob\<lparr> ob_heap := h, ob_list := l \<rparr>)"
      using e(1) nd True by (subst notify_loop.simps) (simp add: itr_get_def ob_is_removed_def)
    then show ?thesis using Cons.IH [OF e(2)] Cons.prems(2) True rem n by simp
  next
    case False
    let ?a = "fold sig_act (acts ?i) a"
    let ?kept = "if expired ?f then entries ks else entries ks @ [(?i, ?f)]"
    let ?ob = "ob\<lparr> ob_removed := ob_removed ob - {?i} \<rparr>"
    have ob: "?ob = ob" using False by simp
    obtain a' calls where lp: "sig_loop expired acts ?kept (entries ts) ?a = (a', calls)" by fastforce
    then have spec: "sig_loop expired acts (entries ks) (entries (n # ts)) a = (a', (?i, ?f) # calls)"
      using False rem n by simp
    then have bnd: "sg_id a' < 2 ^ 64" using Cons.prems(2) by simp
    have "sg_id ?a < 2 ^ 64" using loop_counts [of ?a expired acts ?kept "entries ts"] lp bnd by simp
    then obtain ob1 as1 where o1: "ob_acts (acts ?i) ob = Some ob1"
      "obs_rel ob1 (ks @ (q, x) # ts) as1 (?a\<lparr> sg_list := entries (ks @ (q, x) # ts) \<rparr>)"
      using acts_sim [OF rel, of "acts ?i"] by (auto simp: act_upd_list)
    note nd1 = obs_rel_node [OF o1(2)]
    show ?thesis
    proof (cases "expired ?f")
      case True
      obtain h l where e: "list_erase (ob_heap ob1) (ob_list ob1) (Some q) = Some (h, l, hd_ref None ts)"
        "obs_rel (ob1\<lparr> ob_heap := h, ob_list := l \<rparr>) (ks @ ts) as1 (?a\<lparr> sg_list := entries (ks @ ts) \<rparr>)"
        using erase_sim [OF o1(2)] by auto
      obtain ob2 rs2 as2 where s2: "notify_loop expired acts (hd_ref None ts) (ob1\<lparr> ob_heap := h, ob_list := l \<rparr>) = Some (ob2, calls)"
        "obs_rel ob2 rs2 as2 a'"
        using Cons.IH [OF e(2)] lp True bnd by auto
      have "notify_loop expired acts (Some q) ob = Some (ob2, (?i, ?f) # calls)"
        using e(1) nd False True o1(1) s2(1) by (subst notify_loop.simps) (simp add: itr_get_def ob_is_removed_def)
      then show ?thesis using spec s2(2) n by auto
    next
      case nex: False
      have eq: "ks @ (q, x) # ts = (ks @ [(q, x)]) @ ts" by simp
      obtain ob2 rs2 as2 where s2: "notify_loop expired acts (hd_ref None ts) ob1 = Some (ob2, calls)" "obs_rel ob2 rs2 as2 a'"
        using Cons.IH [OF o1(2) [unfolded eq]] lp nex bnd by auto
      have "notify_loop expired acts (Some q) ob = Some (ob2, (?i, ?f) # calls)"
        using nd nd1 False nex o1(1) s2(1)
        by (subst notify_loop.simps) (simp add: itr_get_def itr_inc_def ob_is_removed_def)
      then show ?thesis using spec s2(2) n by auto
    qed
  qed
qed

lemma splice_sim:
  assumes r: "obs_rel ob rs as a"
  shows "\<exists>ob'. splice_added ob = Some ob'
    \<and> obs_rel ob' (rs @ as) [] (a\<lparr> sg_added := [], sg_list := entries (rs @ as) \<rparr>)"
proof -
  from r have "repr (ob_heap ob) (ob_list ob) rs" "repr (ob_heap ob) (ob_added ob) as" "refs rs \<inter> refs as = {}"
    by (auto simp: obs_rel_def obs_at_def)
  from splice_back_repr [OF this] r show ?thesis
    by (auto simp: splice_added_def obs_rel_def obs_at_def)
qed

lemma clear_removed_sim:
  assumes r: "obs_rel ob rs as a"
  shows "\<exists>ob' rs'. ob_clear_removed ob = Some ob' \<and> obs_rel ob' rs' as (sig_clear_removed a)"
proof -
  let ?bs = "sorted_list_of_set (ob_removed ob)"
  have fin: "set ?bs = ob_removed ob" by (rule set_sorted_list_of_set) (rule finite)
  have bs: "sorted_wrt (<) ?bs" by (rule strict_sorted_list_of_set)
  from r have o: "repr (ob_heap ob) (ob_list ob) rs" "repr (ob_heap ob) (ob_added ob) as" "refs rs \<inter> refs as = {}"
    "ids_sorted rs" "ids_sorted (rs @ as)"
    by (auto simp: obs_rel_def obs_at_def ids_sorted_append)
  let ?rs = "filter (\<lambda>n. slot_ident n \<notin> ob_removed ob) rs"
  obtain h l where c: "clear_removed_loop ?bs (hd_ref None rs) (ob_heap ob) (ob_list ob) = Some (h, l)"
    "repr h l ?rs" "\<And>q. q \<notin> refs rs \<Longrightarrow> h q = ob_heap ob q"
    using clear_removed_repr [of "ob_heap ob" "ob_list ob" "[]" rs ?bs] o(1,4) bs unfolding fin by auto
  have ra: "repr h (ob_added ob) as" by (rule repr_frame [OF o(2)]) (use c(3) o(3) in blast)
  have b: "list_begin (ob_list ob) = hd_ref None rs" using o(1) by (simp add: list_begin_def repr_def)
  have sub: "refs ?rs \<subseteq> refs rs" by (auto simp: refs_def)
  have srt: "ids_sorted (?rs @ as)" using o(5) by (auto simp: ids_sorted_append ids_sorted_filter)
  have "\<exists>ob'. ob_clear_removed ob = Some ob' \<and> obs_rel ob' ?rs as (sig_clear_removed a)"
    using r c(1,2) ra b sub srt
    by (auto simp: ob_clear_removed_def obs_rel_def obs_at_def sig_clear_removed_def)
  then show ?thesis by blast
qed

lemma notify_sim:
  assumes r: "obs_rel ob rs as a" and b: "sg_id (fst (sig_notify expired acts a)) < 2 ^ 64"
  shows "\<exists>ob' rs' as'. notify expired acts ob = Some (ob', snd (sig_notify expired acts a))
    \<and> obs_rel ob' rs' as' (fst (sig_notify expired acts a))"
proof -
  let ?a = "a\<lparr> sg_added := [] \<rparr>"
  let ?lp = "sig_loop expired acts [] (entries (rs @ as)) ?a"
  have todo: "sg_list a @ sg_added a = entries (rs @ as)" using r by (simp add: obs_rel_def)
  have spec: "sig_notify expired acts a = (sig_clear_removed (fst ?lp), snd ?lp)"
    unfolding sig_notify_def todo by (simp add: split_beta Let_def)
  obtain ob1 where 1: "splice_added ob = Some ob1" "obs_rel ob1 ([] @ rs @ as) [] (?a\<lparr> sg_list := entries ([] @ rs @ as) \<rparr>)"
    using splice_sim [OF r] by auto
  have "sg_id (fst (sig_loop expired acts (entries []) (entries (rs @ as)) ?a)) < 2 ^ 64"
    using b spec by (simp add: sig_clear_removed_def)
  from notify_loop_sim [OF 1(2) this] obtain ob2 rs2 as2
    where 2: "notify_loop expired acts (hd_ref None (rs @ as)) ob1 = Some (ob2, snd ?lp)" "obs_rel ob2 rs2 as2 (fst ?lp)"
    by (auto simp del: ref_simps)
  obtain ob3 rs3 where 3: "ob_clear_removed ob2 = Some ob3" "obs_rel ob3 rs3 as2 (sig_clear_removed (fst ?lp))"
    using clear_removed_sim [OF 2(2)] by auto
  have "list_begin (ob_list ob1) = hd_ref None (rs @ as)"
    using 1(2) by (simp add: obs_rel_def obs_at_def repr_def list_begin_def)
  with 1(1) 2(1) 3 show ?thesis unfolding spec by (auto simp: notify_def simp del: ref_simps)
qed

lemma clear_sim:
  assumes r: "obs_rel ob rs as a"
  shows "\<exists>ob'. unsubscribe_all ob = Some ob' \<and> obs_rel ob' [] [] (sig_clear a)"
proof -
  from r have o: "repr (ob_heap ob) (ob_list ob) rs" "repr (ob_heap ob) (ob_added ob) as" "refs rs \<inter> refs as = {}"
    by (auto simp: obs_rel_def obs_at_def)
  obtain h l where 1: "erase_each (hd_ref None rs) (ob_heap ob) (ob_list ob) = Some (h, l)" "repr h l []"
    "\<And>q. q \<notin> refs rs \<Longrightarrow> h q = ob_heap ob q" using erase_each_repr [OF o(1)] by auto
  have ra: "repr h (ob_added ob) as" by (rule repr_frame [OF o(2)]) (use 1(3) o(3) in blast)
  obtain h2 l2 where 2: "erase_each (hd_ref None as) h (ob_added ob) = Some (h2, l2)" "repr h2 l2 []"
    using erase_each_repr [OF ra] by auto
  have "repr h2 l []" using 1(2) by (simp add: repr_def)
  moreover have "list_begin (ob_list ob) = hd_ref None rs" "list_begin (ob_added ob) = hd_ref None as"
    using o by (simp_all add: list_begin_def repr_def)
  ultimately show ?thesis using 1(1) 2 r
    by (auto simp: unsubscribe_all_def obs_rel_def obs_at_def sig_clear_def)
qed

subsection \<open>Histories\<close>

datatype 'f obs_cmd =
    O_subscribe 'f
  | O_unsubscribe size_t
  | O_unsubscribe_all
  | O_notify "size_t \<Rightarrow> 'f obs_action list"

fun ob_cmd :: "('f \<Rightarrow> bool) \<Rightarrow> 'f obs_cmd \<Rightarrow> 'f observer \<Rightarrow> ('f observer \<times> (size_t \<times> 'f) list) option" where
  "ob_cmd expired (O_subscribe f) ob = map_option (\<lambda>(ob, i). (ob, [])) (ob_connect f ob)"
| "ob_cmd expired (O_unsubscribe i) ob = map_option (\<lambda>ob. (ob, [])) (ob_unsubscribe i ob)"
| "ob_cmd expired O_unsubscribe_all ob = map_option (\<lambda>ob. (ob, [])) (unsubscribe_all ob)"
| "ob_cmd expired (O_notify acts) ob = notify expired acts ob"

fun ob_run :: "('f \<Rightarrow> bool) \<Rightarrow> 'f obs_cmd list \<Rightarrow> 'f observer \<Rightarrow> ('f observer \<times> (size_t \<times> 'f) list list) option" where
  "ob_run expired [] ob = Some (ob, [])"
| "ob_run expired (c # cs) ob = do {
     (ob, out) \<leftarrow> ob_cmd expired c ob;
     (ob, outs) \<leftarrow> ob_run expired cs ob;
     Some (ob, out # outs) }"

fun sig_cmd :: "('f \<Rightarrow> bool) \<Rightarrow> 'f obs_cmd \<Rightarrow> 'f signal_spec \<Rightarrow> 'f signal_spec \<times> (size_t \<times> 'f) list" where
  "sig_cmd expired (O_subscribe f) a = (sig_subscribe f a, [])"
| "sig_cmd expired (O_unsubscribe i) a = (sig_unsubscribe i a, [])"
| "sig_cmd expired O_unsubscribe_all a = (sig_clear a, [])"
| "sig_cmd expired (O_notify acts) a = sig_notify expired acts a"

fun sig_run :: "('f \<Rightarrow> bool) \<Rightarrow> 'f obs_cmd list \<Rightarrow> 'f signal_spec \<Rightarrow> 'f signal_spec \<times> (size_t \<times> 'f) list list" where
  "sig_run expired [] a = (a, [])"
| "sig_run expired (c # cs) a =
     (let (a, out) = sig_cmd expired c a; (a, outs) = sig_run expired cs a in (a, out # outs))"

lemma sig_cmd_counts: "sg_id a \<le> sg_id (fst (sig_cmd expired c a))"
proof (cases c)
  case (O_notify acts)
  then show ?thesis
    using loop_counts [of "a\<lparr> sg_added := [] \<rparr>" expired acts "[]" "sg_list a @ sg_added a"]
    by (simp add: sig_notify_def sig_clear_removed_def split_beta Let_def)
qed (auto simp: sig_subscribe_def sig_unsubscribe_def sig_clear_def)

lemma sig_run_counts: "sg_id a \<le> sg_id (fst (sig_run expired cs a))"
proof (induction cs arbitrary: a)
  case (Cons c cs)
  have "sg_id a \<le> sg_id (fst (sig_cmd expired c a))" by (rule sig_cmd_counts)
  also have "\<dots> \<le> sg_id (fst (sig_run expired cs (fst (sig_cmd expired c a))))" by (rule Cons)
  finally show ?case by (simp add: split_beta Let_def)
qed simp

lemma cmd_sim:
  assumes r: "obs_rel ob rs as a" and b: "sg_id (fst (sig_cmd expired c a)) < 2 ^ 64"
  shows "\<exists>ob' rs' as'. ob_cmd expired c ob = Some (ob', snd (sig_cmd expired c a))
    \<and> obs_rel ob' rs' as' (fst (sig_cmd expired c a))"
proof (cases c)
  case (O_subscribe f)
  then show ?thesis using connect_sim [OF r, of f] b by (fastforce simp: sig_subscribe_def)
next
  case (O_unsubscribe i)
  then show ?thesis using unsubscribe_sim [OF r, of i] by fastforce
next
  case O_unsubscribe_all
  then show ?thesis using clear_sim [OF r] by fastforce
next
  case (O_notify acts)
  then show ?thesis using notify_sim [OF r, of expired acts] b by simp
qed

lemma run_sim:
  assumes "obs_rel ob rs as a" and "sg_id (fst (sig_run expired cs a)) < 2 ^ 64"
  shows "\<exists>ob' rs' as'. ob_run expired cs ob = Some (ob', snd (sig_run expired cs a))
    \<and> obs_rel ob' rs' as' (fst (sig_run expired cs a))"
  using assms
proof (induction cs arbitrary: ob rs as a)
  case (Cons c cs)
  let ?a = "fst (sig_cmd expired c a)"
  have fin: "fst (sig_run expired (c # cs) a) = fst (sig_run expired cs ?a)"
    "snd (sig_run expired (c # cs) a) = snd (sig_cmd expired c a) # snd (sig_run expired cs ?a)"
    by (simp_all add: split_beta Let_def)
  have b: "sg_id (fst (sig_run expired cs ?a)) < 2 ^ 64" using Cons.prems(2) fin(1) by simp
  then have "sg_id ?a < 2 ^ 64" using sig_run_counts [of ?a expired cs] by simp
  from cmd_sim [OF Cons.prems(1) this] obtain ob1 rs1 as1
    where 1: "ob_cmd expired c ob = Some (ob1, snd (sig_cmd expired c a))" "obs_rel ob1 rs1 as1 ?a" by blast
  from Cons.IH [OF 1(2) b] obtain ob2 rs2 as2
    where "ob_run expired cs ob1 = Some (ob2, snd (sig_run expired cs ?a))"
      "obs_rel ob2 rs2 as2 (fst (sig_run expired cs ?a))" by blast
  with 1(1) show ?case unfolding fin by (intro exI [of _ ob2] exI [of _ rs2] exI [of _ as2]) simp
qed auto

lemma obs_rel_new: "obs_rel observer_new [] [] signal_new"
  by (simp add: obs_rel_def obs_at_def observer_new_def signal_new_def)

text \<open>
  C13. The observer implements its specification: every history of subscriptions, unsubscriptions and
  notifications, with further subscriptions and unsubscriptions while slots run, calls the same
  slots in the same order as the specification on plain sequences; every notification returns, and
  no access to a freed node happens. The history must give fewer than \<open>2 ^ 64\<close> identifiers.
\<close>

theorem observer_refines_signal:
  assumes "sg_id (fst (sig_run expired cs signal_new)) < 2 ^ 64"
  shows "\<exists>ob. ob_run expired cs observer_new = Some (ob, snd (sig_run expired cs signal_new))"
  using run_sim [OF obs_rel_new assms] by blast

theorem observer_refines_signal_witness:
  "\<exists>ob. ob_run simple_expired [O_subscribe ''a'', O_subscribe ''b'', O_subscribe ''c'',
        O_notify (\<lambda>i. if i = 1 then [Act_unsubscribe 2, Act_subscribe ''d''] else []), O_notify (\<lambda>_. [])] observer_new
      = Some (ob, [[], [], [], [(1, ''a''), (3, ''c'')], [(1, ''a''), (3, ''c''), (4, ''d'')]])"
proof -
  let ?cs = "[O_subscribe ''a'', O_subscribe ''b'', O_subscribe ''c'',
        O_notify (\<lambda>i. if i = 1 then [Act_unsubscribe 2, Act_subscribe ''d''] else []), O_notify (\<lambda>_. [])]"
  note defs = sig_subscribe_def sig_unsubscribe_def sig_notify_def sig_clear_removed_def simple_expired_def signal_new_def
  have "sg_id (fst (sig_run simple_expired ?cs signal_new)) < 2 ^ 64" by (simp add: defs Let_def)
  from observer_refines_signal [OF this]
  show ?thesis by (simp add: defs Let_def)
qed

subsection \<open>Who is called\<close>

text \<open>The subscribers at a moment, from the history alone. An unsubscription names an identifier that
  was given out; nothing happens to the observer while slots run.\<close>

fun live_cmd :: "'f obs_cmd \<Rightarrow> (size_t \<times> 'f) list \<times> nat \<Rightarrow> (size_t \<times> 'f) list \<times> nat" where
  "live_cmd (O_subscribe f) (live, n) = (live @ [(of_nat n, f)], Suc n)"
| "live_cmd (O_unsubscribe i) (live, n) = (filter (\<lambda>e. fst e \<noteq> i) live, n)"
| "live_cmd O_unsubscribe_all (live, n) = ([], n)"
| "live_cmd (O_notify acts) (live, n) = (live, n)"

fun quiet_cmd :: "nat \<Rightarrow> 'f obs_cmd \<Rightarrow> bool" where
  "quiet_cmd n (O_unsubscribe i) \<longleftrightarrow> unat i < n"
| "quiet_cmd n (O_notify acts) \<longleftrightarrow> acts = (\<lambda>_. [])"
| "quiet_cmd n _ \<longleftrightarrow> True"

fun quiet_history :: "'f obs_cmd list \<Rightarrow> (size_t \<times> 'f) list \<times> nat \<Rightarrow> bool" where
  "quiet_history [] s \<longleftrightarrow> True"
| "quiet_history (c # cs) s \<longleftrightarrow> quiet_cmd (snd s) c \<and> quiet_history cs (live_cmd c s)"

definition live_rel :: "'f signal_spec \<Rightarrow> (size_t \<times> 'f) list \<times> nat \<Rightarrow> bool" where
  "live_rel a s \<longleftrightarrow>
     fst s = filter (\<lambda>e. fst e \<notin> sg_removed a) (sg_list a @ sg_added a) \<and> snd s = sg_id a
     \<and> (\<forall>i \<in> sg_removed a \<union> fst ` set (sg_list a @ sg_added a). unat i < sg_id a)
     \<and> distinct (map fst (sg_list a @ sg_added a))"

lemma quiet_loop:
  "distinct (map fst todo) \<Longrightarrow>
   sig_loop simple_expired (\<lambda>_. []) kept todo a
     = (a\<lparr> sg_list := kept @ filter (\<lambda>e. fst e \<notin> sg_removed a) todo,
           sg_removed := sg_removed a - {i \<in> sg_removed a. i \<in> fst ` set todo} \<rparr>,
        filter (\<lambda>e. fst e \<notin> sg_removed a) todo)"
proof (induction todo arbitrary: kept a)
  case (Cons e todo)
  obtain i f where e: "e = (i, f)" by fastforce
  have flt: "filter (\<lambda>e. fst e \<notin> sg_removed a - {i}) todo = filter (\<lambda>e. fst e \<notin> sg_removed a) todo"
    using Cons.prems e by (intro filter_cong) auto
  have set: "sg_removed a - {i} - {j \<in> sg_removed a - {i}. j \<in> fst ` set todo}
      = sg_removed a - {j \<in> sg_removed a. j = i \<or> j \<in> fst ` set todo}" by blast
  have set': "i \<notin> sg_removed a \<Longrightarrow> {j \<in> sg_removed a. j = i \<or> j \<in> fst ` set todo} = {j \<in> sg_removed a. j \<in> fst ` set todo}"
    by blast
  show ?case using Cons.IH Cons.prems e flt set set' by (auto simp: simple_expired_def)
qed (simp add: simple_expired_def)

lemma quiet_notify:
  assumes "live_rel a s"
  shows "snd (sig_notify simple_expired (\<lambda>_. []) a) = fst s"
    and "live_rel (fst (sig_notify simple_expired (\<lambda>_. []) a)) s"
proof -
  have d: "distinct (map fst (sg_list a @ sg_added a))" using assms by (simp add: live_rel_def)
  note lp = quiet_loop [OF d, of "[]" "a\<lparr> sg_added := [] \<rparr>"]
  show "snd (sig_notify simple_expired (\<lambda>_. []) a) = fst s"
    using assms lp by (simp add: sig_notify_def live_rel_def)
  show "live_rel (fst (sig_notify simple_expired (\<lambda>_. []) a)) s"
    using assms lp d by (auto simp: sig_notify_def sig_clear_removed_def live_rel_def distinct_map_filter cong: conj_cong)
qed

lemma live_step:
  assumes "live_rel a s" and "quiet_cmd (snd s) c" and "sg_id a < 2 ^ 64"
  shows "live_rel (fst (sig_cmd simple_expired c a)) (live_cmd c s)"
proof -
  obtain live n where s: "s = (live, n)" by fastforce
  show ?thesis
  proof (cases c)
    case (O_subscribe f)
    have u: "unat (of_nat (sg_id a) :: size_t) = sg_id a" using assms(3) by (intro unat_of_nat_small) simp
    have "of_nat (sg_id a) \<notin> sg_removed a \<union> fst ` set (sg_list a @ sg_added a)"
      using assms(1) u unfolding live_rel_def by (metis less_irrefl)
    with assms(1) O_subscribe s u show ?thesis
      by (auto simp: live_rel_def sig_subscribe_def less_Suc_eq)
  next
    case (O_unsubscribe i)
    with assms(1,2) s show ?thesis
      by (auto simp: live_rel_def sig_unsubscribe_def distinct_map_filter conj_commute intro!: filter_cong)
  next
    case O_unsubscribe_all
    with assms(1) s show ?thesis by (simp add: live_rel_def sig_clear_def)
  next
    case (O_notify acts)
    with assms quiet_notify(2) [OF assms(1)] s show ?thesis by simp
  qed
qed

lemma live_run:
  assumes "live_rel a s" and "quiet_history cs s" and "snd (fold live_cmd cs s) < 2 ^ 64"
  shows "live_rel (fst (sig_run simple_expired cs a)) (fold live_cmd cs s)"
  using assms
proof (induction cs arbitrary: a s)
  case (Cons c cs)
  have mono: "snd t \<le> snd (fold live_cmd ds t)" for ds t
  proof (induction ds arbitrary: t)
    case (Cons d ds)
    have "snd t \<le> snd (live_cmd d t)" by (cases t; cases d) auto
    with Cons [of "live_cmd d t"] show ?case by simp
  qed simp
  have "sg_id a < 2 ^ 64" using Cons.prems(1,3) mono [of s "c # cs"] by (simp add: live_rel_def)
  with Cons.prems live_step [OF Cons.prems(1)] have "live_rel (fst (sig_cmd simple_expired c a)) (live_cmd c s)" by simp
  from Cons.IH [OF this] Cons.prems show ?case by (simp add: split_beta Let_def)
qed simp

text \<open>
  A notification calls exactly the current subscribers, each once and in the order of their
  subscription: after any history of subscriptions, unsubscriptions of identifiers that were given
  out and notifications, the next notification calls the slots that were subscribed and not
  unsubscribed since, and nothing else.
\<close>

theorem notification_reaches_subscribers:
  assumes "quiet_history cs ([], 1)" and "snd (fold live_cmd cs ([], 1)) < 2 ^ 64"
  shows "\<exists>ob outs ob'. ob_run simple_expired cs observer_new = Some (ob, outs)
           \<and> notify simple_expired (\<lambda>_. []) ob = Some (ob', fst (fold live_cmd cs ([], 1)))"
proof -
  let ?a = "fst (sig_run simple_expired cs signal_new)"
  have "live_rel (signal_new :: 'a signal_spec) ([], 1)" by (simp add: live_rel_def signal_new_def)
  from live_run [OF this assms] have lv: "live_rel ?a (fold live_cmd cs ([], 1))" .
  then have b: "sg_id ?a < 2 ^ 64" using assms(2) by (simp add: live_rel_def)
  from run_sim [OF obs_rel_new b] obtain ob rs as
    where 1: "ob_run simple_expired cs observer_new = Some (ob, snd (sig_run simple_expired cs signal_new))"
      "obs_rel ob rs as ?a" by blast
  have "sg_id (fst (sig_notify simple_expired (\<lambda>_. []) ?a)) < 2 ^ 64"
    using quiet_notify(2) [OF lv] lv b by (simp add: live_rel_def)
  from notify_sim [OF 1(2) this] quiet_notify(1) [OF lv] 1(1) show ?thesis by auto
qed

theorem notification_reaches_subscribers_witness:
  "\<exists>ob outs ob'. ob_run simple_expired [O_subscribe ''a'', O_subscribe ''b'', O_notify (\<lambda>_. []), O_unsubscribe 1, O_subscribe ''c'']
        observer_new = Some (ob, outs)
      \<and> notify simple_expired (\<lambda>_. []) ob = Some (ob', [(2, ''b''), (3, ''c'')])"
proof -
  let ?cs = "[O_subscribe ''a'', O_subscribe ''b'', O_notify (\<lambda>_. []), O_unsubscribe 1, O_subscribe ''c'']"
  have "quiet_history ?cs ([], 1)" "snd (fold live_cmd ?cs ([], 1)) < 2 ^ 64" by simp_all
  from notification_reaches_subscribers [OF this] show ?thesis by simp
qed

subsection \<open>Subscription objects\<close>

text \<open>
  A subscription holds the key of its unsubscriber, or nothing. The operations of a scoped
  subscription also return the keys whose unsubscribers they run, in order.
\<close>

type_synonym subscription = "size_t option"

definition subscribe :: "'f \<Rightarrow> 'f observer \<Rightarrow> ('f observer \<times> subscription) option" where
  "subscribe f ob = do { (ob, next) \<leftarrow> ob_connect f ob; Some (ob, Some next) }"

definition run_unsubscriber :: "subscription \<Rightarrow> size_t list" where
  "run_unsubscriber s = (case s of None \<Rightarrow> [] | Some k \<Rightarrow> [k])"

definition sub_unsubscribe :: "subscription \<Rightarrow> 'f observer \<Rightarrow> 'f observer option" where
  "sub_unsubscribe s ob = (case s of None \<Rightarrow> Some ob | Some k \<Rightarrow> ob_unsubscribe k ob)"

definition scoped_unsubscribe :: "subscription \<Rightarrow> subscription \<times> size_t list" where
  "scoped_unsubscribe this = (this, run_unsubscriber this)"

definition scoped_destroy :: "subscription \<Rightarrow> size_t list" where
  "scoped_destroy this = snd (scoped_unsubscribe this)"

definition scoped_release :: "subscription \<Rightarrow> subscription \<times> subscription" where
  "scoped_release this = (None, this)"

definition scoped_reset :: "subscription \<Rightarrow> subscription \<times> size_t list" where
  "scoped_reset this = (None, run_unsubscriber this)"

text \<open>Assignment from another scoped subscription swaps the two and resets the other one.\<close>

definition scoped_assign :: "subscription \<Rightarrow> subscription \<Rightarrow> subscription \<times> subscription \<times> size_t list" where
  "scoped_assign this other = (case scoped_reset this of (o', runs) \<Rightarrow> (other, o', runs))"

definition scoped_assign_sub :: "subscription \<Rightarrow> subscription \<Rightarrow> subscription \<times> size_t list" where
  "scoped_assign_sub this o' = (case scoped_unsubscribe this of (_, runs) \<Rightarrow> (o', runs))"

text \<open>A key that a scoped subscription held is, after each operation, still held by one of the two or
  its unsubscriber has run.\<close>

lemma scoped_keeps_keys:
  "scoped_assign this other = (this', other', runs) \<Longrightarrow>
     set_option this \<union> set_option other = set_option this' \<union> set_option other' \<union> set runs"
  "scoped_reset this = (this', runs) \<Longrightarrow> set_option this = set_option this' \<union> set runs"
  "scoped_assign_sub this s = (this', runs) \<Longrightarrow> set_option this \<union> set_option s = set_option this' \<union> set runs"
  "scoped_release this = (this', s) \<Longrightarrow> set_option this = set_option this' \<union> set_option s"
  "set (scoped_destroy this) = set_option this"
  by (auto simp: scoped_assign_def scoped_reset_def scoped_assign_sub_def scoped_unsubscribe_def scoped_release_def
      scoped_destroy_def run_unsubscriber_def split: option.splits)

end
