(* ===== verification/Executors.thy ===== *)
theory Executors
  imports Prelude
begin

text \<open>
  What runs the handlers: the worker threads (\<open>lib/vtrc/common/thread-pool.cpp\<close>, \<open>pool-pair.cpp\<close>) and
  the periodic timer (\<open>include/vtrc/common/timers/periodical.h\<close>). The \<open>io_service\<close> and its timers belong to
  asio: what \<open>run_one\<close> does and when a timer expires are inputs.
\<close>

subsection \<open>A worker\<close>

text \<open>One call of \<open>run_one\<close>: it ran a handler, the handler raised (and the pool's exception handler
  raises in turn, or not), or it returned 0 because the service is stopped.\<close>

datatype run_one = Ran | Raised bool | Service_stopped

datatype worker_event = Call_prologue | Call_epilogue | Handler_run | Exception_handler

text \<open>The two loops of \<open>run_impl\<close>; \<open>None\<close>: the thread is still running when the trace ends. \<open>Inl\<close> is an
  exception that leaves the thread function.\<close>

fun run_loop :: "run_one list \<Rightarrow> (worker_event list \<times> (unit + bool)) option" where
  "run_loop [] = None"
| "run_loop (Ran # rs) = map_option (\<lambda>(evs, r). (Handler_run # evs, r)) (run_loop rs)"
| "run_loop (Raised again # rs) =
     (if again then Some ([Handler_run, Exception_handler], Inl ())
      else map_option (\<lambda>(evs, r). (Handler_run # Exception_handler # evs, r)) (run_loop rs))"
| "run_loop (Service_stopped # rs) = Some ([], Inr True)"

definition run_impl :: "bool \<Rightarrow> run_one list \<Rightarrow> (worker_event list \<times> (unit + bool)) option" where
  "run_impl prologue_raises rs =
     (if prologue_raises then Some ([Call_prologue], Inl ())
      else map_option (\<lambda>(evs, r). (Call_prologue # evs @ [Call_epilogue], r)) (run_loop rs))"

definition harmless :: "run_one \<Rightarrow> bool" where
  "harmless r \<longleftrightarrow> r = Ran \<or> r = Raised False"

definition handled :: "run_one \<Rightarrow> worker_event list" where
  "handled r = (case r of Ran \<Rightarrow> [Handler_run] | Raised _ \<Rightarrow> [Handler_run, Exception_handler] | Service_stopped \<Rightarrow> [])"

lemma run_loop_harmless:
  "\<forall>r \<in> set rs. harmless r \<Longrightarrow>
     run_loop (rs @ rest) = map_option (\<lambda>(evs, r). (concat (map handled rs) @ evs, r)) (run_loop rest)"
proof (induction rs)
  case (Cons r rs)
  then show ?case by (cases r) (auto simp: harmless_def handled_def option.map_comp comp_def split_beta)
qed (simp add: split_beta option.map_id0)

subsection \<open>The pool\<close>

record pool =
  tp_wrk :: bool
  tp_threads :: "nat set"
  tp_stopped :: "nat set"
  tp_ios_stopped :: bool
  tp_finished :: "nat set"

definition pool_new :: pool where
  "pool_new = \<lparr> tp_wrk = True, tp_threads = {}, tp_stopped = {}, tp_ios_stopped = False, tp_finished = {} \<rparr>"

text \<open>\<open>ids\<close> are the threads the system creates.\<close>

definition tp_add :: "nat list \<Rightarrow> pool \<Rightarrow> pool" where
  "tp_add ids p = p\<lparr> tp_threads := tp_threads p \<union> set ids, tp_stopped := {} \<rparr>"

definition tp_inc :: "nat \<Rightarrow> pool \<Rightarrow> pool" where
  "tp_inc i p = p\<lparr> tp_threads := insert i (tp_threads p), tp_stopped := {} \<rparr>"

definition tp_size :: "pool \<Rightarrow> nat" where
  "tp_size p = card (tp_threads p)"

definition tp_stop :: "pool \<Rightarrow> pool" where
  "tp_stop p = p\<lparr> tp_wrk := False, tp_ios_stopped := True, tp_stopped := {} \<rparr>"

text \<open>\<open>join_all\<close> can return when every thread of the pool but the calling one has ended.\<close>

definition tp_join_all :: "nat \<Rightarrow> pool \<Rightarrow> pool option" where
  "tp_join_all self p =
     (if tp_threads p - {self} \<subseteq> tp_finished p then Some (p\<lparr> tp_threads := {}, tp_stopped := {} \<rparr>) else None)"

text \<open>The end of a thread: \<open>run\<close> does not call \<open>move_to_stopped\<close>.\<close>

definition tp_thread_ends :: "nat \<Rightarrow> pool \<Rightarrow> pool" where
  "tp_thread_ends i p = p\<lparr> tp_finished := insert i (tp_finished p) \<rparr>"

definition tp_destroy :: "nat \<Rightarrow> pool \<Rightarrow> pool option" where
  "tp_destroy self p = tp_join_all self (if tp_wrk p then tp_stop p else p)"

text \<open>Threads that have ended are still counted.\<close>

lemma size_counts_ended: "tp_size (tp_thread_ends i p) = tp_size p"
  by (simp add: tp_size_def tp_thread_ends_def)

text \<open>Two pools, or one in both roles.\<close>

record pool_pair =
  pp_io :: pool
  pp_rpc :: "pool option"

definition pool_with :: "nat list \<Rightarrow> pool" where
  "pool_with ids = tp_add ids pool_new"

definition pool_pair_one :: "nat list \<Rightarrow> pool_pair" where
  "pool_pair_one ids = \<lparr> pp_io = pool_with ids, pp_rpc = None \<rparr>"

definition pool_pair_two :: "nat list \<Rightarrow> nat list \<Rightarrow> pool_pair" where
  "pool_pair_two ids rpc_ids = \<lparr> pp_io = pool_with ids, pp_rpc = Some (pool_with rpc_ids) \<rparr>"

definition pp_one_pool :: "pool_pair \<Rightarrow> bool" where
  "pp_one_pool pp \<longleftrightarrow> pp_rpc pp = None"

definition pp_get_rpc_pool :: "pool_pair \<Rightarrow> pool" where
  "pp_get_rpc_pool pp = (case pp_rpc pp of None \<Rightarrow> pp_io pp | Some rpc \<Rightarrow> rpc)"

definition pp_stop_all :: "pool_pair \<Rightarrow> pool_pair" where
  "pp_stop_all pp = pp\<lparr> pp_io := tp_stop (pp_io pp), pp_rpc := map_option tp_stop (pp_rpc pp) \<rparr>"

definition pp_join_all :: "nat \<Rightarrow> pool_pair \<Rightarrow> pool_pair option" where
  "pp_join_all self pp =
     (case tp_join_all self (pp_io pp) of
        None \<Rightarrow> None
      | Some io \<Rightarrow>
          (case pp_rpc pp of
             None \<Rightarrow> Some (pp\<lparr> pp_io := io \<rparr>)
           | Some rpc \<Rightarrow> map_option (\<lambda>rpc. pp\<lparr> pp_io := io, pp_rpc := Some rpc \<rparr>) (tp_join_all self rpc)))"

definition pp_destroy :: "nat \<Rightarrow> pool_pair \<Rightarrow> unit option" where
  "pp_destroy self pp =
     (case tp_destroy self (pp_io pp) of
        None \<Rightarrow> None
      | Some _ \<Rightarrow> (case pp_rpc pp of None \<Rightarrow> Some () | Some rpc \<Rightarrow> map_option (\<lambda>_. ()) (tp_destroy self rpc)))"

text \<open>Once both services are stopped and their threads have ended, nothing blocks.\<close>

lemma pp_stopped_joins:
  assumes "tp_threads (pp_io pp) - {self} \<subseteq> tp_finished (pp_io pp)"
    and "tp_threads (pp_get_rpc_pool pp) - {self} \<subseteq> tp_finished (pp_get_rpc_pool pp)"
  shows "pp_join_all self (pp_stop_all pp) \<noteq> None \<and> pp_destroy self (pp_stop_all pp) \<noteq> None"
  using assms
  by (auto simp: pp_join_all_def pp_stop_all_def pp_destroy_def tp_destroy_def tp_join_all_def tp_stop_def pp_get_rpc_pool_def
      split: option.splits)

text \<open>
  A worker never dies of a task: whatever the tasks do, each is run, an exception handler runs
  after each that raised, and the thread goes on until the service is stopped; then it returns,
  with its prologue first and its epilogue last.
\<close>

theorem worker_survives_tasks:
  assumes "\<forall>r \<in> set rs. harmless r"
  shows "run_impl False rs = None
       \<and> run_impl False (rs @ Service_stopped # rest)
           = Some (Call_prologue # concat (map handled rs) @ [Call_epilogue], Inr True)"
  using run_loop_harmless [OF assms, of "[]"] run_loop_harmless [OF assms, of "Service_stopped # rest"]
  by (simp add: run_impl_def)

theorem worker_survives_tasks_witness:
  "run_impl False [Ran, Raised False, Ran, Service_stopped]
     = Some ([Call_prologue, Handler_run, Handler_run, Exception_handler, Handler_run, Call_epilogue], Inr True)"
  using worker_survives_tasks [of "[Ran, Raised False, Ran]" "[]"] by (simp add: harmless_def handled_def)

subsection \<open>The periodic timer\<close>

text \<open>The timer is started once, when it is idle. Its handler runs in three steps, between which another thread may call \<open>cancel\<close>: the user's
  handler, the test of \<open>enabled_\<close>, and the next wait. A wait that has expired cannot be cancelled.\<close>

datatype timer_phase =
    Timer_idle | Timer_waiting | Timer_aborted | Timer_expired | Timer_called bool | Timer_rearming

record periodical =
  pt_enabled :: bool
  pt_phase :: timer_phase
  pt_calls :: "bool list"

definition periodical_new :: periodical where
  "periodical_new = \<lparr> pt_enabled = False, pt_phase = Timer_idle, pt_calls = [] \<rparr>"

definition pt_call :: "periodical \<Rightarrow> periodical" where
  "pt_call t = t\<lparr> pt_enabled := True, pt_phase := Timer_waiting \<rparr>"

definition pt_cancel :: "periodical \<Rightarrow> periodical" where
  "pt_cancel t =
     (if pt_enabled t
      then t\<lparr> pt_enabled := False,
              pt_phase := (if pt_phase t = Timer_waiting then Timer_aborted else pt_phase t) \<rparr>
      else t)"

definition pt_user_handler :: "bool \<Rightarrow> periodical \<Rightarrow> periodical" where
  "pt_user_handler err t = t\<lparr> pt_calls := pt_calls t @ [err], pt_phase := Timer_called err \<rparr>"

definition pt_test_enabled :: "bool \<Rightarrow> periodical \<Rightarrow> periodical" where
  "pt_test_enabled err t =
     t\<lparr> pt_phase := (if \<not> err \<and> pt_enabled t then Timer_rearming else Timer_idle) \<rparr>"

definition pt_call_impl :: "bool \<Rightarrow> periodical \<Rightarrow> periodical" where
  "pt_call_impl expires_fails t =
     (if \<not> expires_fails then t\<lparr> pt_phase := Timer_waiting \<rparr>
      else t\<lparr> pt_calls := pt_calls t @ [True], pt_phase := Timer_idle \<rparr>)"

inductive pt_step :: "periodical \<Rightarrow> periodical \<Rightarrow> bool" where
  expire: "pt_phase t = Timer_waiting \<Longrightarrow> pt_step t (t\<lparr> pt_phase := Timer_expired \<rparr>)"
| run_expired: "pt_phase t = Timer_expired \<Longrightarrow> pt_step t (pt_user_handler False t)"
| run_aborted: "pt_phase t = Timer_aborted \<Longrightarrow> pt_step t (pt_user_handler True t)"
| test: "pt_phase t = Timer_called err \<Longrightarrow> pt_step t (pt_test_enabled err t)"
| rearm: "pt_phase t = Timer_rearming \<Longrightarrow> pt_step t (pt_call_impl fails t)"
| cancel: "pt_step t (pt_cancel t)"

abbreviation pt_steps :: "periodical \<Rightarrow> periodical \<Rightarrow> bool" where
  "pt_steps \<equiv> pt_step\<^sup>*\<^sup>*"

text \<open>How often the user's handler can still be called once the timer is disabled, and how many steps
  of the timer that takes.\<close>

definition calls_left :: "timer_phase \<Rightarrow> nat" where
  "calls_left ph = (case ph of Timer_idle \<Rightarrow> 0 | Timer_called _ \<Rightarrow> 0 | _ \<Rightarrow> 1)"

lemma disabled_step:
  assumes "pt_step t t'" and "\<not> pt_enabled t"
  shows "\<not> pt_enabled t' \<and> length (pt_calls t') + calls_left (pt_phase t') \<le> length (pt_calls t) + calls_left (pt_phase t)"
  using assms
  by (cases rule: pt_step.cases)
    (auto simp: pt_user_handler_def pt_test_enabled_def pt_call_impl_def pt_cancel_def calls_left_def)

lemma disabled_steps:
  "pt_steps t t' \<Longrightarrow> \<not> pt_enabled t \<Longrightarrow>
     \<not> pt_enabled t' \<and> length (pt_calls t') + calls_left (pt_phase t') \<le> length (pt_calls t) + calls_left (pt_phase t)"
proof (induction rule: rtranclp_induct)
  case (step t1 t2)
  then show ?case using disabled_step [OF step.hyps(2)] by force
qed simp

text \<open>
  After \<open>cancel\<close> the user's handler is called at most once more, whatever the handler was doing
  at that moment, and the timer does not come back to life.
\<close>

theorem cancelled_timer_stops:
  assumes "pt_steps (pt_cancel t) t'"
  shows "\<not> pt_enabled t' \<and> length (pt_calls t') \<le> length (pt_calls t) + 1"
proof -
  have "\<not> pt_enabled (pt_cancel t)" "pt_calls (pt_cancel t) = pt_calls t" "calls_left (pt_phase (pt_cancel t)) \<le> 1"
    by (auto simp: pt_cancel_def calls_left_def split: timer_phase.splits)
  with disabled_steps [OF assms] show ?thesis by auto
qed

text \<open>The race that makes the bound sharp: \<open>cancel\<close> comes between the test and the next wait, finds no
  wait to cancel, and the handler runs once more as if nothing had happened.\<close>

lemma cancel_races_with_rearm:
  assumes "pt_phase t = Timer_rearming" and "pt_enabled t"
  shows "\<exists>t'. pt_steps (pt_cancel t) t' \<and> pt_calls t' = pt_calls t @ [False]"
proof -
  let ?t0 = "pt_cancel t" and ?t1 = "(pt_cancel t)\<lparr> pt_phase := Timer_waiting \<rparr>"
  let ?t2 = "?t1\<lparr> pt_phase := Timer_expired \<rparr>"
  have c: "pt_phase ?t0 = Timer_rearming" "pt_calls ?t0 = pt_calls t" using assms by (simp_all add: pt_cancel_def)
  have "pt_step ?t0 ?t1" using rearm [of ?t0 False] c(1) by (simp add: pt_call_impl_def)
  moreover have "pt_step ?t1 ?t2" by (rule expire) simp
  moreover have "pt_step ?t2 (pt_user_handler False ?t2)" by (rule run_expired) simp
  ultimately have "pt_steps ?t0 (pt_user_handler False ?t2)" by (meson converse_rtranclp_into_rtranclp rtranclp.rtrancl_refl)
  then show ?thesis using c(2) by (intro exI [of _ "pt_user_handler False ?t2"]) (simp add: pt_user_handler_def)
qed

theorem cancelled_timer_stops_witness:
  "let t = pt_call periodical_new; t' = pt_user_handler True (pt_cancel t) in pt_calls t' = [True] \<and> \<not> pt_enabled t'"
proof -
  let ?t = "pt_call periodical_new"
  have "pt_step (pt_cancel ?t) (pt_user_handler True (pt_cancel ?t))"
    by (rule run_aborted) (simp add: pt_call_def pt_cancel_def)
  then have "pt_steps (pt_cancel ?t) (pt_user_handler True (pt_cancel ?t))" by blast
  from cancelled_timer_stops [OF this] show ?thesis
    by (simp add: pt_call_def periodical_new_def pt_user_handler_def pt_cancel_def)
qed

end
