(* ===== verification/Client_Object.thy ===== *)
theory Client_Object
  imports Client_Connection Client_Base
begin

text \<open>
  The client object and its connections: \<open>vtrc_client\<close> (\<open>lib/vtrc/client/client.cpp\<close>), the connection
  and executor of \<open>base\<close> (\<open>lib/vtrc/client/base.cpp\<close>), and the particular connections it creates,
  \<open>client_tcp\<close>, \<open>client_ssl\<close>, \<open>client_unix_local\<close> and \<open>client_posixs\<close> (\<open>tcp.cpp\<close>, \<open>ssl.cpp\<close>,
  \<open>unix/local.cpp\<close>, \<open>posix-stream.cpp\<close>). How the calls of asio, OpenSSL and the operating system end
  is an argument, the record \<open>attempt\<close>.

  The first part shows what an asynchronous connect reports. The second follows the connection
  objects themselves: a read in progress does not hold its connection, and the question is when its
  handler finds it alive.
\<close>

subsection \<open>Connections\<close>

text \<open>One attempt to connect: what the address or path gives, the options of the TLS stream, the blocking
  connect (or \<open>open\<close> and \<open>assign\<close>), the TLS handshake, the texts of the local endpoint, the option
  \<open>no_delay\<close>; and the error codes the asynchronous operations end with.\<close>

record attempt =
  at_verify_file :: "exn + unit"
  at_endpoint :: "exn + unit"
  at_verify :: "exn + unit"
  at_connect :: "exn + unit"
  at_handshake :: "exn + unit"
  at_local_endpoint :: "exn + (string \<times> nat)"
  at_no_delay :: "exn + unit"
  at_async_connect :: "nat option"
  at_async_handshake :: "nat option"

datatype conn_kind = Kind_tcp | Kind_ssl | Kind_local | Kind_posix

text \<open>\<open>cc_verify\<close> names the callback that verifies certificates, 0 the default one.\<close>

record client_conn =
  cc_kind :: conn_kind
  cc_stream :: client_stream
  cc_no_delay :: bool
  cc_name :: string
  cc_verify :: nat
  cc_option_no_delay :: bool

definition transport_name :: "string \<Rightarrow> string" where
  "transport_name n = n @ ''://<unknown>''"

definition client_conn_new :: "conn_kind \<Rightarrow> bool \<Rightarrow> session_options \<Rightarrow> client_conn" where
  "client_conn_new kind nodelay opts =
     \<lparr> cc_kind = kind, cc_stream = client_stream_new opts, cc_no_delay = nodelay,
       cc_name = transport_name (case kind of Kind_local \<Rightarrow> ''unix-local'' | _ \<Rightarrow> ''tcp''),
       cc_verify = 0, cc_option_no_delay = False \<rparr>"

text \<open>A step after a part that may have raised.\<close>

definition go_on :: "'s \<times> (exn + 'a) \<Rightarrow> ('s \<Rightarrow> 'a \<Rightarrow> 's \<times> (exn + 'b)) \<Rightarrow> 's \<times> (exn + 'b)" where
  "go_on r f = (case r of (s, Inl e) \<Rightarrow> (s, Inl e) | (s, Inr x) \<Rightarrow> f s x)"

lemma go_on_simps [simp]: "go_on (s, Inl e) f = (s, Inl e)" "go_on (s, Inr x) f = f s x"
  by (simp_all add: go_on_def)

definition set_no_delay :: "attempt \<Rightarrow> client_conn \<Rightarrow> client_conn \<times> (exn + unit)" where
  "set_no_delay a c = go_on (c, at_no_delay a) (\<lambda>c _. (c\<lparr> cc_option_no_delay := True \<rparr>, Inr ()))"

definition make_name :: "string \<Rightarrow> nat \<Rightarrow> client_conn \<Rightarrow> client_conn" where
  "make_name address service c = c\<lparr> cc_name := ''tcp://'' @ address @ '':'' @ dec service \<rparr>"

definition tcp_connection_setup :: "attempt \<Rightarrow> client_conn \<Rightarrow> client_conn \<times> (exn + unit)" where
  "tcp_connection_setup a c = go_on (c, at_local_endpoint a) (\<lambda>c (address, port).
     let c = make_name address port c in if cc_no_delay c then set_no_delay a c else (c, Inr ()))"

definition ssl_connection_setup :: "attempt \<Rightarrow> client_conn \<Rightarrow> client_conn \<times> (exn + unit)" where
  "ssl_connection_setup a c = (if cc_no_delay c then set_no_delay a c else (c, Inr ()))"

definition connection_setup :: "attempt \<Rightarrow> client_conn \<Rightarrow> client_conn \<times> (exn + unit)" where
  "connection_setup a c =
     (case cc_kind c of
        Kind_tcp \<Rightarrow> tcp_connection_setup a c
      | Kind_ssl \<Rightarrow> ssl_connection_setup a c
      | _ \<Rightarrow> (c, Inr ()))"

definition cc_start_reading :: "client_conn \<Rightarrow> client_conn" where
  "cc_start_reading c = c\<lparr> cc_stream := cs_start_reading (cc_stream c) \<rparr>"

definition setup_and_read :: "attempt \<Rightarrow> client_conn \<Rightarrow> client_conn \<times> (exn + unit)" where
  "setup_and_read a c = go_on (connection_setup a c) (\<lambda>c _. (cc_start_reading c, Inr ()))"

subsection \<open>Connecting, blocking\<close>

definition tcp_connect :: "attempt \<Rightarrow> client_conn \<Rightarrow> client_conn \<times> (exn + unit)" where
  "tcp_connect a c = go_on (c, at_endpoint a) (\<lambda>c _. go_on (c, at_connect a) (\<lambda>c _. setup_and_read a c))"

definition ssl_connect :: "attempt \<Rightarrow> client_conn \<Rightarrow> client_conn \<times> (exn + unit)" where
  "ssl_connect a c = go_on (c, at_endpoint a) (\<lambda>c _. go_on (c, at_verify a) (\<lambda>c _.
     go_on (c, at_connect a) (\<lambda>c _. go_on (c, at_handshake a) (\<lambda>c _. setup_and_read a c))))"

definition local_connect :: "attempt \<Rightarrow> client_conn \<Rightarrow> client_conn \<times> (exn + unit)" where
  "local_connect a c = go_on (c, at_endpoint a) (\<lambda>c _. go_on (c, at_connect a) (\<lambda>c _. setup_and_read a c))"

definition posix_connect :: "attempt \<Rightarrow> client_conn \<Rightarrow> client_conn \<times> (exn + unit)" where
  "posix_connect a c = go_on (c, at_connect a) (\<lambda>c _. setup_and_read a c)"

definition conn_connect :: "attempt \<Rightarrow> client_conn \<Rightarrow> client_conn \<times> (exn + unit)" where
  "conn_connect a c =
     (case cc_kind c of
        Kind_tcp \<Rightarrow> tcp_connect a c
      | Kind_ssl \<Rightarrow> ssl_connect a c
      | Kind_local \<Rightarrow> local_connect a c
      | Kind_posix \<Rightarrow> posix_connect a c)"

subsection \<open>Connecting, asynchronous\<close>

text \<open>The handlers; an answer \<open>Inr es\<close> lists the errors the closure was called with.\<close>

definition cc_on_connect :: "attempt \<Rightarrow> nat option \<Rightarrow> client_conn \<Rightarrow> client_conn \<times> (exn + nat option list)" where
  "cc_on_connect a err c =
     (if err = None then go_on (setup_and_read a c) (\<lambda>c _. (c, Inr [err])) else (c, Inr [err]))"

definition handle_handshake :: "attempt \<Rightarrow> nat option \<Rightarrow> client_conn \<Rightarrow> client_conn \<times> (exn + nat option list)" where
  "handle_handshake a err c =
     (if err = None then go_on (setup_and_read a c) (\<lambda>c _. (c, Inr [err])) else (c, Inr [err]))"

definition handle_connect :: "attempt \<Rightarrow> nat option \<Rightarrow> client_conn \<Rightarrow> client_conn \<times> (exn + nat option list)" where
  "handle_connect a err c = (if err = None then handle_handshake a (at_async_handshake a) c else (c, Inr [err]))"

text \<open>Starting the operation, which the address may prevent, and its completion.\<close>

definition async_start :: "attempt \<Rightarrow> client_conn \<Rightarrow> exn + unit" where
  "async_start a c =
     (case cc_kind c of
        Kind_ssl \<Rightarrow> and_then (at_endpoint a) (\<lambda>_. at_verify a)
      | Kind_posix \<Rightarrow> Inr ()
      | _ \<Rightarrow> at_endpoint a)"

definition tcp_async :: "attempt \<Rightarrow> client_conn \<Rightarrow> client_conn \<times> (exn + nat option list)" where
  "tcp_async a c = cc_on_connect a (at_async_connect a) c"

definition ssl_async :: "attempt \<Rightarrow> client_conn \<Rightarrow> client_conn \<times> (exn + nat option list)" where
  "ssl_async a c = handle_connect a (at_async_connect a) c"

text \<open>\<open>async_connect\<close> of a stream device opens it and calls the closure at once.\<close>

definition posix_async :: "attempt \<Rightarrow> client_conn \<Rightarrow> client_conn \<times> (exn + nat option list)" where
  "posix_async a c = (c, Inr [at_async_connect a])"

definition async_complete :: "attempt \<Rightarrow> client_conn \<Rightarrow> client_conn \<times> (exn + nat option list)" where
  "async_complete a c =
     (case cc_kind c of
        Kind_ssl \<Rightarrow> ssl_async a c
      | Kind_posix \<Rightarrow> posix_async a c
      | _ \<Rightarrow> tcp_async a c)"

subsection \<open>What an asynchronous connect reports\<close>

text \<open>What the client object tells its user, in order: the signals and the calls of the closure that was passed.\<close>

datatype client_note =
    Note_connect
  | Note_init_error error_container string
  | Note_ready
  | Note_disconnect
  | Note_closure "nat option"

definition connect_error :: "(nat \<Rightarrow> string) \<Rightarrow> nat \<Rightarrow> error_container" where
  "connect_error message code =
     \<lparr> ec_code = code, ec_category = CATEGORY_SYSTEM, ec_fatal = True, ec_additional = message code \<rparr>"

definition async_connect_success :: "(nat \<Rightarrow> string) \<Rightarrow> nat option \<Rightarrow> client_note list" where
  "async_connect_success message err =
     (case err of
        None \<Rightarrow> [Note_connect]
      | Some code \<Rightarrow> [Note_init_error (connect_error message code) (message code)]) @ [Note_closure err]"

text \<open>The signals of the protocol layer are passed on; the value of \<open>on_ready\<close> is dropped.\<close>

fun forward_signal :: "signal \<Rightarrow> client_note" where
  "forward_signal (On_ready v) = Note_ready"
| "forward_signal (On_init_error err mess) = Note_init_error err mess"
| "forward_signal On_disconnect = Note_disconnect"

text \<open>The contract of an asynchronous connect: with an endpoint and no exception while the connection is set
  up, the closure is called once, with the error \<open>err_of\<close> of the attempt, and the stream is read from then
  on exactly if there is none.\<close>

definition is_reading :: "client_conn \<Rightarrow> bool" where
  "is_reading c \<longleftrightarrow> cs_reading (cc_stream c)"

definition setup_ok :: "attempt \<Rightarrow> client_conn \<Rightarrow> bool" where
  "setup_ok a c \<longleftrightarrow> snd (connection_setup a c) = Inr ()"

locale connector =
  fixes kind :: conn_kind
    and complete :: "attempt \<Rightarrow> client_conn \<Rightarrow> client_conn \<times> (exn + nat option list)"
    and err_of :: "attempt \<Rightarrow> nat option"
  assumes completes: "cc_kind c = kind \<Longrightarrow> async_complete a c = complete a c"
    and fails: "err_of a = Some e \<Longrightarrow> complete a c = (c, Inr [Some e])"
    and succeeds: "err_of a = None \<Longrightarrow> complete a c = go_on (setup_and_read a c) (\<lambda>c _. (c, Inr [None]))"
begin

lemma reports_once:
  assumes "cc_kind c = kind" and "setup_ok a c"
  shows "snd (async_complete a c) = Inr [err_of a]"
    and "err_of a = None \<Longrightarrow> is_reading (fst (async_complete a c))"
    and "err_of a = Some e \<Longrightarrow> fst (async_complete a c) = c"
proof -
  obtain c' where s: "connection_setup a c = (c', Inr ())"
    using assms(2) by (cases "connection_setup a c") (simp add: setup_ok_def)
  then have r: "setup_and_read a c = (cc_start_reading c', Inr ())" by (simp add: setup_and_read_def)
  show "snd (async_complete a c) = Inr [err_of a]"
    by (cases "err_of a") (simp_all add: completes [OF assms(1)] fails succeeds r)
  show "is_reading (fst (async_complete a c))" if "err_of a = None"
    by (simp add: completes [OF assms(1)] succeeds [OF that] r is_reading_def cc_start_reading_def cs_start_reading_def)
  show "fst (async_complete a c) = c" if "err_of a = Some e"
    by (simp add: completes [OF assms(1)] fails [OF that])
qed

lemma setup_exception_silences:
  assumes "cc_kind c = kind" and "err_of a = None" and "connection_setup a c = (c', Inl e)"
  shows "async_complete a c = (c', Inl e)"
  using assms by (simp add: completes succeeds setup_and_read_def)

end

definition ssl_error :: "attempt \<Rightarrow> nat option" where
  "ssl_error a = (case at_async_connect a of None \<Rightarrow> at_async_handshake a | Some e \<Rightarrow> Some e)"

interpretation tcp_connector: connector Kind_tcp tcp_async at_async_connect
  by unfold_locales (simp_all add: async_complete_def tcp_async_def cc_on_connect_def)

interpretation local_connector: connector Kind_local tcp_async at_async_connect
  by unfold_locales (simp_all add: async_complete_def tcp_async_def cc_on_connect_def)

interpretation ssl_connector: connector Kind_ssl ssl_async ssl_error
  by unfold_locales
    (simp_all add: async_complete_def ssl_async_def handle_connect_def handle_handshake_def ssl_error_def split: option.splits)

definition async_error :: "conn_kind \<Rightarrow> attempt \<Rightarrow> nat option" where
  "async_error kind a = (case kind of Kind_ssl \<Rightarrow> ssl_error a | _ \<Rightarrow> at_async_connect a)"


text \<open>Everything works.\<close>

definition good_attempt :: attempt where
  "good_attempt = \<lparr> at_verify_file = Inr (), at_endpoint = Inr (), at_verify = Inr (), at_connect = Inr (), at_handshake = Inr (),
     at_local_endpoint = Inr (''127.0.0.1'', 4000), at_no_delay = Inr (), at_async_connect = None, at_async_handshake = None \<rparr>"


text \<open>An exception while the connection is set up leaves the handler: the closure is never called.\<close>

lemma tcp_setup_exception_silences:
  assumes "cc_kind c = Kind_tcp" and "at_async_connect a = None" and "at_local_endpoint a = Inl e"
  shows "async_complete a c = (c, Inl e)"
  using assms
  by (intro tcp_connector.setup_exception_silences) (simp_all add: connection_setup_def tcp_connection_setup_def)

text \<open>A stream device that was opened asynchronously is reported as connected and never read.\<close>

lemma posix_async_never_reads:
  assumes "cc_kind c = Kind_posix" and "at_async_connect a = None" and "\<not> is_reading c"
  shows "snd (async_complete a c) = Inr [None]" "\<not> is_reading (fst (async_complete a c))"
  using assms by (simp_all add: async_complete_def posix_async_def)

subsection \<open>The client object\<close>

text \<open>
  \<open>co_conns\<close> are the connection objects that exist. One is held by the client object, \<open>co_connection\<close>; the handler of an
  asynchronous connect holds its own, \<open>co_connecting\<close>; and others may hold some (the handler of a write, a
  caller of \<open>connection\<close>): the argument \<open>ext\<close>. The handler of a read holds none. \<open>co_stale\<close> are the
  connections that were destroyed while a read was in progress; its handler is still to come. An executor
  is a number, none the default one, which posts to the \<open>io_service\<close> for calls.
\<close>

record client_object =
  co_base :: client_base
  co_connection :: "nat option"
  co_conns :: "nat \<rightharpoonup> client_conn"
  co_connecting :: "nat set"
  co_stale :: "nat set"
  co_next :: nat
  co_notes :: "client_note list"
  co_exec :: "nat option"
  co_executed :: "(nat option \<times> nat) list"
  co_lowlevel_factory :: "nat option"

definition client_object_new :: client_object where
  "client_object_new = \<lparr> co_base = client_base_new, co_connection = None, co_conns = Map.empty, co_connecting = {},
     co_stale = {}, co_next = 0, co_notes = [], co_exec = None, co_executed = [], co_lowlevel_factory = None \<rparr>"

definition add_notes :: "client_note list \<Rightarrow> client_object \<Rightarrow> client_object" where
  "add_notes ns s = s\<lparr> co_notes := co_notes s @ ns \<rparr>"

text \<open>A connection nobody holds any more is destroyed.\<close>

definition held_conns :: "nat set \<Rightarrow> client_object \<Rightarrow> nat set" where
  "held_conns ext s = set_option (co_connection s) \<union> co_connecting s \<union> ext"

definition reading_conns :: "client_object \<Rightarrow> nat set" where
  "reading_conns s = {i. \<exists>c. co_conns s i = Some c \<and> is_reading c}"

definition release :: "nat set \<Rightarrow> client_object \<Rightarrow> client_object" where
  "release ext s =
     s\<lparr> co_stale := co_stale s \<union> (reading_conns s - held_conns ext s), co_conns := co_conns s |` held_conns ext s \<rparr>"

definition reset_connection :: "nat set \<Rightarrow> nat option \<Rightarrow> client_object \<Rightarrow> client_object" where
  "reset_connection ext new_conn s = release ext (s\<lparr> co_connection := new_conn \<rparr>)"

text \<open>\<open>create_client\<close>: the new connection becomes that of the client at once. A file of certificates that
  cannot be read raises before there is a connection.\<close>

definition create_client ::
    "nat set \<Rightarrow> conn_kind \<Rightarrow> bool \<Rightarrow> session_options \<Rightarrow> attempt \<Rightarrow> client_object \<Rightarrow> client_object \<times> (exn + nat)" where
  "create_client ext kind nodelay opts a s =
     go_on (s, if kind = Kind_ssl then at_verify_file a else Inr ()) (\<lambda>s _.
       let i = co_next s;
           s = s\<lparr> co_conns := (co_conns s)(i \<mapsto> client_conn_new kind nodelay opts), co_next := Suc i \<rparr>
       in (reset_connection ext (Some i) s, Inr i))"

definition conn_apply ::
    "nat \<Rightarrow> (client_conn \<Rightarrow> client_conn \<times> (exn + 'a)) \<Rightarrow> client_object \<Rightarrow> client_object \<times> (exn + 'a)" where
  "conn_apply i f s =
     (case co_conns s i of
        None \<Rightarrow> (s, Inl Undefined)
      | Some c \<Rightarrow> (case f c of (c, r) \<Rightarrow> (s\<lparr> co_conns := (co_conns s)(i \<mapsto> c) \<rparr>, r)))"

definition set_verify_callback :: "nat option \<Rightarrow> client_conn \<Rightarrow> client_conn \<times> (exn + unit)" where
  "set_verify_callback cb c = (case cb of None \<Rightarrow> c | Some v \<Rightarrow> c\<lparr> cc_verify := v \<rparr>, Inr ())"

text \<open>\<open>connect\<close> and \<open>connect_ssl\<close>: the handshake tells its outcome by the signals \<open>sigs\<close> while the caller waits.\<close>

definition client_connect ::
    "nat set \<Rightarrow> conn_kind \<Rightarrow> bool \<Rightarrow> session_options \<Rightarrow> nat option \<Rightarrow> attempt \<Rightarrow> signal list list \<Rightarrow> client_object
       \<Rightarrow> client_object \<times> (exn + unit)" where
  "client_connect ext kind nodelay opts cb a sigs s =
     go_on (create_client ext kind nodelay opts a s) (\<lambda>s i.
     go_on (conn_apply i (set_verify_callback cb) s) (\<lambda>s _.
     go_on (conn_apply i (conn_connect a) s) (\<lambda>s _.
     go_on (add_notes [Note_connect] s, connect_impl (Inr ()) sigs) (\<lambda>s _.
       if nodelay then conn_apply i (set_no_delay a) s else (s, Inr ())))))"

text \<open>\<open>async_connect\<close> and \<open>async_connect_ssl\<close>; the handler of the attempt holds the connection.\<close>

definition client_async_connect ::
    "nat set \<Rightarrow> conn_kind \<Rightarrow> bool \<Rightarrow> session_options \<Rightarrow> nat option \<Rightarrow> attempt \<Rightarrow> client_object \<Rightarrow> client_object \<times> (exn + nat)" where
  "client_async_connect ext kind nodelay opts cb a s =
     go_on (create_client ext kind nodelay opts a s) (\<lambda>s i.
     go_on (conn_apply i (set_verify_callback cb) s) (\<lambda>s _.
     go_on (s, async_start a (client_conn_new kind nodelay opts)) (\<lambda>s _.
       (s\<lparr> co_connecting := insert i (co_connecting s) \<rparr>, Inr i))))"

text \<open>The functions the user calls.\<close>

definition connect_tcp ::
    "nat set \<Rightarrow> bool \<Rightarrow> session_options \<Rightarrow> attempt \<Rightarrow> signal list list \<Rightarrow> client_object \<Rightarrow> client_object \<times> (exn + unit)" where
  "connect_tcp ext tcp_nodelay opts a = client_connect ext Kind_tcp tcp_nodelay opts None a"

definition connect_local ::
    "nat set \<Rightarrow> session_options \<Rightarrow> attempt \<Rightarrow> signal list list \<Rightarrow> client_object \<Rightarrow> client_object \<times> (exn + unit)" where
  "connect_local ext opts a = client_connect ext Kind_local False opts None a"

definition connect_ssl ::
    "nat set \<Rightarrow> bool \<Rightarrow> session_options \<Rightarrow> attempt \<Rightarrow> signal list list \<Rightarrow> client_object \<Rightarrow> client_object \<times> (exn + unit)" where
  "connect_ssl ext tcp_nodelay opts a = client_connect ext Kind_ssl tcp_nodelay opts None a"

definition connect_ssl_verify ::
    "nat set \<Rightarrow> nat \<Rightarrow> bool \<Rightarrow> session_options \<Rightarrow> attempt \<Rightarrow> signal list list \<Rightarrow> client_object \<Rightarrow> client_object \<times> (exn + unit)" where
  "connect_ssl_verify ext cb tcp_nodelay opts a = client_connect ext Kind_ssl tcp_nodelay opts (Some cb) a"

definition async_connect_tcp ::
    "nat set \<Rightarrow> bool \<Rightarrow> session_options \<Rightarrow> attempt \<Rightarrow> client_object \<Rightarrow> client_object \<times> (exn + nat)" where
  "async_connect_tcp ext tcp_nodelay opts a = client_async_connect ext Kind_tcp tcp_nodelay opts None a"

definition async_connect_local ::
    "nat set \<Rightarrow> session_options \<Rightarrow> attempt \<Rightarrow> client_object \<Rightarrow> client_object \<times> (exn + nat)" where
  "async_connect_local ext opts a = client_async_connect ext Kind_local False opts None a"

definition async_connect_ssl ::
    "nat set \<Rightarrow> bool \<Rightarrow> session_options \<Rightarrow> attempt \<Rightarrow> client_object \<Rightarrow> client_object \<times> (exn + nat)" where
  "async_connect_ssl ext tcp_nodelay opts a = client_async_connect ext Kind_ssl tcp_nodelay opts None a"

definition async_connect_ssl_verify ::
    "nat set \<Rightarrow> nat \<Rightarrow> bool \<Rightarrow> session_options \<Rightarrow> attempt \<Rightarrow> client_object \<Rightarrow> client_object \<times> (exn + nat)" where
  "async_connect_ssl_verify ext cb tcp_nodelay opts a = client_async_connect ext Kind_ssl tcp_nodelay opts (Some cb) a"

text \<open>The end of an asynchronous attempt.\<close>

definition client_connected ::
    "nat set \<Rightarrow> (nat \<Rightarrow> string) \<Rightarrow> nat \<Rightarrow> attempt \<Rightarrow> client_object \<Rightarrow> client_object \<times> (exn + unit)" where
  "client_connected ext message i a s =
     (case go_on (conn_apply i (async_complete a) s) (\<lambda>s errs.
             (add_notes (concat (map (async_connect_success message) errs)) s, Inr ())) of
        (s, r) \<Rightarrow> (release ext (s\<lparr> co_connecting := co_connecting s - {i} \<rparr>), r))"

text \<open>\<open>open\<close> of a stream device: no other pointer to the connection than the local one.\<close>

definition client_open :: "nat set \<Rightarrow> session_options \<Rightarrow> attempt \<Rightarrow> client_object \<Rightarrow> client_object \<times> (exn + unit)" where
  "client_open ext opts a s =
     (let i = co_next s;
          s = s\<lparr> co_conns := (co_conns s)(i \<mapsto> client_conn_new Kind_posix False opts), co_next := Suc i \<rparr>
      in case conn_apply i (posix_connect a) s of (s, r) \<Rightarrow> (release ext s, r))"

definition client_ready :: "client_object \<Rightarrow> bool" where
  "client_ready s =
     (case co_connection s of
        None \<Rightarrow> False
      | Some i \<Rightarrow> (case co_conns s i of None \<Rightarrow> False | Some c \<Rightarrow> pl_ready (pc_layer (cs_protocol (cc_stream c)))))"

text \<open>\<open>disconnect\<close> closes a connection that is active and keeps it; exceptions of \<open>close\<close> are swallowed.\<close>

definition client_disconnect :: "(protocol_c \<Rightarrow> protocol_c) \<Rightarrow> client_object \<Rightarrow> client_object" where
  "client_disconnect setup_close s =
     (if client_ready s
      then (case co_connection s of
              None \<Rightarrow> s
            | Some i \<Rightarrow> fst (conn_apply i (\<lambda>c. (c\<lparr> cc_stream := cs_close setup_close (cc_stream c) \<rparr>, Inr ())) s))
      else s)"

text \<open>A read in progress ends. The handler locks the client object, which exists here, and then uses the
  connection: \<open>None\<close> when it was destroyed.\<close>

definition client_read_end ::
    "(bytes \<Rightarrow> lowlevel_unit option) \<Rightarrow> (protocol_c \<Rightarrow> protocol_c) \<Rightarrow> nat \<Rightarrow> nat + bytes \<Rightarrow> client_object \<Rightarrow> client_object option" where
  "client_read_end parse setup_close i res s =
     (if i \<in> co_stale s then None
      else case co_conns s i of
        None \<Rightarrow> Some s
      | Some c \<Rightarrow>
          if is_reading c
          then Some (s\<lparr> co_conns := (co_conns s)(i \<mapsto> c\<lparr> cc_stream := cs_read_handler parse setup_close True res (cc_stream c) \<rparr>) \<rparr>)
          else Some s)"

subsection \<open>Executors and factories\<close>

definition assign_call_executor :: "nat option \<Rightarrow> client_object \<Rightarrow> client_object" where
  "assign_call_executor e s = s\<lparr> co_exec := e \<rparr>"

definition client_execute :: "nat \<Rightarrow> client_object \<Rightarrow> client_object" where
  "client_execute call s = s\<lparr> co_executed := co_executed s @ [(co_exec s, call)] \<rparr>"

definition assign_protocol_factory :: "nat option \<Rightarrow> client_object \<Rightarrow> client_object" where
  "assign_protocol_factory f s = s\<lparr> co_lowlevel_factory := f \<rparr>"

subsection \<open>Connections and the reads in progress\<close>

lemma go_on_keeps:
  assumes "P (fst r)" and "\<And>x. snd r = Inr x \<Longrightarrow> P (fst (f (fst r) x))"
  shows "P (fst (go_on r f))"
  using assms by (cases r; cases "snd r") auto

definition co_inv :: "client_object \<Rightarrow> bool" where
  "co_inv s \<longleftrightarrow> co_stale s = {} \<and> reading_conns s \<subseteq> set_option (co_connection s)
     \<and> co_connecting s \<subseteq> set_option (co_connection s) \<and> set_option (co_connection s) \<subseteq> dom (co_conns s)
     \<and> (\<forall>i \<in> dom (co_conns s). i < co_next s)"

text \<open>The invariant with \<open>i\<close> as the connection of the client.\<close>

definition co_at :: "nat \<Rightarrow> client_object \<Rightarrow> bool" where
  "co_at i s \<longleftrightarrow> co_inv s \<and> co_connection s = Some i"

lemma co_inv_new: "co_inv client_object_new"
  by (simp add: co_inv_def client_object_new_def reading_conns_def)

lemma co_inv_release [inv_intros]:
  assumes "co_inv s" shows "co_inv (release ext s)"
proof -
  have "reading_conns s - held_conns ext s = {}" using assms by (auto simp: co_inv_def held_conns_def)
  moreover have "reading_conns (release ext s) \<subseteq> reading_conns s"
    by (auto simp: reading_conns_def release_def restrict_map_def split: if_splits)
  ultimately show ?thesis using assms by (auto simp: co_inv_def release_def held_conns_def)
qed

lemma co_inv_upd:
  assumes "co_inv s" and "co_conns s i = Some c" and "is_reading c' \<Longrightarrow> co_connection s = Some i"
  shows "co_inv (s\<lparr> co_conns := (co_conns s)(i \<mapsto> c') \<rparr>)"
proof -
  have "reading_conns (s\<lparr> co_conns := (co_conns s)(i \<mapsto> c') \<rparr>) \<subseteq> reading_conns s \<union> (if is_reading c' then {i} else {})"
    by (auto simp: reading_conns_def split: if_splits)
  then have "reading_conns (s\<lparr> co_conns := (co_conns s)(i \<mapsto> c') \<rparr>) \<subseteq> set_option (co_connection s)"
    using assms by (auto simp: co_inv_def split: if_splits)
  then show ?thesis using assms(1,2) by (auto simp: co_inv_def)
qed

lemma co_at_conn_apply [inv_intros]: "co_at i s \<Longrightarrow> co_at i (fst (conn_apply i f s))"
  by (auto simp: co_at_def conn_apply_def co_inv_upd split: option.splits prod.splits)

lemma co_at_add_notes [inv_intros]: "co_at i s \<Longrightarrow> co_at i (add_notes ns s)"
  by (auto simp: co_at_def co_inv_def add_notes_def reading_conns_def)

definition quiet :: "client_object \<Rightarrow> bool" where
  "quiet s \<longleftrightarrow> reading_conns s = {} \<and> co_connecting s = {}"

lemma create_client_at:
  assumes "co_inv s" and "quiet s"
  shows "co_inv (fst (create_client ext kind nodelay opts a s))"
    and "snd (create_client ext kind nodelay opts a s) = Inr i \<Longrightarrow> co_at i (fst (create_client ext kind nodelay opts a s))"
proof -
  define n where "n = co_next s"
  define s1 where "s1 = s\<lparr> co_conns := (co_conns s)(n \<mapsto> client_conn_new kind nodelay opts), co_next := Suc n,
    co_connection := Some n \<rparr>"
  have "\<not> is_reading (client_conn_new kind nodelay opts)"
    by (simp add: is_reading_def client_conn_new_def client_stream_new_def)
  then have "reading_conns s1 = {}" using assms(2) by (auto simp: quiet_def reading_conns_def s1_def)
  then have "co_inv s1" using assms by (auto simp: co_inv_def quiet_def s1_def n_def less_Suc_eq)
  from co_inv_release [OF this, of ext] have r: "co_inv (release ext s1)" "co_connection (release ext s1) = Some n"
    by (simp_all add: release_def s1_def)
  have c: "create_client ext kind nodelay opts a s =
      go_on (s, if kind = Kind_ssl then at_verify_file a else Inr ()) (\<lambda>_ _. (release ext s1, Inr n))"
    by (cases "if kind = Kind_ssl then at_verify_file a else Inr ()")
      (simp_all add: create_client_def reset_connection_def s1_def n_def Let_def)
  show "co_inv (fst (create_client ext kind nodelay opts a s))"
    unfolding c by (rule go_on_keeps) (simp_all add: assms(1) r(1))
  show "co_at i (fst (create_client ext kind nodelay opts a s))"
    if "snd (create_client ext kind nodelay opts a s) = Inr i"
    using that r unfolding c by (cases "if kind = Kind_ssl then at_verify_file a else Inr ()") (simp_all add: co_at_def)
qed

lemma co_at_inv: "co_at i s \<Longrightarrow> co_inv s"
  by (simp add: co_at_def)

lemma client_connect_inv:
  assumes "co_inv s" and "quiet s"
  shows "co_inv (fst (client_connect ext kind nodelay opts cb a sigs s))"
  unfolding client_connect_def
proof (rule go_on_keeps)
  show "co_inv (fst (create_client ext kind nodelay opts a s))" by (rule create_client_at(1) [OF assms])
  fix i assume "snd (create_client ext kind nodelay opts a s) = Inr i"
  then have "co_at i (fst (create_client ext kind nodelay opts a s))" by (rule create_client_at(2) [OF assms])
  then show "co_inv (fst (go_on (conn_apply i (set_verify_callback cb) (fst (create_client ext kind nodelay opts a s))) (\<lambda>s _.
      go_on (conn_apply i (conn_connect a) s) (\<lambda>s _. go_on (add_notes [Note_connect] s, connect_impl (Inr ()) sigs) (\<lambda>s _.
        if nodelay then conn_apply i (set_no_delay a) s else (s, Inr ()))))))"
    by (intro co_at_inv [of i] go_on_keeps [where P = "co_at i"]) (auto intro!: inv_intros go_on_keeps [where P = "co_at i"])
qed

lemma client_async_connect_inv:
  assumes "co_inv s" and "quiet s"
  shows "co_inv (fst (client_async_connect ext kind nodelay opts cb a s))"
  unfolding client_async_connect_def
proof (rule go_on_keeps)
  show "co_inv (fst (create_client ext kind nodelay opts a s))" by (rule create_client_at(1) [OF assms])
  fix i assume "snd (create_client ext kind nodelay opts a s) = Inr i"
  then have at: "co_at i (fst (create_client ext kind nodelay opts a s))" by (rule create_client_at(2) [OF assms])
  have "co_at i (s\<lparr> co_connecting := insert i (co_connecting s) \<rparr>)" if "co_at i s" for s
    using that by (auto simp: co_at_def co_inv_def reading_conns_def)
  with at show "co_inv (fst (go_on (conn_apply i (set_verify_callback cb) (fst (create_client ext kind nodelay opts a s))) (\<lambda>s _.
      go_on (s, async_start a (client_conn_new kind nodelay opts)) (\<lambda>s _.
        (s\<lparr> co_connecting := insert i (co_connecting s) \<rparr>, Inr i)))))"
    by (intro co_at_inv [of i] go_on_keeps [where P = "co_at i"]) (auto intro!: inv_intros go_on_keeps [where P = "co_at i"])
qed

lemma client_connected_inv:
  assumes "co_inv s" and "i \<in> co_connecting s"
  shows "co_inv (fst (client_connected ext message i a s))"
proof -
  define r where "r = go_on (conn_apply i (async_complete a) s) (\<lambda>s errs.
    (add_notes (concat (map (async_connect_success message) errs)) s, Inr ()))"
  have "co_at i s" using assms by (auto simp: co_at_def co_inv_def)
  then have "co_at i (fst r)" unfolding r_def by (intro go_on_keeps [where P = "co_at i"]) (auto intro: inv_intros)
  then have "co_inv ((fst r)\<lparr> co_connecting := co_connecting (fst r) - {i} \<rparr>)"
    by (auto simp: co_at_def co_inv_def reading_conns_def)
  from co_inv_release [OF this] show ?thesis by (simp add: client_connected_def r_def split_beta)
qed

lemma client_disconnect_inv: "co_inv s \<Longrightarrow> co_inv (client_disconnect setup_close s)"
  by (cases "co_connection s") (auto simp: client_disconnect_def co_at_def intro!: co_at_inv co_at_conn_apply)

lemma client_read_end_inv: "co_inv s \<Longrightarrow> client_read_end parse setup_close i res s = Some s' \<Longrightarrow> co_inv s'"
proof (cases "co_conns s i")
  case (Some c)
  assume s: "co_inv s" and r: "client_read_end parse setup_close i res s = Some s'"
  have "co_connection s = Some i" if "is_reading c"
    using s Some that by (auto simp: co_inv_def reading_conns_def)
  with Some s r show ?thesis by (auto simp: client_read_end_def co_inv_upd split: if_splits)
qed (simp add: client_read_end_def split: if_splits)

text \<open>The use of the client object that waits for the last connection to end: a new attempt starts only when
  no read and no attempt is in progress. Handlers and other holders are free.\<close>

inductive polite :: "(bytes \<Rightarrow> lowlevel_unit option) \<Rightarrow> (protocol_c \<Rightarrow> protocol_c) \<Rightarrow> client_object \<Rightarrow> bool"
  for parse setup_close where
  Polite_new: "polite parse setup_close client_object_new"
| Polite_connect: "polite parse setup_close s \<Longrightarrow> quiet s \<Longrightarrow>
    polite parse setup_close (fst (client_connect ext kind nodelay opts cb a sigs s))"
| Polite_async: "polite parse setup_close s \<Longrightarrow> quiet s \<Longrightarrow>
    polite parse setup_close (fst (client_async_connect ext kind nodelay opts cb a s))"
| Polite_connected: "polite parse setup_close s \<Longrightarrow> i \<in> co_connecting s \<Longrightarrow>
    polite parse setup_close (fst (client_connected ext message i a s))"
| Polite_disconnect: "polite parse setup_close s \<Longrightarrow> polite parse setup_close (client_disconnect setup_close s)"
| Polite_read: "polite parse setup_close s \<Longrightarrow> client_read_end parse setup_close i res s = Some s' \<Longrightarrow> polite parse setup_close s'"
| Polite_release: "polite parse setup_close s \<Longrightarrow> polite parse setup_close (release ext s)"

lemma polite_inv: "polite parse setup_close s \<Longrightarrow> co_inv s"
  by (induction rule: polite.induct)
    (auto intro: co_inv_new client_connect_inv client_async_connect_inv client_connected_inv client_disconnect_inv
      client_read_end_inv co_inv_release)


lemma connected_example:
  "client_connect {} Kind_local False default_session_options None good_attempt [[On_ready True]] client_object_new
     = (client_object_new\<lparr> co_connection := Some 0, co_next := 1, co_notes := [Note_connect],
          co_conns := [0 \<mapsto> cc_start_reading (client_conn_new Kind_local False default_session_options)] \<rparr>, Inr ())"
  by (auto simp: client_connect_def create_client_def reset_connection_def release_def held_conns_def conn_apply_def
      set_verify_callback_def conn_connect_def local_connect_def setup_and_read_def connection_setup_def good_attempt_def
      client_object_new_def add_notes_def connect_impl_def connect_start_def on_ready_diconnect_def Let_def
      reading_conns_def is_reading_def client_conn_new_def client_stream_new_def restrict_map_def)


text \<open>A client that connects again while its last connection is being read, after \<open>disconnect\<close> too, destroys
  that connection; the handler of its read then uses it.\<close>

lemma stale_kept:
  "i \<in> co_stale s \<Longrightarrow> i \<in> co_stale (fst (conn_apply j f s))" "i \<in> co_stale s \<Longrightarrow> i \<in> co_stale (add_notes ns s)"
  by (simp_all add: conn_apply_def add_notes_def split: option.splits prod.splits)

lemma reconnect_destroys_read_connection:
  assumes "co_connection s = Some i" and "i \<in> reading_conns s" and "i < co_next s"
    and "i \<notin> co_connecting s" and "i \<notin> ext" and "kind \<noteq> Kind_ssl"
  shows "client_read_end parse setup_close i res (fst (client_connect ext kind nodelay opts cb a sigs s)) = None"
proof -
  obtain s' where c: "create_client ext kind nodelay opts a s = (s', Inr (co_next s))" and "i \<in> co_stale s'"
    using assms
    by (auto simp: create_client_def reset_connection_def release_def held_conns_def reading_conns_def Let_def)
  then have "i \<in> co_stale (fst (client_connect ext kind nodelay opts cb a sigs s))"
    unfolding client_connect_def c go_on_simps
    by (intro go_on_keeps [where P = "\<lambda>s. i \<in> co_stale s"]) (auto intro!: stale_kept go_on_keeps [where P = "\<lambda>s. i \<in> co_stale s"])
  then show ?thesis by (simp add: client_read_end_def)
qed

text \<open>\<open>open\<close> keeps no pointer to the connection it makes: it is destroyed on return, with its first read in
  progress, and the client has no connection.\<close>

lemma open_destroys_its_connection:
  assumes "co_inv s" and "co_next s \<notin> ext" and "at_connect a = Inr ()"
  shows "snd (client_open ext opts a s) = Inr ()" "co_connection (fst (client_open ext opts a s)) = co_connection s"
    "client_read_end parse setup_close (co_next s) res (fst (client_open ext opts a s)) = None"
proof -
  define n where "n = co_next s"
  define s1 where "s1 = s\<lparr> co_next := Suc n, co_conns := (co_conns s)(n \<mapsto> cc_start_reading (client_conn_new Kind_posix False opts)) \<rparr>"
  have o: "client_open ext opts a s = (release ext s1, Inr ())"
    using assms(3) by (simp add: client_open_def conn_apply_def posix_connect_def setup_and_read_def connection_setup_def
        client_conn_new_def s1_def n_def Let_def)
  have "set_option (co_connection s) \<union> co_connecting s \<subseteq> dom (co_conns s)" "n \<notin> dom (co_conns s)"
    using assms(1) unfolding co_inv_def n_def by blast+
  then have "n \<notin> held_conns ext s1" using assms(2) by (auto simp: held_conns_def s1_def n_def)
  moreover have "n \<in> reading_conns s1"
    by (simp add: reading_conns_def s1_def is_reading_def cc_start_reading_def cs_start_reading_def)
  ultimately show "client_read_end parse setup_close (co_next s) res (fst (client_open ext opts a s)) = None"
    by (simp add: o client_read_end_def release_def n_def [symmetric])
  show "snd (client_open ext opts a s) = Inr ()" "co_connection (fst (client_open ext opts a s)) = co_connection s"
    by (simp_all add: o release_def s1_def)
qed

text \<open>An attempt that fails leaves the client with its connection all the same, one that is not ready.\<close>

lemma conn_connect_protocol:
  "cs_protocol (cc_stream (fst (conn_connect a c))) = cs_protocol (cc_stream c)"
proof -
  let ?P = "\<lambda>c'. cs_protocol (cc_stream c') = cs_protocol (cc_stream c)"
  have n: "?P c' \<Longrightarrow> ?P (fst (set_no_delay a c'))" for c'
    unfolding set_no_delay_def by (rule go_on_keeps) simp_all
  have s: "?P c' \<Longrightarrow> ?P (fst (connection_setup a c'))" for c'
    unfolding connection_setup_def tcp_connection_setup_def ssl_connection_setup_def
    by (auto intro!: go_on_keeps [where P = ?P] n simp: make_name_def Let_def split: conn_kind.splits)
  have r: "?P c' \<Longrightarrow> ?P (fst (setup_and_read a c'))" for c'
    unfolding setup_and_read_def
    by (rule go_on_keeps [where P = ?P]) (simp_all add: s cc_start_reading_def cs_start_reading_def)
  show ?thesis unfolding conn_connect_def tcp_connect_def ssl_connect_def local_connect_def posix_connect_def
    by (cases "cc_kind c"; simp) (intro go_on_keeps [where P = ?P] r; simp)+
qed

lemma failed_connect_not_ready:
  assumes "kind \<noteq> Kind_ssl" and "snd (conn_connect a (client_conn_new kind nodelay opts)) = Inl e"
  shows "snd (client_connect ext kind nodelay opts None a sigs s) = Inl e"
    "co_connection (fst (client_connect ext kind nodelay opts None a sigs s)) = Some (co_next s)"
    "\<not> client_ready (fst (client_connect ext kind nodelay opts None a sigs s))"
    "co_notes (fst (client_connect ext kind nodelay opts None a sigs s)) = co_notes s"
proof -
  obtain c where c: "conn_connect a (client_conn_new kind nodelay opts) = (c, Inl e)"
    using assms(2) by (cases "conn_connect a (client_conn_new kind nodelay opts)") simp
  have "cs_protocol (cc_stream c) = pc_new opts"
    using conn_connect_protocol [of a "client_conn_new kind nodelay opts", unfolded c]
    by (simp add: client_conn_new_def client_stream_new_def)
  then have "\<not> pl_ready (pc_layer (cs_protocol (cc_stream c)))" by (simp add: pc_new_def pl_new_def)
  with assms(1) c show "snd (client_connect ext kind nodelay opts None a sigs s) = Inl e"
    "co_connection (fst (client_connect ext kind nodelay opts None a sigs s)) = Some (co_next s)"
    "\<not> client_ready (fst (client_connect ext kind nodelay opts None a sigs s))"
    "co_notes (fst (client_connect ext kind nodelay opts None a sigs s)) = co_notes s"
    by (simp_all add: client_connect_def create_client_def reset_connection_def release_def held_conns_def conn_apply_def
        set_verify_callback_def client_ready_def Let_def)
qed

end
