(* ===== verification/Http_Header.thy ===== *)
theory Http_Header
  imports Rpc_Types
begin

text \<open>
  The HTTP framing of \<open>examples/hello-events-http\<close>: the incremental parser \<open>header_parser\<close> and the
  translation of units to and from HTTP messages (\<open>protocol/http-header.hpp\<close>), which replaces the
  binary low-level protocol of a connection. \<open>boost::lexical_cast\<close> is an argument \<open>lc\<close>: \<open>lc w s\<close> is
  the unsigned number of \<open>w\<close> bits that \<open>s\<close> denotes, or \<open>None\<close> where the cast throws.
\<close>

subsection \<open>Printing and casting numbers\<close>

type_synonym lexical_cast = "nat \<Rightarrow> string \<Rightarrow> nat option"

text \<open>What is documented of the cast: a printed number is read back where the type can hold it, and is
  refused where not; no result exceeds the type.\<close>

definition lexical_cast_law :: "lexical_cast \<Rightarrow> bool" where
  "lexical_cast_law lc \<longleftrightarrow>
     (\<forall>w n. lc w (dec n) = (if n < 2 ^ w then Some n else None)) \<and>
     (\<forall>w s n. lc w s = Some n \<longrightarrow> n < 2 ^ w)"

subsection \<open>Paths\<close>

definition CR :: char where "CR = CHR 0x0D"
definition LF :: char where "LF = CHR 0x0A"

definition CRLF :: string where "CRLF = [CR, LF]"

text \<open>The last character of an empty path does not exist.\<close>

definition replace_path :: "string \<Rightarrow> char \<Rightarrow> char \<Rightarrow> exn + string" where
  "replace_path path f t =
     (if path = [] then Inl Undefined
      else Inr (map (\<lambda>c. if c = f then t else c) (if last path = f then butlast path else path)))"

fun last_dot :: "nat \<Rightarrow> nat option \<Rightarrow> string \<Rightarrow> nat option" where
  "last_dot i iter [] = iter"
| "last_dot i iter (c # cs) = last_dot (i + 1) (if c = CHR ''.'' then Some i else iter) cs"

text \<open>Without a dot the iterator was never assigned; with a dot in the first place only, the first
  range runs backwards.\<close>

definition path_to_service :: "string \<Rightarrow> exn + string \<times> string" where
  "path_to_service path =
     (case last_dot 0 None path of
        None \<Rightarrow> Inl Undefined
      | Some i \<Rightarrow> if i = 0 then Inl Undefined else Inr (take (i - 1) (drop 1 path), drop (i + 1) path))"

subsection \<open>The parser\<close>

record header_parser =
  hp_cont :: "string \<rightharpoonup> string"
  hp_method :: "string list"
  hp_current :: string
  hp_header_ready :: bool
  hp_ready :: bool

definition hp_new :: header_parser where
  "hp_new = \<lparr> hp_cont = Map.empty, hp_method = [], hp_current = [], hp_header_ready = False, hp_ready = False \<rparr>"

definition is_space :: "char \<Rightarrow> bool" where
  "is_space p \<longleftrightarrow> p = CHR '' '' \<or> p = CHR 0x09"

definition split_header :: "string \<Rightarrow> string \<times> string" where
  "split_header v =
     (if CHR '':'' \<in> set v
      then (takeWhile (\<lambda>c. c \<noteq> CHR '':'') v, dropWhile is_space (tl (dropWhile (\<lambda>c. c \<noteq> CHR '':'') v)))
      else (v, []))"

fun set_method_loop :: "string \<Rightarrow> string \<Rightarrow> string list" where
  "set_method_loop cur [] = (if cur = [] then [] else [cur])"
| "set_method_loop cur (c # cs) =
     (if is_space c then cur # set_method_loop [] cs else set_method_loop (cur @ [c]) cs)"

definition set_method :: "string \<Rightarrow> header_parser \<Rightarrow> header_parser" where
  "set_method v p = p\<lparr> hp_method := hp_method p @ set_method_loop [] v \<rparr>"

text \<open>\<open>std::map::insert\<close> keeps the value a key already has.\<close>

definition cont_insert :: "string \<times> string \<Rightarrow> header_parser \<Rightarrow> header_parser" where
  "cont_insert kv p =
     (if hp_cont p (fst kv) = None then p\<lparr> hp_cont := (hp_cont p)(fst kv \<mapsto> snd kv) \<rparr> else p)"

definition hp_newline :: "header_parser \<Rightarrow> header_parser" where
  "hp_newline p =
     (if hp_current p = [] then p\<lparr> hp_header_ready := True \<rparr>
      else if hp_method p = [] then set_method (hp_current p) p
      else cont_insert (split_header (hp_current p)) p)\<lparr> hp_current := [] \<rparr>"

definition push_header_char :: "char \<Rightarrow> header_parser \<Rightarrow> header_parser" where
  "push_header_char c p =
     (if c = CR then p else if c = LF then hp_newline p else p\<lparr> hp_current := hp_current p @ [c] \<rparr>)"

text \<open>\<open>c_str\<close> ends at the first null character.\<close>

definition c_str :: "string \<Rightarrow> string" where
  "c_str s = takeWhile (\<lambda>c. c \<noteq> CHR 0x00) s"

text \<open>The functions return the rest of the input where the source returns an iterator into it.\<close>

fun push_header :: "header_parser \<Rightarrow> string \<Rightarrow> header_parser \<times> string" where
  "push_header p [] = (p, [])"
| "push_header p (c # cs) = (if hp_header_ready p then (p, c # cs) else push_header (push_header_char c p) cs)"

definition content_length :: "lexical_cast \<Rightarrow> header_parser \<Rightarrow> exn + nat" where
  "content_length lc p =
     (case hp_cont p ''Content-Length'' of
        None \<Rightarrow> Inr 0
      | Some v \<Rightarrow> (case lc 64 (c_str v) of None \<Rightarrow> Inl Other_exception | Some n \<Rightarrow> Inr n))"

definition push_body :: "lexical_cast \<Rightarrow> header_parser \<Rightarrow> string \<Rightarrow> header_parser \<times> (exn + string)" where
  "push_body lc p cs =
     (case content_length lc p of
        Inl e \<Rightarrow> (p, Inl e)
      | Inr len \<Rightarrow>
          if len = 0 then (p\<lparr> hp_ready := True \<rparr>, Inr cs)
          else
            (let cur_len = length (hp_current p);
                 pos = min (unat (of_nat len - of_nat cur_len :: size_t)) (length cs);
                 current = hp_current p @ take pos cs
             in (p\<lparr> hp_current := current, hp_ready := (length current = len) \<rparr>, Inr (drop pos cs))))"

text \<open>\<open>push\<close> returns how many characters it took.\<close>

definition hp_push :: "lexical_cast \<Rightarrow> header_parser \<Rightarrow> string \<Rightarrow> header_parser \<times> (exn + nat)" where
  "hp_push lc p cs =
     (let (p1, r1) = (if hp_header_ready p then (p, cs) else push_header p cs) in
      if hp_header_ready p1 \<and> \<not> hp_ready p1
      then (case push_body lc p1 r1 of
              (p2, Inl e) \<Rightarrow> (p2, Inl e)
            | (p2, Inr r2) \<Rightarrow> (p2, Inr (length cs - length r2)))
      else (p1, Inr (length cs - length r1)))"

definition has_field :: "string \<Rightarrow> header_parser \<Rightarrow> bool" where
  "has_field fld p \<longleftrightarrow> hp_cont p fld \<noteq> None"

definition hp_get :: "lexical_cast \<Rightarrow> string \<Rightarrow> nat \<Rightarrow> header_parser \<Rightarrow> exn + nat" where
  "hp_get lc fld def p =
     (case hp_cont p fld of
        None \<Rightarrow> Inr def
      | Some v \<Rightarrow> (case lc 32 v of None \<Rightarrow> Inl Other_exception | Some n \<Rightarrow> Inr n))"

definition hp_field :: "string \<Rightarrow> header_parser \<Rightarrow> string" where
  "hp_field fld p = (case hp_cont p fld of None \<Rightarrow> [] | Some v \<Rightarrow> v)"

definition hp_clear :: "header_parser \<Rightarrow> header_parser" where
  "hp_clear p =
     p\<lparr> hp_cont := Map.empty, hp_method := [], hp_current := [], hp_header_ready := False, hp_ready := False \<rparr>"

subsection \<open>Hexadecimal text\<close>

definition hexes :: string where "hexes = ''0123456789ABCDEF''"

text \<open>The two bit fields hold the high and the low half of the byte, whatever the sign of \<open>char\<close>.\<close>

definition int_to_hex :: "byte \<Rightarrow> string" where
  "int_to_hex b = [hexes ! unat (drop_bit 4 b), hexes ! unat (b AND 0xF)]"

definition bin2hex :: "bytes \<Rightarrow> string" where
  "bin2hex str = concat (map int_to_hex str)"

definition hex_to_int :: "char \<Rightarrow> byte" where
  "hex_to_int c =
     (let n = of_char c :: nat in
      if 48 \<le> n \<and> n \<le> 57 then of_nat (n - 48)
      else if 97 \<le> n \<and> n \<le> 102 then of_nat (n - 97 + 10)
      else if 65 \<le> n \<and> n \<le> 70 then of_nat (n - 65 + 10)
      else 0xFF)"

fun hex2bin_loop :: "bytes \<Rightarrow> string \<Rightarrow> bytes" where
  "hex2bin_loop tmp (a # b # cs) =
     (let hight = hex_to_int a; low = hex_to_int b in
      if hight OR low = 0xFF then [] else hex2bin_loop (tmp @ [push_bit 4 hight OR low]) cs)"
| "hex2bin_loop tmp _ = tmp"

definition hex2bin :: "string \<Rightarrow> bytes" where
  "hex2bin str = (if odd (length str) then [] else hex2bin_loop [] str)"

subsection \<open>Units as HTTP messages\<close>

text \<open>Whether the sub-messages \<open>call\<close> and \<open>error\<close> are present is part of the unit here.\<close>

record http_unit = lowlevel_unit +
  hu_has_call :: bool
  hu_has_error :: bool

definition REQ_WAIT :: u32 where "REQ_WAIT = 1"
definition REQ_ACCEPT_RES :: u32 where "REQ_ACCEPT_RES = push_bit 1 1"
definition REQ_ACCEPT_CBS :: u32 where "REQ_ACCEPT_CBS = push_bit 2 1"

lemmas req_defs = REQ_WAIT_def REQ_ACCEPT_RES_def REQ_ACCEPT_CBS_def

definition opt2flags :: "unit_options \<Rightarrow> u32" where
  "opt2flags opts =
     (if uo_wait opts then REQ_WAIT else 0)
     OR (if uo_accept_callbacks opts then REQ_ACCEPT_CBS else 0)
     OR (if uo_accept_response opts then REQ_ACCEPT_RES else 0)"

definition flags2opt :: "u32 \<Rightarrow> unit_options" where
  "flags2opt flags =
     \<lparr> uo_wait = (flags AND REQ_WAIT \<noteq> 0), uo_accept_callbacks = (flags AND REQ_ACCEPT_CBS \<noteq> 0),
       uo_accept_response = (flags AND REQ_ACCEPT_RES \<noteq> 0) \<rparr>"

definition http_error_part :: "lexical_cast \<Rightarrow> header_parser \<Rightarrow> http_unit \<Rightarrow> exn + http_unit" where
  "http_error_part lc p llu =
     and_then (hp_get lc ''X-VTRC-Error'' 0 p) (\<lambda>code.
     and_then (hp_get lc ''X-VTRC-Category'' 0 p) (\<lambda>category.
     Inr (llu\<lparr> hu_has_error := True,
               llu_error := (llu_error llu)\<lparr> ec_code := code, ec_category := category,
                                            ec_additional := hp_field ''X-VTRC-Message'' p \<rparr> \<rparr>)))"

definition http_request_part :: "header_parser \<Rightarrow> http_unit \<Rightarrow> exn + http_unit" where
  "http_request_part p llu =
     and_then
       (if length (hp_method p) > 1
        then and_then (replace_path (hp_method p ! 1) CHR ''/'' CHR ''.'') (\<lambda>path.
             and_then (path_to_service path) (\<lambda>sp.
             Inr (llu\<lparr> hu_has_call := True, llu_service_id := fst sp, llu_method_id := snd sp \<rparr>)))
        else Inr llu)
       (\<lambda>llu. Inr (llu\<lparr> llu_request := hex2bin (hp_current p) \<rparr>))"

definition http2lowlevel :: "lexical_cast \<Rightarrow> header_parser \<Rightarrow> http_unit \<Rightarrow> exn + http_unit" where
  "http2lowlevel lc p llu =
     (if hp_method p = [] then Inl Undefined
      else
        and_then (hp_get lc ''X-VTRC-Type'' 1 p) (\<lambda>ty.
        and_then (hp_get lc ''X-VTRC-Id'' 0 p) (\<lambda>i.
        and_then (hp_get lc ''X-VTRC-Tid'' 0 p) (\<lambda>tid.
        and_then (hp_get lc ''X-VTRC-Options'' 3 p) (\<lambda>flags.
        let llu = llu\<lparr> llu_type := ty, llu_id := of_nat i, llu_target_id := of_nat tid,
                       llu_opt := flags2opt (of_nat flags) \<rparr> in
        if has_field ''X-VTRC-Error'' p then http_error_part lc p llu
        else if hd (hp_method p) = ''GET'' then http_request_part p llu
        else Inr (llu\<lparr> llu_response := hex2bin (hp_current p) \<rparr>))))))"

definition first_line :: "http_unit \<Rightarrow> string" where
  "first_line llu =
     (if hu_has_call llu \<and> \<not> hu_has_error llu
      then ''GET ''
           @ (case replace_path (''/'' @ llu_service_id llu) CHR ''.'' CHR ''/'' of Inl _ \<Rightarrow> [] | Inr ser \<Rightarrow> ser)
           @ ''/'' @ llu_method_id llu @ '' HTTP/1.1'' @ CRLF
      else ''HTTP/1.1 200 OK'' @ CRLF)"

definition error_page :: "http_unit \<Rightarrow> string" where
  "error_page llu =
     ''<H1>'' @ ''Error: '' @ dec (ec_code (llu_error llu)) @ ''<br>'' @ ec_additional (llu_error llu)
     @ [LF] @ ''</H1>''"

definition lowlevel2http :: "http_unit \<Rightarrow> string" where
  "lowlevel2http llu =
     first_line llu
     @ ''Connection: keep-alive'' @ CRLF
     @ ''X-VTRC-Type: '' @ dec (llu_type llu) @ CRLF
     @ ''X-VTRC-Options: '' @ dec (unat (opt2flags (llu_opt llu))) @ CRLF
     @ (if hu_has_error llu
        then ''X-VTRC-Error: '' @ dec (ec_code (llu_error llu)) @ CRLF
             @ ''X-VTRC-Category: '' @ dec (ec_category (llu_error llu)) @ CRLF
             @ ''X-VTRC-Message: '' @ ec_additional (llu_error llu) @ CRLF
             @ ''Content-Length: '' @ dec (length (error_page llu)) @ CRLF
             @ CRLF @ error_page llu
        else (let content = bin2hex (if hu_has_call llu then llu_request llu else llu_response llu) in
              ''X-VTRC-Id: '' @ dec (unat (llu_id llu)) @ CRLF
              @ ''X-VTRC-Tid: '' @ dec (unat (llu_target_id llu)) @ CRLF
              @ ''Content-Length: '' @ dec (length content) @ CRLF
              @ CRLF @ content))"

subsection \<open>Hexadecimal text reads back\<close>

lemma nibble_less: "unat (drop_bit 4 (b::byte)) < 16" "unat (b AND 0xF) < 16"
proof -
  have "unat b < 256" using unsigned_less [of b] by simp
  then show "unat (drop_bit 4 b) < 16" by (simp add: unat_drop_bit_word)
  have "b AND 0xF \<le> 0xF" by (rule word_and_le1)
  then show "unat (b AND 0xF) < 16" by (simp add: word_le_nat_alt)
qed

lemma hex_to_int_hexes: "n < 16 \<Longrightarrow> hex_to_int (hexes ! n) = of_nat n"
proof -
  have "list_all (\<lambda>k. hex_to_int (hexes ! k) = of_nat k) [0..<16]" by code_simp
  then show "n < 16 \<Longrightarrow> ?thesis" by (simp add: list_all_iff)
qed

lemma nibbles_not_bad: "h < 16 \<Longrightarrow> l < 16 \<Longrightarrow> (of_nat h OR of_nat l :: byte) \<noteq> 0xFF"
proof
  assume h: "h < 16" "l < 16" and e: "(of_nat h OR of_nat l :: byte) = 0xFF"
  have "\<not> bit (of_nat n :: byte) 4" if "n < 16" for n using that by (simp add: bit_of_nat_iff bit_iff_odd [of n])
  then have "\<not> bit (of_nat h OR of_nat l :: byte) 4" using h by (simp add: bit_or_iff)
  moreover have "bit (0xFF :: byte) 4" by simp
  ultimately show False unfolding e by blast
qed

lemma nibbles_join: "push_bit 4 (drop_bit 4 b) OR (b AND 0xF) = (b::byte)"
proof (rule bit_eqI)
  fix n assume "possible_bit TYPE(byte) n"
  then have n: "n < 8" by simp
  have m: "(0xF :: byte) = mask 4" by (simp add: mask_eq_exp_minus_1)
  show "bit (push_bit 4 (drop_bit 4 b) OR (b AND 0xF)) n = bit b n"
    unfolding m using n by (cases "n < 4") (simp_all add: bit_simps)
qed

lemma hex2bin_loop_bin2hex: "hex2bin_loop tmp (bin2hex str) = tmp @ str"
proof (induction str arbitrary: tmp)
  case (Cons b str)
  have "hex_to_int (hexes ! unat (drop_bit 4 b)) = drop_bit 4 b" "hex_to_int (hexes ! unat (b AND 0xF)) = b AND 0xF"
    by (simp_all add: hex_to_int_hexes nibble_less)
  moreover have "drop_bit 4 b OR (b AND 0xF) \<noteq> 0xFF"
    using nibbles_not_bad [OF nibble_less, of b b] by simp
  ultimately show ?case
    using Cons [of "tmp @ [b]"] by (simp add: bin2hex_def int_to_hex_def nibbles_join Let_def)
qed (simp add: bin2hex_def)

lemma length_bin2hex [simp]: "length (bin2hex s) = 2 * length s"
  by (induction s) (simp_all add: bin2hex_def int_to_hex_def)

lemma hex2bin_bin2hex [simp]: "hex2bin (bin2hex str) = str"
  by (simp add: hex2bin_def hex2bin_loop_bin2hex)

lemma flags2opt_opt2flags [simp]: "flags2opt (opt2flags u) = u"
  by (cases u) (auto simp: flags2opt_def opt2flags_def req_defs)

subsection \<open>Numbers read back\<close>

lemma digit_of_char: "n < 10 \<Longrightarrow> of_char (digit n) = (48 + n :: nat)"
  by (simp add: digit_def)

lemma dec_chars: "c \<in> set (dec n) \<Longrightarrow> 48 \<le> (of_char c :: nat) \<and> (of_char c :: nat) \<le> 57"
  by (induction n rule: dec.induct) (subst (asm) dec.simps, auto simp: digit_of_char split: if_splits)

lemma dec_not_Nil [simp]: "dec n \<noteq> []"
  by (subst dec.simps) simp

lemma dec_no_char: "\<not> (48 \<le> (of_char c :: nat) \<and> (of_char c :: nat) \<le> 57) \<Longrightarrow> c \<notin> set (dec n)"
  using dec_chars by blast

lemma dec_plain [simp]: "CR \<notin> set (dec n)" "LF \<notin> set (dec n)" "CHR 0x00 \<notin> set (dec n)"
  by (rule dec_no_char, simp add: CR_def LF_def)+

lemma dec_no_space: "c \<in> set (dec n) \<Longrightarrow> \<not> is_space c"
  using dec_chars [of c n] by (auto simp: is_space_def)

lemma dropWhile_dec [simp]: "dropWhile is_space (dec n) = dec n"
  using dec_no_space [of "hd (dec n)" n] by (cases "dec n") auto

lemma c_str_dec [simp]: "c_str (dec n) = dec n"
  unfolding c_str_def by (rule takeWhile_eq_all_conv [THEN iffD2]) (metis dec_plain(3))

text \<open>A cast that satisfies the law.\<close>

definition parse_decimal :: "string \<Rightarrow> nat" where
  "parse_decimal s = foldl (\<lambda>n c. 10 * n + (of_char c - 48)) 0 s"

definition lexical_cast_decimal :: lexical_cast where
  "lexical_cast_decimal w s =
     (if s \<noteq> [] \<and> list_all (\<lambda>c. 48 \<le> (of_char c :: nat) \<and> (of_char c :: nat) \<le> 57) s \<and> parse_decimal s < 2 ^ w
      then Some (parse_decimal s) else None)"

lemma parse_decimal_dec: "parse_decimal (dec n) = n"
proof (induction n rule: dec.induct)
  case (1 n)
  then show ?case by (cases "n < 10") (subst dec.simps, simp add: parse_decimal_def digit_of_char)+
qed

lemma lexical_cast_decimal_law: "lexical_cast_law lexical_cast_decimal"
  using dec_chars by (auto simp: lexical_cast_law_def lexical_cast_decimal_def parse_decimal_dec list_all_iff split: if_splits)

subsection \<open>One message at a time\<close>

text \<open>A line of the header.\<close>

definition hp_line :: "string \<Rightarrow> header_parser \<Rightarrow> header_parser" where
  "hp_line l p =
     (if l = [] then p\<lparr> hp_header_ready := True \<rparr>
      else if hp_method p = [] then set_method l p
      else cont_insert (split_header l) p)"

lemma push_header_text:
  "\<not> hp_header_ready p \<Longrightarrow> CR \<notin> set l \<Longrightarrow> LF \<notin> set l \<Longrightarrow>
   push_header p (l @ cs) = push_header (p\<lparr> hp_current := hp_current p @ l \<rparr>) cs"
  by (induction l arbitrary: p) (auto simp: push_header_char_def)

lemma hp_line_current: "hp_current (hp_line l p) = hp_current p"
  by (simp add: hp_line_def set_method_def cont_insert_def)

lemma newline_line: "hp_current p = [] \<Longrightarrow> hp_newline (p\<lparr> hp_current := l \<rparr>) = hp_line l p"
  by (cases p) (auto simp: hp_newline_def hp_line_def set_method_def cont_insert_def)

lemma push_header_line:
  assumes "\<not> hp_header_ready p" and "hp_current p = []" and "CR \<notin> set l" and "LF \<notin> set l"
  shows "push_header p (l @ CRLF @ cs) = push_header (hp_line l p) cs"
proof -
  have "CR \<noteq> LF" by (simp add: CR_def LF_def)
  then show ?thesis using assms newline_line [OF assms(2), of l]
    by (simp add: push_header_text CRLF_def push_header_char_def)
qed

fun hp_lines :: "string list \<Rightarrow> header_parser \<Rightarrow> header_parser" where
  "hp_lines [] p = p"
| "hp_lines (l # ls) p = hp_lines ls (hp_line l p)"

definition plain_line :: "string \<Rightarrow> bool" where
  "plain_line l \<longleftrightarrow> l \<noteq> [] \<and> CR \<notin> set l \<and> LF \<notin> set l"

lemma hp_line_fields [simp]:
  "l \<noteq> [] \<Longrightarrow> hp_header_ready (hp_line l p) = hp_header_ready p" "hp_ready (hp_line l p) = hp_ready p"
  by (simp_all add: hp_line_def set_method_def cont_insert_def)

lemma push_header_lines:
  assumes "\<not> hp_header_ready p" and "hp_current p = []" and "list_all plain_line ls"
  shows "push_header p (concat (map (\<lambda>l. l @ CRLF) ls) @ CRLF @ cs) = (hp_lines ls p\<lparr> hp_header_ready := True \<rparr>, cs)"
  using assms
proof (induction ls arbitrary: p)
  case Nil
  then show ?case using push_header_line [of p "[]" cs] by (cases cs) (simp_all add: hp_line_def)
next
  case (Cons l ls)
  have "push_header p (l @ CRLF @ concat (map (\<lambda>l. l @ CRLF) ls) @ CRLF @ cs)
      = push_header (hp_line l p) (concat (map (\<lambda>l. l @ CRLF) ls) @ CRLF @ cs)"
    using Cons.prems by (intro push_header_line) (simp_all add: plain_line_def)
  with Cons.prems Cons.IH [of "hp_line l p"] show ?case by (simp add: hp_line_current plain_line_def)
qed

lemma hp_lines_fields [simp]:
  "list_all plain_line ls \<Longrightarrow> hp_header_ready (hp_lines ls p) = hp_header_ready p"
  "hp_ready (hp_lines ls p) = hp_ready p" "hp_current (hp_lines ls p) = hp_current p"
  by (induction ls arbitrary: p) (simp_all add: hp_line_current plain_line_def)

lemma hp_push_message:
  assumes "list_all plain_line ls" and "lexical_cast_law lc" and "length body < 2 ^ 64"
    and "hp_cont (hp_lines ls hp_new) ''Content-Length'' = Some (dec (length body))"
    and "m = concat (map (\<lambda>l. l @ CRLF) ls) @ CRLF @ body"
  shows "hp_push lc hp_new (m @ cs)
    = (hp_lines ls hp_new\<lparr> hp_header_ready := True, hp_ready := True, hp_current := body \<rparr>, Inr (length m))"
proof -
  let ?p = "hp_lines ls hp_new\<lparr> hp_header_ready := True \<rparr>"
  have new: "\<not> hp_header_ready hp_new" "hp_current hp_new = []" "\<not> hp_ready hp_new" by (simp_all add: hp_new_def)
  have "push_header hp_new (m @ cs) = (?p, body @ cs)"
    using push_header_lines [OF new(1,2) assms(1), of "body @ cs"] by (simp add: assms(5))
  moreover have "content_length lc ?p = Inr (length body)"
    using assms(2-4) by (simp add: content_length_def lexical_cast_law_def)
  moreover have "unat (of_nat (length body) :: size_t) = length body" using assms(3) by (simp add: unat_of_nat_small)
  moreover have "length (m @ cs) - length cs = length m" by simp
  moreover have "hp_current ?p = []" "\<not> hp_ready ?p" using new by simp_all
  moreover have "?p\<lparr> hp_ready := True \<rparr> = hp_lines ls hp_new\<lparr> hp_header_ready := True, hp_ready := True, hp_current := [] \<rparr>"
    using new(2) by (cases "hp_lines ls hp_new") (metis header_parser.select_convs(3) header_parser.update_convs(3-5) hp_lines_fields(3))
  ultimately show ?thesis
    using new(1) by (auto simp: hp_push_def push_body_def Let_def)
qed

subsection \<open>What a message carries\<close>

definition field_line :: "string \<times> string \<Rightarrow> string" where
  "field_line kv = fst kv @ '': '' @ snd kv"

definition plain_field :: "string \<times> string \<Rightarrow> bool" where
  "plain_field kv \<longleftrightarrow> CHR '':'' \<notin> set (fst kv) \<and> dropWhile is_space (snd kv) = snd kv
     \<and> CR \<notin> set (field_line kv) \<and> LF \<notin> set (field_line kv)"

lemma takeWhile_colon: "CHR '':'' \<notin> set k \<Longrightarrow> takeWhile (\<lambda>c. c \<noteq> CHR '':'') (k @ CHR '':'' # v) = k"
  "CHR '':'' \<notin> set k \<Longrightarrow> dropWhile (\<lambda>c. c \<noteq> CHR '':'') (k @ CHR '':'' # v) = CHR '':'' # v"
  by (induction k) auto

lemma split_header_field: "plain_field kv \<Longrightarrow> split_header (field_line kv) = kv"
  by (cases kv) (simp add: split_header_def field_line_def plain_field_def takeWhile_colon is_space_def [of "CHR '' ''"])

lemma hp_lines_fields_map:
  assumes "list_all plain_field kvs" and "hp_method p \<noteq> []"
  shows "hp_lines (map field_line kvs) p = p\<lparr> hp_cont := map_of kvs ++ hp_cont p \<rparr>"
  using assms
proof (induction kvs arbitrary: p)
  case (Cons kv kvs)
  have "hp_line (field_line kv) p = p\<lparr> hp_cont := map_of [kv] ++ hp_cont p \<rparr>"
  proof -
    have "field_line kv \<noteq> []" by (simp add: field_line_def)
    then have "hp_line (field_line kv) p = cont_insert kv p"
      using Cons.prems by (simp add: hp_line_def split_header_field)
    then show ?thesis
      by (cases p) (auto simp: cont_insert_def map_add_def fun_eq_iff split: option.splits)
  qed
  moreover have "map_of kvs ++ (map_of [kv] ++ hp_cont p) = map_of (kv # kvs) ++ hp_cont p"
    by (auto simp: map_add_def fun_eq_iff split: option.splits)
  ultimately show ?case using Cons by (simp add: fun_upd_def)
qed simp

lemma plain_field_line: "plain_field kv \<Longrightarrow> plain_line (field_line kv)"
  by (simp add: plain_field_def plain_line_def field_line_def)

lemma set_method_loop_word:
  "\<forall>c \<in> set w. \<not> is_space c \<Longrightarrow> set_method_loop cur (w @ CHR '' '' # cs) = (cur @ w) # set_method_loop [] cs"
  by (induction w arbitrary: cur) (simp_all add: is_space_def)

text \<open>The names of a call survive their way through the path.\<close>

definition plain_name :: "string \<Rightarrow> bool" where
  "plain_name s \<longleftrightarrow> (\<forall>c \<in> set s. \<not> is_space c \<and> c \<noteq> CR \<and> c \<noteq> LF \<and> c \<noteq> CHR ''/'')"

definition call_path :: "string \<Rightarrow> string \<Rightarrow> string" where
  "call_path service method = CHR ''/'' # map (\<lambda>c. if c = CHR ''.'' then CHR ''/'' else c) service @ CHR ''/'' # method"

definition plain_call :: "string \<Rightarrow> string \<Rightarrow> bool" where
  "plain_call service method \<longleftrightarrow> plain_name service \<and> plain_name method
     \<and> (service = [] \<or> last service \<noteq> CHR ''.'') \<and> method \<noteq> [] \<and> CHR ''.'' \<notin> set method"

lemma last_dot_skip: "CHR ''.'' \<notin> set cs \<Longrightarrow> last_dot i iter cs = iter"
  by (induction cs arbitrary: i) auto

lemma last_dot_append: "last_dot i iter (xs @ ys) = last_dot (i + length xs) (last_dot i iter xs) ys"
  by (induction xs arbitrary: i iter) auto

lemma call_path_sent:
  assumes "plain_call service method"
  shows "replace_path (CHR ''/'' # service) CHR ''.'' CHR ''/''
    = Inr (CHR ''/'' # map (\<lambda>c. if c = CHR ''.'' then CHR ''/'' else c) service)"
proof -
  have "last (CHR ''/'' # service) \<noteq> CHR ''.''" using assms by (cases "service = []") (simp_all add: plain_call_def)
  then show ?thesis by (simp add: replace_path_def)
qed

lemma call_path_replaced:
  assumes "plain_call service method"
  shows "replace_path (call_path service method) CHR ''/'' CHR ''.'' = Inr (CHR ''.'' # service @ CHR ''.'' # method)"
proof -
  let ?f = "\<lambda>c. if c = CHR ''/'' then CHR ''.'' else c" and ?g = "\<lambda>c. if c = CHR ''.'' then CHR ''/'' else c"
  have m: "CHR ''/'' \<notin> set method" "CHR ''/'' \<notin> set service" "method \<noteq> []"
    using assms by (auto simp: plain_call_def plain_name_def)
  have "map ?f method = method" by (rule map_idI) (use m(1) in auto)
  moreover have "map (?f \<circ> ?g) service = service" by (rule map_idI) (use m(2) in auto)
  ultimately have "map ?f (call_path service method) = CHR ''.'' # service @ CHR ''.'' # method"
    unfolding call_path_def by simp
  moreover have "last (call_path service method) = last method" using m(3) by (simp add: call_path_def)
  moreover have "last method \<noteq> CHR ''/''" using m(1,3) last_in_set [of "method"] by metis
  moreover have "call_path service method \<noteq> []" by (simp add: call_path_def)
  ultimately show ?thesis by (simp only: replace_path_def if_False)
qed

lemma path_to_service_call:
  assumes "plain_call service method"
  shows "path_to_service (CHR ''.'' # service @ CHR ''.'' # method) = Inr (service, method)"
proof -
  have "last_dot 0 None (CHR ''.'' # service @ CHR ''.'' # method) = Some (Suc (length service))"
    using assms by (simp add: last_dot_append last_dot_skip plain_call_def)
  then show ?thesis by (simp add: path_to_service_def)
qed

text \<open>The units the format can carry, and what of them arrives.\<close>

definition http_sendable :: "http_unit \<Rightarrow> bool" where
  "http_sendable u \<longleftrightarrow> llu_type u < 2 ^ 32
     \<and> (if hu_has_error u
        then ec_code (llu_error u) < 2 ^ 32 \<and> ec_category (llu_error u) < 2 ^ 32
             \<and> dropWhile is_space (ec_additional (llu_error u)) = ec_additional (llu_error u)
             \<and> CR \<notin> set (ec_additional (llu_error u)) \<and> LF \<notin> set (ec_additional (llu_error u))
             \<and> length (error_page u) < 2 ^ 64
        else unat (llu_id u) < 2 ^ 32 \<and> unat (llu_target_id u) < 2 ^ 32
             \<and> (if hu_has_call u then plain_call (llu_service_id u) (llu_method_id u) \<and> length (llu_request u) < 2 ^ 63
                else length (llu_response u) < 2 ^ 63))"

definition http_unit_new :: http_unit where
  "http_unit_new = lowlevel_unit.extend llu_new \<lparr> hu_has_call = False, hu_has_error = False \<rparr>"

definition http_view :: "http_unit \<Rightarrow> http_unit" where
  "http_view u =
     (let v = http_unit_new\<lparr> llu_type := llu_type u, llu_opt := llu_opt u \<rparr> in
      if hu_has_error u
      then v\<lparr> hu_has_error := True,
              llu_error := no_error\<lparr> ec_code := ec_code (llu_error u), ec_category := ec_category (llu_error u),
                                      ec_additional := ec_additional (llu_error u) \<rparr> \<rparr>
      else
        (let v = v\<lparr> llu_id := llu_id u, llu_target_id := llu_target_id u \<rparr> in
         if hu_has_call u
         then v\<lparr> hu_has_call := True, llu_service_id := llu_service_id u, llu_method_id := llu_method_id u,
                 llu_request := llu_request u \<rparr>
         else v\<lparr> llu_response := llu_response u \<rparr>))"

definition http_body :: "http_unit \<Rightarrow> string" where
  "http_body u =
     (if hu_has_error u then error_page u
      else bin2hex (if hu_has_call u then llu_request u else llu_response u))"

definition http_method :: "http_unit \<Rightarrow> string list" where
  "http_method u =
     (if hu_has_call u \<and> \<not> hu_has_error u
      then [''GET'', call_path (llu_service_id u) (llu_method_id u), ''HTTP/1.1'']
      else [''HTTP/1.1'', ''200'', ''OK''])"

definition method_line :: "http_unit \<Rightarrow> string" where
  "method_line u =
     (if hu_has_call u \<and> \<not> hu_has_error u
      then ''GET '' @ call_path (llu_service_id u) (llu_method_id u) @ '' HTTP/1.1''
      else ''HTTP/1.1 200 OK'')"

definition http_fields :: "http_unit \<Rightarrow> (string \<times> string) list" where
  "http_fields u =
     [(''Connection'', ''keep-alive''), (''X-VTRC-Type'', dec (llu_type u)),
      (''X-VTRC-Options'', dec (unat (opt2flags (llu_opt u))))]
     @ (if hu_has_error u
        then [(''X-VTRC-Error'', dec (ec_code (llu_error u))), (''X-VTRC-Category'', dec (ec_category (llu_error u))),
              (''X-VTRC-Message'', ec_additional (llu_error u))]
        else [(''X-VTRC-Id'', dec (unat (llu_id u))), (''X-VTRC-Tid'', dec (unat (llu_target_id u)))])
     @ [(''Content-Length'', dec (length (http_body u)))]"

lemma lowlevel2http_lines:
  "http_sendable u \<Longrightarrow>
   lowlevel2http u = concat (map (\<lambda>l. l @ CRLF) (method_line u # map field_line (http_fields u))) @ CRLF @ http_body u"
  by (auto simp: lowlevel2http_def http_fields_def field_line_def http_body_def method_line_def first_line_def
      http_sendable_def call_path_sent call_path_def Let_def)

lemma is_space_simps [simp]: "is_space CHR '' ''" "\<not> is_space CR" "\<not> is_space LF" "\<not> is_space CHR ''/''"
  by (simp_all add: is_space_def CR_def LF_def)

lemma plain_call_path:
  assumes "plain_call service method"
  shows "\<forall>c \<in> set (call_path service method). \<not> is_space c"
    "CR \<notin> set (call_path service method)" "LF \<notin> set (call_path service method)"
proof -
  have "CHR ''/'' \<noteq> CR" "CHR ''/'' \<noteq> LF" by (simp_all add: CR_def LF_def)
  moreover have "set (call_path service method) \<subseteq> insert (CHR ''/'') (set service \<union> set method)"
    unfolding call_path_def by auto
  moreover have "\<not> is_space c \<and> c \<noteq> CR \<and> c \<noteq> LF" if "c \<in> set service \<union> set method" for c
    using assms that unfolding plain_call_def plain_name_def by blast
  ultimately have "\<not> is_space c \<and> c \<noteq> CR \<and> c \<noteq> LF" if "c \<in> set (call_path service method)" for c
    using that is_space_simps(4) by (metis insertE subsetD)
  then show "\<forall>c \<in> set (call_path service method). \<not> is_space c"
    "CR \<notin> set (call_path service method)" "LF \<notin> set (call_path service method)" by blast+
qed

lemma method_line_plain: "http_sendable u \<Longrightarrow> plain_line (method_line u)"
proof -
  assume u: "http_sendable u"
  have "CR \<notin> set ''GET  HTTP/1.1 200 OK''" "LF \<notin> set ''GET  HTTP/1.1 200 OK''" by (simp_all add: CR_def LF_def)
  then show ?thesis using u by (auto simp: plain_line_def method_line_def http_sendable_def plain_call_path)
qed

lemma method_line_parsed: "http_sendable u \<Longrightarrow> set_method_loop [] (method_line u) = http_method u"
proof (cases "hu_has_call u \<and> \<not> hu_has_error u")
  case True
  assume u: "http_sendable u"
  let ?path = "call_path (llu_service_id u) (llu_method_id u)"
  have "set_method_loop [] (?path @ CHR '' '' # ''HTTP/1.1'') = ?path # set_method_loop [] ''HTTP/1.1''"
    using set_method_loop_word [OF plain_call_path(1), of "llu_service_id u" "llu_method_id u" "[]"] u True
    by (simp del: set_method_loop.simps add: http_sendable_def)
  then show ?thesis using True by (simp add: method_line_def http_method_def is_space_def)
next
  case False
  then show ?thesis by (auto simp: method_line_def http_method_def is_space_def)
qed

lemma plain_numbers: "CHR '':'' \<notin> set k \<Longrightarrow> CR \<notin> set k \<Longrightarrow> LF \<notin> set k \<Longrightarrow> plain_field (k, dec n)"
  by (simp add: plain_field_def field_line_def) (simp add: CR_def LF_def)

lemma http_fields_plain: "http_sendable u \<Longrightarrow> list_all plain_field (http_fields u)"
proof -
  assume u: "http_sendable u"
  have "plain_field (''Connection'', ''keep-alive'')"
    by (simp add: plain_field_def field_line_def CR_def LF_def is_space_def)
  moreover have "plain_field (''X-VTRC-Message'', ec_additional (llu_error u))" if "hu_has_error u"
  proof -
    have "CR \<notin> set ''X-VTRC-Message: ''" "LF \<notin> set ''X-VTRC-Message: ''" by (simp_all add: CR_def LF_def)
    then show ?thesis using u that by (simp add: plain_field_def field_line_def http_sendable_def)
  qed
  moreover have "plain_field (k, dec n)"
    if "k \<in> {''X-VTRC-Type'', ''X-VTRC-Options'', ''X-VTRC-Error'', ''X-VTRC-Category'', ''X-VTRC-Id'', ''X-VTRC-Tid'',
             ''Content-Length''}" for k n
    using that by (intro plain_numbers) (auto simp: CR_def LF_def)
  ultimately show ?thesis by (simp add: http_fields_def)
qed

text \<open>A parser that is given a whole message, and what follows it, takes the message and no more.\<close>

definition parsed :: "http_unit \<Rightarrow> header_parser" where
  "parsed u = \<lparr> hp_cont = map_of (http_fields u), hp_method = http_method u, hp_current = http_body u,
                hp_header_ready = True, hp_ready = True \<rparr>"

lemma hp_push_unit:
  assumes u: "http_sendable u" and "lexical_cast_law lc"
  shows "hp_push lc hp_new (lowlevel2http u @ cs) = (parsed u, Inr (length (lowlevel2http u)))"
proof -
  let ?ls = "method_line u # map field_line (http_fields u)"
  have first: "hp_line (method_line u) hp_new = hp_new\<lparr> hp_method := http_method u \<rparr>"
    using method_line_plain [OF u] method_line_parsed [OF u]
    by (simp add: hp_line_def hp_new_def set_method_def plain_line_def)
  have "hp_lines ?ls hp_new = hp_new\<lparr> hp_method := http_method u, hp_cont := map_of (http_fields u) \<rparr>"
    using hp_lines_fields_map [OF http_fields_plain [OF u], of "hp_new\<lparr> hp_method := http_method u \<rparr>"] first
    by (simp add: http_method_def hp_new_def)
  moreover have "list_all plain_line ?ls"
    using method_line_plain [OF u] http_fields_plain [OF u] plain_field_line by (auto simp: list_all_iff)
  moreover have "length (http_body u) < 2 ^ 64" using u by (simp add: http_body_def http_sendable_def split: if_splits)
  moreover have "map_of (http_fields u) ''Content-Length'' = Some (dec (length (http_body u)))"
    by (simp add: http_fields_def)
  ultimately show ?thesis
    using hp_push_message [OF _ assms(2) _ _ lowlevel2http_lines [OF u], of cs] by (simp add: parsed_def hp_new_def)
qed

lemma opt2flags_small: "unat (opt2flags u) < 2 ^ 32"
  using unsigned_less [of "opt2flags u"] by simp

lemma http2lowlevel_parsed:
  assumes u: "http_sendable u" and law: "lexical_cast_law lc"
  shows "http2lowlevel lc (parsed u) http_unit_new = Inr (http_view u)"
proof -
  have get: "hp_get lc k d (parsed u) = Inr n" if "map_of (http_fields u) k = Some (dec n)" "n < 2 ^ 32" for k d n
    using that law by (simp add: hp_get_def parsed_def lexical_cast_law_def)
  have none: "hp_get lc k d (parsed u) = Inr d" if "map_of (http_fields u) k = None" for k d
    using that by (simp add: hp_get_def parsed_def)
  have head: "hp_get lc ''X-VTRC-Type'' d (parsed u) = Inr (llu_type u)"
    "hp_get lc ''X-VTRC-Options'' d (parsed u) = Inr (unat (opt2flags (llu_opt u)))" for d
    using u by (auto intro!: get opt2flags_small simp: http_fields_def http_sendable_def simp del: One_nat_def)
  show ?thesis
  proof (cases "hu_has_error u")
    case True
    have "hp_get lc ''X-VTRC-Id'' d (parsed u) = Inr d" "hp_get lc ''X-VTRC-Tid'' d (parsed u) = Inr d" for d
      using True by (auto intro!: none simp: http_fields_def)
    moreover have "hp_get lc ''X-VTRC-Error'' d (parsed u) = Inr (ec_code (llu_error u))"
      "hp_get lc ''X-VTRC-Category'' d (parsed u) = Inr (ec_category (llu_error u))" for d
      using u True by (auto intro!: get simp: http_fields_def http_sendable_def)
    moreover have "hp_field ''X-VTRC-Message'' (parsed u) = ec_additional (llu_error u)"
      "has_field ''X-VTRC-Error'' (parsed u)" "hp_method (parsed u) \<noteq> []"
      using True by (simp_all add: hp_field_def has_field_def parsed_def http_fields_def http_method_def)
    ultimately show ?thesis using True head
      by (simp add: http2lowlevel_def http_error_part_def http_view_def http_unit_new_def llu_new_def lowlevel_unit.defs Let_def)
  next
    case False
    have ids: "hp_get lc ''X-VTRC-Id'' d (parsed u) = Inr (unat (llu_id u))"
      "hp_get lc ''X-VTRC-Tid'' d (parsed u) = Inr (unat (llu_target_id u))" for d
      using u False by (auto intro!: get simp: http_fields_def http_sendable_def)
    have fld: "\<not> has_field ''X-VTRC-Error'' (parsed u)" "hp_current (parsed u) = http_body u" "hp_method (parsed u) = http_method u"
      using False by (simp_all add: has_field_def parsed_def http_fields_def)
    have "http_request_part (parsed u) llu = Inr (llu\<lparr> hu_has_call := True, llu_service_id := llu_service_id u,
        llu_method_id := llu_method_id u, llu_request := llu_request u \<rparr>)" if "hu_has_call u" for llu
      using that u False fld
      by (simp add: http_request_part_def http_method_def call_path_replaced path_to_service_call http_sendable_def http_body_def)
    then show ?thesis using False head ids fld
      by (simp add: http2lowlevel_def http_view_def http_unit_new_def llu_new_def lowlevel_unit.defs Let_def http_method_def http_body_def)
  qed
qed

end
