(* ===== verification/Http_Protocol.thy ===== *)
theory Http_Protocol
  imports Http_Header
begin

text \<open>
  The low-level protocol that \<open>examples/hello-events-http\<close> plugs into a connection on both sides
  (\<open>http_lowlevel_server\<close> in \<open>server/main.cpp\<close>; \<open>http_lowlevel_client\<close> in \<open>client/main.cpp\<close> has the same
  text): incoming characters go to the current parser, complete messages wait in a queue, and the
  layer above is told once per read that there are some.
\<close>

subsection \<open>State and operations\<close>

datatype accessor_call = Ready_cb | Accessor_ready bool | Message_ready

record http_lowlevel =
  hl_container :: "header_parser list"
  hl_current :: "header_parser option"
  hl_calls :: "accessor_call list"

definition hl_new :: http_lowlevel where
  "hl_new = \<lparr> hl_container = [], hl_current = None, hl_calls = [] \<rparr>"

definition hl_reset_current :: "http_lowlevel \<Rightarrow> http_lowlevel" where
  "hl_reset_current s = s\<lparr> hl_current := Some hp_new \<rparr>"

definition hl_call :: "accessor_call \<Rightarrow> http_lowlevel \<Rightarrow> http_lowlevel" where
  "hl_call c s = s\<lparr> hl_calls := hl_calls s @ [c] \<rparr>"

definition hl_init :: "http_lowlevel \<Rightarrow> http_lowlevel" where
  "hl_init s = hl_call (Accessor_ready True) (hl_call Ready_cb (hl_reset_current s))"

definition hl_pack_message :: "http_unit \<Rightarrow> string" where
  "hl_pack_message mess = lowlevel2http mess"

text \<open>The loop goes on until the input is used up: with a parser that takes nothing it would not end.\<close>

partial_function (option) hl_loop ::
    "lexical_cast \<Rightarrow> bool \<Rightarrow> http_lowlevel \<Rightarrow> string \<Rightarrow> (http_lowlevel \<times> (exn + bool)) option" where
  "hl_loop lc ok s data =
     (if data = [] then Some (s, Inr ok)
      else
        (case hl_current s of
           None \<Rightarrow> Some (s, Inl Undefined)
         | Some p \<Rightarrow>
             (case hp_push lc p data of
                (p', Inl e) \<Rightarrow> Some (s\<lparr> hl_current := Some p' \<rparr>, Inl e)
              | (p', Inr r) \<Rightarrow>
                  if hp_ready p'
                  then hl_loop lc True (hl_reset_current (s\<lparr> hl_container := hl_container s @ [p'] \<rparr>)) (drop r data)
                  else hl_loop lc ok (s\<lparr> hl_current := Some p' \<rparr>) (drop r data))))"

definition hl_process_data ::
    "lexical_cast \<Rightarrow> string \<Rightarrow> http_lowlevel \<Rightarrow> (http_lowlevel \<times> (exn + unit)) option" where
  "hl_process_data lc data s =
     map_option
       (\<lambda>(s, r). case r of
                   Inl e \<Rightarrow> (s, Inl e)
                 | Inr ok \<Rightarrow> (if ok then hl_call Message_ready s else s, Inr ()))
       (hl_loop lc False s data)"

definition hl_queue_size :: "http_lowlevel \<Rightarrow> nat" where
  "hl_queue_size s = length (hl_container s)"

text \<open>A message that cannot be translated is left at the head of the queue.\<close>

definition hl_pop_proto_message ::
    "lexical_cast \<Rightarrow> http_unit \<Rightarrow> http_lowlevel \<Rightarrow> http_lowlevel \<times> (exn + http_unit)" where
  "hl_pop_proto_message lc result s =
     (case hl_container s of
        [] \<Rightarrow> (s, Inl Undefined)
      | p # ps \<Rightarrow>
          (case http2lowlevel lc p result of
             Inl e \<Rightarrow> (s, Inl e)
           | Inr u \<Rightarrow> (s\<lparr> hl_container := ps \<rparr>, Inr u)))"

text \<open>A connection's reads, and the loop of the layer above over the queue.\<close>

fun hl_reads :: "lexical_cast \<Rightarrow> string list \<Rightarrow> http_lowlevel \<Rightarrow> (http_lowlevel \<times> (exn + unit)) option" where
  "hl_reads lc [] s = Some (s, Inr ())"
| "hl_reads lc (c # cs) s =
     (case hl_process_data lc c s of
        None \<Rightarrow> None
      | Some (s', Inl e) \<Rightarrow> Some (s', Inl e)
      | Some (s', Inr _) \<Rightarrow> hl_reads lc cs s')"

fun hl_pop_units :: "lexical_cast \<Rightarrow> nat \<Rightarrow> http_lowlevel \<Rightarrow> http_lowlevel \<times> (exn + http_unit list)" where
  "hl_pop_units lc 0 s = (s, Inr [])"
| "hl_pop_units lc (Suc n) s =
     (case hl_pop_proto_message lc http_unit_new s of
        (s', Inl e) \<Rightarrow> (s', Inl e)
      | (s', Inr u) \<Rightarrow> (case hl_pop_units lc n s' of (s'', r) \<Rightarrow> (s'', and_then r (\<lambda>us. Inr (u # us)))))"

subsection \<open>The parser character by character\<close>

definition hp_wf :: "lexical_cast \<Rightarrow> header_parser \<Rightarrow> bool" where
  "hp_wf lc p \<longleftrightarrow> \<not> hp_ready p
     \<and> (hp_header_ready p \<longrightarrow> (\<exists>n. content_length lc p = Inr n \<and> length (hp_current p) < n \<and> n < 2 ^ 64))"

lemma hp_wf_new [simp]: "hp_wf lc hp_new"
  by (simp add: hp_wf_def hp_new_def)

lemma push_header_char_ready [simp]: "hp_ready (push_header_char c p) = hp_ready p"
  by (simp add: push_header_char_def hp_newline_def set_method_def cont_insert_def)

lemma push_header_char_done:
  "\<not> hp_header_ready p \<Longrightarrow> hp_header_ready (push_header_char c p) \<Longrightarrow> hp_current (push_header_char c p) = []"
  by (simp add: push_header_char_def hp_newline_def split: if_splits)

lemma push_header_rest: "push_header p cs = (p', r) \<Longrightarrow> length r \<le> length cs"
  by (induction p cs rule: push_header.induct) (auto split: if_splits)

lemma push_header_ready [simp]: "push_header p cs = (p', r) \<Longrightarrow> hp_ready p' = hp_ready p"
  by (induction p cs rule: push_header.induct) (auto split: if_splits)

lemma push_header_end: "push_header p cs = (p', r) \<Longrightarrow> hp_header_ready p' \<or> r = []"
  by (induction p cs rule: push_header.induct) (auto split: if_splits)

lemma push_header_stop: "hp_header_ready p \<Longrightarrow> push_header p cs = (p, cs)"
  by (cases cs) simp_all

text \<open>\<open>push_body\<close> where the length is known and not reached yet.\<close>

lemma push_body_eq:
  assumes "content_length lc p = Inr n" and "length (hp_current p) < n" and "n < 2 ^ 64"
  shows "push_body lc p cs =
    (let k = min (n - length (hp_current p)) (length cs) in
     (p\<lparr> hp_current := hp_current p @ take k cs, hp_ready := (length (hp_current p) + k = n) \<rparr>, Inr (drop k cs)))"
proof -
  have "unat (of_nat n - of_nat (length (hp_current p)) :: size_t) = n - length (hp_current p)"
  proof -
    have "unat (of_nat n :: size_t) = n" using assms(3) by (simp add: unat_of_nat_small)
    then show ?thesis using unat_sub_of_nat [of "length (hp_current p)" "of_nat n :: size_t"] assms(2) by simp
  qed
  then show ?thesis using assms(1,2) by (auto simp: push_body_def Let_def)
qed

lemma content_length_update [simp]:
  "content_length lc (p\<lparr> hp_current := x \<rparr>) = content_length lc p"
  "content_length lc (p\<lparr> hp_ready := b \<rparr>) = content_length lc p"
  by (simp_all add: content_length_def)

lemma content_length_bound:
  assumes "lexical_cast_law lc" and "content_length lc p = Inr n"
  shows "n < 2 ^ 64"
proof (cases "hp_cont p ''Content-Length''")
  case (Some v)
  then have "lc 64 (c_str v) = Some n" using assms(2) by (simp add: content_length_def split: option.splits)
  then show ?thesis using assms(1) unfolding lexical_cast_law_def by blast
qed (use assms(2) in \<open>simp add: content_length_def\<close>)

text \<open>Giving a parser its input at once or with the first character apart makes no difference.\<close>

definition push_apart :: "lexical_cast \<Rightarrow> header_parser \<Rightarrow> char \<Rightarrow> string \<Rightarrow> header_parser \<times> (exn + nat)" where
  "push_apart lc p c cs =
     (case hp_push lc p [c] of
        (p1, Inl e) \<Rightarrow> (p1, Inl e)
      | (p1, Inr _) \<Rightarrow>
          if hp_ready p1 \<or> cs = [] then (p1, Inr 1)
          else (case hp_push lc p1 cs of (p2, Inl e) \<Rightarrow> (p2, Inl e) | (p2, Inr k) \<Rightarrow> (p2, Inr (Suc k))))"

lemma hp_push_body_Cons:
  assumes "hp_wf lc p" and "hp_header_ready p"
  shows "hp_push lc p (c # cs) = push_apart lc p c cs"
proof -
  obtain n where n: "content_length lc p = Inr n" "length (hp_current p) < n" "n < 2 ^ 64" and r: "\<not> hp_ready p"
    using assms by (auto simp: hp_wf_def)
  let ?p1 = "p\<lparr> hp_current := hp_current p @ [c], hp_ready := (length (hp_current p) + 1 = n) \<rparr>"
  have one: "hp_push lc p [c] = (?p1, Inr 1)"
  proof -
    have m: "min (n - length (hp_current p)) (length [c]) = 1" using n(2) by simp
    show ?thesis using r assms(2) push_body_eq [OF n, of "[c]"] unfolding m by (simp add: hp_push_def)
  qed
  define k where "k = min (n - Suc (length (hp_current p))) (length cs)"
  have all: "hp_push lc p (c # cs) =
      (p\<lparr> hp_current := hp_current p @ c # take k cs, hp_ready := (Suc (length (hp_current p) + k) = n) \<rparr>, Inr (Suc k))"
  proof -
    have m: "min (n - length (hp_current p)) (length (c # cs)) = Suc k" using n(2) unfolding k_def list.size by linarith
    have "k \<le> length cs" by (simp add: k_def)
    then show ?thesis using r assms(2) push_body_eq [OF n, of "c # cs"] unfolding m by (simp add: hp_push_def Let_def)
  qed
  show ?thesis
  proof (cases "length (hp_current p) + 1 = n \<or> cs = []")
    case True
    then have "k = 0" by (auto simp: k_def)
    with True one all show ?thesis by (auto simp: push_apart_def)
  next
    case False
    then have "content_length lc ?p1 = Inr n" "length (hp_current ?p1) < n" using n by simp_all
    from push_body_eq [OF this n(3), of cs] have "hp_push lc ?p1 cs =
      (p\<lparr> hp_current := hp_current p @ c # take k cs, hp_ready := (Suc (length (hp_current p) + k) = n) \<rparr>, Inr k)"
      using False assms(2) by (simp add: hp_push_def Let_def k_def min_def)
    with False one all show ?thesis by (simp add: push_apart_def)
  qed
qed

lemma hp_push_header_Cons:
  assumes "hp_wf lc p" and "\<not> hp_header_ready p" and law: "lexical_cast_law lc"
  shows "hp_push lc p (c # cs) = push_apart lc p c cs"
proof -
  let ?q = "push_header_char c p"
  have r: "\<not> hp_ready ?q" using assms(1) by (simp add: hp_wf_def)
  show ?thesis
  proof (cases "hp_header_ready ?q")
    case True
    have cur: "hp_current ?q = []" by (rule push_header_char_done [OF assms(2) True])
    have all: "hp_push lc p (c # xs) =
        (case push_body lc ?q xs of (p2, Inl e) \<Rightarrow> (p2, Inl e) | (p2, Inr r2) \<Rightarrow> (p2, Inr (Suc (length xs) - length r2)))" for xs
      using assms(2) True r by (simp add: hp_push_def Let_def push_header_stop)
    show ?thesis
    proof (cases "content_length lc ?q")
      case (Inl e)
      then show ?thesis using all [of cs] all [of "[]"] by (simp add: push_apart_def push_body_def)
    next
      case (Inr n)
      show ?thesis
      proof (cases "n = 0")
        case True
        then show ?thesis using Inr all [of cs] all [of "[]"] by (simp add: push_apart_def push_body_def)
      next
        case False
        have n: "n < 2 ^ 64" "length (hp_current ?q) < n"
          using content_length_bound [OF law Inr] cur False by simp_all
        have "?q\<lparr> hp_current := [], hp_ready := False \<rparr> = ?q" using r cur by (cases ?q) simp
        then have one: "hp_push lc p [c] = (?q, Inr 1)"
          using all [of "[]"] push_body_eq [OF Inr n(2,1), of "[]"] cur False by simp
        have "hp_push lc ?q cs =
            (case push_body lc ?q cs of (p2, Inl e) \<Rightarrow> (p2, Inl e) | (p2, Inr r2) \<Rightarrow> (p2, Inr (length cs - length r2)))"
          using True r by (simp add: hp_push_def)
        then show ?thesis using one r all [of cs] push_body_eq [OF Inr n(2,1), of cs]
          by (auto simp: push_apart_def Let_def Suc_diff_le)
      qed
    qed
  next
    case False
    have one: "hp_push lc p [c] = (?q, Inr 1)" using False assms(2) by (simp add: hp_push_def)
    obtain p1 r1 where p1: "push_header ?q cs = (p1, r1)" by fastforce
    then have len: "length r1 \<le> length cs" "hp_ready p1 = hp_ready ?q" by (auto dest: push_header_rest)
    have rest: "length r2 \<le> length r1" if "push_body lc p1 r1 = (p2, Inr r2)" for p2 r2
      using that by (auto simp: push_body_def Let_def split: sum.splits if_splits)
    show ?thesis
    proof (cases "hp_header_ready p1")
      case True
      then show ?thesis using one r p1 len rest False assms(2)
        by (cases "push_body lc p1 r1"; cases "snd (push_body lc p1 r1)")
          (auto simp: push_apart_def hp_push_def Let_def Suc_diff_le dest: le_trans [OF _ len(1)])
    next
      case nr: False
      then show ?thesis using one r p1 len False assms(2)
        by (auto simp: push_apart_def hp_push_def Let_def Suc_diff_le)
    qed
  qed
qed

lemma hp_push_Cons:
  "hp_wf lc p \<Longrightarrow> lexical_cast_law lc \<Longrightarrow> hp_push lc p (c # cs) = push_apart lc p c cs"
  using hp_push_body_Cons hp_push_header_Cons by blast

lemma hp_wf_push:
  assumes "hp_wf lc p" and law: "lexical_cast_law lc" and "hp_push lc p [c] = (p1, Inr k)" and "\<not> hp_ready p1"
  shows "hp_wf lc p1"
proof (cases "hp_header_ready p")
  case True
  then obtain n where n: "content_length lc p = Inr n" "length (hp_current p) < n" "n < 2 ^ 64" and r: "\<not> hp_ready p"
    using assms(1) by (auto simp: hp_wf_def)
  have "min (n - length (hp_current p)) (length [c]) = 1" using n(2) by simp
  then have "p1 = p\<lparr> hp_current := hp_current p @ [c], hp_ready := (length (hp_current p) + 1 = n) \<rparr>"
    using assms(3) True r push_body_eq [OF n, of "[c]"] by (auto simp: hp_push_def)
  then show ?thesis using assms(4) n True by (auto simp: hp_wf_def)
next
  case False
  let ?q = "push_header_char c p"
  have r: "\<not> hp_ready ?q" using assms(1) by (simp add: hp_wf_def)
  show ?thesis
  proof (cases "hp_header_ready ?q")
    case True
    have cur: "hp_current ?q = []" by (rule push_header_char_done [OF False True])
    obtain n where n: "content_length lc ?q = Inr n"
      using assms(3) False True r by (cases "content_length lc ?q") (simp_all add: hp_push_def push_body_def)
    have "0 < n"
    proof (rule ccontr)
      assume "\<not> 0 < n"
      then have "push_body lc ?q [] = (?q\<lparr> hp_ready := True \<rparr>, Inr [])" using n by (simp add: push_body_def)
      then show False using assms(3,4) False True r by (auto simp: hp_push_def)
    qed
    then have pb: "push_body lc ?q [] = (?q\<lparr> hp_current := [], hp_ready := False \<rparr>, Inr [])"
      using push_body_eq [OF n, of "[]"] content_length_bound [OF law n] cur by simp
    have "p1 = ?q\<lparr> hp_current := [], hp_ready := False \<rparr>"
      using assms(3) False True r pb by (simp add: hp_push_def)
    then show ?thesis using n \<open>0 < n\<close> content_length_bound [OF law n] by (simp add: hp_wf_def)
  next
    case nr: False
    then have "p1 = ?q" using assms(3) False by (simp add: hp_push_def)
    then show ?thesis using r nr by (simp add: hp_wf_def)
  qed
qed

subsection \<open>The loop\<close>

text \<open>A reference for the loop: one character after the other.\<close>

definition hl_char :: "lexical_cast \<Rightarrow> http_lowlevel \<Rightarrow> char \<Rightarrow> http_lowlevel \<times> (exn + bool)" where
  "hl_char lc s c =
     (case hl_current s of
        None \<Rightarrow> (s, Inl Undefined)
      | Some p \<Rightarrow>
          (case hp_push lc p [c] of
             (p', Inl e) \<Rightarrow> (s\<lparr> hl_current := Some p' \<rparr>, Inl e)
           | (p', Inr _) \<Rightarrow>
               if hp_ready p' then (s\<lparr> hl_container := hl_container s @ [p'], hl_current := Some hp_new \<rparr>, Inr True)
               else (s\<lparr> hl_current := Some p' \<rparr>, Inr False)))"

fun hl_chars :: "lexical_cast \<Rightarrow> bool \<Rightarrow> http_lowlevel \<Rightarrow> string \<Rightarrow> http_lowlevel \<times> (exn + bool)" where
  "hl_chars lc ok s [] = (s, Inr ok)"
| "hl_chars lc ok s (c # cs) =
     (case hl_char lc s c of (s', Inl e) \<Rightarrow> (s', Inl e) | (s', Inr r) \<Rightarrow> hl_chars lc (ok \<or> r) s' cs)"

definition hl_wf :: "lexical_cast \<Rightarrow> http_lowlevel \<Rightarrow> bool" where
  "hl_wf lc s \<longleftrightarrow> (\<exists>p. hl_current s = Some p \<and> hp_wf lc p)"

lemma hl_char_wf:
  "hl_wf lc s \<Longrightarrow> lexical_cast_law lc \<Longrightarrow> hl_char lc s c = (s', Inr r) \<Longrightarrow> hl_wf lc s'"
  by (auto simp: hl_wf_def hl_char_def split: prod.splits sum.splits if_splits) (rule hp_wf_push)

lemma hl_chars_wf:
  "hl_wf lc s \<Longrightarrow> lexical_cast_law lc \<Longrightarrow> hl_chars lc ok s cs = (s', Inr r) \<Longrightarrow> hl_wf lc s'"
proof (induction cs arbitrary: s ok)
  case (Cons c cs)
  then show ?case by (auto split: prod.splits sum.splits dest: hl_char_wf)
qed simp

lemma hl_chars_append:
  "hl_chars lc ok s (xs @ ys) =
     (case hl_chars lc ok s xs of (s', Inl e) \<Rightarrow> (s', Inl e) | (s', Inr r) \<Rightarrow> hl_chars lc r s' ys)"
  by (induction xs arbitrary: s ok) (auto split: prod.splits sum.splits)

lemma hl_loop_chars:
  "hl_wf lc s \<Longrightarrow> lexical_cast_law lc \<Longrightarrow> hl_loop lc ok s cs = Some (hl_chars lc ok s cs)"
proof (induction cs arbitrary: s ok)
  case Nil
  then show ?case by (simp add: hl_loop.simps)
next
  case (Cons c cs)
  obtain p where p: "hl_current s = Some p" "hp_wf lc p" using Cons.prems(1) by (auto simp: hl_wf_def)
  note pa = hp_push_Cons [OF p(2) Cons.prems(2), of c cs]
  obtain p1 r1 where p1: "hp_push lc p [c] = (p1, r1)" by fastforce
  show ?case
  proof (cases r1)
    case (Inl e)
    then show ?thesis using p p1 pa by (subst hl_loop.simps) (simp add: push_apart_def hl_char_def)
  next
    case (Inr k)
    show ?thesis
    proof (cases "hp_ready p1")
      case True
      let ?s = "s\<lparr> hl_container := hl_container s @ [p1], hl_current := Some hp_new \<rparr>"
      have "hl_loop lc True ?s cs = Some (hl_chars lc True ?s cs)"
        using Cons.prems(2) by (intro Cons.IH) (simp_all add: hl_wf_def)
      then show ?thesis using p p1 pa Inr True
        by (subst hl_loop.simps) (simp add: push_apart_def hl_char_def hl_reset_current_def)
    next
      case False
      let ?s = "s\<lparr> hl_current := Some p1 \<rparr>"
      have "hl_wf lc ?s" using hp_wf_push [OF p(2) Cons.prems(2)] p1 Inr False by (simp add: hl_wf_def)
      then have ih: "hl_loop lc ok ?s cs = Some (hl_chars lc ok ?s cs)" using Cons by blast
      have step: "hl_chars lc ok s (c # cs) = hl_chars lc ok ?s cs" using p p1 Inr False by (simp add: hl_char_def)
      have "hl_loop lc ok s (c # cs) = hl_loop lc ok ?s cs"
      proof (cases "cs = []")
        case True
        then show ?thesis using p p1 pa Inr False by (subst hl_loop.simps) (simp add: push_apart_def)
      next
        case ne: False
        obtain p2 r2 where p2: "hp_push lc p1 cs = (p2, r2)" by fastforce
        have whole: "hp_push lc p (c # cs) = (case r2 of Inl e \<Rightarrow> (p2, Inl e) | Inr k \<Rightarrow> (p2, Inr (Suc k)))"
          using p2 p1 pa Inr False ne by (simp add: push_apart_def)
        let ?t = "s\<lparr> hl_current := Some p2 \<rparr>"
        define r where "r = (case r2 of
            Inl e \<Rightarrow> Some (?t, Inl e)
          | Inr k \<Rightarrow> if hp_ready p2
                    then hl_loop lc True (hl_reset_current (s\<lparr> hl_container := hl_container s @ [p2] \<rparr>)) (drop k cs)
                    else hl_loop lc ok ?t (drop k cs))"
        have "hl_loop lc ok s (c # cs) = r"
          using p whole unfolding r_def by (subst hl_loop.simps) (simp split: sum.splits)
        moreover have "hl_loop lc ok ?s cs = r"
          using p2 ne unfolding r_def by (subst hl_loop.simps) (simp add: hl_reset_current_def split: sum.splits)
        ultimately show ?thesis by simp
      qed
      then show ?thesis using ih step by simp
    qed
  qed
qed

fun outcome :: "exn + bool \<Rightarrow> exn + unit" where
  "outcome (Inl e) = Inl e"
| "outcome (Inr ok) = Inr ()"

text \<open>What the layer above can see of the state.\<close>

definition hl_view :: "http_lowlevel \<Rightarrow> header_parser list \<times> header_parser option" where
  "hl_view s = (hl_container s, hl_current s)"

lemma hl_view_eq: "hl_view s = hl_view t \<longleftrightarrow> hl_container s = hl_container t \<and> hl_current s = hl_current t"
  by (simp add: hl_view_def)

lemma hl_view_call [simp]: "hl_view (hl_call c s) = hl_view s"
  by (simp add: hl_view_def hl_call_def)

lemma hl_char_view:
  "hl_view s = hl_view t \<Longrightarrow>
   hl_view (fst (hl_char lc s c)) = hl_view (fst (hl_char lc t c)) \<and> snd (hl_char lc s c) = snd (hl_char lc t c)"
  by (auto simp: hl_char_def hl_view_def split: option.splits prod.splits sum.splits)

lemma hl_chars_view:
  "hl_view s = hl_view t \<Longrightarrow>
   hl_view (fst (hl_chars lc a s cs)) = hl_view (fst (hl_chars lc b t cs))
   \<and> outcome (snd (hl_chars lc a s cs)) = outcome (snd (hl_chars lc b t cs))"
proof (induction cs arbitrary: s t a b)
  case (Cons c cs)
  from hl_char_view [OF Cons.prems, of lc c] Cons.IH show ?case
    by (auto simp: split_beta split: prod.splits sum.splits)
qed simp

lemma hl_process_data_chars:
  assumes "hl_wf lc s" and "lexical_cast_law lc" and "hl_chars lc False s data = (t, r)"
  shows "\<exists>s'. hl_process_data lc data s = Some (s', outcome r) \<and> hl_view s' = hl_view t
           \<and> ((\<exists>ok. r = Inr ok) \<longrightarrow> hl_wf lc s')"
proof -
  have "hl_wf lc (hl_call c x) = hl_wf lc x" for c x by (simp add: hl_wf_def hl_call_def)
  then show ?thesis
    using hl_loop_chars [OF assms(1,2), of False data] hl_chars_wf [OF assms(1,2), of False data t] assms(3)
    by (cases r) (auto simp: hl_process_data_def)
qed

text \<open>The invariant and termination: whatever arrives, one read ends, and unless it raises the connection can go on.\<close>

lemma hl_process_data_total:
  assumes "hl_wf lc s" and "lexical_cast_law lc"
  shows "\<exists>s' r. hl_process_data lc data s = Some (s', r) \<and> (r = Inr () \<longrightarrow> hl_wf lc s')"
proof -
  obtain t r where "hl_chars lc False s data = (t, r)" by fastforce
  from hl_process_data_chars [OF assms this] show ?thesis by (cases r) auto
qed

lemma hl_reads_chars:
  assumes "hl_wf lc s" and "lexical_cast_law lc" and "hl_chars lc False s (concat cs) = (t, r)"
  shows "\<exists>s'. hl_reads lc cs s = Some (s', outcome r) \<and> hl_view s' = hl_view t"
  using assms
proof (induction cs arbitrary: s t r)
  case (Cons c cs)
  obtain t1 r1 where t1: "hl_chars lc False s c = (t1, r1)" by fastforce
  obtain s1 where s1: "hl_process_data lc c s = Some (s1, outcome r1)" "hl_view s1 = hl_view t1"
    "(\<exists>ok. r1 = Inr ok) \<longrightarrow> hl_wf lc s1"
    using hl_process_data_chars [OF Cons.prems(1,2) t1] by blast
  show ?case
  proof (cases r1)
    case (Inl e)
    then have "r = Inl e" "t = t1" using Cons.prems(3) t1 by (simp_all add: hl_chars_append)
    then show ?thesis using s1 Inl by simp
  next
    case (Inr ok)
    obtain t2 r2 where t2: "hl_chars lc False s1 (concat cs) = (t2, r2)" by fastforce
    then obtain s2 where s2: "hl_reads lc cs s1 = Some (s2, outcome r2)" "hl_view s2 = hl_view t2"
      using Cons.IH [OF _ Cons.prems(2) t2] s1(3) Inr by blast
    have "hl_chars lc ok t1 (concat cs) = (t, r)" using Cons.prems(3) t1 Inr by (simp add: hl_chars_append)
    with hl_chars_view [OF s1(2), of lc False "concat cs" ok] t2
    have "hl_view t2 = hl_view t \<and> outcome r2 = outcome r" by simp
    with s1(1) s2 Inr show ?thesis by simp
  qed
qed simp

lemma hl_loop_units:
  assumes "lexical_cast_law lc" and "\<forall>u \<in> set us. http_sendable u" and "hl_current s = Some hp_new"
  shows "hl_loop lc ok s (concat (map hl_pack_message us))
    = Some (s\<lparr> hl_container := hl_container s @ map parsed us \<rparr>, Inr (ok \<or> us \<noteq> []))"
  using assms(2,3)
proof (induction us arbitrary: ok s)
  case Nil
  then show ?case by (simp add: hl_loop.simps)
next
  case (Cons u us)
  let ?s = "s\<lparr> hl_container := hl_container s @ [parsed u] \<rparr>"
  have "lowlevel2http u \<noteq> []" using Cons.prems(1) by (simp add: lowlevel2http_lines CRLF_def)
  moreover have "hl_reset_current ?s = ?s" using Cons.prems(2) by (cases s) (simp add: hl_reset_current_def)
  moreover have "hp_ready (parsed u)" by (simp add: parsed_def)
  ultimately have "hl_loop lc ok s (concat (map hl_pack_message (u # us)))
      = hl_loop lc True ?s (concat (map hl_pack_message us))"
    using Cons.prems hp_push_unit [OF _ assms(1), of u]
    by (subst hl_loop.simps) (simp add: hl_pack_message_def)
  then show ?case using Cons.IH [of ?s True] Cons.prems by simp
qed

lemma hl_pop_units_parsed:
  assumes "lexical_cast_law lc" and "\<forall>u \<in> set us. http_sendable u" and "hl_container s = map parsed us @ ps"
  shows "hl_pop_units lc (length us) s = (s\<lparr> hl_container := ps \<rparr>, Inr (map http_view us))"
  using assms(2,3)
proof (induction us arbitrary: s)
  case (Cons u us)
  then have "hl_pop_proto_message lc http_unit_new s = (s\<lparr> hl_container := map parsed us @ ps \<rparr>, Inr (http_view u))"
    using http2lowlevel_parsed [OF _ assms(1), of u] by (simp add: hl_pop_proto_message_def)
  with Cons.IH [of "s\<lparr> hl_container := map parsed us @ ps \<rparr>"] Cons.prems show ?case by simp
qed simp

subsection \<open>Correctness\<close>

text \<open>
  C15. Units that one side packs as HTTP messages are delivered by the other, however the text is cut
  into reads: every read returns without an exception, afterwards exactly these units wait in the
  queue and are popped in their order, and the next message can follow. Of a unit with an error the
  identifiers do not arrive.
\<close>

theorem http_delivers:
  assumes "lexical_cast_law lc" and "\<forall>u \<in> set us. http_sendable u"
    and "hl_current s = Some hp_new" and "hl_container s = []"
    and "concat cs = concat (map hl_pack_message us)"
  shows "\<exists>s' s''. hl_reads lc cs s = Some (s', Inr ()) \<and> hl_queue_size s' = length us
           \<and> hl_pop_units lc (hl_queue_size s') s' = (s'', Inr (map http_view us))
           \<and> hl_container s'' = [] \<and> hl_current s'' = Some hp_new"
proof -
  have wf: "hl_wf lc s" using assms(3) by (simp add: hl_wf_def)
  let ?t = "s\<lparr> hl_container := map parsed us \<rparr>"
  have "hl_chars lc False s (concat cs) = (?t, Inr (us \<noteq> []))"
    using hl_loop_chars [OF wf assms(1), of False "concat cs"] hl_loop_units [OF assms(1-3), of False] assms(4,5) by simp
  from hl_reads_chars [OF wf assms(1) this]
  obtain s' where s': "hl_reads lc cs s = Some (s', Inr ())" "hl_view s' = hl_view ?t" by auto
  then have "hl_container s' = map parsed us" "hl_current s' = Some hp_new" using assms(3) by (simp_all add: hl_view_def)
  with s'(1) hl_pop_units_parsed [OF assms(1,2), of s' "[]"] show ?thesis by (simp add: hl_queue_size_def)
qed

definition example_call :: http_unit where
  "example_call = http_unit_new\<lparr> hu_has_call := True, llu_id := 7, llu_type := MESSAGE_CLIENT_CALL,
     llu_service_id := ''a.b'', llu_method_id := ''m'', llu_request := [1, 0xFF] \<rparr>"

theorem http_delivers_witness:
  "\<exists>s' s''. hl_reads lexical_cast_decimal [take 9 (hl_pack_message example_call), drop 9 (hl_pack_message example_call)]
       (hl_init hl_new) = Some (s', Inr ()) \<and> hl_queue_size s' = 1
     \<and> hl_pop_units lexical_cast_decimal (hl_queue_size s') s' = (s'', Inr [http_view example_call])
     \<and> hl_container s'' = [] \<and> hl_current s'' = Some hp_new"
proof -
  have "http_sendable example_call"
    by (simp add: example_call_def http_unit_new_def llu_new_def lowlevel_unit.defs http_sendable_def plain_call_def
        plain_name_def is_space_def CR_def LF_def MESSAGE_CLIENT_CALL_def)
  then show ?thesis
    using http_delivers [OF lexical_cast_decimal_law, of "[example_call]" "hl_init hl_new"
        "[take 9 (hl_pack_message example_call), drop 9 (hl_pack_message example_call)]"]
    by (simp add: hl_init_def hl_new_def hl_reset_current_def hl_call_def)
qed

text \<open>
  C34. The loop of one read ends for every input, well-formed or not, and it does what reading character by
  character does; so cutting a text into reads changes neither the messages found nor the exception raised.
\<close>

theorem http_reading_total:
  assumes "hl_wf lc s" and "lexical_cast_law lc"
  shows "hl_loop lc ok s data = Some (hl_chars lc ok s data)
    \<and> map_option (\<lambda>(s, r). (hl_view s, r)) (hl_reads lc cs s)
      = map_option (\<lambda>(s, r). (hl_view s, r)) (hl_process_data lc (concat cs) s)"
proof -
  obtain t r where c: "hl_chars lc False s (concat cs) = (t, r)" by fastforce
  show ?thesis
    using hl_loop_chars [OF assms, of ok data] hl_reads_chars [OF assms c] hl_process_data_chars [OF assms c] by auto
qed

theorem http_reading_total_witness:
  "hl_loop lexical_cast_decimal False (hl_init hl_new) ''GET'' = Some (hl_chars lexical_cast_decimal False (hl_init hl_new) ''GET'')
   \<and> map_option (\<lambda>(s, r). (hl_view s, r)) (hl_reads lexical_cast_decimal [''G'', ''ET''] (hl_init hl_new))
     = map_option (\<lambda>(s, r). (hl_view s, r)) (hl_process_data lexical_cast_decimal (concat [''G'', ''ET'']) (hl_init hl_new))"
  by (rule http_reading_total [OF _ lexical_cast_decimal_law])
    (simp add: hl_wf_def hl_init_def hl_call_def hl_reset_current_def)

subsection \<open>Limits of the format\<close>

text \<open>An answer with an error does not say which call it answers.\<close>

lemma http_error_loses_id:
  "hu_has_error u \<Longrightarrow> llu_id (http_view u) = 0 \<and> llu_target_id (http_view u) = 0"
  by (simp add: http_view_def http_unit_new_def llu_new_def lowlevel_unit.defs Let_def)

text \<open>A unit whose identifier needs more than 32 bits cannot be read, and it stays at the head of the queue.\<close>

lemma http_long_id_refused:
  assumes "lexical_cast_law lc" and "\<not> hu_has_error u" and "2 ^ 32 \<le> unat (llu_id u)" and "llu_type u < 2 ^ 32"
    and "hl_container s = parsed u # ps"
  shows "hl_pop_proto_message lc http_unit_new s = (s, Inl Other_exception)"
proof -
  have "hp_get lc ''X-VTRC-Type'' 1 (parsed u) = Inr (llu_type u)" "hp_get lc ''X-VTRC-Id'' 0 (parsed u) = Inl Other_exception"
    using assms(1-4) by (simp_all add: hp_get_def parsed_def http_fields_def lexical_cast_law_def)
  moreover have "hp_method (parsed u) \<noteq> []" by (simp add: parsed_def http_method_def)
  ultimately show ?thesis using assms(5) by (simp add: hl_pop_proto_message_def http2lowlevel_def)
qed

end
