(* ===== verification/Service_Refinement.thy ===== *)
theory Service_Refinement
  imports Prelude
begin

text \<open>
  The contract between a service object and its abstract specification: every call commutes with the
  abstraction and returns what the specification returns. What follows for sequences of calls, and for a
  service whose answered calls are logged while other steps come in between, is proved here once; the
  example services interpret it.
\<close>

fun run_calls :: "('q \<Rightarrow> 's \<Rightarrow> 's \<times> 'r) \<Rightarrow> 'q list \<Rightarrow> 's \<Rightarrow> 's \<times> 'r list" where
  "run_calls call [] s = (s, [])"
| "run_calls call (q # qs) s =
     (case call q s of (s', r) \<Rightarrow> case run_calls call qs s' of (s'', rs) \<Rightarrow> (s'', r # rs))"

lemma run_calls_append:
  "run_calls call (ps @ qs) s =
     (case run_calls call ps s of (s', rs) \<Rightarrow> case run_calls call qs s' of (s'', rs') \<Rightarrow> (s'', rs @ rs'))"
  by (induction ps arbitrary: s) (auto split: prod.splits)

locale service_refinement =
  fixes call :: "'q \<Rightarrow> 's \<Rightarrow> 's \<times> 'r"
    and spec :: "'q \<Rightarrow> 'a \<Rightarrow> 'a \<times> 'r"
    and absf :: "'s \<Rightarrow> 'a"
    and inv :: "'s \<Rightarrow> bool"
  assumes keeps: "inv s \<Longrightarrow> inv (fst (call q s))"
    and simulates: "inv s \<Longrightarrow> spec q (absf s) = (absf (fst (call q s)), snd (call q s))"
begin

lemma run_keeps: "inv s \<Longrightarrow> inv (fst (run_calls call qs s))"
proof (induction qs arbitrary: s)
  case (Cons q qs)
  have "inv (fst (call q s))" by (rule keeps [OF Cons.prems])
  from Cons.IH [OF this] show ?case by (simp add: split_beta)
qed simp

lemma run_simulates:
  "inv s \<Longrightarrow> run_calls spec qs (absf s) = (absf (fst (run_calls call qs s)), snd (run_calls call qs s))"
proof (induction qs arbitrary: s)
  case (Cons q qs)
  have "inv (fst (call q s))" by (rule keeps [OF Cons.prems])
  from Cons.IH [OF this] simulates [OF Cons.prems, of q] show ?case by (simp add: split_beta)
qed simp

text \<open>A history: the calls answered so far, with their results, explain the abstract state.\<close>

definition explains :: "'a \<Rightarrow> ('q \<times> 'r) list \<Rightarrow> 's \<Rightarrow> bool" where
  "explains a l s \<longleftrightarrow> inv s \<and> run_calls spec (map fst l) a = (absf s, map snd l)"

lemma explains_start: "inv s \<Longrightarrow> explains (absf s) [] s"
  by (simp add: explains_def)

lemma explains_call:
  assumes "explains a l s" and "call q s = (s', r)" and "absf t = absf s'" and "inv t"
  shows "explains a (l @ [(q, r)]) t"
  using assms simulates [of s q] by (simp add: explains_def run_calls_append)

lemma explains_other: "explains a l s \<Longrightarrow> absf t = absf s \<Longrightarrow> inv t \<Longrightarrow> explains a l t"
  by (simp add: explains_def)

end

end
