(* ===== verification/Lukki_Db.thy ===== *)
theory Lukki_Db
  imports Service_Refinement "HOL-Library.AList"
begin

text \<open>
  The record store of \<open>examples/lukki-db/server/lukki-db-application.cpp\<close>: a map from names to lists of
  strings that clients change and query by calls, with events for the clients that subscribed. Calls and
  events go through one strand, \<open>event_queue_\<close>, which runs its tasks one at a time in the order they
  were posted. A connection is a number; whether its weak pointer can be locked is part of the state,
  and the steps of a run say when connections come and go and on which channels a send raises.
\<close>

subsection \<open>Data\<close>

type_synonym lukki_string_list = "string list"

record db_stat =
  st_total_records :: u32
  st_set_requests :: u32
  st_upd_requests :: u32
  st_get_requests :: u32
  st_del_requests :: u32

definition db_stat_new :: db_stat where
  "db_stat_new = \<lparr> st_total_records = 0, st_set_requests = 0, st_upd_requests = 0, st_get_requests = 0,
                   st_del_requests = 0 \<rparr>"

datatype db_request =
    Req_init | Req_set string lukki_string_list | Req_upd string lukki_string_list | Req_del string
  | Req_get string | Req_stat | Req_exist string | Req_subscribe

datatype db_response = Res_empty | Res_value lukki_string_list | Res_stat db_stat | Res_exist bool

text \<open>The text the controller was failed with, and the response message.\<close>

type_synonym db_result = "string option \<times> db_response"

datatype record_change = RECORD_DELETED | RECORD_ADDED | RECORD_CHANGED

datatype client_event = Subscribed | New_value string | Value_changed string | Value_removed string

datatype db_task = Call_task nat db_request | Event_task string record_change

datatype db_observation = Posted nat db_request | Answered nat db_request db_result | Sent nat client_event

record lukki_impl =
  li_db :: "(string \<times> lukki_string_list) list"
  li_stat :: db_stat
  li_queue :: "db_task list"
  li_subscribers :: "nat list"
  li_conns :: "nat \<rightharpoonup> bool"
  li_log :: "db_observation list"

definition li_new :: lukki_impl where
  "li_new = \<lparr> li_db = [], li_stat = db_stat_new, li_queue = [], li_subscribers = [], li_conns = Map.empty, li_log = [] \<rparr>"

definition conn_alive :: "lukki_impl \<Rightarrow> nat \<Rightarrow> bool" where
  "conn_alive s c \<longleftrightarrow> li_conns s c = Some True"

definition li_observe :: "db_observation \<Rightarrow> lukki_impl \<Rightarrow> lukki_impl" where
  "li_observe x s = s\<lparr> li_log := li_log s @ [x] \<rparr>"

subsection \<open>The operations of the store\<close>

definition post_event :: "string \<Rightarrow> record_change \<Rightarrow> lukki_impl \<Rightarrow> lukki_impl" where
  "post_event name changed s = s\<lparr> li_queue := li_queue s @ [Event_task name changed] \<rparr>"

definition li_set :: "string \<Rightarrow> lukki_string_list \<Rightarrow> lukki_impl \<Rightarrow> lukki_impl \<times> string option" where
  "li_set name value s =
     (if map_of (li_db s) name \<noteq> None then (s, Some ''Record exists'')
      else
        (let st = (li_stat s)\<lparr> st_set_requests := st_set_requests (li_stat s) + 1 \<rparr>;
             db = AList.update name value (li_db s)
         in (post_event name RECORD_ADDED (s\<lparr> li_db := db, li_stat := st\<lparr> st_total_records := of_nat (length db) \<rparr> \<rparr>), None)))"

definition li_upd :: "string \<Rightarrow> lukki_string_list \<Rightarrow> lukki_impl \<Rightarrow> lukki_impl \<times> string option" where
  "li_upd name value s =
     (let s = s\<lparr> li_stat := (li_stat s)\<lparr> st_upd_requests := st_upd_requests (li_stat s) + 1 \<rparr> \<rparr> in
      if map_of (li_db s) name = None then (s, Some ''Record was not found'')
      else (post_event name RECORD_CHANGED (s\<lparr> li_db := AList.update name value (li_db s) \<rparr>), None))"

definition li_get :: "string \<Rightarrow> lukki_impl \<Rightarrow> lukki_impl \<times> db_result" where
  "li_get name s =
     (let s = s\<lparr> li_stat := (li_stat s)\<lparr> st_get_requests := st_get_requests (li_stat s) + 1 \<rparr> \<rparr> in
      case map_of (li_db s) name of
        None \<Rightarrow> (s, Some ''Record was not found'', Res_value [])
      | Some v \<Rightarrow> (s, None, Res_value v))"

definition li_del :: "string \<Rightarrow> lukki_impl \<Rightarrow> lukki_impl \<times> string option" where
  "li_del name s =
     (let s = s\<lparr> li_stat := (li_stat s)\<lparr> st_del_requests := st_del_requests (li_stat s) + 1 \<rparr> \<rparr> in
      if map_of (li_db s) name = None then (s, Some ''Record was not found'')
      else (post_event name RECORD_DELETED (s\<lparr> li_db := AList.delete name (li_db s) \<rparr>), None))"

definition li_exist :: "string \<Rightarrow> lukki_impl \<Rightarrow> bool" where
  "li_exist name s \<longleftrightarrow> map_of (li_db s) name \<noteq> None"

subsection \<open>Events\<close>

text \<open>A channel that raises is ignored (\<open>catch( ... )\<close>); \<open>raises\<close> says which do.\<close>

definition event_of :: "string \<Rightarrow> record_change \<Rightarrow> client_event" where
  "event_of name changed =
     (case changed of
        RECORD_DELETED \<Rightarrow> Value_removed name
      | RECORD_CHANGED \<Rightarrow> Value_changed name
      | RECORD_ADDED \<Rightarrow> New_value name)"

definition channel_send :: "(nat \<Rightarrow> bool) \<Rightarrow> nat \<Rightarrow> client_event \<Rightarrow> lukki_impl \<Rightarrow> lukki_impl" where
  "channel_send raises c e s = (if raises c then s else li_observe (Sent c e) s)"

fun send_event_loop ::
    "(nat \<Rightarrow> bool) \<Rightarrow> client_event \<Rightarrow> nat list \<Rightarrow> lukki_impl \<Rightarrow> nat list \<times> lukki_impl" where
  "send_event_loop raises e [] s = ([], s)"
| "send_event_loop raises e (c # cs) s =
     (if conn_alive s c
      then (case send_event_loop raises e cs (channel_send raises c e s) of (l, s') \<Rightarrow> (c # l, s'))
      else send_event_loop raises e cs s)"

definition send_event_impl :: "(nat \<Rightarrow> bool) \<Rightarrow> string \<Rightarrow> record_change \<Rightarrow> lukki_impl \<Rightarrow> lukki_impl" where
  "send_event_impl raises name changed s =
     (case send_event_loop raises (event_of name changed) (li_subscribers s) s of
        (l, s') \<Rightarrow> s'\<lparr> li_subscribers := l \<rparr>)"

definition subscribe_client :: "(nat \<Rightarrow> bool) \<Rightarrow> nat \<Rightarrow> lukki_impl \<Rightarrow> lukki_impl" where
  "subscribe_client raises c s = channel_send raises c Subscribed (s\<lparr> li_subscribers := li_subscribers s @ [c] \<rparr>)"

subsection \<open>The service and its wrapper\<close>

definition lukki_method :: "(nat \<Rightarrow> bool) \<Rightarrow> nat \<Rightarrow> db_request \<Rightarrow> lukki_impl \<Rightarrow> lukki_impl \<times> db_result" where
  "lukki_method raises c req s =
     (case req of
        Req_init \<Rightarrow> (s, None, Res_empty)
      | Req_set name value \<Rightarrow> (case li_set name value s of (s, f) \<Rightarrow> (s, f, Res_empty))
      | Req_upd name value \<Rightarrow> (case li_upd name value s of (s, f) \<Rightarrow> (s, f, Res_empty))
      | Req_del name \<Rightarrow> (case li_del name s of (s, f) \<Rightarrow> (s, f, Res_empty))
      | Req_get name \<Rightarrow> li_get name s
      | Req_stat \<Rightarrow> (s, None, Res_stat (li_stat s))
      | Req_exist name \<Rightarrow> (s, None, Res_exist (li_exist name s))
      | Req_subscribe \<Rightarrow> (subscribe_client raises c s, None, Res_empty))"

definition svc_call :: "(nat \<Rightarrow> bool) \<Rightarrow> nat \<Rightarrow> db_request \<Rightarrow> lukki_impl \<Rightarrow> lukki_impl" where
  "svc_call raises c req s =
     (if conn_alive s c
      then (case lukki_method raises c req s of (s', r) \<Rightarrow> li_observe (Answered c req r) s')
      else s)"

definition call_method :: "nat \<Rightarrow> db_request \<Rightarrow> lukki_impl \<Rightarrow> lukki_impl" where
  "call_method c req s = s\<lparr> li_queue := li_queue s @ [Call_task c req] \<rparr>"

text \<open>The strand runs the task at its head.\<close>

definition run_task :: "(nat \<Rightarrow> bool) \<Rightarrow> lukki_impl \<Rightarrow> lukki_impl" where
  "run_task raises s =
     (case li_queue s of
        [] \<Rightarrow> s
      | Call_task c req # ts \<Rightarrow> svc_call raises c req (s\<lparr> li_queue := ts \<rparr>)
      | Event_task name changed # ts \<Rightarrow> send_event_impl raises name changed (s\<lparr> li_queue := ts \<rparr>))"

text \<open>What may happen: a new connection, the end of one, a call over a live one, the strand runs.\<close>

datatype db_action = Connect nat | Drop nat | Post nat db_request | Run "nat \<Rightarrow> bool"

fun db_act :: "db_action \<Rightarrow> lukki_impl \<Rightarrow> lukki_impl" where
  "db_act (Connect c) s = (if li_conns s c = None then s\<lparr> li_conns := (li_conns s)(c \<mapsto> True) \<rparr> else s)"
| "db_act (Drop c) s = (if conn_alive s c then s\<lparr> li_conns := (li_conns s)(c \<mapsto> False) \<rparr> else s)"
| "db_act (Post c req) s = (if conn_alive s c then li_observe (Posted c req) (call_method c req s) else s)"
| "db_act (Run raises) s = run_task raises s"

definition db_acts :: "db_action list \<Rightarrow> lukki_impl \<Rightarrow> lukki_impl" where
  "db_acts as s = fold db_act as s"

subsection \<open>The abstract store\<close>

record spec_db =
  sd_map :: "string \<rightharpoonup> lukki_string_list"
  sd_stat :: db_stat

definition spec_new :: spec_db where
  "spec_new = \<lparr> sd_map = Map.empty, sd_stat = db_stat_new \<rparr>"

text \<open>The number of records is counted when a record is added only.\<close>

fun spec_call :: "db_request \<Rightarrow> spec_db \<Rightarrow> spec_db \<times> db_result" where
  "spec_call Req_init d = (d, None, Res_empty)"
| "spec_call (Req_set name value) d =
     (if name \<in> dom (sd_map d) then (d, Some ''Record exists'', Res_empty)
      else (let m = (sd_map d)(name \<mapsto> value) in
            (d\<lparr> sd_map := m, sd_stat := (sd_stat d)\<lparr> st_set_requests := st_set_requests (sd_stat d) + 1,
                                                     st_total_records := of_nat (card (dom m)) \<rparr> \<rparr>, None, Res_empty)))"
| "spec_call (Req_upd name value) d =
     (let d = d\<lparr> sd_stat := (sd_stat d)\<lparr> st_upd_requests := st_upd_requests (sd_stat d) + 1 \<rparr> \<rparr> in
      if name \<in> dom (sd_map d) then (d\<lparr> sd_map := (sd_map d)(name \<mapsto> value) \<rparr>, None, Res_empty)
      else (d, Some ''Record was not found'', Res_empty))"
| "spec_call (Req_del name) d =
     (let d = d\<lparr> sd_stat := (sd_stat d)\<lparr> st_del_requests := st_del_requests (sd_stat d) + 1 \<rparr> \<rparr> in
      if name \<in> dom (sd_map d) then (d\<lparr> sd_map := (sd_map d)(name := None) \<rparr>, None, Res_empty)
      else (d, Some ''Record was not found'', Res_empty))"
| "spec_call (Req_get name) d =
     (let d = d\<lparr> sd_stat := (sd_stat d)\<lparr> st_get_requests := st_get_requests (sd_stat d) + 1 \<rparr> \<rparr> in
      case sd_map d name of
        None \<Rightarrow> (d, Some ''Record was not found'', Res_value [])
      | Some v \<Rightarrow> (d, None, Res_value v))"
| "spec_call Req_stat d = (d, None, Res_stat (sd_stat d))"
| "spec_call (Req_exist name) d = (d, None, Res_exist (name \<in> dom (sd_map d)))"
| "spec_call Req_subscribe d = (d, None, Res_empty)"

definition li_abs :: "lukki_impl \<Rightarrow> spec_db" where
  "li_abs s = \<lparr> sd_map = map_of (li_db s), sd_stat = li_stat s \<rparr>"

definition li_inv :: "lukki_impl \<Rightarrow> bool" where
  "li_inv s \<longleftrightarrow> distinct (map fst (li_db s))"

lemma card_dom_map_of: "distinct (map fst db) \<Longrightarrow> card (dom (map_of db)) = length db"
  by (metis distinct_card dom_map_of_conv_image_fst length_map list.set_map)

lemma map_of_update: "map_of (AList.update k v al) = (map_of al)(k \<mapsto> v)"
  by (rule AList.update_conv')

lemma map_of_delete: "map_of (AList.delete k al) = (map_of al)(k := None)"
  by (rule AList.delete_conv')

lemma li_inv_ops [inv_intros]:
  "li_inv s \<Longrightarrow> li_inv (fst (li_set name value s))" "li_inv s \<Longrightarrow> li_inv (fst (li_upd name value s))"
  "li_inv s \<Longrightarrow> li_inv (fst (li_del name s))" "li_inv s \<Longrightarrow> li_inv (fst (li_get name s))"
  by (simp_all add: li_inv_def li_set_def li_upd_def li_del_def li_get_def post_event_def Let_def AList.distinct_update
      AList.distinct_delete split: option.splits)

lemma li_frame [simp]:
  "li_db (channel_send raises c e s) = li_db s" "li_stat (channel_send raises c e s) = li_stat s"
  "li_queue (channel_send raises c e s) = li_queue s" "li_conns (channel_send raises c e s) = li_conns s"
  "li_subscribers (channel_send raises c e s) = li_subscribers s"
  "li_db (li_observe x s) = li_db s" "li_stat (li_observe x s) = li_stat s" "li_queue (li_observe x s) = li_queue s"
  "li_conns (li_observe x s) = li_conns s" "li_subscribers (li_observe x s) = li_subscribers s"
  "li_log (li_observe x s) = li_log s @ [x]"
  by (simp_all add: channel_send_def li_observe_def)

lemma conn_alive_frame [simp]:
  "conn_alive (channel_send raises c e s) d = conn_alive s d" "conn_alive (li_observe x s) d = conn_alive s d"
  "conn_alive (s\<lparr> li_queue := q \<rparr>) d = conn_alive s d" "conn_alive (s\<lparr> li_subscribers := l \<rparr>) d = conn_alive s d"
  by (simp_all add: conn_alive_def)

lemma subscribe_frame [simp]:
  "li_db (subscribe_client raises c s) = li_db s" "li_stat (subscribe_client raises c s) = li_stat s"
  "li_queue (subscribe_client raises c s) = li_queue s" "li_conns (subscribe_client raises c s) = li_conns s"
  by (simp_all add: subscribe_client_def)

interpretation lukki_service: service_refinement "lukki_method raises c" spec_call li_abs li_inv for raises c
proof
  fix s :: lukki_impl and req
  assume s: "li_inv s"
  show "li_inv (fst (lukki_method raises c req s))"
    using s li_inv_ops [OF s] by (cases req) (simp_all add: lukki_method_def split_beta, simp add: li_inv_def)
  have card: "card (dom (map_of (li_db s))) = length (li_db s)" using s by (simp add: li_inv_def card_dom_map_of)
  have fresh: "length (AList.update name v (li_db s)) = card (insert name (dom (map_of (li_db s))))"
    if "map_of (li_db s) name = None" for name v
    using that card_dom_map_of [of "AList.update name v (li_db s)"] s
    by (simp add: li_inv_def AList.distinct_update map_of_update)
  show "spec_call req (li_abs s) = (li_abs (fst (lukki_method raises c req s)), snd (lukki_method raises c req s))"
  proof (cases req)
    case (Req_set name v)
    then show ?thesis
    proof (cases "map_of (li_db s) name")
      case None
      then have "name \<notin> dom (map_of (li_db s))" by (simp add: domIff)
      then show ?thesis using Req_set None fresh [OF None, of v]
        by (simp add: lukki_method_def li_set_def li_abs_def post_event_def map_of_update)
    next
      case (Some w)
      then have "name \<in> dom (map_of (li_db s))" by blast
      then show ?thesis using Req_set Some by (simp add: lukki_method_def li_set_def li_abs_def)
    qed
  qed (auto simp: lukki_method_def li_abs_def li_upd_def li_del_def li_get_def li_exist_def post_event_def map_of_update
      map_of_delete Let_def domIff split: option.splits)
qed

subsection \<open>Reading the log\<close>

fun answer_of :: "db_observation \<Rightarrow> (db_request \<times> db_result) list" where
  "answer_of (Answered c q r) = [(q, r)]"
| "answer_of _ = []"

definition answers :: "db_observation list \<Rightarrow> (db_request \<times> db_result) list" where
  "answers l = concat (map answer_of l)"

fun received_from :: "nat \<Rightarrow> db_observation \<Rightarrow> client_event list" where
  "received_from c (Sent d e) = (if d = c then [e] else [])"
| "received_from c _ = []"

definition received :: "nat \<Rightarrow> db_observation list \<Rightarrow> client_event list" where
  "received c l = concat (map (received_from c) l)"

fun answered_from :: "nat \<Rightarrow> db_observation \<Rightarrow> db_request list" where
  "answered_from c (Answered d q r) = (if d = c then [q] else [])"
| "answered_from c _ = []"

definition answered_by :: "nat \<Rightarrow> db_observation list \<Rightarrow> db_request list" where
  "answered_by c l = concat (map (answered_from c) l)"

fun posted_from :: "nat \<Rightarrow> db_observation \<Rightarrow> db_request list" where
  "posted_from c (Posted d q) = (if d = c then [q] else [])"
| "posted_from c _ = []"

definition posted_by :: "nat \<Rightarrow> db_observation list \<Rightarrow> db_request list" where
  "posted_by c l = concat (map (posted_from c) l)"

text \<open>The changes of the store, as the events that announce them.\<close>

fun change_of :: "db_request \<Rightarrow> db_result \<Rightarrow> client_event list" where
  "change_of (Req_set name v) (None, _) = [New_value name]"
| "change_of (Req_upd name v) (None, _) = [Value_changed name]"
| "change_of (Req_del name) (None, _) = [Value_removed name]"
| "change_of _ _ = []"

definition changes :: "db_observation list \<Rightarrow> client_event list" where
  "changes l = concat (map (\<lambda>(q, r). change_of q r) (answers l))"

fun task_event :: "db_task \<Rightarrow> client_event list" where
  "task_event (Event_task name changed) = [event_of name changed]"
| "task_event (Call_task c q) = []"

definition queued_events :: "db_task list \<Rightarrow> client_event list" where
  "queued_events ts = concat (map task_event ts)"

fun task_call :: "nat \<Rightarrow> db_task \<Rightarrow> db_request list" where
  "task_call c (Call_task d q) = (if d = c then [q] else [])"
| "task_call c (Event_task name changed) = []"

definition queued_calls :: "nat \<Rightarrow> db_task list \<Rightarrow> db_request list" where
  "queued_calls c ts = concat (map (task_call c) ts)"

lemmas log_defs = answers_def received_def answered_by_def posted_by_def changes_def queued_events_def queued_calls_def

subsection \<open>What a step does\<close>

lemma send_event_loop_eq:
  "send_event_loop raises e cs s =
     (filter (conn_alive s) cs, s\<lparr> li_log := li_log s @ map (\<lambda>c. Sent c e) (filter (\<lambda>c. conn_alive s c \<and> \<not> raises c) cs) \<rparr>)"
proof (induction cs arbitrary: s)
  case (Cons c cs)
  have "conn_alive (channel_send raises c e s) = conn_alive s" by (rule ext) simp
  with Cons show ?case by (auto simp: channel_send_def li_observe_def)
qed simp

lemma send_event_impl_eq:
  "send_event_impl raises name changed s =
     s\<lparr> li_subscribers := filter (conn_alive s) (li_subscribers s),
        li_log := li_log s @ map (\<lambda>c. Sent c (event_of name changed)) (filter (\<lambda>c. conn_alive s c \<and> \<not> raises c) (li_subscribers s)) \<rparr>"
  by (simp add: send_event_impl_def send_event_loop_eq)

lemma sent_only [simp]:
  "answers (map (\<lambda>c. Sent c e) cs) = []" "answered_by d (map (\<lambda>c. Sent c e) cs) = []" "posted_by d (map (\<lambda>c. Sent c e) cs) = []"
  "changes (map (\<lambda>c. Sent c e) cs) = []" "received d (map (\<lambda>c. Sent c e) cs) = replicate (count_list cs d) e"
  by (induction cs) (simp_all add: log_defs)

lemma log_append [simp]:
  "answers (l @ m) = answers l @ answers m" "answered_by d (l @ m) = answered_by d l @ answered_by d m"
  "posted_by d (l @ m) = posted_by d l @ posted_by d m" "changes (l @ m) = changes l @ changes m"
  "received d (l @ m) = received d l @ received d m" "queued_events (ts @ us) = queued_events ts @ queued_events us"
  "queued_calls d (ts @ us) = queued_calls d ts @ queued_calls d us"
  by (simp_all add: log_defs)

lemma log_Cons [simp]:
  "answers (x # l) = answer_of x @ answers l" "answered_by d (x # l) = answered_from d x @ answered_by d l"
  "posted_by d (x # l) = posted_from d x @ posted_by d l"
  "changes (x # l) = concat (map (\<lambda>(q, r). change_of q r) (answer_of x)) @ changes l"
  "received d (x # l) = received_from d x @ received d l" "queued_events (t # ts) = task_event t @ queued_events ts"
  "queued_calls d (t # ts) = task_call d t @ queued_calls d ts"
  by (simp_all add: log_defs)

lemma log_Nil [simp]:
  "answers [] = []" "answered_by d [] = []" "posted_by d [] = []" "changes [] = []" "received d [] = []"
  "queued_events [] = []" "queued_calls d [] = []"
  by (simp_all add: log_defs)

text \<open>A call other than \<open>subscribe\<close> touches neither the subscribers nor the log, and it posts the event
  of the change it made.\<close>

lemma lukki_method_effect:
  assumes "lukki_method raises d req s = (s', r)"
  shows "li_conns s' = li_conns s"
    and "\<exists>ts. li_queue s' = li_queue s @ ts \<and> queued_events ts = change_of req r \<and> (\<forall>c. queued_calls c ts = []) \<and> length ts \<le> 1"
    and "req \<noteq> Req_subscribe \<Longrightarrow> li_log s' = li_log s \<and> li_subscribers s' = li_subscribers s"
proof -
  note defs = lukki_method_def li_set_def li_upd_def li_del_def li_get_def li_exist_def post_event_def Let_def event_of_def
  show "li_conns s' = li_conns s" using assms by (cases req) (auto simp: defs split: if_splits option.splits)
  show "\<exists>ts. li_queue s' = li_queue s @ ts \<and> queued_events ts = change_of req r \<and> (\<forall>c. queued_calls c ts = []) \<and> length ts \<le> 1"
    using assms by (cases req) (auto simp: defs split: if_splits option.splits)
  show "li_log s' = li_log s \<and> li_subscribers s' = li_subscribers s" if "req \<noteq> Req_subscribe"
    using assms that by (cases req) (auto simp: defs split: if_splits option.splits)
qed

lemma db_acts_append: "db_acts (as @ bs) s = db_acts bs (db_acts as s)"
  by (simp add: db_acts_def)

lemma db_acts_simps [simp]: "db_acts [] s = s" "db_acts (a # as) s = db_acts as (db_act a s)"
  by (simp_all add: db_acts_def)

text \<open>Induction over a run, with the cases of \<open>run_task\<close> apart.\<close>

lemma db_acts_invariant:
  assumes "P li_new" and "\<And>a s. a \<in> set as \<Longrightarrow> P s \<Longrightarrow> P (db_act a s)"
  shows "P (db_acts as li_new)"
proof -
  have "P s \<Longrightarrow> P (db_acts as s)" for s
    using assms(2) by (induction as arbitrary: s) simp_all
  then show ?thesis using assms(1) .
qed

subsection \<open>Correctness\<close>

lemma li_abs_cong: "li_db s = li_db t \<Longrightarrow> li_stat s = li_stat t \<Longrightarrow> li_abs s = li_abs t \<and> li_inv s = li_inv t"
  by (simp add: li_abs_def li_inv_def)

definition explained :: "lukki_impl \<Rightarrow> bool" where
  "explained s \<longleftrightarrow> service_refinement.explains spec_call li_abs li_inv spec_new (answers (li_log s)) s"

lemma explained_same:
  "explained s \<Longrightarrow> li_db t = li_db s \<Longrightarrow> li_stat t = li_stat s \<Longrightarrow> answers (li_log t) = answers (li_log s) \<Longrightarrow> explained t"
  unfolding explained_def
  using lukki_service.explains_other [of spec_new "answers (li_log s)" s t] li_abs_cong [of t s]
  by (simp add: lukki_service.explains_def)

lemma explained_call:
  assumes "explained s"
  shows "explained (svc_call raises c req s)"
proof (cases "conn_alive s c")
  case True
  obtain s' r where m: "lukki_method raises c req s = (s', r)" by (cases "lukki_method raises c req s")
  let ?t = "li_observe (Answered c req r) s'"
  have t: "li_abs ?t = li_abs s'" "li_inv ?t = li_inv s'" using li_abs_cong [of ?t s'] by simp_all
  have "li_inv s" using assms by (simp add: explained_def lukki_service.explains_def)
  then have "li_inv ?t" using lukki_service.keeps [of s raises c req] m t by simp
  with lukki_service.explains_call [of spec_new "answers (li_log s)" s raises c req s' r ?t] assms m t
  have "service_refinement.explains spec_call li_abs li_inv spec_new (answers (li_log s) @ [(req, r)]) ?t"
    by (simp add: explained_def)
  moreover have "answers (li_log ?t) = answers (li_log s) @ [(req, r)]"
  proof (cases "req = Req_subscribe")
    case True
    with m show ?thesis by (auto simp: lukki_method_def subscribe_client_def channel_send_def)
  next
    case False
    with lukki_method_effect(3) [OF m] show ?thesis by simp
  qed
  ultimately show ?thesis using True m by (simp add: svc_call_def explained_def)
qed (use assms in \<open>simp add: svc_call_def\<close>)

lemma explained_act:
  assumes s: "explained s"
  shows "explained (db_act a s)"
proof (cases a)
  case (Run raises)
  show ?thesis
  proof (cases "li_queue s")
    case (Cons t ts)
    have s': "explained (s\<lparr> li_queue := ts \<rparr>)" by (rule explained_same [OF s]) simp_all
    show ?thesis
    proof (cases t)
      case (Call_task c req)
      with Run Cons explained_call [OF s'] show ?thesis by (simp add: run_task_def)
    next
      case (Event_task name changed)
      have "explained (send_event_impl raises name changed (s\<lparr> li_queue := ts \<rparr>))"
        by (rule explained_same [OF s']) (simp_all add: send_event_impl_eq)
      with Run Cons Event_task show ?thesis by (simp add: run_task_def)
    qed
  qed (use s Run in \<open>simp add: run_task_def\<close>)
next
  case (Post c req)
  have "explained (li_observe (Posted c req) (call_method c req s))"
    by (rule explained_same [OF s]) (simp_all add: call_method_def)
  with s Post show ?thesis by simp
next
  case (Connect c)
  have "explained (s\<lparr> li_conns := (li_conns s)(c \<mapsto> True) \<rparr>)" by (rule explained_same [OF s]) simp_all
  with s Connect show ?thesis by simp
next
  case (Drop c)
  have "explained (s\<lparr> li_conns := (li_conns s)(c \<mapsto> False) \<rparr>)" by (rule explained_same [OF s]) simp_all
  with s Drop show ?thesis by simp
qed

text \<open>
  C17. The store is linearisable: whatever connections come and go, whatever they call and however the
  strand's tasks, events included, interleave, the answers given so far and the state are those of an
  abstract map that is given the same calls one after the other, in the order they were answered.
\<close>

theorem lukki_refines:
  "run_calls spec_call (map fst (answers (li_log (db_acts as li_new)))) spec_new
     = (li_abs (db_acts as li_new), map snd (answers (li_log (db_acts as li_new))))"
proof -
  have "explained li_new"
    by (simp add: explained_def lukki_service.explains_def li_new_def li_abs_def li_inv_def spec_new_def)
  then have "explained (db_acts as li_new)" by (rule db_acts_invariant) (rule explained_act)
  then show ?thesis by (simp add: explained_def lukki_service.explains_def)
qed

text \<open>What holds of a subscriber all the time.\<close>

definition sub_mark :: "nat \<Rightarrow> db_observation" where
  "sub_mark c = Answered c Req_subscribe (None, Res_empty)"

definition events_pending :: "lukki_impl \<Rightarrow> bool" where
  "events_pending s \<longleftrightarrow> (\<exists>j \<le> length (changes (li_log s)). queued_events (li_queue s) = drop j (changes (li_log s)))"

definition sees_changes :: "nat \<Rightarrow> lukki_impl \<Rightarrow> bool" where
  "sees_changes c s \<longleftrightarrow> (\<exists>pre post k. li_log s = pre @ sub_mark c # post \<and> k \<le> length (changes pre)
     \<and> received c (li_log s) @ queued_events (li_queue s) = Subscribed # drop k (changes (li_log s)))"

definition sub_inv :: "nat \<Rightarrow> lukki_impl \<Rightarrow> bool" where
  "sub_inv c s \<longleftrightarrow> events_pending s
     \<and> (li_conns s c = None \<longrightarrow> c \<notin> set (li_subscribers s))
     \<and> (li_conns s c \<noteq> Some False \<longrightarrow>
          count_list (li_log s) (sub_mark c) = count_list (li_subscribers s) c
          \<and> (c \<notin> set (li_subscribers s) \<longrightarrow> received c (li_log s) = [])
          \<and> (count_list (li_subscribers s) c = 1 \<longrightarrow> sees_changes c s))"

lemma count_list_filter: "P x \<Longrightarrow> count_list (filter P xs) x = count_list xs x"
  by (induction xs) auto

lemma count_list_map_Sent [simp]: "count_list (map (\<lambda>d. Sent d e) ds) (sub_mark c) = 0"
  by (induction ds) (simp_all add: sub_mark_def)

lemma sub_mark_neq [simp]: "Sent d e \<noteq> sub_mark c" "Posted d q \<noteq> sub_mark c" "sub_mark c \<noteq> Sent d e" "sub_mark c \<noteq> Posted d q"
  by (simp_all add: sub_mark_def)

text \<open>A step that only appends: \<open>l\<close> to the log and tasks to the queue, with the changes in both.\<close>

lemma sub_inv_grow:
  assumes "sub_inv c s" and "li_log t = li_log s @ l" and "li_queue t = li_queue s @ ts"
    and "queued_events ts = changes l" and "received c l = []" and "count_list l (sub_mark c) = 0"
    and "li_conns t c = li_conns s c" and "li_subscribers t = li_subscribers s"
  shows "sub_inv c t"
proof -
  obtain j where "j \<le> length (changes (li_log s))" "queued_events (li_queue s) = drop j (changes (li_log s))"
    using assms(1) by (auto simp: sub_inv_def events_pending_def)
  then have "events_pending t"
    unfolding events_pending_def using assms(2-4) by (intro exI [of _ j]) simp
  moreover have "sees_changes c t" if sc: "sees_changes c s"
  proof -
    obtain pre post k where p: "li_log s = pre @ sub_mark c # post" "k \<le> length (changes pre)"
      "received c (li_log s) @ queued_events (li_queue s) = Subscribed # drop k (changes (li_log s))"
      using sc unfolding sees_changes_def by blast
    have "k \<le> length (changes (li_log s))" using p(1,2) by simp
    then have "received c (li_log t) @ queued_events (li_queue t) = Subscribed # drop k (changes (li_log t))"
      using p(3) assms(2-5) by simp
    then show ?thesis unfolding sees_changes_def using p(1,2) assms(2) by (metis append_Cons append_assoc)
  qed
  ultimately show ?thesis using assms by (simp add: sub_inv_def)
qed

lemma sub_inv_event:
  assumes s: "sub_inv c s" and q: "li_queue s = Event_task name changed # ts" and "\<not> raises c"
  shows "sub_inv c (send_event_impl raises name changed (s\<lparr> li_queue := ts \<rparr>))"
proof -
  define e where "e = event_of name changed"
  define l where "l = map (\<lambda>d. Sent d e) (filter (\<lambda>d. conn_alive s d \<and> \<not> raises d) (li_subscribers s))"
  define t where "t = send_event_impl raises name changed (s\<lparr> li_queue := ts \<rparr>)"
  have al: "conn_alive (s\<lparr> li_queue := ts \<rparr>) = conn_alive s" by (rule ext) simp
  have t: "li_log t = li_log s @ l" "li_queue t = ts" "li_conns t = li_conns s"
    "li_subscribers t = filter (conn_alive s) (li_subscribers s)"
    unfolding t_def send_event_impl_eq al by (simp_all add: l_def e_def)
  have ch: "changes (li_log t) = changes (li_log s)" by (simp add: t l_def)
  have cnt: "count_list (li_subscribers t) c = count_list (li_subscribers s) c"
    if "li_conns s c \<noteq> Some False"
  proof (cases "conn_alive s c")
    case True
    then show ?thesis by (simp add: t count_list_filter)
  next
    case False
    then have "c \<notin> set (li_subscribers s)" using s that by (auto simp: sub_inv_def conn_alive_def)
    then show ?thesis by (simp add: t count_notin)
  qed
  have rec: "received c (li_log t) = received c (li_log s) @ replicate (count_list (li_subscribers s) c) e"
    if "li_conns s c \<noteq> Some False"
  proof (cases "conn_alive s c")
    case True
    then show ?thesis using assms(3) by (simp add: t l_def count_list_filter)
  next
    case False
    then have "c \<notin> set (li_subscribers s)" using s that by (auto simp: sub_inv_def conn_alive_def)
    then show ?thesis by (simp add: t l_def count_notin)
  qed
  obtain j where j: "j \<le> length (changes (li_log s))" "e # queued_events ts = drop j (changes (li_log s))"
    using s q by (auto simp: sub_inv_def events_pending_def e_def)
  then have "queued_events ts = drop (Suc j) (changes (li_log s))" "Suc j \<le> length (changes (li_log s))"
    by (metis drop_Suc list.sel(3) tl_drop, metis drop_eq_Nil2 list.distinct(1) not_less_eq_eq)
  then have pend: "events_pending t" unfolding events_pending_def using ch t(2) by metis
  have sees: "sees_changes c t" if ne: "li_conns s c \<noteq> Some False" and one: "count_list (li_subscribers s) c = 1" and sc: "sees_changes c s"
  proof -
    obtain pre post k where p: "li_log s = pre @ sub_mark c # post" "k \<le> length (changes pre)"
      "received c (li_log s) @ e # queued_events ts = Subscribed # drop k (changes (li_log s))"
      using sc q unfolding sees_changes_def e_def by auto
    have "received c (li_log t) @ queued_events (li_queue t) = Subscribed # drop k (changes (li_log t))"
      using p(3) rec [OF ne] one ch t(2) by simp
    then show ?thesis unfolding sees_changes_def using p(1,2) t(1) by (metis append_Cons append_assoc)
  qed
  have live: "count_list (li_log t) (sub_mark c) = count_list (li_subscribers t) c
        \<and> (c \<notin> set (li_subscribers t) \<longrightarrow> received c (li_log t) = [])
        \<and> (count_list (li_subscribers t) c = 1 \<longrightarrow> sees_changes c t)"
    if ne: "li_conns s c \<noteq> Some False"
  proof -
    have i: "count_list (li_log s) (sub_mark c) = count_list (li_subscribers s) c"
      "c \<notin> set (li_subscribers s) \<longrightarrow> received c (li_log s) = []"
      "count_list (li_subscribers s) c = 1 \<longrightarrow> sees_changes c s"
      using s ne by (simp_all add: sub_inv_def)
    have "count_list (li_log t) (sub_mark c) = count_list (li_log s) (sub_mark c)" by (simp add: t l_def)
    moreover have "received c (li_log t) = []" if "c \<notin> set (li_subscribers t)"
    proof -
      have "c \<notin> set (li_subscribers s)"
        using cnt [OF ne] that by (metis count_list_0_iff)
      with i(2) rec [OF ne] show ?thesis by simp
    qed
    ultimately show ?thesis using i cnt [OF ne] sees [OF ne] by simp
  qed
  have "li_conns t c = None \<longrightarrow> c \<notin> set (li_subscribers t)" using s t(3,4) by (simp add: sub_inv_def)
  with pend live t(3) show ?thesis unfolding t_def [symmetric] sub_inv_def by simp
qed

lemma sub_inv_tail:
  assumes "sub_inv c s" and "li_queue s = Call_task d req # ts"
  shows "sub_inv c (s\<lparr> li_queue := ts \<rparr>)"
  using assms by (simp add: sub_inv_def events_pending_def sees_changes_def)

lemma sub_inv_subscribe:
  assumes s: "sub_inv c s" and "conn_alive s d" and "\<not> raises c"
  shows "sub_inv c (li_observe (sub_mark d) (subscribe_client raises d s))"
proof (cases "d = c")
  case False
  let ?t = "li_observe (sub_mark d) (subscribe_client raises d s)"
  have "sub_mark d \<noteq> sub_mark c" using False by (simp add: sub_mark_def)
  define l where "l = (if raises d then [sub_mark d] else [Sent d Subscribed, sub_mark d])"
  have "sub_inv c (s\<lparr> li_log := li_log s @ l \<rparr>)"
    by (rule sub_inv_grow [OF s, where l = l and ts = "[]"]) (use False in \<open>simp_all add: l_def sub_mark_def\<close>)
  moreover have "li_log ?t = li_log s @ l" by (simp add: l_def subscribe_client_def channel_send_def)
  ultimately show ?thesis
    using False by (simp add: sub_inv_def events_pending_def sees_changes_def subscribe_client_def)
next
  case True
  define t where "t = li_observe (sub_mark c) (subscribe_client raises c s)"
  have t: "li_log t = li_log s @ [Sent c Subscribed, sub_mark c]" "li_queue t = li_queue s" "li_conns t = li_conns s"
    "li_subscribers t = li_subscribers s @ [c]"
    using assms(3) by (simp_all add: t_def subscribe_client_def channel_send_def)
  have ch: "changes (li_log t) = changes (li_log s)" unfolding t(1) by (simp add: sub_mark_def)
  have i: "li_conns s c = Some True" "events_pending s" "count_list (li_log s) (sub_mark c) = count_list (li_subscribers s) c"
    "c \<notin> set (li_subscribers s) \<longrightarrow> received c (li_log s) = []"
    using s assms(2) True by (simp_all add: sub_inv_def conn_alive_def)
  have "sees_changes c t" if "c \<notin> set (li_subscribers s)"
  proof -
    obtain j where "j \<le> length (changes (li_log s))" "queued_events (li_queue s) = drop j (changes (li_log s))"
      using i(2) by (auto simp: events_pending_def)
    moreover have "received c (li_log t) = [Subscribed]" unfolding t(1) using that i(4) by (simp add: sub_mark_def)
    ultimately show ?thesis unfolding sees_changes_def ch t(2)
      by (intro exI [of _ "li_log s @ [Sent c Subscribed]"] exI [of _ "[]"] exI [of _ j]) (simp add: t(1))
  qed
  then have "count_list (li_subscribers t) c = 1 \<longrightarrow> sees_changes c t"
    by (simp only: t(4)) (simp add: count_list_0_iff)
  moreover have "events_pending t" using i(2) by (simp only: events_pending_def ch t(2))
  ultimately have "sub_inv c t" unfolding sub_inv_def t(3) using i t(1,4) by simp
  with True show ?thesis by (simp add: t_def)
qed

lemma sub_inv_call:
  assumes s: "sub_inv c s" and "\<not> raises c"
  shows "sub_inv c (svc_call raises d req s)"
proof (cases "conn_alive s d")
  case True
  obtain s' r where m: "lukki_method raises d req s = (s', r)" by (cases "lukki_method raises d req s")
  show ?thesis
  proof (cases "req = Req_subscribe")
    case sub: True
    then have "svc_call raises d req s = li_observe (sub_mark d) (subscribe_client raises d s)"
      using True by (simp add: svc_call_def lukki_method_def sub_mark_def)
    with sub_inv_subscribe [OF s True, of raises] assms(2) show ?thesis by simp
  next
    case False
    obtain ts where ts: "li_queue s' = li_queue s @ ts" "queued_events ts = change_of req r"
      using lukki_method_effect(2) [OF m] by blast
    have "sub_inv c (li_observe (Answered d req r) s')"
      by (rule sub_inv_grow [OF s, where l = "[Answered d req r]" and ts = ts])
        (use ts False lukki_method_effect(1,3) [OF m] in \<open>simp_all add: sub_mark_def\<close>)
    with True m show ?thesis by (simp add: svc_call_def)
  qed
qed (use s in \<open>simp add: svc_call_def\<close>)

lemma sub_inv_act:
  assumes s: "sub_inv c s" and "\<And>raises. a = Run raises \<Longrightarrow> \<not> raises c"
  shows "sub_inv c (db_act a s)"
proof (cases a)
  case (Connect d)
  have "sub_inv c (s\<lparr> li_conns := (li_conns s)(d \<mapsto> True) \<rparr>)" if "li_conns s d = None"
    using s that by (cases "d = c") (simp_all add: sub_inv_def events_pending_def sees_changes_def)
  with s Connect show ?thesis by simp
next
  case (Drop d)
  have "sub_inv c (s\<lparr> li_conns := (li_conns s)(d \<mapsto> False) \<rparr>)"
    using s by (cases "d = c") (simp_all add: sub_inv_def events_pending_def sees_changes_def)
  with s Drop show ?thesis by simp
next
  case (Post d req)
  have "sub_inv c (li_observe (Posted d req) (call_method d req s))"
    by (rule sub_inv_grow [OF s, where l = "[Posted d req]" and ts = "[Call_task d req]"]) (simp_all add: call_method_def)
  with s Post show ?thesis by simp
next
  case (Run raises)
  then have r: "\<not> raises c" by (rule assms(2))
  show ?thesis
  proof (cases "li_queue s")
    case (Cons t ts)
    show ?thesis
    proof (cases t)
      case (Call_task d req)
      with sub_inv_call [of c "s\<lparr> li_queue := ts \<rparr>" raises] r sub_inv_tail [OF s] Run Cons show ?thesis
        by (simp add: run_task_def)
    next
      case (Event_task name changed)
      with sub_inv_event [OF s, of _ _ _ raises] r Run Cons show ?thesis by (simp add: run_task_def)
    qed
  qed (use s Run in \<open>simp add: run_task_def\<close>)
qed

text \<open>
  C30. A client that subscribed once and is still connected sees the changes of the store: it was first told that
  it is subscribed, and what it was told since, followed by the events still waiting, is the sequence of all
  changes from some point not after its subscription on, each once and in the order they were made.
\<close>

theorem lukki_subscriber_sees_changes:
  assumes "conn_alive (db_acts as li_new) c" and "count_list (li_log (db_acts as li_new)) (sub_mark c) = 1"
    and "\<forall>raises. Run raises \<in> set as \<longrightarrow> \<not> raises c"
  shows "\<exists>pre post k. li_log (db_acts as li_new) = pre @ sub_mark c # post \<and> k \<le> length (changes pre)
           \<and> received c (li_log (db_acts as li_new)) @ queued_events (li_queue (db_acts as li_new))
             = Subscribed # drop k (changes (li_log (db_acts as li_new)))"
proof -
  have "sub_inv c li_new" by (simp add: sub_inv_def events_pending_def li_new_def)
  then have "sub_inv c (db_acts as li_new)"
    by (rule db_acts_invariant) (use assms(3) in \<open>auto intro: sub_inv_act\<close>)
  with assms(1,2) have "sees_changes c (db_acts as li_new)" by (simp add: sub_inv_def conn_alive_def)
  then show ?thesis by (simp add: sees_changes_def)
qed

lemmas db_run_simps = db_act.simps conn_alive_def li_new_def call_method_def li_observe_def run_task_def svc_call_def
  lukki_method_def li_set_def li_upd_def li_del_def li_get_def subscribe_client_def channel_send_def post_event_def
  send_event_impl_def event_of_def sub_mark_def db_stat_new_def Let_def

theorem lukki_subscriber_sees_changes_witness:
  "\<exists>pre post k. li_log (db_acts [Connect 1, Post 1 Req_subscribe, Post 1 (Req_set ''a'' []), Run (\<lambda>_. False), Run (\<lambda>_. False)] li_new)
       = pre @ sub_mark 1 # post \<and> k \<le> length (changes pre)
     \<and> received 1 (li_log (db_acts [Connect 1, Post 1 Req_subscribe, Post 1 (Req_set ''a'' []), Run (\<lambda>_. False), Run (\<lambda>_. False)] li_new))
       @ queued_events (li_queue (db_acts [Connect 1, Post 1 Req_subscribe, Post 1 (Req_set ''a'' []), Run (\<lambda>_. False), Run (\<lambda>_. False)] li_new))
       = Subscribed # drop k (changes (li_log (db_acts [Connect 1, Post 1 Req_subscribe, Post 1 (Req_set ''a'' []), Run (\<lambda>_. False), Run (\<lambda>_. False)] li_new)))"
  by (rule lukki_subscriber_sees_changes) (auto simp: db_run_simps)

text \<open>The calls of a connection that is not gone are answered or wait in the queue.\<close>

definition call_inv :: "nat \<Rightarrow> lukki_impl \<Rightarrow> bool" where
  "call_inv c s \<longleftrightarrow> (li_conns s c = None \<longrightarrow> posted_by c (li_log s) = [])
     \<and> (li_conns s c \<noteq> Some False \<longrightarrow> answered_by c (li_log s) @ queued_calls c (li_queue s) = posted_by c (li_log s))"

fun task_work :: "db_task \<Rightarrow> nat" where
  "task_work (Call_task c req) = 2"
| "task_work (Event_task name changed) = 1"

definition li_work :: "lukki_impl \<Rightarrow> nat" where
  "li_work s = sum_list (map task_work (li_queue s))"

lemma svc_call_effect:
  assumes "conn_alive s d"
  shows "\<exists>ts r. li_queue (svc_call raises d req s) = li_queue s @ ts \<and> (\<forall>c. queued_calls c ts = []) \<and> length ts \<le> 1
    \<and> li_conns (svc_call raises d req s) = li_conns s
    \<and> (\<forall>c. answered_by c (li_log (svc_call raises d req s)) = answered_by c (li_log s) @ (if c = d then [req] else [])
          \<and> posted_by c (li_log (svc_call raises d req s)) = posted_by c (li_log s))"
proof -
  obtain s' r where m: "lukki_method raises d req s = (s', r)" by (cases "lukki_method raises d req s")
  obtain ts where ts: "li_queue s' = li_queue s @ ts" "\<forall>c. queued_calls c ts = []" "length ts \<le> 1"
    using lukki_method_effect(2) [OF m] by blast
  have "answered_by c (li_log s') = answered_by c (li_log s) \<and> posted_by c (li_log s') = posted_by c (li_log s)" for c
  proof (cases "req = Req_subscribe")
    case True
    with m show ?thesis by (auto simp: lukki_method_def subscribe_client_def channel_send_def)
  qed (use lukki_method_effect(3) [OF m] in simp)
  then show ?thesis using assms m ts lukki_method_effect(1) [OF m] by (intro exI [of _ ts]) (simp add: svc_call_def)
qed

lemma call_inv_act:
  assumes s: "call_inv c s"
  shows "call_inv c (db_act a s)"
proof (cases a)
  case (Run raises)
  show ?thesis
  proof (cases "li_queue s")
    case (Cons t ts)
    show ?thesis
    proof (cases t)
      case (Call_task d req)
      show ?thesis
      proof (cases "conn_alive s d")
        case True
        then have "conn_alive (s\<lparr> li_queue := ts \<rparr>) d" by simp
        from svc_call_effect [OF this, of raises req] show ?thesis
          using s Run Cons Call_task True by (auto simp: call_inv_def run_task_def conn_alive_def)
      next
        case False
        then have "d \<noteq> c \<or> li_conns s c = Some False"
          using s Cons Call_task by (auto simp: call_inv_def conn_alive_def)
        then show ?thesis
          using s Run Cons Call_task False by (auto simp: call_inv_def run_task_def svc_call_def)
      qed
    next
      case (Event_task name changed)
      then show ?thesis using s Run Cons by (simp add: call_inv_def run_task_def send_event_impl_eq)
    qed
  qed (use s Run in \<open>simp add: run_task_def\<close>)
next
  case (Post d req)
  then show ?thesis using s by (auto simp: call_inv_def call_method_def conn_alive_def)
next
  case (Connect d)
  then show ?thesis using s by (auto simp: call_inv_def)
next
  case (Drop d)
  then show ?thesis using s by (auto simp: call_inv_def)
qed

lemma run_task_work: "li_work (run_task raises s) \<le> li_work s - 1"
proof (cases "li_queue s")
  case (Cons t ts)
  show ?thesis
  proof (cases t)
    case (Call_task d req)
    show ?thesis
    proof (cases "conn_alive s d")
      case True
      then have "conn_alive (s\<lparr> li_queue := ts \<rparr>) d" by simp
      then obtain us where us: "li_queue (svc_call raises d req (s\<lparr> li_queue := ts \<rparr>)) = ts @ us"
        "\<forall>c. queued_calls c us = []" "length us \<le> 1"
        using svc_call_effect [of "s\<lparr> li_queue := ts \<rparr>" d raises req] by auto
      have "sum_list (map task_work us) \<le> 1"
      proof (cases us)
        case (Cons u vs)
        then have "vs = []" using us(3) by simp
        moreover have "u \<noteq> Call_task d' req'" for d' req' using us(2) [rule_format, of d'] Cons by auto
        ultimately show ?thesis using Cons by (cases u) auto
      qed simp
      with us(1) Cons Call_task show ?thesis by (simp add: li_work_def run_task_def)
    qed (use Cons Call_task in \<open>simp add: li_work_def run_task_def svc_call_def\<close>)
  qed (use Cons in \<open>simp add: li_work_def run_task_def send_event_impl_eq\<close>)
qed (simp add: li_work_def run_task_def)

lemma run_tasks_work: "li_work (db_acts (map Run rs) s) \<le> li_work s - length rs"
proof (induction rs arbitrary: s)
  case (Cons r rs)
  have "li_work (db_acts (map Run (r # rs)) s) \<le> li_work (run_task r s) - length rs" using Cons [of "run_task r s"] by simp
  also have "\<dots> \<le> (li_work s - 1) - length rs" using run_task_work [of r s] by (rule diff_le_mono)
  finally show ?case by simp
qed simp

lemma run_tasks_frame:
  "li_conns (db_acts (map Run rs) s) = li_conns s \<and> posted_by c (li_log (db_acts (map Run rs) s)) = posted_by c (li_log s)"
proof (induction rs arbitrary: s)
  case (Cons r rs)
  have "li_conns (run_task r s) = li_conns s \<and> posted_by c (li_log (run_task r s)) = posted_by c (li_log s)"
  proof (cases "li_queue s")
    case (Cons t ts)
    show ?thesis
    proof (cases t)
      case (Call_task d req)
      then show ?thesis
        using Cons svc_call_effect [of "s\<lparr> li_queue := ts \<rparr>" d r req]
        by (cases "conn_alive s d") (auto simp: run_task_def, auto simp: svc_call_def)
    qed (use Cons in \<open>simp add: run_task_def send_event_impl_eq\<close>)
  qed (simp add: run_task_def)
  with Cons [of "run_task r s"] show ?case by simp
qed simp

text \<open>
  Calls are answered: after any history, once the strand has run as many tasks as the queue holds work,
  its queue is empty, and every call of a connection that is still there has been answered, once and in the order
  of its calls.
\<close>

theorem lukki_calls_answered:
  assumes "conn_alive (db_acts as li_new) c" and "li_work (db_acts as li_new) \<le> length rs"
  shows "li_queue (db_acts (as @ map Run rs) li_new) = []
    \<and> answered_by c (li_log (db_acts (as @ map Run rs) li_new)) = posted_by c (li_log (db_acts as li_new))"
proof -
  define t where "t = db_acts (map Run rs) (db_acts as li_new)"
  have "li_work t = 0" using run_tasks_work [of rs "db_acts as li_new"] assms(2) by (simp add: t_def)
  then have q: "li_queue t = []"
  proof (cases "li_queue t")
    case (Cons x xs)
    with \<open>li_work t = 0\<close> show ?thesis by (cases x) (simp_all add: li_work_def)
  qed simp
  have "call_inv c li_new" by (simp add: call_inv_def li_new_def)
  then have "call_inv c (db_acts (as @ map Run rs) li_new)" by (rule db_acts_invariant) (rule call_inv_act)
  then have i: "call_inv c t" by (simp add: db_acts_append t_def)
  have f: "li_conns t = li_conns (db_acts as li_new)" "posted_by c (li_log t) = posted_by c (li_log (db_acts as li_new))"
    using run_tasks_frame [of rs "db_acts as li_new" c] by (simp_all add: t_def)
  have "answered_by c (li_log t) = posted_by c (li_log (db_acts as li_new))"
    using i q f assms(1) by (simp add: call_inv_def conn_alive_def)
  with q show ?thesis by (simp add: db_acts_append t_def)
qed

theorem lukki_calls_answered_witness:
  "li_queue (db_acts ([Connect 1, Post 1 Req_stat] @ map Run [\<lambda>_. False, \<lambda>_. False]) li_new) = []
   \<and> answered_by 1 (li_log (db_acts ([Connect 1, Post 1 Req_stat] @ map Run [\<lambda>_. False, \<lambda>_. False]) li_new))
     = posted_by 1 (li_log (db_acts [Connect 1, Post 1 Req_stat] li_new))"
  by (rule lukki_calls_answered) (simp_all add: db_run_simps li_work_def)

subsection \<open>Deviations\<close>

text \<open>\<open>total_records\<close> is not updated when a record is deleted.\<close>

lemma del_leaves_total:
  "st_total_records (li_stat (fst (li_del name s))) = st_total_records (li_stat s)"
  by (simp add: li_del_def post_event_def Let_def)

text \<open>A set that fails is not counted; a failing update, get or delete is.\<close>

lemma failed_set_not_counted:
  "snd (li_set name v s) \<noteq> None \<Longrightarrow> li_stat (fst (li_set name v s)) = li_stat s"
  "st_upd_requests (li_stat (fst (li_upd name v s))) = st_upd_requests (li_stat s) + 1"
  by (cases "map_of (li_db s) name") (simp_all add: li_set_def li_upd_def post_event_def Let_def)

text \<open>A call whose connection is gone when the strand runs it is never completed.\<close>

lemma call_of_the_gone: "\<not> conn_alive s c \<Longrightarrow> svc_call raises c req s = s"
  by (simp add: svc_call_def)

end
