(* ===== verification/Remote_File.thy ===== *)
theory Remote_File
  imports Service_Refinement Rpc_Types
begin

text \<open>
  The file service of \<open>examples/remote-fs\<close>: \<open>remote_file_impl\<close> in \<open>server/remote-fs-impl.cpp\<close>, which keeps open
  files under numbers, the client object of the same name in \<open>client/rfs-impl.cpp\<close>, and the transfers
  built on it, \<open>client/rfs-pull-file.cpp\<close> and \<open>client/rfs-push-file.cpp\<close>. The calls of the C library and the files behind them
  are an argument \<open>io\<close>; \<open>'f\<close> is the type of its streams and \<open>'w\<close> the state of the system, \<open>errno\<close> included.
\<close>

subsection \<open>The C library\<close>

record ('f, 'w) stdio =
  sio_errno :: "'w \<Rightarrow> nat"
  sio_fopen :: "string \<Rightarrow> string \<Rightarrow> 'w \<Rightarrow> 'w \<times> 'f option"
  sio_fclose :: "'f \<Rightarrow> 'w \<Rightarrow> 'w"
  sio_ftell :: "'f \<Rightarrow> 'w \<Rightarrow> 'w \<times> int"
  sio_fseek :: "'f \<Rightarrow> int \<Rightarrow> u32 \<Rightarrow> 'w \<Rightarrow> 'w \<times> int"
  sio_fread :: "'f \<Rightarrow> nat \<Rightarrow> 'w \<Rightarrow> 'w \<times> bytes"
  sio_fwrite :: "'f \<Rightarrow> bytes \<Rightarrow> 'w \<Rightarrow> 'w \<times> nat"
  sio_fflush :: "'f \<Rightarrow> 'w \<Rightarrow> 'w"

subsection \<open>The service\<close>

definition ERR_NOT_FOUND :: nat where "ERR_NOT_FOUND = 2"

definition max_block_length :: nat where "max_block_length = 65000"

record 'f remote_file =
  rf_handle_index :: u32
  rf_files :: "u32 \<rightharpoonup> 'f"

definition rf_new :: "'f remote_file" where
  "rf_new = \<lparr> rf_handle_index = 100, rf_files = Map.empty \<rparr>"

definition rf_next_index :: "'f remote_file \<Rightarrow> 'f remote_file \<times> u32" where
  "rf_next_index s = (s\<lparr> rf_handle_index := rf_handle_index s + 1 \<rparr>, rf_handle_index s + 1)"

definition file_from_hdl :: "u32 \<Rightarrow> 'f remote_file \<Rightarrow> exn + 'f" where
  "file_from_hdl hdl s =
     (case rf_files s hdl of
        None \<Rightarrow> Inl (rpc_exception_msg ERR_NOT_FOUND ''Bad file handle'')
      | Some f \<Rightarrow> Inr f)"

definition system_error :: "('f, 'w) stdio \<Rightarrow> 'w \<Rightarrow> string \<Rightarrow> exn" where
  "system_error io w text = Rpc_exception (sio_errno io w) CATEGORY_SYSTEM text"

type_synonym ('f, 'w, 'r) rf_result = "('f remote_file \<times> 'w) \<times> (exn + 'r)"

text \<open>A number already in the table keeps its file: \<open>insert\<close> drops the new pointer, which closes the file.\<close>

definition rf_open ::
    "('f, 'w) stdio \<Rightarrow> string \<Rightarrow> string \<Rightarrow> 'f remote_file \<times> 'w \<Rightarrow> ('f, 'w, u32) rf_result" where
  "rf_open io path mode = (\<lambda>(s, w).
     case sio_fopen io path mode w of
       (w, None) \<Rightarrow> ((s, w), Inl (system_error io w ''fopen failed''))
     | (w, Some f) \<Rightarrow>
         (case rf_next_index s of (s, hdl) \<Rightarrow>
            case rf_files s hdl of
              None \<Rightarrow> ((s\<lparr> rf_files := (rf_files s)(hdl \<mapsto> f) \<rparr>, w), Inr hdl)
            | Some _ \<Rightarrow> ((s, sio_fclose io f w), Inr hdl)))"

definition rf_close :: "('f, 'w) stdio \<Rightarrow> u32 \<Rightarrow> 'f remote_file \<times> 'w \<Rightarrow> ('f, 'w, unit) rf_result" where
  "rf_close io hdl = (\<lambda>(s, w).
     case rf_files s hdl of
       None \<Rightarrow> ((s, w), Inr ())
     | Some f \<Rightarrow> ((s\<lparr> rf_files := (rf_files s)(hdl := None) \<rparr>, sio_fclose io f w), Inr ()))"

text \<open>The operations on an open file share the lookup of the handle.\<close>

definition with_file ::
    "u32 \<Rightarrow> ('f \<Rightarrow> 'w \<Rightarrow> 'w \<times> (exn + 'r)) \<Rightarrow> 'f remote_file \<times> 'w \<Rightarrow> ('f, 'w, 'r) rf_result" where
  "with_file hdl op = (\<lambda>(s, w).
     case file_from_hdl hdl s of
       Inl e \<Rightarrow> ((s, w), Inl e)
     | Inr f \<Rightarrow> (case op f w of (w, r) \<Rightarrow> ((s, w), r)))"

definition rf_tell :: "('f, 'w) stdio \<Rightarrow> u32 \<Rightarrow> 'f remote_file \<times> 'w \<Rightarrow> ('f, 'w, u64) rf_result" where
  "rf_tell io hdl = with_file hdl (\<lambda>f w.
     case sio_ftell io f w of (w, pos) \<Rightarrow>
       (w, if pos = -1 then Inl (system_error io w ''ftell failed'') else Inr (of_int pos)))"

definition rf_seek ::
    "('f, 'w) stdio \<Rightarrow> u32 \<Rightarrow> int \<Rightarrow> u32 \<Rightarrow> 'f remote_file \<times> 'w \<Rightarrow> ('f, 'w, u64) rf_result" where
  "rf_seek io hdl position whence = with_file hdl (\<lambda>f w.
     case sio_fseek io f position whence w of (w, pos) \<Rightarrow>
     case sio_ftell io f w of (w, file_pos) \<Rightarrow>
       (w, if pos = -1 then Inl (system_error io w ''fseek failed'') else Inr (of_int file_pos)))"

definition rf_read ::
    "('f, 'w) stdio \<Rightarrow> u32 \<Rightarrow> u32 \<Rightarrow> 'f remote_file \<times> 'w \<Rightarrow> ('f, 'w, nat \<times> bytes) rf_result" where
  "rf_read io hdl len_req sw =
     (let len = (if unat len_req > max_block_length then max_block_length else unat len_req) in
      if len = 0 then (sw, Inr (0, []))
      else with_file hdl (\<lambda>f w. case sio_fread io f len w of (w, d) \<Rightarrow> (w, Inr (length d, d))) sw)"

definition rf_write ::
    "('f, 'w) stdio \<Rightarrow> u32 \<Rightarrow> bytes \<Rightarrow> 'f remote_file \<times> 'w \<Rightarrow> ('f, 'w, nat) rf_result" where
  "rf_write io hdl data =
     with_file hdl (\<lambda>f w. case sio_fwrite io f data w of (w, n) \<Rightarrow> (w, Inr n))"

definition rf_flush :: "('f, 'w) stdio \<Rightarrow> u32 \<Rightarrow> 'f remote_file \<times> 'w \<Rightarrow> ('f, 'w, unit) rf_result" where
  "rf_flush io hdl = with_file hdl (\<lambda>f w. (sio_fflush io f w, Inr ()))"

text \<open>A request to the service.\<close>

datatype file_request =
    is_File_open: File_open string string | is_File_close: File_close u32 | File_tell u32 | File_seek u32 int u32 | File_read u32 u32
  | File_write u32 bytes | File_flush u32

datatype file_response = File_handle u32 | File_position u64 | File_block nat bytes | File_empty

fun answer :: "('r \<Rightarrow> file_response) \<Rightarrow> ('f, 'w, 'r) rf_result \<Rightarrow> ('f, 'w, file_response) rf_result" where
  "answer k (sw, Inl e) = (sw, Inl e)"
| "answer k (sw, Inr x) = (sw, Inr (k x))"

fun rf_call ::
    "('f, 'w) stdio \<Rightarrow> file_request \<Rightarrow> 'f remote_file \<times> 'w \<Rightarrow> ('f, 'w, file_response) rf_result" where
  "rf_call io (File_open path mode) sw = answer File_handle (rf_open io path mode sw)"
| "rf_call io (File_close hdl) sw = answer (\<lambda>_. File_empty) (rf_close io hdl sw)"
| "rf_call io (File_tell hdl) sw = answer File_position (rf_tell io hdl sw)"
| "rf_call io (File_seek hdl position whence) sw = answer File_position (rf_seek io hdl position whence sw)"
| "rf_call io (File_read hdl len) sw = answer (\<lambda>(n, d). File_block n d) (rf_read io hdl len sw)"
| "rf_call io (File_write hdl data) sw = answer (\<lambda>n. File_block n []) (rf_write io hdl data sw)"
| "rf_call io (File_flush hdl) sw = answer (\<lambda>_. File_empty) (rf_flush io hdl sw)"

subsection \<open>The client and its transfers\<close>

text \<open>The length of a request is a 32-bit field.\<close>

definition client_read ::
    "('f, 'w) stdio \<Rightarrow> u32 \<Rightarrow> nat \<Rightarrow> 'f remote_file \<times> 'w \<Rightarrow> ('f, 'w, bytes) rf_result" where
  "client_read io hdl max_len sw =
     (case rf_read io hdl (of_nat max_len) sw of
        (sw, Inl e) \<Rightarrow> (sw, Inl e)
      | (sw, Inr (n, d)) \<Rightarrow> (sw, Inr d))"

definition client_write ::
    "('f, 'w) stdio \<Rightarrow> u32 \<Rightarrow> bytes \<Rightarrow> 'f remote_file \<times> 'w \<Rightarrow> ('f, 'w, nat) rf_result" where
  "client_write io hdl data sw =
     (let len = (if length data > max_block_length then max_block_length else length data)
      in rf_write io hdl (take len data) sw)"

text \<open>An exception of \<open>close\<close> is swallowed; the service raises none.\<close>

definition client_close :: "('f, 'w) stdio \<Rightarrow> u32 \<Rightarrow> 'f remote_file \<times> 'w \<Rightarrow> 'f remote_file \<times> 'w" where
  "client_close io hdl sw = fst (rf_close io hdl sw)"

text \<open>\<open>out\<close> is what was written to the local file.\<close>

partial_function (option) pull_loop ::
    "('f, 'w) stdio \<Rightarrow> u32 \<Rightarrow> nat \<Rightarrow> bytes \<Rightarrow> 'f remote_file \<times> 'w \<Rightarrow> ('f, 'w, bytes) rf_result option" where
  "pull_loop io hdl block_size out sw =
     (case client_read io hdl block_size sw of
        (sw, Inl e) \<Rightarrow> Some (sw, Inl e)
      | (sw, Inr block) \<Rightarrow>
          if block = [] then Some (sw, Inr out) else pull_loop io hdl block_size (out @ block) sw)"

definition pull_file ::
    "('f, 'w) stdio \<Rightarrow> string \<Rightarrow> nat \<Rightarrow> 'f remote_file \<times> 'w \<Rightarrow> ('f, 'w, bytes) rf_result option" where
  "pull_file io remote_path block_size sw =
     (case rf_open io remote_path ''rb'' sw of
        (sw, Inl e) \<Rightarrow> Some (sw, Inl e)
      | (sw, Inr hdl) \<Rightarrow>
          map_option (\<lambda>(sw, r). (client_close io hdl sw, r)) (pull_loop io hdl block_size [] sw))"

text \<open>\<open>data\<close> is the part of the block from \<open>shift\<close> on.\<close>

partial_function (option) push_block ::
    "('f, 'w) stdio \<Rightarrow> u32 \<Rightarrow> bytes \<Rightarrow> 'f remote_file \<times> 'w \<Rightarrow> ('f, 'w, unit) rf_result option" where
  "push_block io hdl data sw =
     (if data = [] then Some (sw, Inr ())
      else
        (case client_write io hdl data sw of
           (sw, Inl e) \<Rightarrow> Some (sw, Inl e)
         | (sw, Inr w) \<Rightarrow> push_block io hdl (drop w data) sw))"

text \<open>\<open>blocks\<close> are the results of \<open>readsome\<close> on the local file, up to the first empty one.\<close>

fun push_blocks ::
    "('f, 'w) stdio \<Rightarrow> u32 \<Rightarrow> bytes list \<Rightarrow> 'f remote_file \<times> 'w \<Rightarrow> ('f, 'w, unit) rf_result option" where
  "push_blocks io hdl [] sw = Some (sw, Inr ())"
| "push_blocks io hdl (b # bs) sw =
     (case push_block io hdl b sw of
        None \<Rightarrow> None
      | Some (sw, Inl e) \<Rightarrow> Some (sw, Inl e)
      | Some (sw, Inr _) \<Rightarrow> push_blocks io hdl bs sw)"

definition push_file ::
    "('f, 'w) stdio \<Rightarrow> string \<Rightarrow> bytes list \<Rightarrow> 'f remote_file \<times> 'w \<Rightarrow> ('f, 'w, unit) rf_result option" where
  "push_file io remote_path blocks sw =
     (case rf_open io remote_path ''wb'' sw of
        (sw, Inl e) \<Rightarrow> Some (sw, Inl e)
      | (sw, Inr hdl) \<Rightarrow>
          map_option (\<lambda>(sw, r). (client_close io hdl sw, r)) (push_blocks io hdl blocks sw))"

subsection \<open>What the C library promises\<close>

text \<open>\<open>fread\<close> hands out what is left of the file in order, at most what was asked for, and nothing only at the end;
  \<open>fwrite\<close> appends a beginning of its data and, unless the device is full or broken, some of it.\<close>

definition reads_file :: "('f, 'w) stdio \<Rightarrow> 'f \<Rightarrow> ('w \<Rightarrow> bytes) \<Rightarrow> bool" where
  "reads_file io f left \<longleftrightarrow> (\<forall>w n w' d. sio_fread io f n w = (w', d) \<longrightarrow>
     left w = d @ left w' \<and> length d \<le> n \<and> (d = [] \<and> 0 < n \<longrightarrow> left w = []))"

definition writes_file :: "('f, 'w) stdio \<Rightarrow> 'f \<Rightarrow> ('w \<Rightarrow> bytes) \<Rightarrow> bool" where
  "writes_file io f written \<longleftrightarrow> (\<forall>w d w' n. sio_fwrite io f d w = (w', n) \<longrightarrow>
     n \<le> length d \<and> written w' = written w @ take n d \<and> (d \<noteq> [] \<longrightarrow> 0 < n))"

subsection \<open>Transfers\<close>

lemma with_file_found:
  "rf_files s hdl = Some f \<Longrightarrow> with_file hdl op (s, w) = (case op f w of (w, r) \<Rightarrow> ((s, w), r))"
  by (simp add: with_file_def file_from_hdl_def)

lemma pull_loop_reads:
  assumes "reads_file io f left" and "rf_files s hdl = Some f" and "(of_nat block_size :: u32) \<noteq> 0"
  shows "\<exists>w'. pull_loop io hdl block_size out (s, w) = Some ((s, w'), Inr (out @ left w)) \<and> left w' = []"
proof (induction "length (left w)" arbitrary: w out rule: less_induct)
  case less
  define len where "len = (if unat (of_nat block_size :: u32) > max_block_length then max_block_length
    else unat (of_nat block_size :: u32))"
  have pos: "0 < len" using assms(3) by (simp add: len_def max_block_length_def unat_gt_0)
  obtain w1 d where d: "sio_fread io f len w = (w1, d)" by fastforce
  have law: "left w = d @ left w1" "d = [] \<longrightarrow> left w = []"
    using assms(1) d pos unfolding reads_file_def by blast+
  have cr: "client_read io hdl block_size (s, w) = ((s, w1), Inr d)"
    using pos d assms(2) by (simp add: client_read_def rf_read_def with_file_found flip: len_def)
  show ?case
  proof (cases "d = []")
    case True
    then show ?thesis using law cr by (subst pull_loop.simps) simp
  next
    case False
    then have "length (left w1) < length (left w)" using law(1) by simp
    from less [OF this, of "out @ d"] False cr law(1) show ?thesis by (subst pull_loop.simps) simp
  qed
qed

lemma push_block_writes:
  assumes "writes_file io f written" and "rf_files s hdl = Some f"
  shows "\<exists>w'. push_block io hdl data (s, w) = Some ((s, w'), Inr ()) \<and> written w' = written w @ data"
proof (induction "length data" arbitrary: data w rule: less_induct)
  case less
  show ?case
  proof (cases "data = []")
    case True
    then show ?thesis by (subst push_block.simps) simp
  next
    case False
    define d where "d = take (if length data > max_block_length then max_block_length else length data) data"
    have "d \<noteq> []" using False by (auto simp: d_def max_block_length_def)
    obtain w1 n where w1: "sio_fwrite io f d w = (w1, n)" by fastforce
    then have law: "n \<le> length d" "written w1 = written w @ take n d" "0 < n"
      using assms(1) \<open>d \<noteq> []\<close> unfolding writes_file_def by blast+
    have "take n d = take n data" "length d \<le> length data" using law(1) by (auto simp: d_def min_def)
    moreover have "client_write io hdl data (s, w) = ((s, w1), Inr n)"
      using w1 assms(2) by (simp add: client_write_def rf_write_def with_file_found Let_def flip: d_def)
    moreover have "length (drop n data) < length data" using law(3) False by (cases data) auto
    ultimately show ?thesis using less [of "drop n data" w1] False law(2)
      by (subst push_block.simps) auto
  qed
qed

lemma push_blocks_writes:
  assumes "writes_file io f written" and "rf_files s hdl = Some f"
  shows "\<exists>w'. push_blocks io hdl blocks (s, w) = Some ((s, w'), Inr ()) \<and> written w' = written w @ concat blocks"
proof (induction blocks arbitrary: w)
  case (Cons b bs)
  obtain w1 where "push_block io hdl b (s, w) = Some ((s, w1), Inr ())" "written w1 = written w @ b"
    using push_block_writes [OF assms] by blast
  with Cons [of w1] show ?case by auto
qed simp

text \<open>An open with a fresh number, and the close that undoes it.\<close>

lemma open_fresh:
  assumes "sio_fopen io path mode w = (w1, Some f)" and "rf_files s (rf_handle_index s + 1) = None"
  obtains h s1 where "h = rf_handle_index s + 1" and "rf_open io path mode (s, w) = ((s1, w1), Inr h)"
    and "rf_files s1 h = Some f"
    and "\<And>w2. client_close io h (s1, w2) = (s\<lparr> rf_handle_index := rf_handle_index s + 1 \<rparr>, sio_fclose io f w2)"
proof
  let ?h = "rf_handle_index s + 1"
  let ?s1 = "s\<lparr> rf_handle_index := ?h, rf_files := (rf_files s)(?h \<mapsto> f) \<rparr>"
  show "rf_open io path mode (s, w) = ((?s1, w1), Inr ?h)" using assms by (simp add: rf_open_def rf_next_index_def)
  show "rf_files ?s1 ?h = Some f" by simp
  have "(rf_files s)(?h := None) = rf_files s" using assms(2) by (rule fun_upd_idem)
  then show "client_close io ?h (?s1, w2) = (s\<lparr> rf_handle_index := ?h \<rparr>, sio_fclose io f w2)" for w2
    by (simp add: client_close_def rf_close_def)
qed simp

text \<open>
  C21. Pulling a remote file that can be opened ends, whatever the block size that is not zero in the 32-bit field of
  the request, and yields exactly what there is to read in it; afterwards the stream is closed and the
  table of open files is what it was.
\<close>

theorem pull_file_copies:
  assumes "sio_fopen io path ''rb'' w = (w1, Some f)" and "reads_file io f left"
    and "rf_files s (rf_handle_index s + 1) = None" and "(of_nat block_size :: u32) \<noteq> 0"
  shows "\<exists>w2. pull_file io path block_size (s, w)
           = Some ((s\<lparr> rf_handle_index := rf_handle_index s + 1 \<rparr>, sio_fclose io f w2), Inr (left w1)) \<and> left w2 = []"
proof -
  obtain h s1 where o: "rf_open io path ''rb'' (s, w) = ((s1, w1), Inr h)" "rf_files s1 h = Some f"
    "\<And>w2. client_close io h (s1, w2) = (s\<lparr> rf_handle_index := rf_handle_index s + 1 \<rparr>, sio_fclose io f w2)"
    using open_fresh [OF assms(1,3)] by metis
  obtain w2 where "pull_loop io h block_size [] (s1, w1) = Some ((s1, w2), Inr (left w1))" "left w2 = []"
    using pull_loop_reads [OF assms(2) o(2) assms(4), of "[]" w1] by auto
  with o show ?thesis by (intro exI [of _ w2]) (simp add: pull_file_def)
qed

text \<open>
  Pushing a local file ends and leaves in the remote file what was in it when it was opened followed by all blocks
  of the local one, however short the single writes are, as long as each writes something.
\<close>

theorem push_file_copies:
  assumes "sio_fopen io path ''wb'' w = (w1, Some f)" and "writes_file io f written"
    and "rf_files s (rf_handle_index s + 1) = None"
  shows "\<exists>w2. push_file io path blocks (s, w)
           = Some ((s\<lparr> rf_handle_index := rf_handle_index s + 1 \<rparr>, sio_fclose io f w2), Inr ())
         \<and> written w2 = written w1 @ concat blocks"
proof -
  obtain h s1 where o: "rf_open io path ''wb'' (s, w) = ((s1, w1), Inr h)" "rf_files s1 h = Some f"
    "\<And>w2. client_close io h (s1, w2) = (s\<lparr> rf_handle_index := rf_handle_index s + 1 \<rparr>, sio_fclose io f w2)"
    using open_fresh [OF assms(1,3)] by metis
  obtain w2 where "push_blocks io h blocks (s1, w1) = Some ((s1, w2), Inr ())" "written w2 = written w1 @ concat blocks"
    using push_blocks_writes [OF assms(2) o(2)] by blast
  with o show ?thesis by (intro exI [of _ w2]) (simp add: push_file_def)
qed

text \<open>A system with one file, for the examples: its contents, and how much was read of it.\<close>

definition one_file :: "(unit, bytes \<times> nat) stdio" where
  "one_file =
     \<lparr> sio_errno = (\<lambda>_. 0), sio_fopen = (\<lambda>_ mode w. (if mode = ''wb'' then ([], 0) else (fst w, 0), Some ())),
       sio_fclose = (\<lambda>_ w. w), sio_ftell = (\<lambda>_ w. (w, int (snd w))), sio_fseek = (\<lambda>_ p _ (c, _). ((c, nat p), 0)),
       sio_fread = (\<lambda>_ n (c, p). ((c, p + min n (length c - p)), take n (drop p c))),
       sio_fwrite = (\<lambda>_ d (c, p). ((c @ d, p), length d)), sio_fflush = (\<lambda>_ w. w) \<rparr>"

lemma one_file_reads: "reads_file one_file () (\<lambda>(c, p). drop p c)"
proof -
  have "drop p c = take n (drop p c) @ drop (p + min n (length c - p)) c" for p n and c :: bytes
    by (metis add.commute append_take_drop_id drop_drop drop_eq_Nil length_drop min_def nle_le take_all)
  then show ?thesis by (auto simp: reads_file_def one_file_def)
qed

lemma one_file_writes: "writes_file one_file () fst"
  by (auto simp: writes_file_def one_file_def)

theorem pull_file_copies_witness:
  "\<exists>w2. pull_file one_file ''x'' 2 (rf_new, ([1, 2, 3], 0))
     = Some ((rf_new\<lparr> rf_handle_index := rf_handle_index (rf_new :: unit remote_file) + 1 \<rparr>, sio_fclose one_file () w2),
             Inr ((\<lambda>(c, p). drop p c) ([1, 2, 3], 0))) \<and> (\<lambda>(c, p). drop p c) w2 = []"
  by (rule pull_file_copies [OF _ one_file_reads]) (simp_all add: one_file_def rf_new_def)

theorem push_file_copies_witness:
  "\<exists>w2. push_file one_file ''x'' [[1, 2], [3]] (rf_new, ([9], 0))
     = Some ((rf_new\<lparr> rf_handle_index := rf_handle_index (rf_new :: unit remote_file) + 1 \<rparr>, sio_fclose one_file () w2), Inr ())
     \<and> fst w2 = fst ([], 0 :: nat) @ concat [[1, 2], [3]]"
  by (rule push_file_copies [OF _ one_file_writes]) (simp_all add: one_file_def rf_new_def)

subsection \<open>Handles\<close>

lemma answer_state [simp]: "fst (answer k r) = fst r"
  by (cases r; cases "snd r") auto

lemma with_file_state: "fst (fst (with_file hdl op sw)) = fst sw"
  by (simp add: with_file_def split_beta split: sum.splits)

lemmas rf_op_defs = rf_tell_def rf_seek_def rf_read_def rf_write_def rf_flush_def

lemma rf_call_state:
  "\<not> is_File_open req \<Longrightarrow> \<not> is_File_close req \<Longrightarrow> fst (fst (rf_call io req sw)) = fst sw"
  by (cases req) (simp_all add: rf_op_defs Let_def with_file_state)

text \<open>The table after a call.\<close>

lemma rf_open_table:
  "rf_files (fst (fst (rf_open io path mode sw))) h = rf_files (fst sw) h
   \<or> rf_files (fst sw) h = None \<and> h = rf_handle_index (fst sw) + 1
     \<and> rf_handle_index (fst (fst (rf_open io path mode sw))) = rf_handle_index (fst sw) + 1"
  by (auto simp: rf_open_def rf_next_index_def split_beta split: option.splits prod.splits)

lemma rf_call_keeps:
  assumes "req \<noteq> File_close h" and "rf_files (fst sw) h = Some f"
  shows "rf_files (fst (fst (rf_call io req sw))) h = Some f"
proof (cases req)
  case (File_open path mode)
  then show ?thesis using assms(2) rf_open_table [of io path mode sw h] by auto
next
  case (File_close hdl)
  then show ?thesis using assms by (auto simp: rf_close_def split_beta split: option.splits)
qed (use assms(2) rf_call_state [of req io sw] in simp_all)

lemma run_calls_keep:
  assumes "File_close h \<notin> set reqs" and "rf_files (fst sw) h = Some f"
  shows "rf_files (fst (fst (run_calls (rf_call io) reqs sw))) h = Some f"
  using assms
proof (induction reqs arbitrary: sw)
  case (Cons req reqs)
  then have "rf_files (fst (fst (rf_call io req sw))) h = Some f" by (intro rf_call_keeps) auto
  with Cons show ?case by (simp add: split_beta)
qed simp

definition rf_wf :: "nat \<Rightarrow> 'f remote_file \<Rightarrow> bool" where
  "rf_wf n s \<longleftrightarrow> 100 \<le> unat (rf_handle_index s) \<and> unat (rf_handle_index s) \<le> 100 + n
     \<and> (\<forall>h f. rf_files s h = Some f \<longrightarrow> 100 < unat h \<and> unat h \<le> unat (rf_handle_index s))"

lemma unat_succ: "unat x + 1 < 2 ^ 32 \<Longrightarrow> unat (x + 1 :: u32) = unat x + 1"
  by (simp add: unat_word_ariths)

lemma rf_wf_call:
  assumes "rf_wf n (fst sw)" and "n + 101 < 2 ^ 32"
  shows "rf_wf (Suc n) (fst (fst (rf_call io req sw)))"
proof (cases req)
  case (File_open path mode)
  let ?i = "rf_handle_index (fst sw)" and ?t = "fst (fst (rf_open io path mode sw))"
  have i: "unat (?i + 1) = unat ?i + 1" using assms by (intro unat_succ) (simp add: rf_wf_def)
  have idx: "rf_handle_index ?t = ?i \<or> rf_handle_index ?t = ?i + 1"
    by (auto simp: rf_open_def rf_next_index_def split_beta split: option.splits prod.splits)
  have "100 < unat h \<and> unat h \<le> unat (rf_handle_index ?t)" if "rf_files ?t h = Some f" for h f
    using rf_open_table [of io path mode sw h]
  proof
    assume "rf_files ?t h = rf_files (fst sw) h"
    with that assms(1) have "100 < unat h \<and> unat h \<le> unat ?i" by (auto simp: rf_wf_def)
    with idx i show ?thesis by auto
  next
    assume "rf_files (fst sw) h = None \<and> h = ?i + 1 \<and> rf_handle_index ?t = ?i + 1"
    with i assms(1) show ?thesis by (simp add: rf_wf_def)
  qed
  with idx i assms(1) File_open show ?thesis by (auto simp: rf_wf_def)
next
  case (File_close hdl)
  then show ?thesis using assms(1)
    by (auto simp: rf_wf_def rf_close_def split_beta split: option.splits if_splits)
qed (use assms(1) rf_call_state [of req io sw] in \<open>auto simp: rf_wf_def\<close>)

lemma rf_wf_run:
  "rf_wf n (fst sw) \<Longrightarrow> n + length reqs + 101 \<le> 2 ^ 32 \<Longrightarrow> rf_wf (n + length reqs) (fst (fst (run_calls (rf_call io) reqs sw)))"
proof (induction reqs arbitrary: sw n)
  case (Cons req reqs)
  have "rf_wf (Suc n) (fst (fst (rf_call io req sw)))" using Cons.prems by (intro rf_wf_call) simp_all
  from Cons.IH [OF this] Cons.prems show ?case by (simp add: split_beta)
qed simp

text \<open>
  A file handle denotes its own file. After any calls of a connection, fewer than the handles there are, an open that
  succeeds returns a handle no open file has; and through any further calls, whoever makes them, the handle
  denotes the stream it was opened for until it is closed.
\<close>

theorem file_handle_denotes:
  assumes "run_calls (rf_call io) reqs (rf_new, w) = ((s, w1), rs)" and "length reqs + 102 < 2 ^ 32"
    and "sio_fopen io path mode w1 = (w2, Some f)" and "h = rf_handle_index s + 1"
    and "rf_call io (File_open path mode) (s, w1) = (sw, r)"
    and "run_calls (rf_call io) later sw = ((t, w3), rs')" and "File_close h \<notin> set later"
  shows "r = Inr (File_handle h) \<and> rf_files s h = None \<and> rf_files t h = Some f"
proof -
  have "rf_wf 0 (rf_new :: 'a remote_file)" by (simp add: rf_wf_def rf_new_def)
  then have wf: "rf_wf (length reqs) s" using rf_wf_run [of 0 "(rf_new, w)" reqs io] assms(1,2) by simp
  then have "unat h = unat (rf_handle_index s) + 1" unfolding assms(4) using assms(2) by (intro unat_succ) (simp add: rf_wf_def)
  then have none: "rf_files s h = None" using wf unfolding rf_wf_def by (metis add_le_same_cancel1 not_one_le_zero option.exhaust)
  have o: "rf_open io path mode (s, w1) = ((s\<lparr> rf_handle_index := h, rf_files := (rf_files s)(h \<mapsto> f) \<rparr>, w2), Inr h)"
    using assms(3) none by (simp add: rf_open_def rf_next_index_def assms(4))
  then have "r = Inr (File_handle h)" "rf_files (fst sw) h = Some f" using assms(5) by auto
  with none run_calls_keep [OF assms(7), of sw f io] assms(6) show ?thesis by simp
qed

theorem file_handle_denotes_witness:
  "\<exists>sw t w3 rs'. rf_call one_file (File_open ''x'' ''rb'') (rf_new, ([1, 2], 0)) = (sw, Inr (File_handle 101))
     \<and> run_calls (rf_call one_file) [File_read 101 1, File_open ''y'' ''rb'', File_close 102] sw = ((t, w3), rs') \<and> rf_files t 101 = Some ()"
proof -
  obtain sw r where o: "rf_call one_file (File_open ''x'' ''rb'') (rf_new, ([1, 2], 0)) = (sw, r)" by fastforce
  obtain t w3 rs' where m: "run_calls (rf_call one_file) [File_read 101 1, File_open ''y'' ''rb'', File_close 102] sw = ((t, w3), rs')"
    by (metis surj_pair)
  have "r = Inr (File_handle 101) \<and> rf_files (rf_new :: unit remote_file) 101 = None \<and> rf_files t 101 = Some ()"
    by (rule file_handle_denotes [of one_file "[]" "([1, 2], 0)" rf_new "([1, 2], 0)" "[]" "''x''" "''rb''" "([1, 2], 0)" "()" 101, OF _ _ _ _ o m])
      (simp_all add: one_file_def rf_new_def)
  with o m show ?thesis by blast
qed

subsection \<open>Errors\<close>

text \<open>A call with a handle that is not open changes nothing and raises \<open>ERR_NOT_FOUND\<close>, reads of length zero and
  closing apart.\<close>

lemma bad_handle_refused:
  assumes "rf_files s hdl = None"
    and "req \<in> {File_tell hdl, File_seek hdl position whence, File_write hdl data, File_flush hdl} \<or> req = File_read hdl len \<and> len \<noteq> 0"
  shows "rf_call io req (s, w) = ((s, w), Inl (Rpc_exception ERR_NOT_FOUND CATEGORY_INTERNAL ''Bad file handle''))"
  using assms
  by (auto simp: rf_op_defs with_file_def file_from_hdl_def rpc_exception_msg_def Let_def max_block_length_def unat_gt_0)

text \<open>A read returns no more than asked for, and no more than the largest block.\<close>

lemma read_bounded:
  assumes law: "\<forall>f n w. length (snd (sio_fread io f n w)) \<le> n"
    and c: "rf_call io (File_read hdl len) (s, w) = (sw', Inr (File_block n d))"
  shows "n = length d \<and> length d \<le> unat len \<and> length d \<le> max_block_length"
proof -
  define l where "l = (if unat len > max_block_length then max_block_length else unat len)"
  have l: "l \<le> unat len" "l \<le> max_block_length" by (simp_all add: l_def)
  show ?thesis
  proof (cases "l = 0 \<or> rf_files s hdl = None")
    case True
    then show ?thesis using c by (auto simp: rf_read_def with_file_def file_from_hdl_def Let_def simp flip: l_def split: if_splits)
  next
    case False
    then obtain f where f: "rf_files s hdl = Some f" by auto
    obtain w' e where e: "sio_fread io f l w = (w', e)" by fastforce
    with law have "length e \<le> l" by (metis snd_conv)
    moreover have "n = length e" "d = e" using c False f e by (auto simp: rf_read_def with_file_found Let_def simp flip: l_def)
    ultimately show ?thesis using l by simp
  qed
qed

text \<open>Once the numbers wrap around to a handle that is still open, an open closes its new file and returns the
  handle of the old one.\<close>

lemma open_after_wrap:
  assumes "sio_fopen io path mode w = (w1, Some f)" and "rf_files s (rf_handle_index s + 1) = Some g"
  shows "rf_open io path mode (s, w)
    = ((s\<lparr> rf_handle_index := rf_handle_index s + 1 \<rparr>, sio_fclose io f w1), Inr (rf_handle_index s + 1))"
  using assms by (simp add: rf_open_def rf_next_index_def)

text \<open>A write that writes nothing, as on a full device, makes the upload loop for ever.\<close>

lemma push_block_stuck:
  assumes "\<And>d w. sio_fwrite io f d w = (w, 0)" and "rf_files s hdl = Some f" and "data \<noteq> []"
  shows "push_block io hdl data (s, w) = None"
proof (rule ccontr)
  assume "push_block io hdl data (s, w) \<noteq> None"
  then obtain y where y: "push_block io hdl data (s, w) = Some y" by blast
  have "io' = io \<longrightarrow> h = hdl \<longrightarrow> d \<noteq> [] \<longrightarrow> sw = (s, w) \<longrightarrow> False" if "push_block io' h d sw = Some z" for io' h d sw z
    using that
  proof (rule push_block.raw_induct [rotated])
    fix rec io' h d sw z
    assume ih: "\<And>io' h d sw z. rec io' h d sw = Some z \<Longrightarrow> io' = io \<longrightarrow> h = hdl \<longrightarrow> d \<noteq> [] \<longrightarrow> sw = (s, w) \<longrightarrow> False"
      and r: "(if d = [] then Some (sw, Inr ())
        else case client_write io' h d sw of (sw, Inl e) \<Rightarrow> Some (sw, Inl e) | (sw, Inr w) \<Rightarrow> rec io' h (drop w d) sw) = Some z"
    show "io' = io \<longrightarrow> h = hdl \<longrightarrow> d \<noteq> [] \<longrightarrow> sw = (s, w) \<longrightarrow> False"
    proof (intro impI)
      assume c: "io' = io" "h = hdl" "d \<noteq> []" "sw = (s, w)"
      have "client_write io hdl d (s, w) = ((s, w), Inr 0)"
        using assms(1,2) by (simp add: client_write_def rf_write_def with_file_found)
      with r c have "rec io hdl d (s, w) = Some z" by simp
      from ih [OF this] c(3) show False by simp
    qed
  qed
  with y assms(3) show False by blast
qed

end
