(* ===== verification/Remote_Fs.thy ===== *)
theory Remote_Fs
  imports Remote_File
begin

text \<open>
  The directory service of \<open>examples/remote-fs\<close>: \<open>remote_fs_impl\<close> in \<open>server/remote-fs-impl.cpp\<close>, which keeps current
  paths and directory iterators under numbers from one counter, and the client's directory listing
  (\<open>client/rfs-impl.cpp\<close>, \<open>client/rfs-directory-list.cpp\<close>). \<open>boost::filesystem\<close> is an argument \<open>fs\<close> over the state
  \<open>'w\<close> of the file system; a path is its text.
\<close>

subsection \<open>The file system library\<close>

record 'w filesystem =
  bf_is_absolute :: "string \<Rightarrow> bool"
  bf_normalize :: "string \<Rightarrow> string"
  bf_append :: "string \<Rightarrow> string \<Rightarrow> string"
  bf_exists :: "string \<Rightarrow> 'w \<Rightarrow> exn + bool"
  bf_is_directory :: "string \<Rightarrow> 'w \<Rightarrow> exn + bool"
  bf_is_symlink :: "string \<Rightarrow> 'w \<Rightarrow> exn + bool"
  bf_is_empty :: "string \<Rightarrow> 'w \<Rightarrow> exn + bool"
  bf_is_regular_file :: "string \<Rightarrow> 'w \<Rightarrow> exn + bool"
  bf_file_size :: "string \<Rightarrow> 'w \<Rightarrow> exn + u64"
  bf_create_directories :: "string \<Rightarrow> 'w \<Rightarrow> 'w \<times> (exn + unit)"
  bf_remove :: "string \<Rightarrow> 'w \<Rightarrow> 'w \<times> (exn + unit)"
  bf_entries :: "string \<Rightarrow> 'w \<Rightarrow> exn + string list"

subsection \<open>State\<close>

text \<open>
  A directory iterator is the end iterator (\<open>None\<close>) or refers to an open directory; its copies share
  the directory, so advancing one advances all. \<open>rs_dirs\<close> holds what each open directory has left.
\<close>

type_synonym dir_iter = "nat option"

record remote_fs =
  rs_handle_index :: u32
  rs_inst :: "u32 \<rightharpoonup> string"
  rs_iterators :: "u32 \<rightharpoonup> dir_iter"
  rs_dirs :: "string list list"

definition rs_new :: remote_fs where
  "rs_new = \<lparr> rs_handle_index = 100, rs_inst = Map.empty, rs_iterators = Map.empty, rs_dirs = [] \<rparr>"

definition rs_next_index :: "remote_fs \<Rightarrow> remote_fs \<times> u32" where
  "rs_next_index s = (s\<lparr> rs_handle_index := rs_handle_index s + 1 \<rparr>, rs_handle_index s + 1)"

definition directory_iterator :: "string list \<Rightarrow> remote_fs \<Rightarrow> remote_fs \<times> dir_iter" where
  "directory_iterator entries s =
     (if entries = [] then (s, None) else (s\<lparr> rs_dirs := rs_dirs s @ [entries] \<rparr>, Some (length (rs_dirs s))))"

definition iter_deref :: "dir_iter \<Rightarrow> remote_fs \<Rightarrow> exn + string" where
  "iter_deref iter s =
     (case iter of
        None \<Rightarrow> Inl Undefined
      | Some d \<Rightarrow> (if d < length (rs_dirs s) \<and> rs_dirs s ! d \<noteq> [] then Inr (hd (rs_dirs s ! d)) else Inl Undefined))"

definition iter_incr :: "dir_iter \<Rightarrow> remote_fs \<Rightarrow> remote_fs \<times> (exn + dir_iter)" where
  "iter_incr iter s =
     (case iter of
        None \<Rightarrow> (s, Inl Undefined)
      | Some d \<Rightarrow>
          (if d < length (rs_dirs s) \<and> rs_dirs s ! d \<noteq> []
           then (let rest = tl (rs_dirs s ! d) in
                 (s\<lparr> rs_dirs := (rs_dirs s)[d := rest] \<rparr>, Inr (if rest = [] then None else Some d)))
           else (s, Inl Undefined)))"

subsection \<open>Requests and answers\<close>

record fs_element_info =
  ei_is_exist :: bool
  ei_is_directory :: bool
  ei_is_empty :: bool
  ei_is_regular :: bool
  ei_is_symlink :: bool

definition ei_new :: fs_element_info where
  "ei_new = \<lparr> ei_is_exist = False, ei_is_directory = False, ei_is_empty = False, ei_is_regular = False, ei_is_symlink = False \<rparr>"

record fs_iterator_info =
  ii_handle :: u32
  ii_path :: string
  ii_end :: bool

text \<open>A path request: the handle, where it is set, and the path.\<close>

type_synonym fs_handle_path = "u32 option \<times> string"

type_synonym ('w, 'r) rs_result = "(remote_fs \<times> 'w) \<times> (exn + 'r)"

subsection \<open>Operations\<close>

definition iter_from_request :: "u32 \<Rightarrow> remote_fs \<Rightarrow> exn + dir_iter" where
  "iter_from_request hdl s =
     (case rs_iterators s hdl of
        None \<Rightarrow> Inl (rpc_exception_msg ERR_NOT_FOUND ''Bad iterator handle'')
      | Some iter \<Rightarrow> Inr iter)"

definition path_from_request ::
    "'w filesystem \<Rightarrow> fs_handle_path \<Rightarrow> remote_fs \<Rightarrow> remote_fs \<times> (exn + u32 \<times> string)" where
  "path_from_request fs request s =
     (if fst request = None \<or> bf_is_absolute fs (snd request)
      then (case rs_next_index s of (s, hdl) \<Rightarrow> (s, Inr (hdl, bf_normalize fs (snd request))))
      else
        (let hdl = the (fst request) in
         case rs_inst s hdl of
           None \<Rightarrow> (s, Inl (rpc_exception_msg ERR_NOT_FOUND ''Bad fs handle''))
         | Some p \<Rightarrow> (s, Inr (hdl, bf_normalize fs (bf_append fs p (snd request))))))"

text \<open>Most operations start with the path of the request.\<close>

definition with_path ::
    "'w filesystem \<Rightarrow> fs_handle_path \<Rightarrow> (u32 \<Rightarrow> string \<Rightarrow> remote_fs \<times> 'w \<Rightarrow> ('w, 'r) rs_result) \<Rightarrow>
     remote_fs \<times> 'w \<Rightarrow> ('w, 'r) rs_result" where
  "with_path fs request op = (\<lambda>(s, w).
     case path_from_request fs request s of
       (s, Inl e) \<Rightarrow> ((s, w), Inl e)
     | (s, Inr (hdl, p)) \<Rightarrow> op hdl p (s, w))"

definition rs_close :: "u32 \<Rightarrow> remote_fs \<times> 'w \<Rightarrow> ('w, u32 option) rs_result" where
  "rs_close hdl = (\<lambda>(s, w).
     if rs_inst s hdl \<noteq> None then ((s\<lparr> rs_inst := (rs_inst s)(hdl := None) \<rparr>, w), Inr (Some hdl))
     else if rs_iterators s hdl \<noteq> None
     then ((s\<lparr> rs_iterators := (rs_iterators s)(hdl := None) \<rparr>, w), Inr (Some hdl))
     else ((s, w), Inr None))"

definition rs_open :: "'w filesystem \<Rightarrow> fs_handle_path \<Rightarrow> remote_fs \<times> 'w \<Rightarrow> ('w, u32 \<times> string) rs_result" where
  "rs_open fs request = with_path fs request (\<lambda>hdl p (s, w).
     ((if rs_inst s hdl = None then s\<lparr> rs_inst := (rs_inst s)(hdl \<mapsto> p) \<rparr> else s, w), Inr (hdl, p)))"

definition rs_cd :: "'w filesystem \<Rightarrow> fs_handle_path \<Rightarrow> remote_fs \<times> 'w \<Rightarrow> ('w, unit) rs_result" where
  "rs_cd fs request = (\<lambda>(s, w).
     let hdl = (case fst request of None \<Rightarrow> 0 | Some h \<Rightarrow> h) in
     case rs_inst s hdl of
       None \<Rightarrow> ((s, w), Inl (rpc_exception_msg ERR_NOT_FOUND ''Bad fs handle''))
     | Some p \<Rightarrow>
         ((s\<lparr> rs_inst := (rs_inst s)(hdl \<mapsto> bf_normalize fs (bf_append fs p (snd request))) \<rparr>, w), Inr ()))"

definition rs_pwd :: "'w filesystem \<Rightarrow> fs_handle_path \<Rightarrow> remote_fs \<times> 'w \<Rightarrow> ('w, string) rs_result" where
  "rs_pwd fs request = with_path fs request (\<lambda>hdl p sw. (sw, Inr p))"

definition rs_exists :: "'w filesystem \<Rightarrow> fs_handle_path \<Rightarrow> remote_fs \<times> 'w \<Rightarrow> ('w, bool) rs_result" where
  "rs_exists fs request = with_path fs request (\<lambda>hdl p (s, w). ((s, w), bf_exists fs p w))"

definition rs_file_size :: "'w filesystem \<Rightarrow> fs_handle_path \<Rightarrow> remote_fs \<times> 'w \<Rightarrow> ('w, u64) rs_result" where
  "rs_file_size fs request = with_path fs request (\<lambda>hdl p (s, w). ((s, w), bf_file_size fs p w))"

definition fill_info :: "'w filesystem \<Rightarrow> string \<Rightarrow> 'w \<Rightarrow> exn + fs_element_info" where
  "fill_info fs p w =
     and_then (bf_exists fs p w) (\<lambda>is_exists.
     if \<not> is_exists then Inr ei_new
     else
       and_then (bf_is_directory fs p w) (\<lambda>is_dir.
       and_then (bf_is_symlink fs p w) (\<lambda>is_symlink.
       and_then (if is_dir then bf_is_empty fs p w else Inr True) (\<lambda>is_empty.
       and_then (bf_is_regular_file fs p w) (\<lambda>is_regular.
       Inr \<lparr> ei_is_exist = True, ei_is_directory = is_dir, ei_is_empty = is_empty, ei_is_regular = is_regular,
             ei_is_symlink = is_symlink \<rparr>)))))"

definition rs_info :: "'w filesystem \<Rightarrow> fs_handle_path \<Rightarrow> remote_fs \<times> 'w \<Rightarrow> ('w, fs_element_info) rs_result" where
  "rs_info fs request = with_path fs request (\<lambda>hdl p (s, w). ((s, w), fill_info fs p w))"

definition rs_mkdir :: "'w filesystem \<Rightarrow> fs_handle_path \<Rightarrow> remote_fs \<times> 'w \<Rightarrow> ('w, u32) rs_result" where
  "rs_mkdir fs request = with_path fs request (\<lambda>hdl p (s, w).
     case bf_create_directories fs p w of (w, r) \<Rightarrow> ((s, w), and_then r (\<lambda>_. Inr hdl)))"

definition rs_del :: "'w filesystem \<Rightarrow> fs_handle_path \<Rightarrow> remote_fs \<times> 'w \<Rightarrow> ('w, u32) rs_result" where
  "rs_del fs request = with_path fs request (\<lambda>hdl p (s, w).
     case bf_remove fs p w of (w, r) \<Rightarrow> ((s, w), and_then r (\<lambda>_. Inr hdl)))"

definition fill_iter_info :: "dir_iter \<Rightarrow> u32 \<Rightarrow> remote_fs \<Rightarrow> exn + fs_iterator_info" where
  "fill_iter_info iter hdl s =
     (if iter = None then Inr \<lparr> ii_handle = hdl, ii_path = [], ii_end = True \<rparr>
      else and_then (iter_deref iter s) (\<lambda>p. Inr \<lparr> ii_handle = hdl, ii_path = p, ii_end = False \<rparr>))"

definition iter_insert :: "u32 \<Rightarrow> dir_iter \<Rightarrow> remote_fs \<Rightarrow> remote_fs" where
  "iter_insert hdl iter s =
     (if rs_iterators s hdl = None then s\<lparr> rs_iterators := (rs_iterators s)(hdl \<mapsto> iter) \<rparr> else s)"

definition rs_iter_begin ::
    "'w filesystem \<Rightarrow> fs_handle_path \<Rightarrow> remote_fs \<times> 'w \<Rightarrow> ('w, fs_iterator_info) rs_result" where
  "rs_iter_begin fs request = with_path fs request (\<lambda>hdl p (s, w).
     case bf_entries fs p w of
       Inl e \<Rightarrow> ((s, w), Inl e)
     | Inr entries \<Rightarrow>
         (case directory_iterator entries s of (s, iter) \<Rightarrow>
          case rs_next_index s of (s, iter_hdl) \<Rightarrow>
          let s = iter_insert iter_hdl iter s in ((s, w), fill_iter_info iter iter_hdl s)))"

definition rs_iter_next :: "u32 \<Rightarrow> remote_fs \<times> 'w \<Rightarrow> ('w, fs_iterator_info) rs_result" where
  "rs_iter_next hdl = (\<lambda>(s, w).
     case iter_from_request hdl s of
       Inl e \<Rightarrow> ((s, w), Inl e)
     | Inr iter \<Rightarrow>
         (case iter_incr iter s of
            (s, Inl e) \<Rightarrow> ((s, w), Inl e)
          | (s, Inr iter) \<Rightarrow>
              (case fill_iter_info iter hdl s of
                 Inl e \<Rightarrow> ((s, w), Inl e)
               | Inr i \<Rightarrow> ((s\<lparr> rs_iterators := (rs_iterators s)(hdl \<mapsto> iter) \<rparr>, w), Inr i))))"

definition rs_iter_info :: "'w filesystem \<Rightarrow> u32 \<Rightarrow> remote_fs \<times> 'w \<Rightarrow> ('w, fs_element_info) rs_result" where
  "rs_iter_info fs hdl = (\<lambda>(s, w).
     ((s, w), and_then (iter_from_request hdl s) (\<lambda>iter.
              and_then (iter_deref iter s) (\<lambda>p. fill_info fs p w))))"

definition rs_iter_clone :: "u32 \<Rightarrow> remote_fs \<times> 'w \<Rightarrow> ('w, fs_iterator_info) rs_result" where
  "rs_iter_clone hdl = (\<lambda>(s, w).
     case iter_from_request hdl s of
       Inl e \<Rightarrow> ((s, w), Inl e)
     | Inr iter \<Rightarrow>
         (case rs_next_index s of (s, new_hdl) \<Rightarrow>
          case fill_iter_info iter hdl s of
            Inl e \<Rightarrow> ((s, w), Inl e)
          | Inr i \<Rightarrow> ((iter_insert new_hdl iter s, w), Inr i)))"

text \<open>A request to the service.\<close>

datatype fs_request =
    Fs_close u32 | Fs_open fs_handle_path | Fs_cd fs_handle_path | Fs_pwd fs_handle_path | Fs_exists fs_handle_path
  | Fs_file_size fs_handle_path | Fs_info fs_handle_path | Fs_mkdir fs_handle_path | Fs_del fs_handle_path
  | Fs_iter_begin fs_handle_path | Fs_iter_next u32 | Fs_iter_info u32 | Fs_iter_clone u32

datatype fs_response =
    Fs_done | Fs_handle "u32 option" | Fs_handle_path u32 string | Fs_path string | Fs_flag bool | Fs_size u64
  | Fs_element fs_element_info | Fs_iterator fs_iterator_info

fun fs_answer :: "('r \<Rightarrow> fs_response) \<Rightarrow> ('w, 'r) rs_result \<Rightarrow> ('w, fs_response) rs_result" where
  "fs_answer k (sw, Inl e) = (sw, Inl e)"
| "fs_answer k (sw, Inr x) = (sw, Inr (k x))"

fun rs_call :: "'w filesystem \<Rightarrow> fs_request \<Rightarrow> remote_fs \<times> 'w \<Rightarrow> ('w, fs_response) rs_result" where
  "rs_call fs (Fs_close hdl) sw = fs_answer Fs_handle (rs_close hdl sw)"
| "rs_call fs (Fs_open r) sw = fs_answer (\<lambda>(h, p). Fs_handle_path h p) (rs_open fs r sw)"
| "rs_call fs (Fs_cd r) sw = fs_answer (\<lambda>_. Fs_done) (rs_cd fs r sw)"
| "rs_call fs (Fs_pwd r) sw = fs_answer Fs_path (rs_pwd fs r sw)"
| "rs_call fs (Fs_exists r) sw = fs_answer Fs_flag (rs_exists fs r sw)"
| "rs_call fs (Fs_file_size r) sw = fs_answer Fs_size (rs_file_size fs r sw)"
| "rs_call fs (Fs_info r) sw = fs_answer Fs_element (rs_info fs r sw)"
| "rs_call fs (Fs_mkdir r) sw = fs_answer (\<lambda>h. Fs_handle (Some h)) (rs_mkdir fs r sw)"
| "rs_call fs (Fs_del r) sw = fs_answer (\<lambda>h. Fs_handle (Some h)) (rs_del fs r sw)"
| "rs_call fs (Fs_iter_begin r) sw = fs_answer Fs_iterator (rs_iter_begin fs r sw)"
| "rs_call fs (Fs_iter_next hdl) sw = fs_answer Fs_iterator (rs_iter_next hdl sw)"
| "rs_call fs (Fs_iter_info hdl) sw = fs_answer Fs_element (rs_iter_info fs hdl sw)"
| "rs_call fs (Fs_iter_clone hdl) sw = fs_answer Fs_iterator (rs_iter_clone hdl sw)"

subsection \<open>The client's listing\<close>

text \<open>The loop of \<open>list_dir\<close>: the entries with what is known of them. Asking for the same information again, as the loop
  does for its output, changes nothing.\<close>

partial_function (option) list_loop ::
    "'w filesystem \<Rightarrow> fs_iterator_info \<Rightarrow> (string \<times> fs_element_info) list \<Rightarrow> remote_fs \<times> 'w \<Rightarrow>
     ('w, (string \<times> fs_element_info) list) rs_result option" where
  "list_loop fs i out sw =
     (if ii_end i then Some (sw, Inr out)
      else
        (case rs_iter_info fs (ii_handle i) sw of
           (sw, Inl e) \<Rightarrow> Some (sw, Inl e)
         | (sw, Inr info) \<Rightarrow>
             (case rs_iter_next (ii_handle i) sw of
                (sw, Inl e) \<Rightarrow> Some (sw, Inl e)
              | (sw, Inr j) \<Rightarrow> list_loop fs j (out @ [(ii_path i, info)]) sw)))"

text \<open>The iterator object closes its handle when it goes.\<close>

definition list_dir ::
    "'w filesystem \<Rightarrow> fs_handle_path \<Rightarrow> remote_fs \<times> 'w \<Rightarrow> ('w, (string \<times> fs_element_info) list) rs_result option" where
  "list_dir fs request sw =
     (case rs_iter_begin fs request sw of
        (sw, Inl e) \<Rightarrow> Some (sw, Inl e)
      | (sw, Inr i) \<Rightarrow>
          map_option (\<lambda>(sw, r). (fst (rs_close (ii_handle i) sw), r)) (list_loop fs i [] sw))"

definition count_dirs :: "(string \<times> fs_element_info) list \<Rightarrow> nat \<times> nat" where
  "count_dirs out =
     (length (filter (\<lambda>(p, i). ei_is_directory i) out), length (filter (\<lambda>(p, i). \<not> ei_is_directory i) out))"

subsection \<open>Listing a directory\<close>

lemma list_loop_entries:
  assumes "rs_iterators s k = Some (Some d)" and "d < length (rs_dirs s)" and "rs_dirs s ! d = e # es"
    and "\<forall>x \<in> set (e # es). fill_info fs x w = Inr (about x)"
  shows "\<exists>s'. list_loop fs \<lparr> ii_handle = k, ii_path = e, ii_end = False \<rparr> out (s, w)
      = Some ((s', w), Inr (out @ map (\<lambda>x. (x, about x)) (e # es)))
    \<and> rs_inst s' = rs_inst s \<and> rs_iterators s' = (rs_iterators s)(k \<mapsto> None) \<and> rs_handle_index s' = rs_handle_index s"
  using assms
proof (induction es arbitrary: e s out)
  case Nil
  let ?s = "s\<lparr> rs_dirs := (rs_dirs s)[d := []], rs_iterators := (rs_iterators s)(k \<mapsto> None) \<rparr>"
  have "rs_iter_info fs k (s, w) = ((s, w), Inr (about e))"
    using Nil by (simp add: rs_iter_info_def iter_from_request_def iter_deref_def)
  moreover have "rs_iter_next k (s, w) = ((?s, w), Inr \<lparr> ii_handle = k, ii_path = [], ii_end = True \<rparr>)"
    using Nil by (simp add: rs_iter_next_def iter_from_request_def iter_incr_def fill_iter_info_def)
  moreover have "list_loop fs \<lparr> ii_handle = k, ii_path = [], ii_end = True \<rparr> (out @ [(e, about e)]) (?s, w)
      = Some ((?s, w), Inr (out @ [(e, about e)]))" by (subst list_loop.simps) simp
  ultimately show ?case by (subst list_loop.simps) simp
next
  case (Cons e' es)
  let ?s = "s\<lparr> rs_dirs := (rs_dirs s)[d := e' # es] \<rparr>"
  have same: "(rs_iterators s)(k \<mapsto> Some d) = rs_iterators s" using Cons.prems(1) by (rule fun_upd_idem)
  have "rs_iter_info fs k (s, w) = ((s, w), Inr (about e))"
    using Cons.prems by (simp add: rs_iter_info_def iter_from_request_def iter_deref_def)
  moreover have "rs_iter_next k (s, w) = ((?s, w), Inr \<lparr> ii_handle = k, ii_path = e', ii_end = False \<rparr>)"
    using Cons.prems same by (simp add: rs_iter_next_def iter_from_request_def iter_incr_def fill_iter_info_def iter_deref_def)
  ultimately have "list_loop fs \<lparr> ii_handle = k, ii_path = e, ii_end = False \<rparr> out (s, w)
      = list_loop fs \<lparr> ii_handle = k, ii_path = e', ii_end = False \<rparr> (out @ [(e, about e)]) (?s, w)"
    by (subst list_loop.simps) simp
  with Cons.IH [of ?s e' "out @ [(e, about e)]"] Cons.prems show ?case by simp
qed

text \<open>A file system with one directory of two files, for the examples.\<close>

definition two_files :: "unit filesystem" where
  "two_files =
     \<lparr> bf_is_absolute = (\<lambda>p. p \<noteq> [] \<and> hd p = CHR ''/''), bf_normalize = (\<lambda>p. p), bf_append = (\<lambda>p q. p @ ''/'' @ q),
       bf_exists = (\<lambda>_ _. Inr True), bf_is_directory = (\<lambda>_ _. Inr False), bf_is_symlink = (\<lambda>_ _. Inr False),
       bf_is_empty = (\<lambda>_ _. Inr False), bf_is_regular_file = (\<lambda>_ _. Inr True), bf_file_size = (\<lambda>_ _. Inr 0),
       bf_create_directories = (\<lambda>_ w. (w, Inr ())), bf_remove = (\<lambda>_ w. (w, Inr ())),
       bf_entries = (\<lambda>_ _. Inr [''a'', ''b'']) \<rparr>"

definition plain_file :: fs_element_info where
  "plain_file = \<lparr> ei_is_exist = True, ei_is_directory = False, ei_is_empty = True, ei_is_regular = True, ei_is_symlink = False \<rparr>"

text \<open>
  Listing a directory over the service ends and returns every entry exactly once, in the order of the directory and
  each with its own information; the iterator is closed afterwards and the tables are what they were.
\<close>

theorem list_dir_lists:
  assumes "path_from_request fs request s = (s1, Inr (hdl, p))" and "bf_entries fs p w = Inr es"
    and "\<forall>x \<in> set es. fill_info fs x w = Inr (about x)"
    and "rs_inst s1 (rs_handle_index s1 + 1) = None" and "rs_iterators s1 (rs_handle_index s1 + 1) = None"
  shows "\<exists>s'. list_dir fs request (s, w) = Some ((s', w), Inr (map (\<lambda>x. (x, about x)) es))
           \<and> rs_inst s' = rs_inst s1 \<and> rs_iterators s' = rs_iterators s1 \<and> rs_handle_index s' = rs_handle_index s1 + 1"
proof -
  define k where "k = rs_handle_index s1 + 1"
  have none: "(rs_iterators s1)(k := None) = rs_iterators s1" using assms(5) by (simp add: k_def fun_upd_idem)
  show ?thesis
  proof (cases es)
    case Nil
    let ?s = "s1\<lparr> rs_handle_index := k, rs_iterators := (rs_iterators s1)(k \<mapsto> None) \<rparr>"
    have "rs_iter_begin fs request (s, w) = ((?s, w), Inr \<lparr> ii_handle = k, ii_path = [], ii_end = True \<rparr>)"
      using assms Nil
      by (simp add: rs_iter_begin_def with_path_def directory_iterator_def rs_next_index_def iter_insert_def fill_iter_info_def k_def Let_def)
    moreover have "list_loop fs \<lparr> ii_handle = k, ii_path = [], ii_end = True \<rparr> [] (?s, w) = Some ((?s, w), Inr [])"
      by (subst list_loop.simps) simp
    moreover have "fst (rs_close k (?s, w)) = (s1\<lparr> rs_handle_index := k, rs_iterators := rs_iterators s1 \<rparr>, w)"
      using assms(4) none by (simp add: rs_close_def k_def)
    ultimately show ?thesis using Nil by (simp add: list_dir_def k_def)
  next
    case (Cons e rest)
    define s2 where "s2 = s1\<lparr> rs_dirs := rs_dirs s1 @ [es], rs_handle_index := k,
      rs_iterators := (rs_iterators s1)(k \<mapsto> Some (length (rs_dirs s1))) \<rparr>"
    have b: "rs_iter_begin fs request (s, w) = ((s2, w), Inr \<lparr> ii_handle = k, ii_path = e, ii_end = False \<rparr>)"
      using assms Cons
      by (simp add: rs_iter_begin_def with_path_def directory_iterator_def rs_next_index_def iter_insert_def fill_iter_info_def
          iter_deref_def k_def s2_def Let_def)
    obtain s3 where s3: "list_loop fs \<lparr> ii_handle = k, ii_path = e, ii_end = False \<rparr> [] (s2, w)
        = Some ((s3, w), Inr (map (\<lambda>x. (x, about x)) es))"
      "rs_inst s3 = rs_inst s1" "rs_iterators s3 = (rs_iterators s1)(k \<mapsto> None)" "rs_handle_index s3 = k"
      using list_loop_entries [of s2 k "length (rs_dirs s1)" e rest fs w about "[]"] assms(3) Cons by (auto simp: s2_def)
    have "fst (rs_close k (s3, w)) = (s3\<lparr> rs_iterators := rs_iterators s1 \<rparr>, w)"
      using assms(4) none s3(2,3) by (simp add: rs_close_def k_def)
    with b s3 show ?thesis by (simp add: list_dir_def k_def)
  qed
qed

theorem list_dir_lists_witness:
  "\<exists>s'. list_dir two_files (None, ''/d'') (rs_new, ()) = Some ((s', ()), Inr (map (\<lambda>x. (x, plain_file)) [''a'', ''b'']))
     \<and> rs_inst s' = Map.empty \<and> rs_iterators s' = Map.empty \<and> rs_handle_index s' = 102"
  using list_dir_lists [of two_files "(None, ''/d'')" rs_new "rs_new\<lparr> rs_handle_index := 101 \<rparr>" 101 "''/d''" "()" "[''a'', ''b'']" "\<lambda>_. plain_file"]
  by (simp add: two_files_def plain_file_def rs_new_def path_from_request_def rs_next_index_def fill_info_def)

subsection \<open>The path of a handle\<close>

text \<open>The paths of the \<open>cd\<close> requests for a handle.\<close>

fun cd_path :: "u32 \<Rightarrow> fs_request \<Rightarrow> string list" where
  "cd_path h (Fs_cd (hdl, q)) = (if (case hdl of None \<Rightarrow> 0 | Some x \<Rightarrow> x) = h then [q] else [])"
| "cd_path h _ = []"

definition cds :: "u32 \<Rightarrow> fs_request list \<Rightarrow> string list" where
  "cds h reqs = concat (map (cd_path h) reqs)"

lemma fs_answer_state [simp]: "fst (fs_answer k r) = fst r"
  by (cases r; cases "snd r") auto

lemma path_from_request_inst [simp]: "rs_inst (fst (path_from_request fs r s)) = rs_inst s"
  by (simp add: path_from_request_def rs_next_index_def Let_def split: option.splits)

lemma with_path_inst:
  assumes "\<And>hdl p s' w'. rs_inst (fst (fst (op hdl p (s', w')))) = rs_inst s'"
  shows "rs_inst (fst (fst (with_path fs r op (s, w)))) = rs_inst s"
  using path_from_request_inst [of fs r s]
  by (cases "path_from_request fs r s") (auto simp: with_path_def assms split: sum.splits)

lemma iter_insert_inst [simp]: "rs_inst (iter_insert h it s) = rs_inst s"
  by (simp add: iter_insert_def)

lemma rs_call_inst:
  assumes "rs_inst s h = Some p" and "req \<noteq> Fs_close h"
  shows "rs_inst (fst (fst (rs_call fs req (s, w)))) h
    = Some (foldl (\<lambda>p q. bf_normalize fs (bf_append fs p q)) p (cd_path h req))"
proof (cases req)
  case (Fs_open r)
  obtain s' x where pr: "path_from_request fs r s = (s', x)" by fastforce
  then have "rs_inst s' = rs_inst s" using path_from_request_inst [of fs r s] by simp
  with Fs_open pr assms(1) show ?thesis by (auto simp: rs_open_def with_path_def split: sum.splits)
next
  case (Fs_cd r)
  then show ?thesis using assms(1) by (cases r) (auto simp: rs_cd_def Let_def split: option.splits)
next
  case (Fs_close hdl)
  then show ?thesis using assms by (auto simp: rs_close_def)
next
  case (Fs_iter_begin r)
  have "rs_inst (fst (fst (rs_iter_begin fs r (s, w)))) = rs_inst s"
    unfolding rs_iter_begin_def
    by (rule with_path_inst) (auto simp: directory_iterator_def rs_next_index_def Let_def split: sum.splits)
  with Fs_iter_begin assms(1) show ?thesis by simp
next
  case (Fs_iter_next hdl)
  have "rs_inst (fst (fst (rs_iter_next hdl (s, w)))) = rs_inst s"
    by (auto simp: rs_iter_next_def iter_incr_def Let_def split: sum.splits option.splits prod.splits if_splits)
  with Fs_iter_next assms(1) show ?thesis by simp
next
  case (Fs_iter_clone hdl)
  have "rs_inst (fst (fst (rs_iter_clone hdl (s, w)))) = rs_inst s"
    by (auto simp: rs_iter_clone_def rs_next_index_def split: sum.splits prod.splits)
  with Fs_iter_clone assms(1) show ?thesis by simp
qed (use assms(1) in \<open>simp_all add: rs_pwd_def rs_exists_def rs_file_size_def rs_info_def rs_mkdir_def rs_del_def rs_iter_info_def
       with_path_inst split_beta\<close>)

text \<open>
  The path of a handle is decided by its own history: through any calls of a connection, whatever else they open, list, make
  or delete, a handle that is not closed has the path it was opened with, changed by the \<open>cd\<close> requests for it in
  their order, and \<open>pwd\<close> reports that path.
\<close>

theorem fs_path_history:
  assumes "rs_inst s h = Some p" and "Fs_close h \<notin> set reqs" and "\<not> bf_is_absolute fs q"
    and "cur = foldl (\<lambda>p q. bf_normalize fs (bf_append fs p q)) p (cds h reqs)"
  shows "rs_inst (fst (fst (run_calls (rs_call fs) reqs (s, w)))) h = Some cur
    \<and> snd (rs_call fs (Fs_pwd (Some h, q)) (fst (run_calls (rs_call fs) reqs (s, w))))
      = Inr (Fs_path (bf_normalize fs (bf_append fs cur q)))"
proof -
  have i: "rs_inst (fst (fst (run_calls (rs_call fs) reqs (s, w)))) h = Some cur"
    unfolding assms(4) using assms(1,2)
  proof (induction reqs arbitrary: s w p)
    case (Cons req reqs)
    obtain s' w' r where c: "rs_call fs req (s, w) = ((s', w'), r)" by (metis surj_pair)
    have "rs_inst s' h = Some (foldl (\<lambda>p q. bf_normalize fs (bf_append fs p q)) p (cd_path h req))"
      using rs_call_inst [OF Cons.prems(1), of req fs w] Cons.prems(2) c by auto
    from Cons.IH [OF this, of w'] Cons.prems(2) c show ?case by (simp add: cds_def split_beta)
  qed (simp add: cds_def)
  obtain t w' where t: "fst (run_calls (rs_call fs) reqs (s, w)) = (t, w')" by fastforce
  have "rs_pwd fs (Some h, q) (t, w') = ((t, w'), Inr (bf_normalize fs (bf_append fs cur q)))"
    using i t assms(3) by (simp add: rs_pwd_def with_path_def path_from_request_def Let_def)
  with i t show ?thesis by simp
qed

theorem fs_path_history_witness:
  "rs_inst (fst (fst (run_calls (rs_call two_files) [Fs_cd (Some 101, ''x''), Fs_mkdir (None, ''/y''), Fs_cd (Some 101, ''z'')]
      (rs_new\<lparr> rs_inst := [101 \<mapsto> ''/d''] \<rparr>, ())))) 101 = Some ''/d/x/z''
   \<and> snd (rs_call two_files (Fs_pwd (Some 101, ''q''))
        (fst (run_calls (rs_call two_files) [Fs_cd (Some 101, ''x''), Fs_mkdir (None, ''/y''), Fs_cd (Some 101, ''z'')]
          (rs_new\<lparr> rs_inst := [101 \<mapsto> ''/d''] \<rparr>, ()))))
      = Inr (Fs_path (bf_normalize two_files (bf_append two_files ''/d/x/z'' ''q'')))"
  by (rule fs_path_history [of _ 101 "''/d''"]) (simp_all add: two_files_def cds_def)

subsection \<open>Deviations\<close>

text \<open>A clone is stored under a new handle, but the answer carries the old one; and what is stored shares the directory
  with the original.\<close>

lemma clone_returns_original:
  assumes "rs_iterators s hdl = Some (Some d)" and "d < length (rs_dirs s)" and "rs_dirs s ! d = e # es"
    and "rs_iterators s (rs_handle_index s + 1) = None"
  shows "rs_iter_clone hdl (s, w)
    = ((s\<lparr> rs_handle_index := rs_handle_index s + 1, rs_iterators := (rs_iterators s)(rs_handle_index s + 1 \<mapsto> Some d) \<rparr>, w),
       Inr \<lparr> ii_handle = hdl, ii_path = e, ii_end = False \<rparr>)"
  using assms by (simp add: rs_iter_clone_def iter_from_request_def rs_next_index_def fill_iter_info_def iter_deref_def iter_insert_def)

text \<open>Opening relative to a handle answers with the new path, but the handle keeps the old one.\<close>

lemma open_keeps_old_path:
  assumes "rs_inst s h = Some p" and "\<not> bf_is_absolute fs q"
  shows "rs_open fs (Some h, q) (s, w) = ((s, w), Inr (h, bf_normalize fs (bf_append fs p q)))"
  using assms by (simp add: rs_open_def with_path_def path_from_request_def Let_def)

text \<open>Making a directory without a handle answers with a number that denotes nothing.\<close>

lemma mkdir_handle_dangles:
  assumes "bf_create_directories fs (bf_normalize fs q) w = (w', Inr ())" and "rs_inst s (rs_handle_index s + 1) = None"
  shows "\<exists>s'. rs_mkdir fs (None, q) (s, w) = ((s', w'), Inr (rs_handle_index s + 1)) \<and> rs_inst s' (rs_handle_index s + 1) = None"
  using assms by (simp add: rs_mkdir_def with_path_def path_from_request_def rs_next_index_def)

text \<open>Advancing an iterator that is at the end has no meaning.\<close>

lemma next_past_the_end: "rs_iterators s hdl = Some None \<Longrightarrow> snd (rs_iter_next hdl (s, w)) = Inl Undefined"
  by (simp add: rs_iter_next_def iter_from_request_def iter_incr_def)

end
