(* ===== verification/Remote_Client.thy ===== *)
theory Remote_Client
  imports Remote_Fs Protocol_Layer
begin

text \<open>
  The objects a client of \<open>examples/remote-fs\<close> works with (\<open>client/rfs-impl.cpp\<close>): \<open>remote_fs_impl\<close>, which opens a
  path on the server when it is made and closes it when it goes, the directory iterators it returns, and
  \<open>remote_file_impl\<close>. Each operation is one call of the service, whose exceptions reach the client as \<open>carried\<close>.
  An object here is what it keeps on the side of the client; the state that is passed on is that of the service.
\<close>

subsection \<open>Directory iterators\<close>

record fs_info =
  fi_path :: string
  fi_is_exist :: bool
  fi_is_directory :: bool
  fi_is_empty :: bool
  fi_is_regular :: bool
  fi_is_symlink :: bool

definition client_fill_info :: "fs_element_info \<Rightarrow> string \<Rightarrow> fs_info" where
  "client_fill_info info path =
     \<lparr> fi_path = path, fi_is_exist = ei_is_exist info, fi_is_directory = ei_is_directory info, fi_is_empty = ei_is_empty info,
       fi_is_regular = ei_is_regular info, fi_is_symlink = ei_is_symlink info \<rparr>"

definition client_fill_info_only :: "fs_element_info \<Rightarrow> fs_info" where
  "client_fill_info_only info = client_fill_info info []"

text \<open>\<open>info_\<close> is not initialised by the constructor.\<close>

record fs_iterator =
  it_iter :: fs_iterator_info
  it_info :: "fs_info option"
  it_has_info :: bool

definition fs_iterator_new :: "fs_iterator_info \<Rightarrow> fs_iterator" where
  "fs_iterator_new iter = \<lparr> it_iter = iter, it_info = None, it_has_info = False \<rparr>"

text \<open>The destructor swallows what the call raises.\<close>

definition fs_iterator_delete :: "fs_iterator \<Rightarrow> remote_fs \<times> 'w \<Rightarrow> remote_fs \<times> 'w" where
  "fs_iterator_delete it sw = fst (rs_close (ii_handle (it_iter it)) sw)"

definition fs_iterator_info_of ::
    "'w filesystem \<Rightarrow> fs_iterator \<Rightarrow> remote_fs \<times> 'w \<Rightarrow> (remote_fs \<times> 'w) \<times> (exn + fs_iterator \<times> fs_info option)" where
  "fs_iterator_info_of fs it sw =
     (if \<not> it_has_info it then
        (case remote (rs_iter_info fs (ii_handle (it_iter it)) sw) of
           (sw, Inl e) \<Rightarrow> (sw, Inl e)
         | (sw, Inr ei) \<Rightarrow>
             (let it = it\<lparr> it_info := Some (client_fill_info ei (ii_path (it_iter it))) \<rparr>
              in (sw, Inr (it, it_info it))))
      else (sw, Inr (it, it_info it)))"

definition fs_iterator_next :: "fs_iterator \<Rightarrow> remote_fs \<times> 'w \<Rightarrow> (remote_fs \<times> 'w) \<times> (exn + fs_iterator)" where
  "fs_iterator_next it sw =
     (case remote (rs_iter_next (ii_handle (it_iter it)) sw) of
        (sw, Inl e) \<Rightarrow> (sw, Inl e)
      | (sw, Inr ri) \<Rightarrow> (sw, Inr (it\<lparr> it_iter := ri \<rparr>)))"

definition fs_iterator_end :: "fs_iterator \<Rightarrow> bool" where
  "fs_iterator_end it = ii_end (it_iter it)"

definition fs_iterator_clone :: "fs_iterator \<Rightarrow> remote_fs \<times> 'w \<Rightarrow> (remote_fs \<times> 'w) \<times> (exn + fs_iterator)" where
  "fs_iterator_clone it sw =
     (case remote (rs_iter_clone (ii_handle (it_iter it)) sw) of
        (sw, Inl e) \<Rightarrow> (sw, Inl e)
      | (sw, Inr ri) \<Rightarrow> (sw, Inr (fs_iterator_new ri)))"

subsection \<open>Files\<close>

record file_object =
  fo_path :: string
  fo_fhdl :: u32

definition file_object_open ::
    "('f, 'w) stdio \<Rightarrow> string \<Rightarrow> string \<Rightarrow> 'f remote_file \<times> 'w \<Rightarrow> ('f remote_file \<times> 'w) \<times> (exn + file_object)" where
  "file_object_open io p mode sw =
     (case remote (rf_open io p mode sw) of
        (sw, Inl e) \<Rightarrow> (sw, Inl e)
      | (sw, Inr h) \<Rightarrow> (sw, Inr \<lparr> fo_path = p, fo_fhdl = h \<rparr>))"

text \<open>\<open>close\<close> and the destructor.\<close>

definition file_object_close :: "('f, 'w) stdio \<Rightarrow> file_object \<Rightarrow> 'f remote_file \<times> 'w \<Rightarrow> 'f remote_file \<times> 'w" where
  "file_object_close io f sw = client_close io (fo_fhdl f) sw"

definition file_object_tell :: "('f, 'w) stdio \<Rightarrow> file_object \<Rightarrow> 'f remote_file \<times> 'w \<Rightarrow> ('f remote_file \<times> 'w) \<times> (exn + u64)" where
  "file_object_tell io f sw = remote (rf_tell io (fo_fhdl f) sw)"

text \<open>The position of the request is signed.\<close>

definition file_object_seek ::
    "('f, 'w) stdio \<Rightarrow> file_object \<Rightarrow> u64 \<Rightarrow> u32 \<Rightarrow> 'f remote_file \<times> 'w \<Rightarrow> ('f remote_file \<times> 'w) \<times> (exn + u64)" where
  "file_object_seek io f position whence sw = remote (rf_seek io (fo_fhdl f) (sint position) whence sw)"

definition POS_SEEK_SET :: u32 where "POS_SEEK_SET = 0"
definition POS_SEEK_END :: u32 where "POS_SEEK_END = 2"

definition file_object_seek_begin ::
    "('f, 'w) stdio \<Rightarrow> file_object \<Rightarrow> u64 \<Rightarrow> 'f remote_file \<times> 'w \<Rightarrow> ('f remote_file \<times> 'w) \<times> (exn + u64)" where
  "file_object_seek_begin io f pos sw = file_object_seek io f pos POS_SEEK_SET sw"

definition file_object_seek_end ::
    "('f, 'w) stdio \<Rightarrow> file_object \<Rightarrow> u64 \<Rightarrow> 'f remote_file \<times> 'w \<Rightarrow> ('f remote_file \<times> 'w) \<times> (exn + u64)" where
  "file_object_seek_end io f pos sw = file_object_seek io f pos POS_SEEK_END sw"

definition file_object_flush :: "('f, 'w) stdio \<Rightarrow> file_object \<Rightarrow> 'f remote_file \<times> 'w \<Rightarrow> ('f remote_file \<times> 'w) \<times> (exn + unit)" where
  "file_object_flush io f sw = remote (rf_flush io (fo_fhdl f) sw)"

subsection \<open>The remote file system\<close>

record fs_object =
  ro_handle :: u32

definition fs_object_new ::
    "'w filesystem \<Rightarrow> string \<Rightarrow> remote_fs \<times> 'w \<Rightarrow> (remote_fs \<times> 'w) \<times> (exn + fs_object)" where
  "fs_object_new fs path sw =
     (case remote (rs_open fs (None, path) sw) of
        (sw, Inl e) \<Rightarrow> (sw, Inl e)
      | (sw, Inr (h, p)) \<Rightarrow> (sw, Inr \<lparr> ro_handle = h \<rparr>))"

definition fs_object_delete :: "fs_object \<Rightarrow> remote_fs \<times> 'w \<Rightarrow> remote_fs \<times> 'w" where
  "fs_object_delete r sw = (if ro_handle r \<noteq> 0 then fst (rs_close (ro_handle r) sw) else sw)"

definition fs_object_cd :: "'w filesystem \<Rightarrow> fs_object \<Rightarrow> string \<Rightarrow> remote_fs \<times> 'w \<Rightarrow> ('w, unit) rs_result" where
  "fs_object_cd fs r new_path sw = remote (rs_cd fs (Some (ro_handle r), new_path) sw)"

definition fs_object_pwd :: "'w filesystem \<Rightarrow> fs_object \<Rightarrow> remote_fs \<times> 'w \<Rightarrow> ('w, string) rs_result" where
  "fs_object_pwd fs r sw = remote (rs_pwd fs (Some (ro_handle r), []) sw)"

definition fs_object_exists :: "'w filesystem \<Rightarrow> fs_object \<Rightarrow> string \<Rightarrow> remote_fs \<times> 'w \<Rightarrow> ('w, bool) rs_result" where
  "fs_object_exists fs r path sw = remote (rs_exists fs (Some (ro_handle r), path) sw)"

definition fs_object_info :: "'w filesystem \<Rightarrow> fs_object \<Rightarrow> string \<Rightarrow> remote_fs \<times> 'w \<Rightarrow> ('w, fs_info) rs_result" where
  "fs_object_info fs r path sw =
     (case remote (rs_info fs (Some (ro_handle r), path) sw) of
        (sw, Inl e) \<Rightarrow> (sw, Inl e)
      | (sw, Inr info) \<Rightarrow> (sw, Inr (client_fill_info_only info)))"

definition fs_object_file_size :: "'w filesystem \<Rightarrow> fs_object \<Rightarrow> string \<Rightarrow> remote_fs \<times> 'w \<Rightarrow> ('w, u64) rs_result" where
  "fs_object_file_size fs r path sw = remote (rs_file_size fs (Some (ro_handle r), path) sw)"

definition fs_object_mkdir :: "'w filesystem \<Rightarrow> fs_object \<Rightarrow> string \<Rightarrow> remote_fs \<times> 'w \<Rightarrow> ('w, u32) rs_result" where
  "fs_object_mkdir fs r path sw = remote (rs_mkdir fs (Some (ro_handle r), path) sw)"

definition fs_object_del :: "'w filesystem \<Rightarrow> fs_object \<Rightarrow> string \<Rightarrow> remote_fs \<times> 'w \<Rightarrow> ('w, u32) rs_result" where
  "fs_object_del fs r path sw = remote (rs_del fs (Some (ro_handle r), path) sw)"

definition fs_object_begin_iterator ::
    "'w filesystem \<Rightarrow> fs_object \<Rightarrow> string \<Rightarrow> remote_fs \<times> 'w \<Rightarrow> ('w, fs_iterator) rs_result" where
  "fs_object_begin_iterator fs r path sw =
     (case remote (rs_iter_begin fs (Some (ro_handle r), path) sw) of
        (sw, Inl e) \<Rightarrow> (sw, Inl e)
      | (sw, Inr ri) \<Rightarrow> (sw, Inr (fs_iterator_new ri)))"

subsection \<open>What an object leaves behind\<close>

text \<open>What a program does with a remote file system: an operation that raises ends nothing, the next one may follow.
  \<open>Use_walk path n\<close> begins to list a directory, looks at \<open>n\<close> entries at most, and lets the iterator go.\<close>

datatype fs_use =
    Use_cd string | Use_pwd | Use_exists string | Use_info string | Use_file_size string | Use_mkdir string | Use_del string
  | Use_walk string nat

fun walk :: "'w filesystem \<Rightarrow> nat \<Rightarrow> fs_iterator \<Rightarrow> remote_fs \<times> 'w \<Rightarrow> remote_fs \<times> 'w" where
  "walk fs 0 it sw = sw"
| "walk fs (Suc n) it sw =
     (if fs_iterator_end it then sw
      else
        (case fs_iterator_info_of fs it sw of
           (sw, Inl e) \<Rightarrow> sw
         | (sw, Inr (it, i)) \<Rightarrow>
             (case fs_iterator_next it sw of (sw, Inl e) \<Rightarrow> sw | (sw, Inr it) \<Rightarrow> walk fs n it sw)))"

fun fs_use_run :: "'w filesystem \<Rightarrow> fs_object \<Rightarrow> fs_use \<Rightarrow> remote_fs \<times> 'w \<Rightarrow> remote_fs \<times> 'w" where
  "fs_use_run fs r (Use_cd p) sw = fst (fs_object_cd fs r p sw)"
| "fs_use_run fs r Use_pwd sw = fst (fs_object_pwd fs r sw)"
| "fs_use_run fs r (Use_exists p) sw = fst (fs_object_exists fs r p sw)"
| "fs_use_run fs r (Use_info p) sw = fst (fs_object_info fs r p sw)"
| "fs_use_run fs r (Use_file_size p) sw = fst (fs_object_file_size fs r p sw)"
| "fs_use_run fs r (Use_mkdir p) sw = fst (fs_object_mkdir fs r p sw)"
| "fs_use_run fs r (Use_del p) sw = fst (fs_object_del fs r p sw)"
| "fs_use_run fs r (Use_walk p n) sw =
     (case fs_object_begin_iterator fs r p sw of
        (sw, Inl e) \<Rightarrow> sw
      | (sw, Inr it) \<Rightarrow> fs_iterator_delete it (walk fs n it sw))"

lemma remote_state [simp]: "fst (remote r) = fst r"
  by (auto simp: remote_def split: prod.splits sum.splits)

lemma remote_Inr: "remote r = (sw, Inr x) \<longleftrightarrow> r = (sw, Inr x)"
  by (auto simp: remote_def split: prod.splits sum.splits)

text \<open>\<open>plain_step s s'\<close>: at most a number was used up.\<close>

definition plain_step :: "remote_fs \<Rightarrow> remote_fs \<Rightarrow> bool" where
  "plain_step s s' \<longleftrightarrow> s' = s \<or> s' = s\<lparr> rs_handle_index := rs_handle_index s + 1 \<rparr>"

lemma path_from_request_plain: "path_from_request fs req s = (s', r) \<Longrightarrow> plain_step s s'"
  by (auto simp: path_from_request_def rs_next_index_def plain_step_def Let_def split: if_splits option.splits)

lemma with_path_plain:
  assumes "\<And>h p s w. fst (fst (op h p (s, w))) = s"
  shows "plain_step s (fst (fst (with_path fs req op (s, w))))"
proof -
  obtain s' r where pr: "path_from_request fs req s = (s', r)" by fastforce
  then have "fst (fst (with_path fs req op (s, w))) = s'" by (cases r) (auto simp: with_path_def assms)
  then show ?thesis using path_from_request_plain [OF pr] by simp
qed

lemma plain_ops:
  "plain_step s (fst (fst (fs_object_pwd fs r (s, w))))"
  "plain_step s (fst (fst (fs_object_exists fs r path (s, w))))"
  "plain_step s (fst (fst (fs_object_file_size fs r path (s, w))))"
  "plain_step s (fst (fst (fs_object_mkdir fs r path (s, w))))"
  "plain_step s (fst (fst (fs_object_del fs r path (s, w))))"
  by (simp_all add: fs_object_pwd_def rs_pwd_def fs_object_exists_def rs_exists_def fs_object_file_size_def rs_file_size_def
      fs_object_mkdir_def rs_mkdir_def fs_object_del_def rs_del_def with_path_plain split_beta)

lemma plain_info: "plain_step s (fst (fst (fs_object_info fs r path (s, w))))"
proof -
  have "fst (fs_object_info fs r path (s, w)) = fst (rs_info fs (Some (ro_handle r), path) (s, w))"
    by (cases "rs_info fs (Some (ro_handle r), path) (s, w)"; cases "snd (rs_info fs (Some (ro_handle r), path) (s, w))")
      (auto simp: fs_object_info_def remote_def)
  then show ?thesis by (simp add: rs_info_def with_path_plain)
qed

text \<open>An iterator only ever changes its own entry.\<close>

definition own_change :: "u32 \<Rightarrow> remote_fs \<Rightarrow> remote_fs \<Rightarrow> bool" where
  "own_change h s s' \<longleftrightarrow> rs_inst s' = rs_inst s \<and> rs_handle_index s' = rs_handle_index s
     \<and> (\<forall>k. k \<noteq> h \<longrightarrow> rs_iterators s' k = rs_iterators s k) \<and> rs_iterators s' h \<noteq> None"

lemma own_change_refl: "rs_iterators s h \<noteq> None \<Longrightarrow> own_change h s s"
  by (simp add: own_change_def)

lemma own_change_trans: "own_change h s t \<Longrightarrow> own_change h t u \<Longrightarrow> own_change h s u"
  by (simp add: own_change_def)

lemma own_change_drop:
  assumes "own_change h s s'" "rs_iterators t h = None" "\<And>k. k \<noteq> h \<Longrightarrow> rs_iterators s k = rs_iterators t k"
  shows "(rs_iterators s')(h := None) = rs_iterators t"
  using assms by (auto simp: own_change_def fun_eq_iff)

lemma fill_iter_handle: "fill_iter_info z h t = Inr i \<Longrightarrow> ii_handle i = h"
  by (cases "iter_deref z t") (auto simp: fill_iter_info_def split: if_splits)

lemma iter_next_own:
  assumes "rs_iter_next h (s, w) = ((s', w'), r)" and "rs_iterators s h \<noteq> None"
  shows "w' = w \<and> own_change h s s' \<and> (\<forall>i. r = Inr i \<longrightarrow> ii_handle i = h)"
proof -
  obtain x where x: "rs_iterators s h = Some x" using assms(2) by blast
  obtain s1 y where inc: "iter_incr x s = (s1, y)" by fastforce
  then have s1: "rs_inst s1 = rs_inst s" "rs_handle_index s1 = rs_handle_index s" "rs_iterators s1 = rs_iterators s"
    by (auto simp: iter_incr_def Let_def split: option.splits if_splits)
  show ?thesis
  proof (cases y)
    case (Inl e)
    then show ?thesis using assms x inc s1 by (auto simp: rs_iter_next_def iter_from_request_def own_change_def)
  next
    case (Inr z)
    then show ?thesis using assms x inc s1
      by (cases "fill_iter_info z h s1") (auto simp: rs_iter_next_def iter_from_request_def own_change_def dest: fill_iter_handle)
  qed
qed

lemma fs_iterator_next_own:
  assumes "fs_iterator_next it (s, w) = ((s', w'), r)" and "rs_iterators s (ii_handle (it_iter it)) \<noteq> None"
  shows "w' = w \<and> own_change (ii_handle (it_iter it)) s s'
    \<and> (\<forall>it'. r = Inr it' \<longrightarrow> ii_handle (it_iter it') = ii_handle (it_iter it) \<and> it_has_info it' = it_has_info it)"
proof -
  obtain s1 w1 q where n: "rs_iter_next (ii_handle (it_iter it)) (s, w) = ((s1, w1), q)" by (metis surj_pair)
  from iter_next_own [OF this assms(2)] show ?thesis
    using assms(1) n by (cases q) (auto simp: fs_iterator_next_def remote_def)
qed

lemma info_of_same:
  assumes "fs_iterator_info_of fs it (s, w) = (sw, r)" "\<not> it_has_info it"
  shows "sw = (s, w) \<and> (\<forall>it2 i. r = Inr (it2, i) \<longrightarrow> it_iter it2 = it_iter it \<and> \<not> it_has_info it2)"
proof -
  obtain q where q: "rs_iter_info fs (ii_handle (it_iter it)) (s, w) = ((s, w), q)" by (simp add: rs_iter_info_def)
  then show ?thesis using assms by (cases q) (auto simp: fs_iterator_info_of_def remote_def Let_def)
qed

lemma walk_own:
  assumes "rs_iterators s (ii_handle (it_iter it)) \<noteq> None" "\<not> it_has_info it"
  shows "\<exists>s'. walk fs n it (s, w) = (s', w) \<and> own_change (ii_handle (it_iter it)) s s'"
  using assms
proof (induction n arbitrary: it s)
  case 0
  then show ?case by (simp add: own_change_refl)
next
  case (Suc n)
  let ?h = "ii_handle (it_iter it)"
  obtain sw r where i: "fs_iterator_info_of fs it (s, w) = (sw, r)" by fastforce
  have sw: "sw = (s, w)" using info_of_same [OF i Suc.prems(2)] by simp
  show ?case
  proof (cases "fs_iterator_end it \<or> (\<exists>e. r = Inl e)")
    case True
    then show ?thesis using i sw own_change_refl [OF Suc.prems(1)] by auto
  next
    case False
    then obtain it2 j where r: "r = Inr (it2, j)" by (cases r) auto
    then have h2: "it_iter it2 = it_iter it" "\<not> it_has_info it2" using info_of_same [OF i Suc.prems(2)] by auto
    obtain s1 w1 q where nx: "fs_iterator_next it2 (s, w) = ((s1, w1), q)" by (metis surj_pair)
    have "rs_iterators s (ii_handle (it_iter it2)) \<noteq> None" using Suc.prems(1) h2 by simp
    note own = fs_iterator_next_own [OF nx this, unfolded h2(1)]
    show ?thesis
    proof (cases q)
      case (Inl e)
      then show ?thesis using False i r nx own sw by simp
    next
      case (Inr it3)
      have o: "own_change ?h s s1" "w1 = w" "ii_handle (it_iter it3) = ?h" "\<not> it_has_info it3" using own h2(2) Inr by auto
      then have "rs_iterators s1 (ii_handle (it_iter it3)) \<noteq> None" by (simp add: own_change_def)
      from Suc.IH [OF this o(4)] o(3) obtain s' where "walk fs n it3 (s1, w) = (s', w)" "own_change ?h s1 s'" by auto
      then show ?thesis using own_change_trans [OF o(1)] False i r nx Inr o(2) sw by simp
    qed
  qed
qed

text \<open>Every number in the tables has been given out.\<close>

definition numbered :: "remote_fs \<Rightarrow> bool" where
  "numbered s \<longleftrightarrow> (\<forall>h. rs_inst s h \<noteq> None \<or> rs_iterators s h \<noteq> None \<longrightarrow> h \<le> rs_handle_index s)"

lemma succ_less: "unat i + 1 < 2 ^ 32 \<Longrightarrow> (i :: u32) < i + 1" "unat i + 1 < 2 ^ 32 \<Longrightarrow> unat ((i :: u32) + 1) = unat i + 1"
proof -
  assume a: "unat i + 1 < 2 ^ 32"
  then show u: "unat (i + 1) = unat i + 1" by (simp add: unat_plus_if_size word_size)
  then show "i < i + 1" by (simp add: word_less_nat_alt)
qed

lemma plain_step_numbered:
  assumes "plain_step s s'" "numbered s" "unat (rs_handle_index s) + 1 < 2 ^ 32"
  shows "numbered s' \<and> rs_inst s' = rs_inst s \<and> rs_iterators s' = rs_iterators s \<and> unat (rs_handle_index s') \<le> unat (rs_handle_index s) + 1"
  using assms succ_less [OF assms(3)] by (force simp: plain_step_def numbered_def)

lemma begin_iterator_ok:
  assumes "fs_object_begin_iterator fs r path (s, w) = ((s', w'), Inr it)" "numbered s" "unat (rs_handle_index s) + 2 < 2 ^ 32"
  obtains k where "ii_handle (it_iter it) = k" "\<not> it_has_info it" "w' = w" "rs_handle_index s' = k" "rs_handle_index s < k"
    "unat k \<le> unat (rs_handle_index s) + 2" "rs_inst s k = None" "rs_iterators s k = None" "rs_inst s' = rs_inst s"
    "rs_iterators s' k \<noteq> None" "\<And>j. j \<noteq> k \<Longrightarrow> rs_iterators s' j = rs_iterators s j"
proof -
  obtain s1 q where pr: "path_from_request fs (Some (ro_handle r), path) s = (s1, q)" by fastforce
  have a: "unat (rs_handle_index s) + 1 < 2 ^ 32" using assms(3) by simp
  note s1 = plain_step_numbered [OF path_from_request_plain [OF pr] assms(2) a]
  have i1: "unat (rs_handle_index s1) + 1 < 2 ^ 32" using s1 assms(3) by simp
  define k where "k = rs_handle_index s1 + 1"
  have le: "rs_handle_index s \<le> rs_handle_index s1"
    using path_from_request_plain [OF pr] succ_less(1) [OF a] by (auto simp: plain_step_def)
  have k: "rs_handle_index s1 < k" "unat k = unat (rs_handle_index s1) + 1" using succ_less [OF i1] by (simp_all add: k_def)
  have free: "rs_inst s1 k = None" "rs_iterators s1 k = None"
    using s1 k(1) unfolding numbered_def by (meson leD)+
  obtain h p where q: "q = Inr (h, p)" using assms(1) pr
    by (cases q) (auto simp: fs_object_begin_iterator_def rs_iter_begin_def with_path_def remote_def)
  obtain es where es: "bf_entries fs p w = Inr es" using assms(1) pr q
    by (cases "bf_entries fs p w") (auto simp: fs_object_begin_iterator_def rs_iter_begin_def with_path_def remote_def)
  have "ii_handle (it_iter it) = k" "\<not> it_has_info it" "w' = w" "rs_handle_index s' = k" "rs_inst s' = rs_inst s1"
      "rs_iterators s' k \<noteq> None" "\<And>j. j \<noteq> k \<Longrightarrow> rs_iterators s' j = rs_iterators s1 j"
    using assms(1) pr q es free
    by (auto simp: fs_object_begin_iterator_def rs_iter_begin_def with_path_def directory_iterator_def rs_next_index_def
        iter_insert_def fill_iter_info_def iter_deref_def remote_def fs_iterator_new_def Let_def simp flip: k_def split: if_splits)
  then show thesis using that [of k] s1 free k le by auto
qed

lemma begin_iterator_raises:
  assumes "fs_object_begin_iterator fs r path (s, w) = ((s', w'), Inl e)"
  shows "plain_step s s'"
proof -
  obtain s1 q where pr: "path_from_request fs (Some (ro_handle r), path) s = (s1, q)" by fastforce
  have "s' = s1"
  proof (cases q)
    case (Inl x)
    then show ?thesis using assms pr by (auto simp: fs_object_begin_iterator_def rs_iter_begin_def with_path_def remote_def)
  next
    case (Inr hp)
    obtain h p where hp: "hp = (h, p)" by fastforce
    show ?thesis using assms pr Inr hp
      by (cases "bf_entries fs p w") (auto simp: fs_object_begin_iterator_def rs_iter_begin_def with_path_def directory_iterator_def
          rs_next_index_def iter_insert_def fill_iter_info_def iter_deref_def remote_def Let_def nth_append split: if_splits)
  qed
  then show ?thesis using path_from_request_plain [OF pr] by simp
qed

lemma walk_use_plain:
  assumes "numbered s" "unat (rs_handle_index s) + 2 < 2 ^ 32" "fs_use_run fs r (Use_walk path n) (s, w) = (s', w')"
  shows "numbered s' \<and> rs_inst s' = rs_inst s \<and> rs_iterators s' = rs_iterators s \<and> unat (rs_handle_index s') \<le> unat (rs_handle_index s) + 2"
proof -
  obtain s1 w1 q where b: "fs_object_begin_iterator fs r path (s, w) = ((s1, w1), q)" by (metis surj_pair)
  have a: "unat (rs_handle_index s) + 1 < 2 ^ 32" using assms(2) by simp
  show ?thesis
  proof (cases q)
    case (Inl e)
    have "plain_step s s1" by (rule begin_iterator_raises [OF b [unfolded Inl]])
    from plain_step_numbered [OF this assms(1) a] Inl b assms(3) show ?thesis by auto
  next
    case (Inr it)
    obtain k where k: "ii_handle (it_iter it) = k" "\<not> it_has_info it" "rs_handle_index s1 = k" "rs_handle_index s < k"
        "unat k \<le> unat (rs_handle_index s) + 2" "rs_inst s k = None" "rs_iterators s k = None" "rs_inst s1 = rs_inst s"
        "rs_iterators s1 k \<noteq> None" "\<And>j. j \<noteq> k \<Longrightarrow> rs_iterators s1 j = rs_iterators s j"
      using begin_iterator_ok [OF b [unfolded Inr] assms(1,2)] by metis
    have "rs_iterators s1 (ii_handle (it_iter it)) \<noteq> None" using k(1,9) by simp
    from walk_own [OF this k(2), of fs n w1] obtain s2 where s2: "walk fs n it (s1, w1) = (s2, w1)" "own_change k s1 s2"
      unfolding k(1) by blast
    have "rs_inst s2 k = None" "rs_iterators s2 k \<noteq> None" using s2(2) k(6,8) by (simp_all add: own_change_def)
    then have "s' = s2\<lparr> rs_iterators := rs_iterators s \<rparr>"
      using assms(3) b Inr s2(1) k(1) own_change_drop [OF s2(2) k(7,10)] by (auto simp: fs_iterator_delete_def rs_close_def)
    moreover have "rs_inst s2 = rs_inst s" "rs_handle_index s2 = k" using s2(2) k(3,8) by (simp_all add: own_change_def)
    moreover have "numbered s'" unfolding numbered_def
      using calculation assms(1) k(4) by (auto simp: numbered_def intro: order_trans [of _ "rs_handle_index s" k])
    ultimately show ?thesis using k(5) by simp
  qed
qed

text \<open>Every use but \<open>cd\<close> leaves the tables alone; \<open>cd\<close> changes the path of the object's own number.\<close>

lemma use_tables:
  assumes "numbered s" "unat (rs_handle_index s) + 2 < 2 ^ 32" "rs_inst s (ro_handle r) \<noteq> None"
    and "fs_use_run fs r u (s, w) = (s', w')"
  shows "numbered s' \<and> (\<exists>p. rs_inst s' = (rs_inst s)(ro_handle r \<mapsto> p)) \<and> rs_iterators s' = rs_iterators s
    \<and> unat (rs_handle_index s') \<le> unat (rs_handle_index s) + 2"
proof -
  obtain p where p: "rs_inst s (ro_handle r) = Some p" using assms(3) by blast
  have same: "\<exists>p. rs_inst t = (rs_inst s)(ro_handle r \<mapsto> p)" if "rs_inst t = rs_inst s" for t
    using that p by (intro exI [of _ p]) (simp add: fun_upd_idem)
  have a: "unat (rs_handle_index s) + 1 < 2 ^ 32" using assms(2) by simp
  have plain: ?thesis if "plain_step s (fst (fs_use_run fs r u (s, w)))"
    using plain_step_numbered [OF that assms(1) a] same [of s'] assms(4) by simp
  show ?thesis
  proof (cases u)
    case (Use_cd q)
    let ?p = "bf_normalize fs (bf_append fs p q)"
    have "s' = s\<lparr> rs_inst := (rs_inst s)(ro_handle r \<mapsto> ?p) \<rparr>"
      using assms(4) Use_cd p by (auto simp: fs_object_cd_def rs_cd_def Let_def)
    moreover have "numbered (s\<lparr> rs_inst := (rs_inst s)(ro_handle r \<mapsto> ?p) \<rparr>)"
      using assms(1,3) by (auto simp: numbered_def)
    ultimately show ?thesis by auto
  next
    case (Use_walk q n)
    show ?thesis using walk_use_plain [OF assms(1,2) assms(4) [unfolded Use_walk]] same [of s'] by simp
  qed (use plain in \<open>simp_all add: plain_ops plain_info\<close>)
qed

lemma uses_tables:
  assumes "numbered s" "unat (rs_handle_index s) + 2 * length us < 2 ^ 32" "rs_inst s (ro_handle r) \<noteq> None"
    and "fold (fs_use_run fs r) us (s, w) = (s', w')"
  shows "\<exists>p. rs_inst s' = (rs_inst s)(ro_handle r \<mapsto> p) \<and> rs_iterators s' = rs_iterators s"
  using assms
proof (induction us arbitrary: s w)
  case Nil
  then obtain p where "rs_inst s (ro_handle r) = Some p" by auto
  then show ?case using Nil.prems by (intro exI [of _ p]) (auto simp: fun_upd_idem)
next
  case (Cons u us)
  obtain s1 w1 where u: "fs_use_run fs r u (s, w) = (s1, w1)" by fastforce
  have "unat (rs_handle_index s) + 2 < 2 ^ 32" using Cons.prems(2) by simp
  from use_tables [OF Cons.prems(1) this Cons.prems(3) u] obtain p where p: "numbered s1" "rs_inst s1 = (rs_inst s)(ro_handle r \<mapsto> p)"
    "rs_iterators s1 = rs_iterators s" "unat (rs_handle_index s1) \<le> unat (rs_handle_index s) + 2" by blast
  have "unat (rs_handle_index s1) + 2 * length us < 2 ^ 32" using Cons.prems(2) p(4) by simp
  moreover have "rs_inst s1 (ro_handle r) \<noteq> None" "fold (fs_use_run fs r) us (s1, w1) = (s', w')" using p(2) Cons.prems(4) u by auto
  ultimately obtain p' where "rs_inst s' = (rs_inst s1)(ro_handle r \<mapsto> p')" "rs_iterators s' = rs_iterators s1"
    using Cons.IH [OF p(1)] by blast
  then show ?case using p(2,3) by (intro exI [of _ p']) simp
qed



subsection \<open>Clones\<close>

text \<open>A clone has the number of the original. Destroying it takes the directory from the original, whose next step
  raises, and the number under which the service stored the clone is never closed.\<close>

theorem clone_closes_original:
  assumes "rs_iterators s (ii_handle (it_iter it)) = Some (Some d)" "d < length (rs_dirs s)" "rs_dirs s ! d \<noteq> []"
    and "rs_inst s (ii_handle (it_iter it)) = None" "rs_iterators s (rs_handle_index s + 1) = None"
  shows "\<exists>s1 c s2. fs_iterator_clone it (s, w) = ((s1, w), Inr c) \<and> ii_handle (it_iter c) = ii_handle (it_iter it)
    \<and> fs_iterator_delete c (s1, w) = (s2, w) \<and> (\<exists>e. snd (fs_iterator_next it (s2, w)) = Inl e)
    \<and> rs_iterators s2 (rs_handle_index s + 1) = Some (Some d)"
proof -
  let ?h = "ii_handle (it_iter it)" and ?k = "rs_handle_index s + 1"
  have ne: "?h \<noteq> ?k" using assms(1,5) by auto
  let ?s1 = "s\<lparr> rs_handle_index := ?k, rs_iterators := (rs_iterators s)(?k \<mapsto> Some d) \<rparr>"
  let ?c = "fs_iterator_new \<lparr> ii_handle = ?h, ii_path = hd (rs_dirs s ! d), ii_end = False \<rparr>"
  let ?s2 = "?s1\<lparr> rs_iterators := (rs_iterators ?s1)(?h := None) \<rparr>"
  have "fs_iterator_clone it (s, w) = ((?s1, w), Inr ?c)"
    using assms by (simp add: fs_iterator_clone_def rs_iter_clone_def iter_from_request_def rs_next_index_def iter_insert_def
        fill_iter_info_def iter_deref_def remote_def)
  moreover have "fs_iterator_delete ?c (?s1, w) = (?s2, w)"
    using assms(1,4) ne by (simp add: fs_iterator_delete_def rs_close_def fs_iterator_new_def)
  moreover have "\<exists>e. snd (fs_iterator_next it (?s2, w)) = Inl e"
    by (simp add: fs_iterator_next_def rs_iter_next_def iter_from_request_def remote_def)
  ultimately show ?thesis using ne by (intro exI [of _ ?s1] exI [of _ ?c] exI [of _ ?s2]) (simp add: fs_iterator_new_def)
qed

text \<open>\<open>has_info_\<close> is never set: every look at the information of an entry is a call of the service.\<close>

theorem info_never_cached:
  assumes "fs_iterator_info_of fs it (s, w) = (sw, Inr (it2, i))" "\<not> it_has_info it"
  shows "\<not> it_has_info it2"
  using info_of_same [OF assms] by blast

end
