(* ===== verification/Remote_Tree.thy ===== *)
theory Remote_Tree
  imports Remote_Client
begin

text \<open>
  Walks over remote directory trees by the client of \<open>examples/remote-fs\<close>: \<open>tree_dir\<close> (\<open>rfs-directory-tree.cpp\<close>) prints a tree,
  \<open>pull_tree\<close> (\<open>rfs-pull-tree.cpp\<close>) copies one. Both loop over an iterator, do something with each entry, and call themselves for
  directories; they are instances of one walk, over the iterator objects of \<open>Remote_Client\<close>. What is done locally is a record of
  functions over a state of its own.
\<close>

subsection \<open>Names\<close>

definition leaf_of :: "string \<Rightarrow> string" where
  "leaf_of path = rev (takeWhile (\<lambda>c. c \<noteq> CHR ''/'' \<and> c \<noteq> char_of (92 :: nat)) (rev path))"

lemma leaf_of_last:
  assumes "CHR ''/'' \<notin> set name" and "char_of (92 :: nat) \<notin> set name"
  shows "leaf_of (dir @ CHR ''/'' # name) = name" and "leaf_of name = name"
proof -
  have all: "\<forall>c \<in> set (rev name). c \<noteq> CHR ''/'' \<and> c \<noteq> char_of (92 :: nat)" using assms by auto
  have "takeWhile (\<lambda>c. c \<noteq> CHR ''/'' \<and> c \<noteq> char_of (92 :: nat)) (rev name @ CHR ''/'' # rev dir) = rev name"
    using all by (subst takeWhile_append2) auto
  then show "leaf_of (dir @ CHR ''/'' # name) = name" by (simp add: leaf_of_def)
  have "takeWhile (\<lambda>c. c \<noteq> CHR ''/'' \<and> c \<noteq> char_of (92 :: nat)) (rev name) = rev name" using all by (simp only: takeWhile_eq_all_conv)
  then show "leaf_of name = name" unfolding leaf_of_def by (simp only: rev_rev_ident)
qed

subsection \<open>The walk\<close>

text \<open>The context of a call (\<open>'a\<close>, a level or a local path), what is done once the iterator of a directory is there, what is asked
  of the service about an entry only to be shown, what is done with each entry, and where a nested call has raised.\<close>

record ('a, 'l, 'w) walker =
  wk_down :: "'a \<Rightarrow> fs_info \<Rightarrow> 'a"
  wk_enter :: "'a \<Rightarrow> 'l \<Rightarrow> 'l \<times> (exn + unit)"
  wk_ask :: "'a \<Rightarrow> fs_info \<Rightarrow> remote_fs \<times> 'w \<Rightarrow> remote_fs \<times> 'w"
  wk_visit :: "'a \<Rightarrow> fs_info \<Rightarrow> 'l \<Rightarrow> 'l \<times> (exn + unit)"
  wk_failed :: "'a \<Rightarrow> 'l \<Rightarrow> 'l"

type_synonym ('w, 'l) walk_result = "((remote_fs \<times> 'w) \<times> 'l) \<times> (exn + unit)"

text \<open>The loop; the information of an entry is asked for as often as it is used, with the same answer.\<close>

partial_function (option) tree_loop ::
    "'w filesystem \<Rightarrow> fs_object \<Rightarrow> ('a, 'l, 'w) walker \<Rightarrow> fs_iterator \<Rightarrow> 'a \<Rightarrow> remote_fs \<times> 'w \<Rightarrow> 'l \<Rightarrow> ('w, 'l) walk_result option" where
  "tree_loop fs r wk it c sw l =
     (if fs_iterator_end it then Some ((sw, l), Inr ())
      else
        (case fs_iterator_info_of fs it sw of
           (sw, Inl e) \<Rightarrow> Some ((sw, l), Inl e)
         | (sw, Inr (it, None)) \<Rightarrow> Some ((sw, l), Inl Undefined)
         | (sw, Inr (it, Some info)) \<Rightarrow>
             (let sw = wk_ask wk c info sw in
              case wk_visit wk c info l of
                (l, Inl e) \<Rightarrow> Some ((sw, l), Inl e)
              | (l, Inr _) \<Rightarrow>
                  Option.bind
                    (if fi_is_directory info then
                       (case fs_object_begin_iterator fs r (fi_path info) sw of
                          (sw, Inl e) \<Rightarrow> Some (sw, wk_failed wk c l)
                        | (sw, Inr sub) \<Rightarrow>
                            (case wk_enter wk (wk_down wk c info) l of
                               (l, Inl e) \<Rightarrow> Some (fs_iterator_delete sub sw, wk_failed wk c l)
                             | (l, Inr _) \<Rightarrow>
                                 Option.bind (tree_loop fs r wk sub (wk_down wk c info) sw l)
                                   (\<lambda>((sw, l), res). Some (fs_iterator_delete sub sw, case res of Inl e \<Rightarrow> wk_failed wk c l | Inr _ \<Rightarrow> l))))
                     else Some (sw, l))
                    (\<lambda>(sw, l).
                       case fs_iterator_next it sw of
                         (sw, Inl e) \<Rightarrow> Some ((sw, l), Inl e)
                       | (sw, Inr it) \<Rightarrow> tree_loop fs r wk it c sw l))))"

definition tree_walk ::
    "'w filesystem \<Rightarrow> fs_object \<Rightarrow> ('a, 'l, 'w) walker \<Rightarrow> string \<Rightarrow> 'a \<Rightarrow> remote_fs \<times> 'w \<Rightarrow> 'l \<Rightarrow> ('w, 'l) walk_result option" where
  "tree_walk fs r wk path c sw l =
     (case fs_object_begin_iterator fs r path sw of
        (sw, Inl e) \<Rightarrow> Some ((sw, l), Inl e)
      | (sw, Inr it) \<Rightarrow>
          (case wk_enter wk c l of
             (l, Inl e) \<Rightarrow> Some ((fs_iterator_delete it sw, l), Inl e)
           | (l, Inr _) \<Rightarrow>
               map_option (\<lambda>((sw, l), res). ((fs_iterator_delete it sw, l), res)) (tree_loop fs r wk it c sw l)))"

subsection \<open>Printing a tree\<close>

record tree_output =
  to_dirs :: nat
  to_files :: nat
  to_lines :: "string list"

definition tree_line :: "nat \<Rightarrow> fs_info \<Rightarrow> string" where
  "tree_line level info =
     replicate (level * 2) CHR '' '' @ (if fi_is_empty info then '' '' else ''+'') @
     (if fi_is_directory info then ''['' @ leaf_of (fi_path info) @ '']''
      else if fi_is_symlink info then ''<!'' @ leaf_of (fi_path info) @ ''>''
      else '' '' @ leaf_of (fi_path info))"

definition tree_dir_visit :: "nat \<Rightarrow> fs_info \<Rightarrow> tree_output \<Rightarrow> tree_output" where
  "tree_dir_visit level info out =
     out\<lparr> to_dirs := to_dirs out + (if fi_is_directory info then 1 else 0),
          to_files := to_files out + (if fi_is_directory info then 0 else 1),
          to_lines := to_lines out @ [tree_line level info] \<rparr>"

definition tree_dir_walker :: "(nat, tree_output, 'w) walker" where
  "tree_dir_walker =
     \<lparr> wk_down = (\<lambda>level info. level + 1), wk_enter = (\<lambda>level out. (out, Inr ())), wk_ask = (\<lambda>level info sw. sw),
       wk_visit = (\<lambda>level info out. (tree_dir_visit level info out, Inr ())),
       wk_failed = (\<lambda>level out. out\<lparr> to_lines := to_lines out @ [replicate (level * 2) CHR '' '' @ ''  <iteration failed>''] \<rparr>) \<rparr>"

definition tree_dir :: "'w filesystem \<Rightarrow> fs_object \<Rightarrow> string \<Rightarrow> remote_fs \<times> 'w \<Rightarrow> ('w, tree_output) walk_result option" where
  "tree_dir fs r path sw = tree_walk fs r tree_dir_walker path 0 sw \<lparr> to_dirs = 0, to_files = 0, to_lines = [] \<rparr>"

subsection \<open>Copying a tree\<close>

text \<open>What is done locally: directories are created and files are pulled; both may raise. \<open>ld_join\<close> is \<open>path /= name\<close>.\<close>

record 'l local_disk =
  ld_join :: "string \<Rightarrow> string \<Rightarrow> string"
  ld_create_directories :: "string \<Rightarrow> 'l \<Rightarrow> 'l \<times> (exn + unit)"
  ld_pull_file :: "string \<Rightarrow> string \<Rightarrow> 'l \<Rightarrow> 'l \<times> (exn + unit)"

definition pull_tree_visit :: "'l local_disk \<Rightarrow> string \<Rightarrow> fs_info \<Rightarrow> 'l \<Rightarrow> 'l \<times> (exn + unit)" where
  "pull_tree_visit ld local_path info l =
     (if fi_is_directory info then (l, Inr ())
      else if fi_is_regular info then ld_pull_file ld (fi_path info) (ld_join ld local_path (leaf_of (fi_path info))) l
      else (l, Inr ()))"

text \<open>\<open>pull_file\<close> first asks for the size of the file; an error is only shown.\<close>

definition pull_tree_ask :: "'w filesystem \<Rightarrow> fs_object \<Rightarrow> fs_info \<Rightarrow> remote_fs \<times> 'w \<Rightarrow> remote_fs \<times> 'w" where
  "pull_tree_ask fs r info sw =
     (if \<not> fi_is_directory info \<and> fi_is_regular info then fst (fs_object_file_size fs r (fi_path info) sw) else sw)"

definition pull_tree_walker :: "'w filesystem \<Rightarrow> fs_object \<Rightarrow> 'l local_disk \<Rightarrow> (string, 'l, 'w) walker" where
  "pull_tree_walker fs r ld =
     \<lparr> wk_down = (\<lambda>local_path info. ld_join ld local_path (leaf_of (fi_path info))),
       wk_enter = ld_create_directories ld, wk_ask = (\<lambda>local_path. pull_tree_ask fs r), wk_visit = pull_tree_visit ld, wk_failed = (\<lambda>local_path l. l) \<rparr>"

definition pull_tree ::
    "'w filesystem \<Rightarrow> fs_object \<Rightarrow> 'l local_disk \<Rightarrow> string \<Rightarrow> string \<Rightarrow> remote_fs \<times> 'w \<Rightarrow> 'l \<Rightarrow> ('w, 'l) walk_result option" where
  "pull_tree fs r ld remote_path local_path sw l = tree_walk fs r (pull_tree_walker fs r ld) remote_path local_path sw l"

subsection \<open>Trees\<close>

text \<open>The entries of a directory with what is below them, and the effect of a walk in which nothing raises.\<close>

datatype remote_node = Leaf | Directory "(string \<times> remote_node) list"

fun entries_effect :: "('a, 'l, 'w) walker \<Rightarrow> (string \<Rightarrow> fs_info) \<Rightarrow> 'a \<Rightarrow> (string \<times> remote_node) list \<Rightarrow> 'l \<Rightarrow> 'l" where
  "entries_effect wk about c [] l = l"
| "entries_effect wk about c ((p, Leaf) # es) l = entries_effect wk about c es (fst (wk_visit wk c (about p) l))"
| "entries_effect wk about c ((p, Directory cs) # es) l =
     entries_effect wk about c es
       (entries_effect wk about (wk_down wk c (about p)) cs
         (fst (wk_enter wk (wk_down wk c (about p)) (fst (wk_visit wk c (about p) l)))))"

fun holds_entries :: "'w filesystem \<Rightarrow> 'w \<Rightarrow> (string \<Rightarrow> fs_info) \<Rightarrow> (string \<times> remote_node) list \<Rightarrow> bool" where
  "holds_entries fs w about [] \<longleftrightarrow> True"
| "holds_entries fs w about ((p, Leaf) # es) \<longleftrightarrow>
     (\<exists>i. fill_info fs p w = Inr i \<and> about p = client_fill_info i p) \<and> \<not> fi_is_directory (about p) \<and> holds_entries fs w about es"
| "holds_entries fs w about ((p, Directory cs) # es) \<longleftrightarrow>
     (\<exists>i. fill_info fs p w = Inr i \<and> about p = client_fill_info i p) \<and> fi_is_directory (about p) \<and> bf_is_absolute fs p
     \<and> bf_entries fs (bf_normalize fs p) w = Inr (map fst cs) \<and> holds_entries fs w about cs \<and> holds_entries fs w about es"

fun dirs_in :: "(string \<times> remote_node) list \<Rightarrow> nat" where
  "dirs_in [] = 0"
| "dirs_in ((p, Leaf) # es) = dirs_in es"
| "dirs_in ((p, Directory cs) # es) = Suc (dirs_in cs + dirs_in es)"

fun leaves_in :: "(string \<times> remote_node) list \<Rightarrow> nat" where
  "leaves_in [] = 0"
| "leaves_in ((p, Leaf) # es) = Suc (leaves_in es)"
| "leaves_in ((p, Directory cs) # es) = leaves_in cs + leaves_in es"

text \<open>The numbers of the service that a walk uses up at most.\<close>

definition walk_cost :: "(string \<times> remote_node) list \<Rightarrow> nat" where
  "walk_cost es = 2 * dirs_in es + leaves_in es"

definition never_raises :: "('a, 'l, 'w) walker \<Rightarrow> bool" where
  "never_raises wk \<longleftrightarrow> (\<forall>c l. snd (wk_enter wk c l) = Inr ()) \<and> (\<forall>c i l. snd (wk_visit wk c i l) = Inr ())
     \<and> (\<forall>c i s w. \<exists>s'. wk_ask wk c i (s, w) = (s', w) \<and> (if fi_is_directory i then s' = s else plain_step s s'))"

subsection \<open>Iterators during a walk\<close>

text \<open>\<open>at_entries k d xs s\<close>: the iterator \<open>k\<close> has the entries \<open>xs\<close> left, in the open directory \<open>d\<close>.\<close>

definition at_entries :: "u32 \<Rightarrow> nat \<Rightarrow> string list \<Rightarrow> remote_fs \<Rightarrow> bool" where
  "at_entries k d xs s \<longleftrightarrow>
     (if xs = [] then rs_iterators s k = Some None
      else rs_iterators s k = Some (Some d) \<and> d < length (rs_dirs s) \<and> rs_dirs s ! d = xs)"

definition iterator_at :: "u32 \<Rightarrow> string list \<Rightarrow> fs_iterator_info" where
  "iterator_at k xs = \<lparr> ii_handle = k, ii_path = (if xs = [] then [] else hd xs), ii_end = (xs = []) \<rparr>"

text \<open>A part of the walk that is over: only the counter and new directories are left of it.\<close>

definition undisturbed :: "nat \<Rightarrow> remote_fs \<Rightarrow> remote_fs \<Rightarrow> bool" where
  "undisturbed n s s' \<longleftrightarrow> rs_inst s' = rs_inst s \<and> rs_iterators s' = rs_iterators s \<and> length (rs_dirs s) \<le> length (rs_dirs s')
     \<and> (\<forall>d < length (rs_dirs s). rs_dirs s' ! d = rs_dirs s ! d)
     \<and> unat (rs_handle_index s) \<le> unat (rs_handle_index s') \<and> unat (rs_handle_index s') \<le> unat (rs_handle_index s) + n"

text \<open>The loop over the iterator \<open>k\<close> of the open directory \<open>d\<close>.\<close>

definition own_walk :: "u32 \<Rightarrow> nat \<Rightarrow> nat \<Rightarrow> remote_fs \<Rightarrow> remote_fs \<Rightarrow> bool" where
  "own_walk k d n s s' \<longleftrightarrow> rs_inst s' = rs_inst s \<and> rs_iterators s' k \<noteq> None
     \<and> (\<forall>j. j \<noteq> k \<longrightarrow> rs_iterators s' j = rs_iterators s j) \<and> length (rs_dirs s) \<le> length (rs_dirs s')
     \<and> (\<forall>e < length (rs_dirs s). e \<noteq> d \<longrightarrow> rs_dirs s' ! e = rs_dirs s ! e)
     \<and> unat (rs_handle_index s) \<le> unat (rs_handle_index s') \<and> unat (rs_handle_index s') \<le> unat (rs_handle_index s) + n"

lemma next_entry:
  assumes "at_entries k d (x # xs) s" and "it_iter it = iterator_at k (x # xs)"
  shows "\<exists>s'. fs_iterator_next it (s, w) = ((s', w), Inr (it\<lparr> it_iter := iterator_at k xs \<rparr>)) \<and> at_entries k d xs s' \<and> own_walk k d 0 s s'"
proof (cases xs)
  case Nil
  then show ?thesis
    using assms
    by (simp add: at_entries_def iterator_at_def fs_iterator_next_def rs_iter_next_def iter_from_request_def iter_incr_def
        fill_iter_info_def remote_def own_walk_def)
next
  case (Cons y ys)
  then show ?thesis
    using assms
    by (simp add: at_entries_def iterator_at_def fs_iterator_next_def rs_iter_next_def iter_from_request_def iter_incr_def
        fill_iter_info_def iter_deref_def remote_def own_walk_def)
qed

lemma info_of_entry:
  assumes "at_entries k d (x # xs) s" and "it_iter it = iterator_at k (x # xs)" and "\<not> it_has_info it"
    and "fill_info fs x w = Inr i"
  shows "fs_iterator_info_of fs it (s, w) = ((s, w), Inr (it\<lparr> it_info := Some (client_fill_info i x) \<rparr>, Some (client_fill_info i x)))"
  using assms
  by (simp add: at_entries_def iterator_at_def fs_iterator_info_of_def rs_iter_info_def iter_from_request_def iter_deref_def remote_def
      Let_def)

lemma begin_dir:
  assumes "bf_is_absolute fs p" and "bf_entries fs (bf_normalize fs p) w = Inr xs"
    and "numbered s" and "unat (rs_handle_index s) + 2 < 2 ^ 32"
  obtains s' k where "fs_object_begin_iterator fs r p (s, w) = ((s', w), Inr (fs_iterator_new (iterator_at k xs)))"
    and "at_entries k (length (rs_dirs s)) xs s'" and "numbered s'" and "rs_inst s k = None" and "rs_iterators s k = None"
    and "rs_inst s' = rs_inst s" and "\<And>j. j \<noteq> k \<Longrightarrow> rs_iterators s' j = rs_iterators s j"
    and "length (rs_dirs s) \<le> length (rs_dirs s')" and "\<And>e. e < length (rs_dirs s) \<Longrightarrow> rs_dirs s' ! e = rs_dirs s ! e"
    and "unat (rs_handle_index s') = unat (rs_handle_index s) + 2"
proof -
  define k where "k = rs_handle_index s + 1 + 1"
  have one: "unat (rs_handle_index s + 1) = unat (rs_handle_index s) + 1" using assms(4) by (intro succ_less(2)) simp
  have k: "unat k = unat (rs_handle_index s) + 2" unfolding k_def using one assms(4) by (subst succ_less(2)) simp_all
  then have less: "rs_handle_index s < k" by (simp add: word_less_nat_alt)
  then have free: "rs_inst s k = None" "rs_iterators s k = None" using assms(3) unfolding numbered_def by (meson leD)+
  define s' where "s' = s\<lparr> rs_handle_index := k, rs_dirs := rs_dirs s @ (if xs = [] then [] else [xs]),
     rs_iterators := (rs_iterators s)(k \<mapsto> (if xs = [] then None else Some (length (rs_dirs s)))) \<rparr>"
  have "fs_object_begin_iterator fs r p (s, w) = ((s', w), Inr (fs_iterator_new (iterator_at k xs)))"
    using assms(1,2) free
    by (simp add: fs_object_begin_iterator_def rs_iter_begin_def with_path_def path_from_request_def rs_next_index_def
        directory_iterator_def iter_insert_def fill_iter_info_def iter_deref_def remote_def iterator_at_def Let_def k_def [symmetric] s'_def)
  moreover have "at_entries k (length (rs_dirs s)) xs s'" by (simp add: at_entries_def s'_def)
  moreover have "numbered s'"
    using assms(3) less unfolding numbered_def s'_def by (auto intro: order.trans less_imp_le)
  ultimately show ?thesis using that [of s' k] free k by (simp add: s'_def nth_append)
qed

lemma undisturbed_numbered: "undisturbed n s s' \<Longrightarrow> numbered s \<Longrightarrow> numbered s'"
  by (force simp: undisturbed_def numbered_def word_le_nat_alt)

lemma own_walk_numbered: "own_walk k d n s s' \<Longrightarrow> rs_iterators s k \<noteq> None \<Longrightarrow> numbered s \<Longrightarrow> numbered s'"
  unfolding own_walk_def numbered_def word_le_nat_alt by (metis order.trans)

lemma own_walk_trans: "own_walk k d m s t \<Longrightarrow> own_walk k d n t u \<Longrightarrow> own_walk k d (m + n) s u"
  by (auto simp: own_walk_def)

lemma undisturbed_own: "undisturbed m s t \<Longrightarrow> own_walk k d n t u \<Longrightarrow> own_walk k d (m + n) s u"
  by (auto simp: undisturbed_def own_walk_def)

lemma at_entries_undisturbed: "undisturbed n s s' \<Longrightarrow> at_entries k d xs s \<Longrightarrow> at_entries k d xs s'"
  by (auto simp: undisturbed_def at_entries_def split: if_splits)

lemma at_entries_known: "at_entries k d xs s \<Longrightarrow> rs_iterators s k \<noteq> None"
  by (auto simp: at_entries_def split: if_splits)

text \<open>A directory that was walked through and whose iterator is deleted leaves nothing.\<close>

lemma close_dir:
  assumes "own_walk k (length (rs_dirs s)) n s1 s2" and "rs_inst s k = None" and "rs_iterators s k = None"
    and "rs_inst s1 = rs_inst s" and "\<And>j. j \<noteq> k \<Longrightarrow> rs_iterators s1 j = rs_iterators s j"
    and "length (rs_dirs s) \<le> length (rs_dirs s1)" and "\<And>e. e < length (rs_dirs s) \<Longrightarrow> rs_dirs s1 ! e = rs_dirs s ! e"
    and "unat (rs_handle_index s1) = unat (rs_handle_index s) + 2" and "ii_handle (it_iter it) = k"
  shows "\<exists>s3. fs_iterator_delete it (s2, w) = (s3, w) \<and> undisturbed (n + 2) s s3"
proof -
  define s3 where "s3 = s2\<lparr> rs_iterators := (rs_iterators s2)(k := None) \<rparr>"
  have "fs_iterator_delete it (s2, w) = (s3, w)"
    using assms(1,2,4,9) by (simp add: fs_iterator_delete_def rs_close_def own_walk_def s3_def)
  moreover have "rs_iterators s3 = rs_iterators s"
  proof
    fix j
    show "rs_iterators s3 j = rs_iterators s j" using assms(1,3,5) by (cases "j = k") (simp_all add: s3_def own_walk_def)
  qed
  ultimately show ?thesis using assms(1,4,6,7,8) by (auto simp: undisturbed_def own_walk_def s3_def)
qed

subsection \<open>The walk visits every entry once\<close>

lemma plain_undisturbed:
  assumes "plain_step s s'" and "unat (rs_handle_index s) + 1 < 2 ^ 32"
  shows "undisturbed 1 s s'"
  using assms(1) succ_less(2) [OF assms(2)] by (auto simp: plain_step_def undisturbed_def)

lemma tree_loop_leaf:
  assumes "never_raises wk" and "\<not> fi_is_directory info" and "fill_info fs p w = Inr i" and "info = client_fill_info i p"
    and "at_entries k d (p # xs) s" and "it_iter it = iterator_at k (p # xs)" and "\<not> it_has_info it"
    and "unat (rs_handle_index s) + 1 < 2 ^ 32"
  shows "\<exists>s' it'. tree_loop fs r wk it c (s, w) l = tree_loop fs r wk it' c (s', w) (fst (wk_visit wk c info l))
    \<and> at_entries k d xs s' \<and> it_iter it' = iterator_at k xs \<and> \<not> it_has_info it' \<and> own_walk k d 1 s s'"
proof -
  let ?it = "it\<lparr> it_info := Some info \<rparr>"
  have got: "fs_iterator_info_of fs it (s, w) = ((s, w), Inr (?it, Some info))"
    using info_of_entry [OF assms(5,6,7,3)] assms(4) by simp
  obtain l' where visit: "wk_visit wk c info l = (l', Inr ())"
    using assms(1) unfolding never_raises_def by (metis prod.collapse)
  obtain s0 where ask: "wk_ask wk c info (s, w) = (s0, w)" "plain_step s s0" using assms(1,2) unfolding never_raises_def by metis
  have q: "undisturbed 1 s s0" by (rule plain_undisturbed [OF ask(2) assms(8)])
  have "it_iter ?it = iterator_at k (p # xs)" using assms(6) by simp
  from next_entry [OF at_entries_undisturbed [OF q assms(5)] this, of w] obtain s' where
    n: "fs_iterator_next ?it (s0, w) = ((s', w), Inr (?it\<lparr> it_iter := iterator_at k xs \<rparr>))" "at_entries k d xs s'" "own_walk k d 0 s0 s'" by blast
  have "\<not> fs_iterator_end it" using assms(6) by (simp add: fs_iterator_end_def iterator_at_def)
  then have "tree_loop fs r wk it c (s, w) l =
      tree_loop fs r wk (?it\<lparr> it_iter := iterator_at k xs \<rparr>) c (s', w) l'"
    by (subst tree_loop.simps) (simp add: got visit ask(1) assms(2) n(1))
  then have "tree_loop fs r wk it c (s, w) l =
      tree_loop fs r wk (?it\<lparr> it_iter := iterator_at k xs \<rparr>) c (s', w) (fst (wk_visit wk c info l))" by (simp only: visit fst_conv)
  then show ?thesis using n assms(7) undisturbed_own [OF q n(3)] by (intro exI [of _ s'] exI [of _ "?it\<lparr> it_iter := iterator_at k xs \<rparr>"]) simp
qed

lemma tree_loop_dir:
  assumes "never_raises wk" and "fi_is_directory info" and "fill_info fs p w = Inr i" and "info = client_fill_info i p"
    and "at_entries k d (p # xs) s" and "it_iter it = iterator_at k (p # xs)" and "\<not> it_has_info it"
    and "fs_object_begin_iterator fs r p (s, w) = ((s1, w), Inr sub)"
    and "tree_loop fs r wk sub (wk_down wk c info) (s1, w)
           (fst (wk_enter wk (wk_down wk c info) (fst (wk_visit wk c info l)))) = Some (((s2, w), l2), Inr ())"
    and "fs_iterator_delete sub (s2, w) = (s3, w)" and "undisturbed n s s3"
  shows "\<exists>s' it'. tree_loop fs r wk it c (s, w) l = tree_loop fs r wk it' c (s', w) l2
    \<and> at_entries k d xs s' \<and> it_iter it' = iterator_at k xs \<and> \<not> it_has_info it' \<and> own_walk k d n s s'"
proof -
  let ?it = "it\<lparr> it_info := Some info \<rparr>" and ?c = "wk_down wk c info"
  have got: "fs_iterator_info_of fs it (s, w) = ((s, w), Inr (?it, Some info))"
    using info_of_entry [OF assms(5,6,7,3)] assms(4) by simp
  obtain l' where visit: "wk_visit wk c info l = (l', Inr ())"
    using assms(1) unfolding never_raises_def by (metis prod.collapse)
  have ask: "wk_ask wk c info (s, w) = (s, w)" using assms(1,2) unfolding never_raises_def by metis
  obtain l1 where enter: "wk_enter wk ?c l' = (l1, Inr ())"
    using assms(1) unfolding never_raises_def by (metis prod.collapse)
  have sub: "tree_loop fs r wk sub ?c (s1, w) l1 = Some (((s2, w), l2), Inr ())" using assms(9) by (simp only: visit enter fst_conv)
  have path: "fi_path info = p" by (simp add: assms(4) client_fill_info_def)
  have "it_iter ?it = iterator_at k (p # xs)" using assms(6) by simp
  from next_entry [OF at_entries_undisturbed [OF assms(11,5)] this, of w] obtain s' where
    n: "fs_iterator_next ?it (s3, w) = ((s', w), Inr (?it\<lparr> it_iter := iterator_at k xs \<rparr>))" "at_entries k d xs s'" "own_walk k d 0 s3 s'" by blast
  have "\<not> fs_iterator_end it" using assms(6) by (simp add: fs_iterator_end_def iterator_at_def)
  then have "tree_loop fs r wk it c (s, w) l = tree_loop fs r wk (?it\<lparr> it_iter := iterator_at k xs \<rparr>) c (s', w) l2"
    by (subst tree_loop.simps) (simp add: got visit ask assms(2,8,10) path enter sub n(1))
  then show ?thesis using n assms(7) undisturbed_own [OF assms(11) n(3)]
    by (intro exI [of _ s'] exI [of _ "?it\<lparr> it_iter := iterator_at k xs \<rparr>"]) simp
qed

lemma tree_loop_entries:
  "never_raises wk \<Longrightarrow> holds_entries fs w about es \<Longrightarrow> at_entries k d (map fst es) s \<Longrightarrow> it_iter it = iterator_at k (map fst es) \<Longrightarrow> \<not> it_has_info it
    \<Longrightarrow> numbered s \<Longrightarrow> unat (rs_handle_index s) + walk_cost es < 2 ^ 32
    \<Longrightarrow> \<exists>s'. tree_loop fs r wk it c (s, w) l = Some (((s', w), entries_effect wk about c es l), Inr ()) \<and> own_walk k d (walk_cost es) s s'"
proof (induction wk about c es l arbitrary: k d s it rule: entries_effect.induct)
  case (1 wk about c l)
  have "own_walk k d 0 s s" using 1(3) by (auto simp: own_walk_def at_entries_def)
  moreover have "fs_iterator_end it" using 1(4) by (simp add: fs_iterator_end_def iterator_at_def)
  ultimately show ?case by (subst tree_loop.simps) (simp add: walk_cost_def)
next
  case (2 wk about c p es l)
  from 2(3) obtain i where i: "fill_info fs p w = Inr i" "about p = client_fill_info i p" "\<not> fi_is_directory (about p)" by auto
  have a: "at_entries k d (p # map fst es) s" "it_iter it = iterator_at k (p # map fst es)" using 2(4,5) by simp_all
  have b: "unat (rs_handle_index s) + 1 < 2 ^ 32" using 2(8) by (simp add: walk_cost_def)
  from tree_loop_leaf [OF 2(2) i(3,1,2) a 2(6) b, of r c l] obtain s1 it1 where
    step: "tree_loop fs r wk it c (s, w) l = tree_loop fs r wk it1 c (s1, w) (fst (wk_visit wk c (about p) l))"
    "at_entries k d (map fst es) s1" "it_iter it1 = iterator_at k (map fst es)" "\<not> it_has_info it1" "own_walk k d 1 s s1" by blast
  have num: "numbered s1" by (rule own_walk_numbered [OF step(5) at_entries_known [OF a(1)] 2(7)])
  have cost: "walk_cost ((p, Leaf) # es) = 1 + walk_cost es" by (simp add: walk_cost_def)
  have "unat (rs_handle_index s1) \<le> unat (rs_handle_index s) + 1" using step(5) by (simp add: own_walk_def)
  with 2(8) cost have bound: "unat (rs_handle_index s1) + walk_cost es < 2 ^ 32" by simp
  have "holds_entries fs w about es" using 2(3) by simp
  from 2(1) [OF 2(2) this step(2,3,4) num bound] obtain s' where
    "tree_loop fs r wk it1 c (s1, w) (fst (wk_visit wk c (about p) l))
       = Some (((s', w), entries_effect wk about c es (fst (wk_visit wk c (about p) l))), Inr ())"
    "own_walk k d (walk_cost es) s1 s'" by auto
  with own_walk_trans [OF step(5)] step(1) cost show ?case by (metis entries_effect.simps(2))
next
  case (3 wk about c p cs es l)
  let ?c = "wk_down wk c (about p)"
  let ?l1 = "fst (wk_enter wk ?c (fst (wk_visit wk c (about p) l)))"
  from 3(4) obtain i where i: "fill_info fs p w = Inr i" "about p = client_fill_info i p" "fi_is_directory (about p)"
    and h: "bf_is_absolute fs p" "bf_entries fs (bf_normalize fs p) w = Inr (map fst cs)" "holds_entries fs w about cs"
      "holds_entries fs w about es" by auto
  have a: "at_entries k d (p # map fst es) s" "it_iter it = iterator_at k (p # map fst es)" using 3(5,6) by simp_all
  have cost: "walk_cost cs + 2 + walk_cost es = walk_cost ((p, Directory cs) # es)" by (simp add: walk_cost_def)
  have b: "unat (rs_handle_index s) + 2 < 2 ^ 32" using 3(9) cost by simp
  obtain s1 kk where sub: "fs_object_begin_iterator fs r p (s, w) = ((s1, w), Inr (fs_iterator_new (iterator_at kk (map fst cs))))"
    "at_entries kk (length (rs_dirs s)) (map fst cs) s1" "numbered s1" "rs_inst s kk = None" "rs_iterators s kk = None"
    "rs_inst s1 = rs_inst s" "\<And>j. j \<noteq> kk \<Longrightarrow> rs_iterators s1 j = rs_iterators s j"
    "length (rs_dirs s) \<le> length (rs_dirs s1)" "\<And>e. e < length (rs_dirs s) \<Longrightarrow> rs_dirs s1 ! e = rs_dirs s ! e"
    "unat (rs_handle_index s1) = unat (rs_handle_index s) + 2"
    by (rule begin_dir [OF h(1,2) 3(8) b, of r]) blast
  define it1 where "it1 = fs_iterator_new (iterator_at kk (map fst cs))"
  have it1: "it_iter it1 = iterator_at kk (map fst cs)" "\<not> it_has_info it1" by (simp_all add: it1_def fs_iterator_new_def)
  have bound: "unat (rs_handle_index s1) + walk_cost cs < 2 ^ 32" using sub(10) 3(9) cost by simp
  from 3(1) [OF 3(3) h(3) sub(2) it1 sub(3) bound] obtain s2 where
    s2: "tree_loop fs r wk it1 ?c (s1, w) ?l1 = Some (((s2, w), entries_effect wk about ?c cs ?l1), Inr ())"
    "own_walk kk (length (rs_dirs s)) (walk_cost cs) s1 s2" by auto
  have "ii_handle (it_iter it1) = kk" by (simp add: it1 iterator_at_def)
  from close_dir [OF s2(2) sub(4,5,6,7,8,9,10) this, of w] obtain s3 where
    s3: "fs_iterator_delete it1 (s2, w) = (s3, w)" "undisturbed (walk_cost cs + 2) s s3" by blast
  from tree_loop_dir [OF 3(3) i(3,1,2) a 3(7) sub(1) [folded it1_def] s2(1) s3] obtain s4 it4 where
    step: "tree_loop fs r wk it c (s, w) l = tree_loop fs r wk it4 c (s4, w) (entries_effect wk about ?c cs ?l1)"
    "at_entries k d (map fst es) s4" "it_iter it4 = iterator_at k (map fst es)" "\<not> it_has_info it4"
    "own_walk k d (walk_cost cs + 2) s s4" by blast
  have num: "numbered s4" by (rule own_walk_numbered [OF step(5) at_entries_known [OF a(1)] 3(8)])
  have "unat (rs_handle_index s4) \<le> unat (rs_handle_index s) + (walk_cost cs + 2)" using step(5) by (simp add: own_walk_def)
  with 3(9) cost have "unat (rs_handle_index s4) + walk_cost es < 2 ^ 32" by simp
  from 3(2) [OF 3(3) h(4) step(2,3,4) num this] obtain s' where
    "tree_loop fs r wk it4 c (s4, w) (entries_effect wk about ?c cs ?l1)
       = Some (((s', w), entries_effect wk about c es (entries_effect wk about ?c cs ?l1)), Inr ())"
    "own_walk k d (walk_cost es) s4 s'" by auto
  then show ?case using own_walk_trans [OF step(5)] step(1) cost by (metis entries_effect.simps(3))
qed

text \<open>
  A walk over a remote tree ends and treats every entry of the tree exactly once, a directory before what is in it, in the
  order of the directories; the tables of the service are what they were before.
\<close>

theorem tree_walk_visits:
  assumes "never_raises wk" and "bf_is_absolute fs path" and "bf_entries fs (bf_normalize fs path) w = Inr (map fst es)"
    and "holds_entries fs w about es" and "numbered s" and "unat (rs_handle_index s) + walk_cost es + 2 < 2 ^ 32"
  shows "\<exists>s'. tree_walk fs r wk path c (s, w) l = Some (((s', w), entries_effect wk about c es (fst (wk_enter wk c l))), Inr ())
    \<and> rs_inst s' = rs_inst s \<and> rs_iterators s' = rs_iterators s"
proof -
  have b: "unat (rs_handle_index s) + 2 < 2 ^ 32" using assms(6) by simp
  obtain s1 kk where sub: "fs_object_begin_iterator fs r path (s, w) = ((s1, w), Inr (fs_iterator_new (iterator_at kk (map fst es))))"
    "at_entries kk (length (rs_dirs s)) (map fst es) s1" "numbered s1" "rs_inst s kk = None" "rs_iterators s kk = None"
    "rs_inst s1 = rs_inst s" "\<And>j. j \<noteq> kk \<Longrightarrow> rs_iterators s1 j = rs_iterators s j"
    "length (rs_dirs s) \<le> length (rs_dirs s1)" "\<And>e. e < length (rs_dirs s) \<Longrightarrow> rs_dirs s1 ! e = rs_dirs s ! e"
    "unat (rs_handle_index s1) = unat (rs_handle_index s) + 2"
    by (rule begin_dir [OF assms(2,3,5) b, of r]) blast
  define it1 where "it1 = fs_iterator_new (iterator_at kk (map fst es))"
  have it1: "it_iter it1 = iterator_at kk (map fst es)" "\<not> it_has_info it1" by (simp_all add: it1_def fs_iterator_new_def)
  obtain l1 where enter: "wk_enter wk c l = (l1, Inr ())" using assms(1) unfolding never_raises_def by (metis prod.collapse)
  have bound: "unat (rs_handle_index s1) + walk_cost es < 2 ^ 32" using sub(10) assms(6) by simp
  from tree_loop_entries [OF assms(1,4) sub(2) it1 sub(3) bound, of r c l1] obtain s2 where
    s2: "tree_loop fs r wk it1 c (s1, w) l1 = Some (((s2, w), entries_effect wk about c es l1), Inr ())"
    "own_walk kk (length (rs_dirs s)) (walk_cost es) s1 s2" by auto
  have "ii_handle (it_iter it1) = kk" by (simp add: it1 iterator_at_def)
  from close_dir [OF s2(2) sub(4,5,6,7,8,9,10) this, of w] obtain s3 where
    s3: "fs_iterator_delete it1 (s2, w) = (s3, w)" "undisturbed (walk_cost es + 2) s s3" by blast
  then show ?thesis
    by (intro exI [of _ s3]) (simp add: tree_walk_def sub(1) [folded it1_def] enter s2(1) undisturbed_def)
qed

subsection \<open>The printed tree\<close>

fun tree_lines :: "(string \<Rightarrow> fs_info) \<Rightarrow> nat \<Rightarrow> (string \<times> remote_node) list \<Rightarrow> string list" where
  "tree_lines about level [] = []"
| "tree_lines about level ((p, Leaf) # es) = tree_line level (about p) # tree_lines about level es"
| "tree_lines about level ((p, Directory cs) # es) =
     tree_line level (about p) # tree_lines about (level + 1) cs @ tree_lines about level es"

lemma tree_dir_walker_total: "never_raises tree_dir_walker"
  by (simp add: never_raises_def tree_dir_walker_def plain_step_def)

lemma tree_dir_effect:
  "holds_entries fs w about es \<Longrightarrow> entries_effect tree_dir_walker about level es out =
     out\<lparr> to_dirs := to_dirs out + dirs_in es, to_files := to_files out + leaves_in es,
          to_lines := to_lines out @ tree_lines about level es \<rparr>"
  by (induction about level es arbitrary: out rule: tree_lines.induct) (simp_all add: tree_dir_walker_def tree_dir_visit_def)

text \<open>\<open>tree_dir\<close> prints one line for each entry of the tree, indented by its depth, and counts all directories and all other
  entries.\<close>

theorem tree_dir_prints:
  assumes "bf_is_absolute fs path" and "bf_entries fs (bf_normalize fs path) w = Inr (map fst es)"
    and "holds_entries fs w about es" and "numbered s" and "unat (rs_handle_index s) + walk_cost es + 2 < 2 ^ 32"
  shows "\<exists>s'. tree_dir fs r path (s, w) =
      Some (((s', w), \<lparr> to_dirs = dirs_in es, to_files = leaves_in es, to_lines = tree_lines about 0 es \<rparr>), Inr ())
    \<and> rs_inst s' = rs_inst s \<and> rs_iterators s' = rs_iterators s"
  using tree_walk_visits [OF tree_dir_walker_total assms, of r 0 "\<lparr> to_dirs = 0, to_files = 0, to_lines = [] \<rparr>"]
  by (simp add: tree_dir_def tree_dir_effect [OF assms(3)]) (simp add: tree_dir_walker_def)

subsection \<open>The copied tree\<close>

text \<open>A local disk: directories are \<open>None\<close>, files their content; \<open>content\<close> is what pulling a remote file gives.\<close>

definition map_disk :: "(string \<Rightarrow> string \<Rightarrow> string) \<Rightarrow> (string \<Rightarrow> bytes) \<Rightarrow> (string \<rightharpoonup> bytes option) local_disk" where
  "map_disk join content =
     \<lparr> ld_join = join, ld_create_directories = (\<lambda>p m. (m(p \<mapsto> None), Inr ())),
       ld_pull_file = (\<lambda>a b m. (m(b \<mapsto> Some (content a)), Inr ())) \<rparr>"

text \<open>Where the entries of a remote directory belong below \<open>local_path\<close>; what is neither a directory nor a regular file is
  passed over.\<close>

fun placed ::
    "(string \<Rightarrow> string \<Rightarrow> string) \<Rightarrow> (string \<Rightarrow> bytes) \<Rightarrow> (string \<Rightarrow> fs_info) \<Rightarrow> string \<Rightarrow> (string \<times> remote_node) list \<Rightarrow>
     (string \<times> bytes option) list" where
  "placed join content about local_path [] = []"
| "placed join content about local_path ((p, Leaf) # es) =
     (if fi_is_regular (about p) then [(join local_path (leaf_of p), Some (content p))] else [])
       @ placed join content about local_path es"
| "placed join content about local_path ((p, Directory cs) # es) =
     (join local_path (leaf_of p), None) # placed join content about (join local_path (leaf_of p)) cs
       @ placed join content about local_path es"

text \<open>Entries put into a map one after another.\<close>

primrec put_all :: "('k \<times> 'v) list \<Rightarrow> ('k \<rightharpoonup> 'v) \<Rightarrow> ('k \<rightharpoonup> 'v)" where
  "put_all [] m = m"
| "put_all (x # xs) m = put_all xs (m(fst x \<mapsto> snd x))"

lemma put_all_append [simp]: "put_all (xs @ ys) m = put_all ys (put_all xs m)"
  by (induction xs arbitrary: m) simp_all

lemma put_all_other: "k \<notin> fst ` set xs \<Longrightarrow> put_all xs m k = m k"
  by (induction xs arbitrary: m) simp_all

lemma put_all_in: "distinct (map fst xs) \<Longrightarrow> (k, v) \<in> set xs \<Longrightarrow> put_all xs m k = Some v"
proof (induction xs arbitrary: m)
  case (Cons x xs)
  then show ?case
  proof (cases "x = (k, v)")
    case True
    then have "k \<notin> fst ` set xs" using Cons.prems(1) by simp
    then show ?thesis using True by (simp add: put_all_other del: fun_upd_apply) simp
  qed simp
qed simp

lemma pull_tree_effect:
  "holds_entries fs w about es \<Longrightarrow> entries_effect (pull_tree_walker fs r (map_disk join content)) about local_path es m =
     put_all (placed join content about local_path es) m"
proof (induction join content about local_path es arbitrary: m rule: placed.induct)
  case (2 join content about local_path p es)
  then have "fi_path (about p) = p" by (auto simp: client_fill_info_def)
  moreover have "holds_entries fs w about es" "\<not> fi_is_directory (about p)" using 2(2) by simp_all
  ultimately show ?case using 2(1) by (simp add: pull_tree_walker_def pull_tree_visit_def map_disk_def del: fun_upd_apply)
next
  case (3 join content about local_path p cs es)
  then have "fi_path (about p) = p" by (auto simp: client_fill_info_def)
  moreover have "holds_entries fs w about cs" "holds_entries fs w about es" "fi_is_directory (about p)" using 3(3) by simp_all
  ultimately show ?case using 3(1,2) by (simp add: pull_tree_walker_def pull_tree_visit_def map_disk_def del: fun_upd_apply)
qed simp

lemma pull_tree_ask_plain:
  "\<exists>s'. pull_tree_ask fs r i (s, w) = (s', w) \<and> (if fi_is_directory i then s' = s else plain_step s s')"
proof (cases "\<not> fi_is_directory i \<and> fi_is_regular i")
  case True
  have "snd (fst (fs_object_file_size fs r (fi_path i) (s, w))) = w"
    by (auto simp: fs_object_file_size_def rs_file_size_def with_path_def split: prod.splits sum.splits)
  then obtain s' where s': "fst (fs_object_file_size fs r (fi_path i) (s, w)) = (s', w)" by (metis prod.collapse)
  then have "plain_step s s'" using plain_ops(3) [of s fs r "fi_path i" w] by (metis fst_conv)
  with True s' show ?thesis by (simp add: pull_tree_ask_def)
next
  case False
  then show ?thesis by (auto simp: pull_tree_ask_def plain_step_def)
qed

lemma pull_tree_walker_total: "never_raises (pull_tree_walker fs r (map_disk join content))"
  using pull_tree_ask_plain [of fs r] by (simp add: never_raises_def pull_tree_walker_def pull_tree_visit_def map_disk_def)


text \<open>A remote file system for the example: a directory with a file and a directory that has another file.\<close>

definition small_tree :: "unit filesystem" where
  "small_tree =
     two_files\<lparr> bf_is_directory := (\<lambda>p _. Inr (p = ''/d/s'')), bf_is_regular_file := (\<lambda>p _. Inr (p \<noteq> ''/d/s'')),
       bf_entries := (\<lambda>p _. Inr (if p = ''/d/s'' then [''/d/s/b''] else [''/d/a'', ''/d/s''])) \<rparr>"

definition small_entries :: "(string \<times> remote_node) list" where
  "small_entries = [(''/d/a'', Leaf), (''/d/s'', Directory [(''/d/s/b'', Leaf)])]"

definition small_content :: "string \<Rightarrow> bytes" where
  "small_content p = (if p = ''/d/a'' then [1] else [2])"

definition small_about :: "string \<Rightarrow> fs_info" where
  "small_about p = (case fill_info small_tree p () of Inr i \<Rightarrow> client_fill_info i p | Inl e \<Rightarrow> client_fill_info ei_new p)"

definition slash :: "string \<Rightarrow> string \<Rightarrow> string" where
  "slash p q = p @ ''/'' @ q"

lemma small_placed:
  "(''/t'', None) # placed slash small_content small_about ''/t'' small_entries
     = [(''/t'', None), (''/t/a'', Some [1]), (''/t/s'', None), (''/t/s/b'', Some [2])]"
  by code_simp


subsection \<open>Relative paths\<close>

text \<open>The path of an entry is passed to the service as it is. When it is relative, the service appends it to the path of the
  handle, which it already starts with: the subdirectories of a relative path are looked for in the wrong place.\<close>

lemma relative_entry_appended_twice:
  assumes "\<not> bf_is_absolute fs e" and "rs_inst s (ro_handle r) = Some p"
    and "bf_entries fs (bf_normalize fs (bf_append fs p e)) w = Inl x"
  shows "fs_object_begin_iterator fs r e (s, w) = ((s, w), Inl (carried x))"
  using assms
  by (simp add: fs_object_begin_iterator_def rs_iter_begin_def with_path_def path_from_request_def remote_def Let_def)

end
