(* ===== verification/Once_Timer.thy ===== *)
theory Once_Timer
  imports Prelude
begin

text \<open>
  The one-shot timer \<open>include/vtrc/common/timers/once.h\<close> (\<open>delayed_call\<close> of \<open>delayed-call.h\<close> has the same
  operations) over an asio deadline timer. The timer holds the handlers that wait for it; setting a new
  expiry time aborts them, as \<open>cancel\<close> does. A handler that was aborted or whose time came is queued in the
  \<open>io_service\<close> with its error code and run later.
\<close>

definition operation_aborted :: nat where "operation_aborted = 125"

record 'h once_timer =
  ot_waiting :: "'h list"
  ot_queued :: "('h \<times> nat) list"

definition once_new :: "'h once_timer" where
  "once_new = \<lparr> ot_waiting = [], ot_queued = [] \<rparr>"

definition ot_complete :: "nat \<Rightarrow> 'h once_timer \<Rightarrow> 'h once_timer" where
  "ot_complete err t = t\<lparr> ot_waiting := [], ot_queued := ot_queued t @ map (\<lambda>h. (h, err)) (ot_waiting t) \<rparr>"

definition once_cancel :: "'h once_timer \<Rightarrow> 'h once_timer" where
  "once_cancel t = ot_complete operation_aborted t"

definition once_call :: "'h \<Rightarrow> 'h once_timer \<Rightarrow> 'h once_timer" where
  "once_call hdl t = (let t = ot_complete operation_aborted t in t\<lparr> ot_waiting := ot_waiting t @ [hdl] \<rparr>)"

text \<open>The expiry time passes.\<close>

definition once_expire :: "'h once_timer \<Rightarrow> 'h once_timer" where
  "once_expire t = ot_complete 0 t"

text \<open>The \<open>io_service\<close> takes the next handler of the timer to run it.\<close>

definition once_take :: "'h once_timer \<Rightarrow> 'h once_timer \<times> ('h \<times> nat) option" where
  "once_take t = (case ot_queued t of [] \<Rightarrow> (t, None) | x # xs \<Rightarrow> (t\<lparr> ot_queued := xs \<rparr>, Some x))"

subsection \<open>Use of a timer\<close>

datatype 'h once_action = Once_call 'h | Once_cancel | Once_expire | Once_run

text \<open>A run records the handlers that were run, with their error codes.\<close>

fun once_act :: "'h once_action \<Rightarrow> 'h once_timer \<times> ('h \<times> nat) list \<Rightarrow> 'h once_timer \<times> ('h \<times> nat) list" where
  "once_act (Once_call h) (t, fired) = (once_call h t, fired)"
| "once_act Once_cancel (t, fired) = (once_cancel t, fired)"
| "once_act Once_expire (t, fired) = (once_expire t, fired)"
| "once_act Once_run (t, fired) = (case once_take t of (t, None) \<Rightarrow> (t, fired) | (t, Some x) \<Rightarrow> (t, fired @ [x]))"

definition once_acts :: "'h once_action list \<Rightarrow> 'h once_timer \<times> ('h \<times> nat) list \<Rightarrow> 'h once_timer \<times> ('h \<times> nat) list" where
  "once_acts as s = fold once_act as s"

fun handlers_of :: "'h once_action list \<Rightarrow> 'h list" where
  "handlers_of [] = []"
| "handlers_of (Once_call h # as) = h # handlers_of as"
| "handlers_of (_ # as) = handlers_of as"

definition pending :: "'h once_timer \<Rightarrow> 'h list" where
  "pending t = map fst (ot_queued t) @ ot_waiting t"

lemma pending_complete [simp]: "pending (ot_complete err t) = pending t"
  by (simp add: pending_def ot_complete_def comp_def)

lemma once_act_handlers:
  assumes "once_act a (t, fired) = (t', fired')"
  shows "map fst fired' @ pending t' = map fst fired @ pending t @ handlers_of [a]"
proof (cases a)
  case (Once_call h)
  have "ot_queued (ot_complete operation_aborted t) = ot_queued t @ map (\<lambda>h. (h, operation_aborted)) (ot_waiting t)"
    "ot_waiting (ot_complete operation_aborted t) = []" by (simp_all add: ot_complete_def)
  then show ?thesis using assms Once_call by (auto simp: once_call_def pending_def comp_def Let_def)
next
  case Once_run
  then show ?thesis using assms by (auto simp: once_take_def pending_def split: list.splits)
qed (use assms in \<open>auto simp: once_cancel_def once_expire_def\<close>)

text \<open>
  Every handler given to a timer is run at most once and in the order given, whatever cancellations, expiries and further
  calls come between; none is lost: what has not run yet still waits or is queued, and a timer holds at most the last handler.
\<close>

theorem once_runs_each_once:
  assumes "once_acts as (once_new, []) = (t, fired)"
  shows "map fst fired @ pending t = handlers_of as \<and> length (ot_waiting t) \<le> 1"
proof -
  have "map fst fired' @ pending t' = map fst r @ pending u @ handlers_of bs \<and> length (ot_waiting t') \<le> 1"
    if "once_acts bs (u, r) = (t', fired')" "length (ot_waiting u) \<le> 1" for bs u r t' fired'
    using that
  proof (induction bs arbitrary: u r)
    case (Cons b bs)
    obtain u' r' where b: "once_act b (u, r) = (u', r')" by fastforce
    have w: "length (ot_waiting u') \<le> 1"
      using b Cons.prems(2)
      by (cases b) (auto simp: once_call_def once_cancel_def once_expire_def once_take_def ot_complete_def Let_def split: list.splits)
    have "handlers_of (b # bs) = handlers_of [b] @ handlers_of bs" by (cases b) simp_all
    with once_act_handlers [OF b] Cons.IH [OF _ w] Cons.prems(1) b show ?case by (simp add: once_acts_def)
  qed (simp add: once_acts_def)
  from this [OF assms] show ?thesis by (simp add: once_new_def pending_def)
qed

theorem once_runs_each_once_witness:
  "map fst [(1 :: nat, operation_aborted), (2, 0)] @ pending \<lparr> ot_waiting = [], ot_queued = [] \<rparr>
     = handlers_of [Once_call 1, Once_call 2, Once_expire, Once_run, Once_run]
   \<and> length (ot_waiting (\<lparr> ot_waiting = [], ot_queued = [] \<rparr> :: nat once_timer)) \<le> 1"
  by (rule once_runs_each_once)
    (simp add: once_acts_def once_new_def once_call_def once_expire_def once_take_def ot_complete_def Let_def)

end
