(* ===== verification/Application.thy ===== *)
theory Application
  imports Handshake Protocol_Server
begin

text \<open>
  The default application of a server, \<open>lib/vtrc/server/application.cpp\<close>: the two services calls and reads run on, which of
  them the application owns, the factory that makes the services of a connection, and the answers it gives to the
  handshake. \<open>stop_all_clients\<close> is in the theory of the connections.
\<close>

text \<open>An \<open>io_service\<close> is a number; a connection is one too. \<open>ap_deleted\<close> lists what the destructor deleted.\<close>

record application =
  ap_ios :: nat
  ap_rpc_ios :: nat
  ap_own_ios :: bool
  ap_own_rpc_ios :: bool
  ap_factory :: "nat \<Rightarrow> services"
  ap_posted :: "(nat \<times> nat) list"
  ap_deleted :: "nat list"

definition default_factory :: "nat \<Rightarrow> services" where
  "default_factory c name = None"

definition application_own :: "nat \<Rightarrow> application" where
  "application_own ios =
     \<lparr> ap_ios = ios, ap_rpc_ios = ios, ap_own_ios = True, ap_own_rpc_ios = False, ap_factory = default_factory,
       ap_posted = [], ap_deleted = [] \<rparr>"

definition application_on :: "nat \<Rightarrow> application" where
  "application_on ios =
     \<lparr> ap_ios = ios, ap_rpc_ios = ios, ap_own_ios = False, ap_own_rpc_ios = False, ap_factory = default_factory,
       ap_posted = [], ap_deleted = [] \<rparr>"

definition application_on_pair :: "nat \<Rightarrow> nat \<Rightarrow> application" where
  "application_on_pair ios rpc_ios =
     \<lparr> ap_ios = ios, ap_rpc_ios = rpc_ios, ap_own_ios = False, ap_own_rpc_ios = False, ap_factory = default_factory,
       ap_posted = [], ap_deleted = [] \<rparr>"

text \<open>A null factory is replaced by the one that finds nothing.\<close>

definition app_assign_service_factory :: "(nat \<Rightarrow> services) option \<Rightarrow> application \<Rightarrow> application" where
  "app_assign_service_factory factory a = a\<lparr> ap_factory := (case factory of None \<Rightarrow> default_factory | Some f \<Rightarrow> f) \<rparr>"

definition app_get_service_by_name :: "application \<Rightarrow> nat \<Rightarrow> services" where
  "app_get_service_by_name a connection service_name = ap_factory a connection service_name"

text \<open>\<open>execute\<close> posts a call, here a number, to the service of the calls.\<close>

definition app_execute :: "nat \<Rightarrow> application \<Rightarrow> application" where
  "app_execute call a = a\<lparr> ap_posted := ap_posted a @ [(ap_rpc_ios a, call)] \<rparr>"

definition app_destroy :: "application \<Rightarrow> application" where
  "app_destroy a =
     a\<lparr> ap_deleted := ap_deleted a @ (if ap_own_ios a then [ap_ios a] else [])
                                    @ (if ap_own_rpc_ios a then [ap_rpc_ios a] else []) \<rparr>"

text \<open>What it tells the handshake.\<close>

definition default_server_app :: server_app where
  "default_server_app =
     \<lparr> sa_session_key = (\<lambda>_. []), sa_session_key_required = (\<lambda>_. False), sa_configure_session = (\<lambda>opts. opts) \<rparr>"

text \<open>An application deletes the service it made, and no other, exactly once.\<close>

lemma application_deletes_its_own:
  "ap_deleted (app_destroy (application_own ios)) = [ios]"
  "ap_deleted (app_destroy (application_on ios)) = []"
  "ap_deleted (app_destroy (application_on_pair ios rpc_ios)) = []"
  by (simp_all add: app_destroy_def application_own_def application_on_def application_on_pair_def)

text \<open>A connection looks a service up with the factory of the moment, and keeps what it found: a factory assigned later
  decides for the names that were not found yet.\<close>

lemma factory_decides_first_lookup:
  assumes "map_of (ps_services s) name = None"
    and "ps_get_service (app_get_service_by_name a c) name s = (s', r)"
  shows "r = ap_factory a c name
    \<and> (ps_get_service (app_get_service_by_name (app_assign_service_factory f a) c) name s'
       = (case r of
            Some srv \<Rightarrow> (s', Some srv)
          | None \<Rightarrow> ps_get_service (app_get_service_by_name (app_assign_service_factory f a) c) name s))"
  using assms
  by (cases "ap_factory a c name")
    (auto simp: ps_get_service_def app_get_service_by_name_def split: option.splits)

lemma no_factory_no_service:
  "app_get_service_by_name (app_assign_service_factory None a) c name = None"
  by (simp add: app_get_service_by_name_def app_assign_service_factory_def default_factory_def)

end
