(* ===== verification/Stress.thy ===== *)
theory Stress
  imports Once_Timer Http_Header Application
begin

text \<open>
  The server of \<open>examples/stress\<close> (\<open>stress-application.cpp\<close>, \<open>stress-service-impl.cpp\<close>): the endpoints and options its
  command line gives, the session key, the timers a client registers, the retries of a listener that failed to
  accept, and the mutual recursion of \<open>recursive_call\<close> and \<open>recursive_callback\<close> (\<open>client/events-impl.cpp\<close>).
\<close>

subsection \<open>Endpoints and options\<close>

datatype endpoint = Local_endpoint string | Tcp_endpoint string nat

definition create_from_string :: "lexical_cast \<Rightarrow> string \<Rightarrow> exn + endpoint" where
  "create_from_string lc name =
     (if CHR '':'' \<notin> set name then Inr (Local_endpoint name)
      else
        (let back = rev name;
             host = rev (tl (dropWhile (\<lambda>c. c \<noteq> CHR '':'') back));
             port = rev (takeWhile (\<lambda>c. c \<noteq> CHR '':'') back)
         in case lc 16 port of None \<Rightarrow> Inl Other_exception | Some n \<Rightarrow> Inr (Tcp_endpoint host n)))"

record stress_params =
  sp_message_size :: "u32 option"
  sp_stack_size :: "u32 option"
  sp_read_size :: "u32 option"
  sp_max_calls :: "u32 option"

definition given :: "u32 option \<Rightarrow> u32 \<Rightarrow> u32" where
  "given p d = (case p of None \<Rightarrow> d | Some v \<Rightarrow> v)"

definition stress_options :: "stress_params \<Rightarrow> session_options" where
  "stress_options params =
     (let opts = default_session_options in
      opts\<lparr> so_max_message_length := given (sp_message_size params) (so_max_message_length opts),
            so_max_stack_size := given (sp_stack_size params) (so_max_stack_size opts),
            so_read_buffer_size := given (sp_read_size params) (so_read_buffer_size opts),
            so_max_active_calls := given (sp_max_calls params) (so_max_active_calls opts) \<rparr>)"

text \<open>An address with a port is taken apart at the last colon, so that the address may contain colons itself; the name of a
  local socket may not.\<close>

lemma takeWhile_rev_colon:
  assumes "CHR '':'' \<notin> set port"
  shows "takeWhile (\<lambda>c. c \<noteq> CHR '':'') (rev (host @ CHR '':'' # port)) = rev port"
    and "dropWhile (\<lambda>c. c \<noteq> CHR '':'') (rev (host @ CHR '':'' # port)) = CHR '':'' # rev host"
  using takeWhile_colon [of "rev port" "rev host"] assms by simp_all

lemma create_from_string_tcp:
  assumes "lexical_cast_law lc"
  shows "create_from_string lc (host @ CHR '':'' # dec port) =
    (if port < 2 ^ 16 then Inr (Tcp_endpoint host port) else Inl Other_exception)"
proof -
  have "CHR '':'' \<notin> set (dec port)" by (rule dec_no_char) simp
  moreover have "lc 16 (dec port) = (if port < 2 ^ 16 then Some port else None)"
    using assms unfolding lexical_cast_law_def by blast
  ultimately show ?thesis
    by (simp add: create_from_string_def takeWhile_rev_colon [of "dec port" host, simplified] Let_def)
qed

lemma create_from_string_local: "CHR '':'' \<notin> set name \<Longrightarrow> create_from_string lc name = Inr (Local_endpoint name)"
  by (simp add: create_from_string_def)

subsection \<open>The application object\<close>

record stress_app = application +
  sp_call_count :: u64
  sp_key :: bytes

definition stress_execute :: "nat \<Rightarrow> stress_app \<Rightarrow> stress_app" where
  "stress_execute call a =
     a\<lparr> sp_call_count := sp_call_count a + 1, ap_posted := ap_posted a @ [(ap_rpc_ios a, call)] \<rparr>"

text \<open>What the application tells the handshake: a key is required where one is set.\<close>

definition stress_server_app :: "stress_app \<Rightarrow> server_app" where
  "stress_server_app a =
     \<lparr> sa_session_key = (\<lambda>_. sp_key a), sa_session_key_required = (\<lambda>_. sp_key a \<noteq> []),
       sa_configure_session = (\<lambda>opts. opts) \<rparr>"

definition stress_get_service :: "string \<Rightarrow> (nat \<Rightarrow> service) \<Rightarrow> nat \<Rightarrow> services" where
  "stress_get_service stress_name create_service conn service_name =
     (if service_name = stress_name then Some (create_service conn) else None)"

subsection \<open>Timers\<close>

text \<open>A timer object lives as long as the map or a handler refers to it; a handler carries its identifier and
  period. The model keeps one object per identifier, so it speaks of less than \<open>2 ^ 32\<close> registrations.\<close>

record stress_impl =
  sx_next_id :: u32
  sx_map :: "u32 list"
  sx_timers :: "u32 \<Rightarrow> (u32 \<times> u32) once_timer"
  sx_ticks :: "(u32 \<times> nat \<times> bool) list"

definition sx_new :: stress_impl where
  "sx_new = \<lparr> sx_next_id = 0, sx_map = [], sx_timers = (\<lambda>_. once_new), sx_ticks = [] \<rparr>"

definition start_timer :: "u32 \<Rightarrow> u32 \<Rightarrow> stress_impl \<Rightarrow> stress_impl" where
  "start_timer i microsec s = s\<lparr> sx_timers := (sx_timers s)(i := once_call (i, microsec) (sx_timers s i)) \<rparr>"

definition add_timer_event :: "u32 \<Rightarrow> stress_impl \<Rightarrow> stress_impl \<times> u32" where
  "add_timer_event microseconds s =
     (let i = sx_next_id s + 1;
          s = start_timer i microseconds
                (s\<lparr> sx_next_id := i, sx_timers := (sx_timers s)(i := once_new) \<rparr>)
      in (s\<lparr> sx_map := (if i \<in> set (sx_map s) then sx_map s else sx_map s @ [i]) \<rparr>, i))"

definition del_timer_event :: "u32 \<Rightarrow> stress_impl \<Rightarrow> stress_impl" where
  "del_timer_event i s =
     (if i \<in> set (sx_map s)
      then s\<lparr> sx_timers := (sx_timers s)(i := once_cancel (sx_timers s i)), sx_map := removeAll i (sx_map s) \<rparr>
      else s)"

text \<open>The callback's answer decides whether the timer is started again; \<open>timer_cb\<close> of the service does not look at the error code.\<close>

definition timer_cb :: "bool \<Rightarrow> bool \<Rightarrow> nat \<Rightarrow> bool" where
  "timer_cb client_alive channel_alive error_code \<longleftrightarrow> client_alive \<and> channel_alive"

definition timer_handler :: "(nat \<Rightarrow> bool) \<Rightarrow> nat \<Rightarrow> u32 \<Rightarrow> u32 \<Rightarrow> stress_impl \<Rightarrow> stress_impl" where
  "timer_handler cb err i microsec s =
     (let s = s\<lparr> sx_ticks := sx_ticks s @ [(i, err, cb err)] \<rparr>
      in if cb err then start_timer i microsec s else s)"

text \<open>The service registers a timer; its \<open>unreg\<close> does nothing.\<close>

definition stress_reg :: "u32 \<Rightarrow> stress_impl \<Rightarrow> stress_impl \<times> u32" where
  "stress_reg microseconds s = add_timer_event microseconds s"

definition stress_unreg :: "u32 \<Rightarrow> stress_impl \<Rightarrow> stress_impl" where
  "stress_unreg i s = s"

datatype timer_action = Tm_add u32 | Tm_del u32 | Tm_expire u32 | Tm_run u32 "nat \<Rightarrow> bool"

fun tm_act :: "timer_action \<Rightarrow> stress_impl \<Rightarrow> stress_impl" where
  "tm_act (Tm_add microsec) s = fst (add_timer_event microsec s)"
| "tm_act (Tm_del i) s = del_timer_event i s"
| "tm_act (Tm_expire i) s = s\<lparr> sx_timers := (sx_timers s)(i := once_expire (sx_timers s i)) \<rparr>"
| "tm_act (Tm_run i cb) s =
     (case once_take (sx_timers s i) of
        (t, None) \<Rightarrow> s
      | (t, Some ((j, microsec), err)) \<Rightarrow>
          timer_handler cb err j microsec (s\<lparr> sx_timers := (sx_timers s)(i := t) \<rparr>))"

definition tm_acts :: "timer_action list \<Rightarrow> stress_impl \<Rightarrow> stress_impl" where
  "tm_acts as s = fold tm_act as s"

text \<open>Whether every callback of a timer so far asked for more.\<close>

definition wanted :: "u32 \<Rightarrow> stress_impl \<Rightarrow> bool" where
  "wanted i s \<longleftrightarrow> (\<forall>(j, err, again) \<in> set (sx_ticks s). j = i \<longrightarrow> again)"

definition due :: "u32 \<Rightarrow> stress_impl \<Rightarrow> bool" where
  "due i s \<longleftrightarrow> 0 < unat i \<and> unat i \<le> unat (sx_next_id s) \<and> wanted i s"

definition tm_inv :: "nat \<Rightarrow> stress_impl \<Rightarrow> bool" where
  "tm_inv n s \<longleftrightarrow> unat (sx_next_id s) \<le> n
     \<and> (\<forall>i. \<forall>(j, m) \<in> set (pending (sx_timers s i)). j = i)
     \<and> (\<forall>(j, err, again) \<in> set (sx_ticks s). 0 < unat j \<and> unat j \<le> unat (sx_next_id s))
     \<and> (\<forall>i. length (pending (sx_timers s i)) = (if due i s then 1 else 0))"

lemma unat_step: "unat x + 1 < 2 ^ 32 \<Longrightarrow> unat (x + 1 :: u32) = unat x + 1"
  by (simp add: unat_word_ariths)

lemma pending_ops [simp]:
  "pending (once_cancel t) = pending t" "pending (once_expire t) = pending t" "pending (once_call h t) = pending t @ [h]"
  "pending once_new = []"
proof -
  show "pending (once_call h t) = pending t @ [h]"
    using once_act_handlers [of "Once_call h" t "[]" "once_call h t" "[]"] by simp
qed (simp_all add: once_cancel_def once_expire_def once_new_def pending_def [of "\<lparr> ot_waiting = [], ot_queued = [] \<rparr>"])

lemma pending_take: "once_take t = (t', Some x) \<Longrightarrow> pending t = fst x # pending t'"
  by (auto simp: once_take_def pending_def split: list.splits)

lemma tm_inv_timers:
  assumes "tm_inv n s" and "\<And>i. pending (f i) = pending (sx_timers s i)"
  shows "tm_inv n (s\<lparr> sx_timers := f \<rparr>)"
  using assms by (simp add: tm_inv_def due_def wanted_def)

lemma tm_inv_add:
  assumes "tm_inv n s" and "n + 1 < 2 ^ 32"
  shows "tm_inv (Suc n) (fst (add_timer_event microsec s))"
proof -
  define k where "k = sx_next_id s + 1"
  define t where "t = fst (add_timer_event microsec s)"
  have "unat (sx_next_id s) + 1 < 2 ^ 32" using assms by (simp add: tm_inv_def)
  then have k: "unat k = unat (sx_next_id s) + 1" unfolding k_def by (rule unat_step)
  have f: "sx_next_id t = k" "sx_ticks t = sx_ticks s" "sx_timers t = (sx_timers s)(k := once_call (k, microsec) once_new)"
    by (simp_all add: t_def add_timer_event_def start_timer_def Let_def k_def)
  have new: "wanted k s" using assms(1) k by (fastforce simp: tm_inv_def wanted_def)
  have ne: "i \<noteq> k \<Longrightarrow> unat i \<le> unat k \<Longrightarrow> unat i \<le> unat (sx_next_id s)" for i
    using k by (metis Suc_eq_plus1 le_SucE word_unat_eq_iff)
  have "due i t = (i = k \<or> due i s)" for i
    using k new ne [of i] by (auto simp: due_def f wanted_def)
  moreover have "\<not> due k s" using k by (simp add: due_def)
  ultimately have "length (pending (sx_timers t i)) = (if due i t then 1 else 0)" for i
    using assms(1) by (simp add: f tm_inv_def)
  moreover have "\<forall>(j, m) \<in> set (pending (sx_timers t i)). j = i" for i
    using assms(1) by (auto simp: f tm_inv_def)
  moreover have "\<forall>(j, err, again) \<in> set (sx_ticks t). 0 < unat j \<and> unat j \<le> unat (sx_next_id t)"
    using assms(1) k by (fastforce simp: f tm_inv_def)
  ultimately show ?thesis using assms(1) k f(1) unfolding tm_inv_def t_def [symmetric] by simp
qed

lemma tm_inv_run:
  assumes s: "tm_inv n s" and t: "once_take (sx_timers s i) = (t, Some ((j, microsec), err))"
  shows "tm_inv n (timer_handler cb err j microsec (s\<lparr> sx_timers := (sx_timers s)(i := t) \<rparr>))"
proof -
  have p: "pending (sx_timers s i) = (j, microsec) # pending t" using pending_take [OF t] by simp
  have j: "j = i" using s p unfolding tm_inv_def by (metis (mono_tags, lifting) case_prodD list.set_intros(1))
  have one: "pending t = []" "0 < unat i" "unat i \<le> unat (sx_next_id s)" "wanted i s"
  proof -
    have "length (pending (sx_timers s i)) = (if due i s then 1 else 0)" using s by (simp add: tm_inv_def)
    with p have "due i s" "pending t = []" by (simp_all split: if_splits)
    then show "pending t = []" "0 < unat i" "unat i \<le> unat (sx_next_id s)" "wanted i s" by (simp_all add: due_def)
  qed
  define u where "u = timer_handler cb err j microsec (s\<lparr> sx_timers := (sx_timers s)(i := t) \<rparr>)"
  have f: "sx_next_id u = sx_next_id s" "sx_ticks u = sx_ticks s @ [(i, err, cb err)]"
    "pending (sx_timers u x) = (if x = i then if cb err then [(i, microsec)] else [] else pending (sx_timers s x))" for x
    using one(1) by (simp_all add: u_def timer_handler_def start_timer_def Let_def j)
  have w: "wanted x u = (wanted x s \<and> (x = i \<longrightarrow> cb err))" for x by (auto simp: wanted_def f)
  have d: "due x u = (if x = i then cb err else due x s)" for x using one by (auto simp: due_def f w)
  have "length (pending (sx_timers u x)) = (if due x u then 1 else 0)" for x
  proof -
    have "length (pending (sx_timers s x)) = (if due x s then 1 else 0)" using s by (simp add: tm_inv_def)
    then show ?thesis unfolding d f(3) by auto
  qed
  moreover have "\<forall>(y, m) \<in> set (pending (sx_timers u x)). y = x" for x
    using s unfolding f(3) by (simp add: tm_inv_def)
  ultimately show ?thesis using s one(2,3) unfolding u_def [symmetric] tm_inv_def by (simp add: f)
qed

lemma tm_inv_act:
  assumes "tm_inv n s" and "n + 1 < 2 ^ 32"
  shows "tm_inv (Suc n) (tm_act a s)"
proof -
  have weaken: "tm_inv n u \<Longrightarrow> tm_inv (Suc n) u" for u by (auto simp: tm_inv_def)
  show ?thesis
  proof (cases a)
    case (Tm_add microsec)
    then show ?thesis using tm_inv_add [OF assms] by simp
  next
    case (Tm_del i)
    have "tm_inv n (s\<lparr> sx_timers := (sx_timers s)(i := once_cancel (sx_timers s i)) \<rparr>)"
      by (rule tm_inv_timers [OF assms(1)]) simp
    then have "tm_inv n (del_timer_event i s)" using assms(1) by (simp add: del_timer_event_def tm_inv_def due_def wanted_def)
    with Tm_del weaken show ?thesis by simp
  next
    case (Tm_expire i)
    have "tm_inv n (s\<lparr> sx_timers := (sx_timers s)(i := once_expire (sx_timers s i)) \<rparr>)"
      by (rule tm_inv_timers [OF assms(1)]) simp
    with Tm_expire weaken show ?thesis by simp
  next
    case (Tm_run i cb)
    then show ?thesis using assms(1) tm_inv_run [OF assms(1), of i] weaken
      by (auto simp: once_take_def split: list.splits)
  qed
qed

text \<open>
  A timer ticks as long as its callback wants it to. After any registrations, cancellations, expiries and runs of handlers, each
  registered timer has exactly one wait outstanding, with its own handler, if all its callbacks so far answered true, and
  none for ever after one answered false; no other timer has any.
\<close>

theorem stress_timer_ticks_while_wanted:
  assumes "length as + 1 < 2 ^ 32"
  shows "length (pending (sx_timers (tm_acts as sx_new) i))
      = (if 0 < unat i \<and> unat i \<le> unat (sx_next_id (tm_acts as sx_new)) \<and> wanted i (tm_acts as sx_new) then 1 else 0)
    \<and> (\<forall>(j, m) \<in> set (pending (sx_timers (tm_acts as sx_new) i)). j = i)"
proof -
  have "tm_inv n s \<Longrightarrow> n + length bs + 1 < 2 ^ 32 \<Longrightarrow> tm_inv (n + length bs) (tm_acts bs s)" for n bs s
  proof (induction bs arbitrary: n s)
    case (Cons b bs)
    then have "tm_inv (Suc n) (tm_act b s)" by (intro tm_inv_act) simp_all
    from Cons.IH [OF this] Cons.prems show ?case by (simp add: tm_acts_def)
  qed (simp add: tm_acts_def)
  moreover have "tm_inv 0 sx_new" by (auto simp: tm_inv_def sx_new_def due_def)
  ultimately have "tm_inv (length as) (tm_acts as sx_new)" using assms by (metis add_0)
  then show ?thesis by (simp add: tm_inv_def due_def)
qed

theorem stress_timer_ticks_while_wanted_witness:
  "length (pending (sx_timers (tm_acts [Tm_add 10, Tm_expire 1, Tm_run 1 (\<lambda>_. True)] sx_new) 1)) = 1"
proof -
  let ?s = "tm_acts [Tm_add 10, Tm_expire 1, Tm_run 1 (\<lambda>_. True)] sx_new"
  have "sx_ticks ?s = [(1, 0, True)]" "sx_next_id ?s = 1"
    by (simp_all add: tm_acts_def sx_new_def add_timer_event_def start_timer_def once_call_def once_new_def ot_complete_def
        once_expire_def once_take_def timer_handler_def Let_def)
  then have "0 < unat (1 :: u32) \<and> unat (1 :: u32) \<le> unat (sx_next_id ?s) \<and> wanted 1 ?s" by (simp add: wanted_def)
  with stress_timer_ticks_while_wanted [of "[Tm_add 10, Tm_expire 1, Tm_run 1 (\<lambda>_. True)]" 1] show ?thesis by simp
qed

text \<open>Deleting a timer aborts its wait, but the handler runs the callback all the same, and \<open>timer_cb\<close> answers true while the
  client is there: the timer is started again, and now it is no longer in the map, so nothing can stop it.\<close>

lemma deleted_timer_goes_on:
  assumes "i \<in> set (sx_map s)" and "sx_timers s i = \<lparr> ot_waiting = [(i, microsec)], ot_queued = [] \<rparr>"
  shows "sx_timers (tm_act (Tm_run i (timer_cb True True)) (del_timer_event i s)) i
           = \<lparr> ot_waiting = [(i, microsec)], ot_queued = [] \<rparr>
    \<and> i \<notin> set (sx_map (tm_act (Tm_run i (timer_cb True True)) (del_timer_event i s)))
    \<and> last (sx_ticks (tm_act (Tm_run i (timer_cb True True)) (del_timer_event i s))) = (i, operation_aborted, True)"
  using assms
  by (simp add: del_timer_event_def once_cancel_def ot_complete_def once_take_def timer_handler_def timer_cb_def
      start_timer_def once_call_def Let_def)

subsection \<open>Listeners that fail to accept\<close>

text \<open>All listeners share one retry timer; \<open>rt_started\<close> are the listeners that were started again.\<close>

record retry_state =
  rt_timer :: "(nat \<times> u32) once_timer"
  rt_started :: "nat list"

definition start_retry_accept :: "nat \<Rightarrow> u32 \<Rightarrow> retry_state \<Rightarrow> retry_state" where
  "start_retry_accept l rto s = s\<lparr> rt_timer := once_call (l, rto) (rt_timer s) \<rparr>"

definition on_accept_failed :: "nat \<Rightarrow> u32 \<Rightarrow> retry_state \<Rightarrow> retry_state" where
  "on_accept_failed l retry_to s = start_retry_accept l retry_to s"

definition retry_timer_handler :: "bool \<Rightarrow> nat \<Rightarrow> u32 \<Rightarrow> nat \<Rightarrow> retry_state \<Rightarrow> retry_state" where
  "retry_timer_handler start_raises l retry_to code s =
     (if code = 0
      then (if start_raises then start_retry_accept l retry_to s else s\<lparr> rt_started := rt_started s @ [l] \<rparr>)
      else s)"

definition run_retry :: "bool \<Rightarrow> retry_state \<Rightarrow> retry_state" where
  "run_retry start_raises s =
     (case once_take (rt_timer s) of
        (t, None) \<Rightarrow> s
      | (t, Some ((l, rto), code)) \<Rightarrow> retry_timer_handler start_raises l rto code (s\<lparr> rt_timer := t \<rparr>))"

text \<open>When two listeners fail within one retry period, the first is never started again: the second call aborts its wait, and the
  handler ignores an aborted wait.\<close>

lemma second_failure_loses_first:
  assumes "rt_timer s = once_new"
    and "t = on_accept_failed l2 rto (on_accept_failed l1 rto s)"
  shows "rt_started (run_retry False t) = rt_started s
    \<and> pending (rt_timer (run_retry False t)) = [(l2, rto)]"
  using assms
  by (simp add: on_accept_failed_def start_retry_accept_def run_retry_def once_call_def ot_complete_def once_new_def once_take_def
      retry_timer_handler_def operation_aborted_def pending_def Let_def)

subsection \<open>Mutual recursion\<close>

datatype recursion_step = Recursive_call u32 | Recursive_callback u32

text \<open>The service calls back with the same balance, the client calls with one less; the calls are nested.\<close>

function recursive_calls :: "u32 \<Rightarrow> recursion_step list" where
  "recursive_calls balance =
     Recursive_call balance #
     (if balance = 0 then [] else Recursive_callback balance # recursive_calls (balance - 1))"
  by pat_completeness auto
termination
  by (relation "measure unat") (auto simp: unat_gt_0 unat_minus_one)

declare recursive_calls.simps [simp del]

lemma recursive_calls_count: "length (recursive_calls b) = 2 * unat b + 1 \<and> last (recursive_calls b) = Recursive_call 0"
proof (induction b rule: recursive_calls.induct)
  case (1 b)
  show ?case
  proof (cases "b = 0")
    case True
    then show ?thesis by (simp add: recursive_calls.simps [of 0])
  next
    case False
    then have "recursive_calls b = Recursive_call b # Recursive_callback b # recursive_calls (b - 1)"
      by (simp add: recursive_calls.simps [of b])
    moreover have "recursive_calls (b - 1) \<noteq> []" by (simp add: recursive_calls.simps [of "b - 1"])
    moreover have "unat b = unat (b - 1) + 1" using False by (simp add: unat_minus_one unat_gt_0)
    ultimately show ?thesis using 1 [OF False] by simp
  qed
qed

end
