(* ===== verification/Calculator.thy ===== *)
theory Calculator
  imports Protocol_Layer
begin

text \<open>
  The calculator of \<open>examples/calculator\<close>: a service whose methods take numbers or names of variables, and ask the
  caller for the value of a name while they run (\<open>server/main.cpp\<close>); the variables of the client, and the
  client object that makes the calls (\<open>client/main.cpp\<close>, \<open>client/calculator-impl.cpp\<close>). Numbers are a type of
  their own with the four operations and the test for zero as arguments. A remote call does what the
  method does, and an exception reaches the caller with its code and text only.
\<close>

subsection \<open>Messages\<close>

record 'n number =
  num_value :: "'n option"
  num_name :: string

type_synonym 'n number_pair = "'n number \<times> 'n number"

record 'n arith =
  ar_sum :: "'n \<Rightarrow> 'n \<Rightarrow> 'n"
  ar_mul :: "'n \<Rightarrow> 'n \<Rightarrow> 'n"
  ar_div :: "'n \<Rightarrow> 'n \<Rightarrow> 'n"
  ar_pow :: "'n \<Rightarrow> 'n \<Rightarrow> 'n"
  ar_is_zero :: "'n \<Rightarrow> bool"
  ar_default :: 'n

subsection \<open>The variables of the client\<close>

record 'n variable_pool =
  vp_variables :: "string \<rightharpoonup> 'n"
  vp_callback_count :: u32

definition variable_pool_new :: "'n variable_pool" where
  "variable_pool_new = \<lparr> vp_variables = Map.empty, vp_callback_count = 0 \<rparr>"

definition vp_set :: "string \<Rightarrow> 'n \<Rightarrow> 'n variable_pool \<Rightarrow> 'n variable_pool" where
  "vp_set name v p = p\<lparr> vp_variables := (vp_variables p)(name \<mapsto> v) \<rparr>"

definition set_variable :: "'n arith \<Rightarrow> 'n number \<Rightarrow> 'n variable_pool \<Rightarrow> 'n variable_pool" where
  "set_variable ar req p =
     (let p = p\<lparr> vp_callback_count := vp_callback_count p + 1 \<rparr>
      in p\<lparr> vp_variables := (vp_variables p)(num_name req \<mapsto> case num_value req of None \<Rightarrow> ar_default ar | Some v \<Rightarrow> v) \<rparr>)"

definition not_found_text :: "string \<Rightarrow> string" where
  "not_found_text name = ''Variable is not found: '' @ CHR 0x27 # name @ [CHR 0x27]"

definition get_variable :: "'n number \<Rightarrow> 'n variable_pool \<Rightarrow> 'n variable_pool \<times> (exn + 'n)" where
  "get_variable req p =
     (let p = p\<lparr> vp_callback_count := vp_callback_count p + 1 \<rparr>
      in case vp_variables p (num_name req) of
           None \<Rightarrow> (p, Inl (Runtime_error (not_found_text (num_name req))))
         | Some v \<Rightarrow> (p, Inr v))"

subsection \<open>The service\<close>

text \<open>The methods run on the server; the state they change is that of the client, by callbacks.\<close>

definition request_client_variable :: "string \<Rightarrow> 'n variable_pool \<Rightarrow> 'n variable_pool \<times> (exn + 'n)" where
  "request_client_variable name = (\<lambda>p. remote (get_variable \<lparr> num_value = None, num_name = name \<rparr> p))"

definition extract_number :: "'n number \<Rightarrow> 'n variable_pool \<Rightarrow> 'n variable_pool \<times> (exn + 'n)" where
  "extract_number num p =
     (case num_value num of Some v \<Rightarrow> (p, Inr v) | None \<Rightarrow> request_client_variable (num_name num) p)"

definition extract_num_pair :: "'n number_pair \<Rightarrow> 'n variable_pool \<Rightarrow> 'n variable_pool \<times> (exn + ('n \<times> 'n))" where
  "extract_num_pair req p =
     (case extract_number (fst req) p of
        (p, Inl e) \<Rightarrow> (p, Inl e)
      | (p, Inr x) \<Rightarrow>
          (case extract_number (snd req) p of
             (p, Inl e) \<Rightarrow> (p, Inl e)
           | (p, Inr y) \<Rightarrow> (p, Inr (x, y))))"

datatype calc_op = Sum | Mul | Div | Pow

definition calc_sum :: "'n arith \<Rightarrow> 'n \<times> 'n \<Rightarrow> exn + 'n" where
  "calc_sum ar = (\<lambda>(x, y). Inr (ar_sum ar x y))"

definition calc_mul :: "'n arith \<Rightarrow> 'n \<times> 'n \<Rightarrow> exn + 'n" where
  "calc_mul ar = (\<lambda>(x, y). Inr (ar_mul ar x y))"

definition calc_div :: "'n arith \<Rightarrow> 'n \<times> 'n \<Rightarrow> exn + 'n" where
  "calc_div ar = (\<lambda>(x, y). if ar_is_zero ar y then Inl (Logic_error ''Division by zero.'') else Inr (ar_div ar x y))"

definition calc_pow :: "'n arith \<Rightarrow> 'n \<times> 'n \<Rightarrow> exn + 'n" where
  "calc_pow ar = (\<lambda>(x, y). Inr (ar_pow ar x y))"

fun op_method :: "calc_op \<Rightarrow> 'n arith \<Rightarrow> 'n \<times> 'n \<Rightarrow> exn + 'n" where
  "op_method Sum = calc_sum" | "op_method Mul = calc_mul" | "op_method Div = calc_div" | "op_method Pow = calc_pow"

definition calc_method :: "'n arith \<Rightarrow> calc_op \<Rightarrow> 'n number_pair \<Rightarrow> 'n variable_pool \<Rightarrow> 'n variable_pool \<times> (exn + 'n)" where
  "calc_method ar op req p =
     (case extract_num_pair req p of
        (p, Inl e) \<Rightarrow> (p, Inl e)
      | (p, Inr xy) \<Rightarrow> (p, op_method op ar xy))"

subsection \<open>The client object\<close>

text \<open>An argument of a call is a number or a name.\<close>

datatype 'n operand = Value 'n | Name string

fun operand_number :: "'n operand \<Rightarrow> 'n number" where
  "operand_number (Value v) = \<lparr> num_value = Some v, num_name = [] \<rparr>"
| "operand_number (Name x) = \<lparr> num_value = None, num_name = x \<rparr>"

record 'n calc_client =
  cal_calls :: u32
  cal_pool :: "'n variable_pool"

definition make_pair :: "'n operand \<Rightarrow> 'n operand \<Rightarrow> 'n calc_client \<Rightarrow> 'n calc_client \<times> 'n number_pair" where
  "make_pair l r c = (c\<lparr> cal_calls := cal_calls c + 1 \<rparr>, (operand_number l, operand_number r))"

definition calc_call ::
    "'n arith \<Rightarrow> calc_op \<Rightarrow> 'n operand \<Rightarrow> 'n operand \<Rightarrow> 'n calc_client \<Rightarrow> 'n calc_client \<times> (exn + 'n)" where
  "calc_call ar op l r c =
     (case make_pair l r c of (c, req) \<Rightarrow>
      case remote (calc_method ar op req (cal_pool c)) of (p, res) \<Rightarrow> (c\<lparr> cal_pool := p \<rparr>, res))"

text \<open>Nested calls such as \<open>calc->sum( 17, calc->mul( 3, 5 ) )\<close>, arguments from left to right.\<close>

datatype 'n expr = Num 'n | Var string | Op calc_op "'n expr" "'n expr"

fun calc_run :: "'n arith \<Rightarrow> 'n expr \<Rightarrow> 'n calc_client \<Rightarrow> 'n calc_client \<times> (exn + 'n operand)" where
  "calc_run ar (Num v) c = (c, Inr (Value v))"
| "calc_run ar (Var x) c = (c, Inr (Name x))"
| "calc_run ar (Op op l r) c =
     (case calc_run ar l c of
        (c, Inl e) \<Rightarrow> (c, Inl e)
      | (c, Inr l) \<Rightarrow>
          (case calc_run ar r c of
             (c, Inl e) \<Rightarrow> (c, Inl e)
           | (c, Inr r) \<Rightarrow>
               (case calc_call ar op l r c of
                  (c, Inl e) \<Rightarrow> (c, Inl e)
                | (c, Inr v) \<Rightarrow> (c, Inr (Value v)))))"

subsection \<open>What is computed\<close>

text \<open>The meaning of an expression in the variables of the client: a value or the text of the first error. The
  names that are operands of an operation are looked up after both operands have been computed.\<close>

fun operand_value :: "(string \<rightharpoonup> 'n) \<Rightarrow> 'n operand \<Rightarrow> string + 'n" where
  "operand_value vars (Value v) = Inr v"
| "operand_value vars (Name x) = (case vars x of None \<Rightarrow> Inl (not_found_text x) | Some v \<Rightarrow> Inr v)"

definition op_value :: "'n arith \<Rightarrow> calc_op \<Rightarrow> string + 'n \<Rightarrow> string + 'n \<Rightarrow> string + 'n" where
  "op_value ar op l r =
     (case (l, r) of
        (Inl t, _) \<Rightarrow> Inl t
      | (Inr x, Inl t) \<Rightarrow> Inl t
      | (Inr x, Inr y) \<Rightarrow>
          (case op of
             Sum \<Rightarrow> Inr (ar_sum ar x y)
           | Mul \<Rightarrow> Inr (ar_mul ar x y)
           | Div \<Rightarrow> if ar_is_zero ar y then Inl ''Division by zero.'' else Inr (ar_div ar x y)
           | Pow \<Rightarrow> Inr (ar_pow ar x y)))"

fun expr_operand :: "'n arith \<Rightarrow> (string \<rightharpoonup> 'n) \<Rightarrow> 'n expr \<Rightarrow> string + 'n operand" where
  "expr_operand ar vars (Num v) = Inr (Value v)"
| "expr_operand ar vars (Var x) = Inr (Name x)"
| "expr_operand ar vars (Op op l r) =
     (case (expr_operand ar vars l, expr_operand ar vars r) of
        (Inl t, _) \<Rightarrow> Inl t
      | (Inr x, Inl t) \<Rightarrow> Inl t
      | (Inr x, Inr y) \<Rightarrow> map_sum id Value (op_value ar op (operand_value vars x) (operand_value vars y)))"

definition calc_error :: "string \<Rightarrow> exn" where
  "calc_error t = Rpc_exception ERR_INTERNAL CATEGORY_INTERNAL t"

lemma carried_simps [simp]:
  "carried (Runtime_error t) = calc_error t" "carried (Logic_error t) = calc_error t" "carried (calc_error t) = calc_error t"
  by (simp_all add: carried_def calc_error_def)

definition lookups :: "'n operand \<Rightarrow> u32" where
  "lookups x = (case x of Name _ \<Rightarrow> 1 | Value _ \<Rightarrow> 0)"

lemma extract_operand:
  "\<exists>n. extract_number (operand_number x) p
     = (p\<lparr> vp_callback_count := n \<rparr>, map_sum calc_error id (operand_value (vp_variables p) x))
   \<and> n = vp_callback_count p + lookups x"
  by (cases x) (auto simp: extract_number_def request_client_variable_def get_variable_def remote_def lookups_def Let_def
      split: option.splits)

text \<open>One call: the value of the operation or its error, in one call and at most two callbacks.\<close>

lemma calc_call_value:
  "\<exists>n. calc_call ar op l r c
     = (c\<lparr> cal_calls := cal_calls c + 1, cal_pool := (cal_pool c)\<lparr> vp_callback_count := n \<rparr> \<rparr>,
        map_sum calc_error id
          (op_value ar op (operand_value (vp_variables (cal_pool c)) l) (operand_value (vp_variables (cal_pool c)) r)))"
proof -
  obtain n where n: "extract_number (operand_number l) (cal_pool c)
      = ((cal_pool c)\<lparr> vp_callback_count := n \<rparr>, map_sum calc_error id (operand_value (vp_variables (cal_pool c)) l))"
    using extract_operand [of l "cal_pool c"] by blast
  obtain m where m: "extract_number (operand_number r) ((cal_pool c)\<lparr> vp_callback_count := n \<rparr>)
      = ((cal_pool c)\<lparr> vp_callback_count := m \<rparr>, map_sum calc_error id (operand_value (vp_variables (cal_pool c)) r))"
    using extract_operand [of r "(cal_pool c)\<lparr> vp_callback_count := n \<rparr>"] by auto
  show ?thesis
    by (cases "operand_value (vp_variables (cal_pool c)) l"; cases "operand_value (vp_variables (cal_pool c)) r"; cases op)
      (auto simp: calc_call_def make_pair_def calc_method_def extract_num_pair_def n m remote_def op_value_def
        calc_sum_def calc_mul_def calc_div_def calc_pow_def)
qed

lemma calc_client_same: "\<exists>n m. c = c\<lparr> cal_calls := n, cal_pool := (cal_pool c)\<lparr> vp_callback_count := m \<rparr> \<rparr>"
  by (intro exI [of _ "cal_calls c"] exI [of _ "vp_callback_count (cal_pool c)"]) simp

text \<open>
  Nested remote calls compute the expression they spell out: whatever the variables of the client are, evaluating an
  expression through the service gives its value, or raises one internal error with the text of the
  first failure, a missing variable or a division by zero; the variables do not change.
\<close>

theorem calculator_evaluates:
  "\<exists>n m. calc_run ar e c
     = (c\<lparr> cal_calls := n, cal_pool := (cal_pool c)\<lparr> vp_callback_count := m \<rparr> \<rparr>,
        map_sum calc_error id (expr_operand ar (vp_variables (cal_pool c)) e))"
proof (induction e arbitrary: c)
  case (Op op l r)
  obtain n m where l: "calc_run ar l c = (c\<lparr> cal_calls := n, cal_pool := (cal_pool c)\<lparr> vp_callback_count := m \<rparr> \<rparr>,
      map_sum calc_error id (expr_operand ar (vp_variables (cal_pool c)) l))" using Op.IH(1) by blast
  define c1 where "c1 = c\<lparr> cal_calls := n, cal_pool := (cal_pool c)\<lparr> vp_callback_count := m \<rparr> \<rparr>"
  obtain n' m' where r: "calc_run ar r c1 = (c1\<lparr> cal_calls := n', cal_pool := (cal_pool c1)\<lparr> vp_callback_count := m' \<rparr> \<rparr>,
      map_sum calc_error id (expr_operand ar (vp_variables (cal_pool c1)) r))" using Op.IH(2) by blast
  define c2 where "c2 = c\<lparr> cal_calls := n', cal_pool := (cal_pool c)\<lparr> vp_callback_count := m' \<rparr> \<rparr>"
  have r': "calc_run ar r c1 = (c2, map_sum calc_error id (expr_operand ar (vp_variables (cal_pool c)) r))"
    unfolding r by (simp add: c1_def c2_def)
  have v: "vp_variables (cal_pool c2) = vp_variables (cal_pool c)" by (simp add: c2_def)
  show ?case
  proof (cases "expr_operand ar (vp_variables (cal_pool c)) l")
    case (Inl t)
    then show ?thesis using l by auto
  next
    case x: (Inr x)
    show ?thesis
    proof (cases "expr_operand ar (vp_variables (cal_pool c)) r")
      case (Inl t)
      then show ?thesis using l x r' by (auto simp: c1_def c2_def)
    next
      case y: (Inr y)
      obtain k where "calc_call ar op x y c2 = (c2\<lparr> cal_calls := cal_calls c2 + 1, cal_pool := (cal_pool c2)\<lparr> vp_callback_count := k \<rparr> \<rparr>,
          map_sum calc_error id (op_value ar op (operand_value (vp_variables (cal_pool c)) x) (operand_value (vp_variables (cal_pool c)) y)))"
        using calc_call_value [of ar op x y c2] unfolding v by blast
      with l x r' y show ?thesis
        by (cases "op_value ar op (operand_value (vp_variables (cal_pool c)) x) (operand_value (vp_variables (cal_pool c)) y)")
          (auto simp: c1_def c2_def)
    qed
  qed
qed (simp_all add: calc_client_same)

end
