(* ===== verification/Ssl_Listener.thy ===== *)
theory Ssl_Listener
  imports Connections Once_Timer
begin

text \<open>
  The listeners of a server for TCP, TLS and local sockets (\<open>lib/vtrc/server/listener/tcp.cpp\<close>, \<open>ssl.cpp\<close>,
  \<open>unix-local.cpp\<close>). Those for TCP and local sockets are the common listener of \<open>Connections\<close> with names of
  their own. The one for TLS is written out in \<open>ssl.cpp\<close>: a connection makes the handshake of TLS before its
  protocol is started, and a timer of five seconds closes it when the handshake does not end. Sockets and the
  handshake itself are asio's and OpenSSL's; their outcomes are inputs of the steps.
\<close>

subsection \<open>Names\<close>

definition tcp_listener_name :: "string \<Rightarrow> nat \<Rightarrow> string" where
  "tcp_listener_name address port = ''tcp://'' @ address @ '':'' @ dec port"

text \<open>After the start the name has the port the acceptor was given.\<close>

definition tcp_start_success :: "string \<Rightarrow> nat \<Rightarrow> string" where
  "tcp_start_success address local_port = ''tcp://'' @ address @ '':'' @ dec local_port"

definition unix_listener_name :: "string \<Rightarrow> string" where
  "unix_listener_name path = ''unix://'' @ path"

definition ssl_listener_name :: "string \<Rightarrow> nat \<Rightarrow> string" where
  "ssl_listener_name address port = ''ssl://'' @ address @ '':'' @ dec port"

text \<open>\<open>connection_setup\<close> names a connection; the option \<open>no_delay\<close> and the name of the peer may raise. The
  credentials of a local peer are its process, group and user.\<close>

definition tcp_listener_setup :: "exn + unit \<Rightarrow> exn + string \<Rightarrow> exn + string" where
  "tcp_listener_setup no_delay remote =
     and_then no_delay (\<lambda>_. and_then remote (\<lambda>ep. Inr (''tcp://'' @ ep)))"

definition ssl_listener_setup :: "exn + unit \<Rightarrow> exn + string \<Rightarrow> exn + string" where
  "ssl_listener_setup no_delay remote =
     and_then no_delay (\<lambda>_. and_then remote (\<lambda>ep. Inr (''ssl://'' @ ep)))"

definition unix_listener_setup :: "string \<Rightarrow> nat + nat \<times> nat \<times> nat \<Rightarrow> string" where
  "unix_listener_setup path cred =
     ''unix://'' @ path @
     (case cred of
        Inr (pid, gid, uid) \<Rightarrow> ''[p:'' @ dec pid @ '', g:'' @ dec gid @ '', u:'' @ dec uid @ '']''
      | Inl errno \<Rightarrow> ''[get PEERCRED error '' @ dec errno @ '']'')"

text \<open>\<open>stop\<close> of a local listener also unlinks the path of its socket.\<close>

definition unix_stop :: "string \<Rightarrow> server \<times> string set \<Rightarrow> server \<times> string set" where
  "unix_stop path s = (listener_stop (fst s), snd s - {path})"

subsection \<open>Connections with a handshake\<close>

text \<open>The timer of a connection has one kind of handler. \<open>tc_shaking\<close>: the handshake is in progress;
  \<open>tc_started\<close>: the protocol has been started.\<close>

record tls_conn =
  tc_timer :: "unit once_timer"
  tc_shaking :: bool
  tc_started :: bool

text \<open>\<open>ss_dangling\<close> records a handler that used a connection after its destruction.\<close>

record ssl_server =
  ss_sv :: server
  ss_tls :: "nat \<rightharpoonup> tls_conn"
  ss_dangling :: bool

definition tls_conn_new :: tls_conn where
  "tls_conn_new = \<lparr> tc_timer = once_new, tc_shaking = False, tc_started = False \<rparr>"

definition ssl_server_new :: ssl_server where
  "ssl_server_new = \<lparr> ss_sv = server_new, ss_tls = Map.empty, ss_dangling = False \<rparr>"

definition at_sv :: "(server \<Rightarrow> server) \<Rightarrow> ssl_server \<Rightarrow> ssl_server" where
  "at_sv f s = s\<lparr> ss_sv := f (ss_sv s) \<rparr>"

definition at_tls :: "nat \<Rightarrow> (tls_conn \<Rightarrow> tls_conn) \<Rightarrow> ssl_server \<Rightarrow> ssl_server" where
  "at_tls c f s = (case ss_tls s c of None \<Rightarrow> s | Some t \<Rightarrow> s\<lparr> ss_tls := (ss_tls s)(c \<mapsto> f t) \<rparr>)"

text \<open>\<open>init\<close>: the timer and the handshake are started.\<close>

definition ssl_conn_init :: "tls_conn \<Rightarrow> tls_conn" where
  "ssl_conn_init t = t\<lparr> tc_timer := once_call () (tc_timer t), tc_shaking := True \<rparr>"

text \<open>The timer's handler has the plain address of its connection.\<close>

definition ssl_init_timeout :: "nat \<Rightarrow> nat \<Rightarrow> ssl_server \<Rightarrow> ssl_server" where
  "ssl_init_timeout error c s =
     (if error = 0
      then (if sv_conns (ss_sv s) c = None then s\<lparr> ss_dangling := True \<rparr> else at_sv (conn_close c) s)
      else s)"

definition start_read_clos :: "nat \<Rightarrow> ssl_server \<Rightarrow> ssl_server" where
  "start_read_clos c s = (if sv_conns (ss_sv s) c \<noteq> None then at_sv (start_reading c) s else s)"

text \<open>\<open>init_success\<close> starts the protocol, which will call \<open>start_read_clos\<close>.\<close>

definition ssl_handshake_handler :: "nat \<Rightarrow> nat \<Rightarrow> ssl_server \<Rightarrow> ssl_server" where
  "ssl_handshake_handler err c s =
     (if sv_conns (ss_sv s) c = None then s
      else
        let s = at_tls c (\<lambda>t. t\<lparr> tc_timer := once_cancel (tc_timer t) \<rparr>) s
        in if err = 0 then at_tls c (\<lambda>t. t\<lparr> tc_started := True \<rparr>) s
           else at_sv (conn_close c) s)"

subsection \<open>The listener\<close>

text \<open>\<open>start\<close>: the callback that sets up the context and the making of the acceptor may raise.\<close>

definition ssl_start :: "exn + unit \<Rightarrow> exn + unit \<Rightarrow> ssl_server \<Rightarrow> ssl_server \<times> (exn + unit)" where
  "ssl_start setup_cb acceptor s =
     (case setup_cb of
        Inl e \<Rightarrow> (s, Inl e)
      | Inr _ \<Rightarrow>
          (let s = at_sv (\<lambda>v. v\<lparr> sv_working := True \<rparr>) s
           in case acceptor of
                Inl e \<Rightarrow> (s, Inl e)
              | Inr _ \<Rightarrow> (at_sv (sv_signal Lv_start) (at_sv start_accept s), Inr ())))"

text \<open>The start of the common listener, for comparison: the acceptor is made first.\<close>

definition listener_try_start :: "exn + unit \<Rightarrow> server \<Rightarrow> server \<times> (exn + unit)" where
  "listener_try_start acceptor s =
     (case acceptor of Inl e \<Rightarrow> (s, Inl e) | Inr _ \<Rightarrow> (listener_start s, Inr ()))"

definition ssl_stop :: "ssl_server \<Rightarrow> ssl_server" where
  "ssl_stop s = at_sv (\<lambda>v. v\<lparr> sv_working := False \<rparr>) s"

definition ssl_on_accept :: "accept_outcome \<Rightarrow> nat \<Rightarrow> ssl_server \<Rightarrow> ssl_server" where
  "ssl_on_accept out c s =
     (let s = at_sv (on_accept out c) s
      in if out = Accept_ok then s\<lparr> ss_tls := (ss_tls s)(c \<mapsto> ssl_conn_init tls_conn_new) \<rparr> else s)"

definition ssl_on_accept_error :: "ssl_server \<Rightarrow> ssl_server" where
  "ssl_on_accept_error s = at_sv on_accept_error s"

subsection \<open>Steps\<close>

text \<open>The handler of the handshake runs once, with any error code. An expired or cancelled timer queues its handler,
  which runs later. A connection that the list of clients no longer holds may be destroyed at any time. Addresses
  are not used twice.\<close>

inductive ssl_step :: "ssl_server \<Rightarrow> ssl_server \<Rightarrow> bool" where
  Ssl_start: "ssl_step s (fst (ssl_start cb acceptor s))"
| Ssl_stop: "ssl_step s (ssl_stop s)"
| Ssl_accept: "sv_accepting (ss_sv s) \<Longrightarrow> ss_tls s c = None \<Longrightarrow> c \<notin> dom (sv_conns (ss_sv s)) \<Longrightarrow> out \<noteq> Init_raises \<Longrightarrow>
    ssl_step s (ssl_on_accept out c s)"
| Ssl_accept_error: "sv_accepting (ss_sv s) \<Longrightarrow> ssl_step s (ssl_on_accept_error s)"
| Ssl_expire: "ssl_step s (at_tls c (\<lambda>t. t\<lparr> tc_timer := once_expire (tc_timer t) \<rparr>) s)"
| Ssl_timer: "ss_tls s c = Some t \<Longrightarrow> once_take (tc_timer t) = (t', Some (h, err)) \<Longrightarrow>
    ssl_step s (ssl_init_timeout err c (at_tls c (\<lambda>t. t\<lparr> tc_timer := t' \<rparr>) s))"
| Ssl_handshake: "ss_tls s c = Some t \<Longrightarrow> tc_shaking t \<Longrightarrow>
    ssl_step s (ssl_handshake_handler err c (at_tls c (\<lambda>t. t\<lparr> tc_shaking := False \<rparr>) s))"
| Ssl_started: "ss_tls s c = Some t \<Longrightarrow> tc_started t \<Longrightarrow> ssl_step s (start_read_clos c s)"
| Ssl_read: "sv_conns (ss_sv s) c = Some k \<Longrightarrow> cn_reading k \<Longrightarrow> ssl_step s (at_sv (read_handler c out) s)"
| Ssl_write_error: "c \<in> dom (sv_conns (ss_sv s)) \<Longrightarrow> ssl_step s (at_sv (conn_write_error c) s)"
| Ssl_close: "c \<in> dom (sv_conns (ss_sv s)) \<Longrightarrow> ssl_step s (at_sv (conn_close c) s)"
| Ssl_stop_all: "ssl_step s (at_sv stop_all_clients s)"
| Ssl_destroy: "c \<in> dom (sv_conns (ss_sv s)) \<Longrightarrow> c \<notin> sv_clients (ss_sv s) \<Longrightarrow>
    ssl_step s (at_sv (\<lambda>v. v\<lparr> sv_conns := (sv_conns v)(c := None) \<rparr>) s)"

inductive ssl_reach :: "ssl_server \<Rightarrow> bool" where
  ssl_new: "ssl_reach ssl_server_new"
| ssl_next: "ssl_reach s \<Longrightarrow> ssl_step s s' \<Longrightarrow> ssl_reach s'"

subsection \<open>The TLS listener as a common listener\<close>

text \<open>Every step is a step of the common listener on its connections, or leaves them alone, or is the start that
  failed with \<open>working_\<close> set.\<close>

lemma at_tls_simps [simp]:
  "ss_sv (at_tls c f s) = ss_sv s" "ss_dangling (at_tls c f s) = ss_dangling s"
  "ss_tls (at_tls c f s) d = (if d = c then map_option f (ss_tls s c) else ss_tls s d)"
  by (auto simp: at_tls_def split: option.splits)

lemma at_sv_simps [simp]:
  "ss_sv (at_sv f s) = f (ss_sv s)" "ss_tls (at_sv f s) = ss_tls s" "ss_dangling (at_sv f s) = ss_dangling s"
  by (simp_all add: at_sv_def)

lemma ssl_step_refines:
  assumes "ssl_step s s'"
  shows "ss_sv s' = ss_sv s \<or> ss_sv s' = (ss_sv s)\<lparr> sv_working := True \<rparr> \<or> sv_step (ss_sv s) (ss_sv s')"
  using assms
proof cases
  case (Ssl_start cb acceptor)
  have "(sv_signal Lv_start (start_accept ((ss_sv s)\<lparr> sv_working := True \<rparr>))) = listener_start (ss_sv s)"
    by (cases "ss_sv s") (simp add: listener_start_def start_accept_def sv_signal_def)
  then show ?thesis using Ssl_start Sv_start [of "ss_sv s"] by (auto simp: ssl_start_def Let_def split: sum.splits)
next
  case Ssl_stop
  then show ?thesis using Sv_stop [of "ss_sv s"] by (simp add: ssl_stop_def listener_stop_def)
next
  case (Ssl_accept c out)
  then show ?thesis using Sv_accept [of "ss_sv s" c out] by (auto simp: ssl_on_accept_def Let_def)
next
  case (Ssl_timer c t t' h err)
  then show ?thesis using Sv_close [of c "ss_sv s"] by (auto simp: ssl_init_timeout_def)
next
  case (Ssl_handshake c t err)
  then show ?thesis using Sv_close [of c "ss_sv s"] by (auto simp: ssl_handshake_handler_def Let_def)
next
  case (Ssl_started c t)
  then show ?thesis using Sv_started [of c "ss_sv s"] by (auto simp: start_read_clos_def)
qed (auto simp: ssl_on_accept_error_def intro: sv_step.intros)

lemma inv_working: "sv_inv s \<Longrightarrow> sv_inv (s\<lparr> sv_working := b \<rparr>)"
  by (simp add: sv_inv_def)

lemma ssl_step_sv_inv: "ssl_step s s' \<Longrightarrow> sv_inv (ss_sv s) \<Longrightarrow> sv_inv (ss_sv s')"
  using ssl_step_refines [of s s'] inv_step [of "ss_sv s" "ss_sv s'"] inv_working [of "ss_sv s" True] by auto

subsection \<open>No protocol before the handshake\<close>

text \<open>\<open>same_but D\<close>: an operation of the server that, outside \<open>D\<close>, neither starts to read nor adds or removes clients.\<close>

definition same_but :: "nat set \<Rightarrow> server \<Rightarrow> server \<Rightarrow> bool" where
  "same_but D v v' \<longleftrightarrow> (\<forall>c. c \<notin> D \<longrightarrow> (c \<in> sv_clients v' \<longleftrightarrow> c \<in> sv_clients v)
     \<and> map_option cn_reading (sv_conns v' c) = map_option cn_reading (sv_conns v c))"

lemma same_but_close: "same_but D v (conn_close c v)"
  by (auto simp: same_but_def conn_close_def stop_connection_def split: option.splits)

lemma same_but_trans: "same_but D u v \<Longrightarrow> same_but D v w \<Longrightarrow> same_but D u w"
  by (simp add: same_but_def)

lemma same_but_fold_close: "same_but D v (fold conn_close cs v)"
proof (induction cs arbitrary: v)
  case (Cons c cs)
  show ?case using same_but_trans [OF same_but_close Cons.IH] by simp
qed (simp add: same_but_def)

lemma same_but_ops:
  "c \<in> D \<Longrightarrow> same_but D v (start_reading c v)"
  "c \<in> D \<Longrightarrow> same_but D v (read_handler c out v)"
  "same_but D v (stop_all_clients v)"
  "same_but D v (on_accept_error v)"
proof -
  assume c: "c \<in> D"
  have upd: "same_but D u (conn_upd c f u)" for f u using c by (auto simp: same_but_def conn_upd_def split: option.splits)
  then show "same_but D v (start_reading c v)" unfolding start_reading_def by blast
  have drop: "same_but D u (close_drop c u)" for u
    using same_but_close [of D u c] c by (auto simp: same_but_def close_drop_def cl_drop_def Let_def)
  show "same_but D v (read_handler c out v)"
    using same_but_trans [OF upd upd] same_but_trans [OF upd drop]
    by (cases out) (simp_all add: read_handler_def start_reading_def Let_def)
next
  show "same_but D v (stop_all_clients v)" by (simp add: stop_all_fold same_but_fold_close)
  show "same_but D v (on_accept_error v)"
    by (simp add: same_but_def on_accept_error_def sv_signal_def listener_stop_def Let_def)
qed

text \<open>A connection whose protocol was not started is not read and stays in the list of clients.\<close>

definition waits :: "ssl_server \<Rightarrow> nat \<Rightarrow> bool" where
  "waits s c \<longleftrightarrow> (case sv_conns (ss_sv s) c of
      None \<Rightarrow> True
    | Some k \<Rightarrow> (case ss_tls s c of
          None \<Rightarrow> False
        | Some t \<Rightarrow> tc_started t \<or> \<not> cn_reading k \<and> c \<in> sv_clients (ss_sv s)))"

definition ssl_inv :: "ssl_server \<Rightarrow> bool" where
  "ssl_inv s \<longleftrightarrow> sv_inv (ss_sv s) \<and> (\<forall>c. waits s c)"

definition started :: "ssl_server \<Rightarrow> nat set" where
  "started s = {c. \<exists>t. ss_tls s c = Some t \<and> tc_started t}"

lemma waits_same_but:
  assumes "same_but (started s) (ss_sv s) (ss_sv s')" and "waits s c"
    and "map_option tc_started (ss_tls s' c) = map_option tc_started (ss_tls s c)"
  shows "waits s' c"
proof (cases "c \<in> started s")
  case True
  then show ?thesis using assms(3) by (auto simp: waits_def started_def split: option.splits)
next
  case False
  then have "c \<in> sv_clients (ss_sv s') \<longleftrightarrow> c \<in> sv_clients (ss_sv s)"
      "map_option cn_reading (sv_conns (ss_sv s') c) = map_option cn_reading (sv_conns (ss_sv s) c)"
    using assms(1) by (auto simp: same_but_def)
  then show ?thesis using assms(2,3) by (auto simp: waits_def split: option.splits)
qed

lemma same_but_refl [simp]: "same_but D v v" "same_but D v (v\<lparr> sv_working := b \<rparr>)"
  by (simp_all add: same_but_def)

text \<open>Every step but accepting, destroying and starting the protocol leaves what is waited for alone.\<close>

lemma ssl_step_same_but:
  assumes "ssl_step s s'" and "ssl_inv s"
  shows "(same_but (started s) (ss_sv s) (ss_sv s') \<and> (\<forall>c. map_option tc_started (ss_tls s' c) = map_option tc_started (ss_tls s c)))
    \<or> (\<exists>c out. s' = ssl_on_accept out c s \<and> sv_conns (ss_sv s) c = None \<and> out \<noteq> Init_raises)
    \<or> (\<exists>c. s' = at_sv (\<lambda>v. v\<lparr> sv_conns := (sv_conns v)(c := None) \<rparr>) s)
    \<or> (\<exists>c. ss_sv s' = ss_sv s \<and> (\<forall>d. map_option tc_started (ss_tls s' d) = (if d = c then map_option (\<lambda>_. True) (ss_tls s c) else map_option tc_started (ss_tls s d))))"
    (is "?same \<or> ?accept \<or> ?destroy \<or> ?start")
  using assms(1)
proof cases
  case (Ssl_start cb acceptor)
  then have ?same by (auto simp: ssl_start_def Let_def same_but_def sv_signal_def start_accept_def split: sum.splits)
  then show ?thesis by blast
next
  case (Ssl_accept c out)
  then show ?thesis by (auto simp: domIff)
next
  case (Ssl_destroy c)
  then show ?thesis by blast
next
  case (Ssl_timer c t t' h err)
  then have ?same by (auto simp: ssl_init_timeout_def same_but_close)
  then show ?thesis by blast
next
  case (Ssl_handshake c t err)
  show ?thesis
  proof (cases "err = 0 \<and> sv_conns (ss_sv s) c \<noteq> None")
    case True
    then have ?start using Ssl_handshake by (intro exI [of _ c]) (auto simp: ssl_handshake_handler_def Let_def)
    then show ?thesis by blast
  next
    case False
    then have ?same using Ssl_handshake by (auto simp: ssl_handshake_handler_def Let_def same_but_close)
    then show ?thesis by blast
  qed
next
  case (Ssl_read c k out)
  have "waits s c" using assms(2) by (simp add: ssl_inv_def)
  then have "c \<in> started s" using Ssl_read by (auto simp: waits_def started_def split: option.splits)
  then have ?same using Ssl_read by (simp add: same_but_ops)
  then show ?thesis by blast
next
  case (Ssl_started c t)
  then have "c \<in> started s" by (auto simp: started_def)
  then have ?same using Ssl_started by (auto simp: start_read_clos_def same_but_ops)
  then show ?thesis by blast
qed (auto simp: ssl_stop_def ssl_on_accept_error_def same_but_ops same_but_close conn_write_error_def option.map_comp o_def)

lemma ssl_inv_step:
  assumes "ssl_step s s'" and inv: "ssl_inv s"
  shows "ssl_inv s'"
proof -
  have "sv_inv (ss_sv s')" using assms ssl_step_sv_inv by (simp add: ssl_inv_def)
  moreover have "waits s' c" for c
  proof -
    have w: "waits s c" using inv by (simp add: ssl_inv_def)
    from ssl_step_same_but [OF assms] show ?thesis
    proof (elim disjE exE conjE)
      assume "same_but (started s) (ss_sv s) (ss_sv s')" "\<forall>c. map_option tc_started (ss_tls s' c) = map_option tc_started (ss_tls s c)"
      then show ?thesis using w waits_same_but by blast
    next
      fix d out assume d: "s' = ssl_on_accept out d s" "sv_conns (ss_sv s) d = None" "out \<noteq> Init_raises"
      then show ?thesis using w
        by (cases out) (auto simp: waits_def ssl_on_accept_def on_accept_def start_accept_def new_connection_def sv_signal_def
            cl_store_def cl_drop_def connection_new_def ssl_conn_init_def tls_conn_new_def Let_def split: option.splits)
    next
      fix d assume "s' = at_sv (\<lambda>v. v\<lparr> sv_conns := (sv_conns v)(d := None) \<rparr>) s"
      then show ?thesis using w by (auto simp: waits_def split: option.splits)
    next
      fix d assume d: "ss_sv s' = ss_sv s" "\<forall>b. map_option tc_started (ss_tls s' b)
        = (if b = d then map_option (\<lambda>_. True) (ss_tls s d) else map_option tc_started (ss_tls s b))"
      show ?thesis using w d(1) spec [OF d(2), of c] by (auto simp: waits_def split: option.splits if_splits)
    qed
  qed
  ultimately show ?thesis by (simp add: ssl_inv_def)
qed

lemma ssl_inv_reach: "ssl_reach s \<Longrightarrow> ssl_inv s"
proof (induction rule: ssl_reach.induct)
  case ssl_new
  show ?case by (simp add: ssl_inv_def ssl_server_new_def waits_def sv_inv_def server_new_def opened_def)
qed (rule ssl_inv_step)


text \<open>One client is read, the handshake of another goes on.\<close>

definition example_ssl :: ssl_server where
  "example_ssl =
     (let s = ssl_on_accept Accept_ok 4 (fst (ssl_start (Inr ()) (Inr ()) ssl_server_new));
          s = ssl_handshake_handler 0 4 (at_tls 4 (\<lambda>t. t\<lparr> tc_shaking := False \<rparr>) s)
      in ssl_on_accept Accept_ok 8 (start_read_clos 4 s))"

lemmas ssl_defs = ssl_start_def ssl_on_accept_def ssl_handshake_handler_def start_read_clos_def ssl_server_new_def server_new_def
  ssl_conn_init_def tls_conn_new_def on_accept_def start_accept_def new_connection_def sv_signal_def cl_store_def start_reading_def
  conn_upd_def connection_new_def at_tls_def at_sv_def Let_def once_call_def once_cancel_def once_new_def ot_complete_def

lemma example_ssl_reach: "ssl_reach example_ssl"
proof -
  let ?s1 = "fst (ssl_start (Inr ()) (Inr ()) ssl_server_new)"
  let ?s2 = "ssl_on_accept Accept_ok 4 ?s1"
  let ?s3 = "ssl_handshake_handler 0 4 (at_tls 4 (\<lambda>t. t\<lparr> tc_shaking := False \<rparr>) ?s2)"
  have "ssl_reach ?s1" by (rule ssl_next [OF ssl_new Ssl_start])
  then have "ssl_reach ?s2" by (rule ssl_next) (rule Ssl_accept, simp_all add: ssl_defs)
  then have "ssl_reach ?s3"
    by (rule ssl_next) (rule Ssl_handshake [of _ _ "ssl_conn_init tls_conn_new"], simp_all add: ssl_defs)
  then have "ssl_reach (start_read_clos 4 ?s3)" by (rule ssl_next) (rule Ssl_started [of _ _ "the (ss_tls ?s3 4)"], simp_all add: ssl_defs)
  then show ?thesis unfolding example_ssl_def Let_def by (rule ssl_next) (rule Ssl_accept, simp_all add: ssl_defs)
qed

lemma example_ssl_opened: "opened (ss_sv example_ssl) = {4, 8}"
  by (auto simp: example_ssl_def opened_def ssl_defs split: if_splits)


subsection \<open>A handshake that fails\<close>

text \<open>A connection whose handshake is over without success.\<close>

definition abandoned :: "ssl_server \<Rightarrow> nat \<Rightarrow> bool" where
  "abandoned s c \<longleftrightarrow> sv_conns (ss_sv s) c \<noteq> None \<and> (\<exists>t. ss_tls s c = Some t \<and> \<not> tc_started t \<and> \<not> tc_shaking t)"

lemma conn_close_dom [simp]: "dom (sv_conns (conn_close c v)) = dom (sv_conns v)"
  by (auto simp: conn_close_def stop_connection_def split: option.splits if_splits)

lemma fold_close_dom: "dom (sv_conns (fold conn_close cs v)) = dom (sv_conns v)"
  by (induction cs arbitrary: v) simp_all

lemma op_doms [simp]:
  "dom (sv_conns (conn_upd c f v)) = dom (sv_conns v)"
  "dom (sv_conns (start_reading c v)) = dom (sv_conns v)"
  "dom (sv_conns (close_drop c v)) = dom (sv_conns v)"
  "dom (sv_conns (read_handler c out v)) = dom (sv_conns v)"
  "dom (sv_conns (stop_all_clients v)) = dom (sv_conns v)"
  "dom (sv_conns (conn_write_error c v)) = dom (sv_conns v)"
proof -
  show upd: "dom (sv_conns (conn_upd c f v)) = dom (sv_conns v)" for f v by (auto simp: conn_upd_def split: option.splits)
  then show sr: "dom (sv_conns (start_reading c v)) = dom (sv_conns v)" for v by (simp add: start_reading_def)
  show cd: "dom (sv_conns (close_drop c v)) = dom (sv_conns v)" for v by (simp add: close_drop_def Let_def)
  show "dom (sv_conns (read_handler c out v)) = dom (sv_conns v)"
    by (cases out) (simp_all add: read_handler_def Let_def upd sr cd)
  show "dom (sv_conns (stop_all_clients v)) = dom (sv_conns v)" by (simp add: stop_all_fold fold_close_dom)
  show "dom (sv_conns (conn_write_error c v)) = dom (sv_conns v)" by (simp add: conn_write_error_def)
qed

lemma op_none [simp]:
  "sv_conns (conn_close c v) d = None \<longleftrightarrow> sv_conns v d = None"
  "sv_conns (start_reading c v) d = None \<longleftrightarrow> sv_conns v d = None"
  "sv_conns (read_handler c out v) d = None \<longleftrightarrow> sv_conns v d = None"
  "sv_conns (stop_all_clients v) d = None \<longleftrightarrow> sv_conns v d = None"
  "sv_conns (conn_write_error c v) d = None \<longleftrightarrow> sv_conns v d = None"
  using conn_close_dom [of c v] op_doms(2) [of c v] op_doms(4) [of c out v] op_doms(5) [of v] op_doms(6) [of c v] by blast+

lemma abandoned_step:
  assumes "ssl_step s s'" "ssl_inv s" "abandoned s c"
  shows "abandoned s' c"
proof -
  note not_None_eq [simp del]
  obtain k t where kt: "sv_conns (ss_sv s) c = Some k" "ss_tls s c = Some t" "\<not> tc_started t" "\<not> tc_shaking t"
    using assms(3) by (auto simp: abandoned_def)
  have "waits s c" using assms(2) by (simp add: ssl_inv_def)
  then have cl: "c \<in> sv_clients (ss_sv s)" using kt by (simp add: waits_def)
  from assms(1) show ?thesis
  proof cases
    case (Ssl_accept d out)
    then have "d \<noteq> c" using kt by auto
    then show ?thesis using Ssl_accept kt
      by (cases out) (auto simp: abandoned_def ssl_on_accept_def on_accept_def start_accept_def new_connection_def sv_signal_def Let_def)
  next
    case (Ssl_handshake d u err)
    then have "d \<noteq> c" using kt by auto
    then show ?thesis using Ssl_handshake kt by (auto simp: abandoned_def ssl_handshake_handler_def Let_def)
  next
    case (Ssl_timer d u u' h err)
    then show ?thesis using kt by (auto simp: abandoned_def ssl_init_timeout_def)
  next
    case (Ssl_destroy d)
    then have "d \<noteq> c" using cl by auto
    then show ?thesis using Ssl_destroy kt by (auto simp: abandoned_def)
  qed (use kt in \<open>auto simp: abandoned_def ssl_start_def ssl_stop_def ssl_on_accept_error_def on_accept_error_def sv_signal_def
      listener_stop_def start_accept_def start_read_clos_def Let_def split: sum.splits\<close>)
qed

lemma abandoned_steps:
  "ssl_step\<^sup>*\<^sup>* s s' \<Longrightarrow> ssl_inv s \<Longrightarrow> abandoned s c \<Longrightarrow> ssl_inv s' \<and> abandoned s' c"
  by (induction rule: rtranclp_induct) (auto dest: ssl_inv_step abandoned_step)

text \<open>
  The handshake of a connection that fails, or that the timer ends, closes the connection, and the listener forgets to
  drop it: the list of clients holds it, with its protocol and its buffers, whatever happens later.
\<close>

theorem failed_handshake_leaks:
  assumes "ssl_reach s" "sv_conns (ss_sv s) c = Some k" "ss_tls s c = Some t" "tc_shaking t" "\<not> tc_started t" "err \<noteq> 0"
    and "ssl_step\<^sup>*\<^sup>* (ssl_handshake_handler err c (at_tls c (\<lambda>t. t\<lparr> tc_shaking := False \<rparr>) s)) s'"
  shows "c \<in> sv_clients (ss_sv s') \<and> c \<in> dom (sv_conns (ss_sv s'))"
proof -
  let ?s = "ssl_handshake_handler err c (at_tls c (\<lambda>t. t\<lparr> tc_shaking := False \<rparr>) s)"
  have "ssl_step s ?s" using assms(3,4) by (rule Ssl_handshake)
  then have "ssl_inv ?s" using ssl_inv_reach [OF assms(1)] ssl_inv_step by blast
  moreover have "abandoned ?s c"
  proof -
    have "ss_sv ?s = conn_close c (ss_sv s)" "ss_tls ?s c = Some (t\<lparr> tc_shaking := False, tc_timer := once_cancel (tc_timer t) \<rparr>)"
      using assms(2,3,6) by (simp_all add: ssl_handshake_handler_def Let_def)
    then show ?thesis using assms(2,5) by (simp add: abandoned_def)
  qed
  ultimately have "waits s' c" "abandoned s' c" using abandoned_steps [OF assms(7)] by (simp_all add: ssl_inv_def)
  then show ?thesis by (auto simp: abandoned_def waits_def)
qed

text \<open>A connection that is still in its handshake when the time is up is closed.\<close>

theorem timeout_closes:
  assumes "sv_conns (ss_sv s) c = Some k"
  shows "\<exists>k'. sv_conns (ss_sv (ssl_init_timeout 0 c s)) c = Some k' \<and> cn_closed k'"
  using assms by (auto simp: ssl_init_timeout_def conn_close_def stop_connection_def sv_signal_def)

text \<open>A start whose acceptor cannot be made raises and leaves the listener active; the common one stays inactive.\<close>

theorem failed_start_stays_active:
  "sv_working (ss_sv (fst (ssl_start (Inr ()) (Inl e) s))) \<and> snd (ssl_start (Inr ()) (Inl e) s) = Inl e"
  "fst (listener_try_start (Inl e) v) = v"
  by (simp_all add: ssl_start_def listener_try_start_def)

text \<open>The handler of the timer does not hold its connection: one that is queued when the time is up, and runs after the
  connection was started, failed and was destroyed, closes an object that is gone.\<close>

theorem timeout_may_use_destroyed: "\<exists>s. ssl_reach s \<and> ss_dangling s"
proof -
  note defs = ssl_defs once_expire_def once_take_def ssl_init_timeout_def read_handler_def close_drop_def conn_close_def
    stop_connection_def cl_drop_def
  let ?s2 = "ssl_on_accept Accept_ok 4 (fst (ssl_start (Inr ()) (Inr ()) ssl_server_new))"
  let ?s3 = "at_tls 4 (\<lambda>t. t\<lparr> tc_timer := once_expire (tc_timer t) \<rparr>) ?s2"
  let ?s4 = "ssl_handshake_handler 0 4 (at_tls 4 (\<lambda>t. t\<lparr> tc_shaking := False \<rparr>) ?s3)"
  let ?s5 = "at_sv (read_handler 4 Read_error) (start_read_clos 4 ?s4)"
  let ?s6 = "at_sv (\<lambda>v. v\<lparr> sv_conns := (sv_conns v)(4 := None) \<rparr>) ?s5"
  let ?s7 = "ssl_init_timeout 0 4 (at_tls 4 (\<lambda>t. t\<lparr> tc_timer := \<lparr> ot_waiting = [], ot_queued = [] \<rparr> \<rparr>) ?s6)"
  have "ssl_reach (fst (ssl_start (Inr ()) (Inr ()) ssl_server_new))" by (rule ssl_next [OF ssl_new Ssl_start])
  then have "ssl_reach ?s2" by (rule ssl_next) (rule Ssl_accept, simp_all add: ssl_defs)
  then have "ssl_reach ?s3" by (rule ssl_next) (rule Ssl_expire)
  then have "ssl_reach ?s4" by (rule ssl_next) (rule Ssl_handshake [of _ _ "the (ss_tls ?s3 4)"], simp_all add: defs)
  then have "ssl_reach (start_read_clos 4 ?s4)"
    by (rule ssl_next) (rule Ssl_started [of _ _ "the (ss_tls ?s4 4)"], simp_all add: defs)
  then have "ssl_reach ?s5"
    by (rule ssl_next) (rule Ssl_read [of _ _ "connection_new\<lparr> cn_reading := True \<rparr>"], simp_all add: defs)
  then have "ssl_reach ?s6" by (rule ssl_next) (rule Ssl_destroy, simp_all add: defs)
  then have "ssl_reach ?s7"
    by (rule ssl_next) (rule Ssl_timer [of _ _ "the (ss_tls ?s6 4)" _ "()"], simp_all add: defs)
  moreover have "ss_dangling ?s7" by (simp add: defs)
  ultimately show ?thesis by blast
qed

end
