(* ===== verification/Tls_Tunnel.thy ===== *)
theory Tls_Tunnel
  imports Protocol_Layer
begin

text \<open>
  The TLS tunnel of \<open>examples/hello-ssl-handshake\<close>: the wrappers of OpenSSL's memory BIOs and of a connection
  that talks through two of them (\<open>protocol/ssl-wrapper.h\<close>), the service that decrypts a block, turns its text
  round and encrypts it (\<open>server/main.cpp\<close>), and the client that makes the handshake and the calls
  (\<open>client/main.cpp\<close>). OpenSSL is an argument of the model: a record of the functions the sources call, on a
  state of their own. What the sources rely on is stated for the proofs as laws of that record.
\<close>

subsection \<open>OpenSSL\<close>

text \<open>Pointers are handles, \<open>None\<close> the null pointer. A read returns the value of the call and the bytes it put into
  the buffer. \<open>ERR_error_string\<close> is the text \<open>ERR_error_string_n\<close> leaves in its buffer.\<close>

type_synonym bio_ptr = "nat option"
type_synonym ssl_ptr = "nat option"
type_synonym ctx_ptr = "nat option"

datatype ssl_method = TLSv1_2_client_method

record 'w openssl =
  BIO_new :: "'w \<Rightarrow> bio_ptr \<times> 'w"
  BIO_free_all :: "bio_ptr \<Rightarrow> 'w \<Rightarrow> 'w"
  BIO_push :: "bio_ptr \<Rightarrow> bio_ptr \<Rightarrow> 'w \<Rightarrow> 'w"
  BIO_pop :: "bio_ptr \<Rightarrow> 'w \<Rightarrow> bio_ptr \<times> 'w"
  BIO_write :: "bio_ptr \<Rightarrow> bytes \<Rightarrow> int \<Rightarrow> 'w \<Rightarrow> int \<times> 'w"
  BIO_read :: "bio_ptr \<Rightarrow> int \<Rightarrow> 'w \<Rightarrow> int \<times> bytes \<times> 'w"
  ERR_get_error :: "'w \<Rightarrow> u64 \<times> 'w"
  ERR_error_string :: "int \<Rightarrow> string"
  SSL_CTX_new :: "ssl_method \<Rightarrow> 'w \<Rightarrow> ctx_ptr \<times> 'w"
  SSL_CTX_free :: "ctx_ptr \<Rightarrow> 'w \<Rightarrow> 'w"
  SSL_new :: "ctx_ptr \<Rightarrow> 'w \<Rightarrow> ssl_ptr \<times> 'w"
  SSL_free :: "ssl_ptr \<Rightarrow> 'w \<Rightarrow> 'w"
  SSL_set_bio :: "ssl_ptr \<Rightarrow> bio_ptr \<Rightarrow> bio_ptr \<Rightarrow> 'w \<Rightarrow> 'w"
  SSL_set_accept_state :: "ssl_ptr \<Rightarrow> 'w \<Rightarrow> 'w"
  SSL_set_connect_state :: "ssl_ptr \<Rightarrow> 'w \<Rightarrow> 'w"
  SSL_is_init_finished :: "ssl_ptr \<Rightarrow> 'w \<Rightarrow> bool"
  SSL_get_error :: "ssl_ptr \<Rightarrow> int \<Rightarrow> 'w \<Rightarrow> int"
  SSL_do_handshake :: "ssl_ptr \<Rightarrow> 'w \<Rightarrow> int \<times> 'w"
  SSL_write :: "ssl_ptr \<Rightarrow> bytes \<Rightarrow> int \<Rightarrow> 'w \<Rightarrow> int \<times> 'w"
  SSL_read :: "ssl_ptr \<Rightarrow> int \<Rightarrow> 'w \<Rightarrow> int \<times> bytes \<times> 'w"
  SSL_CTX_use_certificate_file :: "ctx_ptr \<Rightarrow> string \<Rightarrow> 'w \<Rightarrow> int \<times> 'w"
  SSL_CTX_use_PrivateKey_file :: "ctx_ptr \<Rightarrow> string \<Rightarrow> 'w \<Rightarrow> int \<times> 'w"
  SSL_CTX_check_private_key :: "ctx_ptr \<Rightarrow> 'w \<Rightarrow> int"
  SSL_CTX_set_mode :: "ctx_ptr \<Rightarrow> string \<Rightarrow> 'w \<Rightarrow> 'w"
  SSL_CTX_set_cert_verify_callback :: "ctx_ptr \<Rightarrow> 'w \<Rightarrow> 'w"
  SSL_CTX_load_verify_locations :: "ctx_ptr \<Rightarrow> string \<Rightarrow> 'w \<Rightarrow> int \<times> 'w"

abbreviation (input) "SSL_ERROR_NONE \<equiv> (0 :: int)"
abbreviation (input) "SSL_ERROR_WANT_READ \<equiv> (2 :: int)"
abbreviation (input) "SSL_ERROR_WANT_WRITE \<equiv> (3 :: int)"

text \<open>The conversion of an unsigned value to \<open>int\<close>: of a size or of an error code, by its low 32 bits.\<close>

definition c_int :: "u64 \<Rightarrow> int" where
  "c_int n = sint (ucast n :: 32 word)"

subsection \<open>Exceptions\<close>

text \<open>The result of a step: \<open>None\<close> if a loop never ends, otherwise an exception or a value and the state it leaves.\<close>

type_synonym ('w, 'a) ssl_result = "((exn + 'a) \<times> 'w) option"

definition set_what :: "'w openssl \<Rightarrow> string \<Rightarrow> 'w \<Rightarrow> string \<times> 'w" where
  "set_what ossl arg w =
     (let err = (if arg \<noteq> [] then arg @ '': '' else []);
          (error_code, w) = ERR_get_error ossl w
      in (err @ ERR_error_string ossl (c_int error_code), w))"

definition set_what_ssl :: "'w openssl \<Rightarrow> string \<Rightarrow> ssl_ptr \<Rightarrow> int \<Rightarrow> 'w \<Rightarrow> string" where
  "set_what_ssl ossl arg s res w =
     (let err = (if arg \<noteq> [] then arg @ '': '' else [])
      in err @ ERR_error_string ossl (SSL_get_error ossl s res w))"

definition ssl_raise :: "'w openssl \<Rightarrow> string \<Rightarrow> 'w \<Rightarrow> (exn + 'a) \<times> 'w" where
  "ssl_raise ossl ex w = (let (what, w) = set_what ossl ex w in (Inl (Runtime_error what), w))"

definition ssl_raise_ssl :: "'w openssl \<Rightarrow> string \<Rightarrow> ssl_ptr \<Rightarrow> int \<Rightarrow> 'w \<Rightarrow> exn" where
  "ssl_raise_ssl ossl ex s n w = Runtime_error (set_what_ssl ossl ex s n w)"

definition error_fatal :: "int \<Rightarrow> bool" where
  "error_fatal err = (err \<noteq> SSL_ERROR_WANT_READ \<and> err \<noteq> SSL_ERROR_WANT_WRITE \<and> err \<noteq> SSL_ERROR_NONE)"

subsection \<open>A BIO and who frees it\<close>

record bio_wrapper =
  bw_b :: bio_ptr
  bw_own :: bool

definition free_bio :: "'w openssl \<Rightarrow> bio_wrapper \<Rightarrow> 'w \<Rightarrow> 'w" where
  "free_bio ossl b w = (if bw_own b \<and> bw_b b \<noteq> None then BIO_free_all ossl (bw_b b) w else w)"

definition bio_make_new :: "'w openssl \<Rightarrow> 'w \<Rightarrow> (exn + bio_ptr) \<times> 'w" where
  "bio_make_new ossl w =
     (let (b, w) = BIO_new ossl w
      in if b = None then ssl_raise ossl ''BIO_new'' w else (Inr b, w))"

definition bio_wrapper_new :: "'w openssl \<Rightarrow> 'w \<Rightarrow> (exn + bio_wrapper) \<times> 'w" where
  "bio_wrapper_new ossl w =
     (case bio_make_new ossl w of
        (Inl e, w) \<Rightarrow> (Inl e, w)
      | (Inr b, w) \<Rightarrow> (Inr \<lparr> bw_b = b, bw_own = True \<rparr>, w))"

definition bio_wrapper_empty :: bio_wrapper where
  "bio_wrapper_empty = \<lparr> bw_b = None, bw_own = False \<rparr>"

definition bio_swap :: "bio_wrapper \<Rightarrow> bio_wrapper \<Rightarrow> bio_wrapper \<times> bio_wrapper" where
  "bio_swap b other =
     (b\<lparr> bw_b := bw_b other, bw_own := bw_own other \<rparr>, other\<lparr> bw_b := bw_b b, bw_own := bw_own b \<rparr>)"

definition bio_release :: "bio_wrapper \<Rightarrow> bio_ptr \<times> bio_wrapper" where
  "bio_release b = (bw_b b, b\<lparr> bw_b := None \<rparr>)"

definition bio_give :: "bio_wrapper \<Rightarrow> bio_ptr \<times> bio_wrapper" where
  "bio_give b = (let b = b\<lparr> bw_own := False \<rparr> in (bw_b b, b))"

definition bio_reset :: "'w openssl \<Rightarrow> bio_ptr \<Rightarrow> bool \<Rightarrow> bio_wrapper \<Rightarrow> 'w \<Rightarrow> bio_wrapper \<times> 'w" where
  "bio_reset ossl p own b w =
     (let w = (if p \<noteq> bw_b b then free_bio ossl b w else w)
      in (b\<lparr> bw_b := p, bw_own := own \<rparr>, w))"

definition bio_hold :: "'w openssl \<Rightarrow> bio_ptr \<Rightarrow> bio_wrapper \<Rightarrow> 'w \<Rightarrow> bio_wrapper \<times> 'w" where
  "bio_hold ossl p = bio_reset ossl p False"

definition bio_own :: "'w openssl \<Rightarrow> bio_ptr \<Rightarrow> bio_wrapper \<Rightarrow> 'w \<Rightarrow> bio_wrapper \<times> 'w" where
  "bio_own ossl p = bio_reset ossl p True"

definition bio_append_ptr :: "'w openssl \<Rightarrow> bio_ptr \<Rightarrow> bio_wrapper \<Rightarrow> 'w \<Rightarrow> 'w" where
  "bio_append_ptr ossl p b w = BIO_push ossl (bw_b b) p w"

definition bio_append :: "'w openssl \<Rightarrow> bio_wrapper \<Rightarrow> bio_wrapper \<Rightarrow> 'w \<Rightarrow> bio_wrapper \<times> 'w" where
  "bio_append ossl other b w = (let (p, other) = bio_give other in (other, BIO_push ossl (bw_b b) p w))"

definition bio_remove :: "'w openssl \<Rightarrow> bool \<Rightarrow> bio_wrapper \<Rightarrow> 'w \<Rightarrow> bio_ptr \<times> bio_wrapper \<times> 'w" where
  "bio_remove ossl owned b w =
     (let b = b\<lparr> bw_own := owned \<rparr>; (p, w) = BIO_pop ossl (bw_b b) w in (p, b, w))"

subsection \<open>Bytes through a BIO\<close>

partial_function (option) bio_write_loop ::
    "'w openssl \<Rightarrow> bio_ptr \<Rightarrow> bytes \<Rightarrow> size_t \<Rightarrow> size_t \<Rightarrow> 'w \<Rightarrow> ('w, size_t) ssl_result" where
  "bio_write_loop ossl b data mx tot w =
     (if tot < mx then
        (let (n, w) = BIO_write ossl b (drop (unat tot) data) (c_int (mx - tot)) w
         in if n < 0 then
              (let (err, w) = ERR_get_error ossl w
               in if \<not> error_fatal (c_int err) then Some (Inr tot, w)
                  else Some (ssl_raise ossl ''BIO_write'' w))
            else bio_write_loop ossl b data mx (tot + word_of_int n) w)
      else Some (Inr tot, w))"

definition bio_write :: "'w openssl \<Rightarrow> bio_wrapper \<Rightarrow> bytes \<Rightarrow> 'w \<Rightarrow> ('w, size_t) ssl_result" where
  "bio_write ossl b data w = bio_write_loop ossl (bw_b b) data (of_nat (length data)) 0 w"

text \<open>\<open>read( void *data, size_t max )\<close>, with the bytes in the buffer of the caller.\<close>

partial_function (option) bio_read_loop ::
    "'w openssl \<Rightarrow> bio_ptr \<Rightarrow> size_t \<Rightarrow> size_t \<Rightarrow> bytes \<Rightarrow> 'w \<Rightarrow> ('w, size_t \<times> bytes) ssl_result" where
  "bio_read_loop ossl b mx tot buf w =
     (if tot < mx then
        (let (n, got, w) = BIO_read ossl b (c_int (mx - tot)) w
         in if n < 0 then
              (let (err, w) = ERR_get_error ossl w
               in if \<not> error_fatal (c_int err) then Some (Inr (tot, buf), w)
                  else Some (ssl_raise ossl ''BIO_read'' w))
            else bio_read_loop ossl b mx (tot + word_of_int n) (buf @ take (nat n) got) w)
      else Some (Inr (tot, buf), w))"

definition bio_read_into :: "'w openssl \<Rightarrow> bio_wrapper \<Rightarrow> size_t \<Rightarrow> 'w \<Rightarrow> ('w, size_t \<times> bytes) ssl_result" where
  "bio_read_into ossl b mx w = bio_read_loop ossl (bw_b b) mx 0 [] w"

partial_function (option) bio_read_max_loop ::
    "'w openssl \<Rightarrow> bio_ptr \<Rightarrow> size_t \<Rightarrow> bytes \<Rightarrow> 'w \<Rightarrow> ('w, bytes) ssl_result" where
  "bio_read_max_loop ossl b mx res w =
     (if 0 < mx then
        (let (n, buf, w) = BIO_read ossl b (c_int (min 4096 mx)) w
         in if n \<le> 0 then
              (let (err, w) = ERR_get_error ossl w
               in if \<not> error_fatal (c_int err) then Some (Inr res, w)
                  else Some (ssl_raise ossl ''SSL_read'' w))
            else bio_read_max_loop ossl b (mx - word_of_int n) (res @ take (nat n) buf) w)
      else Some (Inr res, w))"

definition bio_read_max :: "'w openssl \<Rightarrow> bio_wrapper \<Rightarrow> size_t \<Rightarrow> 'w \<Rightarrow> ('w, bytes) ssl_result" where
  "bio_read_max ossl b mx w = bio_read_max_loop ossl (bw_b b) mx [] w"

partial_function (option) bio_read_all_loop ::
    "'w openssl \<Rightarrow> bio_ptr \<Rightarrow> bytes \<Rightarrow> 'w \<Rightarrow> ('w, bytes) ssl_result" where
  "bio_read_all_loop ossl b res w =
     (let (n, buf, w) = BIO_read ossl b 4096 w
      in if n \<le> 0 then
           (let (err, w) = ERR_get_error ossl w
            in if \<not> error_fatal (c_int err) then Some (Inr res, w)
               else Some (ssl_raise ossl ''SSL_read'' w))
         else bio_read_all_loop ossl b (res @ take (nat n) buf) w)"

definition bio_read_all :: "'w openssl \<Rightarrow> bio_wrapper \<Rightarrow> 'w \<Rightarrow> ('w, bytes) ssl_result" where
  "bio_read_all ossl b w = bio_read_all_loop ossl (bw_b b) [] w"

subsection \<open>A connection between two BIOs\<close>

record ssl_bio_wrapper =
  sw_ssl :: ssl_ptr
  sw_ctx :: ctx_ptr
  sw_in :: bio_wrapper
  sw_out :: bio_wrapper

definition check_raise_fatal :: "'w openssl \<Rightarrow> ssl_bio_wrapper \<Rightarrow> int \<Rightarrow> string \<Rightarrow> 'w \<Rightarrow> exn + int" where
  "check_raise_fatal ossl s res arg w =
     (if res \<le> 0 then
        (let err = SSL_get_error ossl (sw_ssl s) res w
         in if error_fatal err then Inl (ssl_raise_ssl ossl arg (sw_ssl s) err w) else Inr err)
      else Inr SSL_ERROR_NONE)"

text \<open>The members that were made are destroyed when a later one or the body of the constructor raises.\<close>

definition ssl_bio_wrapper_new :: "'w openssl \<Rightarrow> ssl_method \<Rightarrow> 'w \<Rightarrow> (exn + ssl_bio_wrapper) \<times> 'w" where
  "ssl_bio_wrapper_new ossl meth w =
     (let (ctx, w) = SSL_CTX_new ossl meth w
      in case bio_wrapper_new ossl w of
           (Inl e, w) \<Rightarrow> (Inl e, w)
         | (Inr i, w) \<Rightarrow>
             (case bio_wrapper_new ossl w of
                (Inl e, w) \<Rightarrow> (Inl e, free_bio ossl i w)
              | (Inr out, w) \<Rightarrow>
                  if ctx = None then
                    (case ssl_raise ossl ''SSL_CTX_new'' w of
                       (r, w) \<Rightarrow> (r, free_bio ossl i (free_bio ossl out w)))
                  else (Inr \<lparr> sw_ssl = None, sw_ctx = ctx, sw_in = i, sw_out = out \<rparr>, w)))"

definition ssl_bio_wrapper_delete :: "'w openssl \<Rightarrow> ssl_bio_wrapper \<Rightarrow> 'w \<Rightarrow> 'w" where
  "ssl_bio_wrapper_delete ossl s w =
     (let w = (if sw_ssl s \<noteq> None then SSL_free ossl (sw_ssl s) w else w);
          w = (if sw_ctx s \<noteq> None then SSL_CTX_free ossl (sw_ctx s) w else w);
          w = free_bio ossl (sw_out s) w
      in free_bio ossl (sw_in s) w)"

text \<open>\<open>init\<close>, with the virtual functions \<open>init_context\<close> and \<open>init_ssl\<close> of the class that is derived.\<close>

definition ssl_init ::
    "'w openssl \<Rightarrow> (ctx_ptr \<Rightarrow> 'w \<Rightarrow> (exn + unit) \<times> 'w) \<Rightarrow> (ssl_ptr \<Rightarrow> 'w \<Rightarrow> 'w)
      \<Rightarrow> ssl_bio_wrapper \<Rightarrow> 'w \<Rightarrow> (exn + unit) \<times> ssl_bio_wrapper \<times> 'w" where
  "ssl_init ossl init_context init_ssl s w =
     (case init_context (sw_ctx s) w of
        (Inl e, w) \<Rightarrow> (Inl e, s, w)
      | (Inr _, w) \<Rightarrow>
          (let (p, w) = SSL_new ossl (sw_ctx s) w;
               s = s\<lparr> sw_ssl := p \<rparr>
           in if p = None then (case ssl_raise ossl ''SSL_new'' w of (r, w) \<Rightarrow> (r, s, w))
              else
                let (i, bi) = bio_give (sw_in s);
                    (out, bo) = bio_give (sw_out s);
                    s = s\<lparr> sw_in := bi, sw_out := bo \<rparr>;
                    w = SSL_set_bio ossl (sw_ssl s) i out w
                in (Inr (), s, init_ssl (sw_ssl s) w)))"

definition init_ssl_server :: "'w openssl \<Rightarrow> ssl_ptr \<Rightarrow> 'w \<Rightarrow> 'w" where
  "init_ssl_server ossl s w = SSL_set_accept_state ossl s w"

definition init_ssl_client :: "'w openssl \<Rightarrow> ssl_ptr \<Rightarrow> 'w \<Rightarrow> 'w" where
  "init_ssl_client ossl s w = SSL_set_connect_state ossl s w"

definition init_ssl_common :: "'w openssl \<Rightarrow> bool \<Rightarrow> ssl_ptr \<Rightarrow> 'w \<Rightarrow> 'w" where
  "init_ssl_common ossl inbound s w =
     (if inbound then SSL_set_accept_state ossl s w else SSL_set_connect_state ossl s w)"

definition init_finished :: "'w openssl \<Rightarrow> ssl_bio_wrapper \<Rightarrow> 'w \<Rightarrow> bool" where
  "init_finished ossl s w = SSL_is_init_finished ossl (sw_ssl s) w"

definition ssl_write :: "'w openssl \<Rightarrow> ssl_bio_wrapper \<Rightarrow> bytes \<Rightarrow> 'w \<Rightarrow> (exn + size_t) \<times> 'w" where
  "ssl_write ossl s data w =
     (let (n, w) = SSL_write ossl (sw_ssl s) data (c_int (of_nat (length data))) w
      in case check_raise_fatal ossl s n ''SSL_write'' w of
           Inl e \<Rightarrow> (Inl e, w)
         | Inr _ \<Rightarrow> (Inr (0 + word_of_int n), w))"

partial_function (option) ssl_write_loop ::
    "'w openssl \<Rightarrow> ssl_bio_wrapper \<Rightarrow> bytes \<Rightarrow> size_t \<Rightarrow> size_t \<Rightarrow> 'w \<Rightarrow> ('w, size_t) ssl_result" where
  "ssl_write_loop ossl s data mx tot w =
     (if tot < mx then
        (let (n, w) = SSL_write ossl (sw_ssl s) (drop (unat tot) data) (c_int (mx - tot)) w
         in case check_raise_fatal ossl s n ''SSL_write'' w of
              Inl e \<Rightarrow> Some (Inl e, w)
            | Inr _ \<Rightarrow> ssl_write_loop ossl s data mx (tot + word_of_int n) w)
      else Some (Inr tot, w))"

definition ssl_write_all :: "'w openssl \<Rightarrow> ssl_bio_wrapper \<Rightarrow> bytes \<Rightarrow> 'w \<Rightarrow> ('w, size_t) ssl_result" where
  "ssl_write_all ossl s data w = ssl_write_loop ossl s data (of_nat (length data)) 0 w"

partial_function (option) ssl_read_all_loop ::
    "'w openssl \<Rightarrow> ssl_bio_wrapper \<Rightarrow> bytes \<Rightarrow> 'w \<Rightarrow> ('w, bytes) ssl_result" where
  "ssl_read_all_loop ossl s res w =
     (let (n, buf, w) = SSL_read ossl (sw_ssl s) 4096 w
      in if n \<le> 0 then
           (case check_raise_fatal ossl s n ''SSL_read'' w of
              Inl e \<Rightarrow> Some (Inl e, w)
            | Inr _ \<Rightarrow> Some (Inr res, w))
         else ssl_read_all_loop ossl s (res @ take (nat n) buf) w)"

definition ssl_read_all :: "'w openssl \<Rightarrow> ssl_bio_wrapper \<Rightarrow> 'w \<Rightarrow> ('w, bytes) ssl_result" where
  "ssl_read_all ossl s w = ssl_read_all_loop ossl s [] w"

partial_function (option) ssl_read_loop ::
    "'w openssl \<Rightarrow> ssl_bio_wrapper \<Rightarrow> size_t \<Rightarrow> size_t \<Rightarrow> bytes \<Rightarrow> 'w \<Rightarrow> ('w, size_t \<times> bytes) ssl_result" where
  "ssl_read_loop ossl s mx tot buf w =
     (if tot < mx then
        (let (n, got, w) = SSL_read ossl (sw_ssl s) (c_int (mx - tot)) w
         in if n \<le> 0 then
              (case check_raise_fatal ossl s n ''SSL_read'' w of
                 Inl e \<Rightarrow> Some (Inl e, w)
               | Inr _ \<Rightarrow> Some (Inr (tot, buf), w))
            else ssl_read_loop ossl s mx (tot + word_of_int n) (buf @ take (nat n) got) w)
      else Some (Inr (tot, buf), w))"

definition ssl_read_into :: "'w openssl \<Rightarrow> ssl_bio_wrapper \<Rightarrow> size_t \<Rightarrow> 'w \<Rightarrow> ('w, size_t \<times> bytes) ssl_result" where
  "ssl_read_into ossl s mx w = ssl_read_loop ossl s mx 0 [] w"

text \<open>\<open>and_next\<close> goes on after a step that returned.\<close>

definition and_next :: "('w, 'a) ssl_result \<Rightarrow> ('a \<Rightarrow> 'w \<Rightarrow> ('w, 'b) ssl_result) \<Rightarrow> ('w, 'b) ssl_result" where
  "and_next r f =
     (case r of
        None \<Rightarrow> None
      | Some (Inl e, w) \<Rightarrow> Some (Inl e, w)
      | Some (Inr x, w) \<Rightarrow> f x w)"

definition do_handshake :: "'w openssl \<Rightarrow> ssl_bio_wrapper \<Rightarrow> bytes \<Rightarrow> 'w \<Rightarrow> ('w, bytes) ssl_result" where
  "do_handshake ossl s data w =
     and_next (if data \<noteq> [] then bio_write ossl (sw_in s) data w else Some (Inr 0, w)) (\<lambda>_ w.
       let (n, w) = SSL_do_handshake ossl (sw_ssl s) w
       in case check_raise_fatal ossl s n ''SSL_do_handshake'' w of
            Inl e \<Rightarrow> Some (Inl e, w)
          | Inr _ \<Rightarrow> bio_read_all ossl (sw_out s) w)"

definition encrypt :: "'w openssl \<Rightarrow> ssl_bio_wrapper \<Rightarrow> bytes \<Rightarrow> 'w \<Rightarrow> ('w, bytes) ssl_result" where
  "encrypt ossl s data w = and_next (ssl_write_all ossl s data w) (\<lambda>_ w. bio_read_all ossl (sw_out s) w)"

definition decrypt :: "'w openssl \<Rightarrow> ssl_bio_wrapper \<Rightarrow> bytes \<Rightarrow> 'w \<Rightarrow> ('w, bytes) ssl_result" where
  "decrypt ossl s data w =
     (if data = [] then Some (Inr [], w)
      else and_next (bio_write ossl (sw_in s) data w) (\<lambda>_ w. ssl_read_all ossl s w))"

subsection \<open>The service\<close>

definition server_init_context :: "'w openssl \<Rightarrow> ctx_ptr \<Rightarrow> 'w \<Rightarrow> (exn + unit) \<times> 'w" where
  "server_init_context ossl ctx w =
     (let (r, w) = SSL_CTX_use_certificate_file ossl ctx ''../server.crt'' w
      in if r \<le> 0 then ssl_raise ossl ''SSL_CTX_use_certificate_file'' w
         else
           let (r, w) = SSL_CTX_use_PrivateKey_file ossl ctx ''../server.key'' w
           in if r \<le> 0 then ssl_raise ossl ''SSL_CTX_use_PrivateKey_file'' w
              else if SSL_CTX_check_private_key ossl ctx w = 0 then (Inr (), w) \<comment> \<open>the exception is made and not thrown\<close>
              else (Inr (), w))"

text \<open>The constructor of the service; a member whose \<open>init\<close> raises is destroyed.\<close>

definition ssl_service_new :: "'w openssl \<Rightarrow> 'w \<Rightarrow> (exn + ssl_bio_wrapper) \<times> 'w" where
  "ssl_service_new ossl w =
     (case ssl_bio_wrapper_new ossl TLSv1_2_client_method w of
        (Inl e, w) \<Rightarrow> (Inl e, w)
      | (Inr s, w) \<Rightarrow>
          (case ssl_init ossl (server_init_context ossl) (init_ssl_server ossl) s w of
             (Inl e, s, w) \<Rightarrow> (Inl e, ssl_bio_wrapper_delete ossl s w)
           | (Inr _, s, w) \<Rightarrow> (Inr s, w)))"

definition send_block :: "'w openssl \<Rightarrow> ssl_bio_wrapper \<Rightarrow> bytes \<Rightarrow> 'w \<Rightarrow> ('w, bytes) ssl_result" where
  "send_block ossl s block w =
     (if \<not> init_finished ossl s w then do_handshake ossl s block w
      else and_next (decrypt ossl s block w) (\<lambda>decres w. encrypt ossl s (rev decres) w))"

subsection \<open>The client\<close>

definition ssl_throw :: "'w openssl \<Rightarrow> string \<Rightarrow> 'w \<Rightarrow> (exn + 'a) \<times> 'w" where
  "ssl_throw ossl add w =
     (let (e, w) = ERR_get_error ossl w
      in (Inl (Runtime_error (add @ '': '' @ ERR_error_string ossl (c_int e))), w))"

definition client_init_context :: "'w openssl \<Rightarrow> ctx_ptr \<Rightarrow> 'w \<Rightarrow> (exn + unit) \<times> 'w" where
  "client_init_context ossl ctx w =
     (let w = SSL_CTX_set_mode ossl ctx ''SSL_MODE_AUTO_RETRY'' w;
          w = SSL_CTX_set_mode ossl ctx ''SSL_MODE_ENABLE_PARTIAL_WRITE'' w;
          w = SSL_CTX_set_mode ossl ctx ''SSL_MODE_RELEASE_BUFFERS'' w;
          w = SSL_CTX_set_cert_verify_callback ossl ctx w;
          (err, w) = SSL_CTX_load_verify_locations ossl ctx ''../server.crt'' w
      in if err = 0 then ssl_throw ossl ''SSL_CTX_load_verify_locations'' w else (Inr (), w))"

text \<open>The two programs are two processes, each with a state of OpenSSL. A call of the stub runs \<open>send_block\<close> on the
  server and brings back its block or, as \<open>carried\<close>, its exception.\<close>

type_synonym ('w, 'a) tunnel_result = "((exn + 'a) \<times> 'w \<times> 'w) option"

definition call_send_block ::
    "'w openssl \<Rightarrow> ssl_bio_wrapper \<Rightarrow> bytes \<Rightarrow> 'w \<times> 'w \<Rightarrow> ('w, bytes) tunnel_result" where
  "call_send_block ossl srv block cw =
     (case send_block ossl srv block (snd cw) of
        None \<Rightarrow> None
      | Some (Inl e, w) \<Rightarrow> Some (Inl (carried e), fst cw, w)
      | Some (Inr b, w) \<Rightarrow> Some (Inr b, fst cw, w))"

text \<open>A step of the client alone.\<close>

definition at_client :: "('w \<Rightarrow> ('w, 'a) ssl_result) \<Rightarrow> 'w \<times> 'w \<Rightarrow> ('w, 'a) tunnel_result" where
  "at_client f cw = map_option (\<lambda>(r, w). (r, w, snd cw)) (f (fst cw))"

definition send_data ::
    "'w openssl \<Rightarrow> ssl_bio_wrapper \<Rightarrow> ssl_bio_wrapper \<Rightarrow> bytes \<Rightarrow> bool \<Rightarrow> 'w \<times> 'w \<Rightarrow> ('w, bytes) tunnel_result" where
  "send_data ossl srv ssl data decode cw =
     and_next (at_client (encrypt ossl ssl data) cw) (\<lambda>block cw.
     and_next (call_send_block ossl srv block cw) (\<lambda>res cw.
       if decode then at_client (decrypt ossl ssl res) cw
       else and_next (at_client (bio_write ossl (sw_in ssl) res) cw) (\<lambda>_ cw. Some (Inr [], cw))))"

partial_function (option) handshake_loop ::
    "'w openssl \<Rightarrow> ssl_bio_wrapper \<Rightarrow> ssl_bio_wrapper \<Rightarrow> 'w \<times> 'w \<Rightarrow> ('w, unit) tunnel_result" where
  "handshake_loop ossl srv ssl cw =
     (if \<not> init_finished ossl ssl (fst cw) then
        (case at_client (do_handshake ossl ssl []) cw of
           None \<Rightarrow> None
         | Some (Inl e, cw) \<Rightarrow> Some (Inl e, cw)
         | Some (Inr res_data, cw) \<Rightarrow>
             if res_data \<noteq> [] then
               (case call_send_block ossl srv res_data cw of
                  None \<Rightarrow> None
                | Some (Inl e, cw) \<Rightarrow> Some (Inl e, cw)
                | Some (Inr data, cw) \<Rightarrow>
                    if data \<noteq> [] then
                      (case at_client (bio_write ossl (sw_in ssl) data) cw of
                         None \<Rightarrow> None
                       | Some (Inl e, cw) \<Rightarrow> Some (Inl e, cw)
                       | Some (Inr _, cw) \<Rightarrow> handshake_loop ossl srv ssl cw)
                    else handshake_loop ossl srv ssl cw)
             else handshake_loop ossl srv ssl cw)
      else Some (Inr (), cw))"

fun send_all ::
    "'w openssl \<Rightarrow> ssl_bio_wrapper \<Rightarrow> ssl_bio_wrapper \<Rightarrow> (bytes \<times> bool) list \<Rightarrow> 'w \<times> 'w \<Rightarrow> ('w, bytes list) tunnel_result" where
  "send_all ossl srv ssl [] cw = Some (Inr [], cw)"
| "send_all ossl srv ssl ((data, decode) # rest) cw =
     and_next (send_data ossl srv ssl data decode cw) (\<lambda>r cw.
     and_next (send_all ossl srv ssl rest cw) (\<lambda>rs cw. Some (Inr (r # rs), cw)))"

definition ascii :: "string \<Rightarrow> bytes" where
  "ascii = map of_char"

text \<open>What the client sends once the tunnel is up, and whether it decodes the answer.\<close>

definition hello_blocks :: "(bytes \<times> bool) list" where
  "hello_blocks =
     [(ascii ''Hello, World1'', True), (ascii ''Hello, World2'', False), (ascii ''Hello, World3'', True),
      (replicate 41 (of_char CHR ''!''), True)]"

definition connect_handshake ::
    "'w openssl \<Rightarrow> ssl_bio_wrapper \<Rightarrow> 'w \<times> 'w \<Rightarrow> ('w, bytes list) tunnel_result" where
  "connect_handshake ossl srv cw =
     and_next (at_client (\<lambda>w. Some (ssl_bio_wrapper_new ossl TLSv1_2_client_method w)) cw) (\<lambda>ssl cw.
       case ssl_init ossl (client_init_context ossl) (init_ssl_client ossl) ssl (fst cw) of
         (Inl e, ssl, w) \<Rightarrow> Some (Inl e, ssl_bio_wrapper_delete ossl ssl w, snd cw)
       | (Inr _, ssl, w) \<Rightarrow>
           map_option (\<lambda>(r, w, sw). (r, ssl_bio_wrapper_delete ossl ssl w, sw))
             (and_next (handshake_loop ossl srv ssl (w, snd cw)) (\<lambda>_ cw. send_all ossl srv ssl hello_blocks cw)))"

subsection \<open>What is relied on of OpenSSL\<close>

text \<open>
  The view of one connection that the documentation of OpenSSL describes: the queue of errors of the thread, the
  flights of the handshake that are still to come (what is expected and what is answered), the bytes fed into the
  first BIO, the bytes waiting in the second, the pieces \<open>SSL_write\<close> has accepted, and how much plain text
  \<open>SSL_read\<close> has handed out.
\<close>

record tls_view =
  tv_errors :: "u64 list"
  tv_script :: "(bytes \<times> bytes) list"
  tv_fed :: bytes
  tv_out :: bytes
  tv_sent :: "bytes list"
  tv_taken :: nat

text \<open>The records on the wire: each piece is sealed in a way that may depend on all the pieces before it.\<close>

type_synonym sealing = "bytes list \<Rightarrow> bytes \<Rightarrow> bytes"

fun wire_from :: "sealing \<Rightarrow> bytes list \<Rightarrow> bytes list \<Rightarrow> bytes" where
  "wire_from seal h [] = []"
| "wire_from seal h (c # cs) = seal h c @ wire_from seal (h @ [c]) cs"

text \<open>A memory BIO takes all that is written, gives back what it holds, and returns -1 when it is empty; the queue of
  errors is read from its front, and an empty one reads as 0.\<close>

definition bio_laws :: "'w openssl \<Rightarrow> ssl_bio_wrapper \<Rightarrow> ('w \<Rightarrow> tls_view) \<Rightarrow> bool" where
  "bio_laws ossl s view \<longleftrightarrow>
     (\<forall>w data n. 0 < n \<and> n \<le> int (length data) \<longrightarrow>
        (\<exists>w'. BIO_write ossl (bw_b (sw_in s)) data n w = (n, w')
            \<and> view w' = (view w)\<lparr> tv_fed := tv_fed (view w) @ take (nat n) data \<rparr>)) \<and>
     (\<forall>w n. 0 < n \<longrightarrow>
        (\<exists>r buf w'. BIO_read ossl (bw_b (sw_out s)) n w = (r, buf, w') \<and>
           (if tv_out (view w) = [] then r = - 1 \<and> view w' = view w
            else r = min n (int (length (tv_out (view w)))) \<and> buf = take (nat r) (tv_out (view w))
               \<and> view w' = (view w)\<lparr> tv_out := drop (nat r) (tv_out (view w)) \<rparr>))) \<and>
     (\<forall>w. \<exists>e w'. ERR_get_error ossl w = (e, w') \<and>
        (case tv_errors (view w) of
           [] \<Rightarrow> e = 0 \<and> view w' = view w
         | x # xs \<Rightarrow> e = x \<and> view w' = (view w)\<lparr> tv_errors := xs \<rparr>))"

text \<open>A connection that is up: \<open>SSL_write\<close> accepts some of the bytes and puts their record into the second BIO;
  \<open>SSL_read\<close> hands out plain text of the records of the other side in order, and wants to read when there is
  none left. Nothing is said of bytes the other side did not send.\<close>

definition session_laws :: "'w openssl \<Rightarrow> ssl_bio_wrapper \<Rightarrow> ('w \<Rightarrow> tls_view) \<Rightarrow> sealing \<Rightarrow> sealing \<Rightarrow> bool" where
  "session_laws ossl s view seal peer \<longleftrightarrow>
     (\<forall>w data n. tv_script (view w) = [] \<and> tv_errors (view w) = [] \<and> 0 < n \<and> n \<le> int (length data) \<longrightarrow>
        (\<exists>m w'. SSL_write ossl (sw_ssl s) data n w = (m, w') \<and> 0 < m \<and> m \<le> n
            \<and> view w' = (view w)\<lparr> tv_out := tv_out (view w) @ seal (tv_sent (view w)) (take (nat m) data),
                                 tv_sent := tv_sent (view w) @ [take (nat m) data] \<rparr>)) \<and>
     (\<forall>w n h. tv_script (view w) = [] \<and> tv_errors (view w) = [] \<and> tv_fed (view w) = wire_from peer [] h \<and> 0 < n \<longrightarrow>
        (\<exists>r buf w'. SSL_read ossl (sw_ssl s) n w = (r, buf, w') \<and>
           (let avail = drop (tv_taken (view w)) (concat h)
            in if avail = [] then r \<le> 0 \<and> SSL_get_error ossl (sw_ssl s) r w' = SSL_ERROR_WANT_READ \<and> view w' = view w
               else 0 < r \<and> r \<le> n \<and> r \<le> int (length avail) \<and> take (nat r) buf = take (nat r) avail
                  \<and> view w' = (view w)\<lparr> tv_taken := tv_taken (view w) + nat r \<rparr>)))"

text \<open>The handshake: the flight that was expected is consumed and answered.\<close>

definition handshake_laws :: "'w openssl \<Rightarrow> ssl_bio_wrapper \<Rightarrow> ('w \<Rightarrow> tls_view) \<Rightarrow> bool" where
  "handshake_laws ossl s view \<longleftrightarrow>
     (\<forall>w i e rest. tv_script (view w) = (i, e) # rest \<and> tv_errors (view w) = [] \<and> tv_fed (view w) = i \<longrightarrow>
        (\<exists>r w'. SSL_do_handshake ossl (sw_ssl s) w = (r, w') \<and>
           (if rest = [] then 0 < r else r \<le> 0 \<and> SSL_get_error ossl (sw_ssl s) r w' = SSL_ERROR_WANT_READ) \<and>
           view w' = (view w)\<lparr> tv_script := rest, tv_fed := [], tv_out := tv_out (view w) @ e \<rparr>)) \<and>
     (\<forall>w. SSL_is_init_finished ossl (sw_ssl s) w \<longleftrightarrow> tv_script (view w) = [])"

text \<open>A record is not empty and longer than its text by at most 2048 bytes (RFC 5246, 6.2.3).\<close>

definition seal_laws :: "sealing \<Rightarrow> bool" where
  "seal_laws seal \<longleftrightarrow> (\<forall>h c. c \<noteq> [] \<longrightarrow> seal h c \<noteq> [] \<and> length (seal h c) \<le> length c + 2048)"

definition tls_endpoint :: "'w openssl \<Rightarrow> ssl_bio_wrapper \<Rightarrow> ('w \<Rightarrow> tls_view) \<Rightarrow> sealing \<Rightarrow> sealing \<Rightarrow> bool" where
  "tls_endpoint ossl s view seal peer \<longleftrightarrow>
     bio_laws ossl s view \<and> session_laws ossl s view seal peer \<and> handshake_laws ossl s view \<and> seal_laws seal"

subsection \<open>The loops\<close>

lemma wire_from_append:
  "wire_from seal h (cs @ ds) = wire_from seal h cs @ wire_from seal (h @ cs) ds"
  by (induction cs arbitrary: h) simp_all

lemma wire_from_length:
  assumes "seal_laws seal" "[] \<notin> set cs"
  shows "length (wire_from seal h cs) \<le> 2049 * length (concat cs)"
  using assms(2)
proof (induction cs arbitrary: h)
  case (Cons c cs)
  have "length (seal h c) \<le> length c + 2048" "0 < length c"
    using assms(1) Cons.prems by (auto simp: seal_laws_def)
  then have "length (seal h c) \<le> 2049 * length c" by (cases "length c") simp_all
  then show ?case using Cons by (simp add: add_mono)
qed simp

lemma wire_from_empty_iff:
  assumes "seal_laws seal" "[] \<notin> set cs"
  shows "wire_from seal h cs = [] \<longleftrightarrow> cs = []"
  using assms by (cases cs) (auto simp: seal_laws_def)

lemma c_int_of_nat: "n < 2 ^ 31 \<Longrightarrow> c_int (of_nat n) = int n"
  by (simp add: c_int_def unsigned_of_nat take_bit_nat_eq_self signed_of_nat signed_take_bit_int_eq_self)

lemma c_int_0 [simp]: "c_int 0 = 0" "\<not> error_fatal 0" "\<not> error_fatal 2"
  by (simp_all add: c_int_def error_fatal_def)

lemma bio_write_ok:
  assumes "bio_laws ossl s view" "length data < 2 ^ 31"
  shows "\<exists>w'. bio_write ossl (sw_in s) data w = Some (Inr (of_nat (length data)), w')
           \<and> view w' = (view w)\<lparr> tv_fed := tv_fed (view w) @ data \<rparr>"
proof (cases "data = []")
  case True
  then show ?thesis by (simp add: bio_write_def bio_write_loop.simps)
next
  case False
  then obtain w' where w: "BIO_write ossl (bw_b (sw_in s)) data (int (length data)) w = (int (length data), w')"
      "view w' = (view w)\<lparr> tv_fed := tv_fed (view w) @ data \<rparr>"
    using assms(1) unfolding bio_laws_def by (metis length_greater_0_conv nat_int of_nat_0_less_iff order_refl take_all_iff)
  have "(0 :: size_t) < of_nat (length data)"
    using False assms(2) by (simp add: word_less_nat_alt unsigned_of_nat take_bit_nat_eq_self)
  then show ?thesis
    using w c_int_of_nat [OF assms(2)] by (simp add: bio_write_def bio_write_loop.simps Let_def)
qed

lemma bio_read_all_loop_ok:
  assumes "bio_laws ossl s view"
  shows "tv_errors (view w) = [] \<Longrightarrow> \<exists>w'. bio_read_all_loop ossl (bw_b (sw_out s)) res w = Some (Inr (res @ tv_out (view w)), w')
           \<and> view w' = (view w)\<lparr> tv_out := [] \<rparr>"
proof (induction "length (tv_out (view w))" arbitrary: w res rule: less_induct)
  case less
  obtain r buf w1 where r: "BIO_read ossl (bw_b (sw_out s)) 4096 w = (r, buf, w1)"
      "if tv_out (view w) = [] then r = - 1 \<and> view w1 = view w
       else r = min 4096 (int (length (tv_out (view w)))) \<and> buf = take (nat r) (tv_out (view w))
          \<and> view w1 = (view w)\<lparr> tv_out := drop (nat r) (tv_out (view w)) \<rparr>"
    using assms unfolding bio_laws_def by (meson zero_less_numeral)
  show ?case
  proof (cases "tv_out (view w) = []")
    case True
    obtain e w2 where e: "ERR_get_error ossl w1 = (e, w2)"
      "case tv_errors (view w1) of [] \<Rightarrow> e = 0 \<and> view w2 = view w1 | x # xs \<Rightarrow> e = x \<and> view w2 = (view w1)\<lparr> tv_errors := xs \<rparr>"
      using assms unfolding bio_laws_def by meson
    then show ?thesis using r True less.prems by (simp add: bio_read_all_loop.simps)
  next
    case False
    let ?w = "tv_out (view w)"
    have v: "view w1 = (view w)\<lparr> tv_out := drop (nat r) ?w \<rparr>" "buf = take (nat r) ?w" "0 < r"
      using r False by simp_all
    have "length (tv_out (view w1)) < length ?w" using v False by simp
    from less.hyps [OF this, of "res @ take (nat r) buf"] obtain w' where
      "bio_read_all_loop ossl (bw_b (sw_out s)) (res @ take (nat r) buf) w1 = Some (Inr (res @ take (nat r) buf @ drop (nat r) ?w), w')"
      "view w' = (view w)\<lparr> tv_out := [] \<rparr>" using v less.prems by auto
    then show ?thesis using r(1) v by (subst bio_read_all_loop.simps) simp
  qed
qed

lemmas bio_read_all_ok = bio_read_all_loop_ok [where res = "[]", simplified append_Nil, folded bio_read_all_def]

lemma check_raise_ok:
  "0 < n \<Longrightarrow> check_raise_fatal ossl s n arg w = Inr 0"
  "SSL_get_error ossl (sw_ssl s) n w = 2 \<Longrightarrow> \<exists>x. check_raise_fatal ossl s n arg w = Inr x"
  by (simp_all add: check_raise_fatal_def)

text \<open>Writing: however \<open>SSL_write\<close> cuts the text into pieces, all of it goes out in order.\<close>

lemma ssl_write_loop_ok:
  assumes "session_laws ossl s view seal peer" "length data < 2 ^ 31"
  shows "tv_script (view w) = [] \<Longrightarrow> tv_errors (view w) = [] \<Longrightarrow> k \<le> length data \<Longrightarrow>
    \<exists>cs w'. ssl_write_loop ossl s data (of_nat (length data)) (of_nat k) w = Some (Inr (of_nat (length data)), w')
      \<and> concat cs = drop k data \<and> [] \<notin> set cs
      \<and> view w' = (view w)\<lparr> tv_out := tv_out (view w) @ wire_from seal (tv_sent (view w)) cs, tv_sent := tv_sent (view w) @ cs \<rparr>"
proof (induction "length data - k" arbitrary: k w rule: less_induct)
  case less
  have u: "unat (of_nat j :: size_t) = j" if "j \<le> length data" for j
    using that assms(2) by (simp add: unsigned_of_nat take_bit_nat_eq_self)
  show ?case
  proof (cases "k = length data")
    case True
    then show ?thesis by (intro exI [of _ "[]"]) (simp add: ssl_write_loop.simps)
  next
    case False
    then have k: "k < length data" using less.prems by simp
    have "of_nat (length data) - of_nat k = (of_nat (length data - k) :: size_t)" using k by (simp add: of_nat_diff)
    then have ci: "c_int (of_nat (length data) - of_nat k) = int (length data - k)"
      using assms(2) by (simp add: c_int_of_nat)
    have "0 < int (length data - k)" "int (length data - k) \<le> int (length (drop k data))" using k by simp_all
    then obtain m w1 where m: "SSL_write ossl (sw_ssl s) (drop k data) (int (length data - k)) w = (m, w1)"
        "0 < m" "m \<le> int (length data - k)"
        "view w1 = (view w)\<lparr> tv_out := tv_out (view w) @ seal (tv_sent (view w)) (take (nat m) (drop k data)),
                             tv_sent := tv_sent (view w) @ [take (nat m) (drop k data)] \<rparr>"
      using assms(1) less.prems unfolding session_laws_def by meson
    define k' where "k' = k + nat m"
    have m': "k' \<le> length data" "length data - (k') < length data - k" using m k unfolding k'_def by linarith+
    have more: "of_nat k + word_of_int m = (of_nat (k') :: size_t)" using m(2) by (simp add: k'_def)
    let ?c = "take (nat m) (drop k data)"
    obtain cs w' where cs: "ssl_write_loop ossl s data (of_nat (length data)) (of_nat (k')) w1 = Some (Inr (of_nat (length data)), w')"
        "concat cs = drop (k') data" "[] \<notin> set cs"
        "view w' = (view w1)\<lparr> tv_out := tv_out (view w1) @ wire_from seal (tv_sent (view w1)) cs, tv_sent := tv_sent (view w1) @ cs \<rparr>"
      using less.hyps [OF m'(2) _ _ m'(1), of w1] less.prems m(4) by auto
    have "ssl_write_loop ossl s data (of_nat (length data)) (of_nat k) w = Some (Inr (of_nat (length data)), w')"
      using k cs(1) u [of k] u [of "length data"] m ci more
      by (subst ssl_write_loop.simps) (simp add: word_less_nat_alt check_raise_ok)
    moreover have "concat (?c # cs) = drop k data" using cs(2) append_take_drop_id [of "nat m" "drop k data"] by (simp add: k'_def add.commute)
    moreover have "[] \<notin> set (?c # cs)" using cs(3) k m(2) by auto
    ultimately show ?thesis using cs(4) m(4) by (intro exI [of _ "?c # cs"] exI [of _ w']) simp
  qed
qed

lemma encrypt_ok:
  assumes "tls_endpoint ossl s view seal peer" "length data < 2 ^ 31"
    and "tv_script (view w) = []" "tv_errors (view w) = []" "tv_out (view w) = []"
  shows "\<exists>cs w'. encrypt ossl s data w = Some (Inr (wire_from seal (tv_sent (view w)) cs), w')
      \<and> concat cs = data \<and> [] \<notin> set cs \<and> view w' = (view w)\<lparr> tv_sent := tv_sent (view w) @ cs \<rparr>"
proof -
  have laws: "session_laws ossl s view seal peer" "bio_laws ossl s view" using assms(1) by (simp_all add: tls_endpoint_def)
  obtain cs w1 where cs: "ssl_write_all ossl s data w = Some (Inr (of_nat (length data)), w1)"
      "concat cs = data" "[] \<notin> set cs"
      "view w1 = (view w)\<lparr> tv_out := wire_from seal (tv_sent (view w)) cs, tv_sent := tv_sent (view w) @ cs \<rparr>"
    using ssl_write_loop_ok [OF laws(1) assms(2,3,4), of 0] assms(5) by (auto simp: ssl_write_all_def)
  obtain w' where "bio_read_all ossl (sw_out s) w1 = Some (Inr (wire_from seal (tv_sent (view w)) cs), w')"
      "view w' = (view w1)\<lparr> tv_out := [] \<rparr>"
    using bio_read_all_ok [OF laws(2), of w1] cs(4) assms(4) by auto
  moreover have "(view w1)\<lparr> tv_out := [] \<rparr> = (view w)\<lparr> tv_sent := tv_sent (view w) @ cs \<rparr>"
    using cs(4) assms(5) by (cases "view w") simp
  ultimately show ?thesis using cs by (auto simp: encrypt_def and_next_def)
qed

text \<open>Reading: all the plain text that has come in is handed out.\<close>

lemma ssl_read_all_loop_ok:
  assumes "session_laws ossl s view seal peer"
  shows "tv_script (view w) = [] \<Longrightarrow> tv_errors (view w) = [] \<Longrightarrow> tv_fed (view w) = wire_from peer [] h \<Longrightarrow>
    tv_taken (view w) \<le> length (concat h) \<Longrightarrow>
    \<exists>w'. ssl_read_all_loop ossl s res w = Some (Inr (res @ drop (tv_taken (view w)) (concat h)), w')
      \<and> view w' = (view w)\<lparr> tv_taken := length (concat h) \<rparr>"
proof (induction "length (concat h) - tv_taken (view w)" arbitrary: w res rule: less_induct)
  case less
  let ?avail = "drop (tv_taken (view w)) (concat h)"
  have "(0 :: int) < 4096" by simp
  then obtain r buf w1 where r: "SSL_read ossl (sw_ssl s) 4096 w = (r, buf, w1)"
    "let avail = ?avail
     in if avail = [] then r \<le> 0 \<and> SSL_get_error ossl (sw_ssl s) r w1 = 2 \<and> view w1 = view w
        else 0 < r \<and> r \<le> 4096 \<and> r \<le> int (length avail) \<and> take (nat r) buf = take (nat r) avail
           \<and> view w1 = (view w)\<lparr> tv_taken := tv_taken (view w) + nat r \<rparr>"
    using assms less.prems(1,2,3) unfolding session_laws_def by meson
  show ?case
  proof (cases "?avail = []")
    case True
    then have w: "r \<le> 0" "view w1 = view w" "SSL_get_error ossl (sw_ssl s) r w1 = 2" using r(2) by simp_all
    moreover obtain x where "check_raise_fatal ossl s r ''SSL_read'' w1 = Inr x" using check_raise_ok(2) [OF w(3)] by blast
    moreover have "tv_taken (view w) = length (concat h)" using True less.prems(4) by simp
    moreover have "(view w)\<lparr> tv_taken := length (concat h) \<rparr> = view w" using calculation(5) by (cases "view w") simp
    ultimately show ?thesis using True r(1) by (subst ssl_read_all_loop.simps) simp
  next
    case False
    then have v: "0 < r" "r \<le> int (length ?avail)" "take (nat r) buf = take (nat r) ?avail"
        "view w1 = (view w)\<lparr> tv_taken := tv_taken (view w) + nat r \<rparr>"
      using r(2) by (simp_all add: Let_def)
    have t: "tv_taken (view w1) \<le> length (concat h)" "length (concat h) - tv_taken (view w1) < length (concat h) - tv_taken (view w)"
      using v by simp_all
    obtain w' where w': "ssl_read_all_loop ossl s (res @ take (nat r) buf) w1
          = Some (Inr ((res @ take (nat r) buf) @ drop (tv_taken (view w1)) (concat h)), w')"
        "view w' = (view w1)\<lparr> tv_taken := length (concat h) \<rparr>"
      using less.hyps [OF t(2) _ _ _ t(1), of "res @ take (nat r) buf"] less.prems(1,2,3) v(4) by auto
    moreover have "take (nat r) ?avail @ drop (tv_taken (view w1)) (concat h) = ?avail"
      using v(4) by (simp add: add.commute flip: drop_drop)
    ultimately show ?thesis using r(1) v by (subst ssl_read_all_loop.simps) simp
  qed
qed

lemma decrypt_ok:
  assumes "tls_endpoint ossl s view seal peer" "length data < 2 ^ 31" "data \<noteq> []"
    and "tv_script (view w) = []" "tv_errors (view w) = []"
    and "tv_fed (view w) @ data = wire_from peer [] h" "tv_taken (view w) \<le> length (concat h)"
  shows "\<exists>w'. decrypt ossl s data w = Some (Inr (drop (tv_taken (view w)) (concat h)), w')
      \<and> view w' = (view w)\<lparr> tv_fed := wire_from peer [] h, tv_taken := length (concat h) \<rparr>"
proof -
  have laws: "session_laws ossl s view seal peer" "bio_laws ossl s view" using assms(1) by (simp_all add: tls_endpoint_def)
  obtain w1 where w1: "bio_write ossl (sw_in s) data w = Some (Inr (of_nat (length data)), w1)"
      "view w1 = (view w)\<lparr> tv_fed := wire_from peer [] h \<rparr>"
    using bio_write_ok [OF laws(2) assms(2), of w] assms(6) by auto
  obtain w' where "ssl_read_all ossl s w1 = Some (Inr (drop (tv_taken (view w)) (concat h)), w')"
      "view w' = (view w1)\<lparr> tv_taken := length (concat h) \<rparr>"
    using ssl_read_all_loop_ok [OF laws(1), of w1 h "[]"] w1(2) assms by (auto simp: ssl_read_all_def)
  then show ?thesis using w1 assms(3) by (auto simp: decrypt_def and_next_def)
qed

subsection \<open>The tunnel\<close>

text \<open>Both ends of a tunnel that is up agree on what was sent. The server has read everything; \<open>pending\<close> is the plain
  text that the client was sent and has not decoded.\<close>

definition idle_view :: "tls_view \<Rightarrow> bool" where
  "idle_view v \<longleftrightarrow> tv_script v = [] \<and> tv_errors v = [] \<and> tv_out v = []"

definition tunnel_up :: "sealing \<Rightarrow> sealing \<Rightarrow> bytes \<Rightarrow> tls_view \<Rightarrow> tls_view \<Rightarrow> bool" where
  "tunnel_up sealc seals pending c s \<longleftrightarrow> idle_view c \<and> idle_view s
     \<and> tv_fed s = wire_from sealc [] (tv_sent c) \<and> tv_taken s = length (concat (tv_sent c))
     \<and> tv_fed c = wire_from seals [] (tv_sent s) \<and> tv_taken c \<le> length (concat (tv_sent s))
     \<and> pending = drop (tv_taken c) (concat (tv_sent s))"

text \<open>The laws of both ends. The client seals with one key and the server with the other.\<close>

definition tls_pair ::
    "'w openssl \<Rightarrow> ssl_bio_wrapper \<Rightarrow> ssl_bio_wrapper \<Rightarrow> ('w \<Rightarrow> tls_view) \<Rightarrow> ('w \<Rightarrow> tls_view) \<Rightarrow> sealing \<Rightarrow> sealing \<Rightarrow> bool" where
  "tls_pair ossl srv ssl cview sview sealc seals \<longleftrightarrow>
     tls_endpoint ossl ssl cview sealc seals \<and> tls_endpoint ossl srv sview seals sealc"

lemma short_wire:
  assumes "seal_laws seal" "[] \<notin> set cs" "length (concat cs) \<le> 2 ^ 19"
  shows "length (wire_from seal h cs) < 2 ^ 31"
  using wire_from_length [OF assms(1,2), of h] assms(3) by simp

text \<open>One block on the server.\<close>

lemma send_block_ok:
  assumes ep: "tls_endpoint ossl srv view seal peer" and peer: "seal_laws peer"
    and idle: "idle_view (view w)" and fed: "tv_fed (view w) = wire_from peer [] h" "tv_taken (view w) = length (concat h)"
    and cs: "[] \<notin> set cs" "length (concat cs) \<le> 2 ^ 19"
  shows "\<exists>ds w'. send_block ossl srv (wire_from peer h cs) w = Some (Inr (wire_from seal (tv_sent (view w)) ds), w')
      \<and> concat ds = rev (concat cs) \<and> [] \<notin> set ds
      \<and> view w' = (view w)\<lparr> tv_fed := wire_from peer [] (h @ cs), tv_taken := length (concat (h @ cs)), tv_sent := tv_sent (view w) @ ds \<rparr>"
proof -
  have fin: "init_finished ossl srv w"
    using ep idle by (auto simp: tls_endpoint_def handshake_laws_def idle_view_def init_finished_def)
  have "\<exists>w1. decrypt ossl srv (wire_from peer h cs) w = Some (Inr (concat cs), w1)
      \<and> view w1 = (view w)\<lparr> tv_fed := wire_from peer [] (h @ cs), tv_taken := length (concat (h @ cs)) \<rparr>"
  proof (cases "cs = []")
    case True
    then show ?thesis using fed by (cases "view w") (auto simp: decrypt_def)
  next
    case False
    then have ne: "wire_from peer h cs \<noteq> []" using peer cs(1) by (simp add: wire_from_empty_iff)
    from decrypt_ok [OF ep short_wire [OF peer cs] ne, of w "h @ cs"] show ?thesis
      using idle fed by (simp add: idle_view_def wire_from_append)
  qed
  then obtain w1 where w1: "decrypt ossl srv (wire_from peer h cs) w = Some (Inr (concat cs), w1)"
      "view w1 = (view w)\<lparr> tv_fed := wire_from peer [] (h @ cs), tv_taken := length (concat (h @ cs)) \<rparr>" by blast
  have "length (rev (concat cs)) < 2 ^ 31" using cs(2) by simp
  from encrypt_ok [OF ep this, of w1] w1(2) idle obtain ds w' where
    "encrypt ossl srv (rev (concat cs)) w1 = Some (Inr (wire_from seal (tv_sent (view w)) ds), w')"
    "concat ds = rev (concat cs)" "[] \<notin> set ds" "view w' = (view w1)\<lparr> tv_sent := tv_sent (view w) @ ds \<rparr>"
    by (auto simp: idle_view_def)
  then show ?thesis using fin w1 by (auto simp: send_block_def and_next_def)
qed

lemma and_next_Some [simp]:
  "and_next (Some (Inr x, w)) f = f x w" "and_next (Some (Inl e, w)) f = Some (Inl e, w)"
  by (simp_all add: and_next_def)

text \<open>The answer at the client, decoded or only fed into its BIO.\<close>

lemma receive_ok:
  assumes ec: "tls_endpoint ossl ssl view seal peer" and sl: "seal_laws peer" and idle: "idle_view (view w)"
    and fed: "tv_fed (view w) = wire_from peer [] h" "tv_taken (view w) \<le> length (concat h)"
    and ds: "[] \<notin> set ds" "length (concat ds) \<le> 2 ^ 19"
  shows "\<exists>w'. (if decode then at_client (decrypt ossl ssl (wire_from peer h ds)) (w, sw)
       else and_next (at_client (bio_write ossl (sw_in ssl) (wire_from peer h ds)) (w, sw)) (\<lambda>_ cw. Some (Inr [], cw)))
     = Some (Inr (if decode \<and> ds \<noteq> [] then drop (tv_taken (view w)) (concat (h @ ds)) else []), w', sw)
     \<and> view w' = (view w)\<lparr> tv_fed := wire_from peer [] (h @ ds),
                            tv_taken := if decode \<and> ds \<noteq> [] then length (concat (h @ ds)) else tv_taken (view w) \<rparr>"
proof -
  note short = short_wire [OF sl ds, of h]
  have f: "tv_fed (view w) @ wire_from peer h ds = wire_from peer [] (h @ ds)" using fed by (simp add: wire_from_append)
  consider "decode" "ds \<noteq> []" | "decode" "ds = []" | "\<not> decode" by blast
  then show ?thesis
  proof cases
    case 1
    then have "wire_from peer h ds \<noteq> []" using sl ds(1) by (simp add: wire_from_empty_iff)
    from decrypt_ok [OF ec short this _ _ f] 1 idle fed show ?thesis by (auto simp: at_client_def idle_view_def)
  next
    case 2
    then show ?thesis using fed by (cases "view w") (auto simp: decrypt_def at_client_def)
  next
    case 3
    have "bio_laws ossl ssl view" using ec by (simp add: tls_endpoint_def)
    from bio_write_ok [OF this short, of w] 3 f show ?thesis by (cases "view w") (auto simp: at_client_def)
  qed
qed

lemma send_data_ok:
  assumes pair: "tls_pair ossl srv ssl cview sview sealc seals" and len: "length data \<le> 2 ^ 19"
    and up: "tunnel_up sealc seals pending (cview (fst cw)) (sview (snd cw))"
  shows "\<exists>cw'. send_data ossl srv ssl data decode cw = Some (Inr (if decode \<and> data \<noteq> [] then pending @ rev data else []), cw')
      \<and> tunnel_up sealc seals (if decode \<and> data \<noteq> [] then [] else pending @ rev data) (cview (fst cw')) (sview (snd cw'))"
proof -
  have ec: "tls_endpoint ossl ssl cview sealc seals" and es: "tls_endpoint ossl srv sview seals sealc"
    using pair by (simp_all add: tls_pair_def)
  have sl: "seal_laws sealc" "seal_laws seals" using ec es by (simp_all add: tls_endpoint_def)
  let ?c = "cview (fst cw)" and ?s = "sview (snd cw)"
  have icl: "idle_view ?c" and isv: "idle_view ?s" and f: "tv_fed ?s = wire_from sealc [] (tv_sent ?c)"
      "tv_taken ?s = length (concat (tv_sent ?c))" "tv_fed ?c = wire_from seals [] (tv_sent ?s)"
      "tv_taken ?c \<le> length (concat (tv_sent ?s))" "pending = drop (tv_taken ?c) (concat (tv_sent ?s))"
    using up by (simp_all add: tunnel_up_def)
  have "length data < 2 ^ 31" using len by simp
  from encrypt_ok [OF ec this, of "fst cw"] icl obtain cs w1 where e: "concat cs = data" "[] \<notin> set cs"
      "encrypt ossl ssl data (fst cw) = Some (Inr (wire_from sealc (tv_sent ?c) cs), w1)"
      "cview w1 = ?c\<lparr> tv_sent := tv_sent ?c @ cs \<rparr>" by (auto simp: idle_view_def)
  from send_block_ok [OF es sl(1) isv f(1,2) e(2)] e(1) len obtain ds w2 where
    b: "send_block ossl srv (wire_from sealc (tv_sent ?c) cs) (snd cw) = Some (Inr (wire_from seals (tv_sent ?s) ds), w2)"
      "concat ds = rev data" "[] \<notin> set ds"
      "sview w2 = ?s\<lparr> tv_fed := wire_from sealc [] (tv_sent ?c @ cs), tv_taken := length (concat (tv_sent ?c @ cs)), tv_sent := tv_sent ?s @ ds \<rparr>"
    by auto
  have ne: "ds \<noteq> [] \<longleftrightarrow> data \<noteq> []" using b(2,3) by (cases ds) auto
  have "idle_view (cview w1)" "tv_fed (cview w1) = wire_from seals [] (tv_sent ?s)" "tv_taken (cview w1) \<le> length (concat (tv_sent ?s))"
      "length (concat ds) \<le> 2 ^ 19"
    using e(4) icl f len b(2) by (simp_all add: idle_view_def)
  from receive_ok [OF ec sl(2) this(1,2,3) b(3) this(4), of decode w2] e(3) b(1) obtain w3 where
    "send_data ossl srv ssl data decode cw
       = Some (Inr (if decode \<and> ds \<noteq> [] then drop (tv_taken (cview w1)) (concat (tv_sent ?s @ ds)) else []), w3, w2)"
    "cview w3 = (cview w1)\<lparr> tv_fed := wire_from seals [] (tv_sent ?s @ ds),
         tv_taken := if decode \<and> ds \<noteq> [] then length (concat (tv_sent ?s @ ds)) else tv_taken (cview w1) \<rparr>"
    by (auto simp: send_data_def at_client_def call_send_block_def)
  then show ?thesis using ne e(1,4) b(2,4) icl isv f by (auto simp: tunnel_up_def idle_view_def)
qed

subsection \<open>The whole conversation\<close>

text \<open>What the calls return: a block that was not decoded is decoded by the next call that decodes.\<close>

fun tunnel_answers :: "bytes \<Rightarrow> (bytes \<times> bool) list \<Rightarrow> bytes list" where
  "tunnel_answers pending [] = []"
| "tunnel_answers pending ((data, decode) # rest) =
     (if decode \<and> data \<noteq> [] then (pending @ rev data) # tunnel_answers [] rest
      else [] # tunnel_answers (pending @ rev data) rest)"

lemma send_all_ok:
  assumes pair: "tls_pair ossl srv ssl cview sview sealc seals"
  shows "(\<forall>b \<in> set blocks. length (fst b) \<le> 2 ^ 19) \<Longrightarrow> tunnel_up sealc seals pending (cview (fst cw)) (sview (snd cw)) \<Longrightarrow>
    \<exists>cw' rest. send_all ossl srv ssl blocks cw = Some (Inr (tunnel_answers pending blocks), cw')
      \<and> tunnel_up sealc seals rest (cview (fst cw')) (sview (snd cw'))"
proof (induction blocks arbitrary: pending cw)
  case (Cons b blocks)
  obtain data decode where [simp]: "b = (data, decode)" by (cases b)
  let ?p = "if decode \<and> data \<noteq> [] then [] else pending @ rev data"
  obtain cw1 where s: "send_data ossl srv ssl data decode cw = Some (Inr (if decode \<and> data \<noteq> [] then pending @ rev data else []), cw1)"
      "tunnel_up sealc seals ?p (cview (fst cw1)) (sview (snd cw1))"
    using send_data_ok [OF pair _ Cons.prems(2), of data decode] Cons.prems(1) by auto
  obtain cw' rest where "send_all ossl srv ssl blocks cw1 = Some (Inr (tunnel_answers ?p blocks), cw')"
      "tunnel_up sealc seals rest (cview (fst cw')) (sview (snd cw'))"
    using Cons.IH [OF _ s(2)] Cons.prems(1) by auto
  then show ?case using s(1) by (cases "decode \<and> data \<noteq> []") auto
qed auto

text \<open>The flights of the two ends fit: what one answers is what the other expects next, the client begins, and the
  server answers only when it is asked. The full and the abbreviated handshake of TLS 1.2 are of this form.\<close>

fun flights_fit :: "bytes \<Rightarrow> (bytes \<times> bytes) list \<Rightarrow> (bytes \<times> bytes) list \<Rightarrow> bool" where
  "flights_fit fed [] ss = (fed = [] \<and> ss = [])"
| "flights_fit fed ((i, e) # cs) ss =
     (i = fed \<and> (if e = [] then flights_fit [] cs ss
       else (case ss of
               [] \<Rightarrow> False
             | (i', e') # ss' \<Rightarrow> i' = e \<and> length e < 2 ^ 31 \<and> length e' < 2 ^ 31 \<and> flights_fit e' cs ss')))"

definition fresh_view :: "(bytes \<times> bytes) list \<Rightarrow> bytes \<Rightarrow> tls_view" where
  "fresh_view script fed =
     \<lparr> tv_errors = [], tv_script = script, tv_fed = fed, tv_out = [], tv_sent = [], tv_taken = 0 \<rparr>"

lemma do_handshake_ok:
  assumes ep: "tls_endpoint ossl s view seal peer" and v: "view w = fresh_view ((i, e) # rest) fed"
    and len: "length data < 2 ^ 31" and i: "fed @ data = i"
  shows "\<exists>w'. do_handshake ossl s data w = Some (Inr e, w') \<and> view w' = fresh_view rest []"
proof -
  have laws: "bio_laws ossl s view" "handshake_laws ossl s view" using ep by (simp_all add: tls_endpoint_def)
  obtain k w1 where w1: "(if data \<noteq> [] then bio_write ossl (sw_in s) data w else Some (Inr 0, w)) = Some (Inr k, w1)"
      "view w1 = fresh_view ((i, e) # rest) i"
    using bio_write_ok [OF laws(1) len, of w] v i by (cases "data = []") (auto simp: fresh_view_def)
  then have "tv_script (view w1) = (i, e) # rest \<and> tv_errors (view w1) = [] \<and> tv_fed (view w1) = i"
    by (simp add: fresh_view_def)
  then obtain r w2 where r: "SSL_do_handshake ossl (sw_ssl s) w1 = (r, w2)"
      "if rest = [] then 0 < r else r \<le> 0 \<and> SSL_get_error ossl (sw_ssl s) r w2 = 2"
      "view w2 = (view w1)\<lparr> tv_script := rest, tv_fed := [], tv_out := tv_out (view w1) @ e \<rparr>"
    using laws(2) [unfolded handshake_laws_def, THEN conjunct1, rule_format, of w1 i e rest] by blast
  obtain x where x: "check_raise_fatal ossl s r ''SSL_do_handshake'' w2 = Inr x"
    using r(2) by (cases "rest = []") (auto simp: check_raise_fatal_def)
  obtain w' where "bio_read_all ossl (sw_out s) w2 = Some (Inr e, w')" "view w' = fresh_view rest []"
    using bio_read_all_ok [OF laws(1), of w2] r(3) w1(2) by (auto simp: fresh_view_def)
  then show ?thesis using w1(1) r(1) x by (simp add: do_handshake_def)
qed

lemma init_finished_iff:
  "tls_endpoint ossl s view seal peer \<Longrightarrow> init_finished ossl s w \<longleftrightarrow> tv_script (view w) = []"
  by (simp add: tls_endpoint_def handshake_laws_def init_finished_def)

lemma handshake_loop_ok:
  assumes pair: "tls_pair ossl srv ssl cview sview sealc seals"
  shows "flights_fit fed cs ss \<Longrightarrow> cview (fst cw) = fresh_view cs fed \<Longrightarrow> sview (snd cw) = fresh_view ss [] \<Longrightarrow>
    \<exists>cw'. handshake_loop ossl srv ssl cw = Some (Inr (), cw')
      \<and> cview (fst cw') = fresh_view [] [] \<and> sview (snd cw') = fresh_view [] []"
proof (induction cs arbitrary: fed ss cw)
  case Nil
  then show ?case using pair
    by (subst handshake_loop.simps, cases cw) (auto simp: tls_pair_def init_finished_iff fresh_view_def)
next
  case (Cons f cs)
  obtain i e where f: "f = (i, e)" by (cases f)
  have ec: "tls_endpoint ossl ssl cview sealc seals" and es: "tls_endpoint ossl srv sview seals sealc"
    using pair by (simp_all add: tls_pair_def)
  have nf: "\<not> init_finished ossl ssl (fst cw)" using Cons.prems(2) ec by (simp add: init_finished_iff fresh_view_def)
  obtain w1 where w1: "do_handshake ossl ssl [] (fst cw) = Some (Inr e, w1)" "cview w1 = fresh_view cs []"
    using do_handshake_ok [OF ec, of "fst cw" i e cs fed "[]"] Cons.prems f by auto
  show ?case
  proof (cases "e = []")
    case True
    then show ?thesis using Cons.IH [of "[]" ss "(w1, snd cw)"] Cons.prems f w1 nf
      by (subst handshake_loop.simps) (simp add: at_client_def)
  next
    case False
    then obtain e' ss' where ss: "ss = (e, e') # ss'" "length e < 2 ^ 31" "length e' < 2 ^ 31" "flights_fit e' cs ss'"
      using Cons.prems(1) f by (auto split: list.splits)
    have ns: "\<not> init_finished ossl srv (snd cw)" using Cons.prems(3) es ss(1) by (simp add: init_finished_iff fresh_view_def)
    obtain w2 where w2: "call_send_block ossl srv e (w1, snd cw) = Some (Inr e', w1, w2)" "sview w2 = fresh_view ss' []"
      using do_handshake_ok [OF es, of "snd cw" e e' ss' "[]" e] Cons.prems(3) ss ns
      by (auto simp: call_send_block_def send_block_def)
    have "bio_laws ossl ssl cview" using ec by (simp add: tls_endpoint_def)
    from bio_write_ok [OF this ss(3), of w1] w1(2) obtain w3 where
      w3: "bio_write ossl (sw_in ssl) e' w1 = Some (Inr (of_nat (length e')), w3)" "cview w3 = fresh_view cs e'"
      by (auto simp: fresh_view_def)
    show ?thesis using Cons.IH [of e' ss' "(w1, w2)"] Cons.IH [of e' ss' "(w3, w2)"] ss(4) w1 w2 w3 nf False
      by (subst handshake_loop.simps) (cases "e' = []"; simp add: at_client_def)
  qed
qed

lemma conversation_ok:
  assumes pair: "tls_pair ossl srv ssl cview sview sealc seals"
    and "flights_fit [] cs ss" "cview (fst cw) = fresh_view cs []" "sview (snd cw) = fresh_view ss []"
    and blocks: "\<forall>b \<in> set blocks. length (fst b) \<le> 2 ^ 19"
  shows "\<exists>cw' rest. and_next (handshake_loop ossl srv ssl cw) (\<lambda>_ cw. send_all ossl srv ssl blocks cw)
      = Some (Inr (tunnel_answers [] blocks), cw') \<and> tunnel_up sealc seals rest (cview (fst cw')) (sview (snd cw'))"
proof -
  obtain cw1 where h: "handshake_loop ossl srv ssl cw = Some (Inr (), cw1)"
      "cview (fst cw1) = fresh_view [] []" "sview (snd cw1) = fresh_view [] []"
    using handshake_loop_ok [OF pair assms(2,3,4)] by blast
  have "tunnel_up sealc seals [] (cview (fst cw1)) (sview (snd cw1))"
    using h by (simp add: tunnel_up_def idle_view_def fresh_view_def)
  from send_all_ok [OF pair blocks this] h(1) show ?thesis by auto
qed


text \<open>The client program: the third line it prints holds the second and the third answer.\<close>

theorem connect_handshake_prints:
  assumes "ssl_bio_wrapper_new ossl TLSv1_2_client_method w = (Inr s0, w1)"
    and "ssl_init ossl (client_init_context ossl) (init_ssl_client ossl) s0 w1 = (Inr (), ssl, w2)"
    and "tls_pair ossl srv ssl cview sview sealc seals"
    and "flights_fit [] cs ss" "cview w2 = fresh_view cs []" "sview sw = fresh_view ss []"
  shows "\<exists>w' sw'. connect_handshake ossl srv (w, sw) =
      Some (Inr [rev (ascii ''Hello, World1''), [], rev (ascii ''Hello, World2'') @ rev (ascii ''Hello, World3''),
                 replicate 41 (of_char CHR ''!'')], w', sw')"
proof -
  have blocks: "\<forall>b \<in> set hello_blocks. length (fst b) \<le> 2 ^ 19" by (simp add: hello_blocks_def ascii_def)
  have a: "tunnel_answers [] hello_blocks = [rev (ascii ''Hello, World1''), [], rev (ascii ''Hello, World2'') @ rev (ascii ''Hello, World3''),
      replicate 41 (of_char CHR ''!'')]"
    by (simp add: hello_blocks_def ascii_def)
  have "\<exists>cw'. and_next (handshake_loop ossl srv ssl (w2, sw)) (\<lambda>_ cw. send_all ossl srv ssl hello_blocks cw)
      = Some (Inr (tunnel_answers [] hello_blocks), cw')"
    using conversation_ok [OF assms(3,4), of "(w2, sw)", unfolded fst_conv snd_conv, OF assms(5,6) blocks] by blast
  then show ?thesis using assms(1,2) by (auto simp: connect_handshake_def at_client_def a)
qed

subsection \<open>An OpenSSL to try it on\<close>

text \<open>A record of functions for which the laws hold: the state is the view, a record is its text under a mask,
  \<open>SSL_write\<close> takes at most five bytes at a time and \<open>SSL_read\<close> gives at most three.\<close>

definition masked :: "bytes \<Rightarrow> bytes" where
  "masked = map (\<lambda>b. b XOR 0x5A)"

definition client_script :: "(bytes \<times> bytes) list" where
  "client_script = [([], [1]), ([2], [3]), ([4], [])]"

definition server_script :: "(bytes \<times> bytes) list" where
  "server_script = [([1], [2]), ([3], [4])]"

definition masked_read :: "int \<Rightarrow> tls_view \<Rightarrow> int \<times> bytes \<times> tls_view" where
  "masked_read n v =
     (let avail = drop (tv_taken v) (masked (tv_fed v)); r = min (min n 3) (int (length avail))
      in if avail = [] then (- 1, [], v) else (r, take (nat r) avail, v\<lparr> tv_taken := tv_taken v + nat r \<rparr>))"

definition masked_ossl :: "tls_view openssl" where
  "masked_ossl = \<lparr>
     BIO_new = (\<lambda>v. (Some 0, v)), BIO_free_all = (\<lambda>_ v. v), BIO_push = (\<lambda>_ _ v. v), BIO_pop = (\<lambda>_ v. (None, v)),
     BIO_write = (\<lambda>_ data n v. (n, v\<lparr> tv_fed := tv_fed v @ take (nat n) data \<rparr>)),
     BIO_read = (\<lambda>_ n v. let r = min n (int (length (tv_out v)))
        in if tv_out v = [] then (- 1, [], v) else (r, take (nat r) (tv_out v), v\<lparr> tv_out := drop (nat r) (tv_out v) \<rparr>)),
     ERR_get_error = (\<lambda>v. case tv_errors v of [] \<Rightarrow> (0, v) | e # es \<Rightarrow> (e, v\<lparr> tv_errors := es \<rparr>)),
     ERR_error_string = (\<lambda>_. ''error''),
     SSL_CTX_new = (\<lambda>_ v. (Some 0, v)), SSL_CTX_free = (\<lambda>_ v. v), SSL_new = (\<lambda>_ v. (Some 0, v)), SSL_free = (\<lambda>_ v. v),
     SSL_set_bio = (\<lambda>_ _ _ v. v),
     SSL_set_accept_state = (\<lambda>_ v. fresh_view server_script []), SSL_set_connect_state = (\<lambda>_ v. fresh_view client_script []),
     SSL_is_init_finished = (\<lambda>_ v. tv_script v = []),
     SSL_get_error = (\<lambda>_ r v. if 0 < r then 0 else 2),
     SSL_do_handshake = (\<lambda>_ v. case tv_script v of
          [] \<Rightarrow> (1, v)
        | (i, e) # rest \<Rightarrow> (if rest = [] then 1 else - 1, v\<lparr> tv_script := rest, tv_fed := [], tv_out := tv_out v @ e \<rparr>)),
     SSL_write = (\<lambda>_ data n v. let m = min n 5; c = take (nat m) data
        in (m, v\<lparr> tv_out := tv_out v @ masked c, tv_sent := tv_sent v @ [c] \<rparr>)),
     SSL_read = (\<lambda>_. masked_read),
     SSL_CTX_use_certificate_file = (\<lambda>_ _ v. (1, v)), SSL_CTX_use_PrivateKey_file = (\<lambda>_ _ v. (1, v)),
     SSL_CTX_check_private_key = (\<lambda>_ _. 1), SSL_CTX_set_mode = (\<lambda>_ _ v. v),
     SSL_CTX_set_cert_verify_callback = (\<lambda>_ v. v), SSL_CTX_load_verify_locations = (\<lambda>_ _ v. (1, v)) \<rparr>"

lemma masked_wire: "masked (wire_from (\<lambda>_. masked) h cs) = concat cs"
  by (induction cs arbitrary: h) (simp_all add: masked_def xor.assoc o_def)

lemma masked_endpoint: "tls_endpoint masked_ossl s (\<lambda>v. v) (\<lambda>_. masked) (\<lambda>_. masked)"
proof -
  have "bio_laws masked_ossl s (\<lambda>v. v)"
    by (auto simp: bio_laws_def masked_ossl_def Let_def split: list.splits)
  moreover have "session_laws masked_ossl s (\<lambda>v. v) (\<lambda>_. masked) (\<lambda>_. masked)"
    by (auto simp: session_laws_def masked_ossl_def Let_def masked_read_def masked_wire)
  moreover have "handshake_laws masked_ossl s (\<lambda>v. v)"
    by (auto simp: handshake_laws_def masked_ossl_def)
  moreover have "seal_laws (\<lambda>_. masked)" by (auto simp: seal_laws_def masked_def)
  ultimately show ?thesis by (simp add: tls_endpoint_def)
qed

definition masked_wrapper :: ssl_bio_wrapper where
  "masked_wrapper = \<lparr> sw_ssl = Some 0, sw_ctx = Some 0, sw_in = \<lparr> bw_b = Some 0, bw_own = False \<rparr>,
     sw_out = \<lparr> bw_b = Some 1, bw_own = False \<rparr> \<rparr>"


subsection \<open>Errors\<close>

text \<open>A fatal error is reported with the text of no error: the code of the error is handed on as if it were the result
  of the call, and the error of a call with a positive result is \<open>SSL_ERROR_NONE\<close>.\<close>

theorem fatal_error_reads_as_none:
  assumes "\<And>n. 0 < n \<Longrightarrow> SSL_get_error ossl (sw_ssl s) n w = 0"
    and "res \<le> 0" "error_fatal (SSL_get_error ossl (sw_ssl s) res w)" "0 \<le> SSL_get_error ossl (sw_ssl s) res w" "arg \<noteq> []"
  shows "check_raise_fatal ossl s res arg w = Inl (Runtime_error (arg @ '': '' @ ERR_error_string ossl 0))"
proof -
  have "0 < SSL_get_error ossl (sw_ssl s) res w" using assms(3,4) by (auto simp: error_fatal_def)
  then show ?thesis using assms by (simp add: check_raise_fatal_def ssl_raise_ssl_def set_what_ssl_def Let_def)
qed

text \<open>An error another connection left in the queue of the thread makes a BIO that is only empty look broken, and the
  text that is reported is that of the error after it.\<close>

theorem stale_error_breaks_read:
  assumes laws: "bio_laws ossl s view" and out: "tv_out (view w) = []"
    and errs: "tv_errors (view w) = [e, e2]" "error_fatal (c_int e)"
  shows "\<exists>w'. bio_read_all ossl (sw_out s) w = Some (Inl (Runtime_error (''SSL_read: '' @ ERR_error_string ossl (c_int e2))), w')
      \<and> tv_errors (view w') = []"
proof -
  have err: "\<exists>x w'. ERR_get_error ossl u = (x, w') \<and> (case tv_errors (view u) of [] \<Rightarrow> x = 0 \<and> view w' = view u
      | y # ys \<Rightarrow> x = y \<and> view w' = (view u)\<lparr> tv_errors := ys \<rparr>)" for u
    using laws by (auto simp: bio_laws_def)
  obtain r buf w1 where r: "BIO_read ossl (bw_b (sw_out s)) 4096 w = (r, buf, w1)" "r = - 1" "view w1 = view w"
    using laws [unfolded bio_laws_def, THEN conjunct2, THEN conjunct1, rule_format, of 4096 w] out by auto
  obtain w2 where w2: "ERR_get_error ossl w1 = (e, w2)" "tv_errors (view w2) = [e2]" using err [of w1] errs(1) r(3) by auto
  obtain w3 where w3: "ERR_get_error ossl w2 = (e2, w3)" "tv_errors (view w3) = []" using err [of w2] w2(2) by auto
  show ?thesis using r w2 w3 errs(2)
    by (simp add: bio_read_all_def bio_read_all_loop.simps ssl_raise_def set_what_def)
qed

text \<open>A write that would block is not fatal, and its -1 is added to the size: \<open>write\<close> claims \<open>2 ^ 64 - 1\<close> bytes.\<close>

theorem blocked_write_claims_everything:
  assumes "SSL_write ossl (sw_ssl s) data (c_int (of_nat (length data))) w = (- 1, w')"
    and "SSL_get_error ossl (sw_ssl s) (- 1) w' = SSL_ERROR_WANT_WRITE"
  shows "ssl_write ossl s data w = (Inr (- 1), w')"
  using assms by (simp add: ssl_write_def check_raise_fatal_def error_fatal_def)

text \<open>After \<open>init\<close> the BIOs belong to the connection: destroying the wrapper frees it and the context, and no BIO.\<close>

theorem init_hands_over_bios:
  assumes "ssl_init ossl init_context init_ssl s w = (Inr (), s', w')"
  shows "\<not> bw_own (sw_in s')" "\<not> bw_own (sw_out s')" "sw_ssl s' \<noteq> None" "sw_ctx s' = sw_ctx s"
    and "sw_ctx s \<noteq> None \<Longrightarrow> ssl_bio_wrapper_delete ossl s' u = SSL_CTX_free ossl (sw_ctx s) (SSL_free ossl (sw_ssl s') u)"
  using assms
  by (auto simp: ssl_init_def bio_give_def ssl_raise_def ssl_bio_wrapper_delete_def free_bio_def Let_def split: sum.splits prod.splits if_splits)

text \<open>Before it they are freed with the wrapper, each once, the second first.\<close>

theorem delete_frees_bios:
  assumes "ssl_bio_wrapper_new ossl meth w = (Inr s, w')"
  shows "ssl_bio_wrapper_delete ossl s u
     = BIO_free_all ossl (bw_b (sw_in s)) (BIO_free_all ossl (bw_b (sw_out s)) (SSL_CTX_free ossl (sw_ctx s) u))"
  using assms
  by (auto simp: ssl_bio_wrapper_new_def bio_wrapper_new_def bio_make_new_def ssl_raise_def ssl_bio_wrapper_delete_def free_bio_def Let_def
      split: sum.splits prod.splits if_splits)

end
