(* ===== verification/Proxy.thy ===== *)
theory Proxy
  imports Rpc_Channel
begin

text \<open>
  The proxy of \<open>examples/proxy-test\<close>: a server that forwards units between its clients (\<open>server/main.cpp\<close>) and a
  client whose channel wraps its calls for it (\<open>client/main.cpp\<close>). The messages of the protocol buffers library are
  serialised by the functions of \<open>proxy_codec\<close>, an argument. A connection is an address; whether it still exists
  is an argument too.
\<close>

subsection \<open>Messages\<close>

record proxy_message =
  pm_client_id :: string
  pm_data :: bytes

record proxy_codec =
  px_unit :: "lowlevel_unit \<Rightarrow> bytes"
  px_parse_unit :: "bytes \<Rightarrow> lowlevel_unit"
  px_message :: "proxy_message \<Rightarrow> bytes"

definition px_ok :: "proxy_codec \<Rightarrow> bool" where
  "px_ok cd \<longleftrightarrow> (\<forall>u. px_parse_unit cd (px_unit cd u) = u)"

subsection \<open>The server\<close>

type_synonym proxy_clients = "string \<rightharpoonup> nat"

definition register_client :: "nat \<Rightarrow> string \<Rightarrow> proxy_clients \<Rightarrow> proxy_clients" where
  "register_client c ident m = m(ident \<mapsto> c)"

text \<open>A client that is gone is forgotten when it is looked up.\<close>

definition client_by_id :: "(nat \<Rightarrow> bool) \<Rightarrow> string \<Rightarrow> proxy_clients \<Rightarrow> proxy_clients \<times> nat option" where
  "client_by_id exists ident m =
     (case m ident of
        None \<Rightarrow> (m, None)
      | Some c \<Rightarrow> if exists c then (m, Some c) else (m(ident := None), None))"

text \<open>A service of one connection, whose name is \<open>name\<close>.\<close>

definition reg_for_proxy :: "nat \<Rightarrow> string \<Rightarrow> proxy_clients \<Rightarrow> proxy_clients" where
  "reg_for_proxy connection name m = register_client connection name m"

definition empty_target_unit :: lowlevel_unit where
  "empty_target_unit = llu_set_additional ''Target channel is empty.'' (llu_set_code 1 llu_new)"

text \<open>\<open>env c\<close> is the calling side of connection \<open>c\<close>, \<open>active\<close> whether it is active, \<open>ws\<close> what its layer hands to the
  caller that waits. A null result is used as a message: \<open>Undefined\<close>.\<close>

definition send_to ::
    "proxy_codec \<Rightarrow> (nat \<Rightarrow> bool) \<Rightarrow> (nat \<Rightarrow> bool) \<Rightarrow> string \<Rightarrow> (u64, lowlevel_unit) call_wait list \<Rightarrow> proxy_message \<Rightarrow>
     proxy_clients \<times> (nat \<Rightarrow> call_env) \<Rightarrow> ((proxy_clients \<times> (nat \<Rightarrow> call_env)) \<times> (exn + proxy_message)) option" where
  "send_to cd exists active name ws request = (\<lambda>(m, env).
     case client_by_id exists (pm_client_id request) m of
       (m, Some tgt) \<Rightarrow>
         (let llu = px_parse_unit cd (pm_data request);
              ch = unicast_channel_new (current_context (env tgt)) DEFAULT_flags;
              llu = llu\<lparr> llu_channel_data := map (\<lambda>c. of_nat (of_char c)) name \<rparr>
          in map_option
               (\<lambda>(e, r).
                  ((m, env(tgt := e)),
                   case r of
                     Inl x \<Rightarrow> Inl x
                   | Inr None \<Rightarrow> Inl Undefined
                   | Inr (Some res) \<Rightarrow> Inr \<lparr> pm_client_id = [], pm_data = px_unit cd res \<rparr>))
               (unicast_raw_call ch (unicast_message_type ch) True (active tgt) (Some (px_message cd request)) None ws llu
                  (env tgt)))
     | (m, None) \<Rightarrow> Some ((m, env), Inr \<lparr> pm_client_id = [], pm_data = px_unit cd empty_target_unit \<rparr>))"

subsection \<open>The client\<close>

definition send_hello :: "string \<Rightarrow> string" where
  "send_hello ping = ping @ '': pong''"

text \<open>\<open>send_message\<close> of the channel to \<open>tgt\<close>: \<open>proxy\<close> is the call of \<open>send_to\<close> on the server. A parent that has lost its
  connection raises; the result of \<open>make_lowlevel\<close> is never null then. \<open>want\<close> tells whether there is a response.\<close>

definition hello_send_message ::
    "proxy_codec \<Rightarrow> rpc_channel \<Rightarrow> bool \<Rightarrow> string \<Rightarrow> (proxy_message \<Rightarrow> 's \<Rightarrow> 's \<times> (exn + proxy_message)) \<Rightarrow>
     string \<Rightarrow> string \<Rightarrow> bytes option \<Rightarrow> bool \<Rightarrow> call_env \<times> 's \<Rightarrow> (call_env \<times> 's) \<times> (exn + bytes option)" where
  "hello_send_message cd parent locked tgt proxy service meth request want = (\<lambda>(e, s).
     case client_make_lowlevel parent locked service meth request want e of
       (e, Inl x) \<Rightarrow> ((e, s), Inl x)
     | (e, Inr None) \<Rightarrow> ((e, s), Inl Undefined)
     | (e, Inr (Some req_llu)) \<Rightarrow>
         (let req = \<lparr> pm_client_id = tgt, pm_data = px_unit cd req_llu \<rparr>
          in case proxy req s of
               (s, Inl x) \<Rightarrow> ((e, s), Inl x)
             | (s, Inr res) \<Rightarrow>
                 ((e, s), Inr (if want then Some (llu_response (px_parse_unit cd (pm_data res))) else None))))"

subsection \<open>The table of clients\<close>

text \<open>A client that registered is found as long as it exists, whoever else registers under other names; one that is
  gone is not found, and its entry is removed by the first who asks.\<close>

theorem registered_client_found:
  assumes "ident \<notin> set (map snd others)"
  shows "client_by_id exists ident (fold (\<lambda>(c, n). reg_for_proxy c n) others (reg_for_proxy c ident m))
    = (fold (\<lambda>(c, n). reg_for_proxy c n) others (if exists c then reg_for_proxy c ident m else m(ident := None)),
       if exists c then Some c else None)"
proof -
  have look: "fold (\<lambda>(c, n). reg_for_proxy c n) others t ident = t ident" for t
    using assms by (induction others arbitrary: t) (auto simp: reg_for_proxy_def register_client_def)
  have upd: "(fold (\<lambda>(c, n). reg_for_proxy c n) others t)(ident := None)
      = fold (\<lambda>(c, n). reg_for_proxy c n) others (t(ident := None))" for t
    using assms by (induction others arbitrary: t) (auto simp: reg_for_proxy_def register_client_def fun_upd_twist)
  have "reg_for_proxy c ident m ident = Some c" "(reg_for_proxy c ident m)(ident := None) = m(ident := None)"
    by (simp_all add: reg_for_proxy_def register_client_def)
  then show ?thesis by (simp add: client_by_id_def look upd)
qed

subsection \<open>What a forwarded call does\<close>

text \<open>A target that is not there is no error for the caller: the channel returns an empty response.\<close>

theorem missing_target_reads_as_empty:
  assumes "px_ok cd" and "client_make_lowlevel parent locked service meth request True e = (e', Inr (Some llu))"
    and "\<And>s. proxy \<lparr> pm_client_id = tgt, pm_data = px_unit cd llu \<rparr> s
          = (s, Inr \<lparr> pm_client_id = [], pm_data = px_unit cd empty_target_unit \<rparr>)"
  shows "hello_send_message cd parent locked tgt proxy service meth request True (e, s) = ((e', s), Inr (Some []))"
  using assms
  by (simp add: hello_send_message_def px_ok_def empty_target_unit_def llu_set_additional_def llu_set_code_def llu_new_def Let_def)

text \<open>A unit that is not waited for has no result: unless the write raises, \<open>send_to\<close> uses a null pointer. It never
  answers.\<close>

lemma raw_call_without_wait:
  assumes "\<not> uo_wait (llu_opt llu)" "has_flag USE_CONTEXT_CALL ch = False" "rch_callback_type ch \<noteq> MESSAGE_SERVER_CALL"
  shows "\<exists>e' r. unicast_raw_call ch MESSAGE_SERVER_CALL True active req events ws llu e = Some (e', r) \<and> (r = Inr None \<or> (\<exists>x. r = Inl x))"
proof -
  obtain l i where n: "next_index (ce_layer e) = (l, i)" by fastforce
  show ?thesis using assms n
    by (cases req) (auto simp: unicast_raw_call_def env_configure_def configure_message_def Let_def env_call_rpc_method_def
        split: prod.splits sum.splits)
qed

theorem unwaited_forward_never_answers:
  assumes "client_by_id exists (pm_client_id request) m = (m', Some tgt)"
    and "\<not> uo_wait (llu_opt (px_parse_unit cd (pm_data request)))"
  shows "\<exists>st x. send_to cd exists active name ws request (m, env) = Some (st, Inl x)"
proof -
  let ?ch = "unicast_channel_new (current_context (env tgt)) DEFAULT_flags"
  let ?llu = "(px_parse_unit cd (pm_data request))\<lparr> llu_channel_data := map (\<lambda>c. of_nat (of_char c)) name \<rparr>"
  have ch: "has_flag USE_CONTEXT_CALL ?ch = False" "rch_callback_type ?ch \<noteq> MESSAGE_SERVER_CALL"
    "unicast_message_type ?ch = MESSAGE_SERVER_CALL"
    by (simp_all add: unicast_channel_new_def rch_set_flags_def has_flag_def DEFAULT_flags_def rpc_channel_new_def set_static_context_def
        unicast_message_type_def message_type_defs Let_def split: option.splits)
  have "\<not> uo_wait (llu_opt ?llu)" using assms(2) by simp
  from raw_call_without_wait [OF this ch(1,2)] obtain e' r where
    "unicast_raw_call ?ch MESSAGE_SERVER_CALL True (active tgt) (Some (px_message cd request)) None ws ?llu (env tgt) = Some (e', r)"
    "r = Inr None \<or> (\<exists>x. r = Inl x)" by blast
  then show ?thesis using assms(1) ch(3) by (auto simp: send_to_def Let_def)
qed

text \<open>The units of the channel are such: \<open>make_lowlevel\<close> of the client's channel sets no options.\<close>

theorem channel_units_are_not_waited_for:
  assumes "client_make_lowlevel parent locked service meth request want e = (e', Inr (Some llu))"
  shows "\<not> uo_wait (llu_opt llu)"
  using assms
  by (auto simp: client_make_lowlevel_def env_configure_def configure_message_def create_lowlevel_def llu_new_def
      unit_options_cleared_def Let_def split: if_splits option.splits prod.splits sum.splits)

text \<open>And what goes to the target is not the request of the caller: \<open>raw_call\<close> is given the message of the proxy as
  its request, which replaces the one in the unit.\<close>

theorem forwarded_request_is_the_wrapper:
  assumes "env_configure ch mess_type (Some (px_message cd request)) llu e = (e', Inr sent)"
  shows "llu_request sent = px_message cd request"
  using assms
  by (auto simp: env_configure_def configure_message_def Let_def split: prod.splits if_splits option.splits)

end
