(* ===== verification/Transport_Point.thy ===== *)
theory Transport_Point
  imports Prelude
begin

text \<open>
  The transport of the draft, \<open>draft/common/async-transport-point.hpp\<close>: messages are posted to a strand, queued there, and
  written to the stream one after another, the rest of a message again when the stream took only a part of it; a
  message may be transformed just before it is written. How many bytes the stream takes, whether an operation fails
  or raises when it is started, and what is read are inputs. \<open>on_transform_message\<close> is an argument \<open>tr\<close> over a
  state of its own; closures are numbers.
\<close>

subsection \<open>State\<close>

type_synonym queue_value = "bytes \<times> nat option"

datatype point_posted = Post_write queue_value | Post_close

text \<open>\<open>pt_pending\<close>: the length and the offset of the write in progress. \<open>pt_called\<close> and the lists of errors record what
  was reported; \<open>pt_raised\<close> counts the starts of a write that raised.\<close>

record 't point =
  pt_transform :: bool
  pt_tr :: 't
  pt_strand :: "point_posted list"
  pt_queue :: "queue_value list"
  pt_pending :: "(nat \<times> nat) option"
  pt_wire :: bytes
  pt_called :: "(nat \<times> nat) list"
  pt_write_errors :: "nat list"
  pt_raised :: nat
  pt_active :: bool
  pt_stream_open :: bool
  pt_reading :: bool
  pt_read :: "bytes list"
  pt_read_errors :: "nat list"

definition point_new :: "bool \<Rightarrow> 't \<Rightarrow> 't point" where
  "point_new transform t =
     \<lparr> pt_transform = transform, pt_tr = t, pt_strand = [], pt_queue = [], pt_pending = None, pt_wire = [], pt_called = [],
       pt_write_errors = [], pt_raised = 0, pt_active = True, pt_stream_open = True, pt_reading = False, pt_read = [],
       pt_read_errors = [] \<rparr>"

subsection \<open>Operations\<close>

definition close_impl :: "'t point \<Rightarrow> 't point" where
  "close_impl p = (if pt_active p then p\<lparr> pt_active := False, pt_stream_open := False \<rparr> else p)"

definition post_close :: "'t point \<Rightarrow> 't point" where
  "post_close p = p\<lparr> pt_strand := pt_strand p @ [Post_close] \<rparr>"

text \<open>Starting a write, which raises unless \<open>ok\<close>; \<open>on_write_exception\<close> passes the exception on.\<close>

definition point_start_write :: "bool \<Rightarrow> nat \<Rightarrow> nat \<Rightarrow> 't point \<Rightarrow> 't point" where
  "point_start_write ok len offset p =
     (if ok then p\<lparr> pt_pending := Some (len, offset) \<rparr> else p\<lparr> pt_raised := Suc (pt_raised p) \<rparr>)"

definition async_write_transform :: "('t \<Rightarrow> bytes \<Rightarrow> 't \<times> bytes) \<Rightarrow> bool \<Rightarrow> 't point \<Rightarrow> 't point" where
  "async_write_transform tr ok p =
     (case pt_queue p of
        [] \<Rightarrow> p
      | (m, c) # q \<Rightarrow>
          (let (t, m) = tr (pt_tr p) m
           in point_start_write ok (length m) 0 (p\<lparr> pt_tr := t, pt_queue := (m, c) # q \<rparr>)))"

definition async_write_no_transform :: "bool \<Rightarrow> 't point \<Rightarrow> 't point" where
  "async_write_no_transform ok p =
     (case pt_queue p of [] \<Rightarrow> p | (m, c) # q \<Rightarrow> point_start_write ok (length m) 0 p)"

definition point_async_write :: "('t \<Rightarrow> bytes \<Rightarrow> 't \<times> bytes) \<Rightarrow> bool \<Rightarrow> 't point \<Rightarrow> 't point" where
  "point_async_write tr ok p = (if pt_transform p then async_write_transform tr ok p else async_write_no_transform ok p)"

definition point_run_closure :: "nat option \<Rightarrow> nat \<Rightarrow> 't point \<Rightarrow> 't point" where
  "point_run_closure c error p = (case c of None \<Rightarrow> p | Some k \<Rightarrow> p\<lparr> pt_called := pt_called p @ [(k, error)] \<rparr>)"

text \<open>The handler of a write that is over: \<open>bytes\<close> of \<open>len\<close> were taken.\<close>

definition point_write_handler ::
    "('t \<Rightarrow> bytes \<Rightarrow> 't \<times> bytes) \<Rightarrow> bool \<Rightarrow> nat \<Rightarrow> nat \<Rightarrow> nat \<Rightarrow> nat \<Rightarrow> 't point \<Rightarrow> 't point" where
  "point_write_handler tr ok error taken len offset p =
     (case pt_queue p of
        [] \<Rightarrow> p
      | (m, c) # q \<Rightarrow>
          if error = 0 then
            if taken < len
            then (let offset = offset + taken in point_start_write ok (length m - offset) offset p)
            else
              (let p = (point_run_closure c error p)\<lparr> pt_queue := q \<rparr>
               in if q \<noteq> [] then point_async_write tr ok p else p)
          else (let p = point_run_closure c error p in p\<lparr> pt_write_errors := pt_write_errors p @ [error] \<rparr>))"

definition point_write_impl :: "('t \<Rightarrow> bytes \<Rightarrow> 't \<times> bytes) \<Rightarrow> bool \<Rightarrow> queue_value \<Rightarrow> 't point \<Rightarrow> 't point" where
  "point_write_impl tr ok data p =
     (let empty = (pt_queue p = []);
          p = p\<lparr> pt_queue := pt_queue p @ [data] \<rparr>
      in if empty then point_async_write tr ok p else p)"

definition post_write :: "bytes \<Rightarrow> nat option \<Rightarrow> 't point \<Rightarrow> 't point" where
  "post_write data closure p = p\<lparr> pt_strand := pt_strand p @ [Post_write (data, closure)] \<rparr>"

definition point_write :: "bytes \<Rightarrow> 't point \<Rightarrow> 't point" where
  "point_write data p = post_write data None p"

definition write_post_notify :: "bytes \<Rightarrow> nat \<Rightarrow> 't point \<Rightarrow> 't point" where
  "write_post_notify data closure p = post_write data (Some closure) p"

definition start_read_impl :: "'t point \<Rightarrow> 't point" where
  "start_read_impl p = p\<lparr> pt_reading := True \<rparr>"

definition point_read_handler :: "nat \<Rightarrow> bytes \<Rightarrow> 't point \<Rightarrow> 't point" where
  "point_read_handler error data p =
     (let p = p\<lparr> pt_reading := False \<rparr>
      in if error = 0 then start_read_impl (p\<lparr> pt_read := pt_read p @ [data] \<rparr>)
         else p\<lparr> pt_read_errors := pt_read_errors p @ [error] \<rparr>)"

subsection \<open>Runs\<close>

text \<open>What the program and the stream do. \<open>Written error taken ok\<close>: the write in progress is over; \<open>ok\<close> tells whether
  the write that follows can be started.\<close>

datatype point_act =
    Pt_write bytes "nat option" | Pt_close | Pt_run bool | Pt_written nat nat bool | Pt_start_read | Pt_got nat bytes

fun point_do :: "('t \<Rightarrow> bytes \<Rightarrow> 't \<times> bytes) \<Rightarrow> point_act \<Rightarrow> 't point \<Rightarrow> 't point" where
  "point_do tr (Pt_write data c) p = post_write data c p"
| "point_do tr Pt_close p = post_close p"
| "point_do tr (Pt_run ok) p =
     (case pt_strand p of
        [] \<Rightarrow> p
      | Post_close # xs \<Rightarrow> close_impl (p\<lparr> pt_strand := xs \<rparr>)
      | Post_write d # xs \<Rightarrow> point_write_impl tr ok d (p\<lparr> pt_strand := xs \<rparr>))"
| "point_do tr (Pt_written error taken ok) p =
     (case (pt_pending p, pt_queue p) of
        (Some (len, offset), (m, c) # q) \<Rightarrow>
          (let n = min taken len;
               p = p\<lparr> pt_pending := None, pt_wire := pt_wire p @ take n (drop offset m) \<rparr>
           in point_write_handler tr ok error n len offset p)
      | _ \<Rightarrow> p)"
| "point_do tr Pt_start_read p = start_read_impl p"
| "point_do tr (Pt_got error data) p = (if pt_reading p then point_read_handler error data p else p)"

definition point_run :: "('t \<Rightarrow> bytes \<Rightarrow> 't \<times> bytes) \<Rightarrow> point_act list \<Rightarrow> 't point \<Rightarrow> 't point" where
  "point_run tr as p = fold (point_do tr) as p"

subsection \<open>Order\<close>

text \<open>What the messages are on the wire, one after the other, and the state of the transformer after them.\<close>

fun on_wire :: "('t \<Rightarrow> bytes \<Rightarrow> 't \<times> bytes) \<Rightarrow> bool \<Rightarrow> 't \<Rightarrow> queue_value list \<Rightarrow> bytes \<times> 't" where
  "on_wire tr transform t [] = ([], t)"
| "on_wire tr transform t ((m, c) # ms) =
     (let (t', m') = (if transform then tr t m else (t, m)); (rest, t'') = on_wire tr transform t' ms in (m' @ rest, t''))"

lemma on_wire_append:
  "on_wire tr b t (xs @ ys) = (fst (on_wire tr b t xs) @ fst (on_wire tr b (snd (on_wire tr b t xs)) ys),
     snd (on_wire tr b (snd (on_wire tr b t xs)) ys))"
  by (induction xs arbitrary: t) (auto simp: split_beta Let_def)

definition strand_writes :: "point_posted list \<Rightarrow> queue_value list" where
  "strand_writes xs = List.map_filter (\<lambda>x. case x of Post_write d \<Rightarrow> Some d | Post_close \<Rightarrow> None) xs"

definition act_writes :: "point_act list \<Rightarrow> queue_value list" where
  "act_writes as = List.map_filter (\<lambda>a. case a of Pt_write d c \<Rightarrow> Some (d, c) | _ \<Rightarrow> None) as"

definition point_closures :: "queue_value list \<Rightarrow> (nat \<times> nat) list" where
  "point_closures ms = List.map_filter (\<lambda>(m, c). map_option (\<lambda>k. (k, 0)) c) ms"

text \<open>Messages \<open>done\<close> are over; the first of the queue is on its way, transformed.\<close>

definition point_inv :: "('t \<Rightarrow> bytes \<Rightarrow> 't \<times> bytes) \<Rightarrow> 't \<Rightarrow> queue_value list \<Rightarrow> queue_value list \<Rightarrow> 't point \<Rightarrow> bool" where
  "point_inv tr t0 hist over p \<longleftrightarrow>
     (let (w, t) = on_wire tr (pt_transform p) t0 over in
      pt_called p = point_closures over \<and> pt_write_errors p = [] \<and> pt_raised p = 0 \<and>
      (case pt_queue p of
         [] \<Rightarrow> hist = over @ strand_writes (pt_strand p) \<and> pt_pending p = None \<and> pt_wire p = w \<and> pt_tr p = t
       | (m', c) # q \<Rightarrow>
           (\<exists>m offset. hist = over @ (m, c) # q @ strand_writes (pt_strand p)
              \<and> (if pt_transform p then tr t m else (t, m)) = (pt_tr p, m')
              \<and> pt_pending p = Some (length m' - offset, offset) \<and> offset \<le> length m' \<and> pt_wire p = w @ take offset m')))"

lemma writes_simps [simp]:
  "strand_writes [] = []" "strand_writes (Post_write d # xs) = d # strand_writes xs" "strand_writes (Post_close # xs) = strand_writes xs"
  "strand_writes (xs @ ys) = strand_writes xs @ strand_writes ys"
  by (simp_all add: strand_writes_def List.map_filter_def)

lemma point_closures_simps [simp]:
  "point_closures [] = []" "point_closures (xs @ [(m, c)]) = point_closures xs @ (case c of None \<Rightarrow> [] | Some k \<Rightarrow> [(k, 0)])"
  by (simp_all add: point_closures_def List.map_filter_def split: option.splits)

definition good_act :: "point_act \<Rightarrow> bool" where
  "good_act a = (case a of Pt_run ok \<Rightarrow> ok | Pt_written error taken ok \<Rightarrow> error = 0 \<and> ok | _ \<Rightarrow> True)"

text \<open>The next message of the queue is started.\<close>

lemma start_next:
  assumes "pt_queue p = (m, c) # q" "hist = over @ (m, c) # q @ strand_writes (pt_strand p)"
    and "on_wire tr (pt_transform p) t0 over = (pt_wire p, pt_tr p)"
    and "pt_called p = point_closures over" "pt_write_errors p = []" "pt_raised p = 0"
  shows "point_inv tr t0 hist over (point_async_write tr True p)"
proof (cases "pt_transform p")
  case True
  obtain t' m' where "tr (pt_tr p) m = (t', m')" by fastforce
  then show ?thesis using assms True
    by (simp add: point_inv_def point_async_write_def async_write_transform_def point_start_write_def exI [of _ 0])
next
  case False
  then show ?thesis using assms
    by (simp add: point_inv_def point_async_write_def async_write_no_transform_def point_start_write_def exI [of _ 0])
qed

lemma inv_write_impl:
  assumes "point_inv tr t0 hist over p" "pt_strand p = Post_write d # xs"
  shows "point_inv tr t0 hist over (point_write_impl tr True d (p\<lparr> pt_strand := xs \<rparr>))"
proof (cases "pt_queue p")
  case Nil
  obtain m c where d: "d = (m, c)" by fastforce
  show ?thesis
    using assms Nil d by (auto simp: point_write_impl_def point_inv_def [of _ _ _ _ p] split: prod.splits intro!: start_next)
next
  case (Cons x q)
  then show ?thesis using assms
    by (cases x) (auto simp: point_write_impl_def point_inv_def Let_def split: prod.splits)
qed

text \<open>A write is over: the rest is written, or the next message.\<close>

lemma inv_written:
  assumes inv: "point_inv tr t0 hist over p"
  shows "\<exists>over'. point_inv tr t0 hist over' (point_do tr (Pt_written 0 taken True) p)"
proof (cases "pt_queue p")
  case Nil
  then show ?thesis using inv by (auto simp: split: option.splits)
next
  case (Cons x q)
  obtain m' c where x: "x = (m', c)" by fastforce
  obtain w t where wt: "on_wire tr (pt_transform p) t0 over = (w, t)" by fastforce
  obtain m offset where i: "hist = over @ (m, c) # q @ strand_writes (pt_strand p)"
      "(if pt_transform p then tr t m else (t, m)) = (pt_tr p, m')" "pt_pending p = Some (length m' - offset, offset)"
      "offset \<le> length m'" "pt_wire p = w @ take offset m'" "pt_called p = point_closures over" "pt_write_errors p = []" "pt_raised p = 0"
    using inv Cons x wt by (auto simp: point_inv_def)
  let ?n = "min taken (length m' - offset)"
  let ?p = "p\<lparr> pt_pending := None, pt_wire := pt_wire p @ take ?n (drop offset m') \<rparr>"
  have wire: "pt_wire ?p = w @ take (offset + ?n) m'" using i(5) by (simp add: take_add)
  have do: "point_do tr (Pt_written 0 taken True) p = point_write_handler tr True 0 ?n (length m' - offset) offset ?p"
    using Cons x i(3) by (simp add: Let_def)
  show ?thesis
  proof (cases "?n < length m' - offset")
    case True
    have "point_do tr (Pt_written 0 taken True) p = ?p\<lparr> pt_pending := Some (length m' - (offset + ?n), offset + ?n) \<rparr>"
      unfolding do using Cons x True by (simp add: point_write_handler_def point_start_write_def Let_def)
    moreover have "offset + ?n \<le> length m'" using i(4) by simp
    ultimately have "point_inv tr t0 hist over (point_do tr (Pt_written 0 taken True) p)"
      using Cons x wt i wire unfolding point_inv_def by (simp add: Let_def)
    then show ?thesis by blast
  next
    case False
    then have w': "pt_wire ?p = w @ m'" using wire i(4) by simp
    let ?over = "over @ [(m, c)]" and ?q = "(point_run_closure c 0 ?p)\<lparr> pt_queue := q \<rparr>"
    have ow: "on_wire tr (pt_transform p) t0 ?over = (w @ m', pt_tr p)" using wt i(2) by (simp add: on_wire_append split: if_splits)
    have rc: "pt_called ?q = point_closures ?over" "pt_wire ?q = w @ m'" "pt_tr ?q = pt_tr p" "pt_transform ?q = pt_transform p"
      "pt_write_errors ?q = []" "pt_raised ?q = 0" "pt_strand ?q = pt_strand p" "pt_pending ?q = None" "pt_queue ?q = q"
      using i(6-8) w' by (simp_all add: point_run_closure_def split: option.splits)
    have step: "point_do tr (Pt_written 0 taken True) p = (if q \<noteq> [] then point_async_write tr True ?q else ?q)"
      unfolding do using Cons x False by (simp add: point_write_handler_def Let_def)
    have "point_inv tr t0 hist ?over (if q \<noteq> [] then point_async_write tr True ?q else ?q)"
    proof (cases q)
      case Nil
      then show ?thesis using rc ow i(1) by (simp add: point_inv_def)
    next
      case (Cons y ys)
      obtain m2 c2 where y: "y = (m2, c2)" by fastforce
      have "point_inv tr t0 hist ?over (point_async_write tr True ?q)"
        by (rule start_next [of ?q m2 c2 ys]) (use Cons y rc ow i(1) in simp_all)
      then show ?thesis using Cons by simp
    qed
    then show ?thesis unfolding step by blast
  qed
qed

lemma inv_same:
  assumes "point_inv tr t0 hist over p"
    and "pt_transform p' = pt_transform p" "pt_tr p' = pt_tr p" "pt_queue p' = pt_queue p" "pt_pending p' = pt_pending p" "pt_wire p' = pt_wire p"
      "pt_called p' = pt_called p" "pt_write_errors p' = pt_write_errors p" "pt_raised p' = pt_raised p"
      "strand_writes (pt_strand p') = strand_writes (pt_strand p)"
  shows "point_inv tr t0 hist over p'"
  using assms(1) unfolding point_inv_def assms(2-) .

lemma inv_do:
  assumes "point_inv tr t0 hist over p" "good_act a"
  shows "\<exists>over'. point_inv tr t0 (hist @ act_writes [a]) over' (point_do tr a p)"
proof (cases a)
  case (Pt_write d c)
  then have "point_inv tr t0 (hist @ act_writes [a]) over (point_do tr a p)"
    using assms(1) by (cases "pt_queue p") (auto simp: point_inv_def post_write_def act_writes_def List.map_filter_def Let_def split_beta)
  then show ?thesis by blast
next
  case (Pt_run ok)
  have none: "act_writes [a] = []" by (simp add: Pt_run act_writes_def List.map_filter_def)
  show ?thesis
  proof (cases "pt_strand p")
    case (Cons x xs)
    show ?thesis
    proof (cases x)
      case (Post_write d)
      then show ?thesis using inv_write_impl [OF assms(1)] Cons Pt_run assms(2) none by (auto simp: good_act_def)
    next
      case Post_close
      have "point_inv tr t0 hist over (point_do tr a p)"
        by (rule inv_same [OF assms(1)]) (use Cons Pt_run Post_close in \<open>simp_all add: close_impl_def\<close>)
      then show ?thesis using none by auto
    qed
  qed (use assms(1) Pt_run none in auto)
next
  case (Pt_written error taken ok)
  then show ?thesis using inv_written [OF assms(1), of taken] assms(2) by (simp add: good_act_def act_writes_def List.map_filter_def)
next
  case Pt_close
  have "point_inv tr t0 hist over (point_do tr a p)"
    by (rule inv_same [OF assms(1)]) (use Pt_close in \<open>simp_all add: post_close_def\<close>)
  then show ?thesis by (auto simp: Pt_close act_writes_def List.map_filter_def)
next
  case Pt_start_read
  have "point_inv tr t0 hist over (point_do tr a p)"
    by (rule inv_same [OF assms(1)]) (use Pt_start_read in \<open>simp_all add: start_read_impl_def\<close>)
  then show ?thesis by (auto simp: Pt_start_read act_writes_def List.map_filter_def)
next
  case (Pt_got error data)
  have "point_inv tr t0 hist over (point_do tr a p)"
    by (rule inv_same [OF assms(1)]) (use Pt_got in \<open>simp_all add: start_read_impl_def point_read_handler_def Let_def\<close>)
  then show ?thesis by (auto simp: Pt_got act_writes_def List.map_filter_def)
qed

lemma inv_run:
  assumes "\<forall>a \<in> set as. good_act a" "point_inv tr t0 hist over p"
  shows "\<exists>over'. point_inv tr t0 (hist @ act_writes as) over' (point_run tr as p)"
  using assms
proof (induction as arbitrary: hist over p)
  case Nil
  then show ?case by (auto simp: point_run_def act_writes_def List.map_filter_def)
next
  case (Cons a as)
  obtain over' where "point_inv tr t0 (hist @ act_writes [a]) over' (point_do tr a p)" using inv_do Cons.prems by fastforce
  from Cons.IH [OF _ this] Cons.prems(1) obtain over2 where
    "point_inv tr t0 ((hist @ act_writes [a]) @ act_writes as) over2 (point_run tr as (point_do tr a p))" by auto
  moreover have "act_writes (a # as) = act_writes [a] @ act_writes as" by (simp add: act_writes_def List.map_filter_def)
  ultimately show ?case by (auto simp: point_run_def)
qed

lemma do_transform: "pt_transform (point_do tr a p) = pt_transform p"
  by (cases a) (auto simp: post_write_def post_close_def close_impl_def point_write_impl_def start_read_impl_def point_read_handler_def
      point_write_handler_def point_async_write_def async_write_transform_def async_write_no_transform_def point_start_write_def
      point_run_closure_def Let_def split: list.splits point_posted.splits option.splits prod.splits)

lemma run_transform: "pt_transform (point_run tr as p) = pt_transform p"
  by (induction as arbitrary: p) (simp_all add: point_run_def do_transform)

text \<open>
  The draft transport keeps the order of the messages. As long as no write fails, whatever is posted when and
  however few bytes the stream takes at a time, the bytes on the wire are a beginning of all messages, transformed
  one after the other in the order they were posted, and the closures of finished messages have run once each
  in that order; when strand and queue are empty, the wire holds all messages and all closures have run.
\<close>

theorem point_keeps_order:
  assumes "\<forall>a \<in> set as. good_act a" and p: "p = point_run tr as (point_new transform t0)"
  shows "prefix (pt_wire p) (fst (on_wire tr transform t0 (act_writes as))) \<and> prefix (pt_called p) (point_closures (act_writes as))
    \<and> (pt_queue p = [] \<and> pt_strand p = [] \<longrightarrow>
         pt_wire p = fst (on_wire tr transform t0 (act_writes as)) \<and> pt_called p = point_closures (act_writes as))"
proof -
  have tf: "pt_transform p = transform" by (simp add: p run_transform point_new_def)
  have "point_inv tr t0 [] [] (point_new transform t0)" by (simp add: point_inv_def point_new_def)
  from inv_run [OF assms(1) this] obtain over where inv: "point_inv tr t0 (act_writes as) over p" using p by auto
  obtain w t where wt: "on_wire tr transform t0 over = (w, t)" by fastforce
  have pre: "prefix (point_closures over) (point_closures (over @ rest))" for rest by (simp add: point_closures_def List.map_filter_def)
  show ?thesis
  proof (cases "pt_queue p")
    case Nil
    then show ?thesis using inv wt tf pre by (auto simp: point_inv_def on_wire_append)
  next
    case (Cons x q)
    obtain m' c where x: "x = (m', c)" by fastforce
    then obtain m offset where m: "act_writes as = over @ (m, c) # q @ strand_writes (pt_strand p)"
        "(if transform then tr t m else (t, m)) = (pt_tr p, m')" "pt_wire p = w @ take offset m'" "pt_called p = point_closures over"
      using inv wt tf Cons by (auto simp: point_inv_def)
    have "prefix (take offset m') (m' @ z)" for z by (metis append_take_drop_id append.assoc prefix_def)
    then have "prefix (pt_wire p) (fst (on_wire tr transform t0 (act_writes as)))"
      using m wt by (simp add: on_wire_append Let_def split_beta)
    then show ?thesis using m(1,4) pre Cons by simp
  qed
qed

text \<open>The only way for the transport to leave the invariant is the first write that fails, and it is also the last.\<close>

definition broken :: "'t point \<Rightarrow> bool" where
  "broken p \<longleftrightarrow> pt_queue p \<noteq> [] \<and> pt_pending p = None"

lemma write_error_breaks:
  assumes "pt_pending p = Some (len, offset)" "pt_queue p \<noteq> []" "error \<noteq> 0"
  shows "broken (point_do tr (Pt_written error taken ok) p)"
  using assms by (cases "pt_queue p") (auto simp: broken_def point_write_handler_def point_run_closure_def Let_def split: option.splits)

theorem broken_writes_no_more:
  assumes "broken p"
  shows "broken (point_run tr as p) \<and> pt_wire (point_run tr as p) = pt_wire p \<and> pt_called (point_run tr as p) = pt_called p"
  using assms
proof (induction as arbitrary: p)
  case (Cons a as)
  have "broken (point_do tr a p) \<and> pt_wire (point_do tr a p) = pt_wire p \<and> pt_called (point_do tr a p) = pt_called p"
    using Cons.prems
    by (cases a) (auto simp: broken_def post_write_def post_close_def close_impl_def point_write_impl_def start_read_impl_def
        point_read_handler_def Let_def split: list.splits point_posted.splits)
  with Cons.IH [of "point_do tr a p"] show ?case by (simp add: point_run_def)
qed (simp add: point_run_def)

subsection \<open>The transformer of the draft server\<close>

text \<open>\<open>my_transformer\<close> of \<open>draft/server/main.cpp\<close>: the bytes of the key in turn, from the second on; the counter goes on from
  message to message. An empty key is a division by zero: \<open>None\<close>.\<close>

fun my_transform :: "bytes \<Rightarrow> nat \<Rightarrow> bytes \<Rightarrow> (nat \<times> bytes) option" where
  "my_transform key counter [] = Some (counter, [])"
| "my_transform key counter (b # bs) =
     (if key = [] then None
      else
        (let counter = Suc counter mod length key
         in map_option (\<lambda>(n, r). (n, (b XOR key ! counter) # r)) (my_transform key counter bs)))"

text \<open>Two transformers that start alike stay in step: the second undoes the first, message after message.\<close>

theorem my_transform_undone:
  assumes "my_transform key counter data = Some (n, r)"
  shows "my_transform key counter r = Some (n, data) \<and> length r = length data"
  using assms
proof (induction data arbitrary: counter n r)
  case (Cons b bs)
  define k where "k = Suc counter mod length key"
  have step: "my_transform key counter (c # cs) = map_option (\<lambda>(n, r). (n, (c XOR key ! k) # r)) (my_transform key k cs)"
    if "key \<noteq> []" for c cs using that by (simp add: k_def Let_def)
  have key: "key \<noteq> []" using Cons.prems by auto
  obtain r' where r: "my_transform key k bs = Some (n, r')" "r = (b XOR key ! k) # r'" using Cons.prems step [OF key] by auto
  have "(b XOR key ! k) XOR key ! k = b" by (simp add: xor.assoc)
  with Cons.IH [OF r(1)] show ?case unfolding r(2) step [OF key] by simp
qed simp

lemma my_transform_total: "key \<noteq> [] \<Longrightarrow> \<exists>x. my_transform key counter data = Some x"
  by (induction data arbitrary: counter) (auto simp: Let_def split: prod.splits)

end
