(* ===== verification/Pipe_Listener.thy ===== *)
theory Pipe_Listener
  imports Connections
begin

text \<open>
  The listener for named pipes of Windows (\<open>lib/vtrc/server/listener/win-pipe.cpp\<close>). Accepting is an overlapped operation:
  \<open>overlapped_\<close> owns its handler until it is released to the system or completed by hand; completing an \<open>overlapped_\<close> that
  owns nothing has no effect. What the system answers is an input.
\<close>

subsection \<open>State and operations\<close>

text \<open>What \<open>CreateNamedPipe\<close> and \<open>ConnectNamedPipe\<close> give.\<close>

datatype pipe_outcome = Pipe_invalid nat | Pipe_pending | Pipe_connected | Pipe_error nat

text \<open>\<open>pl_connecting\<close> counts the operations the system has, \<open>pl_finished\<close> the error codes of those whose handler is to be run.
  \<open>working_\<close> is \<open>sv_working\<close>.\<close>

record pipe_listener =
  pl_sv :: server
  pl_owned :: bool
  pl_connecting :: nat
  pl_finished :: "nat list"

definition pipe_listener_new :: pipe_listener where
  "pipe_listener_new = \<lparr> pl_sv = server_new, pl_owned = False, pl_connecting = 0, pl_finished = [] \<rparr>"

definition at_pipe_sv :: "(server \<Rightarrow> server) \<Rightarrow> pipe_listener \<Rightarrow> pipe_listener" where
  "at_pipe_sv f l = l\<lparr> pl_sv := f (pl_sv l) \<rparr>"

definition overlapped_complete :: "nat \<Rightarrow> pipe_listener \<Rightarrow> pipe_listener" where
  "overlapped_complete ec l = (if pl_owned l then l\<lparr> pl_owned := False, pl_finished := pl_finished l @ [ec] \<rparr> else l)"

definition pipe_start_accept :: "bool \<Rightarrow> pipe_outcome \<Rightarrow> pipe_listener \<Rightarrow> pipe_listener \<times> (exn + unit)" where
  "pipe_start_accept throw_if_fail out l =
     (if \<not> sv_working (pl_sv l) then (l, Inr ())
      else case out of
        Pipe_invalid ec \<Rightarrow> if throw_if_fail then (l, Inl Other_exception) else (overlapped_complete ec l, Inr ())
      | Pipe_pending \<Rightarrow> (l\<lparr> pl_owned := False, pl_connecting := Suc (pl_connecting l) \<rparr>, Inr ())
      | Pipe_connected \<Rightarrow> (overlapped_complete 0 (l\<lparr> pl_owned := True \<rparr>), Inr ())
      | Pipe_error ec \<Rightarrow>
          (let l = l\<lparr> pl_owned := True \<rparr>
           in if throw_if_fail then (l, Inl Other_exception) else (overlapped_complete ec l, Inr ())))"

definition pipe_start :: "pipe_outcome \<Rightarrow> pipe_listener \<Rightarrow> pipe_listener \<times> (exn + unit)" where
  "pipe_start out l =
     (case pipe_start_accept True out (at_pipe_sv (\<lambda>v. v\<lparr> sv_working := True \<rparr>) l) of
        (l, Inl e) \<Rightarrow> (l, Inl e)
      | (l, Inr _) \<Rightarrow> (at_pipe_sv (sv_signal Lv_start) l, Inr ()))"

definition error_cancelled :: nat where "error_cancelled = 1223"

definition pipe_stop :: "pipe_listener \<Rightarrow> pipe_listener" where
  "pipe_stop l =
     at_pipe_sv (sv_signal Lv_stop) (overlapped_complete error_cancelled (at_pipe_sv (\<lambda>v. v\<lparr> sv_working := False \<rparr>) l))"

text \<open>The handler. What raises before the connection is stored leaves nothing; what raises later is ignored.\<close>

definition pipe_accepted :: "accept_outcome \<Rightarrow> nat \<Rightarrow> server \<Rightarrow> server" where
  "pipe_accepted out c s =
     (case out of
        Setup_raises \<Rightarrow> s
      | _ \<Rightarrow> new_connection c (s\<lparr> sv_conns := (sv_conns s)(c \<mapsto> connection_new), sv_clients := cl_store c (sv_clients s) \<rparr>))"

definition pipe_on_accept :: "nat \<Rightarrow> accept_outcome \<Rightarrow> nat \<Rightarrow> pipe_outcome \<Rightarrow> pipe_listener \<Rightarrow> pipe_listener" where
  "pipe_on_accept error out c next_pipe l =
     (if error = 0 then fst (pipe_start_accept False next_pipe (at_pipe_sv (pipe_accepted out c) l))
      else if sv_working (pl_sv l) then at_pipe_sv (sv_signal Lv_accept_failed) (pipe_stop l)
      else at_pipe_sv (sv_signal Lv_stop) l)"

subsection \<open>Steps\<close>

text \<open>Addresses of connections are not used twice at the same time.\<close>

inductive pipe_step :: "pipe_listener \<Rightarrow> pipe_listener \<Rightarrow> bool" where
  Pl_start: "pipe_step l (fst (pipe_start out l))"
| Pl_stop: "pipe_step l (pipe_stop l)"
| Pl_complete: "pl_connecting l = Suc n \<Longrightarrow> pipe_step l (l\<lparr> pl_connecting := n, pl_finished := pl_finished l @ [ec] \<rparr>)"
| Pl_accept: "pl_finished l = ec # ecs \<Longrightarrow> c \<notin> dom (sv_conns (pl_sv l)) \<Longrightarrow>
    pipe_step l (pipe_on_accept ec out c next_pipe (l\<lparr> pl_finished := ecs \<rparr>))"
| Pl_reading: "c \<in> dom (sv_conns (pl_sv l)) \<Longrightarrow> pipe_step l (at_pipe_sv (start_reading c) l)"
| Pl_read: "sv_conns (pl_sv l) c = Some k \<Longrightarrow> cn_reading k \<Longrightarrow> pipe_step l (at_pipe_sv (read_handler c r) l)"
| Pl_close: "c \<in> dom (sv_conns (pl_sv l)) \<Longrightarrow> pipe_step l (at_pipe_sv (conn_close c) l)"
| Pl_stop_all: "pipe_step l (at_pipe_sv stop_all_clients l)"
| Pl_destroy: "c \<in> dom (sv_conns (pl_sv l)) \<Longrightarrow> c \<notin> sv_clients (pl_sv l) \<Longrightarrow>
    pipe_step l (at_pipe_sv (\<lambda>v. v\<lparr> sv_conns := (sv_conns v)(c := None) \<rparr>) l)"

inductive pipe_reach :: "pipe_listener \<Rightarrow> bool" where
  pipe_new: "pipe_reach pipe_listener_new"
| pipe_next: "pipe_reach l \<Longrightarrow> pipe_step l l' \<Longrightarrow> pipe_reach l'"

subsection \<open>The connections\<close>

lemma at_pipe_sv_simps [simp]:
  "pl_sv (at_pipe_sv f l) = f (pl_sv l)" "pl_owned (at_pipe_sv f l) = pl_owned l"
  "pl_connecting (at_pipe_sv f l) = pl_connecting l" "pl_finished (at_pipe_sv f l) = pl_finished l"
  by (simp_all add: at_pipe_sv_def)

lemma complete_sv [simp]: "pl_sv (overlapped_complete ec l) = pl_sv l"
  by (simp add: overlapped_complete_def)

lemma start_accept_sv: "pl_sv (fst (pipe_start_accept b out l)) = pl_sv l"
  by (simp add: pipe_start_accept_def Let_def split: pipe_outcome.splits)

text \<open>\<open>v\<close> and \<open>w\<close> have the same connections.\<close>

definition same_conns :: "server \<Rightarrow> server \<Rightarrow> bool" where
  "same_conns v w \<longleftrightarrow> sv_conns v = sv_conns w \<and> sv_clients v = sv_clients w \<and> sv_count v = sv_count w"

lemma same_conns_inv: "same_conns v w \<Longrightarrow> sv_inv v = sv_inv w"
  by (simp add: same_conns_def sv_inv_def opened_def)

lemma pipe_start_same: "same_conns (pl_sv (fst (pipe_start out l))) (pl_sv l)"
proof -
  have "pl_sv (fst (pipe_start_accept True out (at_pipe_sv (\<lambda>v. v\<lparr> sv_working := True \<rparr>) l))) = (pl_sv l)\<lparr> sv_working := True \<rparr>"
    by (simp add: start_accept_sv)
  then show ?thesis by (auto simp: pipe_start_def same_conns_def split: prod.splits sum.splits)
qed

lemma pipe_stop_same: "same_conns (pl_sv (pipe_stop l)) (pl_sv l)"
  by (simp add: pipe_stop_def same_conns_def)

lemma pipe_accepted_inv:
  assumes "sv_inv v" and "c \<notin> dom (sv_conns v)"
  shows "sv_inv (pipe_accepted out c v)"
proof -
  have "sv_inv (v\<lparr> sv_accepting := True \<rparr>)" using assms(1) same_conns_inv [of "v\<lparr> sv_accepting := True \<rparr>" v] by (simp add: same_conns_def)
  moreover have "sv_step (v\<lparr> sv_accepting := True \<rparr>) (on_accept Accept_ok c (v\<lparr> sv_accepting := True \<rparr>))"
    using assms(2) by (intro Sv_accept) simp_all
  ultimately have "sv_inv (on_accept Accept_ok c (v\<lparr> sv_accepting := True \<rparr>))" using inv_step by blast
  moreover have "same_conns (on_accept Accept_ok c (v\<lparr> sv_accepting := True \<rparr>)) (pipe_accepted Accept_ok c v)"
    by (simp add: same_conns_def on_accept_def pipe_accepted_def start_accept_def new_connection_def)
  ultimately show ?thesis using same_conns_inv assms(1) by (cases out) (auto simp: pipe_accepted_def)
qed

lemma pipe_inv_step:
  assumes "pipe_step l l'" and "sv_inv (pl_sv l)"
  shows "sv_inv (pl_sv l')"
  using assms(1)
proof cases
  case (Pl_start out)
  then show ?thesis using pipe_start_same same_conns_inv assms(2) by blast
next
  case Pl_stop
  then show ?thesis using pipe_stop_same same_conns_inv assms(2) by blast
next
  case (Pl_accept ec ecs c out next_pipe)
  let ?l = "l\<lparr> pl_finished := ecs \<rparr>"
  have "sv_inv (pipe_accepted out c (pl_sv l))" using pipe_accepted_inv assms(2) Pl_accept by blast
  moreover have "sv_inv (sv_signal ev v) = sv_inv v" for ev v
    using same_conns_inv [of "sv_signal ev v" v] by (simp add: same_conns_def)
  ultimately show ?thesis
    using Pl_accept assms(2) pipe_stop_same [of ?l] same_conns_inv [of "pl_sv (pipe_stop ?l)" "pl_sv l"]
    by (simp add: pipe_on_accept_def start_accept_sv)
next
  case (Pl_reading c)
  then show ?thesis using inv_step [OF Sv_started assms(2)] by simp
next
  case (Pl_read c k r)
  then show ?thesis using inv_step [OF Sv_read assms(2)] by simp
next
  case (Pl_close c)
  then show ?thesis using inv_step [OF Sv_close assms(2)] by simp
next
  case Pl_stop_all
  then show ?thesis using inv_step [OF Sv_stop_all assms(2)] by simp
next
  case (Pl_destroy c)
  then show ?thesis using inv_step [OF Sv_destroy assms(2)] by simp
qed (use assms(2) in simp)

text \<open>
  Whatever the system answers and however starts, stops and connections interleave, the pipe listener counts exactly its open
  connections, and each of them is in the list of clients.
\<close>

theorem pipe_count_exact:
  assumes "pipe_reach l"
  shows "sv_count (pl_sv l) = of_nat (card (opened (pl_sv l))) \<and> opened (pl_sv l) \<subseteq> sv_clients (pl_sv l)"
  using assms
proof -
  have "sv_inv (pl_sv l)"
    using assms
  proof induction
    case pipe_new
    show ?case by (simp add: pipe_listener_new_def server_new_def sv_inv_def opened_def)
  next
    case (pipe_next l l')
    then show ?case by (simp add: pipe_inv_step)
  qed
  then show ?thesis by (simp add: sv_inv_def)
qed

subsection \<open>What goes wrong\<close>

text \<open>A listener that neither waits for a client nor has a handler to run will never do anything again.\<close>

definition deaf :: "pipe_listener \<Rightarrow> bool" where
  "deaf l \<longleftrightarrow> \<not> pl_owned l \<and> pl_connecting l = 0 \<and> pl_finished l = []"

text \<open>When the pipe for the next client cannot be created, the error is completed on an \<open>overlapped_\<close> that was released: nobody
  is told, and the listener stays active and deaf.\<close>

theorem lost_accept_error:
  assumes "pl_owned l = False" and "pl_connecting l = 0" and "pl_finished l = []" and "sv_working (pl_sv l)"
    and "l' = pipe_on_accept 0 Accept_ok c (Pipe_invalid ec) l"
  shows "deaf l' \<and> sv_working (pl_sv l') \<and> sv_events (pl_sv l') = sv_events (pl_sv l) @ [Lv_new c]"
  using assms
  by (simp add: pipe_on_accept_def pipe_start_accept_def overlapped_complete_def pipe_accepted_def new_connection_def sv_signal_def
      deaf_def)

text \<open>\<open>stop\<close> does not cancel the operation the system has: a client that connects afterwards is still accepted.\<close>

theorem accepts_after_stop:
  assumes "l1 = fst (pipe_start Pipe_pending pipe_listener_new)" and "l2 = pipe_stop l1"
    and "l3 = pipe_on_accept 0 Accept_ok c next_pipe (l2\<lparr> pl_connecting := 0 \<rparr>)"
  shows "pl_connecting l2 = 1 \<and> \<not> sv_working (pl_sv l2) \<and> c \<in> opened (pl_sv l3) \<and> sv_events (pl_sv l3) = [Lv_start, Lv_stop, Lv_new c]"
  using assms
  by (simp add: pipe_start_def pipe_start_accept_def pipe_listener_new_def server_new_def pipe_stop_def overlapped_complete_def
      pipe_on_accept_def pipe_accepted_def new_connection_def sv_signal_def at_pipe_sv_def opened_def connection_new_def)

text \<open>A failed accept signals the stop, then the failure; when \<open>stop\<close> completes the handler itself, the stop is signalled
  twice.\<close>

lemma stop_signalled_twice:
  assumes "l1 = fst (pipe_start (Pipe_error ec) pipe_listener_new)" and "l2 = pipe_stop l1"
  shows "pl_finished l2 = [error_cancelled]
    \<and> sv_events (pl_sv (pipe_on_accept error_cancelled out c next_pipe (l2\<lparr> pl_finished := [] \<rparr>))) = [Lv_stop, Lv_stop]"
  using assms
  by (simp add: pipe_start_def pipe_start_accept_def pipe_listener_new_def server_new_def pipe_stop_def overlapped_complete_def
      pipe_on_accept_def sv_signal_def at_pipe_sv_def error_cancelled_def)

end
