(* ===== verification/Stress_Service.thy ===== *)
theory Stress_Service
  imports Stress Executors Ssl_Listener
begin

text \<open>
  The process of the stress server (\<open>examples/stress/server\<close>): \<open>start\<close> of \<open>server.cpp\<close>, \<open>run\<close> and \<open>stop\<close> of
  \<open>stress-application.cpp\<close> with the counters of calls and connections, and the handlers of
  \<open>stress-service-impl.cpp\<close>. Sending an event to the client is an argument \<open>send\<close>: it changes the state and may raise.
\<close>

subsection \<open>Calls one after another\<close>

text \<open>A loop that makes a call for each item and is left by the first that raises.\<close>

primrec in_turn :: "('x \<Rightarrow> 's \<Rightarrow> 's \<times> (exn + unit)) \<Rightarrow> 'x list \<Rightarrow> 's \<Rightarrow> 's \<times> (exn + unit)" where
  "in_turn f [] s = (s, Inr ())"
| "in_turn f (x # xs) s = (case f x s of (s, Inl e) \<Rightarrow> (s, Inl e) | (s, Inr _) \<Rightarrow> in_turn f xs s)"

lemma in_turn_append:
  "in_turn f (xs @ ys) s = (case in_turn f xs s of (s, Inl e) \<Rightarrow> (s, Inl e) | (s, Inr _) \<Rightarrow> in_turn f ys s)"
  by (induction xs arbitrary: s) (auto split: prod.splits sum.splits)

lemma in_turn_total:
  assumes "\<And>x s. x \<in> set xs \<Longrightarrow> f x s = (g x s, Inr ())"
  shows "in_turn f xs s = (fold g xs s, Inr ())"
  using assms by (induction xs arbitrary: s) simp_all

lemma in_turn_Inr:
  assumes "in_turn f xs s = (t, Inr u)" and "x \<in> set xs"
  shows "\<exists>s s'. f x s = (s', Inr ())"
  using assms by (induction xs arbitrary: s) (auto split: prod.splits sum.splits)

subsection \<open>Events\<close>

datatype stress_event = Ev_event u32 bool bytes | Ev_recursive_callback u32 bytes | Ev_timer_event u32

datatype stress_channel = Event_channel | Callback_channel

type_synonym 's event_sender = "stress_channel \<Rightarrow> bool \<Rightarrow> stress_event \<Rightarrow> 's \<Rightarrow> 's \<times> (exn + unit)"

record generate_events_req =
  ge_count :: u32
  ge_callback :: bool
  ge_wait :: bool
  ge_payload_size :: u32

lemma unat_below_step: "i < n \<Longrightarrow> unat (i + 1 :: u32) = unat i + 1"
  using unat_step [of i] unsigned_less [of n, where 'a = nat] by (simp add: word_less_nat_alt)

function generate_loop ::
    "(stress_event \<Rightarrow> 's \<Rightarrow> 's \<times> (exn + unit)) \<Rightarrow> bool \<Rightarrow> bytes \<Rightarrow> u32 \<Rightarrow> u32 \<Rightarrow> 's \<Rightarrow> 's \<times> (exn + unit)" where
  "generate_loop send is_event payload n i s =
     (if i < n
      then (case send (Ev_event i is_event payload) s of
              (s, Inl e) \<Rightarrow> (s, Inl e)
            | (s, Inr _) \<Rightarrow> generate_loop send is_event payload n (i + 1) s)
      else (s, Inr ()))"
  by pat_completeness auto

termination
proof (relation "measure (\<lambda>(send, is_event, payload, n, i, s). unat n - unat i)")
  fix i n :: u32
  assume "i < n"
  then show "((send, is_event, payload, n, i + 1, t), (send, is_event, payload, n, i, s))
      \<in> measure (\<lambda>(send, is_event, payload, n, i, s). unat n - unat i)"
    for send is_event payload and s t :: 's
    using unat_below_step [of i n] by (simp add: word_less_nat_alt)
qed simp

declare generate_loop.simps [simp del]

text \<open>The payload is made of question marks. A channel that does not wait marks what it sends as an event.\<close>

definition generate_event :: "'s event_sender \<Rightarrow> generate_events_req \<Rightarrow> 's \<Rightarrow> 's \<times> (exn + unit)" where
  "generate_event send request s =
     (let dis_wait = \<not> ge_wait request;
          channel = (if ge_callback request then Callback_channel else Event_channel)
      in generate_loop (send channel dis_wait) dis_wait (replicate (unat (ge_payload_size request)) 63) (ge_count request) 0 s)"

lemma generate_loop_in_turn:
  assumes "i \<le> n"
  shows "generate_loop send is_event payload n i s
    = in_turn send (map (\<lambda>k. Ev_event (of_nat k) is_event payload) [unat i ..< unat n]) s"
  using assms
proof (induction send is_event payload n i s rule: generate_loop.induct)
  case (1 send is_event payload n i s)
  show ?case
  proof (cases "i < n")
    case True
    then have "unat i < unat n" by (simp add: word_less_nat_alt)
    then have "[unat i ..< unat n] = unat i # [unat (i + 1) ..< unat n]"
      using upt_conv_Cons unat_below_step [OF True] by simp
    moreover have "i + 1 \<le> n" using unat_below_step [OF True] True by (simp add: word_le_nat_alt word_less_nat_alt)
    ultimately show ?thesis
      using 1(1) [OF True] True
      by (subst generate_loop.simps) (auto split: prod.splits sum.splits)
  next
    case False
    with 1(2) have "i = n" by simp
    then show ?thesis by (subst generate_loop.simps) simp
  qed
qed

text \<open>
  \<open>generate_event\<close> ends for every count and sends the events with the numbers \<open>0\<close> up to the count, in order, until one
  cannot be sent; if none fails, it sends them all.
\<close>

theorem generate_event_sends:
  "generate_event send request s
     = in_turn (send (if ge_callback request then Callback_channel else Event_channel) (\<not> ge_wait request))
         (map (\<lambda>k. Ev_event (of_nat k) (\<not> ge_wait request) (replicate (unat (ge_payload_size request)) 63))
            [0 ..< unat (ge_count request)]) s"
  unfolding generate_event_def Let_def by (subst generate_loop_in_turn) simp_all

subsection \<open>The process\<close>

text \<open>\<open>pr_printed\<close> are the counts that \<open>counter_timer_handler\<close> prints.\<close>

record stress_listener =
  sl_endpoint :: endpoint
  sl_retry_to :: u32
  sl_options :: session_options
  sl_dumb :: bool
  sl_server :: server

record stress_process =
  pr_pools :: pool_pair
  pr_app :: stress_app
  pr_impl :: stress_impl
  pr_listeners :: "stress_listener list"
  pr_connections :: u64
  pr_retry :: retry_state
  pr_max_clients :: u32
  pr_timer_pool :: pool
  pr_dumb :: bool
  pr_counter_timer :: "u64 once_timer"
  pr_printed :: "u64 list"

definition process_new :: "pool_pair \<Rightarrow> stress_app \<Rightarrow> nat \<Rightarrow> stress_process" where
  "process_new pp app timer_thread =
     \<lparr> pr_pools = pp, pr_app = app, pr_impl = sx_new, pr_listeners = [], pr_connections = 0,
       pr_retry = \<lparr> rt_timer = once_new, rt_started = [] \<rparr>, pr_max_clients = 1000, pr_timer_pool = pool_with [timer_thread],
       pr_dumb = False, pr_counter_timer = once_new, pr_printed = [] \<rparr>"

definition start_counter_timer :: "u64 \<Rightarrow> stress_process \<Rightarrow> stress_process" where
  "start_counter_timer seen p = p\<lparr> pr_counter_timer := once_call seen (pr_counter_timer p) \<rparr>"

definition counter_timer_handler :: "nat \<Rightarrow> u64 \<Rightarrow> stress_process \<Rightarrow> stress_process" where
  "counter_timer_handler err seen p =
     (if err = 0
      then let current = sp_call_count (pr_app p);
               p = (if current - seen \<noteq> 0 then p\<lparr> pr_printed := pr_printed p @ [current - seen] \<rparr> else p)
           in start_counter_timer current p
      else p)"

definition stress_on_new_connection :: "stress_process \<Rightarrow> stress_process" where
  "stress_on_new_connection p = p\<lparr> pr_connections := pr_connections p + 1 \<rparr>"

definition stress_on_stop_connection :: "stress_process \<Rightarrow> stress_process" where
  "stress_on_stop_connection p = p\<lparr> pr_connections := pr_connections p - 1 \<rparr>"

text \<open>The listener is kept even when its start raises; \<open>acceptor\<close> is what opening it gives.\<close>

definition attach_start_listener ::
    "u32 \<Rightarrow> session_options \<Rightarrow> endpoint \<Rightarrow> exn + unit \<Rightarrow> stress_process \<Rightarrow> stress_process \<times> (exn + unit)" where
  "attach_start_listener retry_to opts ep acceptor p =
     (let r = listener_try_start acceptor server_new
      in (p\<lparr> pr_listeners := pr_listeners p @
            [\<lparr> sl_endpoint = ep, sl_retry_to = retry_to, sl_options = opts, sl_dumb = pr_dumb p, sl_server = fst r \<rparr>] \<rparr>,
          snd r))"

record run_params =
  ru_server :: "string list"
  ru_key :: "bytes option"
  ru_dumb :: bool
  ru_only_pool :: bool
  ru_options :: stress_params
  ru_accept_retry :: "u32 option"
  ru_max_clients :: "u32 option"
  ru_io_pool_size :: "u32 option"
  ru_rpc_pool_size :: "u32 option"

definition start_listener ::
    "lexical_cast \<Rightarrow> (endpoint \<Rightarrow> exn + unit) \<Rightarrow> u32 \<Rightarrow> session_options \<Rightarrow> string \<Rightarrow> stress_process
     \<Rightarrow> stress_process \<times> (exn + unit)" where
  "start_listener lc acceptor retry_to opts name p =
     (case create_from_string lc name of
        Inl e \<Rightarrow> (p, Inl e)
      | Inr ep \<Rightarrow> attach_start_listener retry_to opts ep (acceptor ep) p)"

text \<open>\<open>run\<close> up to the point where the calling thread joins a pool; the result says whether that is the pool for io.\<close>

definition stress_run ::
    "lexical_cast \<Rightarrow> (endpoint \<Rightarrow> exn + unit) \<Rightarrow> run_params \<Rightarrow> stress_process \<Rightarrow> stress_process \<times> (exn + bool)" where
  "stress_run lc acceptor params p =
     (let p = p\<lparr> pr_app := (case ru_key params of None \<Rightarrow> pr_app p | Some k \<Rightarrow> (pr_app p)\<lparr> sp_key := k \<rparr>),
                 pr_dumb := ru_dumb params, pr_max_clients := given (ru_max_clients params) (pr_max_clients p) \<rparr>
      in case in_turn (start_listener lc acceptor (given (ru_accept_retry params) 1000) (stress_options (ru_options params)))
                (ru_server params) p of
           (p, Inl e) \<Rightarrow> (p, Inl e)
         | (p, Inr _) \<Rightarrow> (start_counter_timer 0 p, Inr (ru_only_pool params)))"

text \<open>\<open>run\<close> after the pool has been stopped; it blocks while a thread of the pools is still running.\<close>

definition stress_run_over :: "nat \<Rightarrow> stress_process \<Rightarrow> stress_process option" where
  "stress_run_over self p =
     map_option (\<lambda>pp. p\<lparr> pr_counter_timer := once_cancel (pr_counter_timer p), pr_pools := pp \<rparr>) (pp_join_all self (pr_pools p))"

definition stress_stop :: "nat \<Rightarrow> stress_process \<Rightarrow> stress_process option" where
  "stress_stop self p =
     (case tp_join_all self (tp_stop (pr_timer_pool p)) of
        None \<Rightarrow> None
      | Some tp \<Rightarrow>
          Some (p\<lparr> pr_timer_pool := tp,
                   pr_listeners := map (\<lambda>l. l\<lparr> sl_server := listener_stop (sl_server l) \<rparr>) (pr_listeners p),
                   pr_retry := (pr_retry p)\<lparr> rt_timer := once_cancel (rt_timer (pr_retry p)) \<rparr>,
                   pr_pools := pp_stop_all (pr_pools p) \<rparr>))"

text \<open>\<open>start\<close> of \<open>server.cpp\<close>: the pools. \<open>ids\<close> and \<open>rpc_ids\<close> are the threads the system can create.\<close>

definition server_pools :: "run_params \<Rightarrow> nat list \<Rightarrow> nat list \<Rightarrow> exn + pool_pair" where
  "server_pools params ids rpc_ids =
     (if ru_server params = [] then Inl (Runtime_error ''Server endpoint is not defined'')
      else
        let use_only_pool = ru_only_pool params;
            io_size = given (ru_io_pool_size params) (if use_only_pool then 0 else 1);
            rpc_size = given (ru_rpc_pool_size params) 1
        in if rpc_size < 1 \<and> \<not> use_only_pool then Inl (Runtime_error ''rpc-pool-size must be at least 1'')
           else if use_only_pool then Inr (pool_pair_one (take (unat io_size) ids))
           else Inr (pool_pair_two (take (unat io_size) ids) (take (unat (rpc_size - 1)) rpc_ids)))"

subsection \<open>The service\<close>

text \<open>\<open>sv_conn_open\<close>: the connection the service belongs to is open. The handlers answer after they return.\<close>

record service_state =
  sv_process :: stress_process
  sv_conn_open :: bool

definition stress_recursive_call :: "'s event_sender \<Rightarrow> u32 \<Rightarrow> bytes \<Rightarrow> 's \<Rightarrow> 's \<times> (exn + unit)" where
  "stress_recursive_call send balance payload s =
     (if balance = 0 then (s, Inr ()) else send Callback_channel False (Ev_recursive_callback balance payload) s)"

definition stress_shutdown :: "nat \<Rightarrow> service_state \<Rightarrow> service_state option" where
  "stress_shutdown self s = map_option (\<lambda>p. s\<lparr> sv_process := p \<rparr>) (stress_stop self (sv_process s))"

definition stress_close_me :: "service_state \<Rightarrow> service_state" where
  "stress_close_me s = s\<lparr> sv_conn_open := False \<rparr>"

text \<open>One request of a client, as the stub of the client sees it: what raises in a handler is answered with an error; \<open>None\<close>
  is a \<open>stop\<close> that never returns.\<close>

datatype stress_request =
    Rq_init
  | Rq_ping bytes
  | Rq_generate_event generate_events_req
  | Rq_recursive_call u32 bytes
  | Rq_reg u32
  | Rq_unreg u32
  | Rq_shutdown
  | Rq_close_me

fun stress_serve ::
    "service_state event_sender \<Rightarrow> nat \<Rightarrow> stress_request \<Rightarrow> service_state \<Rightarrow> (service_state \<times> (exn + u32)) option" where
  "stress_serve send self Rq_init s = Some (s, Inr 0)"
| "stress_serve send self (Rq_ping payload) s = Some (s, Inr 0)"
| "stress_serve send self (Rq_generate_event request) s =
     (case generate_event send request s of (s, r) \<Rightarrow> Some (s, map_sum (\<lambda>e. e) (\<lambda>_. 0) r))"
| "stress_serve send self (Rq_recursive_call balance payload) s =
     (case stress_recursive_call send balance payload s of (s, r) \<Rightarrow> Some (s, map_sum (\<lambda>e. e) (\<lambda>_. 0) r))"
| "stress_serve send self (Rq_reg microseconds) s =
     (case stress_reg microseconds (pr_impl (sv_process s)) of
        (x, i) \<Rightarrow> Some (s\<lparr> sv_process := (sv_process s)\<lparr> pr_impl := x \<rparr> \<rparr>, Inr i))"
| "stress_serve send self (Rq_unreg i) s =
     Some (s\<lparr> sv_process := (sv_process s)\<lparr> pr_impl := stress_unreg i (pr_impl (sv_process s)) \<rparr> \<rparr>, Inr 0)"
| "stress_serve send self Rq_shutdown s = map_option (\<lambda>s. (s, Inr 0)) (stress_shutdown self s)"
| "stress_serve send self Rq_close_me s = Some (stress_close_me s, Inr 0)"

subsection \<open>Starting and stopping\<close>

definition started_listener :: "u32 \<Rightarrow> session_options \<Rightarrow> bool \<Rightarrow> endpoint \<Rightarrow> stress_listener" where
  "started_listener retry_to opts dumb ep =
     \<lparr> sl_endpoint = ep, sl_retry_to = retry_to, sl_options = opts, sl_dumb = dumb, sl_server = listener_start server_new \<rparr>"

definition opens :: "lexical_cast \<Rightarrow> (endpoint \<Rightarrow> exn + unit) \<Rightarrow> string \<Rightarrow> endpoint option" where
  "opens lc acceptor name =
     (case create_from_string lc name of
        Inl _ \<Rightarrow> None
      | Inr ep \<Rightarrow> (case acceptor ep of Inl _ \<Rightarrow> None | Inr _ \<Rightarrow> Some ep))"

lemma start_listener_cases:
  "start_listener lc acceptor retry_to opts name p = (p', r) \<Longrightarrow>
    (case opens lc acceptor name of
       Some ep \<Rightarrow> r = Inr () \<and> p' = p\<lparr> pr_listeners := pr_listeners p @ [started_listener retry_to opts (pr_dumb p) ep] \<rparr>
     | None \<Rightarrow> \<exists>e. r = Inl e)"
  by (auto simp: start_listener_def attach_start_listener_def listener_try_start_def opens_def started_listener_def Let_def
      split: sum.splits)

lemma start_listeners_all:
  "in_turn (start_listener lc acceptor retry_to opts) names p = (p', r) \<Longrightarrow>
    (if (\<forall>name \<in> set names. opens lc acceptor name \<noteq> None)
     then r = Inr () \<and> p' = p\<lparr> pr_listeners := pr_listeners p @
       map (\<lambda>name. started_listener retry_to opts (pr_dumb p) (the (opens lc acceptor name))) names \<rparr>
     else \<exists>e. r = Inl e)"
proof (induction names arbitrary: p)
  case (Cons name names)
  obtain q r' where q: "start_listener lc acceptor retry_to opts name p = (q, r')" by fastforce
  note c = start_listener_cases [OF q]
  show ?case
  proof (cases "opens lc acceptor name")
    case None
    with c q Cons.prems show ?thesis by auto
  next
    case (Some ep)
    with c have r': "r' = Inr ()"
      and qq: "q = p\<lparr> pr_listeners := pr_listeners p @ [started_listener retry_to opts (pr_dumb p) ep] \<rparr>" by simp_all
    have "in_turn (start_listener lc acceptor retry_to opts) names q = (p', r)" using Cons.prems q r' by simp
    from Cons.IH [OF this] show ?thesis using Some by (simp add: qq)
  qed
qed simp

text \<open>
  The server listens everywhere or says why not. \<open>run\<close> gets to serving exactly when every name of the command line is an
  endpoint that can be opened; then every endpoint has a listener that accepts, in the order of the command line,
  with the options, the retry time and the low-level protocol the command line asks for.
\<close>

theorem run_listens_everywhere:
  assumes "pr_listeners p = []" and "stress_run lc acceptor params p = (p', r)"
  shows "(if (\<forall>name \<in> set (ru_server params). opens lc acceptor name \<noteq> None)
          then r = Inr (ru_only_pool params) \<and> pr_listeners p' =
            map (\<lambda>name. started_listener (given (ru_accept_retry params) 1000) (stress_options (ru_options params))
              (ru_dumb params) (the (opens lc acceptor name))) (ru_server params)
            \<and> (\<forall>l \<in> set (pr_listeners p'). sv_accepting (sl_server l) \<and> sv_working (sl_server l))
          else \<exists>e. r = Inl e)"
proof -
  define q where "q = p\<lparr> pr_app := (case ru_key params of None \<Rightarrow> pr_app p | Some k \<Rightarrow> (pr_app p)\<lparr> sp_key := k \<rparr>),
                 pr_dumb := ru_dumb params, pr_max_clients := given (ru_max_clients params) (pr_max_clients p) \<rparr>"
  have q: "pr_listeners q = []" "pr_dumb q = ru_dumb params" by (simp_all add: q_def assms(1))
  obtain u r' where u: "in_turn (start_listener lc acceptor (given (ru_accept_retry params) 1000)
      (stress_options (ru_options params))) (ru_server params) q = (u, r')" by fastforce
  have acc: "sv_accepting (sl_server (started_listener a b c d)) \<and> sv_working (sl_server (started_listener a b c d))" for a b c d
    by (simp add: started_listener_def listener_start_def sv_signal_def start_accept_def)
  show ?thesis
    using start_listeners_all [OF u] assms(2) q acc
    by (auto simp: stress_run_def q_def [symmetric] u Let_def start_counter_timer_def split: if_splits)
qed

text \<open>After \<open>stop\<close> no listener works, nothing waits to be started again, and both services are stopped, so that \<open>run\<close> returns as
  soon as their threads have.\<close>

lemma stop_stops:
  assumes "stress_stop self p = Some p'"
  shows "(\<forall>l \<in> set (pr_listeners p'). \<not> sv_working (sl_server l)) \<and> ot_waiting (rt_timer (pr_retry p')) = []
    \<and> tp_ios_stopped (pp_io (pr_pools p')) \<and> tp_ios_stopped (pp_get_rpc_pool (pr_pools p')) \<and> tp_threads (pr_timer_pool p') = {}"
  using assms
  by (auto simp: stress_stop_def listener_stop_def once_cancel_def ot_complete_def pp_stop_all_def pp_get_rpc_pool_def
      tp_stop_def tp_join_all_def split: option.splits if_splits)

text \<open>The size of the pool for io may be zero: then, unless there is one pool for all, the main thread joins the pool for calls
  and nobody runs the service of the sockets.\<close>

lemma no_thread_for_io:
  assumes "ru_server params \<noteq> []" and "ru_io_pool_size params = Some 0" and "\<not> ru_only_pool params"
    and "ru_rpc_pool_size params = None"
  shows "\<exists>pp. server_pools params ids rpc_ids = Inr pp \<and> tp_threads (pp_io pp) = {} \<and> \<not> pp_one_pool pp
    \<and> (stress_run lc acceptor params p = (p', Inr attach_io) \<longrightarrow> \<not> attach_io)"
  using assms
  by (auto simp: server_pools_def given_def Let_def pool_pair_two_def pool_with_def tp_add_def pool_new_def pp_one_pool_def
      stress_run_def split: prod.splits sum.splits)

subsection \<open>The counter of calls\<close>

datatype count_action = Count_execute nat | Count_expire | Count_run | Count_cancel

fun count_act :: "count_action \<Rightarrow> stress_process \<Rightarrow> stress_process" where
  "count_act (Count_execute call) p = p\<lparr> pr_app := stress_execute call (pr_app p) \<rparr>"
| "count_act Count_expire p = p\<lparr> pr_counter_timer := once_expire (pr_counter_timer p) \<rparr>"
| "count_act Count_run p =
     (case once_take (pr_counter_timer p) of
        (t, None) \<Rightarrow> p
      | (t, Some (seen, err)) \<Rightarrow> counter_timer_handler err seen (p\<lparr> pr_counter_timer := t \<rparr>))"
| "count_act Count_cancel p = p\<lparr> pr_counter_timer := once_cancel (pr_counter_timer p) \<rparr>"

definition counter_inv :: "stress_process \<Rightarrow> bool" where
  "counter_inv p \<longleftrightarrow> pending (pr_counter_timer p) = [] \<or> pending (pr_counter_timer p) = [sum_list (pr_printed p)]"

lemma counter_inv_act:
  assumes "counter_inv p"
  shows "counter_inv (count_act a p)"
proof (cases a)
  case Count_run
  show ?thesis
  proof (cases "ot_queued (pr_counter_timer p)")
    case Nil
    with Count_run assms show ?thesis by (simp add: once_take_def)
  next
    case (Cons x xs)
    obtain seen err where x: "x = (seen, err)" by fastforce
    have t: "once_take (pr_counter_timer p) = ((pr_counter_timer p)\<lparr> ot_queued := xs \<rparr>, Some (seen, err))"
      using Cons x by (simp add: once_take_def)
    from pending_take [OF t] assms have one: "pending ((pr_counter_timer p)\<lparr> ot_queued := xs \<rparr>) = []" "seen = sum_list (pr_printed p)"
      by (auto simp: counter_inv_def)
    with Count_run t show ?thesis
      by (auto simp: counter_inv_def counter_timer_handler_def start_counter_timer_def Let_def)
  qed
qed (use assms in \<open>simp_all add: counter_inv_def\<close>)

text \<open>
  The counts add up. However calls and the seconds interleave, at most one wait is outstanding, and the counts printed so far
  add up (modulo \<open>2 ^ 64\<close>) to the number the wait remembers; each time the handler runs, they add up to the number of calls.
\<close>

theorem counts_add_up:
  assumes "pr_counter_timer p = once_new" and "pr_printed p = []"
  shows "counter_inv (fold count_act as (start_counter_timer 0 p))"
proof -
  have "counter_inv (start_counter_timer 0 p)" using assms by (simp add: counter_inv_def start_counter_timer_def)
  then show ?thesis by (induction as arbitrary: p rule: rev_induct) (simp_all add: counter_inv_act)
qed

lemma handler_prints_the_rest:
  assumes "counter_inv p" and "once_take (pr_counter_timer p) = (t, Some (seen, 0))"
  shows "sum_list (pr_printed (count_act Count_run p)) = sp_call_count (pr_app p)"
proof -
  have "seen = sum_list (pr_printed p)" using pending_take [OF assms(2)] assms(1) by (auto simp: counter_inv_def)
  then show ?thesis using assms(2) by (simp add: counter_timer_handler_def start_counter_timer_def Let_def)
qed

end
