(* ===== verification/Stress_Client.thy ===== *)
theory Stress_Client
  imports Stress_Service Call_Context
begin

text \<open>
  The client of \<open>examples/stress\<close> (\<open>client.cpp\<close>, \<open>ping-impl.cpp\<close>, \<open>stress-impl.cpp\<close>, \<open>events-impl.cpp\<close>): where it connects,
  what it asks the server for, in the main thread and in the threads of \<open>--threads\<close>, and how it prints the stack of calls.
  The calls of the stub are an argument \<open>stub\<close> over a state of its own that may raise; \<open>stress_serve\<close> is an instance. What
  the clock measures is an input.
\<close>

subsection \<open>Connecting\<close>

datatype stress_connect = Connect_local string | Connect_tcp string nat

definition connect_to :: "lexical_cast \<Rightarrow> string \<Rightarrow> exn + stress_connect" where
  "connect_to lc name =
     (if CHR '':'' \<notin> set name then Inr (Connect_local name)
      else
        (let back = rev name;
             address = rev (tl (dropWhile (\<lambda>c. c \<noteq> CHR '':'') back));
             port = rev (takeWhile (\<lambda>c. c \<noteq> CHR '':'') back)
         in case lc 16 port of None \<Rightarrow> Inl Other_exception | Some n \<Rightarrow> Inr (Connect_tcp address n)))"

fun connects :: "stress_connect \<Rightarrow> endpoint" where
  "connects (Connect_local name) = Local_endpoint name"
| "connects (Connect_tcp address port) = Tcp_endpoint address port"

text \<open>Client and server read a name alike: the client connects where a server started with the same name listens, and refuses the
  names the server refuses.\<close>

lemma connect_where_listening: "map_sum (\<lambda>e. e) connects (connect_to lc name) = create_from_string lc name"
  by (simp add: connect_to_def create_from_string_def Let_def split: option.splits)

subsection \<open>The stub\<close>

type_synonym 's stress_stub = "stress_request \<Rightarrow> 's \<Rightarrow> 's \<times> (exn + u32)"

definition si_call :: "'s stress_stub \<Rightarrow> stress_request \<Rightarrow> 's \<Rightarrow> 's \<times> (exn + unit)" where
  "si_call stub rq s = (case stub rq s of (s, r) \<Rightarrow> (s, map_sum (\<lambda>e. e) (\<lambda>_. ()) r))"

definition si_new :: "'s stress_stub \<Rightarrow> bool \<Rightarrow> 's \<Rightarrow> 's \<times> (exn + unit)" where
  "si_new stub init s = (if init then si_call stub Rq_init s else (s, Inr ()))"

definition si_ping :: "'s stress_stub \<Rightarrow> u32 \<Rightarrow> 's \<Rightarrow> 's \<times> (exn + unit)" where
  "si_ping stub payload = si_call stub (Rq_ping (replicate (unat payload) 33))"

definition si_generate_events :: "'s stress_stub \<Rightarrow> u32 \<Rightarrow> bool \<Rightarrow> bool \<Rightarrow> u32 \<Rightarrow> 's \<Rightarrow> 's \<times> (exn + unit)" where
  "si_generate_events stub n ins wait payload =
     si_call stub (Rq_generate_event \<lparr> ge_count = n, ge_callback = ins, ge_wait = wait, ge_payload_size = payload \<rparr>)"

definition si_recursive_call :: "'s stress_stub \<Rightarrow> u32 \<Rightarrow> u32 \<Rightarrow> 's \<Rightarrow> 's \<times> (exn + unit)" where
  "si_recursive_call stub n payload = si_call stub (Rq_recursive_call n (replicate (unat payload) 43))"

definition si_register_timer :: "'s stress_stub \<Rightarrow> u32 \<Rightarrow> 's \<Rightarrow> 's \<times> (exn + u32)" where
  "si_register_timer stub microsec = stub (Rq_reg microsec)"

definition si_shutdown :: "'s stress_stub \<Rightarrow> 's \<Rightarrow> 's \<times> (exn + unit)" where
  "si_shutdown stub = si_call stub Rq_shutdown"

definition si_close_me :: "'s stress_stub \<Rightarrow> 's \<Rightarrow> 's \<times> (exn + unit)" where
  "si_close_me stub = si_call stub Rq_close_me"

subsection \<open>Pinging\<close>

text \<open>\<open>elapsed k\<close> is the time of the ping with the number \<open>k\<close>, in microseconds; \<open>pg_slept\<close> counts the pauses of a second.\<close>

record 's pinging =
  pg_world :: 's
  pg_pings :: nat
  pg_slept :: nat

definition ping_impl :: "'s stress_stub \<Rightarrow> (nat \<Rightarrow> u64) \<Rightarrow> u32 \<Rightarrow> 's pinging \<Rightarrow> 's pinging \<times> (exn + u64)" where
  "ping_impl stub elapsed payload p =
     (case si_ping stub payload (pg_world p) of
        (w, r) \<Rightarrow> (p\<lparr> pg_world := w, pg_pings := Suc (pg_pings p) \<rparr>, map_sum (\<lambda>e. e) (\<lambda>_. elapsed (pg_pings p)) r))"

function ping_loop ::
    "'s stress_stub \<Rightarrow> (nat \<Rightarrow> u64) \<Rightarrow> bool \<Rightarrow> u32 \<Rightarrow> u32 \<Rightarrow> u64 \<Rightarrow> 's pinging \<Rightarrow> 's pinging \<times> (exn + u64)" where
  "ping_loop stub elapsed flood payload n res p =
     (if n = 0 then (p, Inr res)
      else
        (case ping_impl stub elapsed payload p of
           (p, Inl e) \<Rightarrow> (p, Inl e)
         | (p, Inr t) \<Rightarrow>
             ping_loop stub elapsed flood payload (n - 1) (res + t)
               (if \<not> flood \<and> n - 1 \<noteq> 0 then p\<lparr> pg_slept := Suc (pg_slept p) \<rparr> else p)))"
  by pat_completeness auto
termination
  by (relation "measure (\<lambda>(stub, elapsed, flood, payload, n, res, p). unat n)") (auto simp: unat_gt_0 unat_minus_one)

declare ping_loop.simps [simp del]

text \<open>The averages that are printed, of the pings and of the whole time \<open>t\<close>.\<close>

definition ping_averages :: "u32 \<Rightarrow> u64 \<Rightarrow> u64 \<Rightarrow> (u64 \<times> u64) option" where
  "ping_averages counter res t = (if counter \<noteq> 0 then Some (res div ucast counter, t div ucast counter) else None)"

definition stress_ping ::
    "'s stress_stub \<Rightarrow> (nat \<Rightarrow> u64) \<Rightarrow> u64 \<Rightarrow> bool \<Rightarrow> u32 \<Rightarrow> u32 \<Rightarrow> 's \<Rightarrow> 's \<times> nat \<times> (exn + (u64 \<times> u64) option)" where
  "stress_ping stub elapsed t flood n payload w =
     (case ping_loop stub elapsed flood payload n 0 \<lparr> pg_world = w, pg_pings = 0, pg_slept = 0 \<rparr> of
        (p, r) \<Rightarrow> (pg_world p, pg_slept p, map_sum (\<lambda>e. e) (\<lambda>res. ping_averages n res t) r))"

definition pings :: "u32 \<Rightarrow> u32 \<Rightarrow> stress_request list" where
  "pings n payload = replicate (unat n) (Rq_ping (replicate (unat payload) 33))"

lemma map_sum_Inr: "map_sum f g x = Inr y \<longleftrightarrow> (\<exists>u. x = Inr u \<and> y = g u)"
  by (cases x) auto

lemma ping_loop_world:
  assumes "ping_loop stub elapsed flood payload n res p = (p', r)"
  shows "in_turn (si_call stub) (pings n payload) (pg_world p) = (pg_world p', map_sum (\<lambda>e. e) (\<lambda>_. ()) r)"
  using assms
proof (induction stub elapsed flood payload n res p rule: ping_loop.induct)
  case (1 stub elapsed flood payload n res p)
  show ?case
  proof (cases "n = 0")
    case True
    with 1(2) show ?thesis by (auto simp: ping_loop.simps [of _ _ _ _ 0] pings_def)
  next
    case False
    then have "unat n = Suc (unat (n - 1))" by (simp add: unat_minus_one unat_gt_0)
    then have ps: "pings n payload = Rq_ping (replicate (unat payload) 33) # pings (n - 1) payload" by (simp add: pings_def)
    obtain w r' where w: "si_call stub (Rq_ping (replicate (unat payload) 33)) (pg_world p) = (w, r')" by fastforce
    show ?thesis
    proof (cases r')
      case (Inl e)
      with 1(2) False w show ?thesis unfolding ps by (subst (asm) ping_loop.simps) (auto simp: ping_impl_def si_ping_def)
    next
      case (Inr u)
      let ?q = "p\<lparr> pg_world := w, pg_pings := Suc (pg_pings p) \<rparr>"
      have i: "ping_impl stub elapsed payload p = (?q, Inr (elapsed (pg_pings p)))"
        using w Inr by (simp add: ping_impl_def si_ping_def)
      let ?q' = "if \<not> flood \<and> n - 1 \<noteq> 0 then ?q\<lparr> pg_slept := Suc (pg_slept ?q) \<rparr> else ?q"
      have "ping_loop stub elapsed flood payload (n - 1) (res + elapsed (pg_pings p)) ?q' = (p', r)"
        using 1(2) False i by (subst (asm) ping_loop.simps) simp
      from 1(1) [OF False i [symmetric] refl this] have
        "in_turn (si_call stub) (pings (n - 1) payload) w = (pg_world p', map_sum (\<lambda>e. e) (\<lambda>_. ()) r)" by (simp split: if_splits)
      then show ?thesis unfolding ps using w Inr by simp
    qed
  qed
qed

lemma ping_loop_counts:
  assumes "ping_loop stub elapsed flood payload n res p = (p', Inr res')"
  shows "pg_pings p' = pg_pings p + unat n \<and> pg_slept p' = pg_slept p + (if flood then 0 else unat n - 1)
    \<and> res' = res + sum_list (map elapsed [pg_pings p ..< pg_pings p + unat n])"
  using assms
proof (induction stub elapsed flood payload n res p rule: ping_loop.induct)
  case (1 stub elapsed flood payload n res p)
  show ?case
  proof (cases "n = 0")
    case True
    with 1(2) show ?thesis by (simp add: ping_loop.simps [of _ _ _ _ 0])
  next
    case False
    then have n: "unat n = Suc (unat (n - 1))" by (simp add: unat_minus_one unat_gt_0)
    obtain q r where i: "ping_impl stub elapsed payload p = (q, r)" by fastforce
    with 1(2) False obtain t where r: "r = Inr t"
      by (subst (asm) ping_loop.simps) (auto split: sum.splits)
    have q: "pg_pings q = Suc (pg_pings p)" "pg_slept q = pg_slept p" "t = elapsed (pg_pings p)"
      using i r by (auto simp: ping_impl_def map_sum_Inr split: prod.splits)
    let ?q = "if \<not> flood \<and> n - 1 \<noteq> 0 then q\<lparr> pg_slept := Suc (pg_slept q) \<rparr> else q"
    have "ping_loop stub elapsed flood payload (n - 1) (res + t) ?q = (p', Inr res')"
      using 1(2) False i r by (subst (asm) ping_loop.simps) simp
    note step = 1(1) [OF False i [symmetric] r this]
    have "[pg_pings p ..< pg_pings p + unat n] = pg_pings p # [Suc (pg_pings p) ..< Suc (pg_pings p) + unat (n - 1)]"
      using n by (simp add: upt_conv_Cons del: upt_Suc)
    moreover have "n - 1 \<noteq> 0 \<longleftrightarrow> unat (n - 1) \<noteq> 0" by (simp add: unat_eq_zero)
    ultimately show ?thesis using step q n by (auto simp: add.assoc split: if_splits simp del: upt_Suc)
  qed
qed

text \<open>
  Pinging ends for every number of pings: it makes them one after another until one raises; if none does, it has made as many
  as it was asked for, with a pause between two of them unless it floods, and prints the average of their times.
\<close>

theorem ping_makes_its_calls:
  assumes "stress_ping stub elapsed t flood n payload w = (w', slept, r)"
  shows "in_turn (si_call stub) (pings n payload) w = (w', map_sum (\<lambda>e. e) (\<lambda>_. ()) r)
    \<and> (\<forall>avg. r = Inr avg \<longrightarrow> slept = (if flood then 0 else unat n - 1)
         \<and> avg = ping_averages n (sum_list (map elapsed [0 ..< unat n])) t)"
proof -
  let ?p = "\<lparr> pg_world = w, pg_pings = 0, pg_slept = 0 \<rparr>"
  obtain p' r' where l: "ping_loop stub elapsed flood payload n 0 ?p = (p', r')" by fastforce
  then have e: "w' = pg_world p'" "slept = pg_slept p'" "r = map_sum (\<lambda>e. e) (\<lambda>res. ping_averages n res t) r'"
    using assms by (simp_all add: stress_ping_def)
  have "in_turn (si_call stub) (pings n payload) w = (w', map_sum (\<lambda>e. e) (\<lambda>_. ()) r)"
    using ping_loop_world [OF l] e by (cases r') simp_all
  moreover have "slept = (if flood then 0 else unat n - 1)
      \<and> avg = ping_averages n (sum_list (map elapsed [0 ..< unat n])) t" if "r = Inr avg" for avg
    using that e ping_loop_counts [of stub elapsed flood payload n 0 ?p p'] l by (cases r') auto
  ultimately show ?thesis by blast
qed

subsection \<open>The commands\<close>

record client_params =
  cp_server :: "string option"
  cp_io_pool_size :: "u32 option"
  cp_rpc_pool_size :: "u32 option"
  cp_key :: "bytes option"
  cp_dumb :: bool
  cp_payload :: "u32 option"
  cp_threads :: "u32 option"
  cp_timer :: "u32 list"
  cp_shutdown :: bool
  cp_close :: bool
  cp_ping :: "u32 option"
  cp_flood :: "u32 option"
  cp_gen_events :: "u32 option"
  cp_gen_callbacks :: "u32 option"
  cp_recursive :: "u32 option"
  cp_sleep :: "u32 option"

text \<open>The body of a thread that \<open>--threads\<close> adds. \<open>start_ping_flood\<close>, \<open>start_generate_events\<close> and \<open>start_recursive\<close> print an
  exception and return.\<close>

datatype thread_job = Job_ping bool u32 u32 | Job_generate u32 bool bool u32 | Job_recursive u32 u32

fun run_job :: "'s stress_stub \<Rightarrow> (nat \<Rightarrow> u64) \<Rightarrow> u64 \<Rightarrow> thread_job \<Rightarrow> 's \<Rightarrow> 's" where
  "run_job stub elapsed t (Job_ping flood reps payload) w = fst (stress_ping stub elapsed t flood reps payload w)"
| "run_job stub elapsed t (Job_generate n ins wait payload) w = fst (si_generate_events stub n ins wait payload w)"
| "run_job stub elapsed t (Job_recursive n payload) w = fst (si_recursive_call stub n payload w)"

text \<open>The run of the client: \<open>cr_jobs\<close> are the threads it creates, \<open>cr_events\<close> the payload of the handler of events it assigns,
  \<open>cr_slept\<close> the microseconds it sleeps before it ends.\<close>

record 's client_run =
  cr_world :: 's
  cr_jobs :: "thread_job list"
  cr_events :: "u32 option"
  cr_disconnected :: bool
  cr_slept :: "u32 option"

definition at_world :: "('s \<Rightarrow> 's \<times> 'r) \<Rightarrow> 's client_run \<Rightarrow> 's client_run \<times> 'r" where
  "at_world f c = (case f (cr_world c) of (w, r) \<Rightarrow> (c\<lparr> cr_world := w \<rparr>, r))"

definition register_timers :: "'s stress_stub \<Rightarrow> u32 list \<Rightarrow> 's \<Rightarrow> 's \<times> (exn + unit)" where
  "register_timers stub timers =
     in_turn (\<lambda>b w. case si_register_timer stub b w of (w, r) \<Rightarrow> (w, map_sum (\<lambda>e. e) (\<lambda>_. ()) r)) timers"

definition with_threads :: "u32 \<Rightarrow> thread_job \<Rightarrow> 's client_run \<Rightarrow> 's client_run" where
  "with_threads threads job c = c\<lparr> cr_jobs := cr_jobs c @ replicate (unat threads) job \<rparr>"

definition ping_command ::
    "'s stress_stub \<Rightarrow> (nat \<Rightarrow> u64) \<Rightarrow> u64 \<Rightarrow> bool \<Rightarrow> u32 \<Rightarrow> u32 \<Rightarrow> u32 \<Rightarrow> 's client_run \<Rightarrow> 's client_run \<times> (exn + unit)" where
  "ping_command stub elapsed t flood reps threads payload c =
     (let c = with_threads threads (Job_ping flood reps payload) c
      in case stress_ping stub elapsed t flood reps payload (cr_world c) of
           (w, slept, r) \<Rightarrow> (c\<lparr> cr_world := w \<rparr>, map_sum (\<lambda>e. e) (\<lambda>_. ()) r))"

definition events_command ::
    "'s stress_stub \<Rightarrow> (nat \<Rightarrow> u64) \<Rightarrow> u64 \<Rightarrow> thread_job \<Rightarrow> bool \<Rightarrow> u32 \<Rightarrow> u32 \<Rightarrow> 's client_run \<Rightarrow> 's client_run \<times> (exn + unit)" where
  "events_command stub elapsed t job disconnect threads payload c =
     (let c = with_threads threads job (c\<lparr> cr_events := Some payload \<rparr>);
          c = c\<lparr> cr_world := run_job stub elapsed t job (cr_world c) \<rparr>
      in (if disconnect then c\<lparr> cr_disconnected := True \<rparr> else c, Inr ()))"

text \<open>The commands after the test for \<open>--shutdown\<close>: it has no \<open>else\<close>.\<close>

definition client_command ::
    "'s stress_stub \<Rightarrow> (nat \<Rightarrow> u64) \<Rightarrow> u64 \<Rightarrow> client_params \<Rightarrow> u32 \<Rightarrow> u32 \<Rightarrow> 's client_run \<Rightarrow> 's client_run \<times> (exn + unit)" where
  "client_command stub elapsed t params threads payload c =
     (if cp_close params then at_world (si_close_me stub) c
      else case cp_ping params of Some reps \<Rightarrow> ping_command stub elapsed t False reps threads payload c
      | None \<Rightarrow> case cp_flood params of Some reps \<Rightarrow> ping_command stub elapsed t True reps threads payload c
      | None \<Rightarrow> case cp_gen_events params of
          Some n \<Rightarrow> events_command stub elapsed t (Job_generate n True False payload) False threads payload c
      | None \<Rightarrow> case cp_gen_callbacks params of
          Some n \<Rightarrow> events_command stub elapsed t (Job_generate n True True payload) True threads payload c
      | None \<Rightarrow> case cp_recursive params of
          Some n \<Rightarrow> events_command stub elapsed t (Job_recursive n payload) False threads payload c
      | None \<Rightarrow> (c, Inr ()))"

definition client_commands ::
    "'s stress_stub \<Rightarrow> (nat \<Rightarrow> u64) \<Rightarrow> u64 \<Rightarrow> client_params \<Rightarrow> u32 \<Rightarrow> u32 \<Rightarrow> 's client_run \<Rightarrow> 's client_run \<times> (exn + unit)" where
  "client_commands stub elapsed t params threads payload c =
     (case (if cp_shutdown params then at_world (si_shutdown stub) c else (c, Inr ())) of
        (c, Inl e) \<Rightarrow> (c, Inl e)
      | (c, Inr _) \<Rightarrow> client_command stub elapsed t params threads payload c)"

text \<open>The pools: \<open>rpc_size - 1\<close> threads for calls, and no other thread joins that pool.\<close>

definition client_pools :: "client_params \<Rightarrow> nat list \<Rightarrow> nat list \<Rightarrow> exn + pool_pair" where
  "client_pools params ids rpc_ids =
     (let io_size = given (cp_io_pool_size params) 1; rpc_size = given (cp_rpc_pool_size params) 1
      in if io_size < 1 then Inl (Runtime_error ''io-pool-size must be at least 1'')
         else if rpc_size < 1 then Inl (Runtime_error ''rpc-pool-size must be at least 1'')
         else Inr (pool_pair_two (take (unat io_size) ids) (take (unat (rpc_size - 1)) rpc_ids)))"

text \<open>\<open>sleep_( MILLISECONDS( value ) * 1000 )\<close>, in the width of \<open>unsigned\<close>.\<close>

definition sleep_before_exit :: "u32 \<Rightarrow> u32" where
  "sleep_before_exit v = v * 1000 * 1000"

text \<open>\<open>start\<close> without the output. \<open>connect\<close> is the client's \<open>connect\<close>, given the session key and whether the dummy protocol is used. An exception before the commands is passed on; one of the
  commands gives the exit code 3.\<close>

definition stress_client_start ::
    "lexical_cast \<Rightarrow> (bytes option \<Rightarrow> bool \<Rightarrow> stress_connect \<Rightarrow> 's \<Rightarrow> 's \<times> (exn + unit)) \<Rightarrow> 's stress_stub
     \<Rightarrow> (nat \<Rightarrow> u64) \<Rightarrow> u64 \<Rightarrow> client_params
     \<Rightarrow> nat list \<Rightarrow> nat list \<Rightarrow> 's \<Rightarrow> 's client_run \<times> (exn + nat)" where
  "stress_client_start lc connect stub elapsed t params ids rpc_ids w =
     (let c = \<lparr> cr_world = w, cr_jobs = [], cr_events = None, cr_disconnected = False, cr_slept = None \<rparr>
      in case cp_server params of
           None \<Rightarrow> (c, Inl (Runtime_error ''Server is not defined''))
         | Some name \<Rightarrow>
             case and_then (client_pools params ids rpc_ids) (\<lambda>_. connect_to lc name) of
               Inl e \<Rightarrow> (c, Inl e)
             | Inr target \<Rightarrow>
                 case at_world (\<lambda>w. case connect (cp_key params) (cp_dumb params) target w of
                       (w, Inl e) \<Rightarrow> (w, Inl e)
                     | (w, Inr _) \<Rightarrow> (case si_new stub False w of
                          (w, Inl e) \<Rightarrow> (w, Inl e)
                        | (w, Inr _) \<Rightarrow> register_timers stub (cp_timer params) w)) c of
                   (c, Inl e) \<Rightarrow> (c, Inl e)
                 | (c, Inr _) \<Rightarrow>
                     case client_commands stub elapsed t params (given (cp_threads params) 0) (given (cp_payload params) 64) c of
                       (c, r) \<Rightarrow>
                         (c\<lparr> cr_slept := map_option sleep_before_exit (cp_sleep params) \<rparr>,
                          Inr (case r of Inl _ \<Rightarrow> 3 | Inr _ \<Rightarrow> 0)))"

subsection \<open>What the client asks for\<close>

text \<open>A stub that records the requests and always answers.\<close>

definition recording :: "stress_request list stress_stub" where
  "recording rq w = (w @ [rq], Inr 0)"

lemma recording_in_turn: "in_turn (si_call recording) rqs w = (w @ rqs, Inr ())"
  by (induction rqs arbitrary: w) (simp_all add: si_call_def recording_def)

fun job_requests :: "thread_job \<Rightarrow> stress_request list" where
  "job_requests (Job_ping flood reps payload) = pings reps payload"
| "job_requests (Job_generate n ins wait payload) =
     [Rq_generate_event \<lparr> ge_count = n, ge_callback = ins, ge_wait = wait, ge_payload_size = payload \<rparr>]"
| "job_requests (Job_recursive n payload) = [Rq_recursive_call n (replicate (unat payload) 43)]"

lemma recording_ping:
  "\<exists>slept avg. stress_ping recording elapsed t flood n payload w = (w @ pings n payload, slept, Inr avg)"
proof -
  obtain w' slept r where p: "stress_ping recording elapsed t flood n payload w = (w', slept, r)" by (metis prod_cases3)
  from ping_makes_its_calls [OF p] have "w' = w @ pings n payload" "map_sum (\<lambda>e. e) (\<lambda>_. ()) r = Inr ()"
    by (auto simp: recording_in_turn)
  with p show ?thesis by (auto simp: map_sum_Inr)
qed

lemma recording_job: "run_job recording elapsed t job w = w @ job_requests job"
proof (cases job)
  case (Job_ping flood n payload)
  with recording_ping [of elapsed t flood n payload w] show ?thesis by auto
qed (simp_all add: si_generate_events_def si_recursive_call_def si_call_def recording_def)

text \<open>The command of a command line, as one job or none.\<close>

definition command_job :: "client_params \<Rightarrow> thread_job option" where
  "command_job params =
     (let payload = given (cp_payload params) 64
      in if cp_close params then None
         else case cp_ping params of Some n \<Rightarrow> Some (Job_ping False n payload)
         | None \<Rightarrow> case cp_flood params of Some n \<Rightarrow> Some (Job_ping True n payload)
         | None \<Rightarrow> case cp_gen_events params of Some n \<Rightarrow> Some (Job_generate n True False payload)
         | None \<Rightarrow> case cp_gen_callbacks params of Some n \<Rightarrow> Some (Job_generate n True True payload)
         | None \<Rightarrow> map_option (\<lambda>n. Job_recursive n payload) (cp_recursive params))"

definition good_pools :: "client_params \<Rightarrow> bool" where
  "good_pools params \<longleftrightarrow> 1 \<le> given (cp_io_pool_size params) 1 \<and> 1 \<le> given (cp_rpc_pool_size params) 1"

lemma good_pools_made: "good_pools params \<Longrightarrow> \<exists>pp. client_pools params ids rpc_ids = Inr pp"
  by (auto simp: good_pools_def client_pools_def Let_def linorder_not_less)

lemma recording_timers: "register_timers recording timers w = (w @ map Rq_reg timers, Inr ())"
  unfolding register_timers_def
  by (induction timers arbitrary: w) (simp_all add: si_register_timer_def recording_def)

lemma recording_command:
  assumes "client_command recording elapsed t params threads (given (cp_payload params) 64) c = (c', r)"
  shows "r = Inr ()"
    and "cr_world c' = cr_world c @
      (if cp_close params then [Rq_close_me] else case command_job params of None \<Rightarrow> [] | Some job \<Rightarrow> job_requests job)"
    and "cr_jobs c' = cr_jobs c @ (case command_job params of None \<Rightarrow> [] | Some job \<Rightarrow> replicate (unat threads) job)"
proof -
  have ping: "ping_command recording elapsed t flood n threads payload c =
     (c\<lparr> cr_world := cr_world c @ pings n payload, cr_jobs := cr_jobs c @ replicate (unat threads) (Job_ping flood n payload) \<rparr>,
      Inr ())" for flood n payload
    using recording_ping [of elapsed t flood n payload "cr_world c"]
    by (auto simp: ping_command_def with_threads_def Let_def)
  note defs = client_command_def command_job_def ping events_command_def with_threads_def recording_job at_world_def
    si_close_me_def si_call_def recording_def Let_def
  show "r = Inr ()" using assms by (auto simp: defs simp del: run_job.simps split: option.splits if_splits)
  show "cr_world c' = cr_world c @
      (if cp_close params then [Rq_close_me] else case command_job params of None \<Rightarrow> [] | Some job \<Rightarrow> job_requests job)"
    using assms by (auto simp: defs simp del: run_job.simps split: option.splits if_splits)
  show "cr_jobs c' = cr_jobs c @ (case command_job params of None \<Rightarrow> [] | Some job \<Rightarrow> replicate (unat threads) job)"
    using assms by (auto simp: defs simp del: run_job.simps split: option.splits if_splits)
qed

text \<open>
  What a run of the client asks for when nothing raises: first the timers, then the shutdown, then the one command it obeys; every
  thread of \<open>--threads\<close> has that command as its job; and the exit code is 0. The shutdown does not end it.
\<close>

theorem client_asks_in_order:
  assumes "cp_server params = Some name" and "good_pools params" and "connect_to lc name = Inr target"
    and "stress_client_start lc (\<lambda>_ _ _ w. (w, Inr ())) recording elapsed t params ids rpc_ids [] = (c, r)"
  shows "r = Inr 0
    \<and> cr_world c = map Rq_reg (cp_timer params) @ (if cp_shutdown params then [Rq_shutdown] else []) @
        (if cp_close params then [Rq_close_me] else case command_job params of None \<Rightarrow> [] | Some job \<Rightarrow> job_requests job)
    \<and> cr_jobs c = (case command_job params of None \<Rightarrow> [] | Some job \<Rightarrow> replicate (unat (given (cp_threads params) 0)) job)"
proof -
  obtain pp where pp: "client_pools params ids rpc_ids = Inr pp" using good_pools_made [OF assms(2)] by blast
  define c0 where "c0 = \<lparr> cr_world = map Rq_reg (cp_timer params) @ (if cp_shutdown params then [Rq_shutdown] else []),
     cr_jobs = [], cr_events = None, cr_disconnected = False, cr_slept = None \<rparr>"
  obtain c' r' where cc: "client_command recording elapsed t params (given (cp_threads params) 0) (given (cp_payload params) 64) c0 = (c', r')"
    by fastforce
  note rc = recording_command [OF cc]
  have "stress_client_start lc (\<lambda>_ _ _ w. (w, Inr ())) recording elapsed t params ids rpc_ids [] =
      (c'\<lparr> cr_slept := map_option sleep_before_exit (cp_sleep params) \<rparr>, Inr 0)"
  proof (cases "cp_shutdown params")
    case True
    with cc rc(1) show ?thesis
      by (simp add: stress_client_start_def Let_def assms(1,3) pp at_world_def si_new_def recording_timers client_commands_def
          si_shutdown_def si_call_def recording_def [of Rq_shutdown] c0_def)
  next
    case False
    with cc rc(1) show ?thesis
      by (simp add: stress_client_start_def Let_def assms(1,3) pp at_world_def si_new_def recording_timers client_commands_def c0_def)
  qed
  with assms(4) have "c = c'\<lparr> cr_slept := map_option sleep_before_exit (cp_sleep params) \<rparr>" "r = Inr 0" by simp_all
  with rc show ?thesis by (simp add: c0_def)
qed

text \<open>With the default size the pool for calls has no thread at all: what is posted to it is never run.\<close>

lemma default_rpc_pool_is_empty:
  assumes "cp_rpc_pool_size params = None" and "client_pools params ids rpc_ids = Inr pp"
  shows "tp_threads (pp_get_rpc_pool pp) = {}"
  using assms
  by (auto simp: client_pools_def Let_def given_def pool_pair_two_def pp_get_rpc_pool_def pool_with_def tp_add_def pool_new_def
      split: if_splits)

text \<open>The client sleeps as many seconds as it was told, up to 4294; after that the product wraps.\<close>

lemma sleep_seconds: "unat v \<le> 4294 \<Longrightarrow> unat (sleep_before_exit v) = unat v * 1000000"
  by (simp add: sleep_before_exit_def unat_word_ariths)

lemma sleep_wraps: "unat (sleep_before_exit 4295) = 32704"
  by (simp add: sleep_before_exit_def)

subsection \<open>The stack of calls\<close>

text \<open>The loop over the contexts of \<open>get_stack1\<close> and \<open>get_stack2\<close>; \<open>show_ctx\<close> writes one context.\<close>

partial_function (option) stack_loop ::
    "(nat \<Rightarrow> call_context) \<Rightarrow> (bool \<Rightarrow> call_context \<Rightarrow> string) \<Rightarrow> nat option \<Rightarrow> bool \<Rightarrow> string \<Rightarrow> string option" where
  "stack_loop h show_ctx cc from_server oss =
     (case cc of
        None \<Rightarrow> Some oss
      | Some a \<Rightarrow> stack_loop h show_ctx (cc_next (h a)) (\<not> from_server) (oss @ show_ctx from_server (h a)))"

definition show_stack1 :: "bool \<Rightarrow> call_context \<Rightarrow> string" where
  "show_stack1 from_server cc = (if from_server then ''>'' else ''<'')"

definition show_stack2 :: "bool \<Rightarrow> call_context \<Rightarrow> string" where
  "show_stack2 from_server cc =
     [char_of (10 :: nat), char_of (9 :: nat)] @ (if from_server then ''Server -> '' else ''Client <- '')
       @ llu_service_id (cc_llu cc) @ ''::'' @ llu_method_id (cc_llu cc)"

definition get_stack1 :: "bool \<Rightarrow> ctx_state \<Rightarrow> string option" where
  "get_stack1 client_alive s =
     (if client_alive then stack_loop (cs_heap s) show_stack1 (top_call_context s) True [] else Some ''<>failed<>?'')"

definition get_stack2 :: "bool \<Rightarrow> ctx_state \<Rightarrow> string option" where
  "get_stack2 client_alive s =
     (if client_alive then stack_loop (cs_heap s) show_stack2 (top_call_context s) True [] else Some ''<>failed<>?'')"

text \<open>\<open>get_stack\<close> reads the depth without a test for a missing context.\<close>

definition get_stack :: "bool \<Rightarrow> ctx_state \<Rightarrow> exn + string" where
  "get_stack client_alive s =
     (if client_alive
      then (case top_call_context s of
              None \<Rightarrow> Inl Undefined
            | Some a \<Rightarrow>
                let depth = cc_depth (cs_heap s a)
                in Inr (''depth: '' @ dec depth @ ''; client depth: '' @ dec (depth div 2) @ ''; server depth: '' @ dec (depth div 2)))
      else Inr ''<>failed<>?'')"

fun alternating :: "(bool \<Rightarrow> 'a \<Rightarrow> string) \<Rightarrow> bool \<Rightarrow> 'a list \<Rightarrow> string" where
  "alternating f b [] = []"
| "alternating f b (x # xs) = f b x @ alternating f (\<not> b) xs"

lemma stack_loop_linked:
  "linked h xs \<Longrightarrow>
    stack_loop h f (case xs of [] \<Rightarrow> None | a # _ \<Rightarrow> Some a) b oss = Some (oss @ alternating f b (map h xs))"
proof (induction xs arbitrary: b oss)
  case Nil
  show ?case by (subst stack_loop.simps) simp
next
  case (Cons a xs)
  then show ?case by (subst stack_loop.simps) (simp split: list.splits)
qed

text \<open>
  Printing the stack ends in every state of the calls of a thread, and shows its contexts from the innermost outwards, in turn as
  calls of the server and of the client.
\<close>

theorem printed_stack:
  assumes "stack_ok s"
  shows "get_stack2 True s = Some (case cs_stack s of None \<Rightarrow> [] | Some xs \<Rightarrow> alternating show_stack2 True (map (cs_heap s) xs))
    \<and> get_stack1 True s = Some (case cs_stack s of None \<Rightarrow> [] | Some xs \<Rightarrow> alternating show_stack1 True (map (cs_heap s) xs))"
proof (cases "cs_stack s")
  case None
  then show ?thesis using stack_loop_linked [of "cs_heap s" "[]"] by (simp add: get_stack1_def get_stack2_def top_call_context_def)
next
  case (Some xs)
  then have "linked (cs_heap s) xs" "top_call_context s = (case xs of [] \<Rightarrow> None | a # _ \<Rightarrow> Some a)"
    using assms by (auto simp: stack_ok_def top_call_context_def split: list.splits)
  then show ?thesis using Some stack_loop_linked [of "cs_heap s" xs] by (simp add: get_stack1_def get_stack2_def)
qed

subsection \<open>The callback of the recursion\<close>

definition recursive_callback :: "'s stress_stub \<Rightarrow> bool \<Rightarrow> u32 \<Rightarrow> u32 \<Rightarrow> 's \<Rightarrow> 's \<times> (exn + unit)" where
  "recursive_callback stub client_alive payload balance s =
     (if client_alive then si_recursive_call stub (balance - 1) payload s else (s, Inr ()))"

text \<open>The callback does not look at the balance: a balance of zero, which this server never sends, would go round to
  \<open>2 ^ 32 - 1\<close>.\<close>

lemma callback_with_zero_wraps:
  "recursive_callback recording True payload 0 w = (w @ [Rq_recursive_call (2 ^ 32 - 1) (replicate (unat payload) 43)], Inr ())"
  by (simp add: recursive_callback_def si_recursive_call_def si_call_def recording_def)

end
