(* ===== verification/Lukki_Client.thy ===== *)
theory Lukki_Client
  imports Lukki_Db Stress_Client
begin

text \<open>
  The client of \<open>examples/lukki-db\<close> (\<open>client.cpp\<close>, \<open>lukki-db-impl.cpp\<close>): its object for the store and the commands of its
  command line, over an argument \<open>stub\<close> that makes a call; \<open>spec_stub\<close> is the stub over the abstract store that the
  server implements.
\<close>

subsection \<open>The object for the store\<close>

type_synonym 's db_stub = "db_request \<Rightarrow> 's \<Rightarrow> 's \<times> (exn + db_response)"

fun bind_call :: "'s \<times> (exn + 'a) \<Rightarrow> ('a \<Rightarrow> 's \<Rightarrow> 's \<times> (exn + 'b)) \<Rightarrow> 's \<times> (exn + 'b)" where
  "bind_call (s, Inl e) f = (s, Inl e)"
| "bind_call (s, Inr x) f = f x s"

definition db_void :: "'s db_stub \<Rightarrow> db_request \<Rightarrow> 's \<Rightarrow> 's \<times> (exn + unit)" where
  "db_void stub req s = bind_call (stub req s) (\<lambda>_ s. (s, Inr ()))"

definition lukki_db_new :: "'s db_stub \<Rightarrow> 's \<Rightarrow> 's \<times> (exn + unit)" where
  "lukki_db_new stub = db_void stub Req_init"

definition db_set :: "'s db_stub \<Rightarrow> string \<Rightarrow> string list \<Rightarrow> 's \<Rightarrow> 's \<times> (exn + unit)" where
  "db_set stub name value = db_void stub (Req_set name value)"

definition db_upd :: "'s db_stub \<Rightarrow> string \<Rightarrow> string list \<Rightarrow> 's \<Rightarrow> 's \<times> (exn + unit)" where
  "db_upd stub name value = db_void stub (Req_upd name value)"

text \<open>The response is a message of the type the method has; a message that was not filled in has the default values.\<close>

definition db_get :: "'s db_stub \<Rightarrow> string \<Rightarrow> 's \<Rightarrow> 's \<times> (exn + string list)" where
  "db_get stub name s = bind_call (stub (Req_get name) s) (\<lambda>r s. (s, Inr (case r of Res_value v \<Rightarrow> v | _ \<Rightarrow> [])))"

definition db_del :: "'s db_stub \<Rightarrow> string \<Rightarrow> 's \<Rightarrow> 's \<times> (exn + unit)" where
  "db_del stub name = db_void stub (Req_del name)"

definition db_get_stat :: "'s db_stub \<Rightarrow> 's \<Rightarrow> 's \<times> (exn + db_stat)" where
  "db_get_stat stub s = bind_call (stub Req_stat s) (\<lambda>r s. (s, Inr (case r of Res_stat st \<Rightarrow> st | _ \<Rightarrow> db_stat_new)))"

definition db_exist :: "'s db_stub \<Rightarrow> string \<Rightarrow> 's \<Rightarrow> 's \<times> (exn + bool)" where
  "db_exist stub name s = bind_call (stub (Req_exist name) s) (\<lambda>r s. (s, Inr (case r of Res_exist b \<Rightarrow> b | _ \<Rightarrow> False)))"

definition db_subscribe :: "'s db_stub \<Rightarrow> 's \<Rightarrow> 's \<times> (exn + unit)" where
  "db_subscribe stub = db_void stub Req_subscribe"

subsection \<open>Events\<close>

definition newline :: string where "newline = [char_of (10 :: nat)]"

fun print_event :: "client_event \<Rightarrow> string" where
  "print_event Subscribed = ''Subscribed'' @ newline"
| "print_event (New_value name) = ''New record: '' @ [char_of (39 :: nat)] @ name @ [char_of (39 :: nat)] @ newline"
| "print_event (Value_changed name) =
     ''Record '' @ [char_of (39 :: nat)] @ name @ [char_of (39 :: nat)] @ '' was changed'' @ newline"
| "print_event (Value_removed name) =
     ''Record '' @ [char_of (39 :: nat)] @ name @ [char_of (39 :: nat)] @ '' was removed'' @ newline"

subsection \<open>The commands\<close>

record lukki_params =
  lp_server :: "string option"
  lp_events :: bool
  lp_values :: "string list"
  lp_exist :: "string option"
  lp_set :: "string option"
  lp_upd :: "string option"
  lp_get :: "string option"
  lp_del :: "string option"
  lp_stat :: bool

definition lukki_connect_to :: "lexical_cast \<Rightarrow> string \<Rightarrow> exn + stress_connect" where
  "lukki_connect_to lc name = connect_to lc name"

text \<open>What the client shows, apart from progress and times.\<close>

datatype lukki_shown = Shown_exist string bool | Shown_values "string list" | Shown_stat db_stat

type_synonym 's lukki_step = "'s \<Rightarrow> 's \<times> (exn + lukki_shown list)"

definition silently :: "'s \<times> (exn + unit) \<Rightarrow> 's \<times> (exn + lukki_shown list)" where
  "silently m = bind_call m (\<lambda>_ s. (s, Inr []))"

definition then_show :: "'s \<times> (exn + lukki_shown list) \<Rightarrow> 's lukki_step \<Rightarrow> 's \<times> (exn + lukki_shown list)" where
  "then_show m f = bind_call m (\<lambda>out s. bind_call (f s) (\<lambda>more s. (s, Inr (out @ more))))"

definition exist_command :: "'s db_stub \<Rightarrow> lukki_params \<Rightarrow> 's lukki_step" where
  "exist_command stub params s =
     (case lp_exist params of
        None \<Rightarrow> (s, Inr [])
      | Some name \<Rightarrow> bind_call (db_exist stub name s) (\<lambda>res s. (s, Inr [Shown_exist name res])))"

definition value_command :: "'s db_stub \<Rightarrow> lukki_params \<Rightarrow> 's lukki_step" where
  "value_command stub params s =
     (case lp_set params of Some name \<Rightarrow> silently (db_set stub name (lp_values params) s)
      | None \<Rightarrow> case lp_upd params of Some name \<Rightarrow> silently (db_upd stub name (lp_values params) s)
      | None \<Rightarrow> case lp_get params of Some name \<Rightarrow> bind_call (db_get stub name s) (\<lambda>vals s. (s, Inr [Shown_values vals]))
      | None \<Rightarrow> case lp_del params of Some name \<Rightarrow> silently (db_del stub name s)
      | None \<Rightarrow> (s, Inr []))"

definition stat_command :: "'s db_stub \<Rightarrow> lukki_params \<Rightarrow> 's lukki_step" where
  "stat_command stub params s =
     (if lp_stat params then bind_call (db_get_stat stub s) (\<lambda>st s. (s, Inr [Shown_stat st])) else (s, Inr []))"

text \<open>\<open>start\<close> after the connection has been made; then the client leaves, or, subscribed to events, gives its thread to the pool
  for calls: \<open>lukki_stays\<close>.\<close>

definition lukki_session :: "'s db_stub \<Rightarrow> lukki_params \<Rightarrow> 's lukki_step" where
  "lukki_session stub params s =
     then_show (then_show (then_show (then_show
       (silently (lukki_db_new stub s))
       (\<lambda>s. if lp_events params then silently (db_subscribe stub s) else (s, Inr [])))
       (exist_command stub params))
       (value_command stub params))
       (stat_command stub params)"

definition lukki_stays :: "lukki_params \<Rightarrow> bool" where
  "lukki_stays params = lp_events params"

definition lukki_client_start ::
    "lexical_cast \<Rightarrow> (stress_connect \<Rightarrow> 's \<Rightarrow> 's \<times> (exn + unit)) \<Rightarrow> 's db_stub \<Rightarrow> lukki_params \<Rightarrow> 's
     \<Rightarrow> 's \<times> (exn + lukki_shown list \<times> bool)" where
  "lukki_client_start lc connect stub params s =
     (case lp_server params of
        None \<Rightarrow> (s, Inl (Runtime_error ''Server is not defined''))
      | Some name \<Rightarrow>
          (case lukki_connect_to lc name of
             Inl e \<Rightarrow> (s, Inl e)
           | Inr target \<Rightarrow>
               bind_call (connect target s)
                 (\<lambda>_ s. bind_call (lukki_session stub params s) (\<lambda>out s. (s, Inr (out, lukki_stays params))))))"

subsection \<open>Sessions on the store\<close>

text \<open>A call of the abstract store; \<open>failed\<close> is the exception the client raises for the text of a failed controller.\<close>

definition spec_stub :: "(string \<Rightarrow> exn) \<Rightarrow> spec_db db_stub" where
  "spec_stub failed req d =
     (case spec_call req d of (d, f, r) \<Rightarrow> (d, case f of Some text \<Rightarrow> Inl (failed text) | None \<Rightarrow> Inr r))"

definition no_command :: lukki_params where
  "no_command = \<lparr> lp_server = None, lp_events = False, lp_values = [], lp_exist = None, lp_set = None, lp_upd = None, lp_get = None,
     lp_del = None, lp_stat = False \<rparr>"

lemmas session_defs = lukki_session_def then_show_def silently_def lukki_db_new_def db_void_def db_set_def db_upd_def db_get_def
  db_del_def db_get_stat_def db_exist_def db_subscribe_def exist_command_def value_command_def stat_command_def spec_stub_def
  no_command_def

text \<open>What each command does to the store.\<close>

lemma set_session:
  assumes "lukki_session (spec_stub failed) (no_command\<lparr> lp_set := Some name, lp_values := vs \<rparr>) d = (d', r)"
  shows "if name \<in> dom (sd_map d) then d' = d \<and> r = Inl (failed ''Record exists'')
         else sd_map d' = (sd_map d)(name \<mapsto> vs) \<and> r = Inr []"
  using assms by (auto simp: session_defs Let_def split: if_splits)

lemma upd_session:
  assumes "lukki_session (spec_stub failed) (no_command\<lparr> lp_upd := Some name, lp_values := vs \<rparr>) d = (d', r)"
  shows "if name \<in> dom (sd_map d) then sd_map d' = (sd_map d)(name \<mapsto> vs) \<and> r = Inr []
         else sd_map d' = sd_map d \<and> r = Inl (failed ''Record was not found'')"
  using assms by (auto simp: session_defs Let_def split: if_splits)

lemma del_session:
  assumes "lukki_session (spec_stub failed) (no_command\<lparr> lp_del := Some name \<rparr>) d = (d', r)"
  shows "if name \<in> dom (sd_map d) then sd_map d' = (sd_map d)(name := None) \<and> r = Inr []
         else sd_map d' = sd_map d \<and> r = Inl (failed ''Record was not found'')"
  using assms by (auto simp: session_defs Let_def split: if_splits)

lemma get_session:
  assumes "lukki_session (spec_stub failed) (no_command\<lparr> lp_get := Some name \<rparr>) d = (d', r)"
  shows "sd_map d' = sd_map d
    \<and> r = (case sd_map d name of Some vs \<Rightarrow> Inr [Shown_values vs] | None \<Rightarrow> Inl (failed ''Record was not found''))"
  using assms by (auto simp: session_defs Let_def split: option.splits)

text \<open>
  What one client stores another finds: after a \<open>--set\<close> that did not fail, or an \<open>--upd\<close> that did not fail, a \<open>--get\<close> of the same
  name shows exactly the values that were given, in their order; after a \<open>--del\<close> it fails.
\<close>

theorem stored_values_are_shown:
  assumes "lukki_session (spec_stub failed) params d = (d1, Inr out)"
    and "lukki_session (spec_stub failed) (no_command\<lparr> lp_get := Some name \<rparr>) d1 = (d2, r)"
  shows "params = no_command\<lparr> lp_set := Some name, lp_values := vs \<rparr> \<Longrightarrow> r = Inr [Shown_values vs]"
    and "params = no_command\<lparr> lp_upd := Some name, lp_values := vs \<rparr> \<Longrightarrow> r = Inr [Shown_values vs]"
    and "params = no_command\<lparr> lp_del := Some name \<rparr> \<Longrightarrow> r = Inl (failed ''Record was not found'')"
proof -
  note get = get_session [OF assms(2)]
  show "r = Inr [Shown_values vs]" if "params = no_command\<lparr> lp_set := Some name, lp_values := vs \<rparr>"
    using set_session [OF assms(1) [unfolded that]] get by (simp split: if_splits)
  show "r = Inr [Shown_values vs]" if "params = no_command\<lparr> lp_upd := Some name, lp_values := vs \<rparr>"
    using upd_session [OF assms(1) [unfolded that]] get by (simp split: if_splits)
  show "r = Inl (failed ''Record was not found'')" if "params = no_command\<lparr> lp_del := Some name \<rparr>"
    using del_session [OF assms(1) [unfolded that]] get by (simp split: if_splits)
qed

text \<open>Of several commands on values the client obeys one, in the order set, upd, get, del.\<close>

lemma first_command_wins:
  "lp_set params = Some name \<Longrightarrow> value_command stub params s = silently (db_set stub name (lp_values params) s)"
  "lp_set params = None \<Longrightarrow> lp_upd params = Some name \<Longrightarrow>
     value_command stub params s = silently (db_upd stub name (lp_values params) s)"
  by (simp_all add: value_command_def)

text \<open>With \<open>--events\<close> the client subscribes before its own commands: it is told of its own changes.\<close>

lemma subscribes_first:
  assumes "lp_events params" and "lp_set params = Some name" and "lp_exist params = None" and "\<not> lp_stat params"
  shows "lukki_session (\<lambda>req log. (log @ [req], Inr Res_empty)) params [] =
    ([Req_init, Req_subscribe, Req_set name (lp_values params)], Inr [])"
  using assms by (simp add: session_defs)

end
