(* ===== verification/Spec2Isabelle.thy ===== *)
theory Spec2Isabelle
  imports End_To_End Client_Connection Client_Base Connections Observer Executors Client_Object Http_Protocol
    Lukki_Db Remote_Tree Stress Calculator Ssl_Listener Tls_Tunnel Proxy Transport_Point Pipe_Listener
    Lukki_Client
begin

text \<open>
  \<^bold>\<open>The program.\<close> vtrc is a C++ library for remote procedure calls over asio. A connection has, from the
  bottom to the top, a transport that writes to a stream, a low-level protocol that frames, hashes
  and enciphers messages, a handshake that sets the low-level protocol up, a protocol layer that
  routes units (calls, callbacks, answers) to slots and to services, and channels through which
  calls are made. Around them stand the listener with its list of connections, the client object
  with its services and session, the observers both use for their signals, and the threads and
  timers that run the handlers.

  \<^bold>\<open>Theories and sources\<close> (paths below \<open>src/\<close>; \<open>common\<close> is \<open>lib/vtrc/common\<close>).

  \<^item> \<open>Prelude\<close>: words, bytes, exceptions as values, shared facts on words, lists and maps.
  \<^item> \<open>Sizepack\<close>: \<open>common/sizepack-policy.h\<close>, length prefixes, fixed and variable. Round trip, and the
    locale \<open>size_policy\<close> both satisfy.
  \<^item> \<open>Data_Queue\<close>: \<open>common/data-queue.cpp\<close>, the parser and serializer of frames: any splitting gives the
    same messages, bounds on every input, refusal of frames that are too long.
  \<^item> \<open>Hash\<close>, \<open>Sha256\<close>: \<open>common/hash\<close>. The table of CRC-32 is the polynomial; bursts are detected; the
    locales \<open>hash_law\<close> and \<open>digest_law\<close>.
  \<^item> \<open>Transformers\<close>: \<open>common/transformer\<close>, \<open>common/erseefor.h\<close> and \<open>common/crypt\<close>, the ciphers erseefor (RC4) and ChaCha; locales
    \<open>transformer_law\<close> and \<open>keystream_law\<close>.
  \<^item> \<open>Lowlevel\<close>: \<open>common/lowlevel-protocol-default.cpp\<close>: what one side packs the other delivers, also around
    a damaged message.
  \<^item> \<open>Transport\<close>: \<open>common/transport/stream-impl.h\<close>, the queue of writes on a strand. The stream is an
    adversary that takes any number of bytes at a time and may fail. Order, progress, callbacks once;
    locale \<open>packer\<close>.
  \<^item> \<open>Condition_Queues\<close>: \<open>common/condition-queues.h\<close>, the slots callers wait in, under every
    interleaving of threads; locale \<open>slot_store\<close> with its abstraction to a map of queues.
  \<^item> \<open>Rpc_Types\<close>, \<open>Protocol_Layer\<close>, \<open>Call_Context\<close>: units and errors, \<open>common/protocol-layer.cpp\<close> (slots, local
    calls, the closure of a call) and \<open>common/call-context.cpp\<close>.
  \<^item> \<open>Message_Router\<close>, \<open>Protocol_Server\<close>, \<open>Protocol_Client\<close>: \<open>protocol-layer-s.cpp\<close> and \<open>protocol-layer-c.cpp\<close>, with
    the contract \<open>answer_router\<close> both keep; the limit of active calls as an invariant of a step relation.
  \<^item> \<open>Unit_Stream\<close>: from the bytes of a read to the handlers of the units in them; locale \<open>unit_reader\<close>,
    interpreted on both layers.
  \<^item> \<open>Rpc_Channel\<close>, \<open>Call_Refinement\<close>: \<open>common/rpc-channel.cpp\<close>, \<open>client/rpc-channel-c.cpp\<close>,
    \<open>server/channels.cpp\<close>; the specification of a waiting call and its refinement.
  \<^item> \<open>Protobuf\<close>, \<open>Auth_Messages\<close>: an executable encoding of the messages of \<open>vtrc-auth.proto\<close>, used as the
    concrete instance of the codec.
  \<^item> \<open>Handshake\<close>, \<open>Handshake_Correct\<close>: \<open>server/connection/default.cpp\<close> and
    \<open>client/connection-default.cpp\<close>, and the run of both peers against each other; locale \<open>handshake_peer\<close>.
  \<^item> \<open>Environment\<close>, \<open>Client_Base\<close>: \<open>common/enviroment.cpp\<close>, the services and the session of
    \<open>client/base.cpp\<close>; locale \<open>string_store\<close>.
  \<^item> \<open>Client_Connection\<close>: \<open>client/stream-impl.h\<close> and the blocking connect of \<open>client/client.cpp\<close>.
  \<^item> \<open>Client_Object\<close>: \<open>client/client.cpp\<close>, the connection of \<open>client/base.cpp\<close>, and \<open>client/tcp.cpp\<close>, \<open>ssl.cpp\<close>,
    \<open>unix/local.cpp\<close>, \<open>posix-stream.cpp\<close>: what an attempt to connect reports (locale \<open>connector\<close>), and who
    holds a connection while it is read.
  \<^item> \<open>Connections\<close>: \<open>common/connection-list.cpp\<close>, \<open>server/listener/impl.h\<close>, \<open>listener.cpp\<close>,
    \<open>server/connection/impl.h\<close>, \<open>server/application.cpp\<close>, \<open>server/listener/custom.cpp\<close>: the count and
    the list of the open connections.
  \<^item> \<open>Ssl_Listener\<close>: \<open>server/listener/ssl.cpp\<close>, \<open>tcp.cpp\<close>, \<open>unix-local.cpp\<close>: the TLS listener with its handshakes and
    their timers as a step relation whose steps are steps of \<open>Connections\<close>; no protocol before the
    handshake.
  \<^item> \<open>Pipe_Listener\<close>: \<open>listener/win-pipe.cpp\<close>, accepting by overlapped operations: the count is exact, but errors
    and stops get lost.
  \<^item> \<open>Linked_List\<close>, \<open>Observer\<close>: \<open>include/vtrc/common/details/list.h\<close> over an explicit heap, and
    \<open>include/vtrc/common/observer\<close> with slots that subscribe and unsubscribe during a notification,
    refined to a signal without pointers.
  \<^item> \<open>Executors\<close>: \<open>common/thread-pool.cpp\<close>, \<open>pool-pair.cpp\<close>, \<open>include/vtrc/common/timers/periodical.h\<close>.
  \<^item> \<open>Once_Timer\<close>: \<open>include/vtrc/common/timers/once.h\<close> over \<open>delayed-call.h\<close>: each started handler is
    queued exactly once, with or without an error.
  \<^item> \<open>Application\<close>: \<open>server/application.cpp\<close>, what a server hosts and which services it finds.
  \<^item> \<open>Http_Header\<close>, \<open>Http_Protocol\<close>: \<open>examples/hello-events-http\<close>, units written as HTTP messages by a custom
    low-level protocol: hexadecimal bodies and headers round trip, reading is total and does not
    depend on the splitting of the text, and units are delivered in order. The predicate
    \<open>lexical_cast_law\<close> states what is used of \<open>boost::lexical_cast\<close>.
  \<^item> \<open>Service_Refinement\<close>: the contract of a service whose calls are given to an abstract object one
    after the other, interpreted on the record store.
  \<^item> \<open>Lukki_Db\<close>: \<open>examples/lukki-db/server\<close>, a store of records on a strand with subscribers, refined to a map.
  \<^item> \<open>Lukki_Client\<close>: \<open>examples/lukki-db/client\<close>: what one client stores another finds.
  \<^item> \<open>Remote_File\<close>, \<open>Remote_Fs\<close>: \<open>examples/remote-fs\<close>, handles for files, paths and directory iterators, and
    the loops of the client that pull, push and list.
  \<^item> \<open>Remote_Client\<close>: the client objects of \<open>examples/remote-fs\<close>, which leave no handles behind.
  \<^item> \<open>Remote_Tree\<close>: walks over remote trees that print or copy them: every entry once, each file in its place.
  \<^item> \<open>Tls_Tunnel\<close>: \<open>examples/hello-ssl-handshake\<close>, TLS between two memory buffers carried by calls: the
    handshake ends and what is sent comes back, however OpenSSL cuts it.
  \<^item> \<open>Proxy\<close>: \<open>examples/proxy-test\<close>, units forwarded from client to client, and why none is answered.
  \<^item> \<open>Transport_Point\<close>: \<open>draft/common/async-transport-point.hpp\<close>, the queue of writes of the draft, in order
    until a write fails, and never again after.
  \<^item> \<open>Calculator\<close>: \<open>examples/calculator\<close>, a service that asks its caller for variables; nested calls compute
    the expression they spell out.
  \<^item> \<open>Stress\<close>: \<open>examples/stress\<close>, the endpoints, options, timers and retries of the stress server.
  \<^item> \<open>Stress_Service\<close>, \<open>Stress_Client\<close>: its process, from the command line to the stop, with its counters and
    generated events; the requests a command line of the client leads to, its pings and its printed stack.
  \<^item> \<open>End_To_End\<close> and this theory: sessions, units and calls across the components.

  \<^bold>\<open>How the code is represented.\<close> An object is a record, an operation a function that returns the changed
  record; what may raise returns \<open>exn + 'a\<close> beside the state the exception leaves behind, and
  \<open>Undefined\<close> or \<open>None\<close> where C++ has undefined behaviour. Sizes, indices and counters whose
  wrap-around matters are words of their width. Handlers that run one after another (under a lock or
  on a strand) are single steps; whatever may happen between them is a step relation, and the
  properties hold in every reachable state. Weak and shared pointers appear as the question whether
  the object is alive.

  \<^bold>\<open>Parameters.\<close> The digest of a configured SHA library (\<open>digest\<close>, of which only the length is used, and
  which the bundled SHA-256 satisfies), the generated protobuf classes (\<open>auth_codec\<close> with
  \<open>codec_ok\<close>, which \<open>protobuf_codec\<close> satisfies, and \<open>parse\<close>), the application (keys, limits, services),
  the random device, asio (when and how far operations complete), the wrapping of services, the standard
  streams and the file system behind the remote files (what an operation returns is an argument),
  \<open>boost::lexical_cast\<close>, and OpenSSL (the record \<open>openssl\<close> with the laws \<open>bio_laws\<close>, \<open>session_laws\<close>,
  \<open>handshake_laws\<close> and \<open>seal_laws\<close>, which \<open>masked_ossl\<close> satisfies).

  \<^bold>\<open>Loops.\<close> Loops over queues are functions with a termination proof. Loops that follow pointers or wait
  for others are \<open>partial_function\<close> or take a trace, and the theorems say that they return:
  the list and observer operations on every well-formed heap, a waiting call as soon as the trace has
  more waits than units for its slot, the worker thread when the service is stopped, the loops of the
  TLS tunnel for blocks of at most \<open>2 ^ 19\<close> bytes, whose records stay below the range of \<open>int\<close>.

  \<^bold>\<open>Not modelled.\<close> The particular transports (TCP, SSL, local sockets, pipes) and the client
  of a Windows pipe only call asio, OpenSSL and the operating system. The message helpers are compiled out. The
  service and stub wrappers forward to generated code, and the public functions of most classes to
  their \<open>impl\<close>. The command lines and the output of the other examples, the examples that only show one call,
  and the programs of the draft are left out. Data races on fields that the code reads without a lock are outside of
  the model, except where a finding names one.
\<close>

section \<open>Properties that span components\<close>

text \<open>The example of \<open>Transport\<close>: one message, sent in two pieces.\<close>

lemma example_wire:
  "\<forall>d. length (sha256i d) = 32" "hash_create_by_index sha256i HASH_NONE = Some hasher_none"
  "dp_hash_maker dp_new = hasher_none" "in_step dp_new dp_new" "qb_data (dp_queue dp_new) = []"
  "\<forall>m \<in> set [example_message]. length (mh_message m) + h_size hasher_none \<le> unat (qb_max (dp_queue dp_new))"
  by (simp_all add: sha256i_length hash_create_by_index_def in_step_def dp_new_def queue_new_def queue_wf_def
      default_session_options_def hasher_none_def example_message_def make_holder_def)

definition example_transport :: "default_protocol transport" where
  "example_transport = \<lparr> tr_proto = dp_new, tr_posted = [], tr_queue = [], tr_pending = None, tr_closed = False,
     tr_wire = [2, 1, 2], tr_events = [Tr_closure 7 False] \<rparr>"

lemma example_transport:
  "tr_reach pack_message dp_new [example_message] example_transport" "idle example_transport"
  "prefix (concat [[2], [1, 2]]) (tr_wire example_transport)" "concat [[2], [1, 2]] = tr_wire example_transport"
  using example_run(2) by (simp_all add: example_transport_def idle_def failed_def)

lemmas server_example_defs = ps_dispatch_def ps_process_call_def ps_max_calls_def ps_new_def pl_new_def
  default_session_options_def llu_new_def message_type_defs

lemmas client_example_defs = pc_dispatch_def pc_process_call_def pc_new_def llu_new_def message_type_defs

text \<open>
  C2. A session is a reliable channel. After the handshake with a shared key, whatever messages
  within the negotiated limit one side writes to its transport, however the stream cuts, delays or
  breaks off the bytes, the other side delivers exactly a beginning of those messages, in order and
  undamaged, and all of them once the transport is idle; in both directions.
\<close>

theorem session_delivers:
  assumes "codec_ok cd" and "sa_session_key app ident = key"
    and "fits_opts default_session_options (first_message cd)"
    and "fits_opts opts (selection_message cd ident (Some key))"
    and "fits_opts default_session_options (salts_message cd rd)" and "fits_opts opts (salts_message cd rdc)"
    and "fits_opts default_session_options (ready_message cd app opts)"
  shows "\<exists>s c. reaches cd app (server_start cd opts rd, client_start ident (Some key) rdc) (s, c)
           \<and> delivers (sa_configure_session app opts) (sh_dp s) (hc_dp c)
           \<and> delivers (sa_configure_session app opts) (hc_dp c) (sh_dp s)"
proof -
  obtain s c where "reaches cd app (server_start cd opts rd, client_start ident (Some key) rdc) (s, c)"
    and h: "hs_complete (sa_configure_session app opts) s c"
    using cypher_run [OF assms] by blast
  with complete_delivers [OF h] show ?thesis by blast
qed

theorem session_delivers_witness:
  "\<exists>s c. reaches protobuf_codec (open_app True [1, 2, 3])
       (server_start protobuf_codec default_session_options ((\<lambda>_. 7), 0), client_start ''me'' (Some [1, 2, 3]) ((\<lambda>_. 9), 0)) (s, c)
     \<and> delivers default_session_options (sh_dp s) (hc_dp c)"
proof -
  have k: "sa_session_key (open_app True [1, 2, 3]) ''me'' = [1, 2, 3]" by (simp add: open_app_def)
  have o: "sa_configure_session (open_app True [1, 2, 3]) default_session_options = default_session_options"
    by (simp add: open_app_def)
  from session_delivers [OF protobuf_codec_ok k example_messages(1,2) example_messages(5) example_messages(5)
      example_messages(4), of "((\<lambda>_. 7), 0)" "((\<lambda>_. 9), 0)", unfolded o]
  show ?thesis by blast
qed



text \<open>
  C26. A client without a key that meets a server which asks for one is refused: neither side becomes
  ready, the server closes the connection after its answer, and \<open>connect\<close> raises an internal error
  that carries the server's reason.
\<close>

theorem connect_refused:
  assumes "codec_ok cd" and "sa_session_key_required app []"
    and "fits_opts default_session_options (first_message cd)"
    and "fits_opts opts (selection_message cd ident None)"
    and "fits_opts default_session_options (refusal_message cd)"
  shows "\<exists>s c. reaches cd app (server_start cd opts rd, client_start ident None rdc) (s, c)
           \<and> \<not> sh_ready s \<and> \<not> hc_ready c \<and> last (sh_events s) = Ev_connection_close
           \<and> (\<forall>sigs. concat sigs = signals_of (hc_events c) \<longrightarrow>
                connect_impl (Inr ()) sigs = Inl (rpc_exception_msg ERR_INTERNAL ''Session key required''))"
proof -
  obtain s c where "reaches cd app (server_start cd opts rd, client_start ident None rdc) (s, c)"
    "\<not> sh_ready s" "\<not> hc_ready c" "last (sh_events s) = Ev_connection_close"
    and e: "hc_events c = [Ev_error (auth_error ERR_ACCESS ''Session key required'') ''Session key required'', Ev_close]"
    using refused_run [OF assms] by blast
  with connect_after_error [OF e] show ?thesis by blast
qed

theorem connect_refused_witness:
  "\<exists>s c. reaches protobuf_codec (open_app True []) (server_start protobuf_codec default_session_options ((\<lambda>_. 7), 0),
             client_start ''me'' None ((\<lambda>_. 9), 0)) (s, c)
     \<and> \<not> sh_ready s \<and> connect_impl (Inr ()) [signals_of (hc_events c)] = Inl (rpc_exception_msg ERR_INTERNAL ''Session key required'')"
proof -
  have k: "sa_session_key_required (open_app True []) []" by (simp add: open_app_def)
  have "concat [signals_of (hc_events c)] = signals_of (hc_events c)" for c by simp
  with connect_refused [OF protobuf_codec_ok k example_messages(1,2,3), of "((\<lambda>_. 7), 0)" "((\<lambda>_. 9), 0)"]
  show ?thesis by blast
qed

text \<open>
  C3. The units a client writes reach the handlers of the server: of whatever bytes the server has
  read, in whatever pieces, it has handled exactly a beginning of the units the client sent, each
  once and in order, and all of them once the transport of the client is idle. Nothing else happens
  to the state of the server.
\<close>

theorem server_handles_units:
  assumes "\<forall>d. length (digest d) = 32" and "hash_create_by_index digest v = Some h"
    and "tr_reach pack_message a ms t" and "dp_hash_maker a = h" and "in_step a (ps_low s)"
    and "qb_data (dp_queue (ps_low s)) = []"
    and "\<forall>m \<in> set ms. length (mh_message m) + h_size h \<le> unat (qb_max (dp_queue (ps_low s)))"
    and "map (parse \<circ> mh_message) ms = map Some us" and "prefix (concat cs) (tr_wire t)"
    and "run_all ps_dispatch us s = (s', Inr ())"
  shows "\<exists>k b' s''. k \<le> length us \<and> run_all ps_dispatch (take k us) s = (s'', Inr ())
           \<and> run_all (ps_process_data parse) cs s = (ps_set_low b' s'', Inr ())
           \<and> (idle t \<and> concat cs = tr_wire t \<longrightarrow> s'' = s' \<and> in_step (tr_proto t) b' \<and> qb_data (dp_queue b') = [])"
  by (rule server_units.units_handled [OF hash_create_law [OF assms(1,2)] assms(3-10)])

theorem server_handles_units_witness:
  "ps_posted (fst (run_all (ps_process_data (\<lambda>_. Some (llu_new\<lparr> llu_type := MESSAGE_CLIENT_CALL, llu_id := 5 \<rparr>))) [[2], [1, 2]]
       (ps_new default_session_options))) = [llu_new\<lparr> llu_type := MESSAGE_CLIENT_CALL, llu_id := 5 \<rparr>]"
proof -
  let ?s = "ps_new default_session_options" and ?u = "llu_new\<lparr> llu_type := MESSAGE_CLIENT_CALL, llu_id := 5 \<rparr>"
  obtain s' where d: "ps_dispatch ?u ?s = (s', Inr ())" "ps_posted s' = [?u]"
    by (simp add: server_example_defs)
  then have r: "run_all ps_dispatch [?u] ?s = (s', Inr ())" by simp
  have l: "ps_low ?s = dp_new" by (simp add: ps_low_def ps_new_def pl_new_def)
  have "map ((\<lambda>_. Some ?u) \<circ> mh_message) [example_message] = map Some [?u]" by simp
  from server_handles_units [OF example_wire(1,2) example_transport(1) example_wire(3), of ?s, unfolded l,
      OF example_wire(4-6) this example_transport(3) r] example_transport(2,4)
  obtain b' where "run_all (ps_process_data (\<lambda>_. Some ?u)) [[2], [1, 2]] ?s = (ps_set_low b' s', Inr ())" by blast
  then show ?thesis using d(2) by (simp add: ps_set_low_def ps_on_layer_def)
qed

text \<open>
  C16. The units a server writes reach the handlers of the client in the same way, answers and
  callbacks alike.
\<close>

theorem client_handles_units:
  assumes "\<forall>d. length (digest d) = 32" and "hash_create_by_index digest v = Some h"
    and "tr_reach pack_message a ms t" and "dp_hash_maker a = h" and "in_step a (pc_low s)"
    and "qb_data (dp_queue (pc_low s)) = []"
    and "\<forall>m \<in> set ms. length (mh_message m) + h_size h \<le> unat (qb_max (dp_queue (pc_low s)))"
    and "map (parse \<circ> mh_message) ms = map Some us" and "prefix (concat cs) (tr_wire t)"
    and "run_all pc_dispatch us s = (s', Inr ())"
  shows "\<exists>k b' s''. k \<le> length us \<and> run_all pc_dispatch (take k us) s = (s'', Inr ())
           \<and> run_all (pc_process_data parse) cs s = (pc_set_low b' s'', Inr ())
           \<and> (idle t \<and> concat cs = tr_wire t \<longrightarrow> s'' = s' \<and> in_step (tr_proto t) b' \<and> qb_data (dp_queue b') = [])"
  by (rule client_units.units_handled [OF hash_create_law [OF assms(1,2)] assms(3-10)])

theorem client_handles_units_witness:
  "pc_posted (fst (run_all (pc_process_data (\<lambda>_. Some (llu_new\<lparr> llu_type := MESSAGE_SERVER_CALL, llu_id := 5 \<rparr>))) [[2], [1, 2]]
       (pc_new default_session_options))) = [llu_new\<lparr> llu_type := MESSAGE_SERVER_CALL, llu_id := 5 \<rparr>]"
proof -
  let ?s = "pc_new default_session_options" and ?u = "llu_new\<lparr> llu_type := MESSAGE_SERVER_CALL, llu_id := 5 \<rparr>"
  obtain s' where d: "pc_dispatch ?u ?s = (s', Inr ())" "pc_posted s' = [?u]"
    by (simp add: client_example_defs)
  then have r: "run_all pc_dispatch [?u] ?s = (s', Inr ())" by simp
  have l: "pc_low ?s = dp_new" by (simp add: pc_low_def pc_new_def pl_new_def)
  have "map ((\<lambda>_. Some ?u) \<circ> mh_message) [example_message] = map Some [?u]" by simp
  from client_handles_units [OF example_wire(1,2) example_transport(1) example_wire(3), of ?s, unfolded l,
      OF example_wire(4-6) this example_transport(3) r] example_transport(2,4)
  obtain b' where "run_all (pc_process_data (\<lambda>_. Some ?u)) [[2], [1, 2]] ?s = (pc_set_low b' s', Inr ())" by blast
  then show ?thesis using d(2) by (simp add: pc_set_low_def pc_on_layer_def)
qed

text \<open>A call that negates its bytes, for an example.\<close>

definition negate_app :: services where
  "negate_app = (\<lambda>_. Some (\<lambda>_. Some (\<lambda>req.
     \<lparr> mr_use = Run_normal, mr_controller = controller_new, mr_response = map uminus req, mr_exn = None \<rparr>)))"

definition negate_call :: lowlevel_unit where
  "negate_call = llu_new\<lparr> llu_type := MESSAGE_CLIENT_CALL, llu_id := 103, llu_service_id := ''calc'',
     llu_method_id := ''neg'', llu_request := [1], llu_opt := default_unit_options \<rparr>"

text \<open>
  C4. A remote call does what the called method does. A call the server has room for is answered
  exactly once and counted as done; the client's layer puts that answer into the slot of the call;
  and the caller, whatever else arrives meanwhile for other calls, gets the response of the method,
  or the error of a missing service or method, of a failed or cancelled call, of an exception or of
  a stack that is too deep.
\<close>

theorem rpc_roundtrip:
  assumes "llu_type llu = MESSAGE_CLIENT_CALL" and "uo_wait (llu_opt llu)" and "uo_accept_response (llu_opt llu)"
    and "ec_code (llu_error llu) = ERR_NO_ERROR"
    and "ps_current_calls s + 1 \<le> ps_max_calls s" and "call_finishes (ps_lookup app s) llu"
    and "s' = ps_execute True depth app (length (ps_posted s)) (fst (ps_dispatch llu s))"
    and "cq_wf (pl_rpc_queue (ce_layer e))" and "pl_ready (ce_layer e)"
    and "slots (pl_rpc_queue (ce_layer e)) (llu_id llu) = None"
  shows "\<exists>a. pl_sent (ps_layer s') = pl_sent (ps_layer s) @ [a] \<and> ps_current_calls s' = ps_current_calls s
           \<and> (\<forall>c. pl_rpc_queue (pc_layer (fst (pc_dispatch a c)))
                  = push_traffic [(llu_id llu, a)] (pl_rpc_queue (pc_layer c)))
           \<and> (\<forall>tr. units_for (llu_id llu) tr = [a] \<longrightarrow>
                (\<exists>e'. call_and_wait ch True alive handlers (llu_id llu) llu True [traffic_wait tr] e
                   = Some (e', answer_outcome ch
                       (call_answer depth (ps_lookup app s) (pl_session_opts (ps_layer s)) llu) a)))"
proof -
  obtain a where a: "pl_sent (ps_layer s') = pl_sent (ps_layer s) @ [a]" "ps_current_calls s' = ps_current_calls s"
    and ans: "answer_unit llu (call_answer depth (ps_lookup app s) (pl_session_opts (ps_layer s)) llu) a"
    using server_answers_call [OF assms(1,2,5,6,7)] by blast
  have t: "llu_type a \<in> {MESSAGE_CLIENT_CALL, MESSAGE_CLIENT_CALLBACK}" "llu_id a = llu_id llu"
    using ans assms(1) by (simp_all add: answer_unit_def)
  have "pl_rpc_queue (pc_layer (fst (pc_dispatch a c))) = push_traffic [(llu_id llu, a)] (pl_rpc_queue (pc_layer c))" for c
    using client_answers.answer_pushed [OF t(1)] t(2) by (simp add: push_rpc_message_def push_traffic_def split_beta)
  with a caller_gets_answer [OF assms(8-10) ans assms(3,4)] show ?thesis by blast
qed

theorem rpc_roundtrip_witness:
  "\<exists>a. pl_sent (ps_layer (ps_execute True 1 negate_app 0 (fst (ps_dispatch negate_call (ps_new default_session_options))))) = [a]
     \<and> (\<exists>e'. call_and_wait (client_channel_new None 0) True True (\<lambda>_. None) 103 negate_call True
           [traffic_wait [(77, negate_call), (103, a)]] fresh_env = Some (e', Inr (True, Some [255])))"
proof -
  let ?s = "ps_new default_session_options"
  have look: "ps_lookup negate_app ?s = negate_app"
    by (rule ext) (simp add: ps_lookup_def ps_get_service_def ps_new_def negate_app_def)
  have u: "llu_type negate_call = MESSAGE_CLIENT_CALL" "uo_wait (llu_opt negate_call)"
    "uo_accept_response (llu_opt negate_call)" "ec_code (llu_error negate_call) = ERR_NO_ERROR" "llu_id negate_call = 103"
    by (simp_all add: negate_call_def default_unit_options_def llu_new_def no_error_def)
  have room: "ps_current_calls ?s + 1 \<le> ps_max_calls ?s"
    by (simp add: ps_new_def ps_max_calls_def pl_new_def default_session_options_def)
  have fin: "call_finishes (ps_lookup negate_app ?s) negate_call"
    unfolding look by (simp add: call_finishes_def negate_app_def finishes_def)
  have ans: "call_answer 1 (ps_lookup negate_app ?s) (pl_session_opts (ps_layer ?s)) negate_call = Inr [255]"
    unfolding look by (simp add: call_answer_def negate_app_def negate_call_def method_answer_def controller_new_def ps_new_def pl_new_def
        default_session_options_def)
  have p: "length (ps_posted ?s) = 0" "pl_sent (ps_layer ?s) = []" by (simp_all add: ps_new_def pl_new_def)
  have out: "answer_outcome ch (Inr [255]) a = Inr (True, Some [255])" for ch a by (simp add: answer_outcome_def)
  from rpc_roundtrip [where depth = 1, OF u(1-4) room fin refl fresh_env_ok, of "client_channel_new None 0" True "\<lambda>_. None",
      unfolded ans p u(5) out]
  show ?thesis by auto
qed

end
